(* ===== verification/Prelude.thy ===== *)
theory Prelude
  imports Main "HOL-Library.Word" "HOL-Library.Multiset" "HOL-Library.AList"
begin

text \<open>
  Shared vocabulary of the development: the types the components use for Rust values,
  the named collections of facts, the generic lemmas on lists and maps, and the locale
  of invariants over runs that every stateful component interprets.

  Conventions. A Rust \<open>String\<close> is an Isabelle \<open>string\<close>, the list of its
  bytes; byte offsets become offsets in that list. Whitespace and letter case are those of
  the ASCII characters; a definition that has to count characters of several bytes says so.
  An \<open>Instant\<close> or \<open>Duration\<close> is a natural number (its unit is stated by the
  component), so the saturating \<open>duration_since\<close> of the standard library is the
  truncating subtraction of \<open>nat\<close>. A \<open>Result\<close> is a sum with the error on the
  left; an operation that mutates its receiver returns the new receiver beside its
  result, on the error paths too.
\<close>

type_synonym instant = nat
type_synonym duration = nat
type_synonym u8 = "8 word"
type_synonym u32 = "32 word"
type_synonym u64 = "64 word"

text \<open>
  \<open>model_defs\<close> collects the defining equations of the component operations,
  \<open>inv_defs\<close> the invariants, \<open>frame\<close> what an operation leaves alone.
\<close>

named_theorems model_defs
named_theorems inv_defs
named_theorems frame

section \<open>Runs over event lists\<close>

text \<open>
  A component is a deterministic step function over its events; a run folds the step over
  a list of events. A predicate that one step keeps holds along every run.
\<close>

locale run_invariant =
  fixes step :: "'s \<Rightarrow> 'e \<Rightarrow> 's"
    and inv :: "'s \<Rightarrow> bool"
  assumes step_inv: "inv s \<Longrightarrow> inv (step s e)"
begin

lemma run_inv: "inv s \<Longrightarrow> inv (foldl step s es)"
  by (induction es arbitrary: s) (auto intro: step_inv)

lemma run_inv_prefix: "inv s \<Longrightarrow> inv (foldl step s (take n es))"
  by (rule run_inv)

end

section \<open>Lists\<close>

lemma find_SomeD: "find P xs = Some x \<Longrightarrow> x \<in> set xs \<and> P x"
  by (induction xs) (auto split: if_splits)

lemma find_None_conv: "find P xs = None \<longleftrightarrow> (\<forall>x \<in> set xs. \<not> P x)"
  by (induction xs) auto

lemma distinct_map_inj:
  "distinct (map f xs) \<Longrightarrow> x \<in> set xs \<Longrightarrow> y \<in> set xs \<Longrightarrow> f x = f y \<Longrightarrow> x = y"
  by (induction xs) (auto simp: rev_image_eqI)

lemma map_replace_key:
  "(\<And>x. f (g x) = f x) \<Longrightarrow> map f (map (\<lambda>x. if P x then g x else x) xs) = map f xs"
  by simp

text \<open>The first element satisfying a test replaced by its image, as \<open>iter_mut().find\<close> does.\<close>

fun update_first :: "('a \<Rightarrow> bool) \<Rightarrow> ('a \<Rightarrow> 'a) \<Rightarrow> 'a list \<Rightarrow> 'a list" where
  "update_first P f [] = []"
| "update_first P f (x # xs) = (if P x then f x # xs else x # update_first P f xs)"

lemma map_update_first:
  "(\<And>x. g (f x) = g x) \<Longrightarrow> map g (update_first P f xs) = map g xs"
  by (induction xs) auto

lemma length_update_first [simp]: "length (update_first P f xs) = length xs"
  by (induction xs) auto

lemma update_first_none: "find P xs = None \<Longrightarrow> update_first P f xs = xs"
  by (induction xs) (auto split: if_splits)

lemma set_update_first:
  "find P xs = Some x \<Longrightarrow> set (update_first P f xs) \<subseteq> insert (f x) (set xs)"
  by (induction xs) (auto split: if_splits)

lemma in_update_firstD:
  "y \<in> set (update_first P f xs) \<Longrightarrow> y \<in> set xs \<or> (\<exists>x \<in> set xs. P x \<and> y = f x)"
  by (induction xs) (auto split: if_splits)

lemma find_update_first:
  "(\<And>x. P (f x) = P x) \<Longrightarrow> find P (update_first P f xs) = map_option f (find P xs)"
  by (induction xs) auto

lemma find_update_first_other:
  "(\<And>x. P x \<Longrightarrow> \<not> Q x \<and> \<not> Q (f x)) \<Longrightarrow> find Q (update_first P f xs) = find Q xs"
  by (induction xs) auto

lemma map_update_first_hom:
  "(\<And>x. h (f x) = g (h x)) \<Longrightarrow> (\<And>x. Q (h x) = P x) \<Longrightarrow>
   map h (update_first P f xs) = update_first Q g (map h xs)"
  by (induction xs) auto

lemma find_map: "find P (map f xs) = map_option f (find (P \<circ> f) xs)"
  by (induction xs) auto

text \<open>Stable sorting by a key, where keys are distinct.\<close>

lemma sorted_list_of_keys_unique:
  assumes "sorted (map k xs)" "sorted (map k ys)" "distinct (map k xs)" "distinct (map k ys)"
    and "set xs = set ys"
  shows "xs = ys"
proof -
  have "map k xs = map k ys"
    using assms by (intro sorted_distinct_set_unique) auto
  moreover have "inj_on k (set xs \<union> set ys)"
    using assms by (simp add: distinct_map)
  ultimately show ?thesis
    by (rule map_inj_on)
qed

lemma distinct_map_sort_key [simp]: "distinct (map f (sort_key k xs)) = distinct (map f xs)"
  by (metis mset_eq_imp_distinct_iff mset_map mset_sort)

text \<open>Pushing an element with a fresh key and sorting, the insertion idiom of the code.\<close>

lemma push_sort_fresh:
  assumes "distinct (map f xs)" and "find (\<lambda>y. f y = f x) xs = None"
  shows "distinct (map f (sort_key k (xs @ [x])))"
  using assms by (auto simp: find_None_conv distinct_map image_iff)

lemma sort_key_map: "(\<And>x. k (f x) = k x) \<Longrightarrow> sort_key k (map f xs) = map f (sort_key k xs)"
proof (induction xs)
  case (Cons x xs)
  have "insort_key k (f x) (map f ys) = map f (insort_key k x ys)" for ys
    by (induction ys) (auto simp: Cons.prems)
  then show ?case using Cons by simp
qed simp

section \<open>Hash maps\<close>

text \<open>\<open>retain\<close> on a map whose values may be rewritten while they are inspected.\<close>

definition map_retain :: "('k \<Rightarrow> 'v \<Rightarrow> 'v option) \<Rightarrow> ('k \<Rightarrow> 'v option) \<Rightarrow> ('k \<Rightarrow> 'v option)" where
  "map_retain f m = (\<lambda>k. case m k of None \<Rightarrow> None | Some v \<Rightarrow> f k v)"

lemma map_retain_Some:
  "map_retain f m k = Some v \<longleftrightarrow> (\<exists>u. m k = Some u \<and> f k u = Some v)"
  by (auto simp: map_retain_def split: option.splits)

lemma map_retain_None [simp]: "m k = None \<Longrightarrow> map_retain f m k = None"
  by (simp add: map_retain_def)

lemma inj_on_map_upd_fresh:
  assumes "inj_on m (dom m)" and "Some n \<notin> range m"
  shows "inj_on (m(i \<mapsto> n)) (insert i (dom m))"
proof (rule inj_onI)
  fix x y
  assume "x \<in> insert i (dom m)" "y \<in> insert i (dom m)" "(m(i \<mapsto> n)) x = (m(i \<mapsto> n)) y"
  moreover have "m z \<noteq> Some n" for z using assms(2) by (metis rangeI)
  ultimately show "x = y"
    using assms(1) by (auto simp: inj_on_def split: if_splits)
qed

lemma set_alist_update: "set (AList.update k v xs) \<subseteq> insert (k, v) (set xs)"
  by (induction xs) auto

lemma sum_option_cases:
  obtains "r = Inr None" | e where "r = Inl e" | x where "r = Inr (Some x)"
  by (metis option.exhaust sum.exhaust)

section \<open>Ordered maps\<close>

text \<open>\<open>BTreeMap\<close>: a list strictly sorted by key.\<close>

fun bt_insert :: "'k::linorder \<Rightarrow> 'v \<Rightarrow> ('k \<times> 'v) list \<Rightarrow> ('k \<times> 'v) list" where
  "bt_insert k v [] = [(k, v)]"
| "bt_insert k v ((k', v') # xs) =
     (if k < k' then (k, v) # (k', v') # xs
      else if k = k' then (k, v) # xs
      else (k', v') # bt_insert k v xs)"

definition bt_ok :: "('k::linorder \<times> 'v) list \<Rightarrow> bool" where
  "bt_ok xs \<longleftrightarrow> sorted (map fst xs) \<and> distinct (map fst xs)"

lemma bt_insert_keys: "fst ` set (bt_insert k v xs) = insert k (fst ` set xs)"
  by (induction k v xs rule: bt_insert.induct) auto

lemma bt_insert_set: "set (bt_insert k v xs) \<subseteq> insert (k, v) (set xs)"
  by (induction k v xs rule: bt_insert.induct) auto

lemma bt_insert_ok: "bt_ok xs \<Longrightarrow> bt_ok (bt_insert k v xs)"
proof (induction k v xs rule: bt_insert.induct)
  case (2 k v k' v' xs)
  then show ?case
    using bt_insert_keys [of k v xs] by (auto simp: bt_ok_def)
qed (simp add: bt_ok_def)

lemma bt_ok_filter: "bt_ok xs \<Longrightarrow> bt_ok (filter P xs)"
  by (auto simp: bt_ok_def distinct_map_filter sorted_filter)

lemma map_of_bt_insert: "bt_ok xs \<Longrightarrow> map_of (bt_insert k v xs) = (map_of xs)(k \<mapsto> v)"
proof (induction k v xs rule: bt_insert.induct)
  case (2 k v k' v' xs)
  have "map_of xs k = None" if "k < k'"
    using 2(2) that by (force simp: bt_ok_def map_of_eq_None_iff)
  then show ?case using 2 by (auto simp: bt_ok_def fun_eq_iff)
qed simp

lemma bt_unique:
  assumes "bt_ok xs" "bt_ok ys" "map_of xs = map_of ys"
  shows "xs = ys"
proof -
  have d: "distinct (map fst xs)" "distinct (map fst ys)" using assms by (auto simp: bt_ok_def)
  then have "set xs = set ys"
    using assms(3) by (metis map_of_inject_set)
  then show ?thesis
    using assms d by (intro sorted_list_of_keys_unique [where k = fst]) (auto simp: bt_ok_def)
qed

end
