(* ===== verification/Provider_Output.thy ===== *)
theory Provider_Output
  imports Prelude
begin

text \<open>
  The canonical provider segment model of \<open>crates/common/src/provider_output.rs\<close>: the
  typed output items, the append-only item updates, the redaction of backend replay state,
  and the materializer that folds updates into an ordered segment. An operation of the
  materializer returns the new materializer beside its \<open>Result\<close>, because the code
  assigns the segment identity and records the sequence number before it can fail.
\<close>

section \<open>Data\<close>

type_synonym provider_segment_id = string
type_synonym provider_item_id = string
type_synonym provider_item_position = nat

datatype provider_segment_outcome =
  Active | Completed | Incomplete | Failed | Cancelled | TransportError

datatype reasoning_content = RC_Text string | RC_Parts "string list"

record reasoning_part =
  part_index :: nat
  part_text :: string

record reasoning_item =
  ri_id :: provider_item_id
  ri_output_index :: provider_item_position
  summary_parts :: "reasoning_part list"
  visible_text :: "string option"
  encrypted_content :: "string option"

datatype provider_output_payload =
    Reasoning reasoning_item
  | Message string
  | FunctionCall string string string \<comment> \<open>call id, name, arguments\<close>

record provider_output_item =
  item_id :: provider_item_id
  item_position :: provider_item_position
  item_payload :: provider_output_payload

datatype provider_item_update_payload =
    ReasoningDelta nat string
  | ReasoningPartDone nat string
  | ReasoningItemDone "string option"
  | ReasoningText string
  | ReasoningTextDelta string
  | MessageDelta string
  | MessageDone string
  | FunctionCallStart string
  | FunctionCallDelta string
  | FunctionCallDone string

record provider_item_update =
  upd_segment_id :: provider_segment_id
  upd_item_id :: provider_item_id
  upd_position :: provider_item_position
  update_seq :: nat
  upd_payload :: provider_item_update_payload

record provider_segment =
  segment_id :: "provider_segment_id option"
  outcome :: provider_segment_outcome
  items :: "provider_output_item list"

datatype materializer_error =
    ClosedSegmentImmutable string provider_segment_outcome
  | SegmentIdMismatch string string
  | SegmentNeverOpened
  | NonMonotonicSequence string nat nat
  | PositionIdConflict nat string string
  | ItemPositionMismatch string nat nat
  | PayloadTypeMismatch string

record materializer =
  segment :: provider_segment
  last_update_seq :: "provider_item_id \<Rightarrow> nat option"

section \<open>Redaction and display\<close>

definition redacted_reasoning :: "reasoning_item \<Rightarrow> reasoning_item" where
  "redacted_reasoning r = r\<lparr>encrypted_content := None\<rparr>"

definition to_reasoning_content :: "reasoning_item \<Rightarrow> reasoning_content option" where
  "to_reasoning_content r =
     (if summary_parts r \<noteq> [] then
        (let parts = filter (\<lambda>t. t \<noteq> []) (map part_text (summary_parts r))
         in if parts = [] then None else Some (RC_Parts parts))
      else case visible_text r of
        Some t \<Rightarrow> if t = [] then None else Some (RC_Text t)
      | None \<Rightarrow> None)"

definition redacted_item :: "provider_output_item \<Rightarrow> provider_output_item" where
  "redacted_item i = i\<lparr>item_payload :=
     (case item_payload i of
        Reasoning r \<Rightarrow> Reasoning (redacted_reasoning r)
      | Message t \<Rightarrow> Message t
      | FunctionCall c n a \<Rightarrow> FunctionCall c n a)\<rparr>"

definition redacted_update :: "provider_item_update \<Rightarrow> provider_item_update" where
  "redacted_update u = u\<lparr>upd_payload :=
     (case upd_payload u of
        ReasoningItemDone _ \<Rightarrow> ReasoningItemDone None
      | other \<Rightarrow> other)\<rparr>"

definition segment_new :: "provider_segment_id \<Rightarrow> provider_segment" where
  "segment_new sid = \<lparr>segment_id = Some sid, outcome = Active, items = []\<rparr>"

definition segment_pending :: provider_segment where
  "segment_pending = \<lparr>segment_id = None, outcome = Active, items = []\<rparr>"

text \<open>
  The loop of \<open>reasoning_content\<close>: its state is the parts collected, the pending single
  text, and the two flags.
\<close>

fun reasoning_loop ::
  "provider_output_item list \<Rightarrow> string list \<times> string \<times> bool \<times> bool
     \<Rightarrow> string list \<times> string \<times> bool \<times> bool" where
  "reasoning_loop [] st = st"
| "reasoning_loop (i # is) (all_parts, single_text, has_parts, has_text) =
     (case item_payload i of
        Reasoning r \<Rightarrow>
          if summary_parts r \<noteq> [] then
            reasoning_loop is
              (all_parts @ map part_text (summary_parts r), single_text, True, has_text)
          else (case visible_text r of
              Some t \<Rightarrow>
                if single_text = [] then reasoning_loop is (all_parts, t, has_parts, True)
                else reasoning_loop is (all_parts @ [single_text, t], [], True, True)
            | None \<Rightarrow> reasoning_loop is (all_parts, single_text, has_parts, has_text))
      | _ \<Rightarrow> reasoning_loop is (all_parts, single_text, has_parts, has_text))"

definition segment_reasoning_content :: "provider_segment \<Rightarrow> reasoning_content option" where
  "segment_reasoning_content s =
     (case reasoning_loop (items s) ([], [], False, False) of
        (all_parts, single_text, has_parts, has_text) \<Rightarrow>
          if has_parts then
            (let ps = (if single_text \<noteq> [] then all_parts @ [single_text] else all_parts)
             in if ps = [] then None else Some (RC_Parts ps))
          else if has_text \<and> single_text \<noteq> [] then Some (RC_Text single_text)
          else None)"

fun message_parts :: "provider_output_item list \<Rightarrow> string" where
  "message_parts [] = []"
| "message_parts (i # is) =
     (case item_payload i of Message t \<Rightarrow> t @ message_parts is | _ \<Rightarrow> message_parts is)"

definition message_text :: "provider_segment \<Rightarrow> string option" where
  "message_text s = (let t = message_parts (items s) in if t = [] then None else Some t)"

section \<open>The materializer\<close>

definition materializer_new :: "provider_segment_id \<Rightarrow> materializer" where
  "materializer_new sid = \<lparr>segment = segment_new sid, last_update_seq = (\<lambda>_. None)\<rparr>"

definition materializer_pending :: materializer where
  "materializer_pending = \<lparr>segment = segment_pending, last_update_seq = (\<lambda>_. None)\<rparr>"

definition new_reasoning :: "provider_item_update \<Rightarrow> reasoning_part list \<Rightarrow> string option
    \<Rightarrow> string option \<Rightarrow> provider_output_payload" where
  "new_reasoning u ps vt enc = Reasoning
     \<lparr>ri_id = upd_item_id u, ri_output_index = upd_position u, summary_parts = ps,
      visible_text = vt, encrypted_content = enc\<rparr>"

definition create_item_from_update :: "provider_item_update \<Rightarrow> provider_output_item" where
  "create_item_from_update u =
     \<lparr>item_id = upd_item_id u, item_position = upd_position u, item_payload =
       (case upd_payload u of
          ReasoningDelta k d \<Rightarrow> new_reasoning u [\<lparr>part_index = k, part_text = d\<rparr>] None None
        | ReasoningPartDone k t \<Rightarrow> new_reasoning u [\<lparr>part_index = k, part_text = t\<rparr>] None None
        | ReasoningItemDone enc \<Rightarrow> new_reasoning u [] None enc
        | ReasoningText t \<Rightarrow> new_reasoning u [] (Some t) None
        | ReasoningTextDelta d \<Rightarrow> new_reasoning u [] (Some d) None
        | MessageDelta d \<Rightarrow> Message d
        | MessageDone t \<Rightarrow> Message t
        | FunctionCallStart n \<Rightarrow> FunctionCall (upd_item_id u) n []
        | FunctionCallDelta d \<Rightarrow> FunctionCall (upd_item_id u) [] d
        | FunctionCallDone a \<Rightarrow> FunctionCall (upd_item_id u) [] a)\<rparr>"

text \<open>
  The two reasoning branches of \<open>apply_payload_to_item\<close> share their shape: rewrite the
  text of the part with this index, or push a part and sort by index (a stable sort).
\<close>

definition upsert_part :: "nat \<Rightarrow> (string \<Rightarrow> string) \<Rightarrow> string \<Rightarrow> reasoning_part list
    \<Rightarrow> reasoning_part list" where
  "upsert_part k f fresh ps =
     (case find (\<lambda>p. part_index p = k) ps of
        Some _ \<Rightarrow> update_first (\<lambda>p. part_index p = k) (\<lambda>p. p\<lparr>part_text := f (part_text p)\<rparr>) ps
      | None \<Rightarrow> sort_key part_index (ps @ [\<lparr>part_index = k, part_text = fresh\<rparr>]))"

fun apply_payload :: "provider_output_payload \<Rightarrow> provider_item_update_payload
    \<Rightarrow> provider_output_payload option" where
  "apply_payload (Reasoning r) (ReasoningDelta k d) =
     Some (Reasoning (r\<lparr>summary_parts := upsert_part k (\<lambda>t. t @ d) d (summary_parts r)\<rparr>))"
| "apply_payload (Reasoning r) (ReasoningPartDone k t) =
     Some (Reasoning (r\<lparr>summary_parts := upsert_part k (\<lambda>_. t) t (summary_parts r)\<rparr>))"
| "apply_payload (Reasoning r) (ReasoningItemDone enc) =
     Some (Reasoning (if enc \<noteq> None then r\<lparr>encrypted_content := enc\<rparr> else r))"
| "apply_payload (Reasoning r) (ReasoningText t) = Some (Reasoning (r\<lparr>visible_text := Some t\<rparr>))"
| "apply_payload (Reasoning r) (ReasoningTextDelta d) =
     Some (Reasoning (r\<lparr>visible_text :=
       (case visible_text r of Some t \<Rightarrow> Some (t @ d) | None \<Rightarrow> Some d)\<rparr>))"
| "apply_payload (Message t) (MessageDelta d) = Some (Message (t @ d))"
| "apply_payload (Message t) (MessageDone t') = Some (Message t')"
| "apply_payload (FunctionCall c n a) (FunctionCallStart n') = Some (FunctionCall c n' a)"
| "apply_payload (FunctionCall c n a) (FunctionCallDelta d) = Some (FunctionCall c n (a @ d))"
| "apply_payload (FunctionCall c n a) (FunctionCallDone a') = Some (FunctionCall c n a')"
| "apply_payload _ _ = None"

definition apply_payload_to_item :: "provider_output_item \<Rightarrow> provider_item_update_payload
    \<Rightarrow> materializer_error + provider_output_item" where
  "apply_payload_to_item i p =
     (case apply_payload (item_payload i) p of
        Some q \<Rightarrow> Inr (i\<lparr>item_payload := q\<rparr>)
      | None \<Rightarrow> Inl (PayloadTypeMismatch (item_id i)))"

text \<open>The part of \<open>apply_update\<close> after the sequence check, on the item list.\<close>

definition apply_to_items :: "provider_output_item list \<Rightarrow> provider_item_update
    \<Rightarrow> materializer_error + provider_output_item list" where
  "apply_to_items xs u =
     (case find (\<lambda>i. item_id i = upd_item_id u) xs of
        Some existing \<Rightarrow>
          if item_position existing \<noteq> upd_position u then
            Inl (ItemPositionMismatch (upd_item_id u) (item_position existing) (upd_position u))
          else (case apply_payload_to_item existing (upd_payload u) of
              Inl e \<Rightarrow> Inl e
            | Inr i' \<Rightarrow> Inr (update_first (\<lambda>i. item_id i = upd_item_id u) (\<lambda>_. i') xs))
      | None \<Rightarrow>
          (case find (\<lambda>i. item_position i = upd_position u) xs of
             Some existing \<Rightarrow>
               Inl (PositionIdConflict (upd_position u) (item_id existing) (upd_item_id u))
           | None \<Rightarrow> Inr (sort_key item_position (xs @ [create_item_from_update u]))))"

text \<open>
  The sequence check and what follows it. The sequence number is recorded before the item
  list is touched, so a later failure still consumes it.
\<close>

definition apply_sequenced :: "materializer \<Rightarrow> provider_item_update
    \<Rightarrow> materializer \<times> (materializer_error + unit)" where
  "apply_sequenced m u =
     (let i = upd_item_id u;
          accept = (let m' = m\<lparr>last_update_seq := (last_update_seq m)(i := Some (update_seq u))\<rparr>
            in case apply_to_items (items (segment m')) u of
                 Inl e \<Rightarrow> (m', Inl e)
               | Inr xs \<Rightarrow> (m'\<lparr>segment := (segment m')\<lparr>items := xs\<rparr>\<rparr>, Inr ()))
      in case last_update_seq m i of
           Some last_seq \<Rightarrow>
             if update_seq u \<le> last_seq
             then (m, Inl (NonMonotonicSequence i last_seq (update_seq u))) else accept
         | None \<Rightarrow> accept)"

definition apply_update :: "materializer \<Rightarrow> provider_item_update
    \<Rightarrow> materializer \<times> (materializer_error + unit)" where
  "apply_update m u =
     (if outcome (segment m) \<noteq> Active then
        (m, Inl (ClosedSegmentImmutable
               (case segment_id (segment m) of Some sid \<Rightarrow> sid | None \<Rightarrow> []) (outcome (segment m))))
      else case segment_id (segment m) of
        Some sid \<Rightarrow>
          if sid \<noteq> upd_segment_id u then (m, Inl (SegmentIdMismatch sid (upd_segment_id u)))
          else apply_sequenced m u
      | None \<Rightarrow>
          apply_sequenced
            (m\<lparr>segment := (segment m)\<lparr>segment_id := Some (upd_segment_id u)\<rparr>\<rparr>) u)"

definition close :: "materializer \<Rightarrow> provider_segment_outcome
    \<Rightarrow> materializer \<times> (materializer_error + unit)" where
  "close m out =
     (case segment_id (segment m) of
        None \<Rightarrow> (m, Inl SegmentNeverOpened)
      | Some sid \<Rightarrow>
          if outcome (segment m) \<noteq> Active
          then (m, Inl (ClosedSegmentImmutable sid (outcome (segment m))))
          else (m\<lparr>segment := (segment m)\<lparr>outcome := out\<rparr>\<rparr>, Inr ()))"

text \<open>
  Two ways of driving the materializer: \<open>mat_step\<close> keeps whatever state a call leaves,
  errors included; \<open>apply_updates\<close> propagates the first error, as a caller using the
  question mark operator does.
\<close>

datatype mat_event = Update provider_item_update | Close provider_segment_outcome

fun mat_step :: "materializer \<Rightarrow> mat_event \<Rightarrow> materializer" where
  "mat_step m (Update u) = fst (apply_update m u)"
| "mat_step m (Close out) = fst (close m out)"

fun apply_updates :: "materializer \<Rightarrow> provider_item_update list
    \<Rightarrow> materializer_error + materializer" where
  "apply_updates m [] = Inr m"
| "apply_updates m (u # us) =
     (case apply_update m u of
        (m', Inl e) \<Rightarrow> Inl e
      | (m', Inr _) \<Rightarrow> apply_updates m' us)"

section \<open>Well-formedness\<close>

definition parts_ok :: "reasoning_part list \<Rightarrow> bool" where
  "parts_ok ps \<longleftrightarrow> sorted (map part_index ps) \<and> distinct (map part_index ps)"

definition item_ok :: "provider_output_item \<Rightarrow> bool" where
  "item_ok i =
     (case item_payload i of
        Reasoning r \<Rightarrow> ri_id r = item_id i \<and> ri_output_index r = item_position i
          \<and> parts_ok (summary_parts r)
      | Message _ \<Rightarrow> True
      | FunctionCall c _ _ \<Rightarrow> c = item_id i)"

definition items_ok :: "provider_output_item list \<Rightarrow> bool" where
  "items_ok xs \<longleftrightarrow> sorted (map item_position xs) \<and> distinct (map item_position xs)
     \<and> distinct (map item_id xs) \<and> (\<forall>i \<in> set xs. item_ok i)"

definition mat_ok :: "materializer \<Rightarrow> bool" where
  "mat_ok m \<longleftrightarrow> items_ok (items (segment m))
     \<and> item_id ` set (items (segment m)) \<subseteq> dom (last_update_seq m)
     \<and> (dom (last_update_seq m) \<noteq> {} \<longrightarrow> segment_id (segment m) \<noteq> None)"

lemmas [inv_defs] = mat_ok_def items_ok_def item_ok_def parts_ok_def

lemmas [model_defs] = apply_update_def apply_sequenced_def apply_to_items_def
  apply_payload_to_item_def close_def

lemma parts_ok_upsert: "parts_ok ps \<Longrightarrow> parts_ok (upsert_part k f fresh ps)"
  using push_sort_fresh [of part_index ps "\<lparr>part_index = k, part_text = fresh\<rparr>" part_index]
  by (auto simp: parts_ok_def upsert_part_def map_update_first simp del: map_append
      split: option.splits)

lemma apply_payload_item_ok:
  assumes "item_ok i" and "apply_payload (item_payload i) p = Some q"
  shows "item_ok (i\<lparr>item_payload := q\<rparr>)"
  using assms by (cases "(item_payload i, p)" rule: apply_payload.cases)
    (auto simp: item_ok_def parts_ok_upsert)

lemma create_item_ok: "item_ok (create_item_from_update u)"
  by (cases "upd_payload u")
    (auto simp: create_item_from_update_def new_reasoning_def item_ok_def parts_ok_def)

lemma create_item_sel [simp]:
  "item_id (create_item_from_update u) = upd_item_id u"
  "item_position (create_item_from_update u) = upd_position u"
  by (simp_all add: create_item_from_update_def)

text \<open>What one item becomes under one update: the reference the item list is compared with.\<close>

definition item_step :: "provider_output_item option \<Rightarrow> provider_item_update
    \<Rightarrow> provider_output_item option" where
  "item_step cur u =
     (case cur of
        None \<Rightarrow> Some (create_item_from_update u)
      | Some i \<Rightarrow> map_option (\<lambda>q. i\<lparr>item_payload := q\<rparr>) (apply_payload (item_payload i) (upd_payload u)))"

abbreviation find_item :: "provider_item_id \<Rightarrow> provider_output_item list \<Rightarrow> provider_output_item option" where
  "find_item i xs \<equiv> find (\<lambda>x. item_id x = i) xs"

lemma find_item_iff:
  "distinct (map item_id xs) \<Longrightarrow> find_item i xs = Some x \<longleftrightarrow> x \<in> set xs \<and> item_id x = i"
proof (induction xs)
  case (Cons y xs)
  then show ?case by (cases "item_id y = i") (auto simp: image_iff)
qed simp

lemma find_item_sort_key:
  assumes "distinct (map item_id xs)"
  shows "find_item i (sort_key k xs) = find_item i xs"
proof (cases "find_item i xs")
  case None
  then have "find_item i (sort_key k xs) = None"
    by (simp add: find_None_conv)
  with None show ?thesis by simp
next
  case (Some x)
  then have "find_item i (sort_key k xs) = Some x"
    using assms by (simp add: find_item_iff)
  with Some show ?thesis by simp
qed

text \<open>The three ways a call on the item list can go, with what each leaves.\<close>

lemma apply_to_items_cases:
  assumes "apply_to_items xs u = Inr ys"
  obtains (update) i q where
      "find_item (upd_item_id u) xs = Some i" "item_position i = upd_position u"
      "apply_payload (item_payload i) (upd_payload u) = Some q"
      "ys = update_first (\<lambda>x. item_id x = upd_item_id u) (\<lambda>_. i\<lparr>item_payload := q\<rparr>) xs"
    | (create) "find_item (upd_item_id u) xs = None"
      "find (\<lambda>x. item_position x = upd_position u) xs = None"
      "ys = sort_key item_position (xs @ [create_item_from_update u])"
  using assms
  by (auto simp: apply_to_items_def apply_payload_to_item_def split: option.splits if_splits)

lemma map_update_item:
  assumes "find_item j xs = Some i" and "distinct (map item_id xs)"
    and "f i' = f i"
  shows "map f (update_first (\<lambda>x. item_id x = j) (\<lambda>_. i') xs) = map f xs"
  using assms by (induction xs) (auto split: if_splits)

lemma items_ok_apply:
  assumes ok: "items_ok xs" and ap: "apply_to_items xs u = Inr ys"
  shows "items_ok ys"
  using ap
proof (cases rule: apply_to_items_cases)
  case (update i q)
  let ?i' = "i\<lparr>item_payload := q\<rparr>"
  have d: "distinct (map item_id xs)" using ok by (simp add: items_ok_def)
  have keys: "map item_position ys = map item_position xs" "map item_id ys = map item_id xs"
    using map_update_item [OF update(1) d, of item_position ?i']
      map_update_item [OF update(1) d, of item_id ?i'] update(4) by simp_all
  have "item_ok ?i'"
    using ok update(1,3) by (auto simp: items_ok_def dest!: find_SomeD intro: apply_payload_item_ok)
  then have "\<forall>x \<in> set ys. item_ok x"
    using ok update(4) by (auto simp: items_ok_def dest!: in_update_firstD)
  then show ?thesis using ok keys by (simp add: items_ok_def)
next
  case create
  let ?n = "create_item_from_update u"
  have "distinct (map item_id ys)" "distinct (map item_position ys)"
    using push_sort_fresh [of item_id xs ?n item_position]
      push_sort_fresh [of item_position xs ?n item_position] create ok
    by (simp_all add: items_ok_def)
  then show ?thesis using create ok by (auto simp: items_ok_def create_item_ok)
qed

lemma find_item_apply:
  assumes "distinct (map item_id xs)" and ap: "apply_to_items xs u = Inr ys"
  shows "find_item j ys =
    (if j = upd_item_id u then item_step (find_item j xs) u else find_item j xs)"
  using ap
proof (cases rule: apply_to_items_cases)
  case (update i q)
  have id: "item_id i = upd_item_id u" using update(1) by (auto dest: find_SomeD)
  show ?thesis
  proof (cases "j = upd_item_id u")
    case True
    have "find_item j ys = map_option (\<lambda>_. i\<lparr>item_payload := q\<rparr>) (find_item j xs)"
      unfolding update(4) True using update(1) id
      by (induction xs) (auto split: if_splits)
    then show ?thesis using True update by (simp add: item_step_def)
  next
    case False
    have "find_item j ys = find_item j xs"
      unfolding update(4) using False id by (intro find_update_first_other) auto
    with False show ?thesis by simp
  qed
next
  case create
  have d: "distinct (map item_id (xs @ [create_item_from_update u]))"
    using assms(1) create(1) by (auto simp: find_None_conv)
  have "find_item j (xs @ [create_item_from_update u]) =
    (case find_item j xs of Some x \<Rightarrow> Some x
     | None \<Rightarrow> if j = upd_item_id u then Some (create_item_from_update u) else None)"
    by (induction xs) auto
  then show ?thesis
    using create d by (auto simp: find_item_sort_key item_step_def split: option.splits)
qed

section \<open>One call of \<open>apply_update\<close>\<close>

text \<open>The state a call works on once the segment identity is known.\<close>

definition identified :: "materializer \<Rightarrow> provider_segment_id \<Rightarrow> materializer" where
  "identified m sid = m\<lparr>segment := (segment m)\<lparr>segment_id := Some sid\<rparr>\<rparr>"

lemma identified_same: "segment_id (segment m) = Some sid \<Longrightarrow> identified m sid = m"
  by (cases m; cases "segment m") (simp add: identified_def)

lemma apply_update_alt:
  "apply_update m u =
     (if outcome (segment m) \<noteq> Active then
        (m, Inl (ClosedSegmentImmutable
               (case segment_id (segment m) of Some sid \<Rightarrow> sid | None \<Rightarrow> []) (outcome (segment m))))
      else if segment_id (segment m) \<in> {None, Some (upd_segment_id u)}
      then apply_sequenced (identified m (upd_segment_id u)) u
      else (m, Inl (SegmentIdMismatch (the (segment_id (segment m))) (upd_segment_id u))))"
  by (auto simp: apply_update_def identified_same split: option.splits)
    (simp add: identified_def)

text \<open>
  A call either stops before the sequence number is recorded, or records it; then only the
  item list can change as well, and only when the call succeeds.
\<close>

lemma apply_update_cases:
  assumes "apply_update m u = (m', r)"
  obtains (refused) e where "m' = m \<or> m' = identified m (upd_segment_id u)" "r = Inl e"
        "outcome (segment m) \<noteq> Active \<longrightarrow> m' = m"
        "segment_id (segment m) \<noteq> None \<longrightarrow> m' = m"
    | (rejected) e where "outcome (segment m) = Active"
        "segment_id (segment m) \<in> {None, Some (upd_segment_id u)}"
        "apply_to_items (items (segment m)) u = Inl e" "r = Inl e"
        "m' = (identified m (upd_segment_id u))
             \<lparr>last_update_seq := (last_update_seq m)(upd_item_id u \<mapsto> update_seq u)\<rparr>"
    | (applied) xs where "outcome (segment m) = Active"
        "segment_id (segment m) \<in> {None, Some (upd_segment_id u)}"
        "apply_to_items (items (segment m)) u = Inr xs" "r = Inr ()"
        "m' = m\<lparr>segment := (segment m)\<lparr>segment_id := Some (upd_segment_id u), items := xs\<rparr>,
             last_update_seq := (last_update_seq m)(upd_item_id u \<mapsto> update_seq u)\<rparr>"
        "\<forall>q. last_update_seq m (upd_item_id u) = Some q \<longrightarrow> q < update_seq u"
proof -
  have sel: "items (segment (identified m sid)) = items (segment m)"
    "last_update_seq (identified m sid) = last_update_seq m" for sid
    by (simp_all add: identified_def)
  show thesis
  proof (cases "outcome (segment m) = Active \<and>
      segment_id (segment m) \<in> {None, Some (upd_segment_id u)}")
    case False
    then show thesis using assms refused by (auto simp: apply_update_alt split: if_splits)
  next
    case True
    then have seq: "apply_sequenced (identified m (upd_segment_id u)) u = (m', r)"
      using assms by (auto simp: apply_update_alt)
    show thesis
    proof (cases "\<exists>q. last_update_seq m (upd_item_id u) = Some q \<and> update_seq u \<le> q")
      case True
      then show thesis
        using seq refused [of "NonMonotonicSequence (upd_item_id u)
            (the (last_update_seq m (upd_item_id u))) (update_seq u)"]
          \<open>outcome _ = _ \<and> _\<close>
        by (auto simp: apply_sequenced_def sel Let_def identified_same)
    next
      case False
      then have "(let n = (identified m (upd_segment_id u))
             \<lparr>last_update_seq := (last_update_seq m)(upd_item_id u \<mapsto> update_seq u)\<rparr>
          in case apply_to_items (items (segment m)) u of
               Inl e \<Rightarrow> (n, Inl e)
             | Inr xs \<Rightarrow> (n\<lparr>segment := (segment n)\<lparr>items := xs\<rparr>\<rparr>, Inr ())) = (m', r)"
        using seq by (auto simp: apply_sequenced_def sel Let_def split: option.splits)
      then show thesis
        using True False rejected applied
        by (cases "apply_to_items (items (segment m)) u")
          (auto simp: Let_def identified_def not_le)
    qed
  qed
qed

lemma mat_ok_apply_update: "mat_ok m \<Longrightarrow> mat_ok (fst (apply_update m u))"
proof (cases "apply_update m u")
  case (Pair m' r)
  assume ok: "mat_ok m"
  show ?thesis
    using Pair
  proof (cases rule: apply_update_cases)
    case (applied xs)
    have "items_ok xs" using ok applied(3) by (auto simp: mat_ok_def intro: items_ok_apply)
    moreover have "item_id ` set xs \<subseteq> insert (upd_item_id u) (item_id ` set (items (segment m)))"
      using applied(3)
      by (cases rule: apply_to_items_cases) (auto dest!: in_update_firstD dest: find_SomeD)
    ultimately show ?thesis using ok applied(5) Pair by (auto simp: mat_ok_def)
  next
    case (refused e)
    have "mat_ok (identified m (upd_segment_id u))"
      using ok by (auto simp: mat_ok_def identified_def)
    then show ?thesis using ok refused(1) Pair by auto
  next
    case (rejected e)
    then show ?thesis using ok Pair by (auto simp: mat_ok_def identified_def)
  qed
qed

lemma mat_ok_close: "mat_ok m \<Longrightarrow> mat_ok (fst (close m out))"
  by (auto simp: close_def mat_ok_def split: option.splits)

interpretation mat: run_invariant mat_step mat_ok
proof
  show "mat_ok m \<Longrightarrow> mat_ok (mat_step m e)" for m e
    by (cases e) (simp_all add: mat_ok_apply_update mat_ok_close)
qed

lemma mat_ok_init [simp]: "mat_ok (materializer_new sid)" "mat_ok materializer_pending"
  by (simp_all add: mat_ok_def items_ok_def materializer_new_def materializer_pending_def
      segment_new_def segment_pending_def)

section \<open>Sequences of accepted updates\<close>

text \<open>
  Along a sequence of accepted updates each item sees exactly its own updates, in order:
  the item list is determined by the per-item subsequences.
\<close>

abbreviation updates_of :: "provider_item_id \<Rightarrow> provider_item_update list \<Rightarrow> provider_item_update list" where
  "updates_of j us \<equiv> filter (\<lambda>u. upd_item_id u = j) us"

lemma apply_updates_Cons:
  "apply_updates m (u # us) = Inr n \<longleftrightarrow>
     (\<exists>m'. apply_update m u = (m', Inr ()) \<and> apply_updates m' us = Inr n)"
  by (auto split: prod.splits sum.splits)

lemma apply_update_ok:
  assumes "apply_update m u = (m', Inr ())" and "mat_ok m"
  shows "find_item j (items (segment m')) = (if j = upd_item_id u
          then item_step (find_item j (items (segment m))) u else find_item j (items (segment m)))"
    and "last_update_seq m' = (last_update_seq m)(upd_item_id u \<mapsto> update_seq u)"
    and "segment_id (segment m') = Some (upd_segment_id u)"
    and "segment_id (segment m) \<in> {None, Some (upd_segment_id u)}"
    and "outcome (segment m') = outcome (segment m)" and "outcome (segment m) = Active"
    and "mat_ok m'"
proof -
  show "mat_ok m'" using mat_ok_apply_update [OF assms(2), of u] assms(1) by simp
  obtain xs where "apply_to_items (items (segment m)) u = Inr xs"
    and m': "m' = m\<lparr>segment := (segment m)\<lparr>segment_id := Some (upd_segment_id u), items := xs\<rparr>,
             last_update_seq := (last_update_seq m)(upd_item_id u \<mapsto> update_seq u)\<rparr>"
    and "segment_id (segment m) \<in> {None, Some (upd_segment_id u)}" "outcome (segment m) = Active"
    using assms(1) by (cases rule: apply_update_cases) auto
  then show "find_item j (items (segment m')) = (if j = upd_item_id u
          then item_step (find_item j (items (segment m))) u else find_item j (items (segment m)))"
    and "last_update_seq m' = (last_update_seq m)(upd_item_id u \<mapsto> update_seq u)"
    and "segment_id (segment m') = Some (upd_segment_id u)"
    and "segment_id (segment m) \<in> {None, Some (upd_segment_id u)}"
    and "outcome (segment m') = outcome (segment m)" and "outcome (segment m) = Active"
    using assms(2) by (simp_all add: find_item_apply mat_ok_def items_ok_def)
qed

lemma apply_updates_frame:
  assumes "apply_updates m us = Inr n" and "mat_ok m"
  shows "mat_ok n \<and> outcome (segment n) = outcome (segment m)
    \<and> (us = [] \<longrightarrow> n = m) \<and> (\<forall>u \<in> set us. segment_id (segment n) = Some (upd_segment_id u))
    \<and> (\<forall>sid. segment_id (segment m) = Some sid \<longrightarrow> segment_id (segment n) = Some sid)"
  using assms
proof (induction us arbitrary: m)
  case (Cons u us)
  then obtain m' where m': "apply_update m u = (m', Inr ())" and n: "apply_updates m' us = Inr n"
    unfolding apply_updates_Cons by auto
  show ?case
    using Cons.IH [OF n apply_update_ok(7) [OF m' Cons.prems(2)]]
      apply_update_ok(3,4,5) [OF m' Cons.prems(2)] by auto
qed simp

lemma apply_updates_items:
  assumes "apply_updates m us = Inr n" and "mat_ok m"
  shows "find_item j (items (segment n)) =
     foldl item_step (find_item j (items (segment m))) (updates_of j us)"
  using assms
proof (induction us arbitrary: m)
  case (Cons u us)
  then obtain m' where m': "apply_update m u = (m', Inr ())" and n: "apply_updates m' us = Inr n"
    unfolding apply_updates_Cons by auto
  show ?case
    using Cons.IH [OF n apply_update_ok(7) [OF m' Cons.prems(2)]]
      apply_update_ok(1) [OF m' Cons.prems(2), of j] by simp
qed simp

lemma apply_updates_seq:
  assumes "apply_updates m us = Inr n" and "mat_ok m"
  shows "last_update_seq n j =
     (if updates_of j us = [] then last_update_seq m j
      else Some (update_seq (last (updates_of j us))))"
  using assms
proof (induction us arbitrary: m)
  case (Cons u us)
  then obtain m' where m': "apply_update m u = (m', Inr ())" and n: "apply_updates m' us = Inr n"
    unfolding apply_updates_Cons by auto
  show ?case
    using Cons.IH [OF n apply_update_ok(7) [OF m' Cons.prems(2)]]
      apply_update_ok(2) [OF m' Cons.prems(2)] by (auto simp: fun_upd_def)
qed simp

lemma items_determined:
  assumes "items_ok xs" "items_ok ys" and "\<And>j. find_item j xs = find_item j ys"
  shows "xs = ys"
proof -
  have "x \<in> set xs \<longleftrightarrow> x \<in> set ys" for x
    using assms find_item_iff [of xs "item_id x" x] find_item_iff [of ys "item_id x" x]
    by (simp add: items_ok_def)
  then have "set xs = set ys" by blast
  then show ?thesis
    using assms by (intro sorted_list_of_keys_unique [where k = item_position])
      (auto simp: items_ok_def)
qed

section \<open>Redaction\<close>

definition redacted_payload :: "provider_output_payload \<Rightarrow> provider_output_payload" where
  "redacted_payload p = (case p of Reasoning r \<Rightarrow> Reasoning (redacted_reasoning r) | q \<Rightarrow> q)"

definition redacted_update_payload :: "provider_item_update_payload \<Rightarrow> provider_item_update_payload" where
  "redacted_update_payload p = (case p of ReasoningItemDone _ \<Rightarrow> ReasoningItemDone None | q \<Rightarrow> q)"

definition redacted_materializer :: "materializer \<Rightarrow> materializer" where
  "redacted_materializer m =
     m\<lparr>segment := (segment m)\<lparr>items := map redacted_item (items (segment m))\<rparr>\<rparr>"

lemma redacted_item_alt:
  "redacted_item i = i\<lparr>item_payload := redacted_payload (item_payload i)\<rparr>"
  by (cases "item_payload i") (simp_all add: redacted_item_def redacted_payload_def)

lemma redacted_item_sel [simp]:
  "item_id (redacted_item i) = item_id i"
  "item_position (redacted_item i) = item_position i"
  "item_payload (redacted_item i) = redacted_payload (item_payload i)"
  "redacted_item (i\<lparr>item_payload := q\<rparr>) = (redacted_item i)\<lparr>item_payload := redacted_payload q\<rparr>"
  by (simp_all add: redacted_item_alt)

lemma redacted_update_sel [simp]:
  "upd_item_id (redacted_update u) = upd_item_id u"
  "upd_position (redacted_update u) = upd_position u"
  "upd_segment_id (redacted_update u) = upd_segment_id u"
  "update_seq (redacted_update u) = update_seq u"
  "upd_payload (redacted_update u) = redacted_update_payload (upd_payload u)"
  by (simp_all add: redacted_update_def redacted_update_payload_def
      split: provider_item_update_payload.splits)

lemma apply_payload_redacted:
  "apply_payload (redacted_payload p) (redacted_update_payload q) =
     map_option redacted_payload (apply_payload p q)"
  by (cases "(p, q)" rule: apply_payload.cases)
    (auto simp: redacted_payload_def redacted_update_payload_def redacted_reasoning_def)

lemma create_redacted:
  "create_item_from_update (redacted_update u) = redacted_item (create_item_from_update u)"
  by (cases "upd_payload u")
    (simp_all add: create_item_from_update_def redacted_item_alt redacted_update_payload_def
      redacted_payload_def new_reasoning_def redacted_reasoning_def)

lemma find_map_redacted:
  "find_item j (map redacted_item xs) = map_option redacted_item (find_item j xs)"
  "find (\<lambda>i. item_position i = p) (map redacted_item xs) =
     map_option redacted_item (find (\<lambda>i. item_position i = p) xs)"
  by (simp_all add: find_map comp_def)

lemma sort_push_redacted:
  "sort_key item_position (map redacted_item xs @ [redacted_item x]) =
     map redacted_item (sort_key item_position (xs @ [x]))"
  using sort_key_map [of item_position redacted_item "xs @ [x]"] by simp

lemma map_redacted_update_first:
  "map redacted_item (update_first (\<lambda>i. item_id i = j) (\<lambda>_. x) xs) =
     update_first (\<lambda>i. item_id i = j) (\<lambda>_. redacted_item x) (map redacted_item xs)"
  by (rule map_update_first_hom) simp_all

lemma apply_to_items_redacted:
  "apply_to_items (map redacted_item xs) (redacted_update u) =
     map_sum id (map redacted_item) (apply_to_items xs u)"
  by (auto simp: apply_to_items_def apply_payload_to_item_def find_map_redacted
      apply_payload_redacted create_redacted sort_push_redacted map_redacted_update_first
      simp del: map_append split: option.splits sum.splits)

lemma apply_sequenced_redacted:
  "apply_sequenced (redacted_materializer m) (redacted_update u) =
     map_prod redacted_materializer id (apply_sequenced m u)"
  by (auto simp: apply_sequenced_def redacted_materializer_def apply_to_items_redacted Let_def
      split: option.splits sum.splits)

text \<open>
  C34. Redaction commutes with materialization: applying the redacted update to the
  redacted segment gives the redaction of what the full update gives, with the same
  result. A client that only ever sees redacted updates therefore reconstructs exactly the
  redacted segment, and nothing of the encrypted content.
\<close>

theorem redaction_commutes:
  "apply_update (redacted_materializer m) (redacted_update u) =
     map_prod redacted_materializer id (apply_update m u)"
proof -
  have id: "identified (redacted_materializer m) sid = redacted_materializer (identified m sid)" for sid
    by (simp add: identified_def redacted_materializer_def)
  have sel: "segment_id (segment (redacted_materializer m)) = segment_id (segment m)"
    "outcome (segment (redacted_materializer m)) = outcome (segment m)"
    by (simp_all add: redacted_materializer_def)
  show ?thesis
    by (simp add: apply_update_alt id sel apply_sequenced_redacted)
qed

section \<open>Properties of the materializer\<close>

text \<open>
  C19. Every state the materializer can reach, by updates and closings in any order and
  whether or not the calls succeed, is well formed: items are strictly ordered by position,
  item identities are distinct, each item's payload carries the item's identity and
  position, reasoning parts are strictly ordered by index, and every item has a recorded
  sequence number.
\<close>

theorem materializer_run_ok:
  "mat_ok (foldl mat_step (materializer_new sid) es) \<and> mat_ok (foldl mat_step materializer_pending es)"
  by (simp add: mat.run_inv)

text \<open>
  C18. The result does not depend on how the updates of different items were interleaved:
  two accepted sequences in which every item has the same updates in the same order end in
  the same materializer.
\<close>

theorem interleaving_independent:
  assumes "mat_ok m" and us: "apply_updates m us = Inr n" and vs: "apply_updates m vs = Inr n'"
    and same: "\<And>j. updates_of j us = updates_of j vs"
  shows "n = n'"
proof -
  note fu = apply_updates_frame [OF us assms(1)] and fv = apply_updates_frame [OF vs assms(1)]
  have "items (segment n) = items (segment n')"
    using apply_updates_items [OF us assms(1)] apply_updates_items [OF vs assms(1)] same fu fv
    by (intro items_determined) (simp_all add: mat_ok_def)
  moreover have "last_update_seq n = last_update_seq n'"
    using apply_updates_seq [OF us assms(1)] apply_updates_seq [OF vs assms(1)] same
    by (simp add: fun_eq_iff)
  moreover have "segment_id (segment n) = segment_id (segment n')"
  proof (cases us)
    case Nil
    then have "vs = []" using same [of "upd_item_id (hd vs)"] by (cases vs) simp_all
    then show ?thesis using Nil fu fv by auto
  next
    case (Cons u us')
    then have "u \<in> set (updates_of (upd_item_id u) us)" by simp
    then have "u \<in> set vs" by (simp add: same)
    then show ?thesis using Cons fu fv by auto
  qed
  ultimately show ?thesis using fu fv by simp
qed

text \<open>Two sample items of one segment, a message streamed in two pieces and a tool call.\<close>

definition sample_update :: "string \<Rightarrow> nat \<Rightarrow> nat \<Rightarrow> provider_item_update_payload \<Rightarrow> provider_item_update" where
  "sample_update i p q pay = \<lparr>upd_segment_id = ''seg'', upd_item_id = i, upd_position = p,
     update_seq = q, upd_payload = pay\<rparr>"

definition sample_in_order :: "provider_item_update list" where
  "sample_in_order = [sample_update ''msg'' 0 0 (MessageDelta ''He''),
     sample_update ''msg'' 0 1 (MessageDelta ''llo''),
     sample_update ''call'' 1 0 (FunctionCallStart ''ls'')]"

definition sample_interleaved :: "provider_item_update list" where
  "sample_interleaved = [sample_update ''call'' 1 0 (FunctionCallStart ''ls''),
     sample_update ''msg'' 0 0 (MessageDelta ''He''),
     sample_update ''msg'' 0 1 (MessageDelta ''llo'')]"

lemma sample_accepted:
  "\<exists>n. apply_updates materializer_pending sample_in_order = Inr n"
  "\<exists>n. apply_updates materializer_pending sample_interleaved = Inr n"
  by (simp_all add: sample_in_order_def sample_interleaved_def sample_update_def
      materializer_pending_def segment_pending_def model_defs create_item_from_update_def Let_def)

theorem interleaving_independent_witness:
  "apply_updates materializer_pending sample_in_order =
     apply_updates materializer_pending sample_interleaved"
proof -
  obtain n n' where n: "apply_updates materializer_pending sample_in_order = Inr n"
      "apply_updates materializer_pending sample_interleaved = Inr n'"
    using sample_accepted by blast
  have "updates_of j sample_in_order = updates_of j sample_interleaved" for j
    by (auto simp: sample_in_order_def sample_interleaved_def sample_update_def)
  then have "n = n'" using interleaving_independent [OF _ n] by simp
  with n show ?thesis by simp
qed


definition sample_closed :: materializer where
  "sample_closed = fst (close (materializer_new ''seg'') Completed)"


text \<open>
  An update is applied at most once: after an accepted update, the same update again is
  refused as non-monotonic, however many updates of other items were accepted in between.
\<close>

lemma update_applied_at_most_once:
  assumes "mat_ok m" and "apply_update m u = (m1, Inr ())"
    and "apply_updates m1 us = Inr m2" and "updates_of (upd_item_id u) us = []"
  shows "apply_update m2 u =
    (m2, Inl (NonMonotonicSequence (upd_item_id u) (update_seq u) (update_seq u)))"
proof -
  note ok = apply_update_ok [OF assms(2,1)]
  note fr = apply_updates_frame [OF assms(3) ok(7)]
  have "last_update_seq m2 (upd_item_id u) = Some (update_seq u)"
    using apply_updates_seq [OF assms(3) ok(7)] assms(4) ok(2) by simp
  moreover have "segment_id (segment m2) = Some (upd_segment_id u)" "outcome (segment m2) = Active"
    using fr ok by auto
  ultimately show ?thesis by (simp add: apply_update_def apply_sequenced_def)
qed

end
