(* ===== verification/Item_Positions.thy ===== *)
theory Item_Positions
  imports Provider_Output
begin

text \<open>
  The position allocator of \<open>crates/common/src/item_positions.rs\<close>, and the contract the
  materializer relies on: whoever hands out positions assigns each identity one position
  for good and never gives two identities the same one.
\<close>

section \<open>The contract\<close>

definition positions_agree :: "(provider_item_id \<Rightarrow> provider_item_position option)
    \<Rightarrow> provider_output_item list \<Rightarrow> bool" where
  "positions_agree f xs \<longleftrightarrow> (\<forall>x \<in> set xs. f (item_id x) = Some (item_position x))"

locale position_supply =
  fixes position_for :: "'a \<Rightarrow> provider_item_id \<Rightarrow> provider_item_position \<times> 'a"
    and assigned_position :: "'a \<Rightarrow> provider_item_id \<Rightarrow> provider_item_position option"
    and ok :: "'a \<Rightarrow> bool"
  assumes ok_position_for: "ok a \<Longrightarrow> position_for a i = (p, a') \<Longrightarrow> ok a'"
    and assigned_after: "ok a \<Longrightarrow> position_for a i = (p, a') \<Longrightarrow> assigned_position a' i = Some p"
    and stable: "ok a \<Longrightarrow> position_for a i = (p, a') \<Longrightarrow> assigned_position a j = Some q
      \<Longrightarrow> assigned_position a' j = Some q"
    and injective: "ok a \<Longrightarrow> assigned_position a i = Some p \<Longrightarrow> assigned_position a j = Some p
      \<Longrightarrow> i = j"
begin

text \<open>
  With positions drawn from the supply, the item list refuses an update only for the type
  of its payload, and the positions of the resulting items still come from the supply.
\<close>

lemma stamped_update:
  assumes ok: "ok a" and pos: "position_for a (upd_item_id u) = (upd_position u, a')"
    and agree: "positions_agree (assigned_position a) xs"
  shows "apply_to_items xs u = Inl e \<Longrightarrow> e = PayloadTypeMismatch (upd_item_id u)"
    and "apply_to_items xs u = Inr ys \<Longrightarrow> positions_agree (assigned_position a') ys"
proof -
  have agree': "positions_agree (assigned_position a') xs"
    using agree stable [OF ok pos] by (auto simp: positions_agree_def)
  note own = assigned_after [OF ok pos] and ok' = ok_position_for [OF ok pos]
  have same: "item_position x = upd_position u" if "x \<in> set xs" "item_id x = upd_item_id u" for x
    using that own agree' by (auto simp: positions_agree_def)
  have other: "item_id x = upd_item_id u" if "x \<in> set xs" "item_position x = upd_position u" for x
    using that own agree' injective [OF ok'] by (auto simp: positions_agree_def)
  show "e = PayloadTypeMismatch (upd_item_id u)" if "apply_to_items xs u = Inl e"
    using that
    by (auto simp: apply_to_items_def apply_payload_to_item_def find_None_conv
        dest!: find_SomeD dest: same other split: option.splits if_splits)
  show "positions_agree (assigned_position a') ys" if "apply_to_items xs u = Inr ys"
    using that
  proof (cases rule: apply_to_items_cases)
    case (update i q)
    then show ?thesis
      using agree' by (auto simp: positions_agree_def dest!: in_update_firstD find_SomeD)
  next
    case create
    then show ?thesis using agree' own by (auto simp: positions_agree_def)
  qed
qed

end

section \<open>The allocator\<close>

record item_position_allocator =
  assigned :: "provider_item_id \<Rightarrow> provider_item_position option"
  next_position :: nat

definition allocator_default :: item_position_allocator where
  "allocator_default = \<lparr>assigned = (\<lambda>_. None), next_position = 0\<rparr>"

definition position_for :: "item_position_allocator \<Rightarrow> provider_item_id
    \<Rightarrow> provider_item_position \<times> item_position_allocator" where
  "position_for a i =
     (case assigned a i of
        Some p \<Rightarrow> (p, a)
      | None \<Rightarrow> (next_position a,
          a\<lparr>next_position := next_position a + 1,
            assigned := (assigned a)(i \<mapsto> next_position a)\<rparr>))"

definition assigned_position :: "item_position_allocator \<Rightarrow> provider_item_id
    \<Rightarrow> provider_item_position option" where
  "assigned_position a i = assigned a i"

definition allocator_len :: "item_position_allocator \<Rightarrow> nat" where
  "allocator_len a = card (dom (assigned a))"

definition allocator_is_empty :: "item_position_allocator \<Rightarrow> bool" where
  "allocator_is_empty a \<longleftrightarrow> dom (assigned a) = {}"

text \<open>Positions are handed out densely from zero, each to one identity.\<close>

definition allocator_ok :: "item_position_allocator \<Rightarrow> bool" where
  "allocator_ok a \<longleftrightarrow> finite (dom (assigned a)) \<and> inj_on (assigned a) (dom (assigned a))
     \<and> ran (assigned a) = {..< next_position a}"

lemma allocator_ok_default [simp]: "allocator_ok allocator_default"
  by (simp add: allocator_ok_def allocator_default_def)

lemma allocator_ok_position_for:
  assumes ok: "allocator_ok a" and pos: "position_for a i = (p, a')"
  shows "allocator_ok a'"
proof (cases "assigned a i")
  case (Some q)
  then show ?thesis using ok pos by (simp add: position_for_def)
next
  case None
  let ?n = "next_position a"
  have a': "a' = a\<lparr>next_position := ?n + 1, assigned := (assigned a)(i \<mapsto> ?n)\<rparr>"
    using None pos by (auto simp: position_for_def)
  have "Some ?n \<notin> range (assigned a)"
    using ok by (auto simp: allocator_ok_def ran_def) (metis (mono_tags) lessThan_iff less_irrefl mem_Collect_eq)
  then have "inj_on ((assigned a)(i \<mapsto> ?n)) (insert i (dom (assigned a)))"
    using ok by (intro inj_on_map_upd_fresh) (simp_all add: allocator_ok_def)
  moreover have "ran ((assigned a)(i \<mapsto> ?n)) = {..< ?n + 1}"
    using ok None by (simp add: allocator_ok_def ran_map_upd lessThan_Suc)
  ultimately show ?thesis
    using ok unfolding a' by (simp add: allocator_ok_def)
qed

interpretation alloc: position_supply position_for assigned_position allocator_ok
proof
  fix a a' :: item_position_allocator and i j p q
  show "allocator_ok a \<Longrightarrow> position_for a i = (p, a') \<Longrightarrow> allocator_ok a'"
    by (rule allocator_ok_position_for)
  show "allocator_ok a \<Longrightarrow> position_for a i = (p, a') \<Longrightarrow> assigned_position a' i = Some p"
    by (auto simp: position_for_def assigned_position_def split: option.splits)
  show "allocator_ok a \<Longrightarrow> position_for a i = (p, a') \<Longrightarrow> assigned_position a j = Some q
      \<Longrightarrow> assigned_position a' j = Some q"
    by (auto simp: position_for_def assigned_position_def split: option.splits)
  show "allocator_ok a \<Longrightarrow> assigned_position a i = Some p \<Longrightarrow> assigned_position a j = Some p
      \<Longrightarrow> i = j"
    by (auto simp: allocator_ok_def assigned_position_def inj_on_def dom_def)
qed

definition allocator_run :: "item_position_allocator \<Rightarrow> provider_item_id list \<Rightarrow> item_position_allocator" where
  "allocator_run a ids = foldl (\<lambda>b i. snd (position_for b i)) a ids"

interpretation alloc_run: run_invariant "\<lambda>b i. snd (position_for b i)" allocator_ok
  by unfold_locales (metis allocator_ok_position_for prod.collapse)

lemma allocator_run_dom: "dom (assigned (allocator_run a ids)) = dom (assigned a) \<union> set ids"
  unfolding allocator_run_def
  by (induction ids arbitrary: a) (auto simp: position_for_def split: option.splits)

text \<open>
  The allocator numbers identities densely: after any sequence of requests the
  identities seen are exactly those with a position, the positions are 0 up to the number of
  distinct identities, and two identities share a position only if they are equal.
\<close>

lemma allocator_dense:
  "let a = allocator_run allocator_default ids
   in allocator_len a = card (set ids) \<and> ran (assigned a) = {..< card (set ids)}
      \<and> dom (assigned a) = set ids \<and> inj_on (assigned_position a) (set ids)"
proof -
  define a where "a = allocator_run allocator_default ids"
  have ok: "allocator_ok a"
    by (simp add: a_def allocator_run_def alloc_run.run_inv)
  have dom: "dom (assigned a) = set ids"
    by (simp add: a_def allocator_run_dom allocator_default_def)
  have "inj_on (\<lambda>i. the (assigned a i)) (dom (assigned a))"
    using ok by (auto simp: allocator_ok_def inj_on_def dom_def)
  then have "card ((\<lambda>i. the (assigned a i)) ` dom (assigned a)) = card (set ids)"
    using dom by (simp add: card_image)
  moreover have "(\<lambda>i. the (assigned a i)) ` dom (assigned a) = ran (assigned a)"
    by (force simp: ran_def)
  ultimately have "next_position a = card (set ids)"
    using ok by (simp add: allocator_ok_def)
  then show ?thesis
    using ok dom unfolding a_def [symmetric] Let_def
    by (simp add: allocator_ok_def allocator_len_def assigned_position_def [abs_def])
qed

end
