(* ===== verification/Rust_Text.thy ===== *)
theory Rust_Text
  imports Prelude "HOL-Library.Sublist"
begin

text \<open>
  The operations of Rust's \<open>str\<close> and of \<open>serde_json::Value\<close> that the modelled code
  uses, as executable functions, with the facts the components need about them.
\<close>

section \<open>Substring search\<close>

definition starts_with :: "string \<Rightarrow> string \<Rightarrow> bool" where
  "starts_with s p \<longleftrightarrow> take (length p) s = p"

lemma starts_with_prefix: "starts_with s p \<longleftrightarrow> prefix p s"
  by (metis append_eq_conv_conj append_take_drop_id prefixI prefix_def starts_with_def)

definition ends_with :: "string \<Rightarrow> string \<Rightarrow> bool" where
  "ends_with s p \<longleftrightarrow> length p \<le> length s \<and> drop (length s - length p) s = p"

definition strip_prefix :: "string \<Rightarrow> string \<Rightarrow> string option" where
  "strip_prefix p s = (if starts_with s p then Some (drop (length p) s) else None)"

text \<open>\<open>str::find\<close> with a string pattern: the offset of the first occurrence.\<close>

fun str_find :: "string \<Rightarrow> string \<Rightarrow> nat option" where
  "str_find p [] = (if p = [] then Some 0 else None)"
| "str_find p (c # s) =
     (if starts_with (c # s) p then Some 0 else map_option Suc (str_find p s))"

definition str_contains :: "string \<Rightarrow> string \<Rightarrow> bool" where
  "str_contains s p \<longleftrightarrow> str_find p s \<noteq> None"

lemma str_find_Some:
  "str_find p s = Some k \<Longrightarrow> k \<le> length s \<and> prefix p (drop k s)
     \<and> (\<forall>j < k. \<not> prefix p (drop j s))"
proof (induction s arbitrary: k)
  case (Cons c s)
  show ?case
  proof (cases "starts_with (c # s) p")
    case True
    then show ?thesis using Cons.prems by (simp add: starts_with_prefix)
  next
    case False
    then obtain k' where k': "k = Suc k'" "str_find p s = Some k'"
      using Cons.prems by auto
    have "\<not> prefix p (drop j (c # s))" if "j < k" for j
      using that False Cons.IH [OF k'(2)] k'(1) by (cases j) (auto simp: starts_with_prefix)
    then show ?thesis using Cons.IH [OF k'(2)] k'(1) by simp
  qed
qed (simp split: if_splits)

lemma str_find_None: "str_find p s = None \<longleftrightarrow> (\<forall>j \<le> length s. \<not> prefix p (drop j s))"
proof (induction s)
  case (Cons c s)
  have "(\<forall>j \<le> length (c # s). \<not> prefix p (drop j (c # s))) \<longleftrightarrow>
    \<not> prefix p (c # s) \<and> (\<forall>j \<le> length s. \<not> prefix p (drop j s))"
    by (metis Suc_le_mono drop0 drop_Suc_Cons length_Cons not0_implies_Suc zero_le)
  then show ?case using Cons by (simp add: starts_with_prefix)
qed simp

lemma str_find_eqI:
  assumes "k \<le> length s" "prefix p (drop k s)" "\<And>j. j < k \<Longrightarrow> \<not> prefix p (drop j s)"
  shows "str_find p s = Some k"
proof (cases "str_find p s")
  case None
  then show ?thesis using assms by (auto simp: str_find_None)
next
  case (Some k')
  note k' = str_find_Some [OF Some]
  have "\<not> k' < k" "\<not> k < k'" using assms k' by auto
  then show ?thesis using Some by simp
qed

lemma str_find_split:
  "str_find p s = Some k \<Longrightarrow> s = take k s @ p @ drop (k + length p) s"
  by (metis add.commute append_eq_conv_conj append_take_drop_id drop_drop prefixE str_find_Some)

lemma str_find_length: "str_find p s = Some k \<Longrightarrow> k + length p \<le> length s"
  by (metis diff_diff_left diff_is_0_eq' length_append length_drop le_add1 linorder_le_cases
      not_add_less1 prefix_length_le str_find_Some add.commute le_diff_conv2)

section \<open>Trimming and case\<close>

text \<open>\<open>char::is_whitespace\<close> on the characters of the model.\<close>

definition is_whitespace :: "char \<Rightarrow> bool" where
  "is_whitespace c \<longleftrightarrow> (let n = of_char c :: nat in (9 \<le> n \<and> n \<le> 13) \<or> n = 32 \<or> n = 133 \<or> n = 160)"

definition trim_start :: "string \<Rightarrow> string" where
  "trim_start s = dropWhile is_whitespace s"

definition trim_end :: "string \<Rightarrow> string" where
  "trim_end s = rev (dropWhile is_whitespace (rev s))"

definition trim :: "string \<Rightarrow> string" where
  "trim s = trim_end (trim_start s)"

definition to_ascii_lower_char :: "char \<Rightarrow> char" where
  "to_ascii_lower_char c = (let n = of_char c :: nat in if 65 \<le> n \<and> n \<le> 90 then char_of (n + 32) else c)"

definition to_ascii_lowercase :: "string \<Rightarrow> string" where
  "to_ascii_lowercase s = map to_ascii_lower_char s"

definition is_ascii_digit :: "char \<Rightarrow> bool" where
  "is_ascii_digit c \<longleftrightarrow> (let n = of_char c :: nat in 48 \<le> n \<and> n \<le> 57)"

lemma trim_start_append:
  "trim_start s = [] \<Longrightarrow> trim_start (s @ t) = trim_start t"
  "trim_start s \<noteq> [] \<Longrightarrow> trim_start (s @ t) = trim_start s @ t"
  by (auto simp: trim_start_def dropWhile_append)

section \<open>Paths\<close>

text \<open>Joining an absolute path to a directory gives the absolute path.\<close>

definition path_join :: "string \<Rightarrow> string \<Rightarrow> string" where
  "path_join dir p = (if starts_with p ''/'' then p else dir @ ''/'' @ p)"

section \<open>Numbers\<close>

text \<open>\<open>str::parse::<u64>\<close>: an optional plus sign, decimal digits, a value below \<open>2 ^ 64\<close>.\<close>

fun digits_value :: "nat \<Rightarrow> string \<Rightarrow> nat" where
  "digits_value acc [] = acc"
| "digits_value acc (c # cs) = digits_value (10 * acc + (of_char c - 48)) cs"

definition parse_u64 :: "string \<Rightarrow> nat option" where
  "parse_u64 s =
     (let ds = (case s of [] \<Rightarrow> [] | c # cs \<Rightarrow> if c = CHR ''+'' then cs else c # cs) in
      if ds \<noteq> [] \<and> list_all is_ascii_digit ds \<and> digits_value 0 ds < 2 ^ 64
      then Some (digits_value 0 ds) else None)"

text \<open>Addition of 64-bit counters that stops at the greatest value.\<close>

definition saturating_add :: "nat \<Rightarrow> nat \<Rightarrow> nat" where
  "saturating_add n k = min (2 ^ 64 - 1) (n + k)"

text \<open>Decimal numerals as \<open>Display\<close> prints them.\<close>

fun show_nat :: "nat \<Rightarrow> string" where
  "show_nat n = (if n < 10 then [char_of (48 + n)] else show_nat (n div 10) @ [char_of (48 + n mod 10)])"

declare show_nat.simps [simp del]

lemma digits_value_append: "digits_value acc (s @ t) = digits_value (digits_value acc s) t"
  by (induction s arbitrary: acc) simp_all

lemma show_nat_digits:
  "show_nat n \<noteq> [] \<and> list_all is_ascii_digit (show_nat n) \<and> digits_value 0 (show_nat n) = n"
proof (induction n rule: show_nat.induct)
  case (1 n)
  have digit: "is_ascii_digit (char_of (48 + d))" "of_char (char_of (48 + d) :: char) = 48 + d" if "d < 10" for d :: nat
    using that by (simp_all add: is_ascii_digit_def)
  show ?case
  proof (cases "n < 10")
    case True
    then show ?thesis using digit [of n] by (simp add: show_nat.simps [of n])
  next
    case False
    then show ?thesis
      using 1 digit [of "n mod 10"] by (simp add: show_nat.simps [of n] digits_value_append)
  qed
qed

lemma parse_show_nat: "n < 2 ^ 64 \<Longrightarrow> parse_u64 (show_nat n) = Some n"
proof -
  assume n: "n < 2 ^ 64"
  note d = show_nat_digits [of n]
  have "\<not> is_ascii_digit (CHR ''+'')" by (simp add: is_ascii_digit_def)
  then have "(case show_nat n of [] \<Rightarrow> [] | c # cs \<Rightarrow> if c = CHR ''+'' then cs else c # cs) = show_nat n"
    using d by (auto split: list.split)
  then show ?thesis using d n by (simp only: parse_u64_def Let_def) simp
qed

section \<open>JSON values\<close>

text \<open>
  \<open>serde_json::Value\<close>. A float is carried as its printed form; an object is the list of
  its entries in insertion order (the workspace enables \<open>preserve_order\<close>).
\<close>

datatype json_number = PosInt nat | NegInt int | Float string

datatype json =
    JNull
  | JBool bool
  | JNumber json_number
  | JString string
  | JArray "json list"
  | JObject "(string \<times> json) list"

fun json_get :: "json \<Rightarrow> string \<Rightarrow> json option" where
  "json_get (JObject kvs) k = map_of kvs k"
| "json_get _ k = None"

definition json_index :: "json \<Rightarrow> string \<Rightarrow> json" where
  "json_index v k = (case json_get v k of Some w \<Rightarrow> w | None \<Rightarrow> JNull)"

fun json_at :: "json \<Rightarrow> nat \<Rightarrow> json" where
  "json_at (JArray vs) n = (if n < length vs then vs ! n else JNull)"
| "json_at _ n = JNull"

fun as_str :: "json \<Rightarrow> string option" where
  "as_str (JString s) = Some s"
| "as_str _ = None"

fun as_array :: "json \<Rightarrow> json list option" where
  "as_array (JArray vs) = Some vs"
| "as_array _ = None"

fun as_u64 :: "json \<Rightarrow> nat option" where
  "as_u64 (JNumber (PosInt n)) = Some n"
| "as_u64 _ = None"

fun is_object :: "json \<Rightarrow> bool" where
  "is_object (JObject _) = True"
| "is_object _ = False"

end
