(* ===== verification/Chat_Stream.thy ===== *)
theory Chat_Stream
  imports Item_Positions Rust_Text "HOL-Library.AList"
begin

text \<open>
  The Chat Completions streaming adapter of
  \<open>crates/providers/src/openai_compat/provider.rs\<close>: usage parsing, the reasoning-tag
  state machine that separates reasoning from visible text across chunk boundaries, the
  processing of one SSE data line and the finalization of the stream. The JSON parser and
  printer of \<open>serde_json\<close> are the parameters \<open>parse\<close> and \<open>print\<close>.
\<close>

section \<open>Usage\<close>

record usage =
  input_tokens :: u32
  output_tokens :: u32
  cache_read_tokens :: u32
  cache_write_tokens :: u32

fun usage_cursor :: "json \<Rightarrow> string list \<Rightarrow> json option" where
  "usage_cursor v [] = Some v"
| "usage_cursor v (k # ks) = (case json_get v k of None \<Rightarrow> None | Some w \<Rightarrow> usage_cursor w ks)"

definition usage_value_at_path :: "json \<Rightarrow> string list \<Rightarrow> nat option" where
  "usage_value_at_path v path =
     (case usage_cursor v path of
        None \<Rightarrow> None
      | Some c \<Rightarrow> (case as_u64 c of
            Some n \<Rightarrow> Some n
          | None \<Rightarrow> Option.bind (as_str c) parse_u64))"

fun find_map :: "('a \<Rightarrow> 'b option) \<Rightarrow> 'a list \<Rightarrow> 'b option" where
  "find_map f [] = None"
| "find_map f (x # xs) = (case f x of Some y \<Rightarrow> Some y | None \<Rightarrow> find_map f xs)"

definition usage_field_u32 :: "json \<Rightarrow> string list list \<Rightarrow> u32" where
  "usage_field_u32 v paths =
     of_nat (case find_map (usage_value_at_path v) paths of Some n \<Rightarrow> n | None \<Rightarrow> 0)"

definition object_only :: "json option \<Rightarrow> json option" where
  "object_only v = (case v of Some w \<Rightarrow> if is_object w then Some w else None | None \<Rightarrow> None)"

definition first_choice :: "json \<Rightarrow> json option" where
  "first_choice payload =
     Option.bind (Option.bind (json_get payload ''choices'') as_array)
       (\<lambda>cs. case cs of [] \<Rightarrow> None | c # _ \<Rightarrow> Some c)"

definition usage_object_from_payload :: "json \<Rightarrow> json option" where
  "usage_object_from_payload payload =
     (let get = (\<lambda>v k. Option.bind v (\<lambda>w. json_get w k)) in
      find_map (\<lambda>v. object_only v)
        [json_get payload ''usage'',
         get (first_choice payload) ''usage'',
         get (get (first_choice payload) ''delta'') ''usage'',
         get (get (first_choice payload) ''message'') ''usage'',
         get (json_get payload ''x_groq'') ''usage''])"

definition parse_openai_compat_usage :: "json \<Rightarrow> usage" where
  "parse_openai_compat_usage v =
     \<lparr>input_tokens = usage_field_u32 v
        [[''prompt_tokens''], [''promptTokens''], [''input_tokens''], [''inputTokens'']],
      output_tokens = usage_field_u32 v
        [[''completion_tokens''], [''completionTokens''], [''output_tokens''], [''outputTokens'']],
      cache_read_tokens = usage_field_u32 v
        [[''prompt_tokens_details'', ''cached_tokens''], [''promptTokensDetails'', ''cachedTokens''],
         [''input_tokens_details'', ''cached_tokens''], [''inputTokensDetails'', ''cachedTokens''],
         [''cache_read_input_tokens''], [''cacheReadInputTokens''],
         [''input_tokens_details'', ''cache_read_input_tokens''],
         [''inputTokensDetails'', ''cacheReadInputTokens'']],
      cache_write_tokens = usage_field_u32 v
        [[''cache_creation_input_tokens''], [''cacheCreationInputTokens''],
         [''input_tokens_details'', ''cache_creation_input_tokens''],
         [''inputTokensDetails'', ''cacheCreationInputTokens'']]\<rparr>"

definition parse_openai_compat_usage_from_payload :: "json \<Rightarrow> usage option" where
  "parse_openai_compat_usage_from_payload payload =
     map_option parse_openai_compat_usage (usage_object_from_payload payload)"

section \<open>Stream state and events\<close>

datatype stream_event =
    ProviderItemUpdate provider_item_update
  | SegmentStart provider_segment_id
  | SegmentClose provider_segment_id provider_segment_outcome "usage option"
  | Delta string
  | ProviderRaw json
  | ToolCallStart string string nat \<comment> \<open>id, name, index\<close>
  | ToolCallArgumentsDelta nat string
  | ToolCallComplete nat
  | Done usage
  | Error string

datatype reasoning_tag = Think | Thought

fun open_tag :: "reasoning_tag \<Rightarrow> string" where
  "open_tag Think = ''<think>''"
| "open_tag Thought = ''<thought>''"

fun close_tag :: "reasoning_tag \<Rightarrow> string" where
  "close_tag Think = ''</think>''"
| "close_tag Thought = ''</thought>''"

definition all_tags :: "reasoning_tag list" where
  "all_tags = [Think, Thought]"

text \<open>
  The hash map of tool calls is an association list with distinct keys; its order stands
  for the unspecified iteration order of the map.
\<close>

record streaming_tool_state =
  st_segment_id :: provider_segment_id
  segment_started :: bool
  segment_closed :: bool
  terminal_seen :: bool
  seq_counter :: nat
  tool_calls :: "(nat \<times> string \<times> string \<times> string) list"
  item_positions :: item_position_allocator
  tokens :: usage
  in_think_block :: bool
  current_reasoning_tag :: "reasoning_tag option"
  think_strip_leading_ws :: bool
  visible_strip_leading_ws :: bool
  tag_buffer :: string

definition usage_zero :: usage where
  "usage_zero = \<lparr>input_tokens = 0, output_tokens = 0, cache_read_tokens = 0, cache_write_tokens = 0\<rparr>"

text \<open>The generated default segment identity, which embeds the clock, is a parameter.\<close>

definition streaming_default :: "provider_segment_id \<Rightarrow> streaming_tool_state" where
  "streaming_default sid =
     \<lparr>st_segment_id = sid, segment_started = False, segment_closed = False, terminal_seen = False,
      seq_counter = 0, tool_calls = [], item_positions = allocator_default, tokens = usage_zero,
      in_think_block = False, current_reasoning_tag = None, think_strip_leading_ws = False,
      visible_strip_leading_ws = False, tag_buffer = []\<rparr>"

definition mark_terminal :: "streaming_tool_state \<Rightarrow> streaming_tool_state" where
  "mark_terminal st = st\<lparr>terminal_seen := True\<rparr>"

definition close_on_transport_error :: "streaming_tool_state \<Rightarrow> streaming_tool_state \<times> stream_event list" where
  "close_on_transport_error st =
     (if \<not> segment_started st \<or> segment_closed st then (st, [])
      else (st\<lparr>segment_closed := True\<rparr>,
            [SegmentClose (st_segment_id st) TransportError (Some (tokens st))]))"

definition fail_chat_stream :: "streaming_tool_state \<Rightarrow> string \<Rightarrow> streaming_tool_state \<times> stream_event list" where
  "fail_chat_stream st err =
     (if segment_started st \<and> \<not> segment_closed st
      then (st\<lparr>segment_closed := True\<rparr>, [SegmentClose (st_segment_id st) Failed None, Error err])
      else (st, [Error err]))"

text \<open>
  The idiom every emission shares: take the next sequence number, look the item's position
  up, and address the update to the current segment.
\<close>

definition stream_update :: "streaming_tool_state \<Rightarrow> provider_item_id \<Rightarrow> provider_item_update_payload
    \<Rightarrow> streaming_tool_state \<times> stream_event" where
  "stream_update st i pay =
     (let seq = seq_counter st + 1; (p, alloc) = position_for (item_positions st) i
      in (st\<lparr>seq_counter := seq, item_positions := alloc\<rparr>,
          ProviderItemUpdate \<lparr>upd_segment_id = st_segment_id st, upd_item_id = i,
            upd_position = p, update_seq = seq, upd_payload = pay\<rparr>))"

definition CHAT_REASONING_ITEM_ID :: provider_item_id where
  "CHAT_REASONING_ITEM_ID = ''rs_0''"

definition CHAT_MESSAGE_ITEM_ID :: provider_item_id where
  "CHAT_MESSAGE_ITEM_ID = ''msg_0''"

section \<open>The reasoning-tag state machine\<close>

definition emit_reasoning :: "string \<Rightarrow> streaming_tool_state \<Rightarrow> streaming_tool_state \<times> stream_event list" where
  "emit_reasoning text st =
     (let emitted = (if think_strip_leading_ws st then trim_start text else text) in
      if text = [] \<or> emitted = [] then (st, [])
      else case stream_update (st\<lparr>think_strip_leading_ws := False\<rparr>) CHAT_REASONING_ITEM_ID
                  (ReasoningTextDelta emitted) of
             (st', ev) \<Rightarrow> (st', [ev]))"

definition emit_visible :: "string \<Rightarrow> streaming_tool_state \<Rightarrow> streaming_tool_state \<times> stream_event list" where
  "emit_visible text st =
     (let emitted = (if visible_strip_leading_ws st then trim_start text else text) in
      if text = [] \<or> emitted = [] then (st, [])
      else case stream_update (st\<lparr>visible_strip_leading_ws := False\<rparr>) CHAT_MESSAGE_ITEM_ID
                  (MessageDelta emitted) of
             (st', ev) \<Rightarrow> (st', [ev, Delta emitted]))"

text \<open>\<open>find_next_open_tag\<close>: the earliest opening tag; the first of the list on a tie.\<close>

definition find_next_open_tag :: "string \<Rightarrow> (nat \<times> reasoning_tag) option" where
  "find_next_open_tag text =
     (let found = List.map_filter (\<lambda>t. map_option (\<lambda>p. (p, t)) (str_find (open_tag t) text)) all_tags
      in case found of [] \<Rightarrow> None
         | x # xs \<Rightarrow> Some (foldl (\<lambda>best y. if fst y < fst best then y else best) x xs))"

text \<open>\<open>longest_tag_suffix\<close>: lengths are tried from the longest down.\<close>

fun tag_suffix_from :: "nat \<Rightarrow> string \<Rightarrow> string \<Rightarrow> nat" where
  "tag_suffix_from 0 text tag = 0"
| "tag_suffix_from (Suc n) text tag =
     (if drop (length text - Suc n) text = take (Suc n) tag then Suc n else tag_suffix_from n text tag)"

definition longest_tag_suffix :: "string \<Rightarrow> string \<Rightarrow> nat" where
  "longest_tag_suffix text tag = tag_suffix_from (min (length text) (length tag)) text tag"

definition longest_reasoning_open_tag_suffix :: "string \<Rightarrow> nat" where
  "longest_reasoning_open_tag_suffix text =
     foldr max (map (\<lambda>t. longest_tag_suffix text (open_tag t)) all_tags) 0"

lemma stream_update_frame [simp]:
  assumes "stream_update st i pay = (st', ev)"
  shows "tag_buffer st' = tag_buffer st" "in_think_block st' = in_think_block st"
    "current_reasoning_tag st' = current_reasoning_tag st"
  using assms by (auto simp: stream_update_def Let_def split: prod.splits)

lemma emit_buffer [simp]:
  "tag_buffer (fst (emit_reasoning t st)) = tag_buffer st"
  "tag_buffer (fst (emit_visible t st)) = tag_buffer st"
  by (auto simp: emit_reasoning_def emit_visible_def Let_def split: prod.splits)

text \<open>
  The loop of \<open>process_content_think_tags\<close>. It consumes a tag in every iteration but one,
  the branch that repairs a block without a tag, so the buffer bounds it.
\<close>

function think_loop :: "streaming_tool_state \<Rightarrow> streaming_tool_state \<times> stream_event list" where
  "think_loop st =
     (let buf = tag_buffer st in
      if in_think_block st then
        (case current_reasoning_tag st of
           None \<Rightarrow> think_loop (st\<lparr>in_think_block := False\<rparr>)
         | Some tag \<Rightarrow>
             (case str_find (close_tag tag) buf of
                Some pos \<Rightarrow>
                  (let (st1, ev1) = emit_reasoning (take pos buf) st;
                       (st2, ev2) = think_loop (st1\<lparr>in_think_block := False,
                          current_reasoning_tag := None, visible_strip_leading_ws := True,
                          tag_buffer := drop (pos + length (close_tag tag)) buf\<rparr>)
                   in (st2, ev1 @ ev2))
              | None \<Rightarrow>
                  (let safe = length buf - longest_tag_suffix buf (close_tag tag);
                       (st1, ev1) = emit_reasoning (take safe buf) st
                   in (st1\<lparr>tag_buffer := drop safe buf\<rparr>, ev1))))
      else
        (case find_next_open_tag buf of
           Some (pos, tag) \<Rightarrow>
             (let (st1, ev1) = emit_visible (take pos buf) st;
                  (st2, ev2) = think_loop (st1\<lparr>in_think_block := True,
                     current_reasoning_tag := Some tag, think_strip_leading_ws := True,
                     tag_buffer := drop (pos + length (open_tag tag)) buf\<rparr>)
              in (st2, ev1 @ ev2))
         | None \<Rightarrow>
             (let safe = length buf - longest_reasoning_open_tag_suffix buf;
                  (st1, ev1) = emit_visible (take safe buf) st
              in (st1\<lparr>tag_buffer := drop safe buf\<rparr>, ev1))))"
  by pat_completeness auto

lemma find_next_open_tag_alt:
  "find_next_open_tag text =
     (case (str_find ''<think>'' text, str_find ''<thought>'' text) of
        (None, None) \<Rightarrow> None
      | (Some p, None) \<Rightarrow> Some (p, Think)
      | (None, Some q) \<Rightarrow> Some (q, Thought)
      | (Some p, Some q) \<Rightarrow> Some (if q < p then (q, Thought) else (p, Think)))"
  by (auto simp: find_next_open_tag_def all_tags_def List.map_filter_def Let_def
      split: option.splits)

lemma find_next_open_tag_SomeD:
  "find_next_open_tag text = Some (p, t) \<Longrightarrow> str_find (open_tag t) text = Some p"
  by (auto simp: find_next_open_tag_alt split: option.splits if_splits)

lemma tag_lengths [simp]: "0 < length (open_tag t)" "0 < length (close_tag t)"
  by (cases t; simp)+

termination think_loop
proof (relation "measure (\<lambda>st. 2 * length (tag_buffer st) +
    (if in_think_block st \<and> current_reasoning_tag st = None then 1 else 0))", goal_cases)
  case (3 st buf tag pos e st1 ev1)
  then have "pos + length (close_tag tag) \<le> length buf"
    by (simp add: str_find_length)
  then have "length buf - (pos + length (close_tag tag)) < length buf"
    using tag_lengths(2) [of tag] by linarith
  then show ?case using 3 by simp
next
  case (4 st buf x pos tag e st1 ev1)
  then have "pos + length (open_tag tag) \<le> length buf"
    by (simp add: str_find_length find_next_open_tag_SomeD)
  then have "length buf - (pos + length (open_tag tag)) < length buf"
    using tag_lengths(1) [of tag] by linarith
  then show ?case using 4 by simp
qed auto

declare think_loop.simps [simp del]

definition process_content_think_tags :: "string \<Rightarrow> streaming_tool_state
    \<Rightarrow> streaming_tool_state \<times> stream_event list" where
  "process_content_think_tags content st = think_loop (st\<lparr>tag_buffer := tag_buffer st @ content\<rparr>)"

section \<open>One SSE data line\<close>

definition provider_error_text :: "(json \<Rightarrow> string) \<Rightarrow> json \<Rightarrow> string" where
  "provider_error_text print evt =
     (let get = (\<lambda>v k. Option.bind v (\<lambda>w. json_get w k));
          nested = (case object_only (json_get evt ''error'') of
                      Some e \<Rightarrow> Some e
                    | None \<Rightarrow> object_only (get (json_get evt ''response'') ''error''));
          error = (case nested of
                     Some e \<Rightarrow> Some e
                   | None \<Rightarrow> if as_str (json_index evt ''type'') = Some ''error'' then Some evt else None);
          msg = (case Option.bind (get error ''message'') as_str of
                   Some m \<Rightarrow> m
                 | None \<Rightarrow> (case as_str (json_index evt ''message'') of
                       Some m \<Rightarrow> m | None \<Rightarrow> ''unknown error''));
          is_str = (\<lambda>v. Option.bind v as_str \<noteq> None);
          has_error_class =
            (case nested of None \<Rightarrow> False
             | Some e \<Rightarrow> list_ex (\<lambda>f. is_str (json_get e f)) [''code'', ''type''])
            \<or> is_str (json_get evt ''code'')
      in if has_error_class then (case error of None \<Rightarrow> msg | Some e \<Rightarrow> print e) else msg)"

definition start_tool_call :: "nat \<Rightarrow> json \<Rightarrow> streaming_tool_state
    \<Rightarrow> streaming_tool_state \<times> stream_event list" where
  "start_tool_call idx tc st =
     (case (as_str (json_index tc ''id''), as_str (json_index (json_index tc ''function'') ''name'')) of
        (Some i, Some n) \<Rightarrow>
          (case stream_update (st\<lparr>tool_calls := AList.update idx (i, n, []) (tool_calls st)\<rparr>) i
                  (FunctionCallStart n) of
             (st', ev) \<Rightarrow> (st', [ev, ToolCallStart i n idx]))
      | _ \<Rightarrow> (st, []))"

definition extend_tool_call :: "nat \<Rightarrow> json \<Rightarrow> streaming_tool_state
    \<Rightarrow> streaming_tool_state \<times> stream_event list" where
  "extend_tool_call idx tc st =
     (case as_str (json_index (json_index tc ''function'') ''arguments'') of
        Some d \<Rightarrow>
          if d = [] then (st, [])
          else (case map_of (tool_calls st) idx of
              Some (i, n, args) \<Rightarrow>
                (case stream_update (st\<lparr>tool_calls := AList.update idx (i, n, args @ d) (tool_calls st)\<rparr>) i
                        (FunctionCallDelta d) of
                   (st', ev) \<Rightarrow> (st', [ev, ToolCallArgumentsDelta idx d]))
            | None \<Rightarrow> (st, [ToolCallArgumentsDelta idx d]))
      | None \<Rightarrow> (st, []))"

text \<open>The loop over the tool-call deltas; \<open>False\<close> says it stopped at one without an index.\<close>

fun process_tool_calls :: "json list \<Rightarrow> streaming_tool_state
    \<Rightarrow> streaming_tool_state \<times> stream_event list \<times> bool" where
  "process_tool_calls [] st = (st, [], True)"
| "process_tool_calls (tc # tcs) st =
     (case as_u64 (json_index tc ''index'') of
        None \<Rightarrow> (st, [], False)
      | Some idx \<Rightarrow>
          (let (st1, ev1) = start_tool_call idx tc st;
               (st2, ev2) = extend_tool_call idx tc st1;
               (st3, ev3, fin) = process_tool_calls tcs st2
           in (st3, ev1 @ ev2 @ ev3, fin)))"

datatype sse_line_result = LineDone | LineEvents "stream_event list"

definition begin_segment :: "json \<Rightarrow> streaming_tool_state \<Rightarrow> streaming_tool_state \<times> stream_event list" where
  "begin_segment evt st =
     (if segment_started st then (st, [])
      else (let st' = st\<lparr>segment_started := True,
                  st_segment_id := (case Option.bind (json_get evt ''id'') as_str of
                      Some i \<Rightarrow> i | None \<Rightarrow> st_segment_id st)\<rparr>
            in (st', [SegmentStart (st_segment_id st')])))"

definition emit_reasoning_field :: "json \<Rightarrow> streaming_tool_state \<Rightarrow> streaming_tool_state \<times> stream_event list" where
  "emit_reasoning_field delta st =
     (case (case as_str (json_index delta ''reasoning_content'') of
              Some t \<Rightarrow> Some t | None \<Rightarrow> as_str (json_index delta ''reasoning'')) of
        Some t \<Rightarrow>
          if t = [] then (st, [])
          else (case stream_update st CHAT_REASONING_ITEM_ID (ReasoningTextDelta t) of
                  (st', ev) \<Rightarrow> (st', [ev]))
      | None \<Rightarrow> (st, []))"

definition process_finish_reason :: "json \<Rightarrow> streaming_tool_state \<Rightarrow> streaming_tool_state \<times> stream_event list" where
  "process_finish_reason evt st =
     (case as_str (json_index (json_at (json_index evt ''choices'') 0) ''finish_reason'') of
        None \<Rightarrow> (st, [])
      | Some reason \<Rightarrow>
          (mark_terminal st,
           if reason \<in> {''stop'', ''tool_calls'', ''length'', ''function_call''} then []
           else [Error (''Provider stream ended with finish_reason: '' @ reason)]))"

definition process_delta :: "json \<Rightarrow> streaming_tool_state \<Rightarrow> streaming_tool_state \<times> stream_event list" where
  "process_delta evt st =
     (let st0 = (case parse_openai_compat_usage_from_payload evt of
                   Some u \<Rightarrow> st\<lparr>tokens := u\<rparr> | None \<Rightarrow> st);
          delta = json_index (json_at (json_index evt ''choices'') 0) ''delta'';
          (st1, ev1) = (case as_str (json_index delta ''content'') of
              Some c \<Rightarrow> if c = [] then (st0, []) else process_content_think_tags c st0
            | None \<Rightarrow> (st0, []));
          (st2, ev2) = emit_reasoning_field delta st1;
          (st3, ev3, fin) = (case as_array (json_index delta ''tool_calls'') of
              Some tcs \<Rightarrow> process_tool_calls tcs st2 | None \<Rightarrow> (st2, [], True))
      in if \<not> fin then
           (let (st4, ev4) = fail_chat_stream st3 ''tool_call delta has no index''
            in (st4, ev1 @ ev2 @ ev3 @ ev4))
         else (let (st4, ev4) = process_finish_reason evt st3
               in (st4, ev1 @ ev2 @ ev3 @ ev4)))"

definition process_openai_sse_line :: "(string \<Rightarrow> string + json) \<Rightarrow> (json \<Rightarrow> string) \<Rightarrow> string
    \<Rightarrow> streaming_tool_state \<Rightarrow> streaming_tool_state \<times> sse_line_result" where
  "process_openai_sse_line parse print data st =
     (if data = ''[DONE]'' then (mark_terminal st, LineDone)
      else case parse data of
        Inl err \<Rightarrow>
          (let (st', ev) = fail_chat_stream st
             (''provider sent a non-JSON Chat Completions SSE line: '' @ err)
           in (st', LineEvents ev))
      | Inr evt \<Rightarrow>
          (let (st1, ev1) = begin_segment evt st in
           if object_only (json_get evt ''error'') \<noteq> None then
             (let (st2, ev2) = fail_chat_stream st1 (provider_error_text print evt)
              in (st2, LineEvents (ProviderRaw evt # ev1 @ ev2)))
           else
             (let (st2, ev2) = process_delta evt st1
              in (st2, LineEvents (ProviderRaw evt # ev1 @ ev2)))))"

definition flush_tag_buffer :: "streaming_tool_state \<Rightarrow> streaming_tool_state \<times> stream_event list" where
  "flush_tag_buffer st =
     (if tag_buffer st = [] then (st, [])
      else (let remaining = tag_buffer st; st' = st\<lparr>tag_buffer := []\<rparr> in
        if in_think_block st then
          (case stream_update st' CHAT_REASONING_ITEM_ID (ReasoningTextDelta remaining) of
             (st'', ev) \<Rightarrow> (st'', [ev]))
        else
          (case stream_update st' CHAT_MESSAGE_ITEM_ID (MessageDelta remaining) of
             (st'', ev) \<Rightarrow> (st'', [ev, Delta remaining]))))"

definition finalize_stream :: "streaming_tool_state \<Rightarrow> streaming_tool_state \<times> stream_event list" where
  "finalize_stream st =
     (let (st1, ev1) = flush_tag_buffer st;
          completions = map (\<lambda>(idx, _). ToolCallComplete idx) (tool_calls st1);
          (st2, ev2) =
            (if segment_started st1 \<and> \<not> segment_closed st1 then
               (st1\<lparr>segment_closed := True\<rparr>,
                SegmentClose (st_segment_id st1)
                  (if terminal_seen st1 then Completed else TransportError) (Some (tokens st1))
                # (if terminal_seen st1 then []
                   else [Error ''provider stream closed before announcing a finish_reason'']))
             else (st1, []))
      in (st2, ev1 @ completions @ ev2 @ [Done (tokens st2)]))"

end
