(* ===== verification/Sse_Lines.thy ===== *)
theory Sse_Lines
  imports Rust_Text
begin

text \<open>
  The transport side of a streamed provider response: the byte buffer of
  \<open>crates/providers/src/openai_compat/sse_lines.rs\<close> that yields complete lines, and the
  loop of \<open>stream_with_tools_sse\<close> in \<open>crates/providers/src/openai/provider/streaming.rs\<close>
  that feeds data lines to the line processor. The loop is generic in the processor, as the
  code repeats it for each wire format. The UTF-8 decoder is the parameter \<open>decode\<close>,
  with the text of the decoding error on the left.
\<close>

section \<open>The line buffer\<close>

type_synonym sse_line_buffer = "u8 list"

definition push :: "sse_line_buffer \<Rightarrow> u8 list \<Rightarrow> sse_line_buffer" where
  "push buf chunk = buf @ chunk"

fun position :: "u8 \<Rightarrow> u8 list \<Rightarrow> nat option" where
  "position b [] = None"
| "position b (x # xs) = (if x = b then Some 0 else map_option Suc (position b xs))"

definition next_line :: "(u8 list \<Rightarrow> string + string) \<Rightarrow> sse_line_buffer
    \<Rightarrow> sse_line_buffer \<times> (string + string option)" where
  "next_line decode buf =
     (case position 10 buf of
        None \<Rightarrow> (buf, Inr None)
      | Some pos \<Rightarrow> (drop (pos + 1) buf,
          case decode (take pos buf) of Inl e \<Rightarrow> Inl e | Inr s \<Rightarrow> Inr (Some (trim s))))"

definition finish :: "(u8 list \<Rightarrow> string + string) \<Rightarrow> sse_line_buffer \<Rightarrow> string + string option" where
  "finish decode buf =
     (if buf = [] then Inr None
      else case decode buf of Inl e \<Rightarrow> Inl e | Inr s \<Rightarrow> Inr (Some (trim s)))"

definition sse_data :: "string \<Rightarrow> string option" where
  "sse_data line =
     (if line = [] then None
      else case strip_prefix ''data: '' line of
             Some d \<Rightarrow> Some d | None \<Rightarrow> strip_prefix ''data:'' line)"

lemma position_bound: "position b xs = Some n \<Longrightarrow> n < length xs"
  by (induction xs arbitrary: n) (auto split: if_splits)

lemma position_append:
  "position b (xs @ ys) =
     (case position b xs of Some n \<Rightarrow> Some n | None \<Rightarrow> map_option (\<lambda>n. n + length xs) (position b ys))"
  by (induction xs) (auto simp: option.map_comp comp_def option.map_ident split: option.splits)

lemma next_line_shrinks:
  "next_line decode buf = (buf', r) \<Longrightarrow> r \<noteq> Inr None \<Longrightarrow> length buf' < length buf"
  by (auto simp: next_line_def dest!: position_bound split: option.splits)

lemma next_line_append:
  assumes "next_line decode buf = (buf', r)" and "r \<noteq> Inr None"
  shows "next_line decode (buf @ ext) = (buf' @ ext, r)"
  using assms by (auto simp: next_line_def position_append dest!: position_bound split: option.splits)

lemma next_line_None: "next_line decode buf = (buf', Inr None) \<Longrightarrow> buf' = buf"
  by (auto simp: next_line_def split: option.splits sum.splits)

section \<open>The driving loop\<close>

text \<open>
  What a wire format supplies: processing of one data line, finalization, the closing of a
  cut-off segment, and the error event. After a line the stream goes on, ends with its
  finalization, or ends at once.
\<close>

datatype 'e line_verdict = Go "'e list" | Conclude "'e list" | Halt "'e list"

record ('s, 'e) wire =
  wire_line :: "string \<Rightarrow> 's \<Rightarrow> 's \<times> 'e line_verdict"
  wire_finalize :: "'s \<Rightarrow> 's \<times> 'e list"
  wire_cut :: "'s \<Rightarrow> 's \<times> 'e list"
  wire_error :: "string \<Rightarrow> 'e"

definition invalid_utf8 :: "string \<Rightarrow> string" where
  "invalid_utf8 e = ''provider stream sent invalid UTF-8: '' @ e"

text \<open>The early return on a failure of the transport.\<close>

definition wire_abort :: "('s, 'e) wire \<Rightarrow> string \<Rightarrow> 's \<Rightarrow> 's \<times> 'e list" where
  "wire_abort w msg st = (case wire_cut w st of (st', evs) \<Rightarrow> (st', evs @ [wire_error w msg]))"

text \<open>
  One data line; the flag says the stream has ended.
\<close>

definition wire_step :: "('s, 'e) wire \<Rightarrow> string \<Rightarrow> 's \<Rightarrow> bool \<times> 's \<times> 'e list" where
  "wire_step w line st =
     (case sse_data line of
        None \<Rightarrow> (False, st, [])
      | Some d \<Rightarrow>
          (case wire_line w d st of
             (st', Go evs) \<Rightarrow> (False, st', evs)
           | (st', Conclude evs) \<Rightarrow> (case wire_finalize w st' of (st'', evs') \<Rightarrow> (True, st'', evs @ evs'))
           | (st', Halt evs) \<Rightarrow> (True, st', evs)))"

text \<open>The inner loop over the complete lines buffered; the flag says the stream has ended.\<close>

function drain_lines :: "('s, 'e) wire \<Rightarrow> (u8 list \<Rightarrow> string + string) \<Rightarrow> 's \<Rightarrow> sse_line_buffer
    \<Rightarrow> bool \<times> 's \<times> sse_line_buffer \<times> 'e list" where
  "drain_lines w decode st buf =
     (case next_line decode buf of
        (buf', Inr None) \<Rightarrow> (False, st, buf', [])
      | (buf', Inl e) \<Rightarrow> (case wire_abort w (invalid_utf8 e) st of (st', evs) \<Rightarrow> (True, st', buf', evs))
      | (buf', Inr (Some line)) \<Rightarrow>
          (case wire_step w line st of
             (True, st', evs) \<Rightarrow> (True, st', buf', evs)
           | (False, st', evs) \<Rightarrow>
               (case drain_lines w decode st' buf' of
                  (fin, st'', buf'', evs') \<Rightarrow> (fin, st'', buf'', evs @ evs'))))"
  by pat_completeness auto
termination
  by (relation "measure (\<lambda>(_, _, _, buf). length buf)") (auto dest: next_line_shrinks [OF sym])

declare drain_lines.simps [simp del]

text \<open>The end of the byte stream: the residual line, then finalization.\<close>

definition end_of_bytes :: "('s, 'e) wire \<Rightarrow> (u8 list \<Rightarrow> string + string) \<Rightarrow> 's \<Rightarrow> sse_line_buffer
    \<Rightarrow> 's \<times> 'e list" where
  "end_of_bytes w decode st buf =
     (case finish decode buf of
        Inl e \<Rightarrow> wire_abort w (invalid_utf8 e) st
      | Inr None \<Rightarrow> wire_finalize w st
      | Inr (Some line) \<Rightarrow>
          (case wire_step w line st of
             (True, r) \<Rightarrow> r
           | (False, st', evs) \<Rightarrow> (case wire_finalize w st' of (st'', evs') \<Rightarrow> (st'', evs @ evs'))))"

text \<open>The loop over the transport chunks; a failed read carries its error text.\<close>

fun sse_stream :: "('s, 'e) wire \<Rightarrow> (u8 list \<Rightarrow> string + string) \<Rightarrow> (string + u8 list) list \<Rightarrow> 's
    \<Rightarrow> sse_line_buffer \<Rightarrow> 's \<times> 'e list" where
  "sse_stream w decode [] st buf = end_of_bytes w decode st buf"
| "sse_stream w decode (Inl e # chunks) st buf = wire_abort w e st"
| "sse_stream w decode (Inr c # chunks) st buf =
     (case drain_lines w decode st (push buf c) of
        (True, st', _, evs) \<Rightarrow> (st', evs)
      | (False, st', buf', evs) \<Rightarrow>
          (case sse_stream w decode chunks st' buf' of (st'', evs') \<Rightarrow> (st'', evs @ evs')))"

section \<open>The contract between a wire format and the loop\<close>

text \<open>
  What a wire format guarantees of the events it produces while the stream goes on
  (\<open>going\<close>) and when it ends (\<open>ended\<close>), each relating the state before, the state after
  and the events between. The loop then gives \<open>ended\<close> of the whole stream.
\<close>

locale sse_session =
  fixes w :: "('s, 'e) wire"
    and going :: "'s \<Rightarrow> 's \<Rightarrow> 'e list \<Rightarrow> bool"
    and ended :: "'s \<Rightarrow> 's \<Rightarrow> 'e list \<Rightarrow> bool"
  assumes going_refl: "going s s []"
    and going_trans: "going s s' x \<Longrightarrow> going s' s'' y \<Longrightarrow> going s s'' (x @ y)"
    and going_ended: "going s s' x \<Longrightarrow> ended s' s'' y \<Longrightarrow> ended s s'' (x @ y)"
    and line_going: "wire_line w d s = (s', Go x) \<Longrightarrow> going s s' x"
    and conclude_ended: "wire_line w d s = (s', Conclude x) \<Longrightarrow> wire_finalize w s' = (s'', y) \<Longrightarrow> ended s s'' (x @ y)"
    and halt_ended: "wire_line w d s = (s', Halt x) \<Longrightarrow> ended s s' x"
    and finalize_ended: "wire_finalize w s = (s', x) \<Longrightarrow> ended s s' x"
    and abort_ended: "wire_abort w e s = (s', x) \<Longrightarrow> ended s s' x"
begin

lemma step_outcome:
  assumes "wire_step w line s = (fin, s', x)"
  shows "if fin then ended s s' x else going s s' x"
  using assms
  by (auto simp: wire_step_def split: option.splits prod.splits line_verdict.splits
      intro: going_refl line_going halt_ended conclude_ended)

lemma drain_outcome:
  "drain_lines w decode s buf = (fin, s', buf', x) \<Longrightarrow> if fin then ended s s' x else going s s' x"
proof (induction "length buf" arbitrary: s buf fin s' buf' x rule: less_induct)
  case less
  obtain b r where nl: "next_line decode buf = (b, r)" by force
  note unfold = drain_lines.simps [of w decode s buf]
  consider "r = Inr None" | e where "r = Inl e" | line where "r = Inr (Some line)"
    by (rule sum_option_cases [of r])
  then show ?case
  proof cases
    case 1
    then show ?thesis using nl less.prems by (simp add: unfold going_refl)
  next
    case 2
    then show ?thesis
      using nl less.prems by (auto simp: unfold abort_ended split: prod.splits)
  next
    case 3
    obtain f s1 e1 where ws: "wire_step w line s = (f, s1, e1)" by (cases "wire_step w line s") auto
    obtain f2 s2 b2 e2 where dr: "drain_lines w decode s1 b = (f2, s2, b2, e2)"
      by (cases "drain_lines w decode s1 b") auto
    have "length b < length buf" using next_line_shrinks [OF nl] 3 by simp
    then have "if f2 then ended s1 s2 e2 else going s1 s2 e2" using less.hyps dr by blast
    then show ?thesis
      using step_outcome [OF ws] nl 3 ws dr less.prems
      by (cases f) (auto simp: unfold intro: going_trans going_ended split: if_splits)
  qed
qed

lemma end_outcome:
  assumes "end_of_bytes w decode s buf = (s', x)"
  shows "ended s s' x"
proof -
  have "ended s s' x" if "finish decode buf = Inr (Some line)" for line
  proof -
    obtain f s1 e1 where ws: "wire_step w line s = (f, s1, e1)" by (cases "wire_step w line s") auto
    show ?thesis
      using step_outcome [OF ws] ws that assms
      by (cases f) (auto simp: end_of_bytes_def intro: going_ended finalize_ended split: prod.splits)
  qed
  then show ?thesis
    using assms by (cases rule: sum_option_cases [of "finish decode buf"])
      (auto simp: end_of_bytes_def abort_ended finalize_ended)
qed

lemma stream_outcome: "sse_stream w decode chunks s buf = (s', x) \<Longrightarrow> ended s s' x"
proof (induction chunks arbitrary: s buf x)
  case Nil
  then show ?case by (simp add: end_outcome)
next
  case (Cons c chunks)
  show ?case
  proof (cases c)
    case (Inl e)
    then show ?thesis using Cons.prems by (simp add: abort_ended)
  next
    case (Inr bs)
    obtain f s1 b1 e1 where dr: "drain_lines w decode s (push buf bs) = (f, s1, b1, e1)"
      by (cases "drain_lines w decode s (push buf bs)") auto
    obtain s2 e2 where rest: "sse_stream w decode chunks s1 b1 = (s2, e2)" by force
    show ?thesis
      using drain_outcome [OF dr] Cons.IH [of s1 b1] Cons.prems Inr dr rest
      by (cases f) (auto intro: going_ended)
  qed
qed

end

section \<open>Chunking\<close>

text \<open>Draining a longer buffer continues where draining the shorter one stopped.\<close>

lemma drain_lines_append:
  "drain_lines w decode st (buf @ ext) =
     (case drain_lines w decode st buf of
        (True, st', buf', evs) \<Rightarrow> (True, st', buf' @ ext, evs)
      | (False, st', buf', evs) \<Rightarrow>
          (case drain_lines w decode st' (buf' @ ext) of
             (fin, st'', buf'', evs') \<Rightarrow> (fin, st'', buf'', evs @ evs')))"
proof (induction w decode st buf rule: drain_lines.induct)
  case (1 w decode st buf)
  obtain buf' r where nl: "next_line decode buf = (buf', r)" by force
  show ?case
  proof (cases "r = Inr None")
    case True
    then show ?thesis
      using nl next_line_None [of decode buf buf']
      by (simp add: drain_lines.simps [of w decode st buf] split: prod.splits)
  next
    case False
    note nl' = next_line_append [OF nl False, of ext]
    show ?thesis
    proof (cases r)
      case (Inl e)
      then show ?thesis
        using nl nl'
        by (simp add: drain_lines.simps [of w decode st buf] drain_lines.simps [of w decode st "buf @ ext"]
            split: prod.splits)
    next
      case (Inr lo)
      then obtain line where r: "r = Inr (Some line)" using False by (cases lo) auto
      obtain fin st' evs where ws: "wire_step w line st = (fin, st', evs)" by (cases "wire_step w line st") auto
      show ?thesis
      proof (cases fin)
        case True
        then show ?thesis
          using nl nl' r ws
          by (simp add: drain_lines.simps [of w decode st buf] drain_lines.simps [of w decode st "buf @ ext"])
      next
        case fin: False
        note IH = 1 [OF nl [symmetric] r refl ws [symmetric] _ refl]
        show ?thesis
          using nl nl' r ws fin
          by (simp add: drain_lines.simps [of w decode st buf] drain_lines.simps [of w decode st "buf @ ext"] IH
              split: prod.splits bool.splits)
      qed
    qed
  qed
qed

lemma sse_stream_push:
  "sse_stream w decode (Inr c # Inr d # chunks) st buf = sse_stream w decode (Inr (c @ d) # chunks) st buf"
  using drain_lines_append [of w decode st "buf @ c" d]
  by (simp add: push_def split: prod.splits bool.splits)

lemma sse_stream_Cons:
  "sse_stream w decode (map Inr (c # cs) @ rest) st buf = sse_stream w decode (Inr (concat (c # cs)) # rest) st buf"
proof (induction cs arbitrary: c)
  case (Cons d cs)
  have "sse_stream w decode (map Inr (c # d # cs) @ rest) st buf
      = sse_stream w decode (map Inr ((c @ d) # cs) @ rest) st buf"
    using sse_stream_push [of w decode c d "map Inr cs @ rest" st buf] by simp
  also have "\<dots> = sse_stream w decode (Inr (concat (c # d # cs)) # rest) st buf"
    using Cons.IH [of "c @ d"] by simp
  finally show ?case .
qed simp

text \<open>
  C22. Chunk boundaries do not matter: a response read in any number of transport chunks,
  possibly followed by a failed read, yields the same events and final state as the same
  bytes read in one chunk, whatever the line processor and the decoder do. In particular a
  boundary inside a line or inside a multi-byte character is harmless.
\<close>

theorem transport_chunking_irrelevant:
  "sse_stream w decode (map Inr chunks @ rest) st [] = sse_stream w decode (Inr (concat chunks) # rest) st []"
proof (cases chunks)
  case Nil
  have "drain_lines w decode st [] = (False, st, [], [])"
    by (simp add: drain_lines.simps [of w decode st "[]"] next_line_def)
  then show ?thesis using Nil by (simp add: push_def split: prod.splits)
next
  case (Cons c cs)
  then show ?thesis using sse_stream_Cons [of w decode c cs rest st "[]"] by simp
qed

end
