(* ===== verification/Stream_Attempt.thy ===== *)
theory Stream_Attempt
  imports Chat_Stream Sse_Lines
begin

text \<open>
  One provider attempt of the agent runner
  (\<open>crates/agents/src/runner/streaming.rs\<close>): the loop that consumes stream events into
  the materializer, the answer text and the tool calls, and the verdict after the loop.
  Callbacks to the user interface, metrics and cancellation are left out: they do not
  change this state. The stream is the Chat Completions adapter on the SSE driver.
\<close>

section \<open>State and events\<close>

record attempt =
  att_materializer :: materializer
  accumulated_text :: string
  att_tool_calls :: "(string \<times> string) list"
  tool_call_args :: "(nat \<times> string) list"
  final_tool_call_args :: "string \<Rightarrow> string option"
  stream_idx_to_vec_pos :: "nat \<Rightarrow> nat option"
  raw_llm_responses :: "json list"
  request_usage :: usage
  stream_error :: "string option"
  received_done :: bool

definition attempt_start :: "json list \<Rightarrow> attempt" where
  "attempt_start raws =
     \<lparr>att_materializer = materializer_pending, accumulated_text = [], att_tool_calls = [],
      tool_call_args = [], final_tool_call_args = Map.empty, stream_idx_to_vec_pos = Map.empty,
      raw_llm_responses = raws, request_usage = usage_zero, stream_error = None,
      received_done = False\<rparr>"

definition MAX_CAPTURED_PROVIDER_RAW_EVENTS :: nat where
  "MAX_CAPTURED_PROVIDER_RAW_EVENTS = 256"

definition push_capped_provider_raw_event :: "json list \<Rightarrow> json \<Rightarrow> json list" where
  "push_capped_provider_raw_event raws raw =
     (if length raws < MAX_CAPTURED_PROVIDER_RAW_EVENTS then raws @ [raw] else raws)"

text \<open>One iteration of the event loop; a refusal by the materializer ends the run.\<close>

fun consume_event :: "attempt \<Rightarrow> stream_event \<Rightarrow> materializer_error + attempt" where
  "consume_event a (SegmentStart sid) = Inr (a\<lparr>att_materializer := materializer_new sid\<rparr>)"
| "consume_event a (ProviderItemUpdate u) =
     (case apply_update (att_materializer a) u of
        (_, Inl e) \<Rightarrow> Inl e
      | (m, Inr _) \<Rightarrow> Inr (a\<lparr>att_materializer := m, final_tool_call_args :=
            (case upd_payload u of
               FunctionCallDone args \<Rightarrow> (final_tool_call_args a)(upd_item_id u \<mapsto> args)
             | _ \<Rightarrow> final_tool_call_args a)\<rparr>))"
| "consume_event a (SegmentClose sid out us) =
     (case close (att_materializer a) out of
        (_, Inl e) \<Rightarrow> Inl e
      | (m, Inr _) \<Rightarrow> Inr (a\<lparr>att_materializer := m\<rparr>))"
| "consume_event a (Delta t) = Inr (a\<lparr>accumulated_text := accumulated_text a @ t\<rparr>)"
| "consume_event a (ProviderRaw raw) =
     Inr (a\<lparr>raw_llm_responses := push_capped_provider_raw_event (raw_llm_responses a) raw\<rparr>)"
| "consume_event a (ToolCallStart i n idx) =
     Inr (a\<lparr>att_tool_calls := att_tool_calls a @ [(i, n)],
            stream_idx_to_vec_pos := (stream_idx_to_vec_pos a)(idx \<mapsto> length (att_tool_calls a)),
            tool_call_args := AList.update idx [] (tool_call_args a)\<rparr>)"
| "consume_event a (ToolCallArgumentsDelta idx d) =
     Inr (case map_of (tool_call_args a) idx of
            None \<Rightarrow> a
          | Some args \<Rightarrow> a\<lparr>tool_call_args := AList.update idx (args @ d) (tool_call_args a)\<rparr>)"
| "consume_event a (ToolCallComplete idx) = Inr a"
| "consume_event a (Done us) = Inr (a\<lparr>received_done := True, request_usage := us\<rparr>)"
| "consume_event a (Error msg) = Inr (a\<lparr>stream_error := Some msg\<rparr>)"

text \<open>The loop; an error event leaves it, and what follows is never read.\<close>

fun consume :: "attempt \<Rightarrow> stream_event list \<Rightarrow> materializer_error + attempt" where
  "consume a [] = Inr a"
| "consume a (ev # evs) =
     (case consume_event a ev of
        Inl e \<Rightarrow> Inl e
      | Inr a' \<Rightarrow> if stream_error a' \<noteq> None then Inr a' else consume a' evs)"

section \<open>After the loop\<close>

definition close_active_segment :: "materializer \<Rightarrow> provider_segment_outcome
    \<Rightarrow> materializer \<times> (materializer_error + unit)" where
  "close_active_segment m out =
     (if segment_id (segment m) = None \<or> outcome (segment m) \<noteq> Active then (m, Inr ())
      else close m out)"

definition EMPTY_PROVIDER_RESPONSE_ERROR :: string where
  "EMPTY_PROVIDER_RESPONSE_ERROR =
     ''The provider returned an empty response (possible network error). Please try again.''"

definition attempt_error :: "nat \<Rightarrow> attempt \<Rightarrow> string option" where
  "attempt_error budget_used a =
     (let err = (if stream_error a = None \<and> \<not> received_done a
                 then Some ''The provider stream ended without a terminal event.''
                 else stream_error a);
          is_empty_initial_response =
            err = None \<and> budget_used = 0 \<and> trim (accumulated_text a) = []
            \<and> items (segment (att_materializer a)) = [] \<and> att_tool_calls a = []
            \<and> output_tokens (request_usage a) = 0
      in if is_empty_initial_response then Some EMPTY_PROVIDER_RESPONSE_ERROR else err)"

text \<open>
  The verdict: the error the attempt ends with, if any, with the segment closed either
  way before the runner goes on.
\<close>

definition conclude_attempt :: "nat \<Rightarrow> attempt \<Rightarrow> materializer_error + string option \<times> attempt" where
  "conclude_attempt budget_used a =
     (let err = attempt_error budget_used a;
          out = (if err = None then Completed else TransportError)
      in case close_active_segment (att_materializer a) out of
           (_, Inl e) \<Rightarrow> Inl e
         | (m, Inr _) \<Rightarrow> Inr (err, a\<lparr>att_materializer := m\<rparr>))"

text \<open>
  The argument text each call ends with: the provider's final text before the concatenated
  deltas, at the position its streaming index maps to.
\<close>

definition call_argument_text :: "attempt \<Rightarrow> nat \<Rightarrow> (nat \<times> string) option" where
  "call_argument_text a idx =
     (case (map_of (tool_call_args a) idx, stream_idx_to_vec_pos a idx) of
        (Some delta_args, Some vec_pos) \<Rightarrow>
          if vec_pos < length (att_tool_calls a) then
            (case final_tool_call_args a (fst (att_tool_calls a ! vec_pos)) of
               Some final_args \<Rightarrow> Some (vec_pos, final_args)
             | None \<Rightarrow> Some (vec_pos, delta_args))
          else None
      | _ \<Rightarrow> None)"

text \<open>Closing at the end of an attempt always succeeds and leaves no open segment.\<close>

lemma conclude_attempt_eq:
  "conclude_attempt n a =
     (let m = att_materializer a; err = attempt_error n a;
          m' = (if segment_id (segment m) = None \<or> outcome (segment m) \<noteq> Active then m
                else m\<lparr>segment := (segment m)\<lparr>outcome := if err = None then Completed else TransportError\<rparr>\<rparr>)
      in Inr (err, a\<lparr>att_materializer := m'\<rparr>))"
  by (auto simp: conclude_attempt_def close_active_segment_def close_def Let_def split: option.splits)

lemma attempt_error_None: "attempt_error n a = None \<Longrightarrow> stream_error a = None"
  by (auto simp: attempt_error_def Let_def split: if_splits)

section \<open>The Chat Completions stream\<close>

definition chat_wire :: "(string \<Rightarrow> string + json) \<Rightarrow> (json \<Rightarrow> string)
    \<Rightarrow> (streaming_tool_state, stream_event) wire" where
  "chat_wire parse print =
     \<lparr>wire_line = (\<lambda>d st. case process_openai_sse_line parse print d st of
          (st', LineDone) \<Rightarrow> (st', Conclude []) | (st', LineEvents evs) \<Rightarrow> (st', Go evs)),
      wire_finalize = finalize_stream, wire_cut = close_on_transport_error, wire_error = Error\<rparr>"

definition stream_with_tools_sse :: "(string \<Rightarrow> string + json) \<Rightarrow> (json \<Rightarrow> string)
    \<Rightarrow> (u8 list \<Rightarrow> string + string) \<Rightarrow> provider_segment_id \<Rightarrow> (string + u8 list) list
    \<Rightarrow> stream_event list" where
  "stream_with_tools_sse parse print decode sid chunks =
     snd (sse_stream (chat_wire parse print) decode chunks (streaming_default sid) [])"

end
