(* ===== verification/Update_Link.thy ===== *)
theory Update_Link
  imports Stream_Attempt
begin

text \<open>
  What the two streaming adapters share when they feed the materializer: every item identity
  has one kind, updates carry the position of the stream's allocator and a fresh sequence
  number, and such updates are never refused. And a logic for the consumer of a stream: what
  holds after it has read a list of events.
\<close>

section \<open>Kinds of items\<close>

datatype item_kind = KReasoning | KMessage | KCall

fun payload_kind :: "provider_output_payload \<Rightarrow> item_kind" where
  "payload_kind (Reasoning _) = KReasoning"
| "payload_kind (Message _) = KMessage"
| "payload_kind (FunctionCall _ _ _) = KCall"

fun update_kind :: "provider_item_update_payload \<Rightarrow> item_kind" where
  "update_kind (MessageDelta _) = KMessage"
| "update_kind (MessageDone _) = KMessage"
| "update_kind (FunctionCallStart _) = KCall"
| "update_kind (FunctionCallDelta _) = KCall"
| "update_kind (FunctionCallDone _) = KCall"
| "update_kind _ = KReasoning"

lemma apply_payload_kind:
  "(apply_payload p q \<noteq> None) = (payload_kind p = update_kind q)"
  "apply_payload p q = Some r \<Longrightarrow> payload_kind r = payload_kind p"
  by (cases "(p, q)" rule: apply_payload.cases; auto)+

lemma create_kind: "payload_kind (item_payload (create_item_from_update u)) = update_kind (upd_payload u)"
  by (cases "upd_payload u") (simp_all add: create_item_from_update_def new_reasoning_def)

section \<open>Stamped updates\<close>

text \<open>
  The materializer agrees with a stream: positions come from the stream's allocator, recorded
  sequence numbers are behind the stream's counter, and the kinds of the items follow their
  identities.
\<close>

definition stamped :: "(provider_item_id \<Rightarrow> item_kind) \<Rightarrow> provider_segment_id option \<Rightarrow> item_position_allocator
    \<Rightarrow> nat \<Rightarrow> materializer \<Rightarrow> bool" where
  "stamped kind sid alloc q m \<longleftrightarrow> mat_ok m \<and> outcome (segment m) = Active \<and> segment_id (segment m) = sid
     \<and> allocator_ok alloc \<and> positions_agree (assigned_position alloc) (items (segment m))
     \<and> (\<forall>i r. last_update_seq m i = Some r \<longrightarrow> r \<le> q)
     \<and> (\<forall>x \<in> set (items (segment m)). payload_kind (item_payload x) = kind (item_id x))"

lemma stamped_accepts:
  assumes link: "stamped kind (Some sid) al q m" and pos: "position_for al i = (p, al')"
    and kind: "update_kind pay = kind i"
  obtains m' where "apply_update m \<lparr>upd_segment_id = sid, upd_item_id = i, upd_position = p,
      update_seq = q + 1, upd_payload = pay\<rparr> = (m', Inr ())" "stamped kind (Some sid) al' (q + 1) m'"
proof -
  define u where "u = \<lparr>upd_segment_id = sid, upd_item_id = i, upd_position = p, update_seq = q + 1, upd_payload = pay\<rparr>"
  have ok: "allocator_ok al" and agree: "positions_agree (assigned_position al) (items (segment m))"
    using link by (auto simp: stamped_def)
  have pos': "position_for al (upd_item_id u) = (upd_position u, al')" using pos by (simp add: u_def)
  note stamped = alloc.stamped_update [OF ok pos' agree]
  have "apply_to_items (items (segment m)) u \<noteq> Inl (PayloadTypeMismatch (upd_item_id u))"
  proof
    assume "apply_to_items (items (segment m)) u = Inl (PayloadTypeMismatch (upd_item_id u))"
    then obtain x where "find_item i (items (segment m)) = Some x" "apply_payload (item_payload x) pay = None"
      by (auto simp: apply_to_items_def apply_payload_to_item_def u_def split: option.splits if_splits)
    then show False
      using link kind apply_payload_kind(1) [of "item_payload x" pay]
      by (auto simp: stamped_def dest!: find_SomeD)
  qed
  then obtain xs where xs: "apply_to_items (items (segment m)) u = Inr xs"
    using stamped(1) by (cases "apply_to_items (items (segment m)) u") auto
  obtain m' r where ap: "apply_update m u = (m', r)" by force
  have seq: "\<not> update_seq u \<le> r" if "last_update_seq m i = Some r" for r
    using link that by (fastforce simp: stamped_def u_def)
  have m': "r = Inr () \<and> m' = m\<lparr>segment := (segment m)\<lparr>segment_id := Some sid, items := xs\<rparr>,
             last_update_seq := (last_update_seq m)(i \<mapsto> q + 1)\<rparr>"
    using ap xs link seq
    by (auto simp: apply_update_alt apply_sequenced_def identified_def stamped_def u_def Let_def
        split: option.splits)
  have kinds: "payload_kind (item_payload x) = kind (item_id x)" if "x \<in> set xs" for x
    using xs
  proof (cases rule: apply_to_items_cases)
    case (update y q)
    then show ?thesis
      using that link apply_payload_kind(2) [OF update(3)]
      by (auto simp: stamped_def dest!: in_update_firstD find_SomeD)
  next
    case create
    then show ?thesis using that link kind create_kind [of u] by (auto simp: stamped_def u_def)
  qed
  have "mat_ok m'" using mat_ok_apply_update [of m u] link ap by (simp add: stamped_def)
  then have "stamped kind (Some sid) al' (q + 1) m'"
    using link kinds stamped(2) [OF xs] alloc.ok_position_for [OF ok pos] m'
    by (auto simp: stamped_def le_SucI)
  with that ap m' show thesis by (simp add: u_def)
qed

lemma stamped_position:
  assumes "stamped kind sid al q m"
  shows "stamped kind sid (snd (position_for al i)) q m"
proof -
  obtain p al' where pos: "position_for al i = (p, al')" by force
  have "allocator_ok al'" using alloc.ok_position_for [OF _ pos] assms by (simp add: stamped_def)
  moreover have "positions_agree (assigned_position al') (items (segment m))"
    using assms pos by (auto simp: stamped_def positions_agree_def assigned_position_def position_for_def split: option.splits)
  ultimately show ?thesis using assms pos by (simp add: stamped_def)
qed

section \<open>Reading events\<close>

text \<open>
  \<open>reads E P evs Q\<close>: a consumer that satisfies \<open>P\<close> reads the events without a refusal and
  then satisfies \<open>Q\<close>, or \<open>E\<close> when an error event made it leave the stream.
\<close>

definition reads :: "(attempt \<Rightarrow> bool) \<Rightarrow> (attempt \<Rightarrow> bool) \<Rightarrow> stream_event list \<Rightarrow> (attempt \<Rightarrow> bool) \<Rightarrow> bool" where
  "reads E P evs Q \<longleftrightarrow> (\<forall>a. stream_error a = None \<and> P a \<longrightarrow>
     (\<exists>a'. consume a evs = Inr a' \<and> (if stream_error a' = None then Q a' else E a')))"

lemma consume_append:
  "stream_error a = None \<Longrightarrow> consume a (xs @ ys) =
     (case consume a xs of Inl e \<Rightarrow> Inl e
      | Inr a' \<Rightarrow> if stream_error a' \<noteq> None then Inr a' else consume a' ys)"
  by (induction a xs rule: consume.induct) (auto split: sum.splits)

lemma reads_Nil: "(\<And>a. P a \<Longrightarrow> Q a) \<Longrightarrow> reads E P [] Q"
  by (auto simp: reads_def)

lemma reads_append:
  assumes "reads E P xs Q" "reads E Q ys R"
  shows "reads E P (xs @ ys) R"
  unfolding reads_def
proof (intro allI impI)
  fix a assume a: "stream_error a = None \<and> P a"
  then obtain a1 where a1: "consume a xs = Inr a1" "if stream_error a1 = None then Q a1 else E a1"
    using assms(1) unfolding reads_def by blast
  show "\<exists>a'. consume a (xs @ ys) = Inr a' \<and> (if stream_error a' = None then R a' else E a')"
  proof (cases "stream_error a1 = None")
    case True
    then obtain a2 where "consume a1 ys = Inr a2" "if stream_error a2 = None then R a2 else E a2"
      using assms(2) a1(2) unfolding reads_def by auto
    then show ?thesis using a a1(1) True by (simp add: consume_append)
  next
    case False
    then show ?thesis using a a1 by (auto simp: consume_append)
  qed
qed

lemma reads_Cons:
  assumes "\<And>a. stream_error a = None \<Longrightarrow> P a \<Longrightarrow> \<exists>a'. consume_event a ev = Inr a' \<and> stream_error a' = None \<and> Q a'"
    and "reads E Q evs R"
  shows "reads E P (ev # evs) R"
proof -
  have "reads E P [ev] Q"
    unfolding reads_def
  proof (intro allI impI)
    fix a assume "stream_error a = None \<and> P a"
    then obtain a' where "consume_event a ev = Inr a'" "stream_error a' = None" "Q a'" using assms(1) by blast
    then show "\<exists>a'. consume a [ev] = Inr a' \<and> (if stream_error a' = None then Q a' else E a')" by simp
  qed
  from reads_append [OF this assms(2)] show ?thesis by simp
qed

lemma reads_weaken: "reads E P evs Q \<Longrightarrow> (\<And>a. P' a \<Longrightarrow> P a) \<Longrightarrow> (\<And>a. Q a \<Longrightarrow> Q' a) \<Longrightarrow> reads E P' evs Q'"
  unfolding reads_def by metis

lemma reads_no_error: "reads (\<lambda>_. False) P evs Q \<Longrightarrow> reads E P evs Q"
  unfolding reads_def by metis

lemma reads_Error: "(\<And>a m. P a \<Longrightarrow> E (a\<lparr>stream_error := Some m\<rparr>)) \<Longrightarrow> reads E P (Error e # evs) Q"
  by (auto simp: reads_def)

end
