(* ===== verification/Chat_Link.thy ===== *)
theory Chat_Link
  imports Update_Link
begin

text \<open>
  The Chat Completions adapter and its consumer in step. A simulation relation links the
  state of the stream with the runner's attempt (materializer, text, tool calls); every
  operation of the adapter preserves it, so that no update the adapter emits is ever refused.
\<close>

section \<open>Kinds of items\<close>

definition kind_of_id :: "provider_item_id \<Rightarrow> item_kind" where
  "kind_of_id i = (if i = CHAT_REASONING_ITEM_ID then KReasoning
     else if i = CHAT_MESSAGE_ITEM_ID then KMessage else KCall)"

section \<open>The link between a stream and its consumer\<close>

text \<open>
  The materializer agrees with the stream: positions come from the stream's allocator,
  recorded sequence numbers are behind the stream's counter, the kinds of the items follow
  their identities, and the segment identity is the stream's once the segment is announced.
\<close>

definition mat_linked :: "streaming_tool_state \<Rightarrow> materializer \<Rightarrow> bool" where
  "mat_linked st m \<longleftrightarrow> mat_ok m \<and> outcome (segment m) = Active
     \<and> segment_id (segment m) = (if segment_started st then Some (st_segment_id st) else None)
     \<and> allocator_ok (item_positions st)
     \<and> positions_agree (assigned_position (item_positions st)) (items (segment m))
     \<and> (\<forall>i q. last_update_seq m i = Some q \<longrightarrow> q \<le> seq_counter st)
     \<and> (\<forall>x \<in> set (items (segment m)). payload_kind (item_payload x) = kind_of_id (item_id x))"

definition streamed_text :: "materializer \<Rightarrow> string" where
  "streamed_text m = (case find_item CHAT_MESSAGE_ITEM_ID (items (segment m)) of
     Some x \<Rightarrow> (case item_payload x of Message t \<Rightarrow> t | _ \<Rightarrow> []) | None \<Rightarrow> [])"

text \<open>The consumer knows every call of the stream, under its index, with the same text.\<close>

definition call_known :: "attempt \<Rightarrow> nat \<Rightarrow> string \<times> string \<times> string \<Rightarrow> bool" where
  "call_known a idx c = (case c of (i, n, args) \<Rightarrow>
     kind_of_id i = KCall \<and> map_of (tool_call_args a) idx = Some args
     \<and> (\<exists>p < length (att_tool_calls a). stream_idx_to_vec_pos a idx = Some p
          \<and> att_tool_calls a ! p = (i, n)))"

definition calls_linked :: "streaming_tool_state \<Rightarrow> attempt \<Rightarrow> bool" where
  "calls_linked st a \<longleftrightarrow> final_tool_call_args a = Map.empty
     \<and> (\<forall>idx. map_of (tool_calls st) idx = None \<longrightarrow> map_of (tool_call_args a) idx = None)
     \<and> (\<forall>idx c. map_of (tool_calls st) idx = Some c \<longrightarrow> call_known a idx c)"

text \<open>The text handed to the caller is the text of the materialized message.\<close>

definition consistent :: "attempt \<Rightarrow> bool" where
  "consistent a \<longleftrightarrow> mat_ok (att_materializer a)
     \<and> streamed_text (att_materializer a) = accumulated_text a"

definition linked :: "streaming_tool_state \<Rightarrow> attempt \<Rightarrow> bool" where
  "linked st a \<longleftrightarrow> stream_error a = None \<and> \<not> segment_closed st
     \<and> mat_linked st (att_materializer a) \<and> calls_linked st a
     \<and> streamed_text (att_materializer a) = accumulated_text a
     \<and> (segment_started st \<or> tag_buffer st = [] \<and> items (segment (att_materializer a)) = [])"

lemma linked_consistent: "linked st a \<Longrightarrow> consistent a"
  by (simp add: linked_def mat_linked_def consistent_def)

lemma linked_no_error: "linked st a \<Longrightarrow> stream_error a = None"
  by (simp add: linked_def)

lemma mat_linked_stamped:
  "mat_linked st m \<longleftrightarrow> stamped kind_of_id (if segment_started st then Some (st_segment_id st) else None)
     (item_positions st) (seq_counter st) m"
  by (simp add: mat_linked_def stamped_def)

lemma mat_linked_stream_update:
  assumes link: "mat_linked st m" and upd: "stream_update st i pay = (st', ev)"
    and kind: "update_kind pay = kind_of_id i" and st: "segment_started st"
  obtains u m' where "ev = ProviderItemUpdate u" "apply_update m u = (m', Inr ())" "mat_linked st' m'"
proof -
  obtain p alloc where pos: "position_for (item_positions st) i = (p, alloc)" by force
  have stamp: "stamped kind_of_id (Some (st_segment_id st)) (item_positions st) (seq_counter st) m"
    using link st by (simp add: mat_linked_stamped)
  obtain m' where "apply_update m \<lparr>upd_segment_id = st_segment_id st, upd_item_id = i, upd_position = p,
        update_seq = seq_counter st + 1, upd_payload = pay\<rparr> = (m', Inr ())"
      "stamped kind_of_id (Some (st_segment_id st)) alloc (seq_counter st + 1) m'"
    by (rule stamped_accepts [OF stamp pos kind])
  moreover have "ev = ProviderItemUpdate \<lparr>upd_segment_id = st_segment_id st, upd_item_id = i, upd_position = p,
        update_seq = seq_counter st + 1, upd_payload = pay\<rparr>"
      "st' = st\<lparr>seq_counter := seq_counter st + 1, item_positions := alloc\<rparr>"
    using upd pos by (auto simp: stream_update_def)
  ultimately show thesis using that st by (simp add: mat_linked_stamped)
qed

lemma streamed_text_update:
  assumes ap: "apply_update m u = (m', Inr ())" and ok: "mat_linked st m"
    and kind: "update_kind (upd_payload u) = kind_of_id (upd_item_id u)"
  shows "(\<And>t. upd_payload u \<noteq> MessageDone t) \<Longrightarrow> streamed_text m' =
    streamed_text m @ (case upd_payload u of MessageDelta d \<Rightarrow> d | _ \<Rightarrow> [])"
proof (cases "upd_item_id u = CHAT_MESSAGE_ITEM_ID")
  case True
  assume nd: "\<And>t. upd_payload u \<noteq> MessageDone t"
  have "update_kind (upd_payload u) = KMessage"
    using kind True by (simp add: kind_of_id_def CHAT_REASONING_ITEM_ID_def CHAT_MESSAGE_ITEM_ID_def)
  then obtain d where d: "upd_payload u = MessageDelta d"
    using nd by (cases "upd_payload u") auto
  have "mat_ok m" using ok by (simp add: mat_linked_def)
  note find = apply_update_ok(1) [OF ap this, of CHAT_MESSAGE_ITEM_ID]
  show ?thesis
  proof (cases "find_item CHAT_MESSAGE_ITEM_ID (items (segment m))")
    case None
    then show ?thesis
      using find True d by (simp add: streamed_text_def item_step_def create_item_from_update_def)
  next
    case (Some x)
    then have "payload_kind (item_payload x) = KMessage"
      using ok by (auto simp: mat_linked_def kind_of_id_def CHAT_REASONING_ITEM_ID_def
          CHAT_MESSAGE_ITEM_ID_def dest!: find_SomeD)
    then obtain t where "item_payload x = Message t" by (cases "item_payload x") auto
    then show ?thesis
      using find True d Some by (simp add: streamed_text_def item_step_def)
  qed
next
  case False
  then have "update_kind (upd_payload u) \<noteq> KMessage"
    using kind by (simp add: kind_of_id_def split: if_splits)
  then have "(case upd_payload u of MessageDelta d \<Rightarrow> d | _ \<Rightarrow> []) = []"
    by (cases "upd_payload u") auto
  then show ?thesis
    using apply_update_ok(1) [OF ap, of CHAT_MESSAGE_ITEM_ID] ok False
    by (simp add: streamed_text_def mat_linked_def)
qed

text \<open>
  \<open>feeds st st' evs\<close>: from every consumer in step with \<open>st\<close>, once the segment is announced,
  the events are consumed without a refusal, and the consumer is then in step with \<open>st'\<close>
  unless an error event made it leave the stream.
\<close>

definition feeds :: "streaming_tool_state \<Rightarrow> streaming_tool_state \<Rightarrow> stream_event list \<Rightarrow> bool" where
  "feeds st st' evs \<longleftrightarrow> (\<forall>a. linked st a \<and> segment_started st \<longrightarrow>
     (\<exists>a'. consume a evs = Inr a' \<and> (stream_error a' \<noteq> None \<and> consistent a' \<or> linked st' a' \<and> segment_started st')))"

lemma feeds_refl [simp, intro]: "feeds st st []"
  by (simp add: feeds_def)

lemma feeds_trans [trans]:
  assumes "feeds st st1 xs" and "feeds st1 st2 ys"
  shows "feeds st st2 (xs @ ys)"
  unfolding feeds_def
proof (intro allI impI)
  fix a assume a: "linked st a \<and> segment_started st"
  then have err: "stream_error a = None" by (simp add: linked_def)
  from a obtain a1 where a1: "consume a xs = Inr a1" "stream_error a1 \<noteq> None \<and> consistent a1 \<or> linked st1 a1 \<and> segment_started st1"
    using assms(1) unfolding feeds_def by blast
  show "\<exists>a'. consume a (xs @ ys) = Inr a' \<and> (stream_error a' \<noteq> None \<and> consistent a' \<or> linked st2 a' \<and> segment_started st2)"
  proof (cases "stream_error a1 = None")
    case True
    then obtain a2 where "consume a1 ys = Inr a2" "stream_error a2 \<noteq> None \<and> consistent a2 \<or> linked st2 a2 \<and> segment_started st2"
      using assms(2) a1(2) unfolding feeds_def by blast
    then show ?thesis using err a1(1) True by (simp add: consume_append)
  next
    case False
    then have "consistent a1" using a1(2) by (auto dest: linked_no_error)
    then show ?thesis using err a1(1) False by (simp add: consume_append)
  qed
qed

lemma feeds_error: "feeds st st' (Error e # evs)"
  by (auto simp: feeds_def consistent_def dest!: linked_consistent)

text \<open>State changes the link does not look at.\<close>

definition link_frame :: "streaming_tool_state \<Rightarrow> streaming_tool_state \<Rightarrow> bool" where
  "link_frame st st' \<longleftrightarrow> st_segment_id st' = st_segment_id st \<and> segment_started st' = segment_started st
     \<and> segment_closed st' = segment_closed st \<and> seq_counter st' = seq_counter st
     \<and> tool_calls st' = tool_calls st \<and> item_positions st' = item_positions st"

lemma link_frame_simps [simp]:
  "link_frame st (st\<lparr>in_think_block := b\<rparr>)" "link_frame st (st\<lparr>current_reasoning_tag := t\<rparr>)"
  "link_frame st (st\<lparr>think_strip_leading_ws := b\<rparr>)" "link_frame st (st\<lparr>visible_strip_leading_ws := b\<rparr>)"
  "link_frame st (st\<lparr>tag_buffer := s\<rparr>)" "link_frame st (st\<lparr>tokens := us\<rparr>)"
  "link_frame st (st\<lparr>terminal_seen := b\<rparr>)"
  by (simp_all add: link_frame_def)

lemma feeds_frame:
  assumes "feeds st st1 evs" and "link_frame st0 st" "link_frame st1 st2"
  shows "feeds st0 st2 evs"
proof -
  have *: "linked s' a \<and> segment_started s'" if "link_frame s s'" "linked s a \<and> segment_started s" for s s' a
    using that by (simp add: link_frame_def linked_def mat_linked_def calls_linked_def)
  show ?thesis
    unfolding feeds_def
  proof (intro allI impI)
    fix a assume "linked st0 a \<and> segment_started st0"
    then have "linked st a \<and> segment_started st" by (rule * [OF assms(2)])
    then obtain a' where "consume a evs = Inr a'" "stream_error a' \<noteq> None \<and> consistent a' \<or> linked st1 a' \<and> segment_started st1"
      using assms(1) unfolding feeds_def by blast
    then show "\<exists>a'. consume a evs = Inr a' \<and> (stream_error a' \<noteq> None \<and> consistent a' \<or> linked st2 a' \<and> segment_started st2)"
      using * [OF assms(3)] by blast
  qed
qed

text \<open>The two emissions: an update of an item other than the message, and message text.\<close>

lemma link_stream_update:
  assumes upd: "stream_update st i pay = (st', ev)" and kind: "update_kind pay = kind_of_id i"
    and link: "linked st a" "segment_started st"
    and plain: "\<And>t. pay \<noteq> MessageDone t" "\<And>t. pay \<noteq> FunctionCallDone t"
  obtains m where "consume_event a ev = Inr (a\<lparr>att_materializer := m\<rparr>)" "mat_linked st' m"
    "streamed_text m = accumulated_text a @ (case pay of MessageDelta d \<Rightarrow> d | _ \<Rightarrow> [])"
    "segment_started st'" "segment_closed st' = segment_closed st" "tool_calls st' = tool_calls st"
proof -
  have matl: "mat_linked st (att_materializer a)" and txt_eq:
    "streamed_text (att_materializer a) = accumulated_text a"
    using link by (simp_all add: linked_def)
  obtain u m where u: "ev = ProviderItemUpdate u" "apply_update (att_materializer a) u = (m, Inr ())" "mat_linked st' m"
    using mat_linked_stream_update [OF matl upd kind link(2)] .
  have pay: "upd_payload u = pay" "upd_item_id u = i" and st': "segment_started st'"
    "segment_closed st' = segment_closed st" "tool_calls st' = tool_calls st"
    using upd u(1) link(2) by (auto simp: stream_update_def Let_def split: prod.splits)
  have "consume_event a ev = Inr (a\<lparr>att_materializer := m\<rparr>)"
    using u(1,2) pay plain by (auto split: provider_item_update_payload.splits)
  moreover have "streamed_text m = accumulated_text a @ (case pay of MessageDelta d \<Rightarrow> d | _ \<Rightarrow> [])"
    using streamed_text_update [OF u(2) matl] kind plain pay txt_eq by simp
  ultimately show thesis using that u(3) st' by simp
qed

lemma call_known_frame [simp]:
  "call_known (a\<lparr>att_materializer := m\<rparr>) idx c = call_known a idx c"
  "call_known (a\<lparr>accumulated_text := t\<rparr>) idx c = call_known a idx c"
  by (simp_all add: call_known_def)

lemma calls_linked_frame [simp]:
  "calls_linked st (a\<lparr>att_materializer := m\<rparr>) = calls_linked st a"
  "calls_linked st (a\<lparr>accumulated_text := t\<rparr>) = calls_linked st a"
  by (simp_all add: calls_linked_def)

lemma calls_linked_cong: "tool_calls st' = tool_calls st \<Longrightarrow> calls_linked st' a = calls_linked st a"
  by (simp add: calls_linked_def)

lemma feeds_reasoning:
  assumes upd: "stream_update st CHAT_REASONING_ITEM_ID (ReasoningTextDelta t) = (st', ev)"
  shows "feeds st st' [ev]"
  unfolding feeds_def
proof (intro allI impI)
  fix a assume a: "linked st a \<and> segment_started st"
  have kind: "update_kind (ReasoningTextDelta t) = kind_of_id CHAT_REASONING_ITEM_ID"
    by (simp add: kind_of_id_def)
  from link_stream_update [OF upd kind, of a] a obtain m where m:
    "consume_event a ev = Inr (a\<lparr>att_materializer := m\<rparr>)" "mat_linked st' m"
    "streamed_text m = accumulated_text a"
    "segment_started st'" "segment_closed st' = segment_closed st" "tool_calls st' = tool_calls st"
    by auto
  have "calls_linked st' (a\<lparr>att_materializer := m\<rparr>)"
    using calls_linked_cong [OF m(6)] a by (simp add: linked_def)
  then have "linked st' (a\<lparr>att_materializer := m\<rparr>)" using a m by (simp add: linked_def)
  then show "\<exists>a'. consume a [ev] = Inr a' \<and> (stream_error a' \<noteq> None \<and> consistent a' \<or> linked st' a' \<and> segment_started st')"
    using m by simp
qed

lemma feeds_message:
  assumes upd: "stream_update st CHAT_MESSAGE_ITEM_ID (MessageDelta t) = (st', ev)"
  shows "feeds st st' [ev, Delta t]"
  unfolding feeds_def
proof (intro allI impI)
  fix a assume a: "linked st a \<and> segment_started st"
  have kind: "update_kind (MessageDelta t) = kind_of_id CHAT_MESSAGE_ITEM_ID"
    by (simp add: kind_of_id_def CHAT_MESSAGE_ITEM_ID_def CHAT_REASONING_ITEM_ID_def)
  from link_stream_update [OF upd kind, of a] a obtain m where m:
    "consume_event a ev = Inr (a\<lparr>att_materializer := m\<rparr>)" "mat_linked st' m"
    "streamed_text m = accumulated_text a @ t"
    "segment_started st'" "segment_closed st' = segment_closed st" "tool_calls st' = tool_calls st"
    by auto
  let ?a = "a\<lparr>att_materializer := m, accumulated_text := accumulated_text a @ t\<rparr>"
  have "calls_linked st' ?a"
    using calls_linked_cong [OF m(6)] a by (simp add: linked_def)
  then have "linked st' ?a" using a m by (simp add: linked_def)
  then show "\<exists>a'. consume a [ev, Delta t] = Inr a' \<and> (stream_error a' \<noteq> None \<and> consistent a' \<or> linked st' a' \<and> segment_started st')"
    using m a by (simp add: linked_def)
qed

section \<open>The operations of the stream\<close>

lemma feeds_emit_reasoning: "emit_reasoning t st = (st', evs) \<Longrightarrow> feeds st st' evs"
  by (auto simp: emit_reasoning_def Let_def split: prod.splits if_splits
      intro: feeds_frame [OF feeds_reasoning] simp: link_frame_def)

lemma feeds_emit_visible: "emit_visible t st = (st', evs) \<Longrightarrow> feeds st st' evs"
  by (auto simp: emit_visible_def Let_def split: prod.splits if_splits
      intro: feeds_frame [OF feeds_message] simp: link_frame_def)

text \<open>A relation every emission of the tag machine satisfies holds of a whole run of it.\<close>

lemma think_loop_rule:
  assumes run: "think_loop st = (st', evs)"
    and frame: "\<And>s s'. link_frame s s' \<Longrightarrow> R s s' []"
    and trans: "\<And>s s' s'' x y. R s s' x \<Longrightarrow> R s' s'' y \<Longrightarrow> R s s'' (x @ y)"
    and reasoning: "\<And>t s s' x. emit_reasoning t s = (s', x) \<Longrightarrow> R s s' x"
    and visible: "\<And>t s s' x. emit_visible t s = (s', x) \<Longrightarrow> R s s' x"
  shows "R st st' evs"
  using run
proof (induction st arbitrary: st' evs rule: think_loop.induct)
  case (1 st)
  have step: "R s s3 (x @ y)" if "R s s1 x" "link_frame s1 s2" "R s2 s3 y" for s s1 s2 s3 x y
    using trans [OF that(1) trans [OF frame [OF that(2)] that(3)]] by simp
  have stop: "R s s2 x" if "R s s1 x" "link_frame s1 s2" for s s1 s2 x
    using trans [OF that(1) frame [OF that(2)]] by simp
  show ?case
  proof (cases "in_think_block st")
    case True
    show ?thesis
    proof (cases "current_reasoning_tag st")
      case None
      then show ?thesis
        using 1 True step [OF frame, of st st "st\<lparr>in_think_block := False\<rparr>" st' evs]
        by (simp add: think_loop.simps [of st] link_frame_def)
    next
      case (Some tag)
      show ?thesis
      proof (cases "str_find (close_tag tag) (tag_buffer st)")
        case None
        then show ?thesis
          using 1(4) True Some
          by (auto simp: think_loop.simps [of st] Let_def link_frame_def split: prod.splits
              intro: stop [OF reasoning])
      next
        case (Some pos)
        obtain st1 ev1 where e: "emit_reasoning (take pos (tag_buffer st)) st = (st1, ev1)" by force
        note IH = 1(2) [OF refl True \<open>current_reasoning_tag st = _\<close> Some refl e [symmetric]]
        show ?thesis
          using 1(4) True \<open>current_reasoning_tag st = _\<close> Some e
          by (auto simp: think_loop.simps [of st] Let_def link_frame_def split: prod.splits
              intro!: step [OF reasoning [OF e] _ IH])
      qed
    qed
  next
    case False
    show ?thesis
    proof (cases "find_next_open_tag (tag_buffer st)")
      case None
      then show ?thesis
        using 1(4) False
        by (auto simp: think_loop.simps [of st] Let_def link_frame_def split: prod.splits
            intro: stop [OF visible])
    next
      case (Some pt)
      obtain pos tag where pt: "pt = (pos, tag)" by force
      obtain st1 ev1 where e: "emit_visible (take pos (tag_buffer st)) st = (st1, ev1)" by force
      note IH = 1(3) [OF refl False Some pt [symmetric] refl e [symmetric]]
      show ?thesis
        using 1(4) False Some pt e
        by (auto simp: think_loop.simps [of st] Let_def link_frame_def split: prod.splits
            intro!: step [OF visible [OF e] _ IH])
    qed
  qed
qed

lemma feeds_of_frame: "link_frame s s' \<Longrightarrow> feeds s s' []"
  by (rule feeds_frame [OF feeds_refl [of s]]) (simp_all add: link_frame_def)

lemma feeds_think_tags:
  assumes "process_content_think_tags c st = (st', evs)" shows "feeds st st' evs"
proof -
  have "feeds (st\<lparr>tag_buffer := tag_buffer st @ c\<rparr>) st' evs"
    using assms unfolding process_content_think_tags_def
    by (rule think_loop_rule) (blast intro: feeds_of_frame feeds_trans feeds_emit_reasoning feeds_emit_visible)+
  then show ?thesis
    by (rule feeds_frame) (simp_all add: link_frame_def)
qed

lemma stream_update_tool_calls:
  "stream_update (st\<lparr>tool_calls := x\<rparr>) i pay =
     (case stream_update st i pay of (st', ev) \<Rightarrow> (st'\<lparr>tool_calls := x\<rparr>, ev))"
  by (simp add: stream_update_def Let_def split: prod.splits)

text \<open>A change of one tool call, carried by its update and its tool-call event.\<close>

definition call_change :: "nat \<Rightarrow> string \<times> string \<times> string \<Rightarrow> attempt \<Rightarrow> attempt \<Rightarrow> bool" where
  "call_change idx c a a' \<longleftrightarrow> accumulated_text a' = accumulated_text a \<and> stream_error a' = stream_error a
     \<and> final_tool_call_args a' = final_tool_call_args a \<and> call_known a' idx c
     \<and> (\<forall>j. j \<noteq> idx \<longrightarrow> map_of (tool_call_args a') j = map_of (tool_call_args a) j)
     \<and> (\<forall>j c. j \<noteq> idx \<longrightarrow> call_known a j c \<longrightarrow> call_known a' j c)"

lemma feeds_call:
  assumes upd: "stream_update (st\<lparr>tool_calls := AList.update idx (i, n, args) (tool_calls st)\<rparr>) i pay = (st', ev)"
    and kind: "kind_of_id i = KCall" "pay = FunctionCallStart n' \<or> pay = FunctionCallDelta d"
    and call: "\<And>a m. calls_linked st a \<Longrightarrow> \<exists>a'. call_change idx (i, n, args) a a'
        \<and> consume_event (a\<lparr>att_materializer := m\<rparr>) cev = Inr (a'\<lparr>att_materializer := m\<rparr>)"
  shows "feeds st st' [ev, cev]"
  unfolding feeds_def
proof (intro allI impI)
  fix a assume a: "linked st a \<and> segment_started st"
  obtain st1 where st1: "stream_update st i pay = (st1, ev)"
      "st' = st1\<lparr>tool_calls := AList.update idx (i, n, args) (tool_calls st)\<rparr>"
    using upd by (auto simp: stream_update_tool_calls split: prod.splits)
  have uk: "update_kind pay = kind_of_id i" using kind by auto
  have plain: "pay \<noteq> MessageDone t" "pay \<noteq> FunctionCallDone t"
    and none: "(case pay of MessageDelta d \<Rightarrow> d | _ \<Rightarrow> []) = []" for t
    using kind(2) by auto
  obtain m where m: "consume_event a ev = Inr (a\<lparr>att_materializer := m\<rparr>)" "mat_linked st1 m"
    "streamed_text m = accumulated_text a" "segment_started st1" "segment_closed st1 = segment_closed st"
    using link_stream_update [OF st1(1) uk conjunct1 [OF a] conjunct2 [OF a] plain] none
    by (metis append_Nil2)
  have cl: "calls_linked st a" using a by (simp add: linked_def)
  from call [OF cl, of m] obtain a' where a': "call_change idx (i, n, args) a a'"
    "consume_event (a\<lparr>att_materializer := m\<rparr>) cev = Inr (a'\<lparr>att_materializer := m\<rparr>)" by blast
  have "calls_linked st' a'"
  proof -
    have upd': "map_of (tool_calls st') = (map_of (tool_calls st))(idx \<mapsto> (i, n, args))"
      by (simp add: st1(2) update_conv')
    have "map_of (tool_call_args a') j = None" if "map_of (tool_calls st') j = None" for j
      using that cl a'(1) upd' by (cases "j = idx") (simp_all add: calls_linked_def call_change_def)
    moreover have "call_known a' j c" if "map_of (tool_calls st') j = Some c" for j c
      using that cl a'(1) upd' by (cases c; cases "j = idx") (simp_all add: calls_linked_def call_change_def)
    moreover have "final_tool_call_args a' = Map.empty"
      using cl a'(1) by (simp add: calls_linked_def call_change_def)
    ultimately show ?thesis unfolding calls_linked_def by blast
  qed
  moreover have "mat_linked st' m" using m(2) by (simp add: st1(2) mat_linked_def)
  ultimately have "linked st' (a'\<lparr>att_materializer := m\<rparr>)"
    using a m a'(1) by (simp add: linked_def st1(2) call_change_def)
  then show "\<exists>a'. consume a [ev, cev] = Inr a' \<and> (stream_error a' \<noteq> None \<and> consistent a' \<or> linked st' a' \<and> segment_started st')"
    using m a' a by (simp add: linked_def st1(2) call_change_def)
qed

lemma call_change_start:
  "kind_of_id i = KCall \<Longrightarrow> \<exists>a'. call_change idx (i, n, []) a a'
     \<and> consume_event (a\<lparr>att_materializer := m\<rparr>) (ToolCallStart i n idx) = Inr (a'\<lparr>att_materializer := m\<rparr>)"
  by (rule exI [of _ "a\<lparr>att_tool_calls := att_tool_calls a @ [(i, n)],
            stream_idx_to_vec_pos := (stream_idx_to_vec_pos a)(idx \<mapsto> length (att_tool_calls a)),
            tool_call_args := AList.update idx [] (tool_call_args a)\<rparr>"])
    (auto simp: call_change_def call_known_def update_conv' nth_append split: prod.splits)

lemma call_change_delta:
  assumes "call_known a idx (i, n, args)"
  shows "\<exists>a'. call_change idx (i, n, args @ d) a a'
    \<and> consume_event (a\<lparr>att_materializer := m\<rparr>) (ToolCallArgumentsDelta idx d) = Inr (a'\<lparr>att_materializer := m\<rparr>)"
  using assms
  by (intro exI [of _ "a\<lparr>tool_call_args := AList.update idx (args @ d) (tool_call_args a)\<rparr>"])
    (auto simp: call_change_def call_known_def update_conv' split: prod.splits)

text \<open>Identities of tool calls that do not collide with the two fixed items.\<close>

definition safe_call :: "json \<Rightarrow> bool" where
  "safe_call tc = (case as_str (json_index tc ''id'') of
     Some i \<Rightarrow> i \<noteq> CHAT_REASONING_ITEM_ID \<and> i \<noteq> CHAT_MESSAGE_ITEM_ID | None \<Rightarrow> True)"

definition safe_call_ids :: "json \<Rightarrow> bool" where
  "safe_call_ids evt =
     (case as_array (json_index (json_index (json_at (json_index evt ''choices'') 0) ''delta'') ''tool_calls'') of
        Some tcs \<Rightarrow> list_all safe_call tcs | None \<Rightarrow> True)"

lemma feeds_start_tool_call:
  assumes "start_tool_call idx tc st = (st', evs)" and "safe_call tc"
  shows "feeds st st' evs"
proof (cases "as_str (json_index tc ''id'') = None \<or> as_str (json_index (json_index tc ''function'') ''name'') = None")
  case True
  then show ?thesis using assms(1) by (auto simp: start_tool_call_def split: option.splits)
next
  case False
  then obtain i n where xy: "as_str (json_index tc ''id'') = Some i"
      "as_str (json_index (json_index tc ''function'') ''name'') = Some n" by auto
  have kind: "kind_of_id i = KCall" using assms(2) xy by (simp add: safe_call_def kind_of_id_def)
  obtain ev where upd: "stream_update (st\<lparr>tool_calls := AList.update idx (i, n, []) (tool_calls st)\<rparr>) i
        (FunctionCallStart n) = (st', ev)" "evs = [ev, ToolCallStart i n idx]"
    using assms(1) xy by (auto simp: start_tool_call_def split: prod.splits)
  show ?thesis unfolding upd(2)
    by (rule feeds_call [OF upd(1) kind]) (blast, rule call_change_start [OF kind])
qed

lemma feeds_extend_tool_call:
  assumes ext: "extend_tool_call idx tc st = (st', evs)"
  shows "feeds st st' evs"
proof -
  consider "st' = st" "evs = []"
    | d where "st' = st" "evs = [ToolCallArgumentsDelta idx d]" "map_of (tool_calls st) idx = None"
    | d i n args ev where "map_of (tool_calls st) idx = Some (i, n, args)"
        "stream_update (st\<lparr>tool_calls := AList.update idx (i, n, args @ d) (tool_calls st)\<rparr>) i
          (FunctionCallDelta d) = (st', ev)" "evs = [ev, ToolCallArgumentsDelta idx d]"
    using ext by (auto simp: extend_tool_call_def split: option.splits if_splits prod.splits)
  then show ?thesis
  proof cases
    case 2
    then show ?thesis by (auto simp: feeds_def linked_def calls_linked_def)
  next
    case 3
    show ?thesis
    proof (cases "kind_of_id i = KCall")
      case True
      show ?thesis unfolding 3(3)
        by (rule feeds_call [OF 3(2) True], blast, rule call_change_delta)
          (use 3(1) in \<open>auto simp: calls_linked_def\<close>)
    next
      case False
      then show ?thesis using 3(1) by (auto simp: feeds_def linked_def calls_linked_def call_known_def)
    qed
  qed auto
qed

lemma feeds_tool_calls:
  "process_tool_calls tcs st = (st', evs, fin) \<Longrightarrow> list_all safe_call tcs \<Longrightarrow> feeds st st' evs"
proof (induction tcs arbitrary: st st' evs fin)
  case (Cons tc tcs)
  show ?case
  proof (cases "as_u64 (json_index tc ''index'')")
    case None
    then show ?thesis using Cons.prems by simp
  next
    case (Some idx)
    obtain s1 e1 where s1: "start_tool_call idx tc st = (s1, e1)" by force
    obtain s2 e2 where s2: "extend_tool_call idx tc s1 = (s2, e2)" by force
    obtain s3 e3 f where s3: "process_tool_calls tcs s2 = (s3, e3, f)" by (cases "process_tool_calls tcs s2") auto
    have "feeds st s3 (e1 @ e2 @ e3)"
      using Cons.prems(2) feeds_start_tool_call [OF s1] feeds_extend_tool_call [OF s2] Cons.IH [OF s3]
      by (auto intro!: feeds_trans)
    then show ?thesis using Cons.prems(1) Some s1 s2 s3 by simp
  qed
qed simp

lemma linked_close:
  assumes "linked st a" "segment_started st"
  obtains m where "close (att_materializer a) out = (m, Inr ())" "mat_ok m"
    "streamed_text m = accumulated_text a" "outcome (segment m) = out"
proof -
  let ?m = "(att_materializer a)\<lparr>segment := (segment (att_materializer a))\<lparr>outcome := out\<rparr>\<rparr>"
  have "close (att_materializer a) out = (?m, Inr ())" "mat_ok ?m" "streamed_text ?m = accumulated_text a"
    using assms by (simp_all add: linked_def mat_linked_def close_def mat_ok_def streamed_text_def)
  then show thesis using that by simp
qed

lemma feeds_fail:
  assumes "fail_chat_stream st e = (st', evs)" shows "feeds st st' evs"
  unfolding feeds_def
proof (intro allI impI)
  fix a assume a: "linked st a \<and> segment_started st"
  then have evs: "evs = [SegmentClose (st_segment_id st) Failed None, Error e]" and err: "stream_error a = None"
    using assms by (auto simp: fail_chat_stream_def linked_def)
  obtain m where m: "close (att_materializer a) Failed = (m, Inr ())" "mat_ok m" "streamed_text m = accumulated_text a"
    using linked_close [of st a] a by metis
  show "\<exists>a'. consume a evs = Inr a' \<and> (stream_error a' \<noteq> None \<and> consistent a' \<or> linked st' a' \<and> segment_started st')"
    using m err by (simp add: evs consistent_def)
qed

lemma feeds_reasoning_field: "emit_reasoning_field v st = (st', evs) \<Longrightarrow> feeds st st' evs"
  by (auto simp: emit_reasoning_field_def split: option.splits if_splits prod.splits intro: feeds_reasoning)

lemma feeds_finish_reason:
  assumes "process_finish_reason evt st = (st', evs)" shows "feeds st st' evs"
proof -
  consider "st' = st" "evs = []" | "st' = mark_terminal st" "evs = []" | e where "evs = [Error e]"
    using assms by (auto simp: process_finish_reason_def split: option.splits if_splits)
  then show ?thesis
    by cases (simp_all add: feeds_error feeds_of_frame mark_terminal_def)
qed

text \<open>The same composition for the processing of one event: a relation that holds of its parts.\<close>

lemma process_delta_rule:
  assumes run: "process_delta evt st = (st', evs)"
    and frame: "\<And>s s'. link_frame s s' \<Longrightarrow> R s s' []"
    and trans: "\<And>s s' s'' x y. R s s' x \<Longrightarrow> R s' s'' y \<Longrightarrow> R s s'' (x @ y)"
    and tags: "\<And>c s s' x. process_content_think_tags c s = (s', x) \<Longrightarrow> R s s' x"
    and field: "\<And>v s s' x. emit_reasoning_field v s = (s', x) \<Longrightarrow> R s s' x"
    and calls: "\<And>tcs s s' x fin. process_tool_calls tcs s = (s', x, fin) \<Longrightarrow>
      as_array (json_index (json_index (json_at (json_index evt ''choices'') 0) ''delta'') ''tool_calls'') = Some tcs
      \<Longrightarrow> R s s' x"
    and fail: "\<And>e s s' x. fail_chat_stream s e = (s', x) \<Longrightarrow> R s s' x"
    and reason: "\<And>s s' x. process_finish_reason evt s = (s', x) \<Longrightarrow> R s s' x"
  shows "R st st' evs"
proof -
  define st0 where "st0 = (case parse_openai_compat_usage_from_payload evt of
                   Some u \<Rightarrow> st\<lparr>tokens := u\<rparr> | None \<Rightarrow> st)"
  define delta where "delta = json_index (json_at (json_index evt ''choices'') 0) ''delta''"
  obtain s1 e1 where s1: "(case as_str (json_index delta ''content'') of
              Some c \<Rightarrow> if c = [] then (st0, []) else process_content_think_tags c st0
            | None \<Rightarrow> (st0, [])) = (s1, e1)" by force
  obtain s2 e2 where s2: "emit_reasoning_field delta s1 = (s2, e2)" by force
  obtain s3 e3 fin where s3: "(case as_array (json_index delta ''tool_calls'') of
              Some tcs \<Rightarrow> process_tool_calls tcs s2 | None \<Rightarrow> (s2, [], True)) = (s3, e3, fin)"
    by (cases "case as_array (json_index delta ''tool_calls'') of
              Some tcs \<Rightarrow> process_tool_calls tcs s2 | None \<Rightarrow> (s2, [], True)") auto
  obtain s4 e4 where s4: "(if \<not> fin then fail_chat_stream s3 ''tool_call delta has no index''
      else process_finish_reason evt s3) = (s4, e4)" by force
  have eq: "st' = s4" "evs = [] @ e1 @ e2 @ e3 @ e4"
    using run s1 s2 s3 s4
    by (auto simp: process_delta_def Let_def st0_def [symmetric] delta_def [symmetric] split: prod.splits if_splits)
  have refl: "R s s []" for s by (rule frame) (simp add: link_frame_def)
  have f0: "R st st0 []" by (auto simp: st0_def split: option.splits intro: frame refl)
  have f1: "R st0 s1 e1" using s1 by (auto split: option.splits if_splits intro: tags refl)
  have f3: "R s2 s3 e3" using s3 by (auto simp: delta_def split: option.splits intro: calls refl)
  have f4: "R s3 s4 e4" using s4 by (auto split: if_splits intro: fail reason)
  show ?thesis
    unfolding eq by (rule trans [OF f0 trans [OF f1 trans [OF field [OF s2] trans [OF f3 f4]]]])
qed

lemma feeds_delta:
  assumes run: "process_delta evt st = (st', evs)" and safe: "safe_call_ids evt"
  shows "feeds st st' evs"
  using run
proof (rule process_delta_rule)
  show "feeds s s' x" if "process_tool_calls tcs s = (s', x, fin)"
    "as_array (json_index (json_index (json_at (json_index evt ''choices'') 0) ''delta'') ''tool_calls'') = Some tcs"
    for tcs s s' x fin
    using that safe by (auto simp: safe_call_ids_def intro: feeds_tool_calls)
qed (blast intro: feeds_of_frame feeds_trans feeds_think_tags feeds_reasoning_field feeds_fail feeds_finish_reason)+

section \<open>Lines, finalization and the whole stream\<close>

text \<open>
  \<open>serves st evs P\<close>: a consumer in step with \<open>st\<close>, announced or not, takes the events
  without a refusal, and unless it left the stream at an error it ends in \<open>P\<close>.
\<close>

definition serves :: "streaming_tool_state \<Rightarrow> stream_event list \<Rightarrow> (attempt \<Rightarrow> bool) \<Rightarrow> bool" where
  "serves st evs P \<longleftrightarrow> (\<forall>a. linked st a \<longrightarrow>
     (\<exists>a'. consume a evs = Inr a' \<and> (stream_error a' \<noteq> None \<and> consistent a' \<or> P a')))"

lemma serves_trans:
  assumes "serves st xs (linked st1)" and "serves st1 ys P"
  shows "serves st (xs @ ys) P"
  unfolding serves_def
proof (intro allI impI)
  fix a assume a: "linked st a"
  then have err: "stream_error a = None" by (simp add: linked_def)
  from a obtain a1 where a1: "consume a xs = Inr a1" "stream_error a1 \<noteq> None \<and> consistent a1 \<or> linked st1 a1"
    using assms(1) unfolding serves_def by blast
  show "\<exists>a'. consume a (xs @ ys) = Inr a' \<and> (stream_error a' \<noteq> None \<and> consistent a' \<or> P a')"
  proof (cases "stream_error a1 = None")
    case True
    then obtain a2 where "consume a1 ys = Inr a2" "stream_error a2 \<noteq> None \<and> consistent a2 \<or> P a2"
      using assms(2) a1(2) unfolding serves_def by blast
    then show ?thesis using err a1(1) True by (simp add: consume_append)
  next
    case False
    then have "consistent a1" using a1(2) by (auto dest: linked_no_error)
    then show ?thesis using err a1(1) False by (simp add: consume_append)
  qed
qed

lemma linked_mark_terminal: "linked st a \<Longrightarrow> linked (mark_terminal st) a"
  by (simp add: linked_def mark_terminal_def mat_linked_def calls_linked_def)

lemma linked_raw: "linked st (a\<lparr>raw_llm_responses := r\<rparr>) = linked st a"
  by (simp add: linked_def calls_linked_def call_known_def)

lemma linked_begin:
  assumes beg: "begin_segment evt st = (st', evs)" and a: "linked st a"
  obtains a' where "consume a evs = Inr a'" "linked st' a'" "segment_started st'"
proof (cases "segment_started st")
  case True
  then show thesis using that [of a] beg a by (simp add: begin_segment_def)
next
  case False
  let ?a = "a\<lparr>att_materializer := materializer_new (st_segment_id st')\<rparr>"
  have st': "segment_started st'" "tool_calls st' = tool_calls st" "segment_closed st' = segment_closed st"
      "item_positions st' = item_positions st" "evs = [SegmentStart (st_segment_id st')]"
    using beg False by (auto simp: begin_segment_def Let_def)
  have "accumulated_text a = []" "allocator_ok (item_positions st)" "stream_error a = None"
      "\<not> segment_closed st" "calls_linked st a"
    using a False by (auto simp: linked_def streamed_text_def mat_linked_def)
  then have "linked st' ?a" "stream_error ?a = None"
    using st' calls_linked_cong [of st' st a]
    by (auto simp: linked_def mat_linked_def streamed_text_def materializer_new_def segment_new_def
        mat_ok_def items_ok_def positions_agree_def)
  then show thesis using that [of ?a] st' by simp
qed

lemma serves_line:
  assumes line: "process_openai_sse_line parse print d st = (st', LineEvents evs)"
    and safe: "\<And>v. parse d = Inr v \<Longrightarrow> safe_call_ids v"
  shows "serves st evs (linked st')"
proof (cases "parse d")
  case (Inl e)
  obtain s1 e1 where f: "fail_chat_stream st (''provider sent a non-JSON Chat Completions SSE line: '' @ e) = (s1, e1)"
    by force
  then have "st' = s1" "evs = e1"
    using line Inl by (auto simp: process_openai_sse_line_def split: if_splits)
  moreover have "serves st e1 (linked s1)"
    unfolding serves_def
  proof (intro allI impI)
    fix a assume a: "linked st a"
    show "\<exists>a'. consume a e1 = Inr a' \<and> (stream_error a' \<noteq> None \<and> consistent a' \<or> linked s1 a')"
    proof (cases "segment_started st")
      case True
      then show ?thesis using feeds_fail [OF f] a unfolding feeds_def by blast
    next
      case False
      then show ?thesis using f a linked_consistent [OF a]
        by (auto simp: fail_chat_stream_def consistent_def)
    qed
  qed
  ultimately show ?thesis by simp
next
  case (Inr evt)
  obtain s1 e1 where b: "begin_segment evt st = (s1, e1)" by force
  obtain e2 where rest: "feeds s1 st' e2" "evs = ProviderRaw evt # e1 @ e2"
    using line Inr b safe [OF Inr]
    by (auto simp: process_openai_sse_line_def split: if_splits prod.splits intro: feeds_fail feeds_delta)
  show ?thesis
    unfolding serves_def
  proof (intro allI impI)
    fix a assume a: "linked st a"
    let ?a = "a\<lparr>raw_llm_responses := push_capped_provider_raw_event (raw_llm_responses a) evt\<rparr>"
    obtain a1 where a1: "consume ?a e1 = Inr a1" "linked s1 a1" "segment_started s1"
      using linked_begin [OF b, of ?a] a by (auto simp: linked_raw)
    obtain a2 where "consume a1 e2 = Inr a2" "stream_error a2 \<noteq> None \<and> consistent a2 \<or> linked st' a2"
      using rest(1) a1(2,3) unfolding feeds_def by blast
    moreover have "stream_error a = None" "stream_error a1 = None" using a a1 by (auto simp: linked_def)
    ultimately show "\<exists>a'. consume a evs = Inr a' \<and> (stream_error a' \<noteq> None \<and> consistent a' \<or> linked st' a')"
      using a1 by (simp add: rest(2) consume_append)
  qed
qed

text \<open>
  How a stream may leave its consumer: finished with a completed segment, or with none when
  the provider sent no event at all.
\<close>

definition settled :: "attempt \<Rightarrow> bool" where
  "settled a \<longleftrightarrow> stream_error a = None \<and> received_done a \<and> consistent a
     \<and> (let s = segment (att_materializer a)
        in outcome s = Completed \<or> segment_id s = None \<and> items s = [] \<and> outcome s = Active)"

lemma serves_flush:
  assumes "flush_tag_buffer st = (st', evs)"
  shows "serves st evs (linked st')"
proof (cases "tag_buffer st = []")
  case True
  then show ?thesis using assms by (simp add: flush_tag_buffer_def serves_def)
next
  case False
  let ?s = "st\<lparr>tag_buffer := []\<rparr>"
  have "feeds st ?s []" by (rule feeds_of_frame) simp
  moreover have "feeds ?s st' evs"
    using assms False
    by (auto simp: flush_tag_buffer_def Let_def split: prod.splits if_splits
        intro: feeds_reasoning feeds_message)
  ultimately have "feeds st st' evs" using feeds_trans [of st ?s "[]" st' evs] by simp
  moreover have "segment_started st" if "linked st a" for a using that False by (simp add: linked_def)
  ultimately show ?thesis unfolding feeds_def serves_def by blast
qed

lemma consume_completions:
  "stream_error a = None \<Longrightarrow> consume a (map (\<lambda>(idx, _). ToolCallComplete idx) cs @ evs) = consume a evs"
  by (induction cs) auto

lemma serves_finalize:
  assumes fin: "finalize_stream st = (st', evs)"
  shows "serves st evs settled"
proof -
  obtain s1 e1 where s1: "flush_tag_buffer st = (s1, e1)" by force
  define e2 where "e2 = (if segment_started s1 \<and> \<not> segment_closed s1 then
      SegmentClose (st_segment_id s1) (if terminal_seen s1 then Completed else TransportError) (Some (tokens s1))
      # (if terminal_seen s1 then [] else [Error ''provider stream closed before announcing a finish_reason''])
    else [])"
  have evs: "evs = e1 @ map (\<lambda>(idx, _). ToolCallComplete idx) (tool_calls s1) @ e2 @ [Done (tokens s1)]"
    using fin s1 by (auto simp: finalize_stream_def e2_def Let_def split: if_splits)
  have "serves s1 (map (\<lambda>(idx, _). ToolCallComplete idx) (tool_calls s1) @ e2 @ [Done (tokens s1)]) settled"
    unfolding serves_def
  proof (intro allI impI)
    fix a assume a: "linked s1 a"
    note err = linked_no_error [OF a] and con = linked_consistent [OF a]
    have "\<exists>a'. consume a (e2 @ [Done (tokens s1)]) = Inr a' \<and> (stream_error a' \<noteq> None \<and> consistent a' \<or> settled a')"
    proof (cases "segment_started s1")
      case True
      define out where "out = (if terminal_seen s1 then Completed else TransportError)"
      have "\<not> segment_closed s1" using a by (simp add: linked_def)
      then have e2: "e2 = SegmentClose (st_segment_id s1) out (Some (tokens s1))
          # (if terminal_seen s1 then [] else [Error ''provider stream closed before announcing a finish_reason''])"
        using True by (simp add: e2_def out_def)
      obtain m where "close (att_materializer a) out = (m, Inr ())" "mat_ok m"
          "streamed_text m = accumulated_text a" "outcome (segment m) = out"
        using linked_close [OF a True] .
      then show ?thesis
        using err by (simp add: e2 settled_def consistent_def Let_def out_def)
    next
      case False
      then show ?thesis
        using a err con by (simp add: e2_def settled_def consistent_def linked_def mat_linked_def Let_def)
    qed
    then show "\<exists>a'. consume a (map (\<lambda>(idx, _). ToolCallComplete idx) (tool_calls s1) @ e2 @ [Done (tokens s1)]) = Inr a'
        \<and> (stream_error a' \<noteq> None \<and> consistent a' \<or> settled a')"
      using err by (simp add: consume_completions)
  qed
  with serves_flush [OF s1] show ?thesis unfolding evs by (rule serves_trans)
qed

lemma serves_abort:
  assumes "wire_abort (chat_wire parse print) e st = (st', evs)"
  shows "serves st evs P"
  unfolding serves_def
proof (intro allI impI)
  fix a assume a: "linked st a"
  note err = linked_no_error [OF a] and con = linked_consistent [OF a]
  show "\<exists>a'. consume a evs = Inr a' \<and> (stream_error a' \<noteq> None \<and> consistent a' \<or> P a')"
  proof (cases "segment_started st")
    case True
    obtain m where "close (att_materializer a) TransportError = (m, Inr ())" "mat_ok m"
        "streamed_text m = accumulated_text a"
      using linked_close [OF a True] .
    then show ?thesis
      using assms a err True
      by (auto simp: wire_abort_def chat_wire_def close_on_transport_error_def consistent_def linked_def)
  next
    case False
    then show ?thesis
      using assms con
      by (auto simp: wire_abort_def chat_wire_def close_on_transport_error_def consistent_def)
  qed
qed

lemma serves_done:
  assumes "process_openai_sse_line parse print d st = (st', LineDone)"
  shows "serves st [] (linked st')"
proof -
  have "st' = mark_terminal st"
    using assms by (auto simp: process_openai_sse_line_def split: if_splits sum.splits prod.splits)
  then show ?thesis using linked_mark_terminal by (auto simp: serves_def)
qed

text \<open>The adapter, as the wire format of the loop, with the consumer in step.\<close>

definition safe_parser :: "(string \<Rightarrow> string + json) \<Rightarrow> bool" where
  "safe_parser parse \<longleftrightarrow> (\<forall>d v. parse d = Inr v \<longrightarrow> safe_call_ids v)"

interpretation chat_serves: sse_session "chat_wire parse print"
  "\<lambda>s s' x. safe_parser parse \<longrightarrow> serves s x (linked s')" "\<lambda>s s' x. safe_parser parse \<longrightarrow> serves s x settled"
  for parse print
proof (unfold_locales, goal_cases)
  case 1
  then show ?case by (simp add: serves_def)
next
  case 2
  then show ?case using serves_trans by blast
next
  case 3
  then show ?case using serves_trans by blast
next
  case (4 d s s' x)
  then show ?case
    by (auto simp: chat_wire_def safe_parser_def split: prod.splits sse_line_result.splits intro!: serves_line)
next
  case (5 d s s' x s'' y)
  then show ?case
    using serves_trans [OF serves_done serves_finalize, of parse print d s s' s'' y]
    by (auto simp: chat_wire_def split: prod.splits sse_line_result.splits)
next
  case (6 d s s' x)
  then show ?case
    by (auto simp: chat_wire_def split: prod.splits sse_line_result.splits)
next
  case 7
  then show ?case using serves_finalize by (simp add: chat_wire_def)
next
  case 8
  then show ?case using serves_abort by blast
qed

lemma linked_start: "linked (streaming_default sid) (attempt_start raws)"
  by (simp add: linked_def mat_linked_def calls_linked_def streamed_text_def streaming_default_def
      attempt_start_def materializer_pending_def segment_pending_def mat_ok_def items_ok_def
      positions_agree_def)

section \<open>Properties\<close>


definition sample_parse :: "string \<Rightarrow> string + json" where
  "sample_parse d =
     (if d = ''hi'' then Inr (JObject [(''id'', JString ''seg''), (''choices'', JArray [JObject
        [(''delta'', JObject [(''content'', JString ''hi''),
           (''tool_calls'', JArray [JObject [(''index'', JNumber (PosInt 0)), (''id'', JString ''call_1''),
              (''function'', JObject [(''name'', JString ''ls'')])]])]),
         (''finish_reason'', JString ''stop'')]])])
      else Inl ''expected value'')"

lemma sample_parse_safe: "sample_parse d = Inr v \<Longrightarrow> safe_call_ids v"
  by (auto simp: sample_parse_def safe_call_ids_def safe_call_def json_index_def
      CHAT_REASONING_ITEM_ID_def CHAT_MESSAGE_ITEM_ID_def split: if_splits)


end
