(* ===== verification/Segment_Balance.thy ===== *)
theory Segment_Balance
  imports Chat_Link
begin

text \<open>
  Announcing and closing of the provider segment: over a whole stream, however it ends, the
  number of closings equals the number of announcements, and neither exceeds one.
\<close>

definition is_start :: "stream_event \<Rightarrow> bool" where
  "is_start e = (case e of SegmentStart _ \<Rightarrow> True | _ \<Rightarrow> False)"

definition is_close :: "stream_event \<Rightarrow> bool" where
  "is_close e = (case e of SegmentClose _ _ _ \<Rightarrow> True | _ \<Rightarrow> False)"

definition announced :: "stream_event list \<Rightarrow> nat" where
  "announced evs = length (filter is_start evs)"

definition closings :: "stream_event list \<Rightarrow> nat" where
  "closings evs = length (filter is_close evs)"

lemma count_simps [simp]:
  "announced [] = 0" "closings [] = 0"
  "announced (e # evs) = of_bool (is_start e) + announced evs"
  "closings (e # evs) = of_bool (is_close e) + closings evs"
  "announced (xs @ ys) = announced xs + announced ys" "closings (xs @ ys) = closings xs + closings ys"
  by (simp_all add: announced_def closings_def)

lemma count_event [simp]:
  "is_start (SegmentStart i)" "\<not> is_start (ProviderItemUpdate u)" "\<not> is_start (SegmentClose i out us)"
  "\<not> is_start (Delta t)" "\<not> is_start (ProviderRaw v)" "\<not> is_start (ToolCallStart x n k)"
  "\<not> is_start (ToolCallArgumentsDelta k t)" "\<not> is_start (ToolCallComplete k)" "\<not> is_start (Done us')"
  "\<not> is_start (Error t)"
  "\<not> is_close (SegmentStart i)" "\<not> is_close (ProviderItemUpdate u)" "is_close (SegmentClose i out us)"
  "\<not> is_close (Delta t)" "\<not> is_close (ProviderRaw v)" "\<not> is_close (ToolCallStart x n k)"
  "\<not> is_close (ToolCallArgumentsDelta k t)" "\<not> is_close (ToolCallComplete k)" "\<not> is_close (Done us')"
  "\<not> is_close (Error t)"
  by (simp_all add: is_start_def is_close_def)

text \<open>The events account for the change of the two flags of the state.\<close>

definition close_needs_start :: "streaming_tool_state \<Rightarrow> bool" where
  "close_needs_start st \<longleftrightarrow> (segment_closed st \<longrightarrow> segment_started st)"

definition accounts :: "streaming_tool_state \<Rightarrow> streaming_tool_state \<Rightarrow> stream_event list \<Rightarrow> bool" where
  "accounts st st' evs \<longleftrightarrow>
     of_bool (segment_started st') = of_bool (segment_started st) + announced evs
     \<and> of_bool (segment_closed st') = of_bool (segment_closed st) + closings evs
     \<and> (close_needs_start st \<longrightarrow> close_needs_start st')"

lemma accounts_trans: "accounts s s' x \<Longrightarrow> accounts s' s'' y \<Longrightarrow> accounts s s'' (x @ y)"
  by (simp add: accounts_def)

lemma accounts_same:
  "segment_started st' = segment_started st \<Longrightarrow> segment_closed st' = segment_closed st
   \<Longrightarrow> announced evs = 0 \<Longrightarrow> closings evs = 0 \<Longrightarrow> accounts st st' evs"
  by (simp add: accounts_def close_needs_start_def)

lemma stream_update_flags:
  "stream_update st i pay = (st', ev) \<Longrightarrow> segment_started st' = segment_started st
     \<and> segment_closed st' = segment_closed st \<and> \<not> is_start ev \<and> \<not> is_close ev"
  by (auto simp: stream_update_def Let_def split: prod.splits)

lemma accounts_emit:
  "emit_reasoning t st = (st', evs) \<Longrightarrow> accounts st st' evs"
  "emit_visible t st = (st', evs) \<Longrightarrow> accounts st st' evs"
  by (auto simp: emit_reasoning_def emit_visible_def Let_def split: prod.splits if_splits
      dest!: stream_update_flags intro!: accounts_same)

lemma accounts_think_tags:
  assumes "process_content_think_tags c st = (st', evs)" shows "accounts st st' evs"
proof -
  have "accounts (st\<lparr>tag_buffer := tag_buffer st @ c\<rparr>) st' evs"
    using assms unfolding process_content_think_tags_def
  proof (rule think_loop_rule)
    show "accounts s s' []" if "link_frame s s'" for s s'
      using that by (intro accounts_same) (simp_all add: link_frame_def)
  qed (blast intro: accounts_trans accounts_emit)+
  then show ?thesis by (simp add: accounts_def close_needs_start_def)
qed

lemma accounts_tool_calls: "process_tool_calls tcs st = (st', evs, fin) \<Longrightarrow> accounts st st' evs"
proof (induction tcs arbitrary: st st' evs fin)
  case (Cons tc tcs)
  have start: "start_tool_call idx tc s = (s', e) \<Longrightarrow> accounts s s' e" for idx s s' e
    by (auto simp: start_tool_call_def split: option.splits prod.splits
        dest!: stream_update_flags intro!: accounts_same)
  have extend: "extend_tool_call idx tc s = (s', e) \<Longrightarrow> accounts s s' e" for idx s s' e
    by (auto simp: extend_tool_call_def split: option.splits if_splits prod.splits
        dest!: stream_update_flags intro!: accounts_same)
  show ?case
    using Cons.prems
    by (auto split: option.splits prod.splits intro: accounts_same)
      (metis accounts_trans start extend Cons.IH)
qed (simp add: accounts_same)

lemma accounts_fail: "fail_chat_stream st e = (st', evs) \<Longrightarrow> accounts st st' evs"
  by (auto simp: fail_chat_stream_def accounts_def close_needs_start_def split: if_splits)

lemma accounts_finish_reason: "process_finish_reason evt st = (st', evs) \<Longrightarrow> accounts st st' evs"
  by (auto simp: process_finish_reason_def mark_terminal_def split: option.splits if_splits intro!: accounts_same)

lemma accounts_reasoning_field: "emit_reasoning_field v st = (st', evs) \<Longrightarrow> accounts st st' evs"
  by (auto simp: emit_reasoning_field_def split: option.splits if_splits prod.splits
      dest!: stream_update_flags intro!: accounts_same)

lemma accounts_frame: "link_frame s s' \<Longrightarrow> accounts s s' []"
  by (rule accounts_same) (simp_all add: link_frame_def)

lemma accounts_delta: "process_delta evt st = (st', evs) \<Longrightarrow> accounts st st' evs"
  by (erule process_delta_rule)
    (blast intro: accounts_frame accounts_trans accounts_think_tags accounts_reasoning_field
      accounts_tool_calls accounts_fail accounts_finish_reason)+

lemma accounts_line:
  assumes "process_openai_sse_line parse print d st = (st', r)"
  shows "accounts st st' (case r of LineDone \<Rightarrow> [] | LineEvents evs \<Rightarrow> evs)"
proof -
  have ann: "accounts s s' e" if "begin_segment evt s = (s', e)" for evt s s' e
    using that by (auto simp: begin_segment_def accounts_def close_needs_start_def Let_def split: if_splits)
  have raw: "accounts st s2 (ProviderRaw evt # e1 @ e2)"
    if "begin_segment evt st = (s1, e1)" "accounts s1 s2 e2" for evt s1 s2 e1 e2
    using accounts_trans [OF ann [OF that(1)] that(2)] by (simp add: accounts_def)
  show ?thesis
    using assms
    by (auto simp: process_openai_sse_line_def mark_terminal_def split: if_splits sum.splits prod.splits
        intro: accounts_same accounts_fail raw [OF _ accounts_fail] raw [OF _ accounts_delta])
qed

lemma accounts_flush: "flush_tag_buffer st = (st', evs) \<Longrightarrow> accounts st st' evs"
  by (auto simp: flush_tag_buffer_def Let_def split: prod.splits if_splits
      dest!: stream_update_flags intro!: accounts_same)

lemma completions_count [simp]:
  "announced (map (\<lambda>(idx, _). ToolCallComplete idx) cs) = 0"
  "closings (map (\<lambda>(idx, _). ToolCallComplete idx) cs) = 0"
  by (induction cs) auto

text \<open>At the end every announced segment is closed.\<close>

definition balanced_end :: "streaming_tool_state \<Rightarrow> streaming_tool_state \<Rightarrow> stream_event list \<Rightarrow> bool" where
  "balanced_end st st' evs \<longleftrightarrow> accounts st st' evs \<and> (segment_started st' \<longrightarrow> segment_closed st')"

lemma balanced_close:
  assumes "(if segment_started s \<and> \<not> segment_closed s then (s\<lparr>segment_closed := True\<rparr>, SegmentClose i out us # rest)
    else (s, [])) = (s', evs)" and "announced rest = 0" "closings rest = 0"
  shows "balanced_end s s' (evs @ [Done us'])"
  using assms by (auto simp: balanced_end_def accounts_def close_needs_start_def split: if_splits)

lemma balanced_finalize:
  assumes "finalize_stream st = (st', evs)"
  shows "balanced_end st st' evs"
proof -
  obtain s1 e1 where s1: "flush_tag_buffer st = (s1, e1)" by force
  define rest where "rest = (if terminal_seen s1 then []
    else [Error ''provider stream closed before announcing a finish_reason''])"
  obtain s2 e2 where s2: "(if segment_started s1 \<and> \<not> segment_closed s1 then (s1\<lparr>segment_closed := True\<rparr>,
      SegmentClose (st_segment_id s1) (if terminal_seen s1 then Completed else TransportError) (Some (tokens s1)) # rest)
    else (s1, [])) = (s2, e2)" by force
  have eq: "st' = s2" "evs = e1 @ map (\<lambda>(idx, _). ToolCallComplete idx) (tool_calls s1) @ e2 @ [Done (tokens s2)]"
    using assms s1 s2 unfolding rest_def by (auto simp: finalize_stream_def Let_def split: if_splits)
  have "balanced_end s1 s2 (e2 @ [Done (tokens s2)])"
    by (rule balanced_close [OF s2]) (simp_all add: rest_def)
  then show ?thesis
    using accounts_flush [OF s1] unfolding eq balanced_end_def accounts_def by simp
qed

interpretation chat_balance: sse_session "chat_wire parse print" accounts balanced_end
  for parse print
proof (unfold_locales, goal_cases)
  case 1
  then show ?case by (simp add: accounts_same)
next
  case 2
  then show ?case by (rule accounts_trans)
next
  case 3
  then show ?case by (auto simp: balanced_end_def intro: accounts_trans)
next
  case (4 d s s' x)
  then show ?case
    by (auto simp: chat_wire_def split: prod.splits sse_line_result.splits dest: accounts_line)
next
  case (5 d s s' x s'' y)
  then have "process_openai_sse_line parse print d s = (s', LineDone)" "x = []" "balanced_end s' s'' y"
    by (auto simp: chat_wire_def balanced_finalize split: prod.splits sse_line_result.splits)
  then show ?case using accounts_trans [of s s' "[]"] accounts_line [of parse print d s s' LineDone]
    by (auto simp: balanced_end_def)
next
  case (6 d s s' x)
  then show ?case
    by (auto simp: chat_wire_def split: prod.splits sse_line_result.splits)
next
  case 7
  then show ?case using balanced_finalize by (simp add: chat_wire_def)
next
  case 8
  then show ?case
    by (auto simp: wire_abort_def chat_wire_def close_on_transport_error_def balanced_end_def accounts_def
        close_needs_start_def split: if_splits)
qed

text \<open>
  C3. Over a whole response, for every byte sequence, parser and transport failure, the
  stream announces its segment at most once and closes it exactly as often as it announces it.
\<close>

theorem segment_closed_exactly_once:
  "let evs = stream_with_tools_sse parse print decode sid chunks
   in announced evs \<le> 1 \<and> closings evs = announced evs"
proof -
  obtain st' evs where run: "sse_stream (chat_wire parse print) decode chunks (streaming_default sid) [] = (st', evs)"
    by force
  show ?thesis
    using chat_balance.stream_outcome [OF run] run
    by (cases "segment_started st'"; cases "segment_closed st'")
      (auto simp: balanced_end_def accounts_def close_needs_start_def streaming_default_def
        stream_with_tools_sse_def Let_def)
qed

end
