(* ===== verification/Responses_Stream.thy ===== *)
theory Responses_Stream
  imports Stream_Attempt
begin

text \<open>
  The Responses API streaming adapter of \<open>crates/providers/src/openai_compat/provider.rs\<close>:
  its state, one function per event type, the dispatcher \<open>process_responses_event\<close>, the SSE
  line and the finalization, and the stream of \<open>stream_responses_sse\<close> on the loop the two
  adapters share. The hash map of tool calls is an association list; where the code iterates
  over it in the map's own order, that order is the parameter \<open>iter\<close>.
\<close>

section \<open>State\<close>

record responses_stream_state =
  rs_segment_id :: provider_segment_id
  rs_segment_started :: bool
  rs_segment_closed :: bool
  rs_next_seq :: nat
  rs_tool_calls :: "(nat \<times> string \<times> string) list"
  completed_tool_calls :: "nat set"
  current_tool_index :: nat
  rs_item_positions :: item_position_allocator
  rs_tokens :: usage
  streamed_reasoning_summary_parts :: "(string \<times> nat) set"

text \<open>The generated default segment identity, which embeds the clock, is a parameter.\<close>

definition responses_default :: "provider_segment_id \<Rightarrow> responses_stream_state" where
  "responses_default sid =
     \<lparr>rs_segment_id = sid, rs_segment_started = False, rs_segment_closed = False, rs_next_seq = 0,
      rs_tool_calls = [], completed_tool_calls = {}, current_tool_index = 0,
      rs_item_positions = allocator_default, rs_tokens = usage_zero, streamed_reasoning_summary_parts = {}\<rparr>"

datatype responses_event_result =
    REvents "stream_event list"
  | RCompleted "stream_event list"
  | RFailed "stream_event list"

type_synonym responses_step = "responses_stream_state \<times> responses_event_result"

definition rs_close_on_transport_error :: "responses_stream_state \<Rightarrow> responses_stream_state \<times> stream_event list" where
  "rs_close_on_transport_error st =
     (if \<not> rs_segment_started st \<or> rs_segment_closed st then (st, [])
      else (st\<lparr>rs_segment_closed := True\<rparr>,
            [SegmentClose (rs_segment_id st) TransportError (Some (rs_tokens st))]))"

text \<open>The update of one item: its position, the next sequence number, the current segment.\<close>

definition responses_update :: "responses_stream_state \<Rightarrow> provider_item_id \<Rightarrow> provider_item_update_payload
    \<Rightarrow> responses_stream_state \<times> stream_event" where
  "responses_update st i pay =
     (let (p, alloc) = position_for (rs_item_positions st) i; seq = rs_next_seq st + 1
      in (st\<lparr>rs_item_positions := alloc, rs_next_seq := seq\<rparr>,
          ProviderItemUpdate \<lparr>upd_segment_id = rs_segment_id st, upd_item_id = i,
            upd_position = p, update_seq = seq, upd_payload = pay\<rparr>))"

definition responses_tool_slot :: "json \<Rightarrow> nat option" where
  "responses_tool_slot evt =
     Option.bind
       (case json_get evt ''output_index'' of Some v \<Rightarrow> Some v
        | None \<Rightarrow> (case json_get evt ''item_index'' of Some v \<Rightarrow> Some v | None \<Rightarrow> json_get evt ''index''))
       as_u64"

definition responses_protocol_error :: "responses_stream_state \<Rightarrow> stream_event list \<Rightarrow> string \<Rightarrow> responses_step" where
  "responses_protocol_error st events detail =
     (if rs_segment_started st \<and> \<not> rs_segment_closed st
      then (st\<lparr>rs_segment_closed := True\<rparr>,
            RFailed (events @ [SegmentClose (rs_segment_id st) Failed None, Error detail]))
      else (st, RFailed (events @ [Error detail])))"

text \<open>\<open>as_str().filter(|s| !s.is_empty())\<close>\<close>

definition nonempty_str :: "json \<Rightarrow> string option" where
  "nonempty_str v = (case as_str v of Some s \<Rightarrow> if s = [] then None else Some s | None \<Rightarrow> None)"

section \<open>Function calls\<close>

text \<open>The next index is computed in a 64-bit word; the slot is the provider's own number.\<close>

definition open_function_call_slot :: "responses_stream_state \<Rightarrow> stream_event list \<Rightarrow> string \<Rightarrow> string \<Rightarrow> nat option
    \<Rightarrow> responses_stream_state \<times> stream_event list \<times> nat" where
  "open_function_call_slot st events i name slot =
     (let index = (case slot of Some n \<Rightarrow> n | None \<Rightarrow> current_tool_index st);
          st1 = st\<lparr>current_tool_index := max (current_tool_index st) ((index + 1) mod 2 ^ 64),
                   rs_tool_calls := AList.update index (i, name) (rs_tool_calls st)\<rparr>;
          (st2, ev) = responses_update st1 i (FunctionCallStart name)
      in (st2, events @ [ev, ToolCallStart i name index], index))"

definition announce_function_call_arguments :: "responses_stream_state \<Rightarrow> stream_event list \<Rightarrow> nat \<Rightarrow> string \<Rightarrow> string
    \<Rightarrow> responses_stream_state \<times> stream_event list" where
  "announce_function_call_arguments st events index call_id arguments =
     (let (st1, ev) = responses_update st call_id (FunctionCallDone arguments)
      in (st1\<lparr>completed_tool_calls := insert index (completed_tool_calls st1)\<rparr>,
          events @ ev # (if index \<in> completed_tool_calls st1 then [] else [ToolCallComplete index])))"

type_synonym slot_order = "(nat \<times> string \<times> string) list \<Rightarrow> (nat \<times> string \<times> string) list"

definition finish_function_call_item :: "slot_order \<Rightarrow> responses_stream_state \<Rightarrow> stream_event list \<Rightarrow> json
    \<Rightarrow> string + responses_stream_state \<times> stream_event list" where
  "finish_function_call_item iter st events item =
     (case nonempty_str (json_index item ''call_id'') of
        None \<Rightarrow> Inl ''completed function_call item has no call_id''
      | Some call_id \<Rightarrow>
     (case nonempty_str (json_index item ''name'') of
        None \<Rightarrow> Inl (''completed function_call `'' @ call_id @ ''` has no name'')
      | Some name \<Rightarrow>
     (case as_str (json_index item ''arguments'') of
        None \<Rightarrow> Inl (''function_call `'' @ call_id @ ''` finished without an arguments field'')
      | Some arguments \<Rightarrow>
          (let (st1, events1, index) =
             (case find (\<lambda>(_, i, _). i = call_id) (iter (rs_tool_calls st)) of
                Some (index, _) \<Rightarrow> (st, events, index)
              | None \<Rightarrow> open_function_call_slot st events call_id name None)
           in Inr (announce_function_call_arguments st1 events1 index call_id arguments)))))"

fun finish_function_call_items :: "slot_order \<Rightarrow> responses_stream_state \<Rightarrow> stream_event list \<Rightarrow> json list
    \<Rightarrow> (responses_stream_state \<times> stream_event list \<times> string) + responses_stream_state \<times> stream_event list" where
  "finish_function_call_items iter st events [] = Inr (st, events)"
| "finish_function_call_items iter st events (item # rest) =
     (case finish_function_call_item iter st events item of
        Inl detail \<Rightarrow> Inl (st, events, detail)
      | Inr (st1, events1) \<Rightarrow> finish_function_call_items iter st1 events1 rest)"

section \<open>The event types\<close>

definition begin_responses :: "json \<Rightarrow> responses_stream_state \<Rightarrow> responses_stream_state \<times> stream_event list" where
  "begin_responses evt st =
     (if rs_segment_started st then (st, [])
      else (let i = Option.bind
                  (case Option.bind (json_get evt ''response'') (\<lambda>r. json_get r ''id'') of
                     Some v \<Rightarrow> Some v | None \<Rightarrow> json_get evt ''id'') as_str;
                st' = st\<lparr>rs_segment_started := True,
                         rs_segment_id := (case i of Some s \<Rightarrow> s | None \<Rightarrow> rs_segment_id st)\<rparr>
            in (st', [SegmentStart (rs_segment_id st')])))"

definition on_text_delta :: "json \<Rightarrow> responses_stream_state \<Rightarrow> stream_event list \<Rightarrow> responses_step" where
  "on_text_delta evt st events =
     (case nonempty_str (json_index evt ''delta'') of
        None \<Rightarrow> (st, REvents events)
      | Some delta \<Rightarrow>
          (case nonempty_str (json_index evt ''item_id'') of
             None \<Rightarrow> responses_protocol_error st events ''response.output_text.delta has no item_id''
           | Some i \<Rightarrow>
               (let (st1, ev) = responses_update st i (MessageDelta delta)
                in (st1, REvents (events @ [ev, Delta delta])))))"

definition on_reasoning_delta :: "json \<Rightarrow> responses_stream_state \<Rightarrow> stream_event list \<Rightarrow> responses_step" where
  "on_reasoning_delta evt st events =
     (case (as_str (json_index evt ''item_id''), as_u64 (json_index evt ''summary_index''), as_str (json_index evt ''delta'')) of
        (Some i, Some k, Some delta) \<Rightarrow>
          if i \<noteq> [] \<and> delta \<noteq> [] then
            (let (st1, ev) = responses_update
                   (st\<lparr>streamed_reasoning_summary_parts := insert (i, k) (streamed_reasoning_summary_parts st)\<rparr>)
                   i (ReasoningDelta k delta)
             in (st1, REvents (events @ [ev])))
          else (st, REvents events)
      | _ \<Rightarrow> (st, REvents events))"

definition on_reasoning_part_done :: "json \<Rightarrow> responses_stream_state \<Rightarrow> stream_event list \<Rightarrow> responses_step" where
  "on_reasoning_part_done evt st events =
     (case (as_str (json_index evt ''item_id''), as_u64 (json_index evt ''summary_index''),
            as_str (json_index (json_index evt ''part'') ''text'')) of
        (Some i, Some k, Some t) \<Rightarrow>
          if i \<noteq> [] then
            (let (st1, ev) = responses_update
                   (st\<lparr>streamed_reasoning_summary_parts := insert (i, k) (streamed_reasoning_summary_parts st)\<rparr>)
                   i (ReasoningPartDone k t)
             in (st1, REvents (events @ [ev])))
          else (st, REvents events)
      | _ \<Rightarrow> (st, REvents events))"

definition on_item_added :: "json \<Rightarrow> responses_stream_state \<Rightarrow> stream_event list \<Rightarrow> responses_step" where
  "on_item_added evt st events =
     (let item = json_index evt ''item'' in
      if as_str (json_index item ''type'') = Some ''function_call'' then
        (case nonempty_str (json_index item ''call_id'') of
           None \<Rightarrow> responses_protocol_error st events ''response.output_item.added function_call has no call_id''
         | Some i \<Rightarrow>
             (case nonempty_str (json_index item ''name'') of
                None \<Rightarrow> responses_protocol_error st events (''function_call `'' @ i @ ''` has no name'')
              | Some name \<Rightarrow>
                  (let (st1, events1, _) = open_function_call_slot st events i name (responses_tool_slot evt)
                   in (st1, REvents events1))))
      else (st, REvents events))"

text \<open>The summary parts a finished reasoning item repeats; only the new ones are emitted.\<close>

fun summary_parts_from :: "provider_item_id \<Rightarrow> nat \<Rightarrow> json list \<Rightarrow> responses_stream_state
    \<Rightarrow> responses_stream_state \<times> stream_event list" where
  "summary_parts_from i k [] st = (st, [])"
| "summary_parts_from i k (part # parts) st =
     (case nonempty_str (json_index part ''text'') of
        None \<Rightarrow> summary_parts_from i (k + 1) parts st
      | Some t \<Rightarrow>
          if (i, k) \<in> streamed_reasoning_summary_parts st then summary_parts_from i (k + 1) parts st
          else
            (let (st1, ev) = responses_update
                   (st\<lparr>streamed_reasoning_summary_parts := insert (i, k) (streamed_reasoning_summary_parts st)\<rparr>)
                   i (ReasoningPartDone k t);
                 (st2, evs) = summary_parts_from i (k + 1) parts st1
             in (st2, ev # evs)))"

definition reasoning_summary_events :: "json \<Rightarrow> provider_item_id \<Rightarrow> responses_stream_state
    \<Rightarrow> responses_stream_state \<times> stream_event list" where
  "reasoning_summary_events item i st =
     (case as_array (json_index item ''summary'') of
        None \<Rightarrow> (st, []) | Some parts \<Rightarrow> summary_parts_from i 0 parts st)"

definition on_item_done :: "slot_order \<Rightarrow> json \<Rightarrow> responses_stream_state \<Rightarrow> stream_event list \<Rightarrow> responses_step" where
  "on_item_done iter evt st events =
     (let item = json_index evt ''item'' in
      if as_str (json_index item ''type'') = Some ''reasoning'' then
        (case nonempty_str (json_index item ''id'') of
           None \<Rightarrow> responses_protocol_error st events ''response.output_item.done reasoning item has no id''
         | Some i \<Rightarrow>
             (let st0 = st\<lparr>rs_item_positions := snd (position_for (rs_item_positions st) i)\<rparr>;
                  (st1, evs1) = reasoning_summary_events item i st0;
                  (st2, ev) = responses_update st1 i (ReasoningItemDone (as_str (json_index item ''encrypted_content'')))
              in (st2, REvents (events @ evs1 @ [ev]))))
      else if as_str (json_index item ''type'') = Some ''function_call'' then
        (case finish_function_call_item iter st events item of
           Inl detail \<Rightarrow> responses_protocol_error st events detail
         | Inr (st1, events1) \<Rightarrow> (st1, REvents events1))
      else (st, REvents events))"

definition on_arguments_delta :: "json \<Rightarrow> responses_stream_state \<Rightarrow> stream_event list \<Rightarrow> responses_step" where
  "on_arguments_delta evt st events =
     (case nonempty_str (json_index evt ''delta'') of
        None \<Rightarrow> (st, REvents events)
      | Some delta \<Rightarrow>
          (case responses_tool_slot evt of
             None \<Rightarrow> responses_protocol_error st events ''response.function_call_arguments.delta has no output_index''
           | Some index \<Rightarrow>
               (case map_of (rs_tool_calls st) index of
                  None \<Rightarrow> responses_protocol_error st events
                    (''response.function_call_arguments.delta references unopened tool call slot '' @ show_nat index)
                | Some (call_id, _) \<Rightarrow>
                    (let (st1, ev) = responses_update st call_id (FunctionCallDelta delta)
                     in (st1, REvents (events @ [ev, ToolCallArgumentsDelta index delta]))))))"

definition on_arguments_done :: "json \<Rightarrow> responses_stream_state \<Rightarrow> stream_event list \<Rightarrow> responses_step" where
  "on_arguments_done evt st events =
     (case responses_tool_slot evt of
        None \<Rightarrow> responses_protocol_error st events ''response.function_call_arguments.done has no output_index''
      | Some index \<Rightarrow>
          (case map_of (rs_tool_calls st) index of
             None \<Rightarrow> responses_protocol_error st events
               (''response.function_call_arguments.done references unopened tool call slot '' @ show_nat index)
           | Some (call_id, _) \<Rightarrow>
               (case as_str (json_index evt ''arguments'') of
                  None \<Rightarrow> responses_protocol_error st events
                    (''function_call `'' @ call_id @ ''` completed without an arguments field'')
                | Some arguments \<Rightarrow>
                    (let (st1, events1) = announce_function_call_arguments st events index call_id arguments
                     in (st1, REvents events1)))))"

definition is_function_call :: "json \<Rightarrow> bool" where
  "is_function_call item \<longleftrightarrow> as_str (json_index item ''type'') = Some ''function_call''"

definition listed_calls :: "json \<Rightarrow> json list" where
  "listed_calls evt =
     filter is_function_call
       (case as_array (json_index (json_index evt ''response'') ''output'') of None \<Rightarrow> [] | Some vs \<Rightarrow> vs)"

definition on_completed :: "slot_order \<Rightarrow> json \<Rightarrow> responses_stream_state \<Rightarrow> stream_event list \<Rightarrow> responses_step" where
  "on_completed iter evt st events =
     (case finish_function_call_items iter st events (listed_calls evt) of
        Inl (st1, events1, detail) \<Rightarrow> responses_protocol_error st1 events1 detail
      | Inr (st1, events1) \<Rightarrow>
          (let us = map_option parse_openai_compat_usage
                 (Option.bind (json_get evt ''response'') (\<lambda>r. json_get r ''usage''));
               st2 = (case us of Some u \<Rightarrow> st1\<lparr>rs_tokens := u\<rparr> | None \<Rightarrow> st1)
           in (st2\<lparr>rs_segment_closed := True\<rparr>,
               RCompleted (events1 @ [SegmentClose (rs_segment_id st2) Completed us]))))"

definition on_failed :: "(json \<Rightarrow> string) \<Rightarrow> json \<Rightarrow> responses_stream_state \<Rightarrow> stream_event list \<Rightarrow> responses_step" where
  "on_failed print evt st events =
     (st\<lparr>rs_segment_closed := True\<rparr>,
      RFailed (events @ [SegmentClose (rs_segment_id st) Failed None, Error (provider_error_text print evt)]))"

definition incomplete_message :: "json \<Rightarrow> string" where
  "incomplete_message evt =
     (case as_str (json_index (json_index (json_index evt ''response'') ''incomplete_details'') ''reason'') of
        Some reason \<Rightarrow> ''response incomplete: '' @ reason
      | None \<Rightarrow>
     (case as_str (json_index (json_index (json_index evt ''response'') ''error'') ''message'') of
        Some m \<Rightarrow> m
      | None \<Rightarrow> (case as_str (json_index evt ''message'') of Some m \<Rightarrow> m | None \<Rightarrow> ''response incomplete'')))"

definition on_incomplete :: "json \<Rightarrow> responses_stream_state \<Rightarrow> stream_event list \<Rightarrow> responses_step" where
  "on_incomplete evt st events =
     (st\<lparr>rs_segment_closed := True\<rparr>,
      RFailed (events @ [SegmentClose (rs_segment_id st) Incomplete None, Error (incomplete_message evt)]))"

definition dispatch_responses :: "(json \<Rightarrow> string) \<Rightarrow> slot_order \<Rightarrow> json \<Rightarrow> responses_stream_state \<Rightarrow> stream_event list
    \<Rightarrow> responses_step" where
  "dispatch_responses print iter evt st events =
     (let ty = (case as_str (json_index evt ''type'') of Some t \<Rightarrow> t | None \<Rightarrow> []) in
      if ty = ''response.output_text.delta'' then on_text_delta evt st events
      else if ty = ''response.reasoning_summary_text.delta'' then on_reasoning_delta evt st events
      else if ty = ''response.reasoning_summary_part.done'' then on_reasoning_part_done evt st events
      else if ty = ''response.output_item.added'' then on_item_added evt st events
      else if ty = ''response.output_item.done'' then on_item_done iter evt st events
      else if ty = ''response.function_call_arguments.delta'' then on_arguments_delta evt st events
      else if ty = ''response.function_call_arguments.done'' then on_arguments_done evt st events
      else if ty = ''response.completed'' then on_completed iter evt st events
      else if ty = ''error'' \<or> ty = ''response.failed'' then on_failed print evt st events
      else if ty = ''response.incomplete'' then on_incomplete evt st events
      else (st, REvents events))"

definition process_responses_event :: "(json \<Rightarrow> string) \<Rightarrow> slot_order \<Rightarrow> json \<Rightarrow> responses_stream_state \<Rightarrow> responses_step" where
  "process_responses_event print iter evt st =
     (let (st0, init_events) = begin_responses evt st
      in dispatch_responses print iter evt st0 (init_events @ [ProviderRaw evt]))"

definition process_responses_sse_line :: "(string \<Rightarrow> string + json) \<Rightarrow> (json \<Rightarrow> string) \<Rightarrow> slot_order \<Rightarrow> string
    \<Rightarrow> responses_stream_state \<Rightarrow> responses_step" where
  "process_responses_sse_line parse print iter data st =
     (if data = ''[DONE]'' then (st, RCompleted [])
      else case parse data of
        Inl err \<Rightarrow> responses_protocol_error st [] (''provider sent a non-JSON Responses SSE line: '' @ err)
      | Inr evt \<Rightarrow> process_responses_event print iter evt st)"

definition finalize_responses_stream :: "responses_stream_state \<Rightarrow> responses_stream_state \<times> stream_event list" where
  "finalize_responses_stream st =
     (let pending = filter (\<lambda>k. k \<notin> completed_tool_calls st) (sort (map fst (rs_tool_calls st)));
          st1 = st\<lparr>completed_tool_calls := completed_tool_calls st \<union> set pending\<rparr>;
          (st2, evs2) =
            (if rs_segment_started st1 \<and> \<not> rs_segment_closed st1 then
               (st1\<lparr>rs_segment_closed := True\<rparr>,
                [SegmentClose (rs_segment_id st1) TransportError (Some (rs_tokens st1)),
                 Error ''provider stream closed before response.completed''])
             else (st1, []))
      in (st2, map ToolCallComplete pending @ evs2 @ [Done (rs_tokens st2)]))"

section \<open>The stream\<close>

definition responses_wire :: "(string \<Rightarrow> string + json) \<Rightarrow> (json \<Rightarrow> string) \<Rightarrow> slot_order
    \<Rightarrow> (responses_stream_state, stream_event) wire" where
  "responses_wire parse print iter =
     \<lparr>wire_line = (\<lambda>d st. case process_responses_sse_line parse print iter d st of
          (st', RCompleted evs) \<Rightarrow> (st', Conclude evs)
        | (st', RFailed evs) \<Rightarrow> (st', Halt evs)
        | (st', REvents evs) \<Rightarrow> (st', Go evs)),
      wire_finalize = finalize_responses_stream, wire_cut = rs_close_on_transport_error, wire_error = Error\<rparr>"

definition stream_responses_sse :: "(string \<Rightarrow> string + json) \<Rightarrow> (json \<Rightarrow> string) \<Rightarrow> slot_order
    \<Rightarrow> (u8 list \<Rightarrow> string + string) \<Rightarrow> provider_segment_id \<Rightarrow> (string + u8 list) list \<Rightarrow> stream_event list" where
  "stream_responses_sse parse print iter decode sid chunks =
     snd (sse_stream (responses_wire parse print iter) decode chunks (responses_default sid) [])"

end
