(* ===== verification/Responses_Link.thy ===== *)
theory Responses_Link
  imports Update_Link Responses_Stream
begin

text \<open>
  The Responses adapter and its consumer in step: no update it emits is refused, the text
  shown is the text materialized, and the arguments the runner decodes are those of the
  materialized calls.
\<close>

section \<open>The text shown\<close>

definition text_at :: "provider_item_id \<Rightarrow> materializer \<Rightarrow> string" where
  "text_at i m = (case find_item i (items (segment m)) of
     Some x \<Rightarrow> (case item_payload x of Message t \<Rightarrow> t | _ \<Rightarrow> []) | None \<Rightarrow> [])"

text \<open>As long as there is one message item, or none, its text is what the user has seen.\<close>

definition shown :: "materializer \<Rightarrow> string \<Rightarrow> bool" where
  "shown m t \<longleftrightarrow> (\<forall>i. (\<forall>x \<in> set (items (segment m)). payload_kind (item_payload x) = KMessage \<longrightarrow> item_id x = i)
     \<longrightarrow> text_at i m = t)"

lemma find_item_mat_ok:
  "mat_ok m \<Longrightarrow> find_item i (items (segment m)) = Some x \<longleftrightarrow> x \<in> set (items (segment m)) \<and> item_id x = i"
  using find_item_iff [of "items (segment m)" i x] by (simp add: mat_ok_def items_ok_def)

lemma shown_kind:
  assumes "stamped kind sid al q m"
  shows "shown m t \<longleftrightarrow> (\<forall>i. (\<forall>j. kind j = KMessage \<and> find_item j (items (segment m)) \<noteq> None \<longrightarrow> j = i) \<longrightarrow> text_at i m = t)"
proof -
  have "(\<forall>x \<in> set (items (segment m)). payload_kind (item_payload x) = KMessage \<longrightarrow> item_id x = i)
      \<longleftrightarrow> (\<forall>j. kind j = KMessage \<and> find_item j (items (segment m)) \<noteq> None \<longrightarrow> j = i)" for i
    using assms find_item_mat_ok [of m] by (auto simp: stamped_def)
  then show ?thesis by (simp add: shown_def)
qed

lemma text_at_other: "stamped kind sid al q m \<Longrightarrow> kind i \<noteq> KMessage \<Longrightarrow> text_at i m = []"
  using find_item_mat_ok [of m i]
  by (auto simp: text_at_def stamped_def split: option.splits provider_output_payload.splits)

lemma shown_update:
  assumes m: "stamped kind sid al q m" and m': "stamped kind sid' al' q' m'"
    and ap: "apply_update m u = (m', Inr ())" and sh: "shown m t"
    and kind: "update_kind (upd_payload u) = kind (upd_item_id u)" and plain: "\<And>t. upd_payload u \<noteq> MessageDone t"
  shows "shown m' (t @ (case upd_payload u of MessageDelta d \<Rightarrow> d | _ \<Rightarrow> []))"
  unfolding shown_kind [OF m']
proof (intro allI impI)
  fix i assume uniq: "\<forall>j. kind j = KMessage \<and> find_item j (items (segment m')) \<noteq> None \<longrightarrow> j = i"
  let ?k = "upd_item_id u"
  have "mat_ok m" using m by (simp add: stamped_def)
  note find = apply_update_ok(1) [OF ap this]
  have "find_item j (items (segment m')) \<noteq> None" if mem: "find_item j (items (segment m)) \<noteq> None" for j
  proof (cases "j = ?k")
    case True
    obtain x where x: "find_item ?k (items (segment m)) = Some x" using mem True by (cases "find_item ?k (items (segment m))") auto
    then have "payload_kind (item_payload x) = update_kind (upd_payload u)"
      using m kind find_item_mat_ok [of m ?k x] by (auto simp: stamped_def)
    then show ?thesis using x True apply_payload_kind(1) [of "item_payload x" "upd_payload u"]
      by (auto simp: find item_step_def)
  qed (use mem find in simp)
  then have t: "text_at i m = t" using sh uniq unfolding shown_kind [OF m] by blast
  show "text_at i m' = t @ (case upd_payload u of MessageDelta d \<Rightarrow> d | _ \<Rightarrow> [])"
  proof (cases "kind ?k = KMessage")
    case True
    then obtain d where d: "upd_payload u = MessageDelta d" using kind plain by (cases "upd_payload u") auto
    have step: "find_item ?k (items (segment m')) = item_step (find_item ?k (items (segment m))) u" by (simp add: find)
    show ?thesis
    proof (cases "find_item ?k (items (segment m))")
      case None
      then have "?k = i" using uniq True step by (simp add: item_step_def)
      then show ?thesis using step None d t by (simp add: text_at_def item_step_def create_item_from_update_def)
    next
      case (Some x)
      then have "payload_kind (item_payload x) = KMessage"
        using m True find_item_mat_ok [of m ?k x] by (auto simp: stamped_def)
      then obtain s where s: "item_payload x = Message s" by (cases "item_payload x") auto
      then have "?k = i" using uniq True step Some d by (simp add: item_step_def)
      then show ?thesis using step Some d t s by (simp add: text_at_def item_step_def)
    qed
  next
    case False
    then have pay: "(case upd_payload u of MessageDelta d \<Rightarrow> d | _ \<Rightarrow> []) = []"
      using kind by (cases "upd_payload u") auto
    show ?thesis
    proof (cases "i = ?k")
      case True
      then show ?thesis using t pay text_at_other [OF m, of i] text_at_other [OF m', of i] False by simp
    next
      case False
      then show ?thesis using t pay by (simp add: text_at_def find)
    qed
  qed
qed

section \<open>The link\<close>

definition rs_linked :: "(provider_item_id \<Rightarrow> item_kind) \<Rightarrow> responses_stream_state \<Rightarrow> attempt \<Rightarrow> bool" where
  "rs_linked kind st a \<longleftrightarrow> \<not> rs_segment_closed st
     \<and> stamped kind (if rs_segment_started st then Some (rs_segment_id st) else None)
         (rs_item_positions st) (rs_next_seq st) (att_materializer a)
     \<and> shown (att_materializer a) (accumulated_text a)
     \<and> (rs_segment_started st \<or> items (segment (att_materializer a)) = [])
     \<and> (\<forall>c \<in> set (rs_tool_calls st). kind (fst (snd c)) = KCall)"

text \<open>What holds of a consumer that left the stream at an error.\<close>

definition fair :: "attempt \<Rightarrow> bool" where
  "fair a \<longleftrightarrow> shown (att_materializer a) (accumulated_text a)"

lemma rs_linked_fair: "rs_linked kind st a \<Longrightarrow> fair (a\<lparr>stream_error := e\<rparr>)"
  by (simp add: rs_linked_def fair_def)

text \<open>Events that change neither the materializer nor the text.\<close>

lemma reads_silent:
  assumes "\<And>a. \<exists>a'. consume_event a ev = Inr a' \<and> stream_error a' = stream_error a
      \<and> att_materializer a' = att_materializer a \<and> accumulated_text a' = accumulated_text a"
    and "reads E (rs_linked kind st) evs R"
  shows "reads E (rs_linked kind st) (ev # evs) R"
proof (rule reads_Cons [OF _ assms(2)])
  fix a assume "stream_error a = None" "rs_linked kind st a"
  moreover obtain a' where "consume_event a ev = Inr a'" "stream_error a' = stream_error a"
      "att_materializer a' = att_materializer a" "accumulated_text a' = accumulated_text a"
    using assms(1) by blast
  ultimately show "\<exists>a'. consume_event a ev = Inr a' \<and> stream_error a' = None \<and> rs_linked kind st a'"
    by (auto simp: rs_linked_def)
qed

lemma reads_tool_events:
  assumes "reads E (rs_linked kind st) evs R"
  shows "reads E (rs_linked kind st) (ProviderRaw v # evs) R"
    "reads E (rs_linked kind st) (ToolCallStart i n k # evs) R"
    "reads E (rs_linked kind st) (ToolCallArgumentsDelta k d # evs) R"
    "reads E (rs_linked kind st) (ToolCallComplete k # evs) R"
  by (rule reads_silent [OF _ assms], auto split: option.splits)+

lemma reads_completions:
  "reads E (rs_linked kind st) evs R \<Longrightarrow> reads E (rs_linked kind st) (map ToolCallComplete ks @ evs) R"
  by (induction ks) (auto intro: reads_tool_events(4))

text \<open>One update.\<close>

lemma rs_linked_update:
  assumes upd: "responses_update st i pay = (st', ev)" and kind: "update_kind pay = kind i"
    and plain: "\<And>t. pay \<noteq> MessageDone t" and link: "rs_linked kind st a" "rs_segment_started st"
  obtains m u where "consume_event a ev = Inr (a\<lparr>att_materializer := m, final_tool_call_args :=
        (case pay of FunctionCallDone args \<Rightarrow> (final_tool_call_args a)(i \<mapsto> args) | _ \<Rightarrow> final_tool_call_args a)\<rparr>)"
    "rs_linked kind st' (a\<lparr>att_materializer := m,
       accumulated_text := accumulated_text a @ (case pay of MessageDelta d \<Rightarrow> d | _ \<Rightarrow> [])\<rparr>)"
    "rs_segment_started st'" "apply_update (att_materializer a) u = (m, Inr ())" "upd_item_id u = i" "upd_payload u = pay"
proof -
  let ?m = "att_materializer a"
  obtain p al where pos: "position_for (rs_item_positions st) i = (p, al)" by force
  define u where "u = \<lparr>upd_segment_id = rs_segment_id st, upd_item_id = i, upd_position = p,
    update_seq = rs_next_seq st + 1, upd_payload = pay\<rparr>"
  have st: "st' = st\<lparr>rs_item_positions := al, rs_next_seq := rs_next_seq st + 1\<rparr>" "ev = ProviderItemUpdate u"
    using upd pos by (auto simp: responses_update_def u_def)
  have stamp: "stamped kind (Some (rs_segment_id st)) (rs_item_positions st) (rs_next_seq st) ?m"
    using link by (simp add: rs_linked_def)
  obtain m where m: "apply_update ?m u = (m, Inr ())" "stamped kind (Some (rs_segment_id st)) al (rs_next_seq st + 1) m"
    using stamped_accepts [OF stamp pos kind] unfolding u_def by blast
  have "shown m (accumulated_text a @ (case upd_payload u of MessageDelta d \<Rightarrow> d | _ \<Rightarrow> []))"
    by (rule shown_update [OF stamp m(2,1)]) (use link kind plain in \<open>simp_all add: rs_linked_def u_def\<close>)
  then have "rs_linked kind st' (a\<lparr>att_materializer := m,
       accumulated_text := accumulated_text a @ (case pay of MessageDelta d \<Rightarrow> d | _ \<Rightarrow> [])\<rparr>)"
    using m(2) link by (simp add: rs_linked_def st u_def)
  then show thesis
    using that [of m u] m(1) link st by (auto simp: u_def split: provider_item_update_payload.splits)
qed

lemma reads_update:
  assumes upd: "responses_update st i pay = (st', ev)" and kind: "update_kind pay = kind i"
    and st: "rs_segment_started st" and other: "update_kind pay \<noteq> KMessage"
    and rest: "reads E (rs_linked kind st') evs R"
  shows "reads E (rs_linked kind st) (ev # evs) R"
proof (rule reads_Cons [OF _ rest])
  fix a assume a: "stream_error a = None" "rs_linked kind st a"
  have plain: "pay \<noteq> MessageDone t" "(case pay of MessageDelta d \<Rightarrow> d | _ \<Rightarrow> []) = []" for t
    using other by (cases pay; simp)+
  obtain m where "consume_event a ev = Inr (a\<lparr>att_materializer := m, final_tool_call_args :=
        (case pay of FunctionCallDone args \<Rightarrow> (final_tool_call_args a)(i \<mapsto> args) | _ \<Rightarrow> final_tool_call_args a)\<rparr>)"
      "rs_linked kind st' (a\<lparr>att_materializer := m, accumulated_text := accumulated_text a @ []\<rparr>)"
    using rs_linked_update [OF upd kind plain(1) a(2) st] unfolding plain(2) by metis
  then show "\<exists>a'. consume_event a ev = Inr a' \<and> stream_error a' = None \<and> rs_linked kind st' a'"
    using a(1) by (simp add: rs_linked_def)
qed

lemma reads_message:
  assumes upd: "responses_update st i (MessageDelta d) = (st', ev)" and kind: "kind i = KMessage"
    and st: "rs_segment_started st"
  shows "reads E (rs_linked kind st) [ev, Delta d] (rs_linked kind st')"
  unfolding reads_def
proof (intro allI impI)
  fix a assume a: "stream_error a = None \<and> rs_linked kind st a"
  then have l: "rs_linked kind st a" by simp
  have k: "update_kind (MessageDelta d) = kind i" and plain: "\<And>t. MessageDelta d \<noteq> MessageDone t" using kind by simp_all
  show "\<exists>a'. consume a [ev, Delta d] = Inr a' \<and> (if stream_error a' = None then rs_linked kind st' a' else E a')"
    by (rule rs_linked_update [where kind = kind and i = i, OF upd k plain l st]) (use a in simp)
qed

text \<open>
  From any consumer \<open>P\<close>: the events so far, none of them an error, bring it in step with
  \<open>st\<close>. The functions of the adapter extend the list of events and keep it so.
\<close>

definition reached :: "(provider_item_id \<Rightarrow> item_kind) \<Rightarrow> (attempt \<Rightarrow> bool) \<Rightarrow> responses_stream_state \<Rightarrow> stream_event list \<Rightarrow> bool" where
  "reached kind P st events \<longleftrightarrow> rs_segment_started st \<and> reads (\<lambda>_. False) P events (rs_linked kind st)"

definition rs_completed :: "attempt \<Rightarrow> bool" where
  "rs_completed a \<longleftrightarrow> fair a \<and> outcome (segment (att_materializer a)) = Completed"

definition step_ok :: "(provider_item_id \<Rightarrow> item_kind) \<Rightarrow> (attempt \<Rightarrow> bool) \<Rightarrow> responses_step \<Rightarrow> bool" where
  "step_ok kind P r = (case r of
     (st, REvents evs) \<Rightarrow> reached kind P st evs
   | (st, RCompleted evs) \<Rightarrow> rs_segment_closed st \<and> reads (\<lambda>_. False) P evs rs_completed
   | (st, RFailed evs) \<Rightarrow> reads fair P evs (\<lambda>_. False))"

lemma reads_close:
  assumes "rs_segment_started st"
  shows "reads E (rs_linked kind st) [SegmentClose sid out us] (\<lambda>a. fair a \<and> outcome (segment (att_materializer a)) = out)"
  using assms by (auto simp: reads_def rs_linked_def fair_def stamped_def close_def shown_def text_at_def)

lemma reads_close_error:
  assumes "rs_segment_started st"
  shows "reads fair (rs_linked kind st) [SegmentClose sid out us, Error d] Q"
proof -
  have "reads fair (\<lambda>a. fair a \<and> outcome (segment (att_materializer a)) = out) [Error d] Q"
    by (rule reads_Error) (simp add: fair_def)
  from reads_append [OF reads_close [OF assms] this] show ?thesis by simp
qed

lemma failing_ok:
  assumes "reads fair P events (rs_linked kind st)"
  shows "step_ok kind P (responses_protocol_error st events d)"
proof (cases "rs_segment_started st \<and> \<not> rs_segment_closed st")
  case True
  then show ?thesis
    using reads_append [OF assms reads_close_error] by (simp add: responses_protocol_error_def step_ok_def)
next
  case False
  have "reads fair (rs_linked kind st) [Error d] (\<lambda>_. False)" by (rule reads_Error) (rule rs_linked_fair)
  then show ?thesis
    using False reads_append [OF assms] by (auto simp: responses_protocol_error_def step_ok_def)
qed

lemma protocol_error_ok: "reached kind P st events \<Longrightarrow> step_ok kind P (responses_protocol_error st events d)"
  by (simp add: reached_def failing_ok reads_no_error)

lemma update_started: "responses_update st i pay = (st', ev) \<Longrightarrow> rs_segment_started st' = rs_segment_started st"
  by (auto simp: responses_update_def Let_def split: prod.splits)

lemma reached_update:
  assumes "reached kind P st events" "responses_update st i pay = (st', ev)" "update_kind pay = kind i" "update_kind pay \<noteq> KMessage"
  shows "reached kind P st' (events @ [ev])"
proof -
  have "reads (\<lambda>_. False) (rs_linked kind st') [] (rs_linked kind st')" by (rule reads_Nil)
  then have "reads (\<lambda>_. False) (rs_linked kind st) [ev] (rs_linked kind st')"
    using assms(1) by (intro reads_update [where kind = kind and i = i, OF assms(2,3) _ assms(4)]) (simp_all add: reached_def)
  then show ?thesis using assms(1) reads_append update_started [OF assms(2)] unfolding reached_def by blast
qed

lemma reached_silent:
  assumes "reached kind P st events"
  shows "reached kind P st (events @ [ToolCallStart i n k])" "reached kind P st (events @ [ToolCallArgumentsDelta k d])"
    "reached kind P st (events @ [ToolCallComplete k])"
  using assms unfolding reached_def by (auto intro!: reads_append reads_tool_events reads_Nil)

lemma reached_state:
  assumes "reached kind P st events" "rs_segment_started st' = rs_segment_started st"
    and "\<And>a. rs_linked kind st a \<Longrightarrow> rs_linked kind st' a"
  shows "reached kind P st' events"
  using assms unfolding reached_def by (auto intro: reads_weaken)

lemma open_slot_ok:
  assumes "reached kind P st events" "kind i = KCall" "open_function_call_slot st events i n slot = (st', events', k)"
  shows "reached kind P st' events'"
proof -
  define k' where "k' = (case slot of Some n \<Rightarrow> n | None \<Rightarrow> current_tool_index st)"
  define s1 where "s1 = st\<lparr>current_tool_index := max (current_tool_index st) ((k' + 1) mod 2 ^ 64),
                   rs_tool_calls := AList.update k' (i, n) (rs_tool_calls st)\<rparr>"
  obtain s2 ev where s2: "responses_update s1 i (FunctionCallStart n) = (s2, ev)" by force
  have "reached kind P s1 events"
    using assms(1,2) set_alist_update [of k' "(i, n)" "rs_tool_calls st"]
    by (rule_tac reached_state) (auto simp: s1_def rs_linked_def)
  then have "reached kind P s2 (events @ [ev])" by (rule reached_update [OF _ s2]) (simp_all add: assms(2))
  then show ?thesis
    using reached_silent(1) assms(3) s2 by (fastforce simp: open_function_call_slot_def k'_def s1_def Let_def)
qed

lemma announce_ok:
  assumes "reached kind P st events" "kind c = KCall" "announce_function_call_arguments st events k c args = (st', events')"
  shows "reached kind P st' events'"
proof -
  obtain s1 ev where s1: "responses_update st c (FunctionCallDone args) = (s1, ev)" by force
  have "reached kind P s1 (events @ [ev])" by (rule reached_update [OF assms(1) s1]) (simp_all add: assms(2))
  then have *: "reached kind P (s1\<lparr>completed_tool_calls := insert k (completed_tool_calls s1)\<rparr>) (events @ [ev])"
    by (rule reached_state) (auto simp: rs_linked_def)
  show ?thesis
    using * reached_silent(3) [OF *, of k] assms(3) s1
    by (auto simp: announce_function_call_arguments_def Let_def split: if_splits)
qed

lemma finish_itemE:
  assumes "finish_function_call_item iter st events item = Inr (st', events')"
  obtains (known) c args k where "as_str (json_index item ''call_id'') = Some c"
      "announce_function_call_arguments st events k c args = (st', events')"
    | (new) c args k n s1 e1 where "as_str (json_index item ''call_id'') = Some c"
      "open_function_call_slot st events c n None = (s1, e1, k)"
      "announce_function_call_arguments s1 e1 k c args = (st', events')"
  using assms
  by (auto simp: finish_function_call_item_def nonempty_str_def Let_def split: option.splits if_splits prod.splits)

lemma finish_item_ok:
  assumes "reached kind P st events" "\<And>c. as_str (json_index item ''call_id'') = Some c \<Longrightarrow> kind c = KCall"
    and "finish_function_call_item iter st events item = Inr (st', events')"
  shows "reached kind P st' events'"
  using assms(3)
proof (cases rule: finish_itemE)
  case (known c args k)
  then show ?thesis using announce_ok [OF assms(1)] assms(2) by blast
next
  case (new c args k n s1 e1)
  then show ?thesis using announce_ok [OF open_slot_ok [OF assms(1)]] assms(2) by blast
qed

definition calls_kinded :: "(provider_item_id \<Rightarrow> item_kind) \<Rightarrow> json list \<Rightarrow> bool" where
  "calls_kinded kind xs \<longleftrightarrow> list_all (\<lambda>item. \<forall>c. as_str (json_index item ''call_id'') = Some c \<longrightarrow> kind c = KCall) xs"

lemma finish_items_ok:
  assumes "reached kind P st events" "calls_kinded kind xs"
  shows "case finish_function_call_items iter st events xs of
      Inl (st', events', _) \<Rightarrow> reached kind P st' events' | Inr (st', events') \<Rightarrow> reached kind P st' events'"
  using assms
proof (induction xs arbitrary: st events)
  case (Cons x xs)
  show ?case
  proof (cases "finish_function_call_item iter st events x")
    case (Inr r)
    obtain s e where r: "r = (s, e)" by force
    have "reached kind P s e"
      by (rule finish_item_ok [OF Cons.prems(1) _ Inr [unfolded r]]) (use Cons.prems(2) in \<open>simp add: calls_kinded_def\<close>)
    then show ?thesis using Cons.IH [of s e] Cons.prems(2) Inr r by (simp add: calls_kinded_def)
  qed (use Cons.prems in simp)
qed simp

section \<open>The event types\<close>

text \<open>The items an event addresses, each with its kind.\<close>

definition named :: "json \<Rightarrow> item_kind \<Rightarrow> (provider_item_id \<times> item_kind) list" where
  "named v k = (case as_str v of Some i \<Rightarrow> [(i, k)] | None \<Rightarrow> [])"

definition item_items :: "json \<Rightarrow> (provider_item_id \<times> item_kind) list" where
  "item_items item =
     (if as_str (json_index item ''type'') = Some ''reasoning'' then named (json_index item ''id'') KReasoning
      else if is_function_call item then named (json_index item ''call_id'') KCall else [])"

definition event_items :: "json \<Rightarrow> (provider_item_id \<times> item_kind) list" where
  "event_items evt =
     (let ty = as_str (json_index evt ''type'') in
      if ty = Some ''response.output_text.delta'' then named (json_index evt ''item_id'') KMessage
      else if ty = Some ''response.reasoning_summary_text.delta'' \<or> ty = Some ''response.reasoning_summary_part.done''
        then named (json_index evt ''item_id'') KReasoning
      else if ty = Some ''response.output_item.added'' \<or> ty = Some ''response.output_item.done''
        then item_items (json_index evt ''item'')
      else if ty = Some ''response.completed'' then concat (map (\<lambda>it. named (json_index it ''call_id'') KCall) (listed_calls evt))
      else [])"

definition well_kinded :: "(provider_item_id \<Rightarrow> item_kind) \<Rightarrow> json \<Rightarrow> bool" where
  "well_kinded kind evt \<longleftrightarrow> list_all (\<lambda>(i, k). kind i = k) (event_items evt)"

lemma nonempty_str_Some: "nonempty_str v = Some s \<longleftrightarrow> as_str v = Some s \<and> s \<noteq> []"
  by (auto simp: nonempty_str_def split: option.splits if_splits)

lemma text_delta_ok:
  assumes r: "reached kind P st events" and k: "\<And>i. as_str (json_index evt ''item_id'') = Some i \<Longrightarrow> kind i = KMessage"
  shows "step_ok kind P (on_text_delta evt st events)"
proof -
  have "step_ok kind P (let (st1, ev) = responses_update st i (MessageDelta d) in (st1, REvents (events @ [ev, Delta d])))"
    if "kind i = KMessage" for i d
  proof -
    obtain s1 ev where u: "responses_update st i (MessageDelta d) = (s1, ev)" by force
    have "reads (\<lambda>_. False) (rs_linked kind st) [ev, Delta d] (rs_linked kind s1)"
      using reads_message [where kind = kind and i = i, OF u that] r by (simp add: reached_def)
    then show ?thesis
      using r u reads_append update_started [OF u] unfolding step_ok_def reached_def by (fastforce simp: Let_def)
  qed
  then show ?thesis
    using r k protocol_error_ok [OF r]
    by (auto simp: on_text_delta_def step_ok_def [of _ _ "(st, REvents events)"] nonempty_str_Some
        split: option.splits)
qed

lemma part_update_ok:
  assumes u: "responses_update (st\<lparr>streamed_reasoning_summary_parts := S\<rparr>) i pay = (st', ev)"
    and r: "reached kind P st events" and k: "update_kind pay = KReasoning" "kind i = KReasoning"
  shows "reached kind P st' (events @ [ev])"
proof -
  have "reached kind P (st\<lparr>streamed_reasoning_summary_parts := S\<rparr>) events"
    using r by (rule reached_state) (auto simp: rs_linked_def)
  then show ?thesis by (rule reached_update [OF _ u]) (simp_all add: k)
qed

lemmas part_updates_ok =
  part_update_ok [where pay = "ReasoningDelta k d" for k d, simplified]
  part_update_ok [where pay = "ReasoningPartDone k t" for k t, simplified]

lemma reasoning_ok:
  assumes r: "reached kind P st events" and k: "\<And>i. as_str (json_index evt ''item_id'') = Some i \<Longrightarrow> kind i = KReasoning"
  shows "step_ok kind P (on_reasoning_delta evt st events)" "step_ok kind P (on_reasoning_part_done evt st events)"
  using r k
  by (auto simp: on_reasoning_delta_def on_reasoning_part_done_def step_ok_def Let_def split: option.splits prod.splits
      intro: part_updates_ok)

lemma item_added_ok:
  assumes r: "reached kind P st events"
    and k: "\<And>i. is_function_call (json_index evt ''item'') \<Longrightarrow> as_str (json_index (json_index evt ''item'') ''call_id'') = Some i \<Longrightarrow> kind i = KCall"
  shows "step_ok kind P (on_item_added evt st events)"
proof -
  have "step_ok kind P (let (st1, events1, _) = open_function_call_slot st events i n slot in (st1, REvents events1))"
    if "kind i = KCall" for i n slot
    using open_slot_ok [OF r that] by (auto simp: step_ok_def Let_def split: prod.splits)
  then show ?thesis
    using r k protocol_error_ok [OF r]
    by (auto simp: on_item_added_def step_ok_def [of _ _ "(st, REvents events)"] is_function_call_def Let_def [of "json_index _ _"] nonempty_str_Some
        split: option.splits)
qed

lemma summary_parts_ok:
  "reached kind P st events \<Longrightarrow> kind i = KReasoning \<Longrightarrow> summary_parts_from i k parts st = (st', evs)
   \<Longrightarrow> reached kind P st' (events @ evs)"
proof (induction i k parts st arbitrary: events evs rule: summary_parts_from.induct)
  case (2 i k part parts st)
  show ?case
  proof (cases "nonempty_str (json_index part ''text'')")
    case None
    then show ?thesis using "2.IH"(1) "2.prems" by simp
  next
    case t: (Some t)
    show ?thesis
    proof (cases "(i, k) \<in> streamed_reasoning_summary_parts st")
      case True
      then show ?thesis using "2.IH"(2) "2.prems" t by simp
    next
      case False
      obtain s1 ev where u: "responses_update
          (st\<lparr>streamed_reasoning_summary_parts := insert (i, k) (streamed_reasoning_summary_parts st)\<rparr>) i
          (ReasoningPartDone k t) = (s1, ev)" by force
      obtain es where rest: "summary_parts_from i (k + 1) parts s1 = (st', es)" "evs = ev # es"
        using "2.prems"(3) t False u by (auto simp: Let_def split: prod.splits)
      have "reached kind P s1 (events @ [ev])" using u "2.prems"(1,2) by (rule part_updates_ok)
      from "2.IH"(3) [OF t False u [symmetric] refl this "2.prems"(2) rest(1)] show ?thesis
        using rest(2) by simp
    qed
  qed
qed simp

lemma item_done_ok:
  assumes r: "reached kind P st events"
    and k: "\<And>i. as_str (json_index (json_index evt ''item'') ''type'') = Some ''reasoning''
        \<Longrightarrow> as_str (json_index (json_index evt ''item'') ''id'') = Some i \<Longrightarrow> kind i = KReasoning"
      "\<And>i. is_function_call (json_index evt ''item'') \<Longrightarrow> as_str (json_index (json_index evt ''item'') ''call_id'') = Some i \<Longrightarrow> kind i = KCall"
  shows "step_ok kind P (on_item_done iter evt st events)"
proof -
  let ?item = "json_index evt ''item''"
  have reasoning: "step_ok kind P (let st0 = st\<lparr>rs_item_positions := snd (position_for (rs_item_positions st) i)\<rparr>;
                  (st1, evs1) = reasoning_summary_events ?item i st0;
                  (st2, ev) = responses_update st1 i (ReasoningItemDone enc)
              in (st2, REvents (events @ evs1 @ [ev])))" if ki: "kind i = KReasoning" for i enc
  proof -
    define s0 where "s0 = st\<lparr>rs_item_positions := snd (position_for (rs_item_positions st) i)\<rparr>"
    obtain s1 e1 where s1: "reasoning_summary_events ?item i s0 = (s1, e1)" by force
    obtain s2 ev where s2: "responses_update s1 i (ReasoningItemDone enc) = (s2, ev)" by force
    have "reached kind P s0 events"
      unfolding s0_def
    proof (rule reached_state [OF r])
      fix a assume "rs_linked kind st a"
      then show "rs_linked kind (st\<lparr>rs_item_positions := snd (position_for (rs_item_positions st) i)\<rparr>) a"
        using stamped_position [of kind _ "rs_item_positions st" "rs_next_seq st" "att_materializer a" i]
        by (auto simp: rs_linked_def)
    qed simp
    then have "reached kind P s1 (events @ e1)"
      using s1 ki summary_parts_ok [of kind P s0 events i] by (auto simp: reasoning_summary_events_def split: option.splits)
    then have "reached kind P s2 ((events @ e1) @ [ev])" by (rule reached_update [OF _ s2]) (simp_all add: ki)
    then show ?thesis using s1 s2 by (simp add: step_ok_def s0_def [symmetric])
  qed
  have call: "step_ok kind P (case finish_function_call_item iter st events ?item of
           Inl detail \<Rightarrow> responses_protocol_error st events detail
         | Inr (st1, events1) \<Rightarrow> (st1, REvents events1))" if "is_function_call ?item"
    using finish_item_ok [OF r k(2) [OF that]] protocol_error_ok [OF r]
    by (auto simp: step_ok_def [of _ _ "(_, REvents _)"] split: sum.splits)
  show ?thesis
  proof (cases "as_str (json_index ?item ''type'') = Some ''reasoning''")
    case True
    then show ?thesis
      using k(1) reasoning protocol_error_ok [OF r] unfolding on_item_done_def Let_def [of ?item]
      by (simp add: nonempty_str_Some split: option.splits)
  next
    case False
    then show ?thesis
      using call r unfolding on_item_done_def Let_def [of ?item] by (simp add: is_function_call_def step_ok_def)
  qed
qed

lemma arguments_ok:
  assumes r: "reached kind P st events" and k: "\<And>c. c \<in> set (rs_tool_calls st) \<Longrightarrow> kind (fst (snd c)) = KCall"
  shows "step_ok kind P (on_arguments_delta evt st events)" "step_ok kind P (on_arguments_done evt st events)"
proof -
  have call: "kind c = KCall" if "map_of (rs_tool_calls st) idx = Some (c, n)" for idx c n
    using k [OF map_of_SomeD [OF that]] by simp
  have "step_ok kind P (let (st1, ev) = responses_update st c (FunctionCallDelta d)
      in (st1, REvents (events @ [ev, ToolCallArgumentsDelta idx d])))" if "kind c = KCall" for c d idx
  proof -
    obtain s1 ev where u: "responses_update st c (FunctionCallDelta d) = (s1, ev)" by force
    have "reached kind P s1 (events @ [ev])" by (rule reached_update [OF r u]) (simp_all add: that)
    then show ?thesis using u reached_silent(2) by (fastforce simp: step_ok_def)
  qed
  then show "step_ok kind P (on_arguments_delta evt st events)"
    using r protocol_error_ok [OF r] call
    by (auto simp: on_arguments_delta_def step_ok_def [of _ _ "(st, REvents events)"] split: option.splits prod.splits)
  have "step_ok kind P (let (st1, events1) = announce_function_call_arguments st events idx c args in (st1, REvents events1))"
    if "kind c = KCall" for idx c args
    using announce_ok [OF r that] by (auto simp: step_ok_def Let_def split: prod.splits)
  then show "step_ok kind P (on_arguments_done evt st events)"
    using protocol_error_ok [OF r] call by (auto simp: on_arguments_done_def split: option.splits)
qed

lemma completed_ok:
  assumes r: "reached kind P st events"
    and k: "calls_kinded kind (listed_calls evt)"
  shows "step_ok kind P (on_completed iter evt st events)"
proof (cases "finish_function_call_items iter st events (listed_calls evt)")
  case (Inl x)
  then show ?thesis
    using finish_items_ok [where iter = iter, OF r k] protocol_error_ok
    by (cases x) (auto simp: on_completed_def)
next
  case (Inr x)
  obtain s1 e1 where x: "x = (s1, e1)" by force
  then have "reached kind P s1 e1" using finish_items_ok [where iter = iter, OF r k] Inr by auto
  then have "reads (\<lambda>_. False) P (e1 @ [SegmentClose sid Completed us]) rs_completed" for sid us
    using reads_append [OF _ reads_close] unfolding reached_def rs_completed_def by blast
  then show ?thesis using Inr x by (simp add: on_completed_def step_ok_def Let_def)
qed

lemma ending_ok:
  assumes r: "reached kind P st events"
  shows "step_ok kind P (on_failed print evt st events)" "step_ok kind P (on_incomplete evt st events)"
  using r reads_append [OF reads_no_error reads_close_error] unfolding reached_def
  by (auto simp: on_failed_def on_incomplete_def step_ok_def)

lemma named_kind: "list_all (\<lambda>(i, k). kind i = k) (named v k) \<longleftrightarrow> (\<forall>i. as_str v = Some i \<longrightarrow> kind i = k)"
  by (simp add: named_def split: option.splits)

lemma eleven_cases:
  assumes "x = a1 \<Longrightarrow> P" "x = a2 \<Longrightarrow> P" "x = a3 \<Longrightarrow> P" "x = a4 \<Longrightarrow> P" "x = a5 \<Longrightarrow> P" "x = a6 \<Longrightarrow> P" "x = a7 \<Longrightarrow> P"
    "x = a8 \<Longrightarrow> P" "x = a9 \<Longrightarrow> P" "x = a10 \<Longrightarrow> P" "x = a11 \<Longrightarrow> P"
    "x \<noteq> a1 \<Longrightarrow> x \<noteq> a2 \<Longrightarrow> x \<noteq> a3 \<Longrightarrow> x \<noteq> a4 \<Longrightarrow> x \<noteq> a5 \<Longrightarrow> x \<noteq> a6 \<Longrightarrow> x \<noteq> a7 \<Longrightarrow> x \<noteq> a8 \<Longrightarrow> x \<noteq> a9 \<Longrightarrow> x \<noteq> a10 \<Longrightarrow> x \<noteq> a11 \<Longrightarrow> P"
  shows P
  using assms by blast

lemmas dispatch_cases = eleven_cases [where x = "as_str (json_index evt ''type'')" for evt,
    of _ "Some ''response.output_text.delta''" _ "Some ''response.reasoning_summary_text.delta''"
      "Some ''response.reasoning_summary_part.done''" "Some ''response.output_item.added''" "Some ''response.output_item.done''"
      "Some ''response.function_call_arguments.delta''" "Some ''response.function_call_arguments.done''"
      "Some ''response.completed''" "Some ''error''" "Some ''response.failed''" "Some ''response.incomplete''"]

lemma dispatch_other:
  assumes "ty = as_str (json_index evt ''type'')" "ty \<noteq> Some ''response.output_text.delta''" "ty \<noteq> Some ''response.reasoning_summary_text.delta''"
      "ty \<noteq> Some ''response.reasoning_summary_part.done''" "ty \<noteq> Some ''response.output_item.added''" "ty \<noteq> Some ''response.output_item.done''"
      "ty \<noteq> Some ''response.function_call_arguments.delta''" "ty \<noteq> Some ''response.function_call_arguments.done''"
      "ty \<noteq> Some ''response.completed''" "ty \<noteq> Some ''error''" "ty \<noteq> Some ''response.failed''" "ty \<noteq> Some ''response.incomplete''"
  shows "dispatch_responses print iter evt st events = (st, REvents events)"
proof (cases ty)
  case None
  then show ?thesis using assms(1) by (simp add: dispatch_responses_def)
next
  case (Some t)
  have "(case as_str (json_index evt ''type'') of Some t \<Rightarrow> t | None \<Rightarrow> []) = t" using Some assms(1) by simp
  moreover note assms(2-12) [unfolded Some option.inject]
  ultimately show ?thesis unfolding dispatch_responses_def Let_def by (simp only: if_False simp_thms)
qed

lemma dispatch_simps:
  "as_str (json_index evt ''type'') = Some ''response.output_text.delta'' \<Longrightarrow> dispatch_responses print iter evt = on_text_delta evt"
  "as_str (json_index evt ''type'') = Some ''response.reasoning_summary_text.delta'' \<Longrightarrow> dispatch_responses print iter evt = on_reasoning_delta evt"
  "as_str (json_index evt ''type'') = Some ''response.reasoning_summary_part.done'' \<Longrightarrow> dispatch_responses print iter evt = on_reasoning_part_done evt"
  "as_str (json_index evt ''type'') = Some ''response.output_item.added'' \<Longrightarrow> dispatch_responses print iter evt = on_item_added evt"
  "as_str (json_index evt ''type'') = Some ''response.output_item.done'' \<Longrightarrow> dispatch_responses print iter evt = on_item_done iter evt"
  "as_str (json_index evt ''type'') = Some ''response.function_call_arguments.delta'' \<Longrightarrow> dispatch_responses print iter evt = on_arguments_delta evt"
  "as_str (json_index evt ''type'') = Some ''response.function_call_arguments.done'' \<Longrightarrow> dispatch_responses print iter evt = on_arguments_done evt"
  "as_str (json_index evt ''type'') = Some ''response.completed'' \<Longrightarrow> dispatch_responses print iter evt = on_completed iter evt"
  "as_str (json_index evt ''type'') = Some ''error'' \<or> as_str (json_index evt ''type'') = Some ''response.failed''
     \<Longrightarrow> dispatch_responses print iter evt = on_failed print evt"
  "as_str (json_index evt ''type'') = Some ''response.incomplete'' \<Longrightarrow> dispatch_responses print iter evt = on_incomplete evt"
  by (rule ext, rule ext, fastforce simp: dispatch_responses_def)+

lemma event_items_simps:
  "as_str (json_index evt ''type'') = Some ''response.output_text.delta'' \<Longrightarrow> event_items evt = named (json_index evt ''item_id'') KMessage"
  "as_str (json_index evt ''type'') = Some ''response.reasoning_summary_text.delta''
     \<Longrightarrow> event_items evt = named (json_index evt ''item_id'') KReasoning"
  "as_str (json_index evt ''type'') = Some ''response.reasoning_summary_part.done''
     \<Longrightarrow> event_items evt = named (json_index evt ''item_id'') KReasoning"
  "as_str (json_index evt ''type'') = Some ''response.output_item.added'' \<Longrightarrow> event_items evt = item_items (json_index evt ''item'')"
  "as_str (json_index evt ''type'') = Some ''response.output_item.done'' \<Longrightarrow> event_items evt = item_items (json_index evt ''item'')"
  "as_str (json_index evt ''type'') = Some ''response.completed'' \<Longrightarrow> event_items evt = concat (map (\<lambda>it. named (json_index it ''call_id'') KCall) (listed_calls evt))"
  by (simp_all add: event_items_def)

lemma item_items_kinded:
  assumes "list_all (\<lambda>(i, k). kind i = k) (item_items item)"
  shows "as_str (json_index item ''type'') = Some ''reasoning'' \<Longrightarrow> as_str (json_index item ''id'') = Some i \<Longrightarrow> kind i = KReasoning"
    "is_function_call item \<Longrightarrow> as_str (json_index item ''call_id'') = Some i \<Longrightarrow> kind i = KCall"
  using assms by (auto simp: item_items_def named_def is_function_call_def)

lemma listed_kinded:
  "list_all (\<lambda>(i, k). kind i = k) (concat (map (\<lambda>it. named (json_index it ''call_id'') KCall) xs)) \<Longrightarrow> calls_kinded kind xs"
  by (induction xs) (auto simp: calls_kinded_def named_def split: option.splits)

lemma dispatch_ok:
  assumes r: "reached kind P st events" and k: "well_kinded kind evt"
    and c: "\<And>c. c \<in> set (rs_tool_calls st) \<Longrightarrow> kind (fst (snd c)) = KCall"
  shows "step_ok kind P (dispatch_responses print iter evt st events)"
  using k unfolding well_kinded_def
  by (cases evt rule: dispatch_cases)
    (auto simp: dispatch_simps dispatch_other [OF refl] event_items_simps named_kind step_ok_def [of _ _ "(st, REvents events)"] r
      intro: text_delta_ok [OF r] reasoning_ok [OF r] item_added_ok [OF r] item_done_ok [OF r] arguments_ok [OF r c]
        completed_ok [OF r] ending_ok [OF r] listed_kinded dest: item_items_kinded)

lemma reads_begin:
  assumes "begin_responses evt st = (st', evs)"
  shows "reached kind (rs_linked kind st) st' (evs @ [ProviderRaw evt])"
proof -
  have started: "rs_segment_started st'"
    using assms by (auto simp: begin_responses_def Let_def split: if_splits)
  have "reads (\<lambda>_. False) (rs_linked kind st) evs (rs_linked kind st')"
  proof (cases "rs_segment_started st")
    case True
    then show ?thesis using assms by (auto simp: begin_responses_def intro: reads_Nil)
  next
    case False
    then have st': "evs = [SegmentStart (rs_segment_id st')]" "rs_segment_closed st' = rs_segment_closed st"
        "rs_item_positions st' = rs_item_positions st" "rs_tool_calls st' = rs_tool_calls st"
      using assms by (auto simp: begin_responses_def Let_def)
    have "rs_linked kind st' (a\<lparr>att_materializer := materializer_new (rs_segment_id st')\<rparr>)" if a: "rs_linked kind st a" for a
    proof -
      have "accumulated_text a = []" using a False by (auto simp: rs_linked_def shown_def text_at_def)
      then show ?thesis
        using a False started st'
        by (auto simp: rs_linked_def stamped_def shown_def text_at_def materializer_new_def segment_new_def
            mat_ok_def items_ok_def positions_agree_def)
    qed
    then show ?thesis unfolding st'(1) reads_def by auto
  qed
  moreover have "reads (\<lambda>_. False) (rs_linked kind st') [ProviderRaw evt] (rs_linked kind st')"
    by (intro reads_tool_events(1) reads_Nil)
  ultimately show ?thesis using started reads_append unfolding reached_def by blast
qed

lemma event_ok:
  assumes "well_kinded kind evt" "rs_linked kind st a"
  shows "step_ok kind (rs_linked kind st) (process_responses_event print iter evt st)"
proof -
  obtain s1 e1 where b: "begin_responses evt st = (s1, e1)" by force
  then have "rs_tool_calls s1 = rs_tool_calls st" by (auto simp: begin_responses_def Let_def split: if_splits)
  then have "\<And>c. c \<in> set (rs_tool_calls s1) \<Longrightarrow> kind (fst (snd c)) = KCall"
    using assms(2) by (auto simp: rs_linked_def)
  then show ?thesis
    using dispatch_ok [OF reads_begin [OF b] assms(1)] b by (auto simp: process_responses_event_def)
qed

section \<open>The stream\<close>

definition rs_settled :: "attempt \<Rightarrow> bool" where
  "rs_settled a \<longleftrightarrow> received_done a \<and> fair a
     \<and> (let s = segment (att_materializer a) in outcome s = Completed \<or> segment_id s = None)"

lemma finalize_reads:
  assumes "finalize_responses_stream st = (st', evs)"
  shows "reads fair (rs_linked kind st) evs rs_settled"
    and "rs_segment_closed st \<Longrightarrow> reads fair rs_completed evs rs_settled"
proof -
  obtain ks us e2 where evs: "evs = map ToolCallComplete ks @ e2 @ [Done us]"
      "e2 = (if rs_segment_started st \<and> \<not> rs_segment_closed st then
                [SegmentClose (rs_segment_id st) TransportError (Some (rs_tokens st)),
                 Error ''provider stream closed before response.completed''] else [])"
    using assms by (auto simp: finalize_responses_stream_def Let_def split: if_splits)
  have unstarted: "reads fair (rs_linked kind st) [Done us] rs_settled" if "\<not> rs_segment_started st"
    using that by (auto simp: reads_def rs_linked_def rs_settled_def fair_def stamped_def)
  have closed: "reads fair (rs_linked kind st) [Done us] rs_settled" if "rs_segment_closed st"
    using that by (auto simp: reads_def rs_linked_def)
  have "reads fair (rs_linked kind st) (e2 @ [Done us]) rs_settled"
  proof (cases "rs_segment_started st \<and> \<not> rs_segment_closed st")
    case True
    then have "reads fair (rs_linked kind st) e2 (\<lambda>_. False)" unfolding evs(2) by (auto intro: reads_close_error)
    moreover have "reads fair (\<lambda>_. False) [Done us] rs_settled" by (simp add: reads_def)
    ultimately show ?thesis by (rule reads_append)
  next
    case False
    then show ?thesis using unstarted closed by (auto simp: evs(2))
  qed
  then show "reads fair (rs_linked kind st) evs rs_settled" unfolding evs(1) by (rule reads_completions)
  have "reads fair rs_completed [Done us] rs_settled"
    by (auto simp: reads_def rs_completed_def rs_settled_def fair_def Let_def)
  then have "reads fair rs_completed (map ToolCallComplete ks @ [Done us]) rs_settled"
  proof (induction ks)
    case (Cons k ks)
    have "reads fair rs_completed (ToolCallComplete k # map ToolCallComplete ks @ [Done us]) rs_settled"
      by (rule reads_Cons [OF _ Cons.IH [OF Cons.prems]]) simp
    then show ?case by simp
  qed simp
  then show "reads fair rs_completed evs rs_settled" if "rs_segment_closed st" using that by (simp add: evs)
qed

lemma abort_reads:
  assumes "wire_abort (responses_wire parse print iter) e st = (st', evs)"
  shows "reads fair (rs_linked kind st) evs Q"
proof (cases "\<not> rs_segment_started st \<or> rs_segment_closed st")
  case True
  then have "evs = [Error e]" using assms by (auto simp: wire_abort_def responses_wire_def rs_close_on_transport_error_def)
  then show ?thesis using rs_linked_fair by (auto intro!: reads_Error)
next
  case False
  then have "evs = [SegmentClose (rs_segment_id st) TransportError (Some (rs_tokens st)), Error e]"
    using assms by (auto simp: wire_abort_def responses_wire_def rs_close_on_transport_error_def)
  then show ?thesis using False reads_close_error by simp
qed

definition well_kinded_parser :: "(provider_item_id \<Rightarrow> item_kind) \<Rightarrow> (string \<Rightarrow> string + json) \<Rightarrow> bool" where
  "well_kinded_parser kind parse \<longleftrightarrow> (\<forall>d v. parse d = Inr v \<longrightarrow> well_kinded kind v)"

definition rs_going :: "(provider_item_id \<Rightarrow> item_kind) \<Rightarrow> responses_stream_state \<Rightarrow> responses_stream_state \<Rightarrow> stream_event list \<Rightarrow> bool" where
  "rs_going kind s s' x \<longleftrightarrow> reads fair (rs_linked kind s) x (rs_linked kind s')"

definition rs_ended :: "(provider_item_id \<Rightarrow> item_kind) \<Rightarrow> responses_stream_state \<Rightarrow> responses_stream_state \<Rightarrow> stream_event list \<Rightarrow> bool" where
  "rs_ended kind s s' x \<longleftrightarrow> reads fair (rs_linked kind s) x rs_settled"

lemma reads_vacuous: "(\<And>a. \<not> P a) \<Longrightarrow> reads E P evs Q"
  by (simp add: reads_def)

lemma line_ok:
  assumes "well_kinded_parser kind parse" "process_responses_sse_line parse print iter d st = (st', r)" "d \<noteq> ''[DONE]''"
    "rs_linked kind st a"
  shows "step_ok kind (rs_linked kind st) (st', r)"
proof (cases "parse d")
  case (Inl e)
  have "reads fair (rs_linked kind st) [] (rs_linked kind st)" by (rule reads_Nil)
  from failing_ok [OF this] show ?thesis using Inl assms(2,3) by (metis process_responses_sse_line_def sum.case(1))
next
  case (Inr v)
  then have "process_responses_event print iter v st = (st', r)" using assms(2,3) by (simp add: process_responses_sse_line_def)
  then show ?thesis
    using event_ok [OF _ assms(4), of v] assms(1) Inr unfolding well_kinded_parser_def by metis
qed

lemma responses_line_reads:
  assumes "well_kinded_parser kind parse" "process_responses_sse_line parse print iter d st = (st', r)"
  shows "case r of REvents evs \<Rightarrow> reads fair (rs_linked kind st) evs (rs_linked kind st')
    | RCompleted evs \<Rightarrow> (\<forall>st'' y. finalize_responses_stream st' = (st'', y) \<longrightarrow> reads fair (rs_linked kind st) (evs @ y) rs_settled)
    | RFailed evs \<Rightarrow> reads fair (rs_linked kind st) evs rs_settled"
proof (cases "d = ''[DONE]''")
  case True
  then show ?thesis using assms(2) finalize_reads(1) by (auto simp: process_responses_sse_line_def)
next
  case False
  show ?thesis
  proof (cases "\<exists>a. rs_linked kind st a")
    case True
    then have ok: "step_ok kind (rs_linked kind st) (st', r)" using line_ok [OF assms False] by blast
    show ?thesis
    proof (cases r)
      case (RCompleted evs)
      have "rs_segment_closed st'" "reads fair (rs_linked kind st) evs rs_completed"
        using ok RCompleted by (simp_all add: step_ok_def reads_no_error)
      then show ?thesis using RCompleted reads_append finalize_reads(2) by fastforce
    next
      case (RFailed evs)
      have "reads fair (rs_linked kind st) evs (\<lambda>_. False)" using ok RFailed by (simp add: step_ok_def)
      then show ?thesis using RFailed reads_weaken by fastforce
    qed (use ok in \<open>simp add: step_ok_def reached_def reads_no_error\<close>)
  qed (auto intro: reads_vacuous split: responses_event_result.splits)
qed

interpretation responses_serves: sse_session "responses_wire parse print iter"
  "\<lambda>s s' x. well_kinded_parser kind parse \<longrightarrow> rs_going kind s s' x"
  "\<lambda>s s' x. well_kinded_parser kind parse \<longrightarrow> rs_ended kind s s' x"
  for parse print iter kind
proof (unfold_locales, goal_cases)
  case 1
  then show ?case by (simp add: rs_going_def reads_Nil)
next
  case 2
  then show ?case unfolding rs_going_def using reads_append by blast
next
  case 3
  then show ?case unfolding rs_going_def rs_ended_def using reads_append by blast
next
  case (4 d s s' x)
  then show ?case
    by (auto simp: responses_wire_def rs_going_def split: prod.splits responses_event_result.splits dest: responses_line_reads)
next
  case (5 d s s' x s'' y)
  then show ?case
    by (auto simp: responses_wire_def rs_ended_def split: prod.splits responses_event_result.splits dest: responses_line_reads)
next
  case (6 d s s' x)
  then show ?case
    by (auto simp: responses_wire_def rs_ended_def split: prod.splits responses_event_result.splits dest: responses_line_reads)
next
  case 7
  then show ?case using finalize_reads(1) by (simp add: responses_wire_def rs_ended_def)
next
  case 8
  then show ?case using abort_reads by (auto simp: rs_ended_def)
qed

lemma rs_linked_start: "rs_linked kind (responses_default sid) (attempt_start raws)"
  by (simp add: rs_linked_def responses_default_def attempt_start_def stamped_def shown_def text_at_def
      materializer_pending_def segment_pending_def mat_ok_def items_ok_def positions_agree_def)

section \<open>Properties\<close>


definition demo_event :: "string \<Rightarrow> string + json" where
  "demo_event d =
     (if d = ''t'' then Inr (JObject [(''type'', JString ''response.output_text.delta''), (''item_id'', JString ''msg''),
        (''delta'', JString ''hi'')])
      else if d = ''c'' then Inr (JObject [(''type'', JString ''response.completed''), (''response'', JObject [(''output'', JArray
        [JObject [(''type'', JString ''function_call''), (''call_id'', JString ''call_1''), (''name'', JString ''ls''),
           (''arguments'', JString ''{}'')]])])])
      else Inl ''expected value'')"

definition demo_kind :: "provider_item_id \<Rightarrow> item_kind" where
  "demo_kind i = (if i = ''call_1'' then KCall else KMessage)"

lemma demo_event_kinded: "demo_event d = Inr v \<Longrightarrow> (i, k) \<in> set (event_items v) \<Longrightarrow> demo_kind i = k"
  by (auto simp: demo_event_def demo_kind_def event_items_def listed_calls_def named_def json_index_def is_function_call_def
      split: if_splits)


section \<open>The arguments of a call\<close>

text \<open>The runner decodes the text the materialized call has.\<close>

definition agrees :: "attempt \<Rightarrow> string \<Rightarrow> bool" where
  "agrees a c \<longleftrightarrow> (\<exists>x i n args. find_item c (items (segment (att_materializer a))) = Some x
     \<and> item_payload x = FunctionCall i n args \<and> final_tool_call_args a c = Some args)"

definition agreed :: "(provider_item_id \<Rightarrow> item_kind) \<Rightarrow> responses_stream_state \<Rightarrow> string set \<Rightarrow> attempt \<Rightarrow> bool" where
  "agreed kind st C a \<longleftrightarrow> rs_linked kind st a \<and> (\<forall>c \<in> C. agrees a c)"

lemma reads_call_update:
  assumes upd: "responses_update st i pay = (st', ev)" and kind: "kind i = KCall" and st: "rs_segment_started st"
    and pay: "pay = FunctionCallStart n \<and> C' = C \<or> pay = FunctionCallDone args \<and> C' = insert i C"
  shows "reads E (agreed kind st C) [ev] (agreed kind st' C')"
proof (rule reads_Cons [OF _ reads_Nil])
  fix a assume a: "stream_error a = None" "agreed kind st C a"
  have link: "rs_linked kind st a" using a by (simp add: agreed_def)
  have k: "update_kind pay = kind i" "\<And>t. pay \<noteq> MessageDone t" using kind pay by auto
  show "\<exists>a'. consume_event a ev = Inr a' \<and> stream_error a' = None \<and> agreed kind st' C' a'"
  proof (rule rs_linked_update [where kind = kind and i = i, OF upd k link st], goal_cases)
    case (1 m u)
    let ?a = "a\<lparr>att_materializer := m, final_tool_call_args :=
        (case pay of FunctionCallDone args \<Rightarrow> (final_tool_call_args a)(i \<mapsto> args) | _ \<Rightarrow> final_tool_call_args a)\<rparr>"
    have "mat_ok (att_materializer a)" using link by (simp add: rs_linked_def stamped_def)
    note find = apply_update_ok(1) [OF 1(4) this]
    have kinds: "payload_kind (item_payload x) = KCall" if "find_item i (items (segment (att_materializer a))) = Some x" for x
      using link kind find_SomeD [OF that] by (auto simp: rs_linked_def stamped_def)
    have "agrees ?a c" if c: "c \<in> C'" for c
    proof (cases "c = i")
      case True
      show ?thesis
      proof (cases "find_item i (items (segment (att_materializer a)))")
        case None
        then have "i \<notin> C" using a(2) by (auto simp: agreed_def agrees_def)
        then show ?thesis using c True pay None by (auto simp: agrees_def find 1(5,6) item_step_def create_item_from_update_def)
      next
        case (Some x)
        then obtain i' n' args' where x: "item_payload x = FunctionCall i' n' args'" using kinds [of x] by (cases "item_payload x") auto
        have "final_tool_call_args a i = Some args'" if "i \<in> C" using a(2) that Some x by (auto simp: agreed_def agrees_def)
        then show ?thesis using c True pay Some x by (auto simp: agrees_def find 1(5,6) item_step_def)
      qed
    next
      case False
      then have "agrees a c" using a(2) c pay by (auto simp: agreed_def)
      then show ?thesis using False pay by (auto simp: agrees_def find 1(5))
    qed
    moreover have "rs_linked kind st' ?a" using 1(2) pay by (auto simp: rs_linked_def)
    ultimately show ?thesis using 1(1) a(1) by (auto simp: agreed_def)
  qed
qed

lemma reads_agreed_silent:
  assumes "\<And>a. \<exists>a'. consume_event a ev = Inr a' \<and> stream_error a' = stream_error a \<and> att_materializer a' = att_materializer a
      \<and> accumulated_text a' = accumulated_text a \<and> final_tool_call_args a' = final_tool_call_args a"
  shows "reads E (agreed kind st C) [ev] (agreed kind st C)"
proof (rule reads_Cons [OF _ reads_Nil])
  fix a assume a: "stream_error a = None" "agreed kind st C a"
  obtain a' where "consume_event a ev = Inr a'" "stream_error a' = stream_error a" "att_materializer a' = att_materializer a"
      "accumulated_text a' = accumulated_text a" "final_tool_call_args a' = final_tool_call_args a"
    using assms by blast
  then show "\<exists>a'. consume_event a ev = Inr a' \<and> stream_error a' = None \<and> agreed kind st C a'"
    using a by (auto simp: agreed_def rs_linked_def agrees_def)
qed

lemma agreed_open:
  assumes r: "reads E P events (agreed kind st C)" and st: "rs_segment_started st" and k: "kind i = KCall"
    and op: "open_function_call_slot st events i n slot = (st', events', j)"
  shows "reads E P events' (agreed kind st' C) \<and> rs_segment_started st'"
proof -
  define j' where "j' = (case slot of Some n \<Rightarrow> n | None \<Rightarrow> current_tool_index st)"
  define s1 where "s1 = st\<lparr>current_tool_index := max (current_tool_index st) ((j' + 1) mod 2 ^ 64),
                   rs_tool_calls := AList.update j' (i, n) (rs_tool_calls st)\<rparr>"
  obtain s2 ev where s2: "responses_update s1 i (FunctionCallStart n) = (s2, ev)" by force
  have eq: "st' = s2" "events' = (events @ [ev]) @ [ToolCallStart i n j']"
    using op s2 by (auto simp: open_function_call_slot_def j'_def s1_def Let_def)
  have started: "rs_segment_started s1" using st by (simp add: s1_def)
  have "reads E P events (agreed kind s1 C)"
    using r k set_alist_update [of j' "(i, n)" "rs_tool_calls st"]
    by (rule_tac reads_weaken [OF r]) (auto simp: agreed_def rs_linked_def s1_def)
  moreover have "reads E (agreed kind s1 C) [ev] (agreed kind s2 C)"
    by (rule reads_call_update [where kind = kind and i = i, OF s2 k started]) simp
  ultimately have "reads E P (events @ [ev]) (agreed kind s2 C)" by (rule reads_append)
  then have "reads E P ((events @ [ev]) @ [ToolCallStart i n j']) (agreed kind s2 C)"
    by (rule reads_append) (rule reads_agreed_silent, simp)
  then show ?thesis using update_started [OF s2] started by (simp add: eq)
qed

lemma agreed_announce:
  assumes r: "reads E P events (agreed kind st C)" and st: "rs_segment_started st" and k: "kind c = KCall"
    and an: "announce_function_call_arguments st events j c args = (st', events')"
  shows "reads E P events' (agreed kind st' (insert c C)) \<and> rs_segment_started st'"
proof -
  obtain s1 ev where s1: "responses_update st c (FunctionCallDone args) = (s1, ev)" by force
  have "reads E (agreed kind st C) [ev] (agreed kind s1 (insert c C))"
    by (rule reads_call_update [where kind = kind and i = c, OF s1 k st]) simp
  then have "reads E P (events @ [ev]) (agreed kind s1 (insert c C))" by (rule reads_append [OF r])
  then have *: "reads E P (events @ [ev]) (agreed kind (s1\<lparr>completed_tool_calls := D\<rparr>) (insert c C))" for D
    by (rule reads_weaken) (auto simp: agreed_def rs_linked_def)
  have "reads E P ((events @ [ev]) @ [ToolCallComplete j]) (agreed kind (s1\<lparr>completed_tool_calls := D\<rparr>) (insert c C))" for D
    by (rule reads_append [OF *]) (rule reads_agreed_silent, simp)
  then show ?thesis
    using * an s1 st update_started [OF s1] by (auto simp: announce_function_call_arguments_def Let_def split: if_splits)
qed

definition call_ids :: "json list \<Rightarrow> string set" where
  "call_ids xs = {c. \<exists>item \<in> set xs. as_str (json_index item ''call_id'') = Some c}"

lemma agreed_items:
  assumes "reads E P events (agreed kind st C)" "rs_segment_started st" "calls_kinded kind xs"
    and "finish_function_call_items iter st events xs = Inr (st', events')"
  shows "reads E P events' (agreed kind st' (C \<union> call_ids xs)) \<and> rs_segment_started st'"
  using assms
proof (induction xs arbitrary: st events C)
  case Nil
  then show ?case by (simp add: call_ids_def)
next
  case (Cons x xs)
  obtain s1 e1 where s1: "finish_function_call_item iter st events x = Inr (s1, e1)"
      "finish_function_call_items iter s1 e1 xs = Inr (st', events')"
    using Cons.prems(4) by (auto split: sum.splits prod.splits)
  have k: "kind c = KCall" if "as_str (json_index x ''call_id'') = Some c" for c
    using Cons.prems(3) that by (simp add: calls_kinded_def)
  obtain c where c: "as_str (json_index x ''call_id'') = Some c" "reads E P e1 (agreed kind s1 (insert c C))" "rs_segment_started s1"
    using s1(1)
  proof (cases rule: finish_itemE)
    case (known c args j)
    then show thesis using that agreed_announce [OF Cons.prems(1,2) k] by blast
  next
    case (new c args j n s2 e2)
    have "reads E P e2 (agreed kind s2 C)" "rs_segment_started s2"
      using agreed_open [OF Cons.prems(1,2) k [OF new(1)] new(2)] by simp_all
    from agreed_announce [OF this k [OF new(1)] new(3)] show thesis using that new(1) by blast
  qed
  have "call_ids (x # xs) = insert c (call_ids xs)" using c(1) by (auto simp: call_ids_def)
  then show ?case
    using Cons.IH [OF c(2,3) _ s1(2)] Cons.prems(3) by (simp add: calls_kinded_def)
qed

text \<open>The events of a response up to its completion.\<close>

fun responses_prefix :: "(json \<Rightarrow> string) \<Rightarrow> slot_order \<Rightarrow> json list \<Rightarrow> responses_stream_state
    \<Rightarrow> (responses_stream_state \<times> stream_event list) option" where
  "responses_prefix print iter [] st = Some (st, [])"
| "responses_prefix print iter (evt # evts) st =
     (case process_responses_event print iter evt st of
        (st1, REvents evs) \<Rightarrow> map_option (\<lambda>(st2, evs'). (st2, evs @ evs')) (responses_prefix print iter evts st1)
      | _ \<Rightarrow> None)"

lemma prefix_reads:
  assumes "\<forall>v \<in> set evts. well_kinded kind v" "responses_prefix print iter evts st = Some (st', evs)" "rs_linked kind st a"
  shows "reads (\<lambda>_. False) (rs_linked kind st) evs (rs_linked kind st')"
  using assms
proof (induction evts arbitrary: st evs a)
  case Nil
  then show ?case by (simp add: reads_Nil)
next
  case (Cons v evts)
  obtain s1 e1 e2 where s1: "process_responses_event print iter v st = (s1, REvents e1)"
      "responses_prefix print iter evts s1 = Some (st', e2)" "evs = e1 @ e2"
    using Cons.prems(2) by (auto split: prod.splits responses_event_result.splits)
  have one: "reads (\<lambda>_. False) (rs_linked kind st) e1 (rs_linked kind s1)"
    using event_ok [of kind v st a print iter] Cons.prems s1(1) by (simp add: step_ok_def reached_def)
  show ?case
  proof (cases "\<exists>b. rs_linked kind s1 b")
    case True
    then show ?thesis using reads_append [OF one] Cons.IH Cons.prems(1) s1 by fastforce
  next
    case False
    then have "reads (\<lambda>_. False) (rs_linked kind s1) e2 (rs_linked kind st')" by (intro reads_vacuous) simp
    then show ?thesis using reads_append [OF one] s1(3) by simp
  qed
qed


definition demo_opened :: json where
  "demo_opened = JObject [(''type'', JString ''response.output_item.added''), (''item'', JObject
     [(''type'', JString ''function_call''), (''call_id'', JString ''call_1''), (''name'', JString ''ls'')])]"

definition demo_partial :: json where
  "demo_partial = JObject [(''type'', JString ''response.function_call_arguments.delta''), (''output_index'', JNumber (PosInt 0)),
     (''delta'', JString ''{'')]"

definition demo_listed :: json where
  "demo_listed = JObject [(''type'', JString ''function_call''), (''call_id'', JString ''call_1''), (''name'', JString ''ls''),
     (''arguments'', JString ''{}'')]"

definition demo_completed :: json where
  "demo_completed = JObject [(''type'', JString ''response.completed''), (''response'', JObject [(''output'', JArray [demo_listed])])]"

lemma demo_run:
  "\<exists>st before. responses_prefix (\<lambda>_. []) rev [demo_opened, demo_partial] (responses_default ''seg'') = Some (st, before)
     \<and> (\<exists>st' after. process_responses_event (\<lambda>_. []) rev demo_completed st = (st', RCompleted after))"
  by (simp add: demo_opened_def demo_partial_def demo_completed_def demo_listed_def process_responses_event_def begin_responses_def
      responses_default_def dispatch_responses_def json_index_def on_item_added_def on_arguments_delta_def on_completed_def
      open_function_call_slot_def responses_tool_slot_def nonempty_str_def responses_update_def position_for_def allocator_default_def
      listed_calls_def is_function_call_def finish_function_call_item_def announce_function_call_arguments_def)


end
