(* ===== verification/Responses_Balance.thy ===== *)
theory Responses_Balance
  imports Segment_Balance Responses_Link
begin

text \<open>
  Announcing and closing of the segment of a Responses stream, counted like those of the
  Chat Completions stream.
\<close>

definition rs_balance :: "responses_stream_state \<Rightarrow> stream_event list \<Rightarrow> responses_step \<Rightarrow> bool" where
  "rs_balance st events r = (case r of
     (st', REvents evs) \<Rightarrow> rs_segment_started st' = rs_segment_started st \<and> rs_segment_closed st' = rs_segment_closed st
        \<and> announced evs = announced events \<and> closings evs = closings events
   | (st', RCompleted evs) \<Rightarrow> rs_segment_started st' = rs_segment_started st \<and> rs_segment_closed st'
        \<and> announced evs = announced events \<and> closings evs = closings events + 1
   | (st', RFailed evs) \<Rightarrow> announced evs = announced events
        \<and> closings evs = closings events + of_bool (rs_segment_started st \<and> \<not> rs_segment_closed st))"

lemma update_balance:
  "responses_update st i pay = (st', ev) \<Longrightarrow> rs_segment_started st' = rs_segment_started st
     \<and> rs_segment_closed st' = rs_segment_closed st \<and> \<not> is_start ev \<and> \<not> is_close ev"
  by (auto simp: responses_update_def Let_def split: prod.splits)

lemma protocol_balance: "rs_balance st events (responses_protocol_error st events d)"
  by (auto simp: rs_balance_def responses_protocol_error_def)

lemma slot_balance:
  "open_function_call_slot st events i n slot = (st', events', k) \<Longrightarrow> rs_segment_started st' = rs_segment_started st
     \<and> rs_segment_closed st' = rs_segment_closed st \<and> announced events' = announced events \<and> closings events' = closings events"
  by (auto simp: open_function_call_slot_def Let_def split: prod.splits dest!: update_balance)

lemma announce_balance:
  "announce_function_call_arguments st events k c args = (st', events') \<Longrightarrow> rs_segment_started st' = rs_segment_started st
     \<and> rs_segment_closed st' = rs_segment_closed st \<and> announced events' = announced events \<and> closings events' = closings events"
  by (auto simp: announce_function_call_arguments_def Let_def split: prod.splits if_splits dest!: update_balance)

lemma finish_item_balance:
  assumes "finish_function_call_item iter st events item = Inr (st', events')"
  shows "rs_segment_started st' = rs_segment_started st
     \<and> rs_segment_closed st' = rs_segment_closed st \<and> announced events' = announced events \<and> closings events' = closings events"
  using assms by (cases rule: finish_itemE) (auto dest!: announce_balance slot_balance)

lemma finish_items_balance:
  "case finish_function_call_items iter st events xs of
     Inl (st', events', _) \<Rightarrow> rs_segment_started st' = rs_segment_started st
       \<and> rs_segment_closed st' = rs_segment_closed st \<and> announced events' = announced events \<and> closings events' = closings events
   | Inr (st', events') \<Rightarrow> rs_segment_started st' = rs_segment_started st
       \<and> rs_segment_closed st' = rs_segment_closed st \<and> announced events' = announced events \<and> closings events' = closings events"
proof (induction xs arbitrary: st events)
  case (Cons x xs)
  show ?case
  proof (cases "finish_function_call_item iter st events x")
    case (Inr r)
    obtain s e where "r = (s, e)" by force
    then show ?thesis using Cons.IH [of s e] finish_item_balance Inr by (auto split: sum.splits)
  qed simp
qed simp

lemma summary_balance:
  "summary_parts_from i k parts st = (st', evs) \<Longrightarrow> rs_segment_started st' = rs_segment_started st
     \<and> rs_segment_closed st' = rs_segment_closed st \<and> announced evs = 0 \<and> closings evs = 0"
proof (induction parts arbitrary: k st evs)
  case (Cons part parts)
  show ?case
    using Cons.prems Cons.IH [of "k + 1" st]
    by (auto simp: Let_def split: option.splits if_splits prod.splits dest!: update_balance dest: Cons.IH)
qed simp

lemma completed_balance: "rs_balance st events (on_completed iter evt st events)"
proof (cases "finish_function_call_items iter st events (listed_calls evt)")
  case (Inl x)
  obtain s e d where x: "x = (s, e, d)" by (cases x) auto
  then show ?thesis
    using finish_items_balance [where iter = iter and st = st and events = events and xs = "listed_calls evt"] Inl protocol_balance [of s e d]
    by (auto simp: on_completed_def rs_balance_def responses_protocol_error_def split: if_splits)
next
  case (Inr x)
  then show ?thesis
    using finish_items_balance [where iter = iter and st = st and events = events and xs = "listed_calls evt"]
    by (auto simp: on_completed_def rs_balance_def Let_def split: prod.splits option.splits)
qed

lemma branch_balance:
  "rs_balance st events (on_text_delta evt st events)" "rs_balance st events (on_reasoning_delta evt st events)"
  "rs_balance st events (on_reasoning_part_done evt st events)" "rs_balance st events (on_item_added evt st events)"
  "rs_balance st events (on_arguments_delta evt st events)" "rs_balance st events (on_arguments_done evt st events)"
  "rs_balance st events (on_item_done iter evt st events)"
proof -
  note b = protocol_balance and s = rs_balance_def [of _ _ "(_, REvents _)"]
  show "rs_balance st events (on_text_delta evt st events)"
    by (auto simp: on_text_delta_def b s Let_def split: option.splits prod.splits dest!: update_balance)
  show "rs_balance st events (on_reasoning_delta evt st events)"
    by (auto simp: on_reasoning_delta_def s Let_def split: option.splits prod.splits dest!: update_balance)
  show "rs_balance st events (on_reasoning_part_done evt st events)"
    by (auto simp: on_reasoning_part_done_def s Let_def split: option.splits prod.splits dest!: update_balance)
  show "rs_balance st events (on_item_added evt st events)"
    by (auto simp: on_item_added_def b s Let_def split: option.splits prod.splits dest!: slot_balance)
  show "rs_balance st events (on_arguments_delta evt st events)"
    by (auto simp: on_arguments_delta_def b s Let_def split: option.splits prod.splits dest!: update_balance)
  show "rs_balance st events (on_arguments_done evt st events)"
    by (auto simp: on_arguments_done_def b s Let_def split: option.splits prod.splits dest!: announce_balance)
  show "rs_balance st events (on_item_done iter evt st events)"
    by (auto simp: on_item_done_def reasoning_summary_events_def b s Let_def
        split: option.splits prod.splits sum.splits dest!: update_balance summary_balance finish_item_balance)
qed

lemma dispatch_balance:
  assumes "rs_segment_started st" "\<not> rs_segment_closed st"
  shows "rs_balance st events (dispatch_responses print iter evt st events)"
proof -
  have "rs_balance st events (on_failed print evt st events)" "rs_balance st events (on_incomplete evt st events)"
    using assms by (simp_all add: on_failed_def on_incomplete_def rs_balance_def)
  then show ?thesis
    by (rule_tac dispatch_cases [of evt])
      (auto simp: dispatch_simps dispatch_other [OF refl] branch_balance completed_balance
        rs_balance_def [of _ _ "(st, REvents events)"])
qed

definition rs_bgoing :: "responses_stream_state \<Rightarrow> responses_stream_state \<Rightarrow> stream_event list \<Rightarrow> bool" where
  "rs_bgoing s s' x \<longleftrightarrow> (\<not> rs_segment_closed s \<longrightarrow> \<not> rs_segment_closed s' \<and> closings x = 0
     \<and> of_bool (rs_segment_started s') = of_bool (rs_segment_started s) + announced x)"

definition rs_bended :: "responses_stream_state \<Rightarrow> responses_stream_state \<Rightarrow> stream_event list \<Rightarrow> bool" where
  "rs_bended s s' x \<longleftrightarrow> (\<not> rs_segment_closed s \<longrightarrow> closings x = of_bool (rs_segment_started s) + announced x
     \<and> closings x \<le> 1)"

lemma completions_none [simp]: "announced (map ToolCallComplete ks) = 0" "closings (map ToolCallComplete ks) = 0"
  by (induction ks) auto

lemma finalize_balance:
  assumes "finalize_responses_stream st = (st', evs)"
  shows "announced evs = 0" "closings evs = of_bool (rs_segment_started st \<and> \<not> rs_segment_closed st)"
  using assms by (auto simp: finalize_responses_stream_def Let_def split: if_splits)

lemma event_balance:
  assumes "process_responses_event print iter evt st = (st', r)" "\<not> rs_segment_closed st"
  shows "case r of REvents x \<Rightarrow> rs_bgoing st st' x
    | RCompleted x \<Rightarrow> rs_segment_closed st' \<and> rs_bended st st' x | RFailed x \<Rightarrow> rs_bended st st' x"
proof -
  obtain s0 e0 where b: "begin_responses evt st = (s0, e0)" by force
  have s0: "rs_segment_started s0" "\<not> rs_segment_closed s0" "closings e0 = 0" "announced e0 = of_bool (\<not> rs_segment_started st)"
    using b assms(2) by (auto simp: begin_responses_def Let_def split: if_splits)
  have "rs_balance s0 (e0 @ [ProviderRaw evt]) (st', r)"
    using dispatch_balance [OF s0(1,2), of "e0 @ [ProviderRaw evt]" print iter evt] assms(1) b
    by (simp add: process_responses_event_def)
  then show ?thesis
    using s0 assms(2) by (auto simp: rs_balance_def rs_bgoing_def rs_bended_def split: responses_event_result.splits)
qed

lemma line_balance:
  assumes "process_responses_sse_line parse print iter d st = (st', r)"
  shows "case r of REvents x \<Rightarrow> rs_bgoing st st' x
    | RCompleted x \<Rightarrow> (\<forall>st'' y. finalize_responses_stream st' = (st'', y) \<longrightarrow> rs_bended st st'' (x @ y))
    | RFailed x \<Rightarrow> rs_bended st st' x"
proof (cases "rs_segment_closed st")
  case True
  then show ?thesis by (auto simp: rs_bgoing_def rs_bended_def split: responses_event_result.splits)
next
  case False
  show ?thesis
  proof (cases "d = ''[DONE]''")
    case True
    then show ?thesis using assms False finalize_balance
      by (auto simp: process_responses_sse_line_def rs_bended_def)
  next
    case nd: False
    show ?thesis
    proof (cases "parse d")
      case (Inl e)
      then show ?thesis using assms nd False
        by (auto simp: process_responses_sse_line_def responses_protocol_error_def rs_bended_def split: if_splits)
    next
      case (Inr v)
      then have "process_responses_event print iter v st = (st', r)" using assms nd by (simp add: process_responses_sse_line_def)
      from event_balance [OF this False] show ?thesis
        using finalize_balance by (auto simp: rs_bended_def split: responses_event_result.splits)
    qed
  qed
qed

interpretation responses_balance: sse_session "responses_wire parse print iter" rs_bgoing rs_bended
  for parse print iter
proof (unfold_locales, goal_cases)
  case 1
  then show ?case by (simp add: rs_bgoing_def)
next
  case 2
  then show ?case by (auto simp: rs_bgoing_def)
next
  case 3
  then show ?case by (auto simp: rs_bgoing_def rs_bended_def)
next
  case (4 d s s' x)
  then show ?case by (auto simp: responses_wire_def split: prod.splits responses_event_result.splits dest: line_balance)
next
  case (5 d s s' x s'' y)
  then show ?case by (auto simp: responses_wire_def split: prod.splits responses_event_result.splits dest: line_balance)
next
  case (6 d s s' x)
  then show ?case by (auto simp: responses_wire_def split: prod.splits responses_event_result.splits dest: line_balance)
next
  case (7 s s' x)
  then show ?case using finalize_balance by (auto simp: responses_wire_def rs_bended_def)
next
  case (8 e s s' x)
  then show ?case
    by (auto simp: wire_abort_def responses_wire_def rs_close_on_transport_error_def rs_bended_def split: if_splits)
qed

text \<open>
  C4. Over a whole Responses stream, for every byte sequence, parser and transport failure,
  the segment is announced at most once and closed exactly as often: by the terminal event of
  the provider, by a protocol error, by a cut transport or by the finalization, and never by
  two of them.
\<close>

theorem responses_segment_closed_once:
  "let evs = stream_responses_sse parse print iter decode sid chunks
   in announced evs \<le> 1 \<and> closings evs = announced evs"
proof -
  obtain st' evs where run: "sse_stream (responses_wire parse print iter) decode chunks (responses_default sid) [] = (st', evs)"
    by force
  show ?thesis
    using responses_balance.stream_outcome [OF run] run
    by (auto simp: rs_bended_def responses_default_def stream_responses_sse_def Let_def)
qed

end
