(* ===== verification/Hooks.thy ===== *)
theory Hooks
  imports Rust_Text
begin

text \<open>
  The hook registry of \<open>crates/common/src/hooks.rs\<close>: events and payloads, registration by
  priority, the per-handler circuit breaker, and the sequential, parallel and synchronous
  dispatch. Handlers are foreign code: a dispatch takes their answers and latencies, and the
  readings of the clock, as parameters. The statistics a handler shares between its
  subscriptions live in a store and are addressed by an index.
\<close>

section \<open>Events and payloads\<close>

datatype hook_event =
    BeforeAgentStart | BeforeLLMCall | AfterLLMCall | MessageReceived | MessageSending | MessageSent
  | BeforeToolCall | AfterToolCall | ToolResultPersist | SessionStart | SessionEnd
  | GatewayStart | GatewayStop | Command

fun event_name :: "hook_event \<Rightarrow> string" where
  "event_name BeforeAgentStart = ''BeforeAgentStart''"
| "event_name BeforeLLMCall = ''BeforeLLMCall''"
| "event_name AfterLLMCall = ''AfterLLMCall''"
| "event_name MessageReceived = ''MessageReceived''"
| "event_name MessageSending = ''MessageSending''"
| "event_name MessageSent = ''MessageSent''"
| "event_name BeforeToolCall = ''BeforeToolCall''"
| "event_name AfterToolCall = ''AfterToolCall''"
| "event_name ToolResultPersist = ''ToolResultPersist''"
| "event_name SessionStart = ''SessionStart''"
| "event_name SessionEnd = ''SessionEnd''"
| "event_name GatewayStart = ''GatewayStart''"
| "event_name GatewayStop = ''GatewayStop''"
| "event_name Command = ''Command''"

definition all_events :: "hook_event list" where
  "all_events = [BeforeAgentStart, BeforeLLMCall, AfterLLMCall, MessageReceived, MessageSending,
     MessageSent, BeforeToolCall, AfterToolCall, ToolResultPersist, SessionStart, SessionEnd,
     GatewayStart, GatewayStop, Command]"

text \<open>The match of \<open>from_str\<close>, whose arms are the names above.\<close>

definition event_from_str :: "string \<Rightarrow> string + hook_event" where
  "event_from_str v =
     (case map_of (map (\<lambda>e. (event_name e, e)) all_events) v of
        Some e \<Rightarrow> Inr e
      | None \<Rightarrow> Inl (''unknown hook event '' @ [CHR 0x27] @ v @ [CHR 0x27]))"

fun is_read_only :: "hook_event \<Rightarrow> bool" where
  "is_read_only AfterToolCall = True"
| "is_read_only MessageSent = True"
| "is_read_only SessionStart = True"
| "is_read_only SessionEnd = True"
| "is_read_only GatewayStart = True"
| "is_read_only GatewayStop = True"
| "is_read_only Command = True"
| "is_read_only _ = False"

record channel_binding =
  surface :: "string option"
  session_kind :: "string option"
  channel_type :: "string option"
  binding_account_id :: "string option"
  chat_id :: "string option"
  binding_chat_type :: "string option"
  binding_sender_id :: "string option"

definition binding_is_empty :: "channel_binding \<Rightarrow> bool" where
  "binding_is_empty b \<longleftrightarrow> surface b = None \<and> session_kind b = None \<and> channel_type b = None
     \<and> binding_account_id b = None \<and> chat_id b = None \<and> binding_chat_type b = None
     \<and> binding_sender_id b = None"

datatype hook_payload =
    BeforeAgentStartP string string \<comment> \<open>session key, model\<close>
  | BeforeLLMCallP string string string json nat nat \<comment> \<open>session key, provider, model, messages, tool count, iteration\<close>
  | AfterLLMCallP string string string "string option" "json list" u32 u32 nat
  | MessageReceivedP string string "string option" "channel_binding option"
  | MessageSendingP string string
  | MessageSentP string string
  | BeforeToolCallP string string json "channel_binding option"
  | AfterToolCallP string string bool "json option" "channel_binding option"
  | ToolResultPersistP string string json "channel_binding option"
  | SessionStartP string "channel_binding option"
  | SessionEndP string
  | GatewayStartP string
  | GatewayStopP
  | CommandP string string "string option"

fun payload_event :: "hook_payload \<Rightarrow> hook_event" where
  "payload_event (BeforeAgentStartP _ _) = BeforeAgentStart"
| "payload_event (BeforeLLMCallP _ _ _ _ _ _) = BeforeLLMCall"
| "payload_event (AfterLLMCallP _ _ _ _ _ _ _ _) = AfterLLMCall"
| "payload_event (MessageReceivedP _ _ _ _) = MessageReceived"
| "payload_event (MessageSendingP _ _) = MessageSending"
| "payload_event (MessageSentP _ _) = MessageSent"
| "payload_event (BeforeToolCallP _ _ _ _) = BeforeToolCall"
| "payload_event (AfterToolCallP _ _ _ _ _) = AfterToolCall"
| "payload_event (ToolResultPersistP _ _ _ _) = ToolResultPersist"
| "payload_event (SessionStartP _ _) = SessionStart"
| "payload_event (SessionEndP _) = SessionEnd"
| "payload_event (GatewayStartP _) = GatewayStart"
| "payload_event GatewayStopP = GatewayStop"
| "payload_event (CommandP _ _ _) = Command"

datatype hook_action = Continue | ModifyPayload json | Block string

section \<open>Statistics and the circuit breaker\<close>

text \<open>Times are microseconds; the counters are atomic 64-bit integers and wrap.\<close>

record hook_stats =
  call_count :: u64
  failure_count :: u64
  consecutive_failures :: u64
  total_latency_us :: u64
  disabled :: bool
  disabled_at :: "instant option"

definition stats_new :: hook_stats where
  "stats_new = \<lparr>call_count = 0, failure_count = 0, consecutive_failures = 0, total_latency_us = 0,
     disabled = False, disabled_at = None\<rparr>"

definition record_success :: "duration \<Rightarrow> hook_stats \<Rightarrow> hook_stats" where
  "record_success latency s = s\<lparr>call_count := call_count s + 1, consecutive_failures := 0,
     total_latency_us := total_latency_us s + of_nat latency\<rparr>"

definition record_failure :: "duration \<Rightarrow> hook_stats \<Rightarrow> hook_stats" where
  "record_failure latency s = s\<lparr>call_count := call_count s + 1, failure_count := failure_count s + 1,
     consecutive_failures := consecutive_failures s + 1,
     total_latency_us := total_latency_us s + of_nat latency\<rparr>"

definition avg_latency :: "hook_stats \<Rightarrow> duration" where
  "avg_latency s = (if call_count s = 0 then 0 else unat (total_latency_us s div call_count s))"

record handler_entry =
  handler_name :: string
  priority :: int
  entry_stats :: nat

record hook_registry =
  handlers :: "hook_event \<Rightarrow> handler_entry list"
  stats_store :: "nat \<Rightarrow> hook_stats"
  next_stats :: nat
  circuit_breaker_threshold :: u64
  circuit_breaker_cooldown :: duration
  dry_run :: bool

definition registry_new :: hook_registry where
  "registry_new = \<lparr>handlers = (\<lambda>_. []), stats_store = (\<lambda>_. stats_new), next_stats = 0,
     circuit_breaker_threshold = 3, circuit_breaker_cooldown = 60 * 1000000, dry_run = False\<rparr>"

definition with_circuit_breaker :: "u64 \<Rightarrow> duration \<Rightarrow> hook_registry \<Rightarrow> hook_registry" where
  "with_circuit_breaker threshold cooldown r =
     r\<lparr>circuit_breaker_threshold := threshold, circuit_breaker_cooldown := cooldown\<rparr>"

definition with_dry_run :: "bool \<Rightarrow> hook_registry \<Rightarrow> hook_registry" where
  "with_dry_run b r = r\<lparr>dry_run := b\<rparr>"

text \<open>\<open>register\<close>: one fresh set of statistics, pushed and re-sorted for each subscription.\<close>

definition subscribe :: "handler_entry \<Rightarrow> (hook_event \<Rightarrow> handler_entry list) \<Rightarrow> hook_event
    \<Rightarrow> (hook_event \<Rightarrow> handler_entry list)" where
  "subscribe entry hs ev = hs(ev := sort_key (\<lambda>h. - priority h) (hs ev @ [entry]))"

definition register :: "string \<times> int \<times> hook_event list \<Rightarrow> hook_registry \<Rightarrow> hook_registry" where
  "register h r = (case h of (name, prio, events) \<Rightarrow>
     (let entry = \<lparr>handler_name = name, priority = prio, entry_stats = next_stats r\<rparr>
      in r\<lparr>handlers := foldl (subscribe entry) (handlers r) events,
           stats_store := (stats_store r)(next_stats r := stats_new),
           next_stats := next_stats r + 1\<rparr>))"

definition has_handlers :: "hook_registry \<Rightarrow> hook_event \<Rightarrow> bool" where
  "has_handlers r ev \<longleftrightarrow> handlers r ev \<noteq> []"

text \<open>\<open>check_circuit_breaker\<close>: whether the handler is skipped, and its statistics after.\<close>

definition check_circuit_breaker :: "hook_registry \<Rightarrow> instant \<Rightarrow> hook_stats \<Rightarrow> bool \<times> hook_stats" where
  "check_circuit_breaker r now s =
     (if \<not> disabled s then
        if circuit_breaker_threshold r \<le> consecutive_failures s
        then (True, s\<lparr>disabled := True, disabled_at := Some now\<rparr>)
        else (False, s)
      else case disabled_at s of
          Some at \<Rightarrow> if circuit_breaker_cooldown r \<le> now - at
                     then (False, s\<lparr>disabled := False, consecutive_failures := 0\<rparr>)
                     else (True, s)
        | None \<Rightarrow> (True, s))"

section \<open>Dispatch\<close>

text \<open>
  What a handler call amounts to in one dispatch, for the entry at each position: the time
  the breaker is consulted, the answer (an error on the left) and the latency.
\<close>

record hook_call =
  call_time :: instant
  call_answer :: "string + hook_action"
  call_latency :: duration

definition record_answer :: "hook_call \<Rightarrow> hook_stats \<Rightarrow> hook_stats" where
  "record_answer c s = (case call_answer c of
     Inl _ \<Rightarrow> record_failure (call_latency c) s | Inr _ \<Rightarrow> record_success (call_latency c) s)"

fun sequential_loop :: "hook_registry \<Rightarrow> (handler_entry \<times> hook_call) list \<Rightarrow> (nat \<Rightarrow> hook_stats)
    \<Rightarrow> json option \<Rightarrow> hook_action \<times> (nat \<Rightarrow> hook_stats)" where
  "sequential_loop r [] store last_modify =
     (case last_modify of Some v \<Rightarrow> ModifyPayload v | None \<Rightarrow> Continue, store)"
| "sequential_loop r ((e, c) # rest) store last_modify =
     (let i = entry_stats e; (skip, s) = check_circuit_breaker r (call_time c) (store i);
          store1 = store(i := s); store2 = store(i := record_answer c s)
      in if skip then sequential_loop r rest store1 last_modify
         else case call_answer c of
             Inr Continue \<Rightarrow> sequential_loop r rest store2 last_modify
           | Inr (ModifyPayload v) \<Rightarrow>
               sequential_loop r rest store2 (if dry_run r then last_modify else Some v)
           | Inr (Block reason) \<Rightarrow>
               if dry_run r then sequential_loop r rest store2 last_modify
               else (Block reason, store2)
           | Inl _ \<Rightarrow> sequential_loop r rest store2 last_modify)"

text \<open>
  The parallel case consults every breaker first and starts the calls it lets through;
  \<open>order\<close> is the order in which they complete.
\<close>

fun breaker_pass :: "hook_registry \<Rightarrow> (handler_entry \<times> hook_call) list \<Rightarrow> (nat \<Rightarrow> hook_stats)
    \<Rightarrow> (handler_entry \<times> hook_call) list \<times> (nat \<Rightarrow> hook_stats)" where
  "breaker_pass r [] store = ([], store)"
| "breaker_pass r ((e, c) # rest) store =
     (let (skip, s) = check_circuit_breaker r (call_time c) (store (entry_stats e));
          (started, store') = breaker_pass r rest (store(entry_stats e := s))
      in (if skip then started else (e, c) # started, store'))"

definition dispatch_parallel :: "hook_registry \<Rightarrow> (handler_entry \<times> hook_call) list
    \<Rightarrow> ((handler_entry \<times> hook_call) list \<Rightarrow> (handler_entry \<times> hook_call) list)
    \<Rightarrow> (nat \<Rightarrow> hook_stats) \<Rightarrow> hook_action \<times> (nat \<Rightarrow> hook_stats)" where
  "dispatch_parallel r calls order store =
     (let (started, store') = breaker_pass r calls store
      in (Continue, foldl (\<lambda>st (e, c). st(entry_stats e := record_answer c (st (entry_stats e))))
            store' (order started)))"

text \<open>
  \<open>dispatch\<close> and \<open>dispatch_sync\<close>. \<open>calls\<close> gives the call of each position of the handler
  list; the synchronous variant runs the same loop on every event.
\<close>

definition dispatch :: "hook_registry \<Rightarrow> hook_payload \<Rightarrow> (nat \<Rightarrow> hook_call)
    \<Rightarrow> ((handler_entry \<times> hook_call) list \<Rightarrow> (handler_entry \<times> hook_call) list)
    \<Rightarrow> hook_action \<times> hook_registry" where
  "dispatch r payload calls order =
     (let ev = payload_event payload; hs = handlers r ev;
          jobs = map (\<lambda>k. (hs ! k, calls k)) [0..<length hs]
      in if hs = [] then (Continue, r)
         else case (if is_read_only ev then dispatch_parallel r jobs order (stats_store r)
                    else sequential_loop r jobs (stats_store r) None) of
             (action, store) \<Rightarrow> (action, r\<lparr>stats_store := store\<rparr>))"

definition dispatch_sync :: "hook_registry \<Rightarrow> hook_payload \<Rightarrow> (nat \<Rightarrow> hook_call)
    \<Rightarrow> hook_action \<times> hook_registry" where
  "dispatch_sync r payload calls =
     (let ev = payload_event payload; hs = handlers r ev;
          jobs = map (\<lambda>k. (hs ! k, calls k)) [0..<length hs]
      in if hs = [] then (Continue, r)
         else case sequential_loop r jobs (stats_store r) None of
             (action, store) \<Rightarrow> (action, r\<lparr>stats_store := store\<rparr>))"

section \<open>Names\<close>

text \<open>
  Event names round trip: the parser accepts exactly the names the printer writes, each
  for its own event, and every event has a name.
\<close>

lemma event_name_roundtrip:
  "event_from_str s = Inr e \<longleftrightarrow> s = event_name e"
proof -
  have all: "set all_events = UNIV"
    by (auto simp: all_events_def intro: hook_event.exhaust)
  have inj: "inj event_name"
    by (rule injI) (case_tac x; case_tac y; simp)
  have "map_of (map (\<lambda>e. (event_name e, e)) all_events) s = Some e \<longleftrightarrow> s = event_name e"
  proof
    assume "map_of (map (\<lambda>e. (event_name e, e)) all_events) s = Some e"
    then show "s = event_name e" by (auto dest: map_of_SomeD)
  next
    have dist: "distinct (map fst (map (\<lambda>e. (event_name e, e)) all_events))"
      using inj by (simp add: comp_def distinct_map all_events_def inj_def)
    assume "s = event_name e"
    then show "map_of (map (\<lambda>e. (event_name e, e)) all_events) s = Some e"
      using all by (intro map_of_is_SomeI [OF dist]) auto
  qed
  then show ?thesis by (auto simp: event_from_str_def split: option.splits)
qed

section \<open>The verdict of a dispatch\<close>

text \<open>The answers of the handlers consulted when none of them could end the loop.\<close>

fun answered :: "hook_registry \<Rightarrow> (handler_entry \<times> hook_call) list \<Rightarrow> (nat \<Rightarrow> hook_stats)
    \<Rightarrow> (string + hook_action) list" where
  "answered r [] store = []"
| "answered r ((e, c) # rest) store =
     (case check_circuit_breaker r (call_time c) (store (entry_stats e)) of
        (True, s) \<Rightarrow> answered r rest (store(entry_stats e := s))
      | (False, s) \<Rightarrow> call_answer c # answered r rest (store(entry_stats e := record_answer c s)))"

fun first_block :: "(string + hook_action) list \<Rightarrow> string option" where
  "first_block [] = None"
| "first_block (Inr (Block reason) # as) = Some reason"
| "first_block (_ # as) = first_block as"

fun modifications :: "(string + hook_action) list \<Rightarrow> json list" where
  "modifications [] = []"
| "modifications (Inr (ModifyPayload v) # as) = v # modifications as"
| "modifications (_ # as) = modifications as"

definition verdict :: "(string + hook_action) list \<Rightarrow> hook_action" where
  "verdict as =
     (case first_block as of
        Some reason \<Rightarrow> Block reason
      | None \<Rightarrow> if modifications as = [] then Continue else ModifyPayload (last (modifications as)))"

lemma sequential_loop_dry:
  "dry_run r \<Longrightarrow> fst (sequential_loop r jobs store last_modify) =
     (case last_modify of Some v \<Rightarrow> ModifyPayload v | None \<Rightarrow> Continue)"
proof (induction jobs arbitrary: store)
  case (Cons job rest)
  obtain e c where job: "job = (e, c)" by force
  obtain skip st where check: "check_circuit_breaker r (call_time c) (store (entry_stats e)) = (skip, st)" by force
  show ?case
    using Cons check job
    by (cases skip; cases "call_answer c"; cases "projr (call_answer c)") (simp_all add: Let_def)
qed simp

definition pending_modify :: "json option \<Rightarrow> (string + hook_action) list" where
  "pending_modify m = (case m of Some v \<Rightarrow> [Inr (ModifyPayload v)] | None \<Rightarrow> [])"

lemma verdict_pending [simp]:
  "verdict (pending_modify m) = (case m of Some v \<Rightarrow> ModifyPayload v | None \<Rightarrow> Continue)"
  "verdict (pending_modify m @ Inl e # as) = verdict (pending_modify m @ as)"
  "verdict (pending_modify m @ Inr Continue # as) = verdict (pending_modify m @ as)"
  "verdict (pending_modify m @ Inr (ModifyPayload v) # as) = verdict (pending_modify (Some v) @ as)"
  "verdict (pending_modify m @ Inr (Block reason) # as) = Block reason"
  by (simp_all add: verdict_def pending_modify_def split: option.split)

lemma sequential_loop_wet:
  "\<not> dry_run r \<Longrightarrow> fst (sequential_loop r jobs store last_modify) =
     verdict (pending_modify last_modify @ answered r jobs store)"
proof (induction jobs arbitrary: store last_modify)
  case (Cons job rest)
  obtain e c where job: "job = (e, c)" by force
  obtain skip st where check: "check_circuit_breaker r (call_time c) (store (entry_stats e)) = (skip, st)" by force
  show ?case
  proof (cases skip)
    case True
    then show ?thesis using Cons check job by (simp add: Let_def)
  next
    case False
    then show ?thesis
      using Cons check job
      by (cases "call_answer c"; cases "projr (call_answer c)") (simp_all add: Let_def)
  qed
qed simp

definition jobs_of :: "hook_registry \<Rightarrow> hook_payload \<Rightarrow> (nat \<Rightarrow> hook_call) \<Rightarrow> (handler_entry \<times> hook_call) list" where
  "jobs_of r payload calls =
     (let hs = handlers r (payload_event payload) in map (\<lambda>k. (hs ! k, calls k)) [0..<length hs])"


section \<open>Registration\<close>

lemma sort_push: "sort_key f (sort_key f xs @ [x]) = sort_key f (xs @ [x])"
proof (rule properties_for_sort_key)
  have *: "filter (\<lambda>x. f k = f x) (sort_key f ys) = filter (\<lambda>x. f k = f x) ys" for k ys
    using sort_key_stable [of f "f k" ys] by (simp add: eq_commute)
  show "filter (\<lambda>x. f k = f x) (sort_key f (xs @ [x])) = filter (\<lambda>x. f k = f x) (sort_key f xs @ [x])" for k
    by (simp only: * filter_append)
qed simp_all

text \<open>The subscriptions to one event in the order of registration, one per mention of the event.\<close>

fun subscriptions :: "hook_event \<Rightarrow> nat \<Rightarrow> (string \<times> int \<times> hook_event list) list \<Rightarrow> handler_entry list" where
  "subscriptions ev n [] = []"
| "subscriptions ev n ((name, prio, events) # hs) =
     replicate (count_list events ev) \<lparr>handler_name = name, priority = prio, entry_stats = n\<rparr>
     @ subscriptions ev (n + 1) hs"

abbreviation by_priority :: "handler_entry list \<Rightarrow> handler_entry list" where
  "by_priority \<equiv> sort_key (\<lambda>h. - priority h)"

lemma subscribe_all:
  "handlers_of ev = by_priority xs \<Longrightarrow>
   foldl (subscribe entry) handlers_of events ev = by_priority (xs @ replicate (count_list events ev) entry)"
proof (induction events arbitrary: handlers_of xs)
  case (Cons e events)
  show ?case
  proof (cases "e = ev")
    case True
    then have "subscribe entry handlers_of e ev = by_priority (xs @ [entry])"
      using Cons.prems sort_push [of "\<lambda>h. - priority h" xs entry] by (simp add: subscribe_def)
    then show ?thesis using Cons.IH [of "subscribe entry handlers_of e" "xs @ [entry]"] True by simp
  next
    case False
    then show ?thesis using Cons by (simp add: subscribe_def)
  qed
qed simp

lemma register_handlers:
  "handlers r ev = by_priority xs \<Longrightarrow>
   handlers (register (name, prio, events) r) ev = by_priority (xs @ replicate (count_list events ev)
     \<lparr>handler_name = name, priority = prio, entry_stats = next_stats r\<rparr>)"
  using subscribe_all by (simp add: register_def Let_def)

text \<open>
  Handlers are called by descending priority and, within one priority, in the order of
  registration: re-sorting after every push equals one stable sort of all subscriptions.
\<close>

lemma registration_order:
  "handlers (foldl (\<lambda>r h. register h r) registry_new hs) ev = by_priority (subscriptions ev 0 hs)"
proof -
  have "handlers (foldl (\<lambda>r h. register h r) r hs) ev = by_priority (xs @ subscriptions ev (next_stats r) hs)"
    if "handlers r ev = by_priority xs" for r xs
    using that
  proof (induction hs arbitrary: r xs)
    case (Cons h hs)
    obtain name prio events where h: "h = (name, prio, events)" by (cases h) auto
    have "next_stats (register h r) = Suc (next_stats r)" by (simp add: register_def h Let_def)
    then show ?case
      using Cons.IH [OF register_handlers [OF Cons.prems, of name prio events]] h by simp
  qed simp
  from this [of registry_new "[]"] show ?thesis by (simp add: registry_new_def)
qed

section \<open>The circuit breaker\<close>

text \<open>
  The breaker of a handler: after as many failures in a row as the threshold, the next
  consultation at time \<open>t\<close> skips the handler; every later consultation before the cooldown
  has passed skips it and changes nothing; the first one after it lets the handler run again
  with no failures on record.
\<close>

lemma breaker_cycle:
  assumes "\<not> disabled s" and "consecutive_failures s = 0"
    and "unat (circuit_breaker_threshold r) \<le> length latencies" and "length latencies < 2 ^ 64"
  shows "let failed = foldl (\<lambda>s l. record_failure l s) s latencies;
             (skip, tripped) = check_circuit_breaker r t failed
    in skip \<and> (\<forall>t'. let (skip', s') = check_circuit_breaker r t' tripped in
         skip' = (t' - t < circuit_breaker_cooldown r)
         \<and> (if skip' then s' = tripped else \<not> disabled s' \<and> consecutive_failures s' = 0))"
proof -
  have failed: "consecutive_failures (foldl (\<lambda>s l. record_failure l s) s ls) = consecutive_failures s + of_nat (length ls)
      \<and> disabled (foldl (\<lambda>s l. record_failure l s) s ls) = disabled s" for ls s
    by (induction ls arbitrary: s) (simp_all add: record_failure_def ac_simps)
  have "circuit_breaker_threshold r \<le> of_nat (length latencies)"
    using assms(3,4) by (simp add: word_le_nat_alt unat_of_nat)
  then show ?thesis
    using failed [of s latencies] assms(1,2)
    by (auto simp: check_circuit_breaker_def Let_def)
qed

text \<open>What a whole dispatch does to the statistics of one handler.\<close>

datatype hook_op =
    Register "string \<times> int \<times> hook_event list"
  | Dispatch hook_payload "nat \<Rightarrow> hook_call" "(handler_entry \<times> hook_call) list \<Rightarrow> (handler_entry \<times> hook_call) list"
  | DispatchSync hook_payload "nat \<Rightarrow> hook_call"

fun hook_step :: "hook_registry \<Rightarrow> hook_op \<Rightarrow> hook_registry" where
  "hook_step r (Register h) = register h r"
| "hook_step r (Dispatch p calls order) = snd (dispatch r p calls order)"
| "hook_step r (DispatchSync p calls) = snd (dispatch_sync r p calls)"

definition answers_ok :: "nat \<Rightarrow> (handler_entry \<times> hook_call) list \<Rightarrow> bool" where
  "answers_ok i jobs \<longleftrightarrow> (\<forall>(e, c) \<in> set jobs. entry_stats e = i \<longrightarrow> isl (call_answer c) = False)"

text \<open>
  The handler with statistics \<open>i\<close> answers every call without an error (a block is an answer),
  and a parallel dispatch completes only calls it started.
\<close>

fun op_sound :: "nat \<Rightarrow> hook_registry \<Rightarrow> hook_op \<Rightarrow> bool" where
  "op_sound i r (Register h) = True"
| "op_sound i r (Dispatch p calls order) =
     (answers_ok i (jobs_of r p calls) \<and> (\<forall>js. set (order js) = set js))"
| "op_sound i r (DispatchSync p calls) = answers_ok i (jobs_of r p calls)"

fun run_sound :: "nat \<Rightarrow> hook_registry \<Rightarrow> hook_op list \<Rightarrow> bool" where
  "run_sound i r [] = True"
| "run_sound i r (op # ops) = (op_sound i r op \<and> run_sound i (hook_step r op) ops)"

definition healthy :: "hook_stats \<Rightarrow> bool" where
  "healthy s \<longleftrightarrow> \<not> disabled s \<and> consecutive_failures s = 0"

lemma healthy_check:
  "healthy s \<Longrightarrow> 0 < circuit_breaker_threshold r \<Longrightarrow> check_circuit_breaker r t s = (False, s)"
  by (simp add: healthy_def check_circuit_breaker_def not_le)

lemma healthy_answer: "healthy s \<Longrightarrow> \<not> isl (call_answer c) \<Longrightarrow> healthy (record_answer c s)"
  by (cases "call_answer c") (simp_all add: healthy_def record_answer_def record_success_def)

lemma healthy_sequential:
  "healthy (store i) \<Longrightarrow> 0 < circuit_breaker_threshold r \<Longrightarrow> answers_ok i jobs
   \<Longrightarrow> healthy (snd (sequential_loop r jobs store m) i)"
proof (induction jobs arbitrary: store m)
  case (Cons job rest)
  obtain e c where job: "job = (e, c)" by force
  obtain skip st where check: "check_circuit_breaker r (call_time c) (store (entry_stats e)) = (skip, st)" by force
  have rest: "answers_ok i rest" using Cons.prems(3) by (simp add: answers_ok_def)
  have same: "skip = False \<and> st = store i" if "entry_stats e = i"
    using check healthy_check [OF Cons.prems(1,2)] that by auto
  have step1: "healthy ((store(entry_stats e := st)) i)"
    using Cons.prems(1) same by auto
  have step2: "healthy ((store(entry_stats e := record_answer c st)) i)"
    using Cons.prems same job by (auto simp: answers_ok_def intro: healthy_answer)
  have "healthy (snd (sequential_loop r rest (store(entry_stats e := st)) m') i)" for m'
    by (rule Cons.IH) (fact step1 Cons.prems(2) rest)+
  moreover have "healthy (snd (sequential_loop r rest (store(entry_stats e := record_answer c st)) m') i)" for m'
    by (rule Cons.IH) (fact step2 Cons.prems(2) rest)+
  ultimately show ?case
    using step2 check job
    by (cases skip; cases "call_answer c"; cases "projr (call_answer c)") (simp_all add: Let_def)
qed simp

lemma healthy_breaker_pass:
  assumes "breaker_pass r jobs store = (started, store')" and "healthy (store i)"
    and "0 < circuit_breaker_threshold r"
  shows "store' i = store i \<and> set started \<subseteq> set jobs"
  using assms
proof (induction jobs arbitrary: store started store')
  case (Cons job rest)
  obtain e c where job: "job = (e, c)" by force
  obtain skip st where check: "check_circuit_breaker r (call_time c) (store (entry_stats e)) = (skip, st)" by force
  have same: "(store(entry_stats e := st)) i = store i"
    using check healthy_check [OF Cons.prems(2,3)] by auto
  obtain started1 where pass: "breaker_pass r rest (store(entry_stats e := st)) = (started1, store')"
      "started = (if skip then started1 else (e, c) # started1)"
    using Cons.prems(1) check job by (auto split: prod.splits)
  then show ?case
    using Cons.IH [OF pass(1)] Cons.prems(2,3) same job by auto
qed simp

lemma healthy_completions:
  "healthy (store i) \<Longrightarrow> answers_ok i js \<Longrightarrow>
   healthy (foldl (\<lambda>st (e, c). st(entry_stats e := record_answer c (st (entry_stats e)))) store js i)"
proof (induction js arbitrary: store)
  case (Cons job rest)
  obtain e c where job: "job = (e, c)" by force
  have "healthy ((store(entry_stats e := record_answer c (store (entry_stats e)))) i)"
    using Cons.prems job by (auto simp: answers_ok_def intro: healthy_answer)
  moreover have "answers_ok i rest" using Cons.prems(2) by (simp add: answers_ok_def)
  ultimately show ?case using Cons.IH job by simp
qed simp

lemma healthy_parallel:
  assumes "healthy (store i)" "0 < circuit_breaker_threshold r" "answers_ok i jobs" "\<And>js. set (order js) = set js"
  shows "healthy (snd (dispatch_parallel r jobs order store) i)"
proof -
  obtain started store' where pass: "breaker_pass r jobs store = (started, store')" by force
  note keep = healthy_breaker_pass [OF pass assms(1,2)]
  have "answers_ok i (order started)"
    using keep assms(3,4) by (auto simp: answers_ok_def)
  then show ?thesis
    using healthy_completions [of store' i "order started"] keep assms(1) pass by (simp add: dispatch_parallel_def)
qed

lemma hook_step_healthy:
  assumes "healthy (stats_store r i)" "0 < circuit_breaker_threshold r" "op_sound i r op"
  shows "healthy (stats_store (hook_step r op) i)"
    and "circuit_breaker_threshold (hook_step r op) = circuit_breaker_threshold r"
proof -
  show "circuit_breaker_threshold (hook_step r op) = circuit_breaker_threshold r"
    by (cases op) (auto simp: register_def dispatch_def dispatch_sync_def Let_def split: prod.splits)
  show "healthy (stats_store (hook_step r op) i)"
  proof (cases op)
    case (Register h)
    then show ?thesis using assms(1)
      by (auto simp: register_def Let_def healthy_def stats_new_def split: prod.splits)
  next
    case (Dispatch p calls order)
    have "healthy (snd (sequential_loop r (jobs_of r p calls) (stats_store r) None) i)"
      "healthy (snd (dispatch_parallel r (jobs_of r p calls) order (stats_store r)) i)"
      using assms Dispatch healthy_sequential healthy_parallel by auto
    then show ?thesis
      using Dispatch assms(1) by (auto simp: dispatch_def jobs_of_def Let_def split: prod.splits)
  next
    case (DispatchSync p calls)
    have "healthy (snd (sequential_loop r (jobs_of r p calls) (stats_store r) None) i)"
      using assms DispatchSync healthy_sequential by auto
    then show ?thesis
      using DispatchSync assms(1) by (auto simp: dispatch_sync_def jobs_of_def Let_def split: prod.splits)
  qed
qed

text \<open>
  A handler that never errs is never switched off. Over any sequence of registrations
  and dispatches in which it answers without an error, in particular over any number of
  blocks, the breaker never skips it, provided the threshold is positive.
\<close>

lemma blocking_handler_never_skipped:
  assumes "0 < circuit_breaker_threshold r" and "healthy (stats_store r i)" and "run_sound i r ops"
  shows "fst (check_circuit_breaker (foldl hook_step r ops) t (stats_store (foldl hook_step r ops) i)) = False"
  using assms
proof (induction ops arbitrary: r)
  case Nil
  then show ?case by (simp add: healthy_check)
next
  case (Cons op ops)
  then show ?case using hook_step_healthy [of r i op] by simp
qed

definition sample_guard :: hook_registry where
  "sample_guard = register (''guard'', 10, [BeforeToolCall]) registry_new"

definition sample_block :: "nat \<Rightarrow> hook_call" where
  "sample_block k = \<lparr>call_time = k, call_answer = Inr (Block ''denied''), call_latency = 3\<rparr>"

end
