(* ===== verification/Stop_Gate.thy ===== *)
theory Stop_Gate
  imports Rust_Text "HOL-Library.AList"
begin

text \<open>
  Stopping a session against turns that are starting: the gate of
  \<open>crates/chat/src/service/stop_gate.rs\<close> and the terminal registry of
  \<open>crates/chat/src/service/session_gate.rs\<close>. Every operation of the gate runs under its
  mutex, so a concurrent execution is a sequence of these operations in some order. Hash
  maps whose entries are searched by value are association lists, the others are maps. A
  cancellation token is an index into the set of cancelled tokens; the token of a guard is
  reachable from the guard alone and is a flag in it.
\<close>

section \<open>State\<close>

datatype phase = Acquiring | HoldingPermit | Enqueueing | Running

record guard =
  g_session :: string
  g_phase :: phase
  g_cancel :: bool
  g_run_id :: "string option"

record run_done =
  rd_token :: nat
  rd_result :: "(string + unit) option"

record gate_state =
  stop_depth :: "string \<Rightarrow> nat option"
  suppressed :: "string set"
  epoch :: "string \<Rightarrow> nat option"
  guards :: "(nat \<times> guard) list"
  next_id :: nat
  permit_holders :: "string \<Rightarrow> nat option"
  runs :: "string \<Rightarrow> run_done option"
  current_run :: "(string \<times> string) list"
  finished_during_stop :: "string \<Rightarrow> (string + unit) list option"
  cancelled_tokens :: "nat set"

definition gate_new :: gate_state where
  "gate_new = \<lparr>stop_depth = Map.empty, suppressed = {}, epoch = Map.empty, guards = [], next_id = 1,
     permit_holders = Map.empty, runs = Map.empty, current_run = [],
     finished_during_stop = Map.empty, cancelled_tokens = {}\<rparr>"

record send_guard =
  sg_id :: nat
  sg_active :: bool

definition depth_of :: "gate_state \<Rightarrow> string \<Rightarrow> nat" where
  "depth_of g s = (case stop_depth g s of Some d \<Rightarrow> d | None \<Rightarrow> 0)"

abbreviation stopping :: "gate_state \<Rightarrow> string \<Rightarrow> bool" where
  "stopping g s \<equiv> 0 < depth_of g s"

abbreviation remove_guard :: "nat \<Rightarrow> gate_state \<Rightarrow> gate_state" where
  "remove_guard i g \<equiv> g\<lparr>guards := AList.delete i (guards g)\<rparr>"

section \<open>Operations\<close>

definition new_guard :: "string \<Rightarrow> phase \<Rightarrow> guard" where
  "new_guard s ph = \<lparr>g_session = s, g_phase = ph, g_cancel = False, g_run_id = None\<rparr>"

definition begin_send :: "string \<Rightarrow> gate_state \<Rightarrow> gate_state \<times> (string + send_guard)" where
  "begin_send s g =
     (if stopping g s then (g, Inl ''session stop is in progress'')
      else (g\<lparr>next_id := saturating_add (next_id g) 1,
              guards := AList.update (next_id g) (new_guard s Acquiring) (guards g)\<rparr>,
            Inr \<lparr>sg_id = next_id g, sg_active = True\<rparr>))"

definition abandon :: "nat \<Rightarrow> gate_state \<Rightarrow> gate_state" where
  "abandon i g = remove_guard i g"

text \<open>
  \<open>attach_permit\<close>. The permit itself is the caller's; the result carries the session whose
  holder count was raised.
\<close>

definition attach_permit :: "send_guard \<Rightarrow> gate_state \<Rightarrow> gate_state \<times> send_guard \<times> (string + string)" where
  "attach_permit sg g =
     (case map_of (guards g) (sg_id sg) of
        None \<Rightarrow> (g, sg, Inl ''session start guard disappeared'')
      | Some entry \<Rightarrow>
          (let s = g_session entry in
           if g_cancel entry \<or> stopping g s then
             (remove_guard (sg_id sg) g, sg\<lparr>sg_active := False\<rparr>,
              Inl ''session stop cancelled the turn before it started'')
           else
             (g\<lparr>guards := AList.update (sg_id sg) (entry\<lparr>g_phase := HoldingPermit\<rparr>) (guards g),
                permit_holders := (permit_holders g)(s \<mapsto>
                  (case permit_holders g s of Some n \<Rightarrow> n | None \<Rightarrow> 0) + 1)\<rparr>, sg, Inr s)))"

definition begin_enqueue :: "send_guard \<Rightarrow> gate_state \<Rightarrow> gate_state \<times> (string + unit)" where
  "begin_enqueue sg g =
     (case map_of (guards g) (sg_id sg) of
        None \<Rightarrow> (g, Inl ''session enqueue guard disappeared'')
      | Some entry \<Rightarrow>
          (let s = g_session entry in
           if stopping g s \<or> g_cancel entry then
             (remove_guard (sg_id sg) g, Inl ''session stop cancelled prompt enqueue'')
           else
             (g\<lparr>guards := AList.update (sg_id sg) (entry\<lparr>g_phase := Enqueueing\<rparr>) (guards g),
                epoch := (epoch g)(s \<mapsto> (case epoch g s of Some n \<Rightarrow> n | None \<Rightarrow> 0) + 1)\<rparr>, Inr ())))"

definition allow_queue_broadcast :: "send_guard \<Rightarrow> gate_state \<Rightarrow> bool" where
  "allow_queue_broadcast sg g =
     (case map_of (guards g) (sg_id sg) of
        None \<Rightarrow> False | Some entry \<Rightarrow> depth_of g (g_session entry) = 0)"

definition finish_enqueue :: "send_guard \<Rightarrow> gate_state \<Rightarrow> gate_state \<times> send_guard" where
  "finish_enqueue sg g = (abandon (sg_id sg) g, sg\<lparr>sg_active := False\<rparr>)"

definition confirm_start :: "send_guard \<Rightarrow> gate_state \<Rightarrow> gate_state \<times> send_guard \<times> (string + unit)" where
  "confirm_start sg g =
     (case map_of (guards g) (sg_id sg) of
        None \<Rightarrow> (g, sg, Inl ''session start guard disappeared'')
      | Some entry \<Rightarrow>
          if g_cancel entry \<or> stopping g (g_session entry) then
            (remove_guard (sg_id sg) g, sg\<lparr>sg_active := False\<rparr>,
             Inl ''session stop cancelled the turn before it started'')
          else (g, sg, Inr ()))"

text \<open>\<open>active\<close> is the service's table of running tokens, passed by the caller.\<close>

definition publish_run :: "(string \<Rightarrow> nat option) \<Rightarrow> send_guard \<Rightarrow> string \<Rightarrow> string \<Rightarrow> nat \<Rightarrow> gate_state
    \<Rightarrow> gate_state \<times> (string \<Rightarrow> nat option) \<times> send_guard" where
  "publish_run active sg s run token g =
     (g\<lparr>cancelled_tokens := (if stopping g s then insert token (cancelled_tokens g) else cancelled_tokens g),
        runs := (runs g)(run \<mapsto> \<lparr>rd_token = token, rd_result = None\<rparr>),
        current_run := AList.update s run (current_run g),
        guards := (case map_of (guards g) (sg_id sg) of
            Some entry \<Rightarrow> AList.update (sg_id sg) (entry\<lparr>g_phase := Running, g_run_id := Some run\<rparr>) (guards g)
          | None \<Rightarrow> guards g)\<rparr>,
      active(run \<mapsto> token), sg\<lparr>sg_active := False\<rparr>)"

definition capture_run :: "(string \<Rightarrow> nat option) \<Rightarrow> string \<Rightarrow> gate_state \<Rightarrow> run_done option" where
  "capture_run active run g = (if active run = None then None else runs g run)"

definition cancel_token :: "nat \<Rightarrow> gate_state \<Rightarrow> gate_state" where
  "cancel_token token g = g\<lparr>cancelled_tokens := insert token (cancelled_tokens g)\<rparr>"

text \<open>\<open>finish_run\<close>; the waiters of the run receive its result, which is returned.\<close>

definition run_session :: "string \<Rightarrow> gate_state \<Rightarrow> string option" where
  "run_session run g =
     (case find (\<lambda>(_, e). g_run_id e = Some run) (guards g) of
        Some (_, e) \<Rightarrow> Some (g_session e)
      | None \<Rightarrow> map_option fst (find (\<lambda>(_, current). current = run) (current_run g)))"

definition finish_run :: "(string \<Rightarrow> nat option) \<Rightarrow> string \<Rightarrow> string + unit \<Rightarrow> gate_state
    \<Rightarrow> gate_state \<times> (string \<Rightarrow> nat option) \<times> run_done option" where
  "finish_run active run result g =
     (let session = run_session run g;
          slot = map_option (\<lambda>d. d\<lparr>rd_result := Some result\<rparr>) (runs g run);
          finished = (case session of
              Some s \<Rightarrow> if stopping g s
                then (finished_during_stop g)(s \<mapsto>
                  (case finished_during_stop g s of Some rs \<Rightarrow> rs | None \<Rightarrow> []) @ [result])
                else finished_during_stop g
            | None \<Rightarrow> finished_during_stop g);
          rest = (case find (\<lambda>(_, e). g_run_id e = Some run) (guards g) of
              Some (i, _) \<Rightarrow> AList.delete i (guards g) | None \<Rightarrow> guards g)
      in (g\<lparr>finished_during_stop := finished, runs := (runs g)(run := None),
            current_run := filter (\<lambda>(_, current). current \<noteq> run) (current_run g), guards := rest\<rparr>,
          active(run := None), slot))"

definition is_suppressed :: "string \<Rightarrow> gate_state \<Rightarrow> bool" where
  "is_suppressed s g \<longleftrightarrow> s \<in> suppressed g"

record stop_snapshot =
  idle :: bool
  snap_error :: "string option"
  snap_epoch :: nat

definition snapshot_stop :: "string \<Rightarrow> nat option \<Rightarrow> nat \<Rightarrow> gate_state \<Rightarrow> stop_snapshot \<times> nat" where
  "snapshot_stop s expected seen g =
     (let none = list_all (\<lambda>(_, e). g_session e \<noteq> s) (guards g);
          holders = (case permit_holders g s of Some n \<Rightarrow> n | None \<Rightarrow> 0);
          ep = (case epoch g s of Some n \<Rightarrow> n | None \<Rightarrow> 0);
          idle = (none \<and> holders = 0 \<and> (case expected of None \<Rightarrow> True | Some n \<Rightarrow> n = ep))
      in case finished_during_stop g s of
           None \<Rightarrow> (\<lparr>idle = idle, snap_error = None, snap_epoch = ep\<rparr>, seen)
         | Some rs \<Rightarrow>
             (\<lparr>idle = idle,
               snap_error = (case find isl (drop seen rs) of Some r \<Rightarrow> Some (projl r) | None \<Rightarrow> None),
               snap_epoch = ep\<rparr>, length rs))"

definition begin_stop_locked :: "string \<Rightarrow> gate_state \<Rightarrow> gate_state" where
  "begin_stop_locked s g =
     (let d = depth_of g s + 1; g' = g\<lparr>stop_depth := (stop_depth g)(s \<mapsto> d)\<rparr> in
      if d = 1 then
        g'\<lparr>suppressed := insert s (suppressed g'),
           guards := map (\<lambda>(i, e). (i, if g_session e = s then e\<lparr>g_cancel := True\<rparr> else e)) (guards g')\<rparr>
      else g')"

definition end_stop_locked :: "string \<Rightarrow> gate_state \<Rightarrow> gate_state" where
  "end_stop_locked s g =
     (case stop_depth g s of
        None \<Rightarrow> g
      | Some d \<Rightarrow>
          if d - 1 = 0 then g\<lparr>stop_depth := (stop_depth g)(s := None), suppressed := suppressed g - {s},
             finished_during_stop := (finished_during_stop g)(s := None)\<rparr>
          else g\<lparr>stop_depth := (stop_depth g)(s \<mapsto> d - 1)\<rparr>)"

definition end_stop :: "string \<Rightarrow> gate_state \<Rightarrow> gate_state" where
  "end_stop s g = end_stop_locked s g"

definition choose_stop :: "string \<Rightarrow> string option \<Rightarrow> gate_state \<Rightarrow> gate_state \<times> string option option" where
  "choose_stop s expected g =
     (let run = map_of (current_run g) s in
      if (case expected of None \<Rightarrow> True | Some e \<Rightarrow> run = Some e)
      then (begin_stop_locked s g, Some run) else (g, None))"

definition arm_next_batch :: "string \<Rightarrow> send_guard \<Rightarrow> gate_state \<Rightarrow> gate_state \<times> send_guard \<times> (string + unit)" where
  "arm_next_batch s sg g =
     (if stopping g s \<or> s \<in> suppressed g then (g, sg, Inl ''session queue is suppressed'')
      else (g\<lparr>next_id := saturating_add (next_id g) 1,
              guards := AList.update (next_id g) (new_guard s HoldingPermit) (guards g)\<rparr>,
            \<lparr>sg_id = next_id g, sg_active = True\<rparr>, Inr ()))"

text \<open>The two destructors: of an uncommitted guard, and of a released permit.\<close>

definition drop_send_guard :: "send_guard \<Rightarrow> gate_state \<Rightarrow> gate_state" where
  "drop_send_guard sg g = (if sg_active sg then abandon (sg_id sg) g else g)"

definition drop_permit :: "string \<Rightarrow> gate_state \<Rightarrow> gate_state" where
  "drop_permit s g =
     (case permit_holders g s of
        None \<Rightarrow> g
      | Some n \<Rightarrow> g\<lparr>permit_holders := (permit_holders g)(s := if n - 1 = 0 then None else Some (n - 1))\<rparr>)"

section \<open>Interleavings\<close>

datatype gate_op =
    BeginSend string
  | AttachPermit send_guard
  | BeginEnqueue send_guard
  | FinishEnqueue send_guard
  | ConfirmStart send_guard
  | PublishRun send_guard string string nat
  | FinishRun string "string + unit"
  | CancelToken nat
  | ChooseStop string "string option"
  | EndStop string
  | ArmNextBatch string send_guard
  | DropSendGuard send_guard
  | DropPermit string

text \<open>The state is the gate and the service's table of running tokens.\<close>

fun gate_step :: "gate_state \<times> (string \<Rightarrow> nat option) \<Rightarrow> gate_op \<Rightarrow> gate_state \<times> (string \<Rightarrow> nat option)" where
  "gate_step (g, a) (BeginSend s) = (fst (begin_send s g), a)"
| "gate_step (g, a) (AttachPermit sg) = (fst (attach_permit sg g), a)"
| "gate_step (g, a) (BeginEnqueue sg) = (fst (begin_enqueue sg g), a)"
| "gate_step (g, a) (FinishEnqueue sg) = (fst (finish_enqueue sg g), a)"
| "gate_step (g, a) (ConfirmStart sg) = (fst (confirm_start sg g), a)"
| "gate_step (g, a) (PublishRun sg s run token) = (let r = publish_run a sg s run token g in (fst r, fst (snd r)))"
| "gate_step (g, a) (FinishRun run result) = (let r = finish_run a run result g in (fst r, fst (snd r)))"
| "gate_step (g, a) (CancelToken token) = (cancel_token token g, a)"
| "gate_step (g, a) (ChooseStop s expected) = (fst (choose_stop s expected g), a)"
| "gate_step (g, a) (EndStop s) = (end_stop s g, a)"
| "gate_step (g, a) (ArmNextBatch s sg) = (fst (arm_next_batch s sg g), a)"
| "gate_step (g, a) (DropSendGuard sg) = (drop_send_guard sg g, a)"
| "gate_step (g, a) (DropPermit s) = (drop_permit s g, a)"

section \<open>The invariant of the gate\<close>

text \<open>
  A session is suppressed exactly while a stop of it is in progress, results are collected
  only then, counters of holders are positive, and every start guard of a stopping session
  is cancelled.
\<close>

definition guards_ok :: "(string \<Rightarrow> nat) \<Rightarrow> (nat \<times> guard) list \<Rightarrow> bool" where
  "guards_ok depth gs \<longleftrightarrow> distinct (map fst gs)
     \<and> (\<forall>(i, e) \<in> set gs. 0 < depth (g_session e) \<longrightarrow> g_cancel e)"

definition stops_ok :: "gate_state \<Rightarrow> bool" where
  "stops_ok g \<longleftrightarrow> (\<forall>s. stop_depth g s \<noteq> Some 0) \<and> suppressed g = dom (stop_depth g)
     \<and> dom (finished_during_stop g) \<subseteq> dom (stop_depth g)
     \<and> (\<forall>s. permit_holders g s \<noteq> Some 0)"

definition gate_ok :: "gate_state \<Rightarrow> bool" where
  "gate_ok g \<longleftrightarrow> stops_ok g \<and> guards_ok (depth_of g) (guards g)"

lemma depth_of_frame [simp]:
  "depth_of (g\<lparr>guards := x\<rparr>) = depth_of g" "depth_of (g\<lparr>next_id := n\<rparr>) = depth_of g"
  "depth_of (g\<lparr>epoch := e\<rparr>) = depth_of g" "depth_of (g\<lparr>permit_holders := h\<rparr>) = depth_of g"
  "depth_of (g\<lparr>runs := r\<rparr>) = depth_of g" "depth_of (g\<lparr>current_run := c\<rparr>) = depth_of g"
  "depth_of (g\<lparr>finished_during_stop := f\<rparr>) = depth_of g" "depth_of (g\<lparr>cancelled_tokens := t\<rparr>) = depth_of g"
  "depth_of (g\<lparr>suppressed := z\<rparr>) = depth_of g"
  by (simp_all add: depth_of_def fun_eq_iff)

lemma stops_ok_frame [simp]:
  "stops_ok (g\<lparr>guards := x\<rparr>) = stops_ok g" "stops_ok (g\<lparr>next_id := n\<rparr>) = stops_ok g"
  "stops_ok (g\<lparr>epoch := e\<rparr>) = stops_ok g" "stops_ok (g\<lparr>runs := r\<rparr>) = stops_ok g"
  "stops_ok (g\<lparr>current_run := c\<rparr>) = stops_ok g" "stops_ok (g\<lparr>cancelled_tokens := t\<rparr>) = stops_ok g"
  by (simp_all add: stops_ok_def)

lemma stopping_iff: "stops_ok g \<Longrightarrow> stopping g s \<longleftrightarrow> s \<in> dom (stop_depth g)"
  by (auto simp: stops_ok_def depth_of_def split: option.splits) (metis gr0I)

lemma set_alist_delete: "set (AList.delete k xs) = {x \<in> set xs. fst x \<noteq> k}"
  by (induction xs) auto

lemma guards_ok_delete: "guards_ok d gs \<Longrightarrow> guards_ok d (AList.delete i gs)"
  by (auto simp: guards_ok_def distinct_delete set_alist_delete)

lemma guards_ok_update:
  assumes "guards_ok d gs" and "0 < d (g_session e) \<longrightarrow> g_cancel e"
  shows "guards_ok d (AList.update i e gs)"
  using assms set_alist_update [of i e gs] unfolding guards_ok_def by (auto simp: distinct_update)

lemma guards_ok_mono:
  assumes "guards_ok d gs" and "\<And>t. 0 < d' t \<Longrightarrow> 0 < d t"
  shows "guards_ok d' gs"
proof -
  have "g_cancel e" if "(i, e) \<in> set gs" "0 < d' (g_session e)" for i e
    using assms(1) that assms(2) [OF that(2)] by (auto simp: guards_ok_def)
  then show ?thesis using assms(1) by (auto simp: guards_ok_def)
qed

text \<open>Progress of a guard that is present keeps its session and its cancellation.\<close>

lemma guards_ok_progress:
  assumes "guards_ok d gs" and "map_of gs i = Some e" and "g_session e' = g_session e" "g_cancel e' = g_cancel e"
  shows "guards_ok d (AList.update i e' gs)"
  using assms by (intro guards_ok_update) (auto simp: guards_ok_def dest!: map_of_SomeD)

lemma gate_ok_begin_send: "gate_ok g \<Longrightarrow> gate_ok (fst (begin_send s g))"
  by (auto simp: gate_ok_def begin_send_def new_guard_def intro!: guards_ok_update)

lemma gate_ok_arm: "gate_ok g \<Longrightarrow> gate_ok (fst (arm_next_batch s sg g))"
  by (auto simp: gate_ok_def arm_next_batch_def new_guard_def intro!: guards_ok_update)

lemma gate_ok_remove: "gate_ok g \<Longrightarrow> gate_ok (remove_guard i g)"
  by (simp add: gate_ok_def guards_ok_delete)

lemma gate_ok_attach:
  assumes "gate_ok g" shows "gate_ok (fst (attach_permit sg g))"
proof (cases "map_of (guards g) (sg_id sg)")
  case (Some e)
  have "guards_ok (depth_of g) (AList.update (sg_id sg) (e\<lparr>g_phase := HoldingPermit\<rparr>) (guards g))"
    using assms Some by (intro guards_ok_progress [OF _ Some]) (simp_all add: gate_ok_def)
  then show ?thesis
    using assms Some gate_ok_remove [OF assms]
    by (auto simp: attach_permit_def gate_ok_def stops_ok_def Let_def)
qed (simp add: attach_permit_def assms)

lemma gate_ok_enqueue:
  assumes "gate_ok g" shows "gate_ok (fst (begin_enqueue sg g))"
proof (cases "map_of (guards g) (sg_id sg)")
  case (Some e)
  have "guards_ok (depth_of g) (AList.update (sg_id sg) (e\<lparr>g_phase := Enqueueing\<rparr>) (guards g))"
    using assms Some by (intro guards_ok_progress [OF _ Some]) (simp_all add: gate_ok_def)
  then show ?thesis
    using assms Some gate_ok_remove [OF assms] by (simp add: begin_enqueue_def gate_ok_def Let_def)
qed (simp add: begin_enqueue_def assms)

lemma gate_ok_confirm: "gate_ok g \<Longrightarrow> gate_ok (fst (confirm_start sg g))"
  using gate_ok_remove [of g "sg_id sg"] by (simp add: confirm_start_def split: option.splits)

lemma gate_ok_publish:
  assumes "gate_ok g" shows "gate_ok (fst (publish_run a sg s run token g))"
proof (cases "map_of (guards g) (sg_id sg)")
  case (Some e)
  have "guards_ok (depth_of g) (AList.update (sg_id sg) (e\<lparr>g_phase := Running, g_run_id := Some run\<rparr>) (guards g))"
    using assms Some by (intro guards_ok_progress [OF _ Some]) (simp_all add: gate_ok_def)
  then show ?thesis using assms Some by (simp add: publish_run_def gate_ok_def)
qed (use assms in \<open>simp add: publish_run_def gate_ok_def\<close>)

lemma gate_ok_finish:
  assumes "gate_ok g" shows "gate_ok (fst (finish_run a run result g))"
proof -
  let ?g = "fst (finish_run a run result g)"
  have "guards ?g = guards g \<or> (\<exists>i. guards ?g = AList.delete i (guards g))"
    by (auto simp: finish_run_def Let_def split: option.splits)
  moreover have "depth_of ?g = depth_of g" by (simp add: finish_run_def Let_def)
  moreover have "stops_ok ?g"
    using assms stopping_iff [of g]
    by (auto simp: finish_run_def gate_ok_def stops_ok_def Let_def split: option.splits)
  ultimately show ?thesis using assms by (auto simp: gate_ok_def intro: guards_ok_delete)
qed

lemma gate_ok_begin_stop:
  assumes "gate_ok g" shows "gate_ok (begin_stop_locked s g)"
proof -
  let ?g = "begin_stop_locked s g"
  have d: "depth_of ?g = (depth_of g)(s := depth_of g s + 1)"
    by (auto simp: begin_stop_locked_def depth_of_def Let_def fun_eq_iff)
  have "stops_ok ?g"
    using assms stopping_iff [of g s]
    by (auto simp: begin_stop_locked_def gate_ok_def stops_ok_def Let_def)
  moreover have "guards_ok (depth_of ?g) (guards ?g)"
  proof (cases "depth_of g s")
    case 0
    have "guards ?g = map (\<lambda>(i, e). (i, if g_session e = s then e\<lparr>g_cancel := True\<rparr> else e)) (guards g)"
      using 0 by (simp add: begin_stop_locked_def Let_def)
    moreover have "map fst (map (\<lambda>(i, e). (i, if g_session e = s then e\<lparr>g_cancel := True\<rparr> else e)) gs) = map fst gs"
        for gs :: "(nat \<times> guard) list"
      by (induction gs) auto
    ultimately show ?thesis
      using assms d by (auto simp: gate_ok_def guards_ok_def simp del: map_map split: if_splits)
  next
    case (Suc n)
    then have "guards ?g = guards g" by (simp add: begin_stop_locked_def Let_def)
    then show ?thesis using assms d Suc by (auto simp: gate_ok_def guards_ok_def split: if_splits)
  qed
  ultimately show ?thesis by (simp add: gate_ok_def)
qed

lemma gate_ok_end_stop:
  assumes "gate_ok g" shows "gate_ok (end_stop s g)"
proof -
  have "depth_of (end_stop s g) t \<le> depth_of g t" for t
    by (auto simp: end_stop_def end_stop_locked_def depth_of_def split: option.splits)
  then have "stopping g t" if "stopping (end_stop s g) t" for t
    using that by (rule less_le_trans [rotated])
  then have "guards_ok (depth_of (end_stop s g)) (guards g)"
    using assms guards_ok_mono [of "depth_of g" "guards g" "depth_of (end_stop s g)"] by (simp add: gate_ok_def)
  moreover have "guards (end_stop s g) = guards g"
    by (simp add: end_stop_def end_stop_locked_def split: option.splits)
  moreover have "stops_ok (end_stop s g)"
    using assms by (auto simp: end_stop_def end_stop_locked_def gate_ok_def stops_ok_def split: option.splits)
  ultimately show ?thesis by (simp add: gate_ok_def)
qed

lemma gate_ok_drop_permit: "gate_ok g \<Longrightarrow> gate_ok (drop_permit s g)"
  by (auto simp: drop_permit_def gate_ok_def stops_ok_def split: option.splits)

lemma gate_ok_cancel_token: "gate_ok g \<Longrightarrow> gate_ok (cancel_token t g)"
  by (simp add: gate_ok_def cancel_token_def)

lemma gate_step_ok:
  assumes "gate_ok (fst ga)" shows "gate_ok (fst (gate_step ga op))"
proof -
  obtain g a where ga: "ga = (g, a)" by force
  then show ?thesis
    using assms
    by (cases op) (auto simp: finish_enqueue_def abandon_def drop_send_guard_def choose_stop_def Let_def
        gate_ok_begin_send gate_ok_arm gate_ok_remove gate_ok_attach gate_ok_enqueue gate_ok_confirm
        gate_ok_begin_stop gate_ok_end_stop gate_ok_drop_permit gate_ok_cancel_token
        gate_ok_publish gate_ok_finish)
qed

interpretation gate: run_invariant gate_step "\<lambda>ga. gate_ok (fst ga)"
  by unfold_locales (rule gate_step_ok)

text \<open>
  C36. In every interleaving of the gate's operations, by any number of senders, runs and
  stops, a session is suppressed exactly while a stop of it is in progress and every start
  guard of a stopping session has been cancelled.
\<close>

theorem gate_interleavings_ok:
  "let g = fst (foldl gate_step (gate_new, active) ops)
   in (\<forall>s. is_suppressed s g = stopping g s)
      \<and> list_all (\<lambda>(i, e). g_cancel e) (filter (\<lambda>(i, e). stopping g (g_session e)) (guards g))
      \<and> distinct (map fst (guards g))"
proof -
  have "gate_ok gate_new" by (simp add: gate_ok_def stops_ok_def guards_ok_def gate_new_def)
  then have "gate_ok (fst (foldl gate_step (gate_new, active) ops))"
    using gate.run_inv [of "(gate_new, active)" ops] by simp
  then show ?thesis
    using stopping_iff [of "fst (foldl gate_step (gate_new, active) ops)"]
    by (auto simp: gate_ok_def guards_ok_def is_suppressed_def stops_ok_def list_all_iff Let_def)
qed

section \<open>A stopping session winds down\<close>

definition guard_ids :: "(nat \<times> guard) list \<Rightarrow> string \<Rightarrow> nat set" where
  "guard_ids gs s = set (map fst (filter (\<lambda>x. g_session (snd x) = s) gs))"

definition session_guards :: "gate_state \<Rightarrow> string \<Rightarrow> nat set" where
  "session_guards g s = guard_ids (guards g) s"

definition holders_of :: "gate_state \<Rightarrow> string \<Rightarrow> nat" where
  "holders_of g s = (case permit_holders g s of Some n \<Rightarrow> n | None \<Rightarrow> 0)"

definition epoch_of :: "gate_state \<Rightarrow> string \<Rightarrow> nat" where
  "epoch_of g s = (case epoch g s of Some n \<Rightarrow> n | None \<Rightarrow> 0)"

text \<open>
  What no operation but the end of the stop can undo: the stop itself, no new guard, no
  further permit holder, no further enqueue.
\<close>

definition winds_down :: "string \<Rightarrow> gate_state \<Rightarrow> gate_state \<Rightarrow> bool" where
  "winds_down s g g' \<longleftrightarrow> stopping g' s \<and> session_guards g' s \<subseteq> session_guards g s
     \<and> holders_of g' s \<le> holders_of g s \<and> epoch_of g' s = epoch_of g s"

lemma guard_ids_delete: "guard_ids (AList.delete i gs) s \<subseteq> guard_ids gs s"
  by (auto simp: guard_ids_def set_alist_delete)

lemma guard_ids_update:
  "g_session e \<noteq> s \<or> (\<exists>e0. map_of gs i = Some e0 \<and> g_session e0 = s) \<Longrightarrow>
   guard_ids (AList.update i e gs) s \<subseteq> guard_ids gs s"
  using set_alist_update [of i e gs] by (force simp: guard_ids_def dest: map_of_SomeD)

lemma guard_ids_cancel:
  "guard_ids (map (\<lambda>(i, e). (i, if g_session e = t then e\<lparr>g_cancel := True\<rparr> else e)) gs) s = guard_ids gs s"
  by (induction gs) (auto simp: guard_ids_def split: if_splits)

lemma winds_down_guards:
  assumes "stopping g s" and "session_guards g' s \<subseteq> session_guards g s"
    and "stop_depth g' = stop_depth g" "permit_holders g' = permit_holders g" "epoch g' = epoch g"
  shows "winds_down s g g'"
  using assms by (simp add: winds_down_def depth_of_def holders_of_def epoch_of_def)

lemma winds_down_remove: "stopping g s \<Longrightarrow> winds_down s g (remove_guard i g)"
  by (rule winds_down_guards) (simp_all add: session_guards_def guard_ids_delete)

lemma winds_down_same: "stopping g s \<Longrightarrow> winds_down s g g"
  by (rule winds_down_guards) simp_all

lemma winds_down_new:
  assumes "stopping g s" "\<not> stopping g t"
  shows "winds_down s g (g\<lparr>next_id := n, guards := AList.update i (new_guard t ph) (guards g)\<rparr>)"
proof (rule winds_down_guards [OF assms(1)])
  have "g_session (new_guard t ph) \<noteq> s" using assms by (auto simp: new_guard_def)
  then show "session_guards (g\<lparr>next_id := n, guards := AList.update i (new_guard t ph) (guards g)\<rparr>) s \<subseteq> session_guards g s"
    by (simp add: session_guards_def guard_ids_update)
qed simp_all

lemma winds_down_create:
  "stopping g s \<Longrightarrow> winds_down s g (fst (begin_send t g))"
  "stopping g s \<Longrightarrow> winds_down s g (fst (arm_next_batch t sg g))"
  using winds_down_new winds_down_same by (simp_all add: begin_send_def arm_next_batch_def)

lemma winds_down_attach:
  assumes "stopping g s" shows "winds_down s g (fst (attach_permit sg g))"
proof (cases "map_of (guards g) (sg_id sg)")
  case (Some e)
  show ?thesis
  proof (cases "g_cancel e \<or> stopping g (g_session e)")
    case True
    then show ?thesis using Some winds_down_remove [OF assms] by (auto simp: attach_permit_def Let_def)
  next
    case False
    then have "g_session e \<noteq> s" using assms by auto
    then show ?thesis
      using Some False assms guard_ids_update [of "e\<lparr>g_phase := HoldingPermit\<rparr>" s "guards g" "sg_id sg"]
      by (auto simp: attach_permit_def Let_def winds_down_def session_guards_def holders_of_def epoch_of_def)
  qed
qed (simp add: attach_permit_def winds_down_same assms)

lemma winds_down_enqueue:
  assumes "stopping g s" shows "winds_down s g (fst (begin_enqueue sg g))"
proof (cases "map_of (guards g) (sg_id sg)")
  case (Some e)
  show ?thesis
  proof (cases "g_cancel e \<or> stopping g (g_session e)")
    case True
    then show ?thesis using Some winds_down_remove [OF assms] by (auto simp: begin_enqueue_def Let_def)
  next
    case False
    then have "g_session e \<noteq> s" using assms by auto
    then show ?thesis
      using Some False assms guard_ids_update [of "e\<lparr>g_phase := Enqueueing\<rparr>" s "guards g" "sg_id sg"]
      by (auto simp: begin_enqueue_def Let_def winds_down_def session_guards_def holders_of_def epoch_of_def)
  qed
qed (simp add: begin_enqueue_def winds_down_same assms)

lemma winds_down_publish:
  assumes "stopping g s" shows "winds_down s g (fst (publish_run a sg t run token g))"
proof (cases "map_of (guards g) (sg_id sg)")
  case (Some e)
  let ?e = "e\<lparr>g_phase := Running, g_run_id := Some run\<rparr>"
  have "guard_ids (AList.update (sg_id sg) ?e (guards g)) s \<subseteq> guard_ids (guards g) s"
    using Some by (intro guard_ids_update) auto
  then show ?thesis
    using Some assms by (intro winds_down_guards) (simp_all add: publish_run_def session_guards_def)
qed (use assms in \<open>simp add: publish_run_def winds_down_guards session_guards_def\<close>)

lemma winds_down_finish:
  assumes "stopping g s" shows "winds_down s g (fst (finish_run a run result g))"
proof (rule winds_down_guards [OF assms])
  have "guards (fst (finish_run a run result g)) = guards g
      \<or> (\<exists>i. guards (fst (finish_run a run result g)) = AList.delete i (guards g))"
    by (auto simp: finish_run_def Let_def split: option.splits)
  then show "session_guards (fst (finish_run a run result g)) s \<subseteq> session_guards g s"
    using guard_ids_delete by (metis order_refl session_guards_def)
qed (simp_all add: finish_run_def Let_def)

lemma winds_down_choose:
  assumes "stopping g s" shows "winds_down s g (fst (choose_stop t x g))"
proof -
  let ?g = "begin_stop_locked t g"
  have "stopping ?g s" using assms by (auto simp: begin_stop_locked_def depth_of_def Let_def)
  moreover have "session_guards ?g s \<subseteq> session_guards g s"
    by (simp add: session_guards_def begin_stop_locked_def guard_ids_cancel Let_def)
  moreover have "permit_holders ?g = permit_holders g" "epoch ?g = epoch g"
    by (simp_all add: begin_stop_locked_def Let_def)
  ultimately have "winds_down s g ?g" by (simp add: winds_down_def holders_of_def epoch_of_def)
  then show ?thesis using winds_down_same [OF assms] by (simp add: choose_stop_def Let_def)
qed

lemma winds_down_end:
  "stopping g s \<Longrightarrow> t \<noteq> s \<Longrightarrow> winds_down s g (end_stop t g)"
  by (auto simp: winds_down_def end_stop_def end_stop_locked_def depth_of_def session_guards_def
      holders_of_def epoch_of_def split: option.splits)

lemma winds_down_permit: "stopping g s \<Longrightarrow> winds_down s g (drop_permit t g)"
  by (auto simp: winds_down_def drop_permit_def session_guards_def holders_of_def epoch_of_def split: option.splits)

lemma winds_down_step:
  assumes "stopping (fst ga) s" and "op \<noteq> EndStop s"
  shows "winds_down s (fst ga) (fst (gate_step ga op))"
proof -
  obtain g a where ga: "ga = (g, a)" by force
  have "winds_down s g (confirm :: gate_state)" if "confirm = fst (confirm_start sg g)" for confirm sg
    using assms ga that winds_down_same winds_down_remove by (auto simp: confirm_start_def split: option.splits)
  moreover have "winds_down s g (cancel_token t g)" for t
    using assms ga by (intro winds_down_guards) (auto simp: cancel_token_def session_guards_def)
  ultimately show ?thesis
    using assms ga
    by (cases op) (auto simp: finish_enqueue_def abandon_def drop_send_guard_def Let_def winds_down_same
        winds_down_remove winds_down_create winds_down_attach winds_down_enqueue winds_down_publish
        winds_down_finish winds_down_choose winds_down_end winds_down_permit)
qed

lemma winds_down_run:
  assumes "stopping (fst ga) s" and "EndStop s \<notin> set ops"
  shows "winds_down s (fst ga) (fst (foldl gate_step ga ops))"
  using assms
proof (induction ops arbitrary: ga)
  case (Cons op ops)
  have step: "winds_down s (fst ga) (fst (gate_step ga op))"
    using Cons.prems by (intro winds_down_step) auto
  then have "winds_down s (fst (gate_step ga op)) (fst (foldl gate_step (gate_step ga op) ops))"
    using Cons by (simp add: winds_down_def)
  with step show ?case by (auto simp: winds_down_def)
qed (simp add: winds_down_same)

lemma snapshot_idle:
  "idle (fst (snapshot_stop s expected seen g)) \<longleftrightarrow> session_guards g s = {} \<and> holders_of g s = 0
     \<and> (expected = None \<or> expected = Some (epoch_of g s))"
  by (auto simp: snapshot_stop_def session_guards_def guard_ids_def holders_of_def epoch_of_def Let_def
      list_all_iff filter_empty_conv split: option.splits)

lemma snapshot_epoch: "snap_epoch (fst (snapshot_stop s expected seen g)) = epoch_of g s"
  by (simp add: snapshot_stop_def epoch_of_def Let_def split: option.splits)

text \<open>
  C20. A stop is not overtaken. From the moment a session is stopping, through any
  interleaving of operations that does not end that stop, no send and no queued batch of the
  session is admitted, no guard of it is added and no prompt enqueued; and once the session
  has been seen idle it is seen idle again under the recorded epoch, so the confirming
  snapshot of \<open>stop_current_session\<close> never fails.
\<close>

theorem stop_not_overtaken:
  assumes "stopping g s" and "EndStop s \<notin> set ops"
  shows "let g' = fst (foldl gate_step (g, active) ops) in
     stopping g' s \<and> session_guards g' s \<subseteq> session_guards g s
     \<and> isl (snd (begin_send s g')) \<and> isl (snd (snd (arm_next_batch s sg g')))
     \<and> (idle (fst (snapshot_stop s None seen g)) \<longrightarrow>
          idle (fst (snapshot_stop s (Some (snap_epoch (fst (snapshot_stop s None seen g)))) seen' g')))"
  using winds_down_run [of "(g, active)" s ops] assms
  by (auto simp: Let_def winds_down_def snapshot_idle snapshot_epoch begin_send_def arm_next_batch_def)

definition sample_stopping :: gate_state where
  "sample_stopping = fst (choose_stop ''s'' None (fst (begin_send ''s'' gate_new)))"

definition sample_handle :: send_guard where
  "sample_handle = \<lparr>sg_id = 1, sg_active = True\<rparr>"

theorem stop_not_overtaken_witness:
  "let g' = fst (foldl gate_step (sample_stopping, Map.empty)
       [ConfirmStart sample_handle, BeginSend ''s'', ChooseStop ''s'' None]) in
     stopping g' ''s'' \<and> session_guards g' ''s'' \<subseteq> session_guards sample_stopping ''s''
     \<and> isl (snd (begin_send ''s'' g')) \<and> isl (snd (snd (arm_next_batch ''s'' sample_handle g')))
     \<and> (idle (fst (snapshot_stop ''s'' None 0 sample_stopping)) \<longrightarrow>
          idle (fst (snapshot_stop ''s'' (Some (snap_epoch (fst (snapshot_stop ''s'' None 0 sample_stopping)))) 0 g')))"
  by (rule stop_not_overtaken)
    (simp_all add: sample_stopping_def choose_stop_def begin_stop_locked_def begin_send_def gate_new_def depth_of_def)

text \<open>
  A start guard that a stop has cancelled cannot make progress: whichever of the three
  checkpoints its owner reaches next reports an error and removes the guard, so the stop
  waits for nothing but owners on their way to a checkpoint, running turns and permits.
\<close>

lemma cancelled_guard_removed:
  assumes "map_of (guards g) (sg_id sg) = Some e" and "g_cancel e \<or> stopping g (g_session e)"
  shows "let (ga, _, ra) = attach_permit sg g; (ge, re) = begin_enqueue sg g; (gc, _, rc) = confirm_start sg g
     in isl ra \<and> isl re \<and> isl rc
        \<and> map_of (guards ga) (sg_id sg) = None \<and> map_of (guards ge) (sg_id sg) = None
        \<and> map_of (guards gc) (sg_id sg) = None
        \<and> permit_holders ga = permit_holders g \<and> epoch ge = epoch g"
  using assms by (auto simp: attach_permit_def begin_enqueue_def confirm_start_def delete_conv' Let_def)

section \<open>The terminal registry\<close>

text \<open>
  \<open>SessionGateRegistry\<close>: the terminal of the last turn of each session and a version that
  wakes the waiters. \<open>wait_poll\<close> is one iteration of \<open>wait_for_gate\<close>: the value it returns,
  or \<open>None\<close> when it goes on to await a change of the version it has seen.
\<close>

datatype session_terminal = TurnCompleted | TurnCancelled | TurnFailed

datatype 'a chat_run_outcome = RunCompleted 'a | RunCancelled | RunFailed

fun terminal_from_outcome :: "'a chat_run_outcome \<Rightarrow> session_terminal" where
  "terminal_from_outcome (RunCompleted _) = TurnCompleted"
| "terminal_from_outcome RunCancelled = TurnCancelled"
| "terminal_from_outcome RunFailed = TurnFailed"

fun report_outcome :: "'a chat_run_outcome \<Rightarrow> string option \<Rightarrow> string + unit" where
  "report_outcome RunFailed detail = Inl (case detail of Some d \<Rightarrow> d | None \<Rightarrow> ''run failed'')"
| "report_outcome _ detail = Inr ()"

record session_gate =
  version :: nat
  last_terminal :: "string \<Rightarrow> session_terminal option"

definition session_gate_new :: session_gate where
  "session_gate_new = \<lparr>version = 0, last_terminal = Map.empty\<rparr>"

definition forget :: "string \<Rightarrow> session_gate \<Rightarrow> session_gate" where
  "forget s r = r\<lparr>last_terminal := (last_terminal r)(s := None)\<rparr>"

definition begin_turn :: "string \<Rightarrow> session_gate \<Rightarrow> session_gate" where
  "begin_turn s r = forget s r"

definition finish_turn :: "string \<Rightarrow> session_terminal \<Rightarrow> session_gate \<Rightarrow> session_gate" where
  "finish_turn s t r = r\<lparr>last_terminal := (last_terminal r)(s \<mapsto> t), version := version r + 1\<rparr>"

definition notify :: "session_gate \<Rightarrow> session_gate" where
  "notify r = r\<lparr>version := version r + 1\<rparr>"

definition wait_poll :: "string \<Rightarrow> bool \<Rightarrow> session_gate \<Rightarrow> session_terminal option option" where
  "wait_poll s active r =
     (let terminal = last_terminal r s
      in if terminal \<noteq> None \<or> \<not> active then Some terminal else None)"

end
