(* ===== verification/Loop_Detector.thy ===== *)
theory Loop_Detector
  imports Rust_Text "HOL-Library.Char_ord" "HOL-Library.List_Lexorder"
    "HOL-Library.Product_Lexorder" "HOL-Library.Option_ord"
begin

text \<open>
  The detector of repeated tool failures of \<open>crates/agents/src/tool_loop_detector.rs\<close>.
  Ordered maps are association lists sorted by key. The hash function of the standard
  library is the parameter \<open>hash\<close>; nothing is assumed of it.
\<close>

section \<open>Fingerprints\<close>

fun show_number :: "json_number \<Rightarrow> string" where
  "show_number (PosInt n) = show_nat n"
| "show_number (NegInt i) = (if i < 0 then CHR ''-'' # show_nat (nat (- i)) else show_nat (nat i))"
| "show_number (Float s) = s"

fun join :: "string \<Rightarrow> string list \<Rightarrow> string" where
  "join sep [] = []"
| "join sep [x] = x"
| "join sep (x # y # xs) = x @ sep @ join sep (y # xs)"

abbreviation quoted :: "string \<Rightarrow> string" where
  "quoted s \<equiv> CHR 0x22 # s @ [CHR 0x22]"

primrec canonicalize :: "json \<Rightarrow> string" where
  "canonicalize JNull = ''null''"
| "canonicalize (JBool b) = (if b then ''true'' else ''false'')"
| "canonicalize (JNumber n) = show_number n"
| "canonicalize (JString s) = quoted s"
| "canonicalize (JArray vs) = ''['' @ join '','' (map canonicalize vs) @ '']''"
| "canonicalize (JObject kvs) =
     ''{'' @ join '','' (map (\<lambda>(k, c). quoted k @ '':'' @ c)
        (sort_key fst (map (map_prod id canonicalize) kvs))) @ ''}''"

definition hash_value :: "(string \<Rightarrow> u64) \<Rightarrow> json \<Rightarrow> u64" where
  "hash_value hash v = hash (canonicalize v)"

definition hash_str :: "(string \<Rightarrow> u64) \<Rightarrow> string \<Rightarrow> u64" where
  "hash_str hash s = hash s"

record fingerprint =
  tool_name :: string
  args_hash :: u64
  failed :: bool
  error_hash :: "u64 option"
  error_text :: "string option"
  arguments :: json

definition fp_success :: "(string \<Rightarrow> u64) \<Rightarrow> string \<Rightarrow> json \<Rightarrow> fingerprint" where
  "fp_success hash tool args =
     \<lparr>tool_name = tool, args_hash = hash_value hash args, failed = False, error_hash = None,
      error_text = None, arguments = args\<rparr>"

definition fp_failure :: "(string \<Rightarrow> u64) \<Rightarrow> string \<Rightarrow> json \<Rightarrow> string option \<Rightarrow> fingerprint" where
  "fp_failure hash tool args error =
     (let non_empty = (case error of Some e \<Rightarrow> if e \<noteq> [] then Some e else None | None \<Rightarrow> None)
      in \<lparr>tool_name = tool, args_hash = hash_value hash args, failed = True,
          error_hash = map_option (hash_str hash) non_empty, error_text = non_empty, arguments = args\<rparr>)"

datatype failure_identity = Arguments string u64 | ErrorId string u64

fun identity_key :: "failure_identity \<Rightarrow> nat \<times> string \<times> u64" where
  "identity_key (Arguments t h) = (0, t, h)"
| "identity_key (ErrorId t h) = (1, t, h)"

lemma identity_key_inj: "identity_key x = identity_key y \<Longrightarrow> x = y"
  by (cases x; cases y) auto

text \<open>The derived order: by variant, then by fields.\<close>

instantiation failure_identity :: linorder
begin

definition less_eq_failure_identity :: "failure_identity \<Rightarrow> failure_identity \<Rightarrow> bool" where
  "less_eq_failure_identity x y \<longleftrightarrow> identity_key x \<le> identity_key y"

definition less_failure_identity :: "failure_identity \<Rightarrow> failure_identity \<Rightarrow> bool" where
  "less_failure_identity x y \<longleftrightarrow> identity_key x < identity_key y"

instance
  by standard (auto simp: less_eq_failure_identity_def less_failure_identity_def
      dest: identity_key_inj)

end

definition argument_identity :: "fingerprint \<Rightarrow> failure_identity" where
  "argument_identity f = Arguments (tool_name f) (args_hash f)"

definition identities :: "fingerprint \<Rightarrow> failure_identity list" where
  "identities f = argument_identity f #
     (case error_hash f of Some h \<Rightarrow> [ErrorId (tool_name f) h] | None \<Rightarrow> [])"

definition fingerprint_key :: "fingerprint \<Rightarrow> string \<times> string \<times> string option \<times> bool" where
  "fingerprint_key f = (tool_name f, canonicalize (arguments f), error_text f, failed f)"

section \<open>The detector\<close>

datatype intervention_stage = StageNone | Nudged | StageStrip

datatype loop_detector_action = NoAction | InjectNudge | StripTools

record loop_detector =
  active :: "(failure_identity \<times> fingerprint list) list"
  window :: nat
  strip_on_second_fire :: bool
  stage :: intervention_stage
  intervention_identities :: "failure_identity list"
  intervention_evidence :: "fingerprint list"

definition detector_new :: "nat \<Rightarrow> bool \<Rightarrow> loop_detector" where
  "detector_new w strip = \<lparr>active = [], window = w, strip_on_second_fire = strip, stage = StageNone,
     intervention_identities = [], intervention_evidence = []\<rparr>"

definition is_enabled :: "loop_detector \<Rightarrow> bool" where
  "is_enabled d \<longleftrightarrow> 0 < window d"

definition reset :: "loop_detector \<Rightarrow> loop_detector" where
  "reset d = d\<lparr>active := [], stage := StageNone, intervention_identities := [], intervention_evidence := []\<rparr>"

definition streak_push :: "fingerprint list \<Rightarrow> fingerprint \<Rightarrow> nat \<Rightarrow> fingerprint list" where
  "streak_push obs f w = (let all = obs @ [f] in drop (length all - w) all)"

text \<open>The reduction of one batch: the failures that count, sorted and without repeats.\<close>

definition round_failures :: "fingerprint list \<Rightarrow> fingerprint list" where
  "round_failures outcomes =
     (let ok = map argument_identity (filter (\<lambda>f. \<not> failed f) outcomes)
      in remdups_adj (sort_key fingerprint_key
           (filter (\<lambda>f. failed f \<and> argument_identity f \<notin> set ok) outcomes)))"

definition observe :: "fingerprint \<Rightarrow> (failure_identity \<times> fingerprint) list \<Rightarrow> failure_identity
    \<Rightarrow> (failure_identity \<times> fingerprint) list" where
  "observe f obs i =
     (case map_of obs i of
        Some cur \<Rightarrow> if fingerprint_key cur \<le> fingerprint_key f then obs else bt_insert i f obs
      | None \<Rightarrow> bt_insert i f obs)"

definition round_observations :: "fingerprint list \<Rightarrow> (failure_identity \<times> fingerprint) list" where
  "round_observations outcomes =
     foldl (\<lambda>obs f. foldl (observe f) obs (identities f)) [] (round_failures outcomes)"

definition update_streak :: "nat \<Rightarrow> (failure_identity \<times> fingerprint list) list
    \<Rightarrow> failure_identity \<times> fingerprint \<Rightarrow> (failure_identity \<times> fingerprint list) list" where
  "update_streak w act = (\<lambda>(i, f).
     (case map_of act i of
        Some obs \<Rightarrow> bt_insert i (streak_push obs f w) act
      | None \<Rightarrow> bt_insert i [f] act))"

text \<open>The part of \<open>record_round\<close> that looks for a streak as long as the window.\<close>

definition seek_nudge :: "loop_detector \<Rightarrow> loop_detector \<times> loop_detector_action" where
  "seek_nudge d =
     (let full = filter (\<lambda>(i, obs). window d \<le> length obs) (active d) in
      case full of
        [] \<Rightarrow> (d, NoAction)
      | (_, obs) # _ \<Rightarrow>
          (d\<lparr>intervention_identities := map fst full, intervention_evidence := obs, stage := Nudged\<rparr>,
           InjectNudge))"

definition record_round :: "fingerprint list \<Rightarrow> loop_detector \<Rightarrow> loop_detector \<times> loop_detector_action" where
  "record_round outcomes d =
     (if window d = 0 then (d, NoAction)
      else let obs = round_observations outcomes in
        if obs = [] then (reset d, NoAction)
        else let kept = filter (\<lambda>(i, _). map_of obs i \<noteq> None) (active d);
                 d1 = d\<lparr>active := foldl (update_streak (window d)) kept obs\<rparr>
             in case stage d of
                  StageStrip \<Rightarrow> (d1, NoAction)
                | Nudged \<Rightarrow>
                    (case find (\<lambda>i. map_of obs i \<noteq> None) (intervention_identities d) of
                       Some i \<Rightarrow>
                         if strip_on_second_fire d
                         then (d1\<lparr>stage := StageStrip, intervention_evidence :=
                                 (case map_of (active d1) i of Some s \<Rightarrow> s | None \<Rightarrow> intervention_evidence d)\<rparr>,
                               StripTools)
                         else (d1, NoAction)
                     | None \<Rightarrow> seek_nudge (d1\<lparr>stage := StageNone, intervention_identities := [],
                         intervention_evidence := []\<rparr>))
                | StageNone \<Rightarrow> seek_nudge d1)"

definition clear_strip_tools :: "loop_detector \<Rightarrow> loop_detector" where
  "clear_strip_tools d = (if stage d = StageStrip then reset d else d)"

definition window_snapshot :: "loop_detector \<Rightarrow> fingerprint list" where
  "window_snapshot d = intervention_evidence d"

section \<open>The specification\<close>

text \<open>
  What a batch means: the identities that failed, leaving aside failures whose exact
  operation also succeeded. The specification keeps, for each identity, the number of the
  latest rounds in a row it failed in, up to the window.
\<close>

definition failed_ids :: "fingerprint list \<Rightarrow> failure_identity set" where
  "failed_ids outcomes = (\<Union>f \<in> {f \<in> set outcomes. failed f \<and>
     (\<forall>g \<in> set outcomes. \<not> failed g \<longrightarrow> argument_identity g \<noteq> argument_identity f)}. set (identities f))"

record loop_spec =
  sp_count :: "failure_identity \<Rightarrow> nat"
  sp_stage :: intervention_stage
  sp_ids :: "failure_identity set"

definition spec_seek :: "nat \<Rightarrow> loop_spec \<Rightarrow> loop_spec \<times> loop_detector_action" where
  "spec_seek w sp =
     (let full = {i. w \<le> sp_count sp i} in
      if full = {} then (sp, NoAction) else (sp\<lparr>sp_stage := Nudged, sp_ids := full\<rparr>, InjectNudge))"

definition spec_round :: "nat \<Rightarrow> bool \<Rightarrow> failure_identity set \<Rightarrow> loop_spec \<Rightarrow> loop_spec \<times> loop_detector_action" where
  "spec_round w strip ids sp =
     (if w = 0 then (sp, NoAction)
      else if ids = {} then (\<lparr>sp_count = \<lambda>_. 0, sp_stage = StageNone, sp_ids = {}\<rparr>, NoAction)
      else let sp1 = sp\<lparr>sp_count := \<lambda>i. if i \<in> ids then min w (sp_count sp i + 1) else 0\<rparr>
           in case sp_stage sp of
                StageStrip \<Rightarrow> (sp1, NoAction)
              | Nudged \<Rightarrow>
                  if sp_ids sp \<inter> ids \<noteq> {} then
                    if strip then (sp1\<lparr>sp_stage := StageStrip\<rparr>, StripTools) else (sp1, NoAction)
                  else spec_seek w (sp1\<lparr>sp_stage := StageNone, sp_ids := {}\<rparr>)
              | StageNone \<Rightarrow> spec_seek w sp1)"

definition abs_detector :: "loop_detector \<Rightarrow> loop_spec" where
  "abs_detector d = \<lparr>sp_count = (\<lambda>i. case map_of (active d) i of Some obs \<Rightarrow> length obs | None \<Rightarrow> 0),
     sp_stage = stage d, sp_ids = set (intervention_identities d)\<rparr>"

definition detector_ok :: "loop_detector \<Rightarrow> bool" where
  "detector_ok d \<longleftrightarrow> bt_ok (active d) \<and> (\<forall>(i, obs) \<in> set (active d). obs \<noteq> [] \<and> length obs \<le> window d)"

section \<open>Refinement\<close>

lemma observe_keys: "fst ` set (observe f obs i) = insert i (fst ` set obs)"
  by (auto simp: observe_def bt_insert_keys split: option.splits dest: map_of_SomeD)
    (metis fst_conv image_eqI map_of_SomeD)

lemma observe_ok: "bt_ok obs \<Longrightarrow> bt_ok (observe f obs i)"
  by (simp add: observe_def bt_insert_ok split: option.splits)

lemma observe_all:
  "bt_ok obs \<Longrightarrow> bt_ok (foldl (observe f) obs is)
     \<and> fst ` set (foldl (observe f) obs is) = fst ` set obs \<union> set is"
  by (induction "is" arbitrary: obs) (auto simp: observe_ok observe_keys)

lemma observe_batch:
  "bt_ok obs \<Longrightarrow> bt_ok (foldl (\<lambda>obs f. foldl (observe f) obs (identities f)) obs fs)
     \<and> fst ` set (foldl (\<lambda>obs f. foldl (observe f) obs (identities f)) obs fs)
       = fst ` set obs \<union> (\<Union>f \<in> set fs. set (identities f))"
  by (induction fs arbitrary: obs) (auto simp: observe_all)

lemma round_observations_ok:
  "bt_ok (round_observations outcomes)" "fst ` set (round_observations outcomes) = failed_ids outcomes"
proof -
  have "set (round_failures outcomes) = {f \<in> set outcomes. failed f \<and>
     (\<forall>g \<in> set outcomes. \<not> failed g \<longrightarrow> argument_identity g \<noteq> argument_identity f)}"
    by (auto simp: round_failures_def image_iff)
  then show "bt_ok (round_observations outcomes)" "fst ` set (round_observations outcomes) = failed_ids outcomes"
    using observe_batch [of "[]" "round_failures outcomes"]
    by (simp_all add: round_observations_def failed_ids_def bt_ok_def)
qed

lemma observed_iff: "map_of (round_observations outcomes) i \<noteq> None \<longleftrightarrow> i \<in> failed_ids outcomes"
  using round_observations_ok(2) [of outcomes] by (metis map_of_eq_None_iff)

lemma streak_push_length: "0 < w \<Longrightarrow> length (streak_push obs f w) = min w (length obs + 1)"
  by (simp add: streak_push_def Let_def)

lemma streak_push_nonempty: "0 < w \<Longrightarrow> streak_push obs f w \<noteq> []"
  using streak_push_length [of w obs f] by auto

lemma update_streak_props:
  assumes "bt_ok act"
  shows "bt_ok (update_streak w act (i, f))"
    and "map_of (update_streak w act (i, f)) = (map_of act)(i \<mapsto>
      (case map_of act i of Some obs \<Rightarrow> streak_push obs f w | None \<Rightarrow> [f]))"
  using assms by (auto simp: update_streak_def bt_insert_ok map_of_bt_insert split: option.splits)

lemma update_all:
  assumes "bt_ok act" "distinct (map fst obs)"
  shows "bt_ok (foldl (update_streak w) act obs)
    \<and> map_of (foldl (update_streak w) act obs) = (\<lambda>i. case map_of obs i of
        None \<Rightarrow> map_of act i
      | Some f \<Rightarrow> Some (case map_of act i of Some s \<Rightarrow> streak_push s f w | None \<Rightarrow> [f]))"
  using assms
proof (induction obs arbitrary: act)
  case (Cons x obs)
  obtain i f where x: "x = (i, f)" by force
  have none: "map_of obs i = None" using Cons.prems(2) x by (auto simp: map_of_eq_None_iff)
  show ?case
    using Cons.IH [OF update_streak_props(1) [OF Cons.prems(1), of w i f]] Cons.prems x none
      update_streak_props(2) [OF Cons.prems(1), of w i f]
    by (auto simp: fun_eq_iff split: option.splits)
qed simp

lemma map_of_filter_keys: "map_of (filter (\<lambda>(i, _). P i) xs) i = (if P i then map_of xs i else None)"
  by (induction xs) auto

text \<open>The streaks after a round that has failures, as counts.\<close>

definition next_active :: "fingerprint list \<Rightarrow> loop_detector \<Rightarrow> (failure_identity \<times> fingerprint list) list" where
  "next_active outcomes d =
     (let obs = round_observations outcomes
      in foldl (update_streak (window d)) (filter (\<lambda>(i, _). map_of obs i \<noteq> None) (active d)) obs)"

lemma next_active_props:
  assumes ok: "detector_ok d" and w: "0 < window d"
  shows "bt_ok (next_active outcomes d)"
    and "(case map_of (next_active outcomes d) i of Some s \<Rightarrow> length s | None \<Rightarrow> 0) =
      (if i \<in> failed_ids outcomes then min (window d) (sp_count (abs_detector d) i + 1) else 0)"
    and "(i, s) \<in> set (next_active outcomes d) \<Longrightarrow> s \<noteq> [] \<and> length s \<le> window d"
proof -
  let ?obs = "round_observations outcomes"
  let ?kept = "filter (\<lambda>(i, _). map_of ?obs i \<noteq> None) (active d)"
  have kept: "bt_ok ?kept" using ok by (intro bt_ok_filter) (simp add: detector_ok_def)
  have dist: "distinct (map fst ?obs)" using round_observations_ok(1) [of outcomes] by (simp add: bt_ok_def)
  note all = update_all [OF kept dist, of "window d"]
  show bt: "bt_ok (next_active outcomes d)" using all by (simp only: next_active_def Let_def)
  have mo: "map_of (next_active outcomes d) j = (case map_of ?obs j of None \<Rightarrow> None
      | Some f \<Rightarrow> Some (case map_of (active d) j of Some s \<Rightarrow> streak_push s f (window d) | None \<Rightarrow> [f]))" for j
    using all map_of_filter_keys [of "\<lambda>i. map_of ?obs i \<noteq> None" "active d" j]
    by (simp add: next_active_def Let_def del: not_None_eq split: option.split)
  have iff: "(map_of ?obs j = None) = (j \<notin> failed_ids outcomes)" for j using observed_iff [of outcomes j] by blast
  show "(case map_of (next_active outcomes d) i of Some s \<Rightarrow> length s | None \<Rightarrow> 0) =
      (if i \<in> failed_ids outcomes then min (window d) (sp_count (abs_detector d) i + 1) else 0)"
    using w iff [of i] by (auto simp: mo abs_detector_def streak_push_length split: option.splits)
  show "s \<noteq> [] \<and> length s \<le> window d" if "(i, s) \<in> set (next_active outcomes d)"
  proof -
    have "map_of (next_active outcomes d) i = Some s"
      using bt that by (intro map_of_is_SomeI) (auto simp: bt_ok_def)
    then have "length s = min (window d) (length s) \<and> 0 < length s"
      using w by (auto simp: mo streak_push_length streak_push_nonempty split: option.splits)
    then show ?thesis by auto
  qed
qed

lemma seek_nudge_refines:
  assumes "bt_ok (active d)" and "0 < window d"
  shows "(abs_detector (fst (seek_nudge d)), snd (seek_nudge d)) = spec_seek (window d) (abs_detector d)"
proof -
  let ?full = "filter (\<lambda>(i, obs). window d \<le> length obs) (active d)"
  have "i \<in> fst ` set ?full \<longleftrightarrow> window d \<le> sp_count (abs_detector d) i" for i
  proof
    assume "i \<in> fst ` set ?full"
    then obtain obs where "(i, obs) \<in> set (active d)" "window d \<le> length obs" by auto
    moreover from this have "map_of (active d) i = Some obs"
      using assms(1) by (intro map_of_is_SomeI) (auto simp: bt_ok_def)
    ultimately show "window d \<le> sp_count (abs_detector d) i" by (simp add: abs_detector_def)
  next
    assume "window d \<le> sp_count (abs_detector d) i"
    then obtain obs where "map_of (active d) i = Some obs" "window d \<le> length obs"
      using assms(2) by (auto simp: abs_detector_def split: option.splits)
    then show "i \<in> fst ` set ?full" by (force dest: map_of_SomeD)
  qed
  then have full: "fst ` set ?full = {i. window d \<le> sp_count (abs_detector d) i}" by blast
  show ?thesis
  proof (cases ?full)
    case Nil
    then have "{i. window d \<le> sp_count (abs_detector d) i} = {}" using full by simp
    then show ?thesis using Nil by (simp add: seek_nudge_def spec_seek_def Let_def)
  next
    case (Cons x xs)
    then have "{i. window d \<le> sp_count (abs_detector d) i} \<noteq> {}" using full by auto
    moreover have "set (map fst ?full) = {i. window d \<le> sp_count (abs_detector d) i}" using full by simp
    ultimately show ?thesis
      using Cons by (auto simp: seek_nudge_def spec_seek_def abs_detector_def Let_def split: prod.splits)
  qed
qed

lemma seek_nudge_frame:
  "active (fst (seek_nudge d)) = active d" "window (fst (seek_nudge d)) = window d"
  "strip_on_second_fire (fst (seek_nudge d)) = strip_on_second_fire d"
  by (auto simp: seek_nudge_def Let_def split: list.splits prod.splits)

lemma find_failed:
  "find (\<lambda>i. map_of (round_observations outcomes) i \<noteq> None) is = None \<longleftrightarrow> set is \<inter> failed_ids outcomes = {}"
  using observed_iff [of outcomes] by (auto simp: find_None_conv)

lemma observations_Nil: "round_observations outcomes = [] \<longleftrightarrow> failed_ids outcomes = {}"
  using round_observations_ok(2) [of outcomes] by auto

text \<open>The same round in terms of the streaks it leaves.\<close>

lemma record_round_alt:
  "record_round outcomes d =
     (if window d = 0 then (d, NoAction)
      else if failed_ids outcomes = {} then (reset d, NoAction)
      else let d1 = d\<lparr>active := next_active outcomes d\<rparr> in
        case stage d of
          StageStrip \<Rightarrow> (d1, NoAction)
        | Nudged \<Rightarrow>
            if set (intervention_identities d) \<inter> failed_ids outcomes \<noteq> {} then
              if strip_on_second_fire d
              then (d1\<lparr>stage := StageStrip, intervention_evidence :=
                 (case map_of (active d1) (the (find (\<lambda>i. map_of (round_observations outcomes) i \<noteq> None)
                      (intervention_identities d))) of
                    Some s \<Rightarrow> s | None \<Rightarrow> intervention_evidence d)\<rparr>, StripTools)
              else (d1, NoAction)
            else seek_nudge (d1\<lparr>stage := StageNone, intervention_identities := [], intervention_evidence := []\<rparr>)
        | StageNone \<Rightarrow> seek_nudge d1)"
  unfolding record_round_def next_active_def Let_def observations_Nil
  by (cases "find (\<lambda>i. map_of (round_observations outcomes) i \<noteq> None) (intervention_identities d)")
    (use find_failed [of outcomes "intervention_identities d"] in
      \<open>auto split: intervention_stage.splits\<close>)

lemma abs_sel [simp]:
  "sp_stage (abs_detector d) = stage d" "sp_ids (abs_detector d) = set (intervention_identities d)"
  "abs_detector (d\<lparr>stage := x\<rparr>) = (abs_detector d)\<lparr>sp_stage := x\<rparr>"
  "abs_detector (d\<lparr>intervention_identities := ids\<rparr>) = (abs_detector d)\<lparr>sp_ids := set ids\<rparr>"
  "abs_detector (d\<lparr>intervention_evidence := ev\<rparr>) = abs_detector d"
  by (simp_all add: abs_detector_def)

lemma abs_next:
  assumes "detector_ok d" "0 < window d"
  shows "abs_detector (d\<lparr>active := next_active outcomes d\<rparr>) = (abs_detector d)\<lparr>sp_count :=
    \<lambda>i. if i \<in> failed_ids outcomes then min (window d) (sp_count (abs_detector d) i + 1) else 0\<rparr>"
  using next_active_props(2) [OF assms, of outcomes] by (simp add: abs_detector_def)

lemma record_round_frame:
  "window (fst (record_round outcomes d)) = window d"
  "strip_on_second_fire (fst (record_round outcomes d)) = strip_on_second_fire d"
  by (auto simp: record_round_alt reset_def seek_nudge_frame Let_def split: intervention_stage.splits)

lemma record_round_ok:
  assumes ok: "detector_ok d" shows "detector_ok (fst (record_round outcomes d))"
proof (cases "0 < window d")
  case True
  note nxt = next_active_props(1,3) [OF ok True, where outcomes = outcomes]
  have "active (fst (record_round outcomes d)) \<in> {[], next_active outcomes d}"
    using True by (auto simp: record_round_alt reset_def seek_nudge_frame Let_def split: intervention_stage.splits)
  then show ?thesis
    using nxt(1) record_round_frame(1) [of outcomes d]
    by (auto simp: detector_ok_def bt_ok_def dest: nxt(2))
qed (simp add: record_round_alt ok)

lemma record_round_refines:
  assumes ok: "detector_ok d"
  shows "(abs_detector (fst (record_round outcomes d)), snd (record_round outcomes d))
      = spec_round (window d) (strip_on_second_fire d) (failed_ids outcomes) (abs_detector d)"
proof (cases "0 < window d \<and> failed_ids outcomes \<noteq> {}")
  case True
  let ?d1 = "d\<lparr>active := next_active outcomes d\<rparr>"
  have bt: "bt_ok (next_active outcomes d)" using next_active_props(1) [OF ok] True by blast
  note nx = abs_next [OF ok, of outcomes]
  show ?thesis
  proof (cases "stage d")
    case StageNone
    then show ?thesis
      using True nx seek_nudge_refines [of ?d1] bt
      by (simp add: record_round_alt spec_round_def Let_def)
  next
    case Nudged
    let ?d2 = "?d1\<lparr>stage := StageNone, intervention_identities := [], intervention_evidence := []\<rparr>"
    show ?thesis
      using True Nudged nx seek_nudge_refines [of ?d2] bt
      by (simp add: record_round_alt spec_round_def Let_def)
  next
    case StageStrip
    then show ?thesis
      using True nx by (simp add: record_round_alt spec_round_def Let_def)
  qed
next
  case False
  then show ?thesis by (auto simp: record_round_alt spec_round_def abs_detector_def reset_def)
qed

section \<open>Runs\<close>

definition record_rounds :: "fingerprint list list \<Rightarrow> loop_detector \<Rightarrow> loop_detector" where
  "record_rounds rs d = foldl (\<lambda>d r. fst (record_round r d)) d rs"

definition spec_rounds :: "nat \<Rightarrow> bool \<Rightarrow> fingerprint list list \<Rightarrow> loop_spec \<Rightarrow> loop_spec" where
  "spec_rounds w strip rs sp = foldl (\<lambda>sp r. fst (spec_round w strip (failed_ids r) sp)) sp rs"

interpretation detector: run_invariant "\<lambda>d r. fst (record_round r d)" detector_ok
  by unfold_locales (rule record_round_ok)

lemma detector_ok_new: "detector_ok (detector_new w strip)"
  by (simp add: detector_ok_def detector_new_def bt_ok_def)

lemma record_rounds_refines:
  assumes "detector_ok d" "window d = w" "strip_on_second_fire d = strip"
  shows "abs_detector (record_rounds rs d) = spec_rounds w strip rs (abs_detector d)
    \<and> window (record_rounds rs d) = w \<and> strip_on_second_fire (record_rounds rs d) = strip"
  using assms
proof (induction rs arbitrary: d)
  case (Cons r rs)
  have "abs_detector (fst (record_round r d)) = fst (spec_round w strip (failed_ids r) (abs_detector d))"
    using arg_cong [OF record_round_refines [OF Cons.prems(1), of r], of fst] Cons.prems(2,3) by simp
  then show ?case
    using Cons.IH [OF record_round_ok [OF Cons.prems(1), of r]] Cons.prems record_round_frame [of r d]
    by (simp add: record_rounds_def spec_rounds_def)
qed (simp add: record_rounds_def spec_rounds_def)

lemma detector_abs:
  fixes w strip rs
  defines "d \<equiv> record_rounds rs (detector_new w strip)"
    and "sp \<equiv> spec_rounds w strip rs \<lparr>sp_count = \<lambda>_. 0, sp_stage = StageNone, sp_ids = {}\<rparr>"
  shows "abs_detector d = sp" and "snd (record_round r d) = snd (spec_round w strip (failed_ids r) sp)"
proof -
  have new: "abs_detector (detector_new w strip) = \<lparr>sp_count = \<lambda>_. 0, sp_stage = StageNone, sp_ids = {}\<rparr>"
    by (simp add: abs_detector_def detector_new_def)
  have refines: "abs_detector d = sp \<and> window d = w \<and> strip_on_second_fire d = strip"
    using record_rounds_refines [OF detector_ok_new [of w strip], of w strip rs] new
    by (simp add: d_def sp_def detector_new_def)
  have "detector_ok d"
    unfolding d_def record_rounds_def by (rule detector.run_inv) (rule detector_ok_new)
  then show "snd (record_round r d) = snd (spec_round w strip (failed_ids r) sp)"
    using arg_cong [OF record_round_refines [of d r], of snd] refines by simp
  show "abs_detector d = sp" using refines by simp
qed

text \<open>
  C21. Along any sequence of model rounds the detector implements its specification: its
  actions, its stage and its streak lengths are those computed from the sets of failed
  identities alone. The order of sibling calls in a batch, repeats of one failure within a
  batch and the bookkeeping of ordered maps and representatives have no influence.
\<close>

theorem detector_refines_spec:
  "let d = record_rounds rs (detector_new w strip);
       sp = spec_rounds w strip rs \<lparr>sp_count = \<lambda>_. 0, sp_stage = StageNone, sp_ids = {}\<rparr>
   in abs_detector d = sp \<and> snd (record_round r d) = snd (spec_round w strip (failed_ids r) sp)"
  using detector_abs by (simp add: Let_def)

text \<open>How many of the latest rounds in a row an identity has failed in.\<close>

definition trailing :: "failure_identity \<Rightarrow> fingerprint list list \<Rightarrow> nat" where
  "trailing i rs = length (takeWhile (\<lambda>r. i \<in> failed_ids r) (rev rs))"

lemma trailing_snoc: "trailing i (rs @ [r]) = (if i \<in> failed_ids r then trailing i rs + 1 else 0)"
  by (simp add: trailing_def)

lemma spec_count_round:
  "0 < w \<Longrightarrow> sp_count (fst (spec_round w strip ids sp)) =
     (\<lambda>i. if i \<in> ids then min w (sp_count sp i + 1) else 0)"
  by (auto simp: spec_round_def spec_seek_def Let_def split: intervention_stage.splits)

lemma spec_count:
  "0 < w \<Longrightarrow> sp_count sp = (\<lambda>_. 0) \<Longrightarrow> sp_count (spec_rounds w strip rs sp) i = min w (trailing i rs)"
  by (induction rs rule: rev_induct)
    (auto simp: spec_rounds_def trailing_snoc spec_count_round, simp add: trailing_def)

text \<open>
  The nudge comes exactly on repetition. With a positive window, a round that finds no
  intervention in force injects the nudge if and only if some equivalent failure occurred
  in every one of the last \<open>w\<close> rounds, this one included.
\<close>

lemma nudge_iff_repeated:
  assumes "0 < w" and "stage (record_rounds rs (detector_new w strip)) = StageNone"
  shows "snd (record_round r (record_rounds rs (detector_new w strip))) = InjectNudge
    \<longleftrightarrow> (\<exists>i. w \<le> trailing i (rs @ [r]))"
proof -
  define sp where "sp = spec_rounds w strip rs \<lparr>sp_count = \<lambda>_. 0, sp_stage = StageNone, sp_ids = {}\<rparr>"
  have stage: "sp_stage sp = StageNone"
    using assms(2) detector_abs(1) [of rs w strip] by (simp add: sp_def flip: abs_sel(1))
  have count: "sp_count sp i = min w (trailing i rs)" for i
    unfolding sp_def by (rule spec_count [OF assms(1)]) simp
  have "snd (spec_round w strip (failed_ids r) sp) = InjectNudge \<longleftrightarrow>
      (\<exists>i \<in> failed_ids r. w \<le> min w (sp_count sp i + 1))"
    using assms(1) stage by (auto simp: spec_round_def spec_seek_def Let_def split: if_splits)
  also have "\<dots> \<longleftrightarrow> (\<exists>i. w \<le> trailing i (rs @ [r]))"
  proof -
    have "w \<le> min w (sp_count sp i + 1) \<longleftrightarrow> w \<le> trailing i rs + 1" for i
      by (auto simp: count min_def)
    then show ?thesis using assms(1) by (auto simp: trailing_snoc)
  qed
  finally show ?thesis
    using detector_abs(2) [of r rs w strip] by (simp add: sp_def)
qed

definition sample_failure :: fingerprint where
  "sample_failure = fp_failure (\<lambda>_. 7) ''exec'' JNull (Some ''boom'')"

end
