(* ===== verification/Retry.thy ===== *)
theory Retry
  imports Rust_Text
begin

text \<open>
  Retry policy of the agent runner (\<open>crates/agents/src/runner/retry.rs\<close>): classification of
  provider errors, delay hints embedded in the message, exponential backoff, and the budget of
  retries. Delays are milliseconds in an unsigned 64-bit integer with saturating
  multiplication; the retry counters are 8-bit words.
\<close>

section \<open>Classification\<close>

definition any_pattern :: "string list \<Rightarrow> string \<Rightarrow> bool" where
  "any_pattern pats msg = (let lower = to_ascii_lowercase msg in list_ex (\<lambda>p. str_contains lower p) pats)"

definition RETRYABLE_SERVER_PATTERNS :: "string list" where
  "RETRYABLE_SERVER_PATTERNS =
     [''http 500'', ''http 502'', ''http 503'', ''http 504'', ''http 529'', ''server_error'',
      ''internal server error'', ''overloaded'', ''bad gateway'', ''service unavailable'',
      ''gateway timeout'', ''temporarily unavailable'',
      ''the server had an error processing your request'', ''timeout'', ''connection reset'']"

definition is_retryable_server_error :: "string \<Rightarrow> bool" where
  "is_retryable_server_error msg = any_pattern RETRYABLE_SERVER_PATTERNS msg"

definition RATE_LIMIT_PATTERNS :: "string list" where
  "RATE_LIMIT_PATTERNS =
     [''http 429'', ''status=429'', ''status 429'', ''status: 429'', ''too many requests'',
      ''rate limit'', ''rate_limit'']"

definition is_rate_limit_error :: "string \<Rightarrow> bool" where
  "is_rate_limit_error msg = any_pattern RATE_LIMIT_PATTERNS msg"

definition BILLING_QUOTA_PATTERNS :: "string list" where
  "BILLING_QUOTA_PATTERNS =
     [''insufficient_quota'', ''quota exceeded'', ''current quota'', ''billing details'',
      ''billing limit'', ''credit balance'']"

definition is_billing_quota_error :: "string \<Rightarrow> bool" where
  "is_billing_quota_error msg = any_pattern BILLING_QUOTA_PATTERNS msg"

definition TERMINAL_PROVIDER_PATTERNS :: "string list" where
  "TERMINAL_PROVIDER_PATTERNS =
     [''http 400'', ''http 401'', ''http 403'', ''http 404'', ''http 405'', ''http 413'', ''http 415'',
      ''http 422'', ''invalid_request_error'', ''invalid_api_key'', ''authentication_error'',
      ''permission_denied'', ''model_not_found'', ''unsupported_model'', ''context_length_exceeded'',
      ''response incomplete:'']"

definition is_terminal_provider_error :: "string \<Rightarrow> bool" where
  "is_terminal_provider_error msg = any_pattern TERMINAL_PROVIDER_PATTERNS msg"

section \<open>Delays\<close>

definition SERVER_MAX_RETRIES :: u8 where "SERVER_MAX_RETRIES = 1"
definition SERVER_RETRY_DELAY_MS :: nat where "SERVER_RETRY_DELAY_MS = 2 * 1000"
definition UNKNOWN_RETRY_DELAY_MS :: nat where "UNKNOWN_RETRY_DELAY_MS = 10000"
definition UNKNOWN_MAX_RETRIES :: u8 where "UNKNOWN_MAX_RETRIES = 1"
definition RATE_LIMIT_INITIAL_RETRY_MS :: nat where "RATE_LIMIT_INITIAL_RETRY_MS = 2000"
definition RATE_LIMIT_MAX_RETRY_MS :: nat where "RATE_LIMIT_MAX_RETRY_MS = 60000"
definition RATE_LIMIT_MAX_RETRIES :: u8 where "RATE_LIMIT_MAX_RETRIES = 10"

lemmas retry_consts = SERVER_MAX_RETRIES_def SERVER_RETRY_DELAY_MS_def UNKNOWN_RETRY_DELAY_MS_def
  UNKNOWN_MAX_RETRIES_def RATE_LIMIT_INITIAL_RETRY_MS_def RATE_LIMIT_MAX_RETRY_MS_def
  RATE_LIMIT_MAX_RETRIES_def

definition saturating_mul :: "nat \<Rightarrow> nat \<Rightarrow> nat" where
  "saturating_mul a b = min (2 ^ 64 - 1) (a * b)"

definition clamp :: "nat \<Rightarrow> nat \<Rightarrow> nat \<Rightarrow> nat" where
  "clamp lo hi x = (if x < lo then lo else if hi < x then hi else x)"

definition next_rate_limit_retry_ms :: "nat option \<Rightarrow> nat" where
  "next_rate_limit_retry_ms previous =
     clamp RATE_LIMIT_INITIAL_RETRY_MS RATE_LIMIT_MAX_RETRY_MS
       (case previous of Some ms \<Rightarrow> saturating_mul ms 2 | None \<Rightarrow> RATE_LIMIT_INITIAL_RETRY_MS)"

definition parse_retry_delay_ms_from_fragment :: "string \<Rightarrow> bool \<Rightarrow> nat \<Rightarrow> nat option" where
  "parse_retry_delay_ms_from_fragment fragment unit_default_ms max_ms =
     (let tail = dropWhile (\<lambda>c. \<not> is_ascii_digit c) fragment;
          digits = takeWhile is_ascii_digit tail
      in if digits = [] then None
         else case parse_u64 digits of
           None \<Rightarrow> None
         | Some amount \<Rightarrow>
             (let unit = trim_start (drop (length digits) tail);
                  ms = (if starts_with unit ''ms'' \<or> starts_with unit ''millisecond'' then amount
                        else if starts_with unit ''sec'' \<or> starts_with unit ''second''
                          \<or> starts_with unit ''s'' then saturating_mul amount 1000
                        else if starts_with unit ''min'' \<or> starts_with unit ''minute''
                          \<or> starts_with unit ''m'' then saturating_mul amount 60000
                        else if unit_default_ms then amount
                        else saturating_mul amount 1000)
              in Some (clamp 1 max_ms ms)))"

definition RETRY_HINTS :: "(string \<times> bool) list" where
  "RETRY_HINTS = [(''retry_after_ms='', True), (''retry-after-ms='', True), (''retry_after='', False),
     (''retry-after:'', False), (''retry after '', False), (''retry in '', False)]"

fun first_hint :: "string \<Rightarrow> nat \<Rightarrow> (string \<times> bool) list \<Rightarrow> nat option" where
  "first_hint lower max_ms [] = None"
| "first_hint lower max_ms ((needle, default_ms) # rest) =
     (case str_find needle lower of
        None \<Rightarrow> first_hint lower max_ms rest
      | Some idx \<Rightarrow>
          (case parse_retry_delay_ms_from_fragment (drop (idx + length needle) lower) default_ms max_ms of
             Some ms \<Rightarrow> Some ms
           | None \<Rightarrow> first_hint lower max_ms rest))"

definition extract_retry_after_ms :: "string \<Rightarrow> nat \<Rightarrow> nat option" where
  "extract_retry_after_ms msg max_ms = first_hint (to_ascii_lowercase msg) max_ms RETRY_HINTS"

section \<open>The budget\<close>

record retry_state =
  server_retries_remaining :: u8
  rate_limit_retries_remaining :: u8
  rate_limit_backoff_ms :: "nat option"
  unknown_retries_remaining :: u8

definition retry_start :: retry_state where
  "retry_start = \<lparr>server_retries_remaining = SERVER_MAX_RETRIES,
     rate_limit_retries_remaining = RATE_LIMIT_MAX_RETRIES, rate_limit_backoff_ms = None,
     unknown_retries_remaining = UNKNOWN_MAX_RETRIES\<rparr>"

definition next_retry_delay_ms :: "string \<Rightarrow> retry_state \<Rightarrow> retry_state \<times> nat option" where
  "next_retry_delay_ms msg st =
     (if is_billing_quota_error msg then (st, None)
      else if is_rate_limit_error msg then
        if rate_limit_retries_remaining st = 0 then (st, None)
        else (let backoff = Some (next_rate_limit_retry_ms (rate_limit_backoff_ms st));
                  st' = st\<lparr>rate_limit_retries_remaining := rate_limit_retries_remaining st - 1,
                           rate_limit_backoff_ms := backoff\<rparr>;
                  hinted = extract_retry_after_ms msg RATE_LIMIT_MAX_RETRY_MS;
                  delay = (case hinted of Some ms \<Rightarrow> ms
                           | None \<Rightarrow> (case backoff of Some ms \<Rightarrow> ms | None \<Rightarrow> RATE_LIMIT_INITIAL_RETRY_MS))
              in (st', Some (clamp 1 RATE_LIMIT_MAX_RETRY_MS delay)))
      else if is_retryable_server_error msg then
        if server_retries_remaining st = 0 then (st, None)
        else (st\<lparr>server_retries_remaining := server_retries_remaining st - 1\<rparr>, Some SERVER_RETRY_DELAY_MS)
      else if is_terminal_provider_error msg then (st, None)
      else if unknown_retries_remaining st = 0 then (st, None)
      else (st\<lparr>unknown_retries_remaining := unknown_retries_remaining st - 1\<rparr>, Some UNKNOWN_RETRY_DELAY_MS))"

text \<open>
  The runner's use of the policy over consecutive failed attempts: it waits and retries
  while a delay is offered and gives up at the first refusal. The result lists the waits.
\<close>

fun retry_waits :: "string list \<Rightarrow> retry_state \<Rightarrow> nat list" where
  "retry_waits [] st = []"
| "retry_waits (msg # msgs) st =
     (case next_retry_delay_ms msg st of
        (st', None) \<Rightarrow> []
      | (st', Some delay) \<Rightarrow> delay # retry_waits msgs st')"

section \<open>Properties\<close>

definition retries_left :: "retry_state \<Rightarrow> nat" where
  "retries_left st = unat (server_retries_remaining st) + unat (rate_limit_retries_remaining st)
     + unat (unknown_retries_remaining st)"

lemma unat_dec: "(x :: u8) \<noteq> 0 \<Longrightarrow> unat (x - 1) + 1 = unat x"
proof -
  assume x: "x \<noteq> 0"
  then have "unat (x - 1) = unat x - 1" by (rule unat_minus_one)
  moreover have "0 < unat x" using x by (simp add: unat_gt_0)
  ultimately show ?thesis by simp
qed

lemma clamp_bounds: "lo \<le> hi \<Longrightarrow> lo \<le> clamp lo hi x \<and> clamp lo hi x \<le> hi"
  by (simp add: clamp_def)

lemma retry_step:
  assumes "next_retry_delay_ms msg st = (st', Some delay)"
  shows "retries_left st' + 1 = retries_left st" and "1 \<le> delay" and "delay \<le> 60000"
proof -
  have c: "1 \<le> clamp 1 60000 x \<and> clamp 1 60000 x \<le> 60000" for x by (rule clamp_bounds) simp
  show "retries_left st' + 1 = retries_left st"
    using assms unat_dec
    by (auto simp: next_retry_delay_ms_def retries_left_def Let_def split: if_splits)
  show "1 \<le> delay" and "delay \<le> 60000"
    using assms c
    by (auto simp: next_retry_delay_ms_def retry_consts Let_def split: if_splits)
qed

lemma retry_waits_bound: "length (retry_waits msgs st) \<le> retries_left st"
proof (induction msgs arbitrary: st)
  case (Cons msg msgs)
  obtain st' r where step: "next_retry_delay_ms msg st = (st', r)" by force
  show ?case
  proof (cases r)
    case (Some delay)
    then show ?thesis using retry_step(1) [of msg st st' delay] step Cons.IH [of st'] by simp
  qed (simp add: step)
qed simp

lemma retry_waits_range: "d \<in> set (retry_waits msgs st) \<Longrightarrow> 1 \<le> d \<and> d \<le> 60000"
proof (induction msgs arbitrary: st)
  case (Cons msg msgs)
  obtain st' r where step: "next_retry_delay_ms msg st = (st', r)" by force
  then show ?case
    using Cons retry_step(2,3) [of msg st st'] by (cases r) auto
qed simp

text \<open>
  Retrying ends: whatever errors the provider reports, from a fresh budget at most
  twelve consecutive failed attempts are retried, and every wait lies between one
  millisecond and one minute, hints of the provider included.
\<close>

lemma retries_bounded:
  "length (retry_waits msgs retry_start) \<le> 12 \<and> list_all (\<lambda>d. 1 \<le> d \<and> d \<le> 60000) (retry_waits msgs retry_start)"
proof -
  have "retries_left retry_start = 12"
    by (simp add: retries_left_def retry_start_def retry_consts)
  then show ?thesis
    using retry_waits_bound [of msgs retry_start] retry_waits_range [of _ msgs retry_start]
    by (auto simp: list_all_iff)
qed

text \<open>The backoff the policy would use at the \<open>n\<close>-th rate limit in a row.\<close>

fun backoffs :: "nat \<Rightarrow> nat option" where
  "backoffs 0 = None"
| "backoffs (Suc n) = Some (next_rate_limit_retry_ms (backoffs n))"

text \<open>
  The backoff doubles from two seconds and stays at one minute: after \<open>n + 1\<close> rate limits
  it is the smaller of \<open>2000 * 2 ^ n\<close> and 60000 milliseconds; the saturating multiplication
  is never reached.
\<close>

lemma backoff_doubles: "backoffs (n + 1) = Some (min 60000 (2000 * 2 ^ n))"
proof (induction n)
  case 0
  then show ?case by (simp add: next_rate_limit_retry_ms_def clamp_def retry_consts)
next
  case (Suc n)
  have "next_rate_limit_retry_ms (Some (min 60000 (2000 * 2 ^ n))) = min 60000 (2000 * 2 ^ Suc n)"
    by (auto simp: next_rate_limit_retry_ms_def clamp_def saturating_mul_def retry_consts min_def)
  then show ?case using Suc by simp
qed

end
