(* ===== verification/Admission.thy ===== *)
theory Admission
  imports Rust_Text
begin

text \<open>
  Rate limits on requests: the sliding windows of
  \<open>crates/webhooks/src/rate_limit.rs\<close> and the fixed windows of
  \<open>crates/httpd/src/request_throttle.rs\<close>. Each limiter is a step function over timed requests;
  the locale \<open>admission\<close> is what both promise, and what the login guard and the throttle gate
  promise in the theories built on this one. Times are milliseconds; the address type is a
  parameter.
\<close>

section \<open>The contract of a limiter\<close>

text \<open>The times at which counted requests were let through, in order.\<close>

fun admitted :: "('s \<Rightarrow> 'r \<Rightarrow> 's \<times> bool) \<Rightarrow> ('r \<Rightarrow> instant) \<Rightarrow> ('r \<Rightarrow> bool) \<Rightarrow> 's \<Rightarrow> 'r list \<Rightarrow> instant list" where
  "admitted step time counted s [] = []"
| "admitted step time counted s (r # rs) =
     (case step s r of (s', ok) \<Rightarrow>
        (if ok \<and> counted r then [time r] else []) @ admitted step time counted s' rs)"

text \<open>At most \<open>limit\<close> of the times lie in any interval of the given length.\<close>

definition spread :: "duration \<Rightarrow> nat \<Rightarrow> instant list \<Rightarrow> bool" where
  "spread span limit ts \<longleftrightarrow> (\<forall>a. length (filter (\<lambda>t. a \<le> t \<and> t < a + span) ts) \<le> limit)"

locale admission =
  fixes step :: "'s \<Rightarrow> 'r \<Rightarrow> 's \<times> bool"
    and time :: "'r \<Rightarrow> instant"
    and counted :: "'r \<Rightarrow> bool"
    and inv :: "'s \<Rightarrow> instant list \<Rightarrow> instant \<Rightarrow> bool"
    and span :: duration
    and limit :: nat
  assumes step_inv: "inv s hist now \<Longrightarrow> now \<le> time r \<Longrightarrow> step s r = (s', ok)
      \<Longrightarrow> inv s' (if ok \<and> counted r then hist @ [time r] else hist) (time r)"
    and inv_spread: "inv s hist now \<Longrightarrow> spread span limit hist"
begin

lemma admitted_inv:
  assumes "inv s hist now" and "sorted (now # map time rs)"
  shows "\<exists>s' now'. inv s' (hist @ admitted step time counted s rs) now'"
  using assms
proof (induction rs arbitrary: s hist now)
  case Nil
  then show ?case by auto
next
  case (Cons r rs)
  obtain s' ok where st: "step s r = (s', ok)" by force
  define h where "h = (if ok \<and> counted r then hist @ [time r] else hist)"
  have "inv s' h (time r)" unfolding h_def using Cons.prems st by (intro step_inv) auto
  moreover have "sorted (time r # map time rs)" using Cons.prems(2) by simp
  ultimately have "\<exists>s'' now'. inv s'' (h @ admitted step time counted s' rs) now'" by (rule Cons.IH)
  moreover have "h @ admitted step time counted s' rs = hist @ admitted step time counted s (r # rs)"
    by (simp add: h_def st)
  ultimately show ?case by simp
qed

lemma admitted_spread:
  assumes "inv s [] now" and "sorted (now # map time rs)"
  shows "spread span limit (admitted step time counted s rs)"
  using admitted_inv [OF assms] inv_spread by auto

end

lemma spread_Nil [simp]: "spread span limit []"
  by (simp add: spread_def)

text \<open>
  A new latest time keeps the spread if fewer than \<open>limit\<close> earlier times are close to it.
\<close>

lemma spread_push:
  assumes "spread span limit ts" and "length (filter (\<lambda>t. now < t + span) ts) < limit"
    and "\<And>t. t \<in> set ts \<Longrightarrow> t \<le> now"
  shows "spread span limit (ts @ [now])"
  unfolding spread_def
proof (intro allI)
  fix a
  show "length (filter (\<lambda>t. a \<le> t \<and> t < a + span) (ts @ [now])) \<le> limit"
  proof (cases "a \<le> now \<and> now < a + span")
    case True
    have "filter (\<lambda>t. a \<le> t \<and> t < a + span) ts = filter (\<lambda>t. a \<le> t \<and> t < a + span) (filter (\<lambda>t. now < t + span) ts)"
      using True by (auto intro: filter_cong)
    then have "length (filter (\<lambda>t. a \<le> t \<and> t < a + span) ts) \<le> length (filter (\<lambda>t. now < t + span) ts)"
      by (metis length_filter_le)
    then show ?thesis using assms(2) by simp
  next
    case False
    then show ?thesis using assms(1) by (auto simp: spread_def)
  qed
qed

section \<open>Webhook limiter\<close>

record rate_limit_state =
  per_webhook :: "int \<Rightarrow> instant list option"
  global :: "instant list"

record webhook_rate_limiter =
  rl_state :: rate_limit_state
  global_max :: u32

definition rate_limiter_new :: "u32 \<Rightarrow> webhook_rate_limiter" where
  "rate_limiter_new m = \<lparr>rl_state = \<lparr>per_webhook = Map.empty, global = []\<rparr>, global_max = m\<rparr>"

definition rate_limiter_default :: webhook_rate_limiter where
  "rate_limiter_default = rate_limiter_new 300"

definition prune_window :: "instant \<Rightarrow> instant list \<Rightarrow> instant list" where
  "prune_window window_start q = dropWhile (\<lambda>t. t < window_start) q"

definition webhook_check :: "instant \<Rightarrow> int \<Rightarrow> u32 \<Rightarrow> webhook_rate_limiter \<Rightarrow> webhook_rate_limiter \<times> bool" where
  "webhook_check now webhook_id per_webhook_max rl =
     (let window_start = now - 60000; st = rl_state rl;
          g = prune_window window_start (global st); st1 = st\<lparr>global := g\<rparr>
      in if unat (global_max rl) \<le> length g then (rl\<lparr>rl_state := st1\<rparr>, False)
         else let w = prune_window window_start
                    (case per_webhook st webhook_id of Some q \<Rightarrow> q | None \<Rightarrow> []);
                  st2 = st1\<lparr>per_webhook := (per_webhook st)(webhook_id \<mapsto> w)\<rparr>
              in if unat per_webhook_max \<le> length w then (rl\<lparr>rl_state := st2\<rparr>, False)
                 else (rl\<lparr>rl_state := st2\<lparr>per_webhook := (per_webhook st)(webhook_id \<mapsto> w @ [now]),
                           global := g @ [now]\<rparr>\<rparr>, True))"

text \<open>
  A queue against the times it has recorded: it is what is left of them after dropping some
  that are out of every later window.
\<close>

definition window_of :: "instant list \<Rightarrow> instant list \<Rightarrow> instant \<Rightarrow> bool" where
  "window_of q hist now \<longleftrightarrow> sorted hist \<and> (\<forall>t \<in> set hist. t \<le> now)
     \<and> (\<exists>k. q = drop k hist \<and> (\<forall>t \<in> set (take k hist). t + 60000 < now))"

lemma window_of_mono: "window_of q hist now \<Longrightarrow> now \<le> now' \<Longrightarrow> window_of q hist now'"
  by (fastforce simp: window_of_def)

lemma window_of_prune:
  assumes "window_of q hist now" shows "window_of (prune_window (now - 60000) q) hist now"
proof -
  obtain k where k: "q = drop k hist" "\<forall>t \<in> set (take k hist). t + 60000 < now"
    using assms by (auto simp: window_of_def)
  let ?n = "length (takeWhile (\<lambda>t. t < now - 60000) q)"
  have "prune_window (now - 60000) q = drop (k + ?n) hist"
    by (simp add: prune_window_def dropWhile_eq_drop k(1) add.commute)
  moreover have "t + 60000 < now" if "t \<in> set (take (k + ?n) hist)" for t
  proof -
    have "take (k + ?n) hist = take k hist @ takeWhile (\<lambda>t. t < now - 60000) q"
      by (simp add: take_add k(1) takeWhile_eq_take [symmetric])
    then show ?thesis using that k(2) by (auto dest: set_takeWhileD)
  qed
  ultimately show ?thesis using assms by (auto simp: window_of_def)
qed

lemma window_of_close:
  assumes "window_of q hist now"
  shows "length (filter (\<lambda>t. now < t + 60001) hist) \<le> length q"
proof -
  obtain k where k: "q = drop k hist" "\<forall>t \<in> set (take k hist). t + 60000 < now"
    using assms by (auto simp: window_of_def)
  have "filter (\<lambda>t. now < t + 60001) (take k hist) = []" using k(2) by (fastforce simp: filter_empty_conv)
  then have "filter (\<lambda>t. now < t + 60001) hist = filter (\<lambda>t. now < t + 60001) q"
    by (metis append_Nil append_take_drop_id filter_append k(1))
  then show ?thesis by simp
qed

lemma window_of_push:
  assumes "window_of q hist now" shows "window_of (q @ [now]) (hist @ [now]) now"
proof -
  obtain k where k: "q = drop k hist" "\<forall>t \<in> set (take k hist). t + 60000 < now"
    using assms by (auto simp: window_of_def)
  have "q @ [now] = drop (min k (length hist)) (hist @ [now])"
    and "take (min k (length hist)) (hist @ [now]) = take k hist"
    by (auto simp: k(1) min_def)
  moreover have "sorted (hist @ [now])" "\<forall>t \<in> set (hist @ [now]). t \<le> now"
    using assms by (auto simp: window_of_def sorted_append)
  ultimately show ?thesis
    unfolding window_of_def using k(2) by (intro conjI exI [of _ "min k (length hist)"]) simp_all
qed

text \<open>One queue: pruned, and extended when it has room.\<close>

definition queue_inv :: "nat \<Rightarrow> instant list \<Rightarrow> instant list \<Rightarrow> instant \<Rightarrow> bool" where
  "queue_inv limit q hist now \<longleftrightarrow> window_of q hist now \<and> spread 60001 limit hist"

lemma queue_inv_prune:
  "queue_inv limit q hist now \<Longrightarrow> now \<le> now' \<Longrightarrow> queue_inv limit (prune_window (now' - 60000) q) hist now'"
  using window_of_prune window_of_mono by (auto simp: queue_inv_def)

lemma queue_inv_mono: "queue_inv limit q hist now \<Longrightarrow> now \<le> now' \<Longrightarrow> queue_inv limit q hist now'"
  using window_of_mono by (auto simp: queue_inv_def)

lemma queue_inv_push:
  assumes "queue_inv limit q hist now" and "length q < limit"
  shows "queue_inv limit (q @ [now]) (hist @ [now]) now"
proof -
  have "length (filter (\<lambda>t. now < t + 60001) hist) < limit"
    using assms window_of_close [of q hist now] by (simp add: queue_inv_def)
  moreover have "\<And>t. t \<in> set hist \<Longrightarrow> t \<le> now" using assms(1) by (auto simp: queue_inv_def window_of_def)
  ultimately show ?thesis
    using assms(1) by (simp add: queue_inv_def window_of_push spread_push)
qed

text \<open>Requests of the limiter: time, webhook and the maximum configured for it.\<close>

definition webhook_step :: "(int \<Rightarrow> u32) \<Rightarrow> webhook_rate_limiter \<Rightarrow> instant \<times> int \<Rightarrow> webhook_rate_limiter \<times> bool" where
  "webhook_step max_of rl r = webhook_check (fst r) (snd r) (max_of (snd r)) rl"

definition webhook_queue :: "int \<Rightarrow> webhook_rate_limiter \<Rightarrow> instant list" where
  "webhook_queue i rl = (case per_webhook (rl_state rl) i of Some q \<Rightarrow> q | None \<Rightarrow> [])"

lemma webhook_step_global:
  assumes "webhook_step max_of rl r = (rl', ok)"
  shows "global_max rl' = global_max rl"
    and "ok \<Longrightarrow> length (prune_window (fst r - 60000) (global (rl_state rl))) < unat (global_max rl)
      \<and> global (rl_state rl') = prune_window (fst r - 60000) (global (rl_state rl)) @ [fst r]"
    and "\<not> ok \<Longrightarrow> global (rl_state rl') = prune_window (fst r - 60000) (global (rl_state rl))"
  using assms by (auto simp: webhook_step_def webhook_check_def Let_def split: if_splits)

lemma webhook_step_queue:
  assumes "webhook_step max_of rl r = (rl', ok)"
  shows "ok \<Longrightarrow> snd r = i \<Longrightarrow> length (prune_window (fst r - 60000) (webhook_queue i rl)) < unat (max_of i)
      \<and> webhook_queue i rl' = prune_window (fst r - 60000) (webhook_queue i rl) @ [fst r]"
    and "\<not> ok \<or> snd r \<noteq> i \<Longrightarrow> webhook_queue i rl' \<in> {webhook_queue i rl, prune_window (fst r - 60000) (webhook_queue i rl)}"
  using assms by (auto simp: webhook_step_def webhook_check_def webhook_queue_def Let_def split: if_splits)

interpretation webhook_global: admission "webhook_step max_of" fst "\<lambda>_. True"
    "\<lambda>rl hist now. global_max rl = m \<and> queue_inv (unat m) (global (rl_state rl)) hist now" 60001 "unat m"
  for max_of m
proof (unfold_locales, goal_cases)
  case (1 s hist now r s' ok)
  have pruned: "queue_inv (unat m) (prune_window (fst r - 60000) (global (rl_state s))) hist (fst r)"
    using 1 by (intro queue_inv_prune) auto
  show ?case
    using webhook_step_global [OF 1(3)] pruned queue_inv_push [OF pruned] 1(1) by (cases ok) auto
next
  case 2
  then show ?case by (simp add: queue_inv_def)
qed

interpretation webhook_single: admission "webhook_step max_of" fst "\<lambda>r. snd r = i"
    "\<lambda>rl hist now. queue_inv (unat (max_of i)) (webhook_queue i rl) hist now" 60001 "unat (max_of i)"
  for max_of i
proof (unfold_locales, goal_cases)
  case (1 s hist now r s' ok)
  have pruned: "queue_inv (unat (max_of i)) (prune_window (fst r - 60000) (webhook_queue i s)) hist (fst r)"
    using 1 by (intro queue_inv_prune) auto
  have kept: "queue_inv (unat (max_of i)) (webhook_queue i s) hist (fst r)"
    using 1 by (intro queue_inv_mono [OF 1(1)]) auto
  show ?case
    using webhook_step_queue [OF 1(3), of i] pruned kept queue_inv_push [OF pruned] by (cases "ok \<and> snd r = i") auto
next
  case 2
  then show ?case by (simp add: queue_inv_def)
qed

text \<open>
  The webhook limiter bounds every minute. For any sequence of requests with a clock that
  does not go back, no sixty-second interval, wherever it starts, contains more admitted
  requests than the global maximum, nor more for one webhook than that webhook's maximum.
\<close>

lemma webhook_minute_bound:
  assumes "sorted (map fst requests)"
  shows "spread 60001 (unat m) (admitted (webhook_step max_of) fst (\<lambda>_. True) (rate_limiter_new m) requests)
    \<and> spread 60001 (unat (max_of i)) (admitted (webhook_step max_of) fst (\<lambda>r. snd r = i) (rate_limiter_new m) requests)"
proof -
  have sorted0: "sorted (0 # map fst requests)" using assms by simp
  have "queue_inv n [] [] 0" for n by (simp add: queue_inv_def window_of_def)
  then have "global_max (rate_limiter_new m) = m
      \<and> queue_inv (unat m) (global (rl_state (rate_limiter_new m))) [] 0"
    and "queue_inv (unat (max_of i)) (webhook_queue i (rate_limiter_new m)) [] 0"
    by (simp_all add: rate_limiter_new_def webhook_queue_def)
  then show ?thesis
    using webhook_global.admitted_spread [OF _ sorted0] webhook_single.admitted_spread [OF _ sorted0] by blast
qed

section \<open>Request throttle\<close>

datatype throttle_scope = Login | AuthApi | Api | Share | Ws

definition scope_from_request :: "string \<Rightarrow> string \<Rightarrow> throttle_scope option" where
  "scope_from_request method path =
     (if path = ''/api/auth/login'' \<and> method = ''POST'' then Some Login
      else if starts_with path ''/api/auth/'' then Some AuthApi
      else if starts_with path ''/api/'' then Some Api
      else if starts_with path ''/share/'' then Some Share
      else if starts_with path ''/ws/'' then Some Ws
      else None)"

record window_state =
  started_at :: instant
  win_count :: nat

record rate_limit =
  max_requests :: nat
  lim_window :: duration

record throttle_limits =
  lim_login :: rate_limit
  lim_auth_api :: rate_limit
  lim_api :: rate_limit
  lim_share :: rate_limit
  lim_ws :: rate_limit

definition throttle_limits_default :: throttle_limits where
  "throttle_limits_default =
     \<lparr>lim_login = \<lparr>max_requests = 5, lim_window = 60000\<rparr>,
      lim_auth_api = \<lparr>max_requests = 120, lim_window = 60000\<rparr>,
      lim_api = \<lparr>max_requests = 180, lim_window = 60000\<rparr>,
      lim_share = \<lparr>max_requests = 90, lim_window = 60000\<rparr>,
      lim_ws = \<lparr>max_requests = 30, lim_window = 60000\<rparr>\<rparr>"

datatype throttle_decision = Allowed | Denied duration

record 'ip request_throttle =
  limits :: throttle_limits
  buckets :: "'ip \<times> throttle_scope \<Rightarrow> window_state option"
  requests_seen :: u64

definition throttle_with_limits :: "throttle_limits \<Rightarrow> 'ip request_throttle" where
  "throttle_with_limits l = \<lparr>limits = l, buckets = Map.empty, requests_seen = 0\<rparr>"

fun limit_for :: "throttle_limits \<Rightarrow> throttle_scope \<Rightarrow> rate_limit" where
  "limit_for l Login = lim_login l"
| "limit_for l AuthApi = lim_auth_api l"
| "limit_for l Api = lim_api l"
| "limit_for l Share = lim_share l"
| "limit_for l Ws = lim_ws l"

text \<open>The decision on one bucket, and the bucket after it.\<close>

definition bucket_check :: "rate_limit \<Rightarrow> instant \<Rightarrow> window_state option \<Rightarrow> window_state \<times> throttle_decision" where
  "bucket_check limit now bucket =
     (case bucket of
        Some st \<Rightarrow>
          (let elapsed = now - started_at st in
           if lim_window limit \<le> elapsed then (\<lparr>started_at = now, win_count = 1\<rparr>, Allowed)
           else if win_count st < max_requests limit then (st\<lparr>win_count := win_count st + 1\<rparr>, Allowed)
           else (st, Denied (lim_window limit - elapsed)))
      | None \<Rightarrow> (\<lparr>started_at = now, win_count = 1\<rparr>, Allowed))"

definition max_window :: "throttle_limits \<Rightarrow> duration" where
  "max_window l = Max (lim_window ` {lim_login l, lim_auth_api l, lim_api l, lim_share l, lim_ws l})"

definition cleanup_if_needed :: "instant \<Rightarrow> 'ip request_throttle \<Rightarrow> 'ip request_throttle" where
  "cleanup_if_needed now th =
     (let seen = requests_seen th + 1; th' = th\<lparr>requests_seen := seen\<rparr> in
      if unat seen mod 512 \<noteq> 0 then th'
      else th'\<lparr>buckets := (\<lambda>k. case buckets th k of
             Some st \<Rightarrow> if now - started_at st \<le> 3 * max_window (limits th) then Some st else None
           | None \<Rightarrow> None)\<rparr>)"

definition throttle_check_at :: "'ip \<Rightarrow> throttle_scope \<Rightarrow> instant \<Rightarrow> 'ip request_throttle
    \<Rightarrow> 'ip request_throttle \<times> throttle_decision" where
  "throttle_check_at ip scope now th =
     (let limit = limit_for (limits th) scope in
      if max_requests limit = 0 then (th, Denied (max (lim_window limit) 1000))
      else case bucket_check limit now (buckets th (ip, scope)) of
             (st, decision) \<Rightarrow>
               (cleanup_if_needed now (th\<lparr>buckets := (buckets th)((ip, scope) \<mapsto> st)\<rparr>), decision))"

lemma window_le_max: "lim_window (limit_for l scope) \<le> max_window l"
  unfolding max_window_def by (rule Max_ge) (cases scope; simp)+

text \<open>
  One bucket against the times it has admitted: the current window, the window before it,
  and older ones that are out of reach.
\<close>

definition bucket_inv :: "duration \<Rightarrow> nat \<Rightarrow> window_state option \<Rightarrow> instant list \<Rightarrow> instant \<Rightarrow> bool" where
  "bucket_inv w m b hist now \<longleftrightarrow> spread w (2 * m) hist \<and> (\<forall>t \<in> set hist. t \<le> now) \<and>
     (case b of
        None \<Rightarrow> \<forall>t \<in> set hist. t + w \<le> now
      | Some st \<Rightarrow> started_at st \<le> now \<and> (\<exists>older prev cur. hist = older @ prev @ cur
          \<and> length prev \<le> m \<and> length cur = win_count st \<and> win_count st \<le> m
          \<and> (\<forall>t \<in> set older. t + w \<le> started_at st) \<and> (\<forall>t \<in> set prev. t < started_at st)
          \<and> (\<forall>t \<in> set cur. started_at st \<le> t \<and> t < started_at st + w)))"

lemma bucket_inv_mono: "bucket_inv w m b hist now \<Longrightarrow> now \<le> now' \<Longrightarrow> bucket_inv w m b hist now'"
  by (auto simp: bucket_inv_def split: option.splits)

lemma far_times:
  fixes now :: nat
  shows "(\<And>t. t \<in> set ts \<Longrightarrow> t + w \<le> now) \<Longrightarrow> filter (\<lambda>t. now < t + w) ts = []"
  by (simp add: filter_empty_conv not_less)

lemma bucket_inv_fresh:
  assumes "0 < w" "0 < m" and "bucket_inv w m None hist now"
  shows "bucket_inv w m (Some \<lparr>started_at = now, win_count = 1\<rparr>) (hist @ [now]) now"
proof -
  have far: "t + w \<le> now" if "t \<in> set hist" for t using assms(3) that by (simp add: bucket_inv_def)
  then have "spread w (2 * m) (hist @ [now])"
    using assms far_times [of hist w now] by (intro spread_push) (auto simp: bucket_inv_def)
  moreover have "\<exists>older prev cur. hist @ [now] = older @ prev @ cur \<and> length prev \<le> m \<and> length cur = 1
      \<and> (\<forall>t \<in> set older. t + w \<le> now) \<and> (\<forall>t \<in> set prev. t < now) \<and> (\<forall>t \<in> set cur. now \<le> t \<and> t < now + w)"
    using far assms(1) by (intro exI [of _ hist] exI [of _ "[]"] exI [of _ "[now]"]) simp
  ultimately show ?thesis using assms by (auto simp: bucket_inv_def)
qed

lemma bucket_inv_check:
  assumes pos: "0 < w" "0 < m" and inv: "bucket_inv w m b hist now"
    and chk: "bucket_check \<lparr>max_requests = m, lim_window = w\<rparr> now b = (st', d)"
  shows "bucket_inv w m (Some st') (if d = Allowed then hist @ [now] else hist) now"
proof (cases b)
  case None
  then show ?thesis using bucket_inv_fresh [OF pos] inv chk by (auto simp: bucket_check_def)
next
  case (Some st)
  obtain older prev cur where h: "hist = older @ prev @ cur" "length prev \<le> m" "length cur = win_count st"
      "win_count st \<le> m" "\<forall>t \<in> set older. t + w \<le> started_at st" "\<forall>t \<in> set prev. t < started_at st"
      "\<forall>t \<in> set cur. started_at st \<le> t \<and> t < started_at st + w" "started_at st \<le> now"
    using inv Some by (auto simp: bucket_inv_def)
  have sp: "spread w (2 * m) hist" and le: "\<And>t. t \<in> set hist \<Longrightarrow> t \<le> now"
    using inv by (auto simp: bucket_inv_def)
  consider (reset) "w \<le> now - started_at st" | (more) "\<not> w \<le> now - started_at st" "win_count st < m"
    | (deny) "\<not> w \<le> now - started_at st" "\<not> win_count st < m" by blast
  then show ?thesis
  proof cases
    case reset
    then have gap: "started_at st + w \<le> now" using pos(1) by linarith
    have out: "t + w \<le> now" if "t \<in> set (older @ prev)" for t using that h(5,6) gap by fastforce
    have "length (filter (\<lambda>t. now < t + w) hist) \<le> length cur"
      using far_times [of "older @ prev" w now] out by (simp add: h(1))
    then have "spread w (2 * m) (hist @ [now])"
      using sp le h(3,4) pos(2) by (intro spread_push) auto
    moreover have "\<exists>older prev cur. hist @ [now] = older @ prev @ cur \<and> length prev \<le> m \<and> length cur = 1
      \<and> (\<forall>t \<in> set older. t + w \<le> now) \<and> (\<forall>t \<in> set prev. t < now) \<and> (\<forall>t \<in> set cur. now \<le> t \<and> t < now + w)"
    proof (intro exI conjI)
      show "hist @ [now] = (older @ prev) @ cur @ [now]" using h(1) by simp
      show "length cur \<le> m" using h(3,4) by simp
      show "\<forall>t \<in> set (older @ prev). t + w \<le> now" using out by blast
      show "\<forall>t \<in> set cur. t < now" using h(7) gap by (meson less_le_trans)
    qed (use pos(1) in simp_all)
    moreover have "st' = \<lparr>started_at = now, win_count = 1\<rparr>" "d = Allowed"
      using chk Some reset by (auto simp: bucket_check_def)
    ultimately show ?thesis using pos le by (simp add: bucket_inv_def)
  next
    case more
    then have near: "now < started_at st + w" by linarith
    have "t + w \<le> now" if "t \<in> set older" for t using that h(5,8) by fastforce
    then have "length (filter (\<lambda>t. now < t + w) hist) \<le> length prev + length cur"
      using far_times [of older w now] by (simp add: h(1) add_mono)
    then have "spread w (2 * m) (hist @ [now])"
      using sp le h(2,3) more(2) by (intro spread_push) auto
    moreover have "\<exists>older prev cur. hist @ [now] = older @ prev @ cur \<and> length prev \<le> m \<and> length cur = win_count st + 1
      \<and> (\<forall>t \<in> set older. t + w \<le> started_at st) \<and> (\<forall>t \<in> set prev. t < started_at st)
      \<and> (\<forall>t \<in> set cur. started_at st \<le> t \<and> t < started_at st + w)"
      using h near by (intro exI [of _ older] exI [of _ prev] exI [of _ "cur @ [now]"]) auto
    moreover have "st' = st\<lparr>win_count := win_count st + 1\<rparr>" "d = Allowed"
      using chk Some more by (auto simp: bucket_check_def)
    ultimately show ?thesis using pos le h(8) more(2) by (simp add: bucket_inv_def)
  next
    case deny
    then show ?thesis using chk Some inv by (auto simp: bucket_check_def)
  qed
qed

lemma bucket_inv_drop:
  assumes "bucket_inv w m (Some st) hist now" and "2 * w \<le> now - started_at st" "0 < w"
  shows "bucket_inv w m None hist now"
  using assms by (fastforce simp: bucket_inv_def)

text \<open>Requests of the throttle: time, address and scope.\<close>

definition throttle_step :: "'ip request_throttle \<Rightarrow> instant \<times> 'ip \<times> throttle_scope \<Rightarrow> 'ip request_throttle \<times> bool" where
  "throttle_step th r = (case throttle_check_at (fst (snd r)) (snd (snd r)) (fst r) th of
     (th', d) \<Rightarrow> (th', d = Allowed))"

lemma cleanup_bucket:
  "limits (cleanup_if_needed now th) = limits th"
  "buckets (cleanup_if_needed now th) k = buckets th k \<or>
    (buckets (cleanup_if_needed now th) k = None
     \<and> (\<exists>st. buckets th k = Some st \<and> 3 * max_window (limits th) < now - started_at st))"
  by (auto simp: cleanup_if_needed_def Let_def not_le split: option.splits)

lemma bucket_inv_cleanup:
  assumes "bucket_inv w m (buckets th k) hist now" and "0 < w" "w \<le> max_window (limits th)"
  shows "bucket_inv w m (buckets (cleanup_if_needed now th) k) hist now"
  using cleanup_bucket(2) [of now th k]
proof
  assume "buckets (cleanup_if_needed now th) k = None
     \<and> (\<exists>st. buckets th k = Some st \<and> 3 * max_window (limits th) < now - started_at st)"
  then obtain st where st: "buckets (cleanup_if_needed now th) k = None" "buckets th k = Some st"
      "3 * max_window (limits th) < now - started_at st" by blast
  then have "2 * w \<le> now - started_at st" using assms(3) by linarith
  then show ?thesis using bucket_inv_drop assms(1,2) st by simp
qed (simp add: assms(1))

definition throttle_inv :: "throttle_limits \<Rightarrow> 'ip \<times> throttle_scope \<Rightarrow> 'ip request_throttle \<Rightarrow> instant list \<Rightarrow> instant \<Rightarrow> bool" where
  "throttle_inv l k th hist now \<longleftrightarrow> limits th = l \<and> 0 < lim_window (limit_for l (snd k))
     \<and> bucket_inv (lim_window (limit_for l (snd k))) (max_requests (limit_for l (snd k))) (buckets th k) hist now"

lemma throttle_inv_step:
  assumes inv: "throttle_inv l k th hist now" and now: "now \<le> fst r" and st: "throttle_step th r = (th', ok)"
  shows "throttle_inv l k th' (if ok \<and> snd r = k then hist @ [fst r] else hist) (fst r)"
proof -
  define limit where "limit = limit_for l (snd (snd r))"
  define w where "w = lim_window (limit_for l (snd k))"
  define m where "m = max_requests (limit_for l (snd k))"
  have old: "bucket_inv w m (buckets th k) hist (fst r)" and pos: "0 < w" and lim: "limits th = l"
    using inv now bucket_inv_mono by (auto simp: throttle_inv_def w_def m_def)
  have wm: "w \<le> max_window l" unfolding w_def by (rule window_le_max)
  show ?thesis
  proof (cases "max_requests limit = 0")
    case True
    then have "th' = th" "\<not> ok"
      using st lim by (auto simp: throttle_step_def throttle_check_at_def limit_def Let_def)
    then show ?thesis using old pos lim by (simp add: throttle_inv_def w_def m_def)
  next
    case False
    obtain b d where b: "bucket_check limit (fst r) (buckets th (snd r)) = (b, d)" by force
    let ?th = "th\<lparr>buckets := (buckets th)(snd r \<mapsto> b)\<rparr>"
    have th': "th' = cleanup_if_needed (fst r) ?th" and ok: "ok = (d = Allowed)"
      using st False b lim by (auto simp: throttle_step_def throttle_check_at_def limit_def Let_def)
    have "bucket_inv w m (buckets ?th k) (if ok \<and> snd r = k then hist @ [fst r] else hist) (fst r)"
    proof (cases "snd r = k")
      case True
      have "limit = \<lparr>max_requests = m, lim_window = w\<rparr>" using True by (simp add: limit_def m_def w_def)
      moreover from this have "0 < m" using False by simp
      ultimately show ?thesis
        using bucket_inv_check [OF pos _ old, of b d] b True ok by simp
    qed (simp add: old)
    then have "bucket_inv w m (buckets th' k) (if ok \<and> snd r = k then hist @ [fst r] else hist) (fst r)"
      unfolding th' by (rule bucket_inv_cleanup) (use pos wm lim in simp_all)
    then show ?thesis
      using pos lim cleanup_bucket(1) [of "fst r" ?th] by (simp add: throttle_inv_def w_def m_def th')
  qed
qed

interpretation throttle: admission throttle_step fst "\<lambda>r. snd r = k" "throttle_inv l k"
    "lim_window (limit_for l (snd k))" "2 * max_requests (limit_for l (snd k))" for l k
proof (unfold_locales, goal_cases)
  case 1
  then show ?case by (rule throttle_inv_step)
next
  case 2
  then show ?case by (simp add: throttle_inv_def bucket_inv_def)
qed

text \<open>
  The fixed windows of the throttle keep a sliding guarantee: with a clock that does not
  go back, in every interval of the window's length one address is let through in one scope
  at most twice the scope's maximum, whatever other addresses and scopes do and whenever the
  table of buckets is cleaned up.
\<close>

lemma throttle_window_bound:
  assumes "sorted (map fst requests)" and "0 < lim_window (limit_for l scope)"
  shows "spread (lim_window (limit_for l scope)) (2 * max_requests (limit_for l scope))
    (admitted throttle_step fst (\<lambda>r. snd r = (ip, scope)) (throttle_with_limits l) requests)"
proof -
  have sorted0: "sorted (0 # map fst requests)" using assms(1) by simp
  have "throttle_inv l (ip, scope) (throttle_with_limits l) [] 0"
    using assms(2) by (simp add: throttle_inv_def bucket_inv_def throttle_with_limits_def)
  from throttle.admitted_spread [OF this sorted0] show ?thesis by simp
qed

section \<open>Cleaning up is invisible\<close>

text \<open>The same check without the periodic removal of stale buckets.\<close>

definition plain_check :: "throttle_limits \<Rightarrow> ('ip \<times> throttle_scope \<Rightarrow> window_state option)
    \<Rightarrow> instant \<times> 'ip \<times> throttle_scope \<Rightarrow> ('ip \<times> throttle_scope \<Rightarrow> window_state option) \<times> throttle_decision" where
  "plain_check l bs r =
     (let limit = limit_for l (snd (snd r)) in
      if max_requests limit = 0 then (bs, Denied (max (lim_window limit) 1000))
      else case bucket_check limit (fst r) (bs (snd r)) of (st, d) \<Rightarrow> (bs(snd r \<mapsto> st), d))"

fun throttle_decisions :: "'ip request_throttle \<Rightarrow> (instant \<times> 'ip \<times> throttle_scope) list \<Rightarrow> throttle_decision list" where
  "throttle_decisions th [] = []"
| "throttle_decisions th (r # rs) =
     (case throttle_check_at (fst (snd r)) (snd (snd r)) (fst r) th of (th', d) \<Rightarrow> d # throttle_decisions th' rs)"

fun plain_decisions :: "throttle_limits \<Rightarrow> ('ip \<times> throttle_scope \<Rightarrow> window_state option)
    \<Rightarrow> (instant \<times> 'ip \<times> throttle_scope) list \<Rightarrow> throttle_decision list" where
  "plain_decisions l bs [] = []"
| "plain_decisions l bs (r # rs) = (case plain_check l bs r of (bs', d) \<Rightarrow> d # plain_decisions l bs' rs)"

text \<open>Buckets agree, or the bucket missing on the left has a window that is over.\<close>

definition stale_sim :: "throttle_limits \<Rightarrow> instant \<Rightarrow> ('ip \<times> throttle_scope \<Rightarrow> window_state option)
    \<Rightarrow> ('ip \<times> throttle_scope \<Rightarrow> window_state option) \<Rightarrow> bool" where
  "stale_sim l now bs cs \<longleftrightarrow> (\<forall>k. bs k = cs k \<or>
     (bs k = None \<and> (\<exists>st. cs k = Some st \<and> lim_window (limit_for l (snd k)) \<le> now - started_at st)))"

lemma stale_sim_check:
  assumes "stale_sim l now bs cs" "now \<le> fst r"
  shows "bucket_check (limit_for l (snd (snd r))) (fst r) (bs (snd r)) =
    bucket_check (limit_for l (snd (snd r))) (fst r) (cs (snd r))"
proof -
  have "bs (snd r) = cs (snd r) \<or> bs (snd r) = None
      \<and> (\<exists>st. cs (snd r) = Some st \<and> lim_window (limit_for l (snd (snd r))) \<le> now - started_at st)"
    using assms(1) unfolding stale_sim_def by blast
  then show ?thesis
    using assms(2) by (auto simp: bucket_check_def Let_def)
qed

lemma stale_sim_mono: "stale_sim l now bs cs \<Longrightarrow> now \<le> now' \<Longrightarrow> stale_sim l now' bs cs"
  unfolding stale_sim_def by (meson diff_le_mono le_trans)

lemma stale_sim_cleanup:
  fixes th :: "'ip request_throttle"
  assumes "stale_sim (limits th) now (buckets th) cs"
  shows "stale_sim (limits th) now (buckets (cleanup_if_needed now th)) cs"
  unfolding stale_sim_def
proof
  fix k :: "'ip \<times> throttle_scope"
  have "lim_window (limit_for (limits th) (snd k)) \<le> now - started_at st"
    if "3 * max_window (limits th) < now - started_at st" for st
    using that window_le_max [of "limits th" "snd k"] by linarith
  then show "buckets (cleanup_if_needed now th) k = cs k \<or> buckets (cleanup_if_needed now th) k = None
      \<and> (\<exists>st. cs k = Some st \<and> lim_window (limit_for (limits th) (snd k)) \<le> now - started_at st)"
    using cleanup_bucket(2) [of now th k] assms unfolding stale_sim_def by (metis option.distinct(1))
qed

lemma throttle_decisions_plain:
  assumes "stale_sim (limits th) now (buckets th) cs" "sorted (now # map fst rs)"
  shows "throttle_decisions th rs = plain_decisions (limits th) cs rs"
  using assms
proof (induction rs arbitrary: th now cs)
  case (Cons r rs)
  let ?limit = "limit_for (limits th) (snd (snd r))"
  have le: "now \<le> fst r" "sorted (fst r # map fst rs)" using Cons.prems(2) by auto
  note sim = stale_sim_mono [OF Cons.prems(1) le(1)]
  show ?case
  proof (cases "max_requests ?limit = 0")
    case True
    then show ?thesis
      using Cons.IH [OF sim le(2)] by (simp add: throttle_check_at_def plain_check_def Let_def)
  next
    case False
    obtain b d where b: "bucket_check ?limit (fst r) (cs (snd r)) = (b, d)" by force
    let ?th = "th\<lparr>buckets := (buckets th)(snd r \<mapsto> b)\<rparr>"
    have "stale_sim (limits ?th) (fst r) (buckets ?th) (cs(snd r \<mapsto> b))"
      using sim by (simp add: stale_sim_def)
    note clean = stale_sim_cleanup [OF this]
    have same: "limits (cleanup_if_needed (fst r) ?th) = limits th"
      by (simp add: cleanup_bucket(1))
    have rest: "throttle_decisions (cleanup_if_needed (fst r) ?th) rs
        = plain_decisions (limits th) (cs(snd r \<mapsto> b)) rs"
      using Cons.IH [of "cleanup_if_needed (fst r) ?th" "fst r" "cs(snd r \<mapsto> b)", unfolded same]
        clean [simplified] le(2) by (metis (no_types, lifting))
    have left: "throttle_check_at (fst (snd r)) (snd (snd r)) (fst r) th = (cleanup_if_needed (fst r) ?th, d)"
      using False b stale_sim_check [OF Cons.prems(1) le(1)]
      by (simp add: throttle_check_at_def Let_def)
    have right: "plain_check (limits th) cs r = (cs(snd r \<mapsto> b), d)"
      using False b by (simp add: plain_check_def Let_def)
    show ?thesis by (simp only: throttle_decisions.simps plain_decisions.simps left right prod.case rest)
  qed
qed simp

text \<open>
  The periodic cleanup of the throttle is invisible: with a clock that does not go back,
  every decision, the retry delay included, is the one a throttle that never forgets a
  bucket would take.
\<close>

lemma throttle_cleanup_invisible:
  assumes "sorted (map fst requests)"
  shows "throttle_decisions (throttle_with_limits l) requests = plain_decisions l Map.empty requests"
proof -
  have "sorted (0 # map fst requests)" using assms by simp
  then show ?thesis
    using throttle_decisions_plain [of "throttle_with_limits l" 0 Map.empty requests]
    by (simp add: throttle_with_limits_def stale_sim_def)
qed

end
