(* ===== verification/Client_Locality.thy ===== *)
theory Client_Locality
  imports Admission
begin

text \<open>
  Who a request comes from: the locality test of \<open>crates/auth/src/locality.rs\<close>, the client
  address of \<open>crates/httpd/src/request_throttle.rs\<close> and the throttle gate that uses both. The
  address type, its parsers and its loopback test belong to the standard library, and
  the credential check to the auth middleware: they are parameters.
\<close>

section \<open>Strings and headers\<close>

text \<open>\<open>str::rsplit_once\<close>: the text before and after the last occurrence.\<close>

definition rsplit_once :: "string \<Rightarrow> string \<Rightarrow> (string \<times> string) option" where
  "rsplit_once s p = (case str_find (rev p) (rev s) of
     None \<Rightarrow> None
   | Some k \<Rightarrow> Some (take (length s - k - length p) s, drop (length s - k) s))"

definition trim_start_matches :: "char \<Rightarrow> string \<Rightarrow> string" where
  "trim_start_matches c = dropWhile (\<lambda>x. x = c)"

definition trim_end_matches :: "char \<Rightarrow> string \<Rightarrow> string" where
  "trim_end_matches c s = rev (dropWhile (\<lambda>x. x = c) (rev s))"

fun split_char :: "char \<Rightarrow> string \<Rightarrow> string list" where
  "split_char c [] = [[]]"
| "split_char c (x # xs) = (if x = c then [] # split_char c xs
     else case split_char c xs of p # ps \<Rightarrow> (x # p) # ps | [] \<Rightarrow> [[x]])"

text \<open>
  Header names are lower case; a value that is not visible ASCII has no text
  (\<open>HeaderValue::to_str\<close> fails). \<open>get\<close> returns the first value of a name.
\<close>

type_synonym header_map = "(string \<times> string option) list"

definition contains_key :: "header_map \<Rightarrow> string \<Rightarrow> bool" where
  "contains_key hs name \<longleftrightarrow> map_of hs name \<noteq> None"

definition header_text :: "header_map \<Rightarrow> string \<Rightarrow> string option" where
  "header_text hs name = Option.bind (map_of hs name) (\<lambda>v. v)"

section \<open>Locality\<close>

definition has_proxy_headers :: "header_map \<Rightarrow> bool" where
  "has_proxy_headers hs \<longleftrightarrow> contains_key hs ''x-forwarded-for'' \<or> contains_key hs ''x-real-ip''
     \<or> contains_key hs ''cf-connecting-ip'' \<or> map_of hs ''forwarded'' \<noteq> None"

definition host_name :: "string \<Rightarrow> string" where
  "host_name host =
     (if starts_with host ''['' then
        trim_end_matches (CHR '']'') (trim_start_matches (CHR ''['')
          (case rsplit_once host '']:'' of Some (addr, _) \<Rightarrow> addr | None \<Rightarrow> host))
      else if 1 < length (filter (\<lambda>c. c = CHR '':'') host) then host
      else (case rsplit_once host '':'' of Some (addr, _) \<Rightarrow> addr | None \<Rightarrow> host))"

definition is_loopback_host :: "string \<Rightarrow> bool" where
  "is_loopback_host host \<longleftrightarrow>
     (let name = host_name host in
      name = ''localhost'' \<or> name = ''127.0.0.1'' \<or> name = ''::1'' \<or> ends_with name ''.localhost'')"

definition is_local_connection :: "('ip \<Rightarrow> bool) \<Rightarrow> header_map \<Rightarrow> 'ip \<times> nat \<Rightarrow> bool \<Rightarrow> bool" where
  "is_local_connection is_loopback hs remote_addr behind_proxy =
     (if behind_proxy then False
      else if has_proxy_headers hs then False
      else if (case header_text hs ''host'' of Some host \<Rightarrow> \<not> is_loopback_host host | None \<Rightarrow> False) then False
      else is_loopback (fst remote_addr))"

section \<open>Client address\<close>

record 'ip parsers =
  ip_parse :: "string \<Rightarrow> 'ip option"
  socket_parse :: "string \<Rightarrow> ('ip \<times> nat) option"

definition parse_ip :: "'ip parsers \<Rightarrow> string \<Rightarrow> 'ip option" where
  "parse_ip ps v =
     (if v = [] then None
      else case ip_parse ps v of Some ip \<Rightarrow> Some ip | None \<Rightarrow> map_option fst (socket_parse ps v))"

fun find_map :: "('a \<Rightarrow> 'b option) \<Rightarrow> 'a list \<Rightarrow> 'b option" where
  "find_map f [] = None"
| "find_map f (x # xs) = (case f x of Some y \<Rightarrow> Some y | None \<Rightarrow> find_map f xs)"

definition extract_forwarded_ip :: "'ip parsers \<Rightarrow> header_map \<Rightarrow> 'ip option" where
  "extract_forwarded_ip ps hs =
     (case Option.bind (header_text hs ''x-forwarded-for'')
             (\<lambda>xff. find_map (\<lambda>c. parse_ip ps (trim c)) (split_char (CHR '','') xff)) of
        Some ip \<Rightarrow> Some ip
      | None \<Rightarrow>
          (case Option.bind (header_text hs ''x-real-ip'') (\<lambda>v. parse_ip ps (trim v)) of
             Some ip \<Rightarrow> Some ip
           | None \<Rightarrow> Option.bind (header_text hs ''cf-connecting-ip'') (\<lambda>v. parse_ip ps (trim v))))"

definition resolve_client_ip :: "'ip parsers \<Rightarrow> header_map \<Rightarrow> 'ip \<times> nat \<Rightarrow> bool \<Rightarrow> 'ip" where
  "resolve_client_ip ps hs addr behind_proxy =
     (case (if behind_proxy then extract_forwarded_ip ps hs else None) of Some ip \<Rightarrow> ip | None \<Rightarrow> fst addr)"

section \<open>The gate\<close>

text \<open>
  \<open>has_store\<close> says whether a credential store is configured, \<open>allowed\<close> what the auth middleware
  answers for the headers and the locality.
\<close>

record 'ip gate_env =
  is_loopback_ip :: "'ip \<Rightarrow> bool"
  addr_parsers :: "'ip parsers"
  behind_proxy :: bool
  has_store :: bool
  allowed :: "header_map \<Rightarrow> bool \<Rightarrow> bool"

definition should_bypass_throttling :: "'ip gate_env \<Rightarrow> header_map \<Rightarrow> 'ip \<times> nat \<Rightarrow> bool" where
  "should_bypass_throttling env hs addr =
     (if \<not> has_store env then True
      else allowed env hs (is_local_connection (is_loopback_ip env) hs addr (behind_proxy env)))"

datatype gate_answer = NextRun | RateLimited nat

definition rate_limited_response :: "duration \<Rightarrow> gate_answer" where
  "rate_limited_response retry_after_ms = RateLimited (max (retry_after_ms div 1000) 1)"

definition throttle_gate :: "'ip gate_env \<Rightarrow> string \<Rightarrow> string \<Rightarrow> header_map \<Rightarrow> 'ip \<times> nat \<Rightarrow> instant
    \<Rightarrow> 'ip request_throttle \<Rightarrow> 'ip request_throttle \<times> gate_answer" where
  "throttle_gate env verb path hs addr now th =
     (case scope_from_request verb path of
        None \<Rightarrow> (th, NextRun)
      | Some scope \<Rightarrow>
          if should_bypass_throttling env hs addr then (th, NextRun)
          else (case throttle_check_at (resolve_client_ip (addr_parsers env) hs addr (behind_proxy env)) scope now th of
                  (th', Allowed) \<Rightarrow> (th', NextRun)
                | (th', Denied retry_after) \<Rightarrow> (th', rate_limited_response retry_after)))"

section \<open>The gate rations anonymous clients\<close>

record 'ip http_request =
  req_time :: instant
  req_method :: string
  req_path :: string
  req_headers :: header_map
  req_peer :: "'ip \<times> nat"

definition gate_request :: "'ip gate_env \<Rightarrow> 'ip request_throttle \<Rightarrow> 'ip http_request \<Rightarrow> 'ip request_throttle \<times> bool" where
  "gate_request env th r =
     (case throttle_gate env (req_method r) (req_path r) (req_headers r) (req_peer r) (req_time r) th of
        (th', answer) \<Rightarrow> (th', answer = NextRun))"

definition throttled :: "'ip gate_env \<Rightarrow> 'ip \<Rightarrow> throttle_scope \<Rightarrow> 'ip http_request \<Rightarrow> bool" where
  "throttled env ip scope r \<longleftrightarrow> scope_from_request (req_method r) (req_path r) = Some scope
     \<and> \<not> should_bypass_throttling env (req_headers r) (req_peer r)
     \<and> resolve_client_ip (addr_parsers env) (req_headers r) (req_peer r) (behind_proxy env) = ip"

lemma throttle_inv_later: "throttle_inv l k th hist now \<Longrightarrow> now \<le> now' \<Longrightarrow> throttle_inv l k th hist now'"
  using bucket_inv_mono by (auto simp: throttle_inv_def)

lemma gate_request_cases:
  obtains (pass) "gate_request env th r = (th, True)" "\<And>ip scope. \<not> throttled env ip scope r"
  | (check) ip scope where "throttled env ip scope r"
      "gate_request env th r = throttle_step th (req_time r, ip, scope)"
proof (cases "scope_from_request (req_method r) (req_path r)")
  case None
  then show thesis by (intro pass) (simp_all add: gate_request_def throttle_gate_def throttled_def)
next
  case (Some scope)
  show thesis
  proof (cases "should_bypass_throttling env (req_headers r) (req_peer r)")
    case True
    then show thesis using Some by (intro pass) (simp_all add: gate_request_def throttle_gate_def throttled_def)
  next
    case False
    let ?ip = "resolve_client_ip (addr_parsers env) (req_headers r) (req_peer r) (behind_proxy env)"
    have "gate_request env th r = throttle_step th (req_time r, ?ip, scope)"
      using Some False
      by (auto simp: gate_request_def throttle_gate_def throttle_step_def rate_limited_response_def
          split: prod.splits throttle_decision.splits)
    then show thesis using Some False by (intro check [of ?ip scope]) (simp_all add: throttled_def)
  qed
qed

lemma gate_inv_request:
  assumes inv: "throttle_inv l (ip, scope) th hist now" and now: "now \<le> req_time r"
    and st: "gate_request env th r = (th', ok)"
  shows "throttle_inv l (ip, scope) th'
    (if ok \<and> throttled env ip scope r then hist @ [req_time r] else hist) (req_time r)"
proof (cases rule: gate_request_cases [of env th r])
  case pass
  then show ?thesis using throttle_inv_later [OF inv now] st by simp
next
  case (check ip' scope')
  have "throttled env ip scope r \<longleftrightarrow> (ip', scope') = (ip, scope)" using check(1) by (auto simp: throttled_def)
  then show ?thesis
    using throttle_inv_step [OF inv, of "(req_time r, ip', scope')" th' ok] now st check(2)
    by (auto split: if_splits)
qed

interpretation gate_limit: admission "gate_request env" req_time "throttled env ip scope" "throttle_inv l (ip, scope)"
    "lim_window (limit_for l scope)" "2 * max_requests (limit_for l scope)" for env l ip scope
proof (unfold_locales, goal_cases)
  case 1
  then show ?case by (rule gate_inv_request)
next
  case 2
  then show ?case by (simp add: throttle_inv_def bucket_inv_def)
qed

lemma admitted_counted:
  assumes "\<And>r. r \<in> set rs \<Longrightarrow> c r = c' r"
  shows "admitted step time c s rs = admitted step time c' s rs"
  using assms by (induction rs arbitrary: s) (auto split: prod.split)

lemma remote_never_local: "\<not> is_loopback (fst addr) \<Longrightarrow> \<not> is_local_connection is_loopback hs addr bp"
  by (simp add: is_local_connection_def)

lemma direct_client_ip [simp]: "resolve_client_ip ps hs addr False = fst addr"
  by (simp add: resolve_client_ip_def)


definition demo_env :: "nat gate_env" where
  "demo_env = \<lparr>is_loopback_ip = (\<lambda>ip. ip = 1), addr_parsers = \<lparr>ip_parse = (\<lambda>_. Some 1), socket_parse = (\<lambda>_. None)\<rparr>,
     behind_proxy = False, has_store = True, allowed = (\<lambda>hs is_local. is_local)\<rparr>"

definition demo_request :: "nat \<Rightarrow> nat http_request" where
  "demo_request t = \<lparr>req_time = t, req_method = ''GET'', req_path = ''/ws/chat'',
     req_headers = [(''host'', Some ''localhost''), (''x-forwarded-for'', Some ''127.0.0.1'')], req_peer = (9, 443)\<rparr>"


section \<open>Host names\<close>

lemma str_find_char: "c \<notin> set q \<Longrightarrow> str_find [c] (q @ c # a) = Some (length q)"
  by (induction q) (auto simp: starts_with_prefix)

lemma str_find_char_None: "c \<notin> set q \<Longrightarrow> str_find [c] q = None"
  by (induction q) (auto simp: starts_with_prefix)

lemma rsplit_once_char: "c \<notin> set q \<Longrightarrow> rsplit_once (a @ c # q) [c] = Some (a, q)"
  using str_find_char [of c "rev q" "rev a"] by (simp add: rsplit_once_def)

lemma rsplit_once_char_None: "c \<notin> set q \<Longrightarrow> rsplit_once q [c] = None"
  using str_find_char_None [of c "rev q"] by (simp add: rsplit_once_def)

lemma str_find_pair: "c \<noteq> d \<Longrightarrow> c \<notin> set q \<Longrightarrow> str_find [c, d] (q @ c # d # a) = Some (length q)"
  by (induction q) (auto simp: starts_with_prefix)

lemma str_find_pair_None: "d \<notin> set q \<Longrightarrow> str_find [c, d] q = None"
  by (induction q) (auto simp: starts_with_prefix prefix_Cons dest: set_mono_prefix)

lemma dropWhile_id: "c \<notin> set q \<Longrightarrow> dropWhile (\<lambda>x. x = c) q = q"
  by (cases q) auto

lemma rsplit_once_pair: "c \<noteq> d \<Longrightarrow> d \<notin> set q \<Longrightarrow> rsplit_once (a @ c # d # q) [c, d] = Some (a, q)"
  using str_find_pair [of d c "rev q" "rev a"] by (simp add: rsplit_once_def)

lemma host_name_plain:
  assumes "CHR '':'' \<notin> set host" "\<not> starts_with host ''[''"
  shows "host_name host = host"
  using assms by (simp add: host_name_def rsplit_once_char_None)

lemma host_name_port:
  assumes "CHR '':'' \<notin> set host" "CHR '':'' \<notin> set port" "\<not> starts_with host ''[''"
  shows "host_name (host @ '':'' @ port) = host"
proof -
  have "filter (\<lambda>c. c = CHR '':'') host = []" "filter (\<lambda>c. c = CHR '':'') port = []"
    using assms by (auto simp: filter_empty_conv)
  moreover have "\<not> starts_with (host @ '':'' @ port) ''[''"
    using assms(3) by (cases host) (auto simp: starts_with_prefix)
  ultimately show ?thesis
    using assms by (simp add: host_name_def rsplit_once_char)
qed

lemma host_name_bracket:
  assumes "CHR ''['' \<notin> set addr" "CHR '']'' \<notin> set addr" "CHR '':'' \<notin> set port" "addr \<noteq> []"
  shows "host_name (''['' @ addr @ '']:'' @ port) = addr" "host_name (''['' @ addr @ '']'') = addr"
proof -
  have start: "trim_start_matches (CHR ''['') (CHR ''['' # addr @ rest) = addr @ rest" for rest
    using assms(1,4) by (cases addr) (auto simp: trim_start_matches_def)
  have end1: "trim_end_matches (CHR '']'') addr = addr" and end2: "trim_end_matches (CHR '']'') (addr @ '']'') = addr"
    using assms(2) dropWhile_id [of "CHR '']''" "rev addr"] by (simp_all add: trim_end_matches_def)
  have "rsplit_once ((CHR ''['' # addr) @ CHR '']'' # CHR '':'' # port) '']:'' = Some (CHR ''['' # addr, port)"
    using assms(3) by (intro rsplit_once_pair) auto
  then show "host_name (''['' @ addr @ '']:'' @ port) = addr"
    using start [of "[]"] end1 by (simp add: host_name_def starts_with_prefix)
  have "CHR '']'' \<notin> set (rev addr @ ''['')" using assms(2) by simp
  from str_find_pair_None [OF this, of "CHR '':''"]
  have "str_find (rev '']:'') (rev (''['' @ addr @ '']'')) = None" by (simp add: starts_with_prefix)
  then show "host_name (''['' @ addr @ '']'') = addr"
    using start [of "'']''"] end2 by (simp add: host_name_def starts_with_prefix rsplit_once_def)
qed

text \<open>
  The port plays no part in the loopback test: a host name with a port is judged as the
  name alone, and a bracketed IPv6 address, with a port or without, as the address.
\<close>

lemma loopback_host_ignores_port:
  assumes "CHR '':'' \<notin> set port" "CHR ''['' \<notin> set host" "CHR '']'' \<notin> set host"
  shows "(CHR '':'' \<notin> set host \<longrightarrow> is_loopback_host (host @ '':'' @ port) = is_loopback_host host)
    \<and> (host \<noteq> [] \<longrightarrow> is_loopback_host (''['' @ host @ '']:'' @ port) = is_loopback_host (''['' @ host @ '']''))
    \<and> is_loopback_host (''[::1]:'' @ port)"
proof -
  have start: "\<not> starts_with host ''[''" using assms(2) by (cases host) (auto simp: starts_with_prefix)
  have "host_name (''[::1]:'' @ port) = ''::1''"
    using host_name_bracket(1) [of "''::1''" port] assms(1) by simp
  then show ?thesis
    using host_name_plain [OF _ start] host_name_port [OF _ assms(1) start] host_name_bracket [OF assms(2,3,1)]
    by (simp add: is_loopback_host_def)
qed

end
