(* ===== verification/Login_Guard.thy ===== *)
theory Login_Guard
  imports Admission
begin

text \<open>
  The brute-force guard of \<open>crates/httpd/src/login_guard.rs\<close> and the way the authentication
  handlers of \<open>crates/httpd/src/auth_routes.rs\<close> use it: check, verify, record. The credential
  store is a parameter (\<open>verify\<close>). Times are milliseconds. The counters that the code keeps in
  32 bits stay below their thresholds or grow by one per ban, so they are naturals here; the
  call counter is a 64-bit word and wraps.
\<close>

section \<open>State\<close>

record ip_record =
  consecutive_failures :: nat
  ban_count :: nat
  banned_until :: "instant option"
  last_failure_at :: instant

record 'ip account_record =
  recent_ips :: "('ip \<times> instant) list"
  locked_until :: "instant option"

datatype block_reason = IpBanned duration | AccountLocked duration

record 'ip login_guard =
  ips :: "'ip \<Rightarrow> ip_record option"
  accounts :: "string \<Rightarrow> 'ip account_record option"
  calls :: u64

definition guard_new :: "'ip login_guard" where
  "guard_new = \<lparr>ips = Map.empty, accounts = Map.empty, calls = 0\<rparr>"

definition IP_BAN_THRESHOLD :: nat where "IP_BAN_THRESHOLD = 10"
definition IP_BAN_BASE :: duration where "IP_BAN_BASE = 300000"
definition IP_BAN_CAP :: duration where "IP_BAN_CAP = 86400000"
definition ACCOUNT_LOCKOUT_IP_THRESHOLD :: nat where "ACCOUNT_LOCKOUT_IP_THRESHOLD = 3"
definition ACCOUNT_LOCKOUT_WINDOW :: duration where "ACCOUNT_LOCKOUT_WINDOW = 900000"
definition ACCOUNT_LOCKOUT_DURATION :: duration where "ACCOUNT_LOCKOUT_DURATION = 900000"
definition CLEANUP_EVERY :: nat where "CLEANUP_EVERY = 128"

lemmas guard_constants = IP_BAN_THRESHOLD_def IP_BAN_BASE_def IP_BAN_CAP_def
  ACCOUNT_LOCKOUT_IP_THRESHOLD_def ACCOUNT_LOCKOUT_WINDOW_def ACCOUNT_LOCKOUT_DURATION_def CLEANUP_EVERY_def

section \<open>Operations\<close>

definition active :: "instant option \<Rightarrow> instant \<Rightarrow> duration option" where
  "active until now = (case until of Some u \<Rightarrow> if now < u then Some (u - now) else None | None \<Rightarrow> None)"

definition check_at :: "'ip \<Rightarrow> string \<Rightarrow> instant \<Rightarrow> 'ip login_guard \<Rightarrow> block_reason option" where
  "check_at ip account now g =
     (case Option.bind (ips g ip) (\<lambda>rec. active (banned_until rec) now) of
        Some retry_after \<Rightarrow> Some (IpBanned retry_after)
      | None \<Rightarrow>
          (case Option.bind (accounts g account) (\<lambda>rec. active (locked_until rec) now) of
             Some retry_after \<Rightarrow> Some (AccountLocked retry_after)
           | None \<Rightarrow> None))"

definition ban_duration :: "nat \<Rightarrow> duration" where
  "ban_duration bans = min (IP_BAN_BASE * push_bit (min (bans - 1) 10) 1) IP_BAN_CAP"

definition fail_ip :: "instant \<Rightarrow> ip_record option \<Rightarrow> ip_record" where
  "fail_ip now entry =
     (let rec0 = (case entry of Some rec \<Rightarrow> rec
          | None \<Rightarrow> \<lparr>consecutive_failures = 0, ban_count = 0, banned_until = None, last_failure_at = now\<rparr>);
          rec = rec0\<lparr>consecutive_failures := consecutive_failures rec0 + 1, last_failure_at := now\<rparr>
      in if IP_BAN_THRESHOLD \<le> consecutive_failures rec
         then let bans = ban_count rec + 1 in
              rec\<lparr>ban_count := bans, banned_until := Some (now + ban_duration bans), consecutive_failures := 0\<rparr>
         else rec)"

definition in_window :: "instant \<Rightarrow> 'ip \<times> instant \<Rightarrow> bool" where
  "in_window now p \<longleftrightarrow> now - snd p < ACCOUNT_LOCKOUT_WINDOW"

definition fail_account :: "'ip \<Rightarrow> instant \<Rightarrow> 'ip account_record option \<Rightarrow> 'ip account_record" where
  "fail_account ip now entry =
     (let rec0 = (case entry of Some rec \<Rightarrow> rec | None \<Rightarrow> \<lparr>recent_ips = [], locked_until = None\<rparr>);
          pruned = filter (in_window now) (recent_ips rec0);
          recent = (if ip \<in> fst ` set pruned then pruned else pruned @ [(ip, now)])
      in if ACCOUNT_LOCKOUT_IP_THRESHOLD \<le> card (fst ` set recent)
         then rec0\<lparr>recent_ips := [], locked_until := Some (now + ACCOUNT_LOCKOUT_DURATION)\<rparr>
         else rec0\<lparr>recent_ips := recent\<rparr>)"

definition keep_ip :: "instant \<Rightarrow> ip_record \<Rightarrow> bool" where
  "keep_ip now rec \<longleftrightarrow> active (banned_until rec) now \<noteq> None
     \<or> (0 < consecutive_failures rec \<and> now - last_failure_at rec < ACCOUNT_LOCKOUT_WINDOW)"

definition retain_account :: "instant \<Rightarrow> 'ip account_record \<Rightarrow> 'ip account_record option" where
  "retain_account now rec =
     (let rec' = rec\<lparr>recent_ips := filter (in_window now) (recent_ips rec)\<rparr> in
      if recent_ips rec' \<noteq> [] then Some rec'
      else if active (locked_until rec') now \<noteq> None then Some rec' else None)"

definition guard_cleanup :: "instant \<Rightarrow> 'ip login_guard \<Rightarrow> 'ip login_guard" where
  "guard_cleanup now g = g
     \<lparr>ips := (\<lambda>ip. case ips g ip of Some rec \<Rightarrow> if keep_ip now rec then Some rec else None | None \<Rightarrow> None),
      accounts := (\<lambda>a. Option.bind (accounts g a) (retain_account now))\<rparr>"

definition note_failure :: "'ip \<Rightarrow> string \<Rightarrow> instant \<Rightarrow> 'ip login_guard \<Rightarrow> 'ip login_guard" where
  "note_failure ip account now g =
     g\<lparr>ips := (ips g)(ip \<mapsto> fail_ip now (ips g ip)),
       accounts := (accounts g)(account \<mapsto> fail_account ip now (accounts g account)),
       calls := calls g + 1\<rparr>"

definition record_failure_at :: "'ip \<Rightarrow> string \<Rightarrow> instant \<Rightarrow> 'ip login_guard \<Rightarrow> 'ip login_guard" where
  "record_failure_at ip account now g =
     (let g' = note_failure ip account now g in
      if unat (calls g') mod CLEANUP_EVERY = 0 then guard_cleanup now g' else g')"

definition record_success :: "'ip \<Rightarrow> 'ip login_guard \<Rightarrow> 'ip login_guard" where
  "record_success ip g =
     (case ips g ip of
        Some rec \<Rightarrow> g\<lparr>ips := (ips g)(ip \<mapsto> rec\<lparr>consecutive_failures := 0, banned_until := None\<rparr>)\<rparr>
      | None \<Rightarrow> g)"

section \<open>The handlers\<close>

text \<open>What the credential store says of the presented credential.\<close>

datatype verdict = Verified | Rejected | StoreError

record 'ip attempt =
  att_time :: instant
  att_ip :: 'ip
  att_account :: string
  att_credential :: string

datatype login_response = Blocked block_reason | LoggedIn | Unauthorized | InternalError

definition guarded_attempt :: "('ip attempt \<Rightarrow> verdict) \<Rightarrow> 'ip login_guard \<Rightarrow> 'ip attempt
    \<Rightarrow> 'ip login_guard \<times> login_response" where
  "guarded_attempt verify g a =
     (case check_at (att_ip a) (att_account a) (att_time a) g of
        Some block \<Rightarrow> (g, Blocked block)
      | None \<Rightarrow>
          (case verify a of
             Verified \<Rightarrow> (record_success (att_ip a) g, LoggedIn)
           | Rejected \<Rightarrow> (record_failure_at (att_ip a) (att_account a) (att_time a) g, Unauthorized)
           | StoreError \<Rightarrow> (g, InternalError)))"

definition run_attempts :: "('ip attempt \<Rightarrow> verdict) \<Rightarrow> 'ip login_guard \<Rightarrow> 'ip attempt list \<Rightarrow> 'ip login_guard" where
  "run_attempts verify = foldl (\<lambda>g a. fst (guarded_attempt verify g a))"

definition guess_step :: "('ip attempt \<Rightarrow> verdict) \<Rightarrow> 'ip login_guard \<Rightarrow> 'ip attempt \<Rightarrow> 'ip login_guard \<times> bool" where
  "guess_step verify g a = (case guarded_attempt verify g a of (g', r) \<Rightarrow> (g', r = Unauthorized))"

section \<open>Bans last\<close>

lemma active_Some: "active until now = Some d \<longleftrightarrow> (\<exists>u. until = Some u \<and> now < u \<and> d = u - now)"
  by (auto simp: active_def split: option.splits)

lemma check_at_None:
  "check_at ip account now g = None \<longleftrightarrow>
     Option.bind (ips g ip) (\<lambda>rec. active (banned_until rec) now) = None
     \<and> Option.bind (accounts g account) (\<lambda>rec. active (locked_until rec) now) = None"
  by (auto simp: check_at_def split: option.splits)

definition ip_until :: "'ip login_guard \<Rightarrow> 'ip \<Rightarrow> instant option" where
  "ip_until g ip = Option.bind (ips g ip) banned_until"

definition account_until :: "'ip login_guard \<Rightarrow> string \<Rightarrow> instant option" where
  "account_until g a = Option.bind (accounts g a) locked_until"

lemma check_at_until:
  "check_at ip account now g =
     (case active (ip_until g ip) now of
        Some d \<Rightarrow> Some (IpBanned d)
      | None \<Rightarrow> map_option AccountLocked (active (account_until g account) now))"
  by (auto simp: check_at_def ip_until_def account_until_def active_def split: option.splits bind_splits)

lemma ip_until_cleanup: "now < u \<Longrightarrow> ip_until g ip = Some u \<Longrightarrow> ip_until (guard_cleanup now g) ip = Some u"
  by (auto simp: ip_until_def guard_cleanup_def keep_ip_def active_def split: bind_splits option.splits)

lemma account_until_cleanup:
  "now < u \<Longrightarrow> account_until g a = Some u \<Longrightarrow> account_until (guard_cleanup now g) a = Some u"
  by (auto simp: account_until_def guard_cleanup_def retain_account_def active_def Let_def split: bind_splits)

lemma ip_until_failure:
  assumes "now < u" "ip_until (note_failure ip' account now g) ip = Some u"
  shows "ip_until (record_failure_at ip' account now g) ip = Some u"
  using ip_until_cleanup [OF assms] assms(2) by (simp add: record_failure_at_def Let_def)

lemma account_until_failure:
  assumes "now < u" "account_until (note_failure ip a' now g) a = Some u"
  shows "account_until (record_failure_at ip a' now g) a = Some u"
  using account_until_cleanup [OF assms] assms(2) by (simp add: record_failure_at_def Let_def)

lemma until_other [simp]:
  "ip' \<noteq> ip \<Longrightarrow> ip_until (note_failure ip' account now g) ip = ip_until g ip"
  "a' \<noteq> a \<Longrightarrow> account_until (note_failure ip' a' now g) a = account_until g a"
  by (simp_all add: note_failure_def ip_until_def account_until_def)

lemma attempt_ip_until:
  assumes "ip_until g ip = Some u" "att_time a < u"
  shows "ip_until (fst (guarded_attempt verify g a)) ip = Some u"
proof (cases "att_ip a = ip")
  case True
  then have "check_at (att_ip a) (att_account a) (att_time a) g \<noteq> None"
    using assms by (simp add: check_at_until active_def)
  then show ?thesis using assms(1) by (auto simp: guarded_attempt_def)
next
  case False
  then have "ip_until (record_success (att_ip a) g) ip = Some u"
    using assms by (auto simp: record_success_def ip_until_def split: option.split)
  then show ?thesis
    using ip_until_failure [OF assms(2), of "att_ip a" "att_account a" g ip] assms(1) False
    by (auto simp: guarded_attempt_def split: option.splits verdict.splits)
qed

lemma attempt_account_until:
  assumes "account_until g acc = Some u" "att_time a < u"
  shows "account_until (fst (guarded_attempt verify g a)) acc = Some u"
proof (cases "att_account a = acc")
  case True
  then have "check_at (att_ip a) (att_account a) (att_time a) g \<noteq> None"
    using assms by (auto simp: check_at_until active_def split: option.splits)
  then show ?thesis using assms(1) by (auto simp: guarded_attempt_def)
next
  case False
  have "account_until (record_success (att_ip a) g) acc = Some u"
    using assms by (auto simp: record_success_def account_until_def split: option.splits)
  then show ?thesis
    using account_until_failure [OF assms(2), of "att_ip a" "att_account a" g acc] assms(1) False
    by (auto simp: guarded_attempt_def split: option.splits verdict.splits)
qed

lemma run_ip_until:
  "ip_until g ip = Some u \<Longrightarrow> \<forall>a \<in> set as. att_time a < u \<Longrightarrow> ip_until (run_attempts verify g as) ip = Some u"
  by (induction as arbitrary: g) (auto simp: run_attempts_def intro: attempt_ip_until)

lemma run_account_until:
  "account_until g acc = Some u \<Longrightarrow> \<forall>a \<in> set as. att_time a < u
     \<Longrightarrow> account_until (run_attempts verify g as) acc = Some u"
  by (induction as arbitrary: g) (auto simp: run_attempts_def intro: attempt_account_until)

fun retry_after :: "block_reason \<Rightarrow> duration" where
  "retry_after (IpBanned d) = d"
| "retry_after (AccountLocked d) = d"

text \<open>
  A refusal is kept: once the guard has refused an address on an account and named a
  retry delay, it refuses that address on that account at every time before the delay is
  over, whatever attempts anybody makes in between, correct ones and the periodic cleanup
  included; with no attempt in between, the address or the account is free again as soon as
  the delay is over.
\<close>

lemma block_lasts:
  assumes "check_at ip account now g = Some reason"
    and "\<forall>a \<in> set attempts. att_time a < now + retry_after reason"
  shows "(t < now + retry_after reason \<longrightarrow> check_at ip account t (run_attempts verify g attempts) \<noteq> None)
    \<and> (now + retry_after reason \<le> t \<longrightarrow>
        (case reason of IpBanned d \<Rightarrow> active (ip_until g ip) t = None | AccountLocked d \<Rightarrow> check_at ip account t g = None))"
proof (cases reason)
  case (IpBanned d)
  then obtain u where u: "ip_until g ip = Some u" "now < u" "d = u - now"
    using assms(1) by (auto simp: check_at_until active_Some split: option.splits)
  then show ?thesis
    using IpBanned assms(2) run_ip_until [OF u(1), of attempts verify]
    by (auto simp: check_at_until active_def)
next
  case (AccountLocked d)
  then obtain u where u: "account_until g account = Some u" "now < u" "d = u - now" "active (ip_until g ip) now = None"
    using assms(1) by (auto simp: check_at_until active_Some split: option.splits)
  then show ?thesis
    using AccountLocked assms(2) run_account_until [OF u(1), of attempts verify]
    by (auto simp: check_at_until active_def split: option.splits if_splits)
qed

definition demo_verify :: "nat attempt \<Rightarrow> verdict" where
  "demo_verify a = (if att_credential a = ''right'' then Verified else Rejected)"

definition demo_fail :: "nat \<Rightarrow> nat attempt" where
  "demo_fail t = \<lparr>att_time = t, att_ip = 7, att_account = ''__password__'', att_credential = ''wrong''\<rparr>"

definition demo_banned :: "nat login_guard" where
  "demo_banned = \<lparr>ips = [7 \<mapsto> \<lparr>consecutive_failures = 0, ban_count = 1, banned_until = Some 300009, last_failure_at = 9\<rparr>],
     accounts = Map.empty, calls = 10\<rparr>"

section \<open>Ban schedule\<close>

lemma ban_duration_closed: "ban_duration (Suc n) = min (300000 * 2 ^ n) 86400000"
proof (cases "n \<le> 10")
  case True
  then show ?thesis by (simp add: ban_duration_def guard_constants push_bit_eq_mult)
next
  case False
  then have "(2 :: nat) ^ 10 \<le> 2 ^ n" by (intro power_increasing) auto
  then show ?thesis using False by (simp add: ban_duration_def guard_constants push_bit_eq_mult)
qed

lemma ban_duration_pos: "300000 \<le> ban_duration (Suc n)"
  unfolding ban_duration_closed by simp

lemma ip_until_record_failure:
  assumes "ips g ip = Some rec" "consecutive_failures rec = 9"
  shows "ip_until (record_failure_at ip account now g) ip = Some (now + ban_duration (Suc (ban_count rec)))"
proof (rule ip_until_failure)
  show "now < now + ban_duration (Suc (ban_count rec))" using ban_duration_pos [of "ban_count rec"] by linarith
  show "ip_until (note_failure ip account now g) ip = Some (now + ban_duration (Suc (ban_count rec)))"
    using assms by (simp add: note_failure_def ip_until_def fail_ip_def guard_constants Let_def)
qed

text \<open>
  The ban schedule: the tenth consecutive failure of an address bans it at once, on
  every account, for five minutes doubled with each earlier ban on record and capped at one
  day; the shift that computes the factor never leaves its 32 bits, however many bans there
  were.
\<close>

lemma ban_schedule:
  assumes "ips g ip = Some rec" "consecutive_failures rec = 9"
  shows "check_at ip any_account now (record_failure_at ip account now g)
      = Some (IpBanned (min (300000 * 2 ^ ban_count rec) 86400000))
    \<and> push_bit (min (Suc (ban_count rec) - 1) 10) 1 < (2 :: nat) ^ 32"
proof -
  have "push_bit (min (ban_count rec) 10) 1 \<le> (2 :: nat) ^ 10"
    unfolding push_bit_eq_mult by (simp only: mult_1 one_le_numeral min.cobounded2 power_increasing)
  then show ?thesis
    using ip_until_record_failure [OF assms, of account now] ban_duration_pos [of "ban_count rec"]
    by (simp add: check_at_until active_def ban_duration_closed)
qed

text \<open>
  The cleanup forgets the ban count with the record, so that the escalation starts again
  from five minutes for an address whose ban is over when a cleanup runs.
\<close>

lemma cleanup_forgets_bans:
  assumes "ips g ip = Some rec" "consecutive_failures rec = 0" "banned_until rec = Some u" "u \<le> now"
  shows "ips (guard_cleanup now g) ip = None"
  using assms by (simp add: guard_cleanup_def keep_ip_def active_def)

section \<open>Guesses are rationed\<close>

text \<open>
  The record of an address against the times of its rejected guesses: the guesses since the
  last ban or forgotten record, and earlier ones at least one base ban before them.
\<close>

definition guess_inv :: "('ip attempt \<Rightarrow> verdict) \<Rightarrow> 'ip \<Rightarrow> 'ip login_guard \<Rightarrow> instant list \<Rightarrow> instant \<Rightarrow> bool" where
  "guess_inv verify ip g hist now \<longleftrightarrow> (\<forall>a. att_ip a = ip \<longrightarrow> verify a \<noteq> Verified)
     \<and> spread IP_BAN_BASE IP_BAN_THRESHOLD hist \<and> (\<forall>t \<in> set hist. t \<le> now)
     \<and> (case ips g ip of
          None \<Rightarrow> \<forall>t \<in> set hist. t + IP_BAN_BASE \<le> now
        | Some rec \<Rightarrow> consecutive_failures rec < IP_BAN_THRESHOLD
            \<and> (if consecutive_failures rec = 0
               then \<exists>u. banned_until rec = Some u \<and> (\<forall>t \<in> set hist. t + IP_BAN_BASE \<le> u)
               else \<exists>old cur. hist = old @ cur \<and> length cur = consecutive_failures rec
                 \<and> (\<forall>t \<in> set old. \<forall>t' \<in> set cur. t + IP_BAN_BASE \<le> t')
                 \<and> (\<forall>t \<in> set cur. t \<le> last_failure_at rec)))"

lemma guess_inv_mono: "guess_inv verify ip g hist now \<Longrightarrow> now \<le> now' \<Longrightarrow> guess_inv verify ip g hist now'"
  by (fastforce simp: guess_inv_def split: option.splits)

lemma guess_inv_cong:
  "ips g' ip = ips g ip \<Longrightarrow> guess_inv verify ip g' hist now = guess_inv verify ip g hist now"
  by (simp add: guess_inv_def)

lemma guess_inv_cleanup:
  assumes "guess_inv verify ip g hist now"
  shows "guess_inv verify ip (guard_cleanup now g) hist now"
proof (cases "ips (guard_cleanup now g) ip = ips g ip")
  case True
  then show ?thesis by (rule guess_inv_cong [THEN iffD2]) (rule assms)
next
  case False
  then obtain rec where rec: "ips g ip = Some rec" "\<not> keep_ip now rec" "ips (guard_cleanup now g) ip = None"
    by (auto simp: guard_cleanup_def split: option.splits if_splits)
  have "t + IP_BAN_BASE \<le> now" if "t \<in> set hist" for t
  proof (cases "consecutive_failures rec = 0")
    case True
    then obtain u where "banned_until rec = Some u" "\<forall>t \<in> set hist. t + IP_BAN_BASE \<le> u"
      using assms rec(1) by (auto simp: guess_inv_def)
    moreover from this have "u \<le> now" using rec(2) by (auto simp: keep_ip_def active_def split: if_splits)
    ultimately show ?thesis using that by fastforce
  next
    case False
    then obtain old cur where h: "hist = old @ cur" "length cur = consecutive_failures rec"
        "\<forall>t \<in> set old. \<forall>t' \<in> set cur. t + IP_BAN_BASE \<le> t'" "\<forall>t \<in> set cur. t \<le> last_failure_at rec"
      using assms rec(1) by (auto simp: guess_inv_def)
    have "ACCOUNT_LOCKOUT_WINDOW \<le> now - last_failure_at rec" using rec(2) False by (auto simp: keep_ip_def)
    then have last: "last_failure_at rec + IP_BAN_BASE \<le> now" by (simp add: guard_constants)
    have cur: "last cur \<in> set cur" using False h(2) by (intro last_in_set) auto
    show ?thesis
    proof (cases "t \<in> set cur")
      case True
      then have "t \<le> last_failure_at rec" using h(4) by blast
      then show ?thesis using last by linarith
    next
      case False
      then have "t + IP_BAN_BASE \<le> last cur" using that h(1,3) cur by simp
      moreover have "last cur \<le> last_failure_at rec" using h(4) cur by blast
      ultimately show ?thesis using last by linarith
    qed
  qed
  then show ?thesis using assms rec by (simp add: guess_inv_def)
qed

lemma guess_parts:
  assumes inv: "guess_inv verify ip g hist now" and free: "active (ip_until g ip) now = None"
  obtains old cur where "hist = old @ cur" "\<forall>t \<in> set old. \<forall>t' \<in> set cur. t + IP_BAN_BASE \<le> t'"
      "\<forall>t \<in> set old. t + IP_BAN_BASE \<le> now" "length cur < IP_BAN_THRESHOLD"
      "length cur = (case ips g ip of None \<Rightarrow> 0 | Some rec \<Rightarrow> consecutive_failures rec)"
proof (cases "ips g ip")
  case None
  then show thesis using inv by (intro that [of hist "[]"]) (auto simp: guess_inv_def guard_constants)
next
  case (Some rec)
  show thesis
  proof (cases "consecutive_failures rec = 0")
    case True
    then obtain u where u: "banned_until rec = Some u" "\<forall>t \<in> set hist. t + IP_BAN_BASE \<le> u"
      using inv Some by (auto simp: guess_inv_def)
    then have "u \<le> now" using free Some by (auto simp: ip_until_def active_def split: if_splits)
    then show thesis using u(2) True Some by (intro that [of hist "[]"]) (fastforce simp: guard_constants)+
  next
    case False
    then obtain old cur where h: "hist = old @ cur" "length cur = consecutive_failures rec"
        "\<forall>t \<in> set old. \<forall>t' \<in> set cur. t + IP_BAN_BASE \<le> t'"
      using inv Some by (auto simp: guess_inv_def)
    have lim: "consecutive_failures rec < IP_BAN_THRESHOLD" and le: "\<forall>t \<in> set hist. t \<le> now"
      using inv Some by (auto simp: guess_inv_def)
    have "last cur \<in> set cur" using False h(2) by (intro last_in_set) auto
    then have near: "last cur \<le> now" "\<forall>t \<in> set old. t + IP_BAN_BASE \<le> last cur" using h(1,3) le by auto
    then have "\<forall>t \<in> set old. t + IP_BAN_BASE \<le> now" using le_trans by blast
    then show thesis using h lim Some by (intro that [of old cur]) auto
  qed
qed

lemma guess_inv_failure:
  assumes inv: "guess_inv verify ip g hist now" and free: "active (ip_until g ip) now = None"
  shows "guess_inv verify ip (note_failure ip account now g) (hist @ [now]) now"
proof -
  obtain old cur where h: "hist = old @ cur" "\<forall>t \<in> set old. \<forall>t' \<in> set cur. t + IP_BAN_BASE \<le> t'"
      "\<forall>t \<in> set old. t + IP_BAN_BASE \<le> now" "length cur < IP_BAN_THRESHOLD"
      "length cur = (case ips g ip of None \<Rightarrow> 0 | Some rec \<Rightarrow> consecutive_failures rec)"
    by (rule guess_parts [OF assms])
  have le: "\<forall>t \<in> set hist. t \<le> now" and sp: "spread IP_BAN_BASE IP_BAN_THRESHOLD hist"
      and wrong: "\<forall>a. att_ip a = ip \<longrightarrow> verify a \<noteq> Verified"
    using inv by (auto simp: guess_inv_def)
  have "filter (\<lambda>t. now < t + IP_BAN_BASE) old = []" using h(3) by (auto simp: filter_empty_conv not_less)
  then have "length (filter (\<lambda>t. now < t + IP_BAN_BASE) hist) \<le> length cur" by (simp add: h(1))
  then have sp': "spread IP_BAN_BASE IP_BAN_THRESHOLD (hist @ [now])"
    using sp le h(4) by (intro spread_push) auto
  define rec where "rec = fail_ip now (ips g ip)"
  have rec: "ips (note_failure ip account now g) ip = Some rec" by (simp add: note_failure_def rec_def)
  show ?thesis
  proof (cases "length cur + 1 = IP_BAN_THRESHOLD")
    case True
    then obtain n where n: "consecutive_failures rec = 0" "banned_until rec = Some (now + ban_duration (Suc n))"
      using h(5) by (auto simp: rec_def fail_ip_def Let_def guard_constants split: option.splits)
    have "IP_BAN_BASE \<le> ban_duration (Suc n)" using ban_duration_pos [of n] by (simp add: guard_constants)
    then have "\<forall>t \<in> set (hist @ [now]). t + IP_BAN_BASE \<le> now + ban_duration (Suc n)"
      using le by (auto intro: add_mono)
    then show ?thesis using rec n sp' le wrong by (simp add: guess_inv_def guard_constants)
  next
    case False
    then have n: "consecutive_failures rec = length (cur @ [now])" "last_failure_at rec = now"
      using h(4,5) by (auto simp: rec_def fail_ip_def Let_def guard_constants split: option.splits)
    have "\<exists>old' cur'. hist @ [now] = old' @ cur' \<and> length cur' = consecutive_failures rec
        \<and> (\<forall>t \<in> set old'. \<forall>t' \<in> set cur'. t + IP_BAN_BASE \<le> t') \<and> (\<forall>t \<in> set cur'. t \<le> last_failure_at rec)"
      using h(1-3) n le by (intro exI [of _ old] exI [of _ "cur @ [now]"]) auto
    then show ?thesis using rec n sp' le wrong h(4) False by (simp add: guess_inv_def)
  qed
qed

lemma if_both: "P y \<Longrightarrow> P x \<Longrightarrow> P (if b then x else y)"
  by simp

lemma guess_inv_step:
  assumes "guess_inv verify ip g hist now" "now \<le> att_time a" "guess_step verify g a = (g', ok)"
  shows "guess_inv verify ip g' (if ok \<and> att_ip a = ip then hist @ [att_time a] else hist) (att_time a)"
proof -
  let ?now = "att_time a"
  have inv: "guess_inv verify ip g hist ?now" using assms(1,2) by (rule guess_inv_mono)
  have other: "att_ip a \<noteq> ip \<Longrightarrow> guess_inv verify ip (record_success (att_ip a) g) hist ?now"
    using inv by (subst guess_inv_cong) (auto simp: record_success_def split: option.split)
  have fail: "guess_inv verify ip (record_failure_at (att_ip a) (att_account a) ?now g)
      (if att_ip a = ip then hist @ [?now] else hist) ?now"
    if "check_at (att_ip a) (att_account a) ?now g = None"
  proof -
    have "active (ip_until g (att_ip a)) ?now = None"
      using that by (auto simp: check_at_until split: option.splits)
    then have "guess_inv verify ip (note_failure (att_ip a) (att_account a) ?now g)
        (if att_ip a = ip then hist @ [?now] else hist) ?now"
      using inv guess_inv_failure [OF inv, of "att_account a"]
        guess_inv_cong [of "note_failure (att_ip a) (att_account a) ?now g" ip g verify hist ?now]
      by (cases "att_ip a = ip") (simp_all add: note_failure_def)
    from this guess_inv_cleanup [OF this] show ?thesis
      unfolding record_failure_at_def Let_def by (rule if_both)
  qed
  have "att_ip a = ip \<Longrightarrow> verify a \<noteq> Verified" using inv by (simp add: guess_inv_def)
  then show ?thesis
    using assms(3) inv other fail
    by (auto simp: guess_step_def guarded_attempt_def split: option.splits verdict.splits)
qed

interpretation guess: admission "guess_step verify" att_time "\<lambda>a. att_ip a = ip" "guess_inv verify ip"
    IP_BAN_BASE IP_BAN_THRESHOLD for verify ip
proof (unfold_locales, goal_cases)
  case 1
  then show ?case by (rule guess_inv_step)
next
  case 2
  then show ?case by (simp add: guess_inv_def)
qed

lemma admitted_cong:
  assumes "\<And>a. a \<in> set as \<Longrightarrow> verify a = verify' a"
  shows "admitted (guess_step verify) att_time counted g as = admitted (guess_step verify') att_time counted g as"
  using assms
proof (induction as arbitrary: g)
  case (Cons a as)
  have "guess_step verify g a = guess_step verify' g a"
    using Cons.prems [of a] by (simp add: guess_step_def guarded_attempt_def split: option.split)
  then show ?case using Cons by simp
qed simp



end
