(* ===== verification/Tool_Policy.thy ===== *)
theory Tool_Policy
  imports Rust_Text
begin

text \<open>
  Which tools an agent may call: the glob policy of \<open>crates/common/src/tool_policy.rs\<close> and the
  layers that \<open>crates/tools/src/policy.rs\<close> merges from the configuration. The specification
  reads the layers as a list, from the most general to the most specific.
\<close>

section \<open>Policies\<close>

record tool_policy =
  allow :: "string list"
  deny :: "string list"

definition policy_default :: tool_policy where
  "policy_default = \<lparr>allow = [], deny = []\<rparr>"

definition pattern_matches :: "string \<Rightarrow> string \<Rightarrow> bool" where
  "pattern_matches pattern name =
     (if pattern = ''*'' then True
      else if pattern \<noteq> [] \<and> last pattern = CHR ''*'' then starts_with name (butlast pattern)
      else pattern = name)"

definition is_allowed :: "tool_policy \<Rightarrow> string \<Rightarrow> bool" where
  "is_allowed p name =
     (if list_ex (\<lambda>pat. pattern_matches pat name) (deny p) then False
      else allow p = [] \<or> list_ex (\<lambda>pat. pattern_matches pat name) (allow p))"

definition merge_with :: "tool_policy \<Rightarrow> tool_policy \<Rightarrow> tool_policy" where
  "merge_with p q =
     \<lparr>allow = (if allow q = [] then allow p else allow q), deny = deny p @ deny q\<rparr>"

section \<open>Configuration\<close>

record tool_policy_config =
  cfg_allow :: "string list"
  cfg_deny :: "string list"
  cfg_profile :: "string option"

record group_tool_policy =
  group_allow :: "string list"
  group_deny :: "string list"
  by_sender :: "string \<Rightarrow> tool_policy_config option"

datatype agent_mcp_policy = McpAll | McpAllow "string list" | McpDeny "string list"

record agent_tools =
  agent_allow :: "string list"
  agent_deny :: "string list"
  agent_mcp :: agent_mcp_policy

datatype sandbox_mode = SandboxOn | SandboxOff

text \<open>
  The parts of the configuration that policies come from; \<open>channel_groups\<close> is
  \<open>tool_policy_for_account\<close> followed by its \<open>groups\<close> table.
\<close>

record policy_config =
  tools_policy :: tool_policy_config
  providers :: "string \<Rightarrow> tool_policy_config option option"
  agents :: "string \<Rightarrow> agent_tools option"
  channel_groups :: "string \<Rightarrow> string \<Rightarrow> (string \<Rightarrow> group_tool_policy option) option"
  sandbox_mode_of :: sandbox_mode
  sandbox_tools_policy :: "tool_policy_config option"

record policy_context =
  agent_id :: string
  provider :: "string option"
  channel :: "string option"
  channel_account_id :: "string option"
  group_id :: "string option"
  sender_id :: "string option"

definition profile_tools :: "string \<Rightarrow> tool_policy" where
  "profile_tools profile =
     (if profile = ''minimal'' then \<lparr>allow = [''execute_command''], deny = []\<rparr>
      else if profile = ''coding'' then \<lparr>allow = [''execute_command'', ''memory''], deny = []\<rparr>
      else if profile = ''full'' then \<lparr>allow = [''*''], deny = []\<rparr>
      else policy_default)"

definition to_deny_pattern :: "string \<Rightarrow> string" where
  "to_deny_pattern server = ''mcp__'' @ server @ ''__*''"

definition nonempty :: "tool_policy \<Rightarrow> bool" where
  "nonempty p \<longleftrightarrow> allow p \<noteq> [] \<or> deny p \<noteq> []"

text \<open>A layer is merged only when it says something.\<close>

definition apply_layer :: "tool_policy \<Rightarrow> tool_policy \<Rightarrow> tool_policy" where
  "apply_layer effective p = (if nonempty p then merge_with effective p else effective)"

definition policy_from_config :: "tool_policy_config \<Rightarrow> tool_policy" where
  "policy_from_config cfg =
     (let p = (case cfg_profile cfg of Some profile \<Rightarrow> if profile \<noteq> [] then profile_tools profile else policy_default
                 | None \<Rightarrow> policy_default)
      in apply_layer p \<lparr>allow = cfg_allow cfg, deny = cfg_deny cfg\<rparr>)"

definition global_layer :: "policy_config \<Rightarrow> tool_policy \<Rightarrow> tool_policy" where
  "global_layer cfg effective =
     (let effective' = (case cfg_profile (tools_policy cfg) of
            Some profile \<Rightarrow> if profile \<noteq> [] then merge_with effective (profile_tools profile) else effective
          | None \<Rightarrow> effective)
      in apply_layer effective' \<lparr>allow = cfg_allow (tools_policy cfg), deny = cfg_deny (tools_policy cfg)\<rparr>)"

definition provider_layer :: "policy_config \<Rightarrow> policy_context \<Rightarrow> tool_policy \<Rightarrow> tool_policy" where
  "provider_layer cfg ctx effective =
     (case Option.bind (provider ctx) (providers cfg) of
        Some (Some c) \<Rightarrow> apply_layer effective (policy_from_config c)
      | _ \<Rightarrow> effective)"

definition agent_policy :: "agent_tools \<Rightarrow> tool_policy" where
  "agent_policy agent =
     \<lparr>allow = agent_allow agent,
      deny = agent_deny agent @
        (case agent_mcp agent of McpDeny servers \<Rightarrow> map to_deny_pattern servers | _ \<Rightarrow> [])\<rparr>"

definition agent_layer :: "policy_config \<Rightarrow> policy_context \<Rightarrow> tool_policy \<Rightarrow> tool_policy" where
  "agent_layer cfg ctx effective =
     (case agents cfg (agent_id ctx) of
        Some agent \<Rightarrow> apply_layer effective (agent_policy agent)
      | None \<Rightarrow> effective)"

definition context_group :: "policy_config \<Rightarrow> policy_context \<Rightarrow> group_tool_policy option" where
  "context_group cfg ctx =
     Option.bind (channel ctx) (\<lambda>ch. Option.bind (channel_account_id ctx) (\<lambda>account.
       Option.bind (group_id ctx) (\<lambda>g. Option.bind (channel_groups cfg ch account) (\<lambda>groups. groups g))))"

definition sender_layer :: "group_tool_policy \<Rightarrow> policy_context \<Rightarrow> tool_policy \<Rightarrow> tool_policy" where
  "sender_layer g ctx effective =
     (case Option.bind (sender_id ctx) (by_sender g) of
        Some c \<Rightarrow> apply_layer effective (policy_from_config c)
      | None \<Rightarrow> effective)"

definition group_layer :: "policy_config \<Rightarrow> policy_context \<Rightarrow> tool_policy \<Rightarrow> tool_policy" where
  "group_layer cfg ctx effective =
     (case context_group cfg ctx of
        Some g \<Rightarrow> sender_layer g ctx (apply_layer effective \<lparr>allow = group_allow g, deny = group_deny g\<rparr>)
      | None \<Rightarrow> effective)"

definition sandbox_layer :: "policy_config \<Rightarrow> tool_policy \<Rightarrow> tool_policy" where
  "sandbox_layer cfg effective =
     (if sandbox_mode_of cfg = SandboxOn
      then case sandbox_tools_policy cfg of
             Some c \<Rightarrow> apply_layer effective (policy_from_config c)
           | None \<Rightarrow> effective
      else effective)"

definition resolve_effective_policy :: "policy_config \<Rightarrow> policy_context \<Rightarrow> tool_policy" where
  "resolve_effective_policy cfg ctx =
     sandbox_layer cfg (group_layer cfg ctx (agent_layer cfg ctx (provider_layer cfg ctx
       (global_layer cfg policy_default))))"

section \<open>Specification\<close>

text \<open>
  The layers in order, each written as it stands in the configuration, and what they mean
  together: a tool is allowed if no layer denies it and the last layer with an allow list,
  if there is one, lists it.
\<close>

definition config_layers :: "tool_policy_config \<Rightarrow> tool_policy list" where
  "config_layers c =
     (case cfg_profile c of Some profile \<Rightarrow> [profile_tools profile] | None \<Rightarrow> [])
     @ [\<lparr>allow = cfg_allow c, deny = cfg_deny c\<rparr>]"

definition policy_layers :: "policy_config \<Rightarrow> policy_context \<Rightarrow> tool_policy list" where
  "policy_layers cfg ctx =
     config_layers (tools_policy cfg)
     @ (case Option.bind (provider ctx) (providers cfg) of Some (Some c) \<Rightarrow> config_layers c | _ \<Rightarrow> [])
     @ (case agents cfg (agent_id ctx) of Some agent \<Rightarrow> [agent_policy agent] | None \<Rightarrow> [])
     @ (case context_group cfg ctx of
          Some g \<Rightarrow> \<lparr>allow = group_allow g, deny = group_deny g\<rparr>
            # (case Option.bind (sender_id ctx) (by_sender g) of Some c \<Rightarrow> config_layers c | None \<Rightarrow> [])
        | None \<Rightarrow> [])
     @ (if sandbox_mode_of cfg = SandboxOn
        then case sandbox_tools_policy cfg of Some c \<Rightarrow> config_layers c | None \<Rightarrow> [] else [])"

definition matches_any :: "string list \<Rightarrow> string \<Rightarrow> bool" where
  "matches_any pats name \<longleftrightarrow> (\<exists>pat \<in> set pats. pattern_matches pat name)"

definition layers_allow :: "tool_policy list \<Rightarrow> string \<Rightarrow> bool" where
  "layers_allow ls name \<longleftrightarrow> (\<forall>p \<in> set ls. \<not> matches_any (deny p) name)
     \<and> (case filter (\<lambda>a. a \<noteq> []) (map allow ls) of
          [] \<Rightarrow> True
        | as \<Rightarrow> matches_any (last as) name)"

section \<open>Merging is a monoid\<close>

lemma merge_default [simp]: "merge_with policy_default p = p" "merge_with p policy_default = p"
  by (simp_all add: merge_with_def policy_default_def)

lemma merge_assoc: "merge_with (merge_with p q) r = merge_with p (merge_with q r)"
  by (simp add: merge_with_def)

lemma apply_layer_merge [simp]: "apply_layer effective p = merge_with effective p"
  by (auto simp: apply_layer_def nonempty_def merge_with_def)

definition merge_all :: "tool_policy list \<Rightarrow> tool_policy" where
  "merge_all = foldl merge_with policy_default"

lemma foldl_merge: "foldl merge_with p ls = merge_with p (merge_all ls)"
proof (induction ls arbitrary: p)
  case (Cons q ls)
  have "merge_all (q # ls) = foldl merge_with q ls" by (simp add: merge_all_def)
  then show ?case using Cons.IH [of q] Cons.IH [of "merge_with p q"] by (simp add: merge_assoc)
qed (simp add: merge_all_def)

lemma merge_all_simps [simp]:
  "merge_all [] = policy_default" "merge_all [p] = p"
  "merge_all (ls @ ks) = merge_with (merge_all ls) (merge_all ks)"
proof -
  have "merge_all (ls @ ks) = foldl merge_with (merge_all ls) ks" by (simp add: merge_all_def)
  then show "merge_all (ls @ ks) = merge_with (merge_all ls) (merge_all ks)" by (simp add: foldl_merge)
qed (simp_all add: merge_all_def)

lemma merge_all_Cons: "merge_all (p # ls) = merge_with p (merge_all ls)"
  using merge_all_simps(3) [of "[p]" ls] by simp

lemma profile_empty: "profile_tools [] = policy_default"
  by (simp add: profile_tools_def)

lemma policy_from_config_layers: "policy_from_config c = merge_all (config_layers c)"
  by (simp add: policy_from_config_def config_layers_def profile_empty Let_def split: option.split)

lemma resolve_layers: "resolve_effective_policy cfg ctx = merge_all (policy_layers cfg ctx)"
proof -
  have 1: "global_layer cfg policy_default = merge_all (config_layers (tools_policy cfg))"
    by (simp add: global_layer_def config_layers_def profile_empty Let_def split: option.split)
  have 2: "provider_layer cfg ctx e = merge_with e (merge_all
      (case Option.bind (provider ctx) (providers cfg) of Some (Some c) \<Rightarrow> config_layers c | _ \<Rightarrow> []))" for e
    by (simp add: provider_layer_def policy_from_config_layers split: option.split)
  have 3: "agent_layer cfg ctx e = merge_with e (merge_all
      (case agents cfg (agent_id ctx) of Some agent \<Rightarrow> [agent_policy agent] | None \<Rightarrow> []))" for e
    by (simp add: agent_layer_def split: option.split)
  have 4: "group_layer cfg ctx e = merge_with e (merge_all
      (case context_group cfg ctx of
          Some g \<Rightarrow> \<lparr>allow = group_allow g, deny = group_deny g\<rparr>
            # (case Option.bind (sender_id ctx) (by_sender g) of Some c \<Rightarrow> config_layers c | None \<Rightarrow> [])
        | None \<Rightarrow> []))" for e
    by (simp add: group_layer_def sender_layer_def policy_from_config_layers merge_all_Cons merge_assoc split: option.split)
  have 5: "sandbox_layer cfg e = merge_with e (merge_all
      (if sandbox_mode_of cfg = SandboxOn
        then case sandbox_tools_policy cfg of Some c \<Rightarrow> config_layers c | None \<Rightarrow> [] else []))" for e
    by (simp add: sandbox_layer_def policy_from_config_layers split: option.split)
  show ?thesis
    by (simp only: resolve_effective_policy_def policy_layers_def 1 2 3 4 5 merge_all_simps(3) merge_assoc)
qed

lemma merge_all_deny: "deny (merge_all ls) = concat (map deny ls)"
  by (induction ls) (simp_all add: merge_all_Cons policy_default_def merge_with_def)

lemma merge_all_allow:
  "allow (merge_all ls) = (let as = filter (\<lambda>a. a \<noteq> []) (map allow ls) in if as = [] then [] else last as)"
  by (induction ls rule: rev_induct) (simp_all add: policy_default_def merge_with_def Let_def)

lemma last_allow_nonempty:
  "(let as = filter (\<lambda>a. a \<noteq> []) (map allow ls) in as \<noteq> [] \<longrightarrow> last as \<noteq> [])"
  by (induction ls rule: rev_induct) (simp_all add: Let_def)

text \<open>
  C30. The effective policy is the reading of the layers: whatever the configuration and the
  context, a tool is allowed exactly when no layer, profiles and MCP server denials
  included, denies it and it is listed by the most specific layer that has an allow list, or
  no layer has one.
\<close>

theorem effective_policy_refines_layers:
  "is_allowed (resolve_effective_policy cfg ctx) name = layers_allow (policy_layers cfg ctx) name"
proof -
  let ?ls = "policy_layers cfg ctx"
  let ?as = "filter (\<lambda>a. a \<noteq> []) (map allow ?ls)"
  have "list_ex (\<lambda>pat. pattern_matches pat name) (deny (merge_all ?ls)) \<longleftrightarrow> (\<exists>p \<in> set ?ls. matches_any (deny p) name)"
    by (auto simp: list_ex_iff matches_any_def merge_all_deny)
  moreover have "allow (merge_all ?ls) = [] \<longleftrightarrow> ?as = []" "?as \<noteq> [] \<Longrightarrow> allow (merge_all ?ls) = last ?as"
    using merge_all_allow [of ?ls] last_allow_nonempty [of ?ls] by (auto simp: Let_def)
  ultimately show ?thesis
    by (cases ?as) (auto simp: resolve_layers is_allowed_def layers_allow_def matches_any_def list_ex_iff)
qed

section \<open>Patterns\<close>

lemma pattern_matches_iff:
  "pattern_matches pat name \<longleftrightarrow>
     (\<exists>p. pat = p @ ''*'' \<and> prefix p name) \<or> (pat = name \<and> \<not> (\<exists>p. pat = p @ ''*''))"
proof (cases "pat \<noteq> [] \<and> last pat = CHR ''*''")
  case True
  then have "pat = butlast pat @ ''*''" by (metis append_butlast_last_id)
  then show ?thesis using True by (auto simp: pattern_matches_def starts_with_prefix)
next
  case False
  then show ?thesis by (auto simp: pattern_matches_def)
qed

text \<open>
  A denial cannot be taken back: a tool of an MCP server that the agent's policy denies
  is refused whatever the provider, channel, sender or sandbox layers allow, and a tool that
  the global policy denies by name is refused to every agent in every context.
\<close>

lemma denials_are_final:
  "(agents cfg (agent_id ctx) = Some agent \<and> agent_mcp agent = McpDeny servers \<and> server \<in> set servers
      \<longrightarrow> \<not> is_allowed (resolve_effective_policy cfg ctx) (''mcp__'' @ server @ ''__'' @ tool))
   \<and> (tool \<in> set (cfg_deny (tools_policy cfg)) \<longrightarrow> \<not> is_allowed (resolve_effective_policy cfg ctx) tool)"
proof -
  have denied: "\<not> is_allowed (resolve_effective_policy cfg ctx) name"
    if "p \<in> set (policy_layers cfg ctx)" "pat \<in> set (deny p)" "pattern_matches pat name" for p pat name
    using that by (auto simp: is_allowed_def resolve_layers merge_all_deny list_ex_iff)
  have "pattern_matches (to_deny_pattern server) (''mcp__'' @ server @ ''__'' @ tool)"
    unfolding pattern_matches_iff to_deny_pattern_def by (intro disjI1 exI [of _ "''mcp__'' @ server @ ''__''"]) simp
  moreover have "agents cfg (agent_id ctx) = Some agent \<Longrightarrow> agent_policy agent \<in> set (policy_layers cfg ctx)"
    unfolding policy_layers_def by (simp only: option.case set_append Un_iff list.set insert_iff simp_thms)
  moreover have "agent_mcp agent = McpDeny servers \<Longrightarrow> server \<in> set servers
      \<Longrightarrow> to_deny_pattern server \<in> set (deny (agent_policy agent))"
    by (simp add: agent_policy_def)
  ultimately have mcp: "agents cfg (agent_id ctx) = Some agent \<Longrightarrow> agent_mcp agent = McpDeny servers \<Longrightarrow> server \<in> set servers
      \<Longrightarrow> \<not> is_allowed (resolve_effective_policy cfg ctx) (''mcp__'' @ server @ ''__'' @ tool)"
    using denied by blast
  let ?global = "\<lparr>allow = cfg_allow (tools_policy cfg), deny = cfg_deny (tools_policy cfg)\<rparr>"
  have "?global \<in> set (policy_layers cfg ctx)" 
    unfolding policy_layers_def config_layers_def by (simp only: set_append Un_iff list.set insert_iff simp_thms)
  moreover have "pattern_matches tool tool"
    by (auto simp: pattern_matches_def starts_with_prefix prefix_def) (metis append_butlast_last_id)
  ultimately show ?thesis using mcp denied [of ?global tool tool] by simp
qed

definition demo_config :: policy_config where
  "demo_config = \<lparr>tools_policy = \<lparr>cfg_allow = [], cfg_deny = [''browser''], cfg_profile = Some ''full''\<rparr>,
     providers = Map.empty,
     agents = [''main'' \<mapsto> \<lparr>agent_allow = [''*''], agent_deny = [], agent_mcp = McpDeny [''files'']\<rparr>],
     channel_groups = (\<lambda>_ _. None), sandbox_mode_of = SandboxOn,
     sandbox_tools_policy = Some \<lparr>cfg_allow = [''*''], cfg_deny = [], cfg_profile = None\<rparr>\<rparr>"

definition demo_context :: policy_context where
  "demo_context = \<lparr>agent_id = ''main'', provider = None, channel = None, channel_account_id = None,
     group_id = None, sender_id = None\<rparr>"

end
