(* ===== verification/Channel_Access.thy ===== *)
theory Channel_Access
  imports Rust_Text
begin

text \<open>
  Who may talk to the bot on a messaging channel: the allowlist globs of
  \<open>crates/channels/src/gating.rs\<close>, the Telegram rules of \<open>crates/telegram/src/access.rs\<close> that use
  them, and the one-time codes of \<open>crates/channels/src/otp.rs\<close> by which an unknown sender
  approves himself. Unicode lower casing is a parameter (\<open>lower\<close>), the generated code an
  argument of the operation that issues it. Times are milliseconds.
\<close>

section \<open>Globs\<close>

fun split_star :: "string \<Rightarrow> string list" where
  "split_star [] = [[]]"
| "split_star (c # s) = (if c = CHR ''*'' then [] # split_star s
     else case split_star s of p # ps \<Rightarrow> (c # p) # ps | [] \<Rightarrow> [[c]])"

fun glob_loop :: "bool \<Rightarrow> string list \<Rightarrow> string \<Rightarrow> string option" where
  "glob_loop first [] rest = Some rest"
| "glob_loop first (part # parts) rest =
     (if part = [] then glob_loop False parts rest
      else case str_find part rest of
             None \<Rightarrow> None
           | Some idx \<Rightarrow>
               if first \<and> idx \<noteq> 0 then None
               else glob_loop False parts (drop (idx + length part) rest))"

definition glob_match :: "string \<Rightarrow> string \<Rightarrow> bool" where
  "glob_match pattern text =
     (let parts = split_star pattern in
      if length parts = 1 then pattern = text
      else case glob_loop True parts text of
             None \<Rightarrow> False
           | Some rest \<Rightarrow> if last parts \<noteq> [] then rest = [] else True)"

definition is_allowed :: "(string \<Rightarrow> string) \<Rightarrow> string \<Rightarrow> string list \<Rightarrow> bool" where
  "is_allowed lower peer_id allowlist =
     (if allowlist = [] then True
      else list_ex (\<lambda>pattern. let pat = lower pattern in
             if CHR ''*'' \<in> set pat then glob_match pat (lower peer_id) else pat = lower peer_id) allowlist)"

section \<open>Meaning of a glob\<close>

text \<open>The text is the parts of the pattern in order, with anything between two of them.\<close>

fun gaps_match :: "string list \<Rightarrow> string \<Rightarrow> bool" where
  "gaps_match [] t \<longleftrightarrow> t = []"
| "gaps_match (p # ps) t \<longleftrightarrow> (\<exists>a b. t = a @ p @ b \<and> gaps_match ps b)"

definition glob_means :: "string \<Rightarrow> string \<Rightarrow> bool" where
  "glob_means pattern text \<longleftrightarrow>
     (case split_star pattern of p # ps \<Rightarrow> (\<exists>b. text = p @ b \<and> gaps_match ps b) | [] \<Rightarrow> False)"

lemma split_star_nonempty [simp]: "split_star s \<noteq> []"
  by (induction s) (auto split: list.splits)

lemma split_star_single: "split_star s = [p] \<Longrightarrow> p = s"
  by (induction s arbitrary: p) (auto split: list.splits if_splits)

lemma glob_loop_gaps:
  "glob_loop False ps t = Some r \<Longrightarrow> ps \<noteq> [] \<Longrightarrow> (last ps \<noteq> [] \<longrightarrow> r = []) \<Longrightarrow> gaps_match ps t"
proof (induction ps arbitrary: t)
  case (Cons p ps)
  show ?case
  proof (cases "p = []")
    case True
    then show ?thesis using Cons by (cases "ps = []") (auto intro: exI [of _ t] exI [of _ "[]"])
  next
    case False
    then obtain idx where idx: "str_find p t = Some idx" "glob_loop False ps (drop (idx + length p) t) = Some r"
      using Cons.prems(1) by (auto split: option.splits)
    have "gaps_match ps (drop (idx + length p) t)"
      using Cons.IH [OF idx(2)] idx(2) Cons.prems(3) False by (cases "ps = []") auto
    then show ?thesis using str_find_split [OF idx(1)] by auto
  qed
qed simp

lemma gaps_later: "gaps_match (p # ps) t \<Longrightarrow> gaps_match (p # ps) (a @ t)"
  by auto (metis append.assoc)

lemma gaps_glob_loop:
  "gaps_match ps t \<Longrightarrow> ps \<noteq> [] \<Longrightarrow> last ps = [] \<Longrightarrow> suffix t t' \<Longrightarrow> glob_loop False ps t' \<noteq> None"
proof (induction ps arbitrary: t t')
  case (Cons p ps)
  obtain a b where ab: "t = a @ p @ b" "gaps_match ps b" using Cons.prems(1) by auto
  obtain z where z: "t' = z @ t" using Cons.prems(4) by (auto simp: suffix_def)
  show ?case
  proof (cases "p = []")
    case True
    have "suffix b t'" using ab(1) z by (auto simp: suffix_def)
    then show ?thesis using Cons.IH [OF ab(2)] Cons.prems(3) True by (cases "ps = []") auto
  next
    case False
    then have ps: "ps \<noteq> []" "last ps = []" using Cons.prems(3) by (auto split: if_splits)
    have occ: "prefix p (drop (length (z @ a)) t')" by (simp add: z ab(1))
    then obtain idx where idx: "str_find p t' = Some idx"
    proof (cases "str_find p t'")
      case None
      moreover have "length (z @ a) \<le> length t'" by (simp add: z ab(1))
      ultimately show ?thesis using occ by (auto simp only: str_find_None)
    qed auto
    then have "idx \<le> length (z @ a)" using occ str_find_Some [OF idx] by (meson not_le)
    then have "suffix b (drop (idx + length p) t')"
      by (auto simp: z ab(1) suffix_def drop_append intro!: exI [of _ "drop (idx + length p) (z @ a @ p)"])
    then show ?thesis using Cons.IH [OF ab(2) ps] idx False by simp
  qed
qed simp

lemma str_find_prefix [simp]: "str_find p (p @ b) = Some 0"
  by (rule str_find_eqI) auto

lemma first_part:
  assumes "glob_loop True (p # ps) text = Some r"
  shows "\<exists>b. text = p @ b \<and> glob_loop False ps b = Some r"
proof (cases "p = []")
  case False
  then have "str_find p text = Some 0" "glob_loop False ps (drop (length p) text) = Some r"
    using assms by (auto split: option.splits if_splits)
  then show ?thesis using str_find_split [of p "text" 0] by auto
qed (use assms in simp)

lemma glob_match_means:
  assumes "glob_match pattern text"
  shows "glob_means pattern text"
proof (cases "length (split_star pattern) = 1")
  case True
  then have "split_star pattern = [pattern]"
    using split_star_single by (metis length_0_conv length_Suc_conv One_nat_def)
  then show ?thesis using assms by (simp add: glob_match_def glob_means_def)
next
  case False
  obtain p ps where split: "split_star pattern = p # ps" using split_star_nonempty by (meson neq_Nil_conv)
  then have ps: "ps \<noteq> []" using False by auto
  obtain r where r: "glob_loop True (p # ps) text = Some r" "last ps \<noteq> [] \<longrightarrow> r = []"
    using assms split ps by (auto simp: glob_match_def split: option.splits if_splits)
  then obtain b where b: "text = p @ b" "glob_loop False ps b = Some r"
    using first_part by blast
  then show ?thesis using glob_loop_gaps [OF b(2) ps] r(2) split by (auto simp: glob_means_def)
qed

lemma split_star_plain: "CHR ''*'' \<notin> set pattern \<Longrightarrow> split_star pattern = [pattern]"
  by (induction pattern) auto

lemma glob_means_plain:
  assumes "CHR ''*'' \<notin> set pattern"
  shows "glob_match pattern text = glob_means pattern text"
proof -
  have "split_star pattern = [pattern]" using assms by (rule split_star_plain)
  then show ?thesis by (auto simp: glob_match_def glob_means_def)
qed

lemma glob_means_open:
  assumes "last (split_star pattern) = []" "glob_means pattern text"
  shows "glob_match pattern text"
proof (cases "length (split_star pattern) = 1")
  case True
  then have "split_star pattern = [pattern]"
    using split_star_single by (metis length_0_conv length_Suc_conv One_nat_def)
  then show ?thesis using assms by (simp add: glob_match_def glob_means_def)
next
  case False
  obtain p ps where split: "split_star pattern = p # ps" using split_star_nonempty by (meson neq_Nil_conv)
  then have ps: "ps \<noteq> []" "last ps = []" using False assms(1) by auto
  obtain b where b: "text = p @ b" "gaps_match ps b" using assms(2) split by (auto simp: glob_means_def)
  have "glob_loop False ps b \<noteq> None" using gaps_glob_loop [OF b(2) ps] by simp
  then have "glob_loop True (p # ps) text \<noteq> None" using b(1) by (simp add: str_find_prefix)
  then show ?thesis using split ps by (auto simp: glob_match_def simp del: glob_loop.simps)
qed

text \<open>
  An allowlist glob admits only what it means: a match is always an occurrence of the
  pattern's parts in order, anchored at both ends. For a pattern that ends with a star (or
  has none) every such text is matched. For other patterns the scan takes the first
  occurrence of each part and can miss a text that the pattern means, such as \<open>abab\<close> for the
  pattern \<open>*ab\<close>: it errs on the side of refusing.
\<close>

lemma glob_match_sound:
  "(glob_match pattern text \<longrightarrow> glob_means pattern text)
   \<and> (last (split_star pattern) = [] \<or> CHR ''*'' \<notin> set pattern \<longrightarrow> glob_match pattern text = glob_means pattern text)
   \<and> glob_means ''*ab'' ''abab'' \<and> \<not> glob_match ''*ab'' ''abab''"
proof (intro conjI)
  show sound: "glob_match pattern text \<longrightarrow> glob_means pattern text" by (rule impI, rule glob_match_means)
  show "last (split_star pattern) = [] \<or> CHR ''*'' \<notin> set pattern \<longrightarrow> glob_match pattern text = glob_means pattern text"
    using sound glob_means_open glob_means_plain by blast
  show "glob_means ''*ab'' ''abab''"
    by (auto simp: glob_means_def intro!: exI [of _ "''ab''"] exI [of _ "[]"])
  show "\<not> glob_match ''*ab'' ''abab''"
    by (simp add: glob_match_def starts_with_def)
qed

section \<open>Telegram access\<close>

datatype mention_mode = Mention | MentionAlways | MentionNone
datatype dm_policy = DmOpen | DmAllowlist | DmDisabled
datatype group_policy = GroupOpen | GroupAllowlist | GroupDisabled
datatype chat_type = Dm | Group | Channel

datatype access_denied =
  DmsDisabled | NotOnAllowlist | GroupsDisabled | GroupNotOnAllowlist | MentionModeNone | NotMentioned

record telegram_account_config =
  dm_policy_of :: dm_policy
  group_policy_of :: group_policy
  mention_mode_of :: mention_mode
  allowlist :: "string list"
  group_allowlist :: "string list"

definition check_dm_access :: "(string \<Rightarrow> string) \<Rightarrow> telegram_account_config \<Rightarrow> string \<Rightarrow> string option
    \<Rightarrow> access_denied + unit" where
  "check_dm_access lower config peer_id username =
     (case dm_policy_of config of
        DmDisabled \<Rightarrow> Inl DmsDisabled
      | DmOpen \<Rightarrow> Inr ()
      | DmAllowlist \<Rightarrow>
          if allowlist config = [] then Inl NotOnAllowlist
          else if is_allowed lower peer_id (allowlist config)
            \<or> (case username of Some u \<Rightarrow> is_allowed lower u (allowlist config) | None \<Rightarrow> False)
          then Inr () else Inl NotOnAllowlist)"

definition mention_gate :: "telegram_account_config \<Rightarrow> bool \<Rightarrow> access_denied + unit" where
  "mention_gate config bot_mentioned =
     (case mention_mode_of config of
        MentionAlways \<Rightarrow> Inr ()
      | MentionNone \<Rightarrow> Inl MentionModeNone
      | Mention \<Rightarrow> if bot_mentioned then Inr () else Inl NotMentioned)"

definition check_group_access :: "(string \<Rightarrow> string) \<Rightarrow> telegram_account_config \<Rightarrow> string option \<Rightarrow> bool
    \<Rightarrow> access_denied + unit" where
  "check_group_access lower config group_id bot_mentioned =
     (case group_policy_of config of
        GroupDisabled \<Rightarrow> Inl GroupsDisabled
      | GroupAllowlist \<Rightarrow>
          (let gid = (case group_id of Some g \<Rightarrow> g | None \<Rightarrow> []) in
           if group_allowlist config = [] \<or> \<not> is_allowed lower gid (group_allowlist config)
           then Inl GroupNotOnAllowlist else mention_gate config bot_mentioned)
      | GroupOpen \<Rightarrow> mention_gate config bot_mentioned)"

definition check_access :: "(string \<Rightarrow> string) \<Rightarrow> telegram_account_config \<Rightarrow> chat_type \<Rightarrow> string
    \<Rightarrow> string option \<Rightarrow> string option \<Rightarrow> bool \<Rightarrow> access_denied + unit" where
  "check_access lower config ct peer_id username group_id bot_mentioned =
     (case ct of
        Dm \<Rightarrow> check_dm_access lower config peer_id username
      | Group \<Rightarrow> check_group_access lower config group_id bot_mentioned
      | Channel \<Rightarrow> check_group_access lower config group_id bot_mentioned)"

text \<open>What an entry of an allowlist stands for.\<close>

definition listed :: "(string \<Rightarrow> string) \<Rightarrow> string list \<Rightarrow> string \<Rightarrow> bool" where
  "listed lower entries ident \<longleftrightarrow> (\<exists>e \<in> set entries. glob_means (lower e) (lower ident))"

lemma is_allowed_listed:
  assumes "entries \<noteq> []" "is_allowed lower ident entries"
  shows "listed lower entries ident"
proof -
  obtain e where e: "e \<in> set entries" "if CHR ''*'' \<in> set (lower e) then glob_match (lower e) (lower ident) else lower e = lower ident"
    using assms by (auto simp: is_allowed_def list_ex_iff Let_def)
  have "glob_match (lower e) (lower ident)"
  proof (cases "CHR ''*'' \<in> set (lower e)")
    case False
    then have "split_star (lower e) = [lower e]" using split_star_plain by blast
    then show ?thesis using e(2) False by (simp add: glob_match_def)
  qed (use e(2) in simp)
  then show ?thesis using e(1) glob_match_means by (auto simp: listed_def)
qed

text \<open>
  Allowlists fail closed: under an allowlist policy a direct message is let through only
  from a sender whose peer id or user name an entry means, a group message only from a group
  an entry means and only under the mention rule; an empty allowlist lets nobody through,
  although the shared test reads an empty list as open.
\<close>

lemma allowlist_fails_closed:
  assumes "check_access lower config ct peer_id username group_id bot_mentioned = Inr ()"
  shows "(ct = Dm \<and> dm_policy_of config = DmAllowlist \<longrightarrow>
            listed lower (allowlist config) peer_id \<or> (\<exists>u. username = Some u \<and> listed lower (allowlist config) u))
       \<and> (ct \<noteq> Dm \<longrightarrow> mention_mode_of config \<noteq> MentionNone \<and> (mention_mode_of config = Mention \<longrightarrow> bot_mentioned)
            \<and> (group_policy_of config = GroupAllowlist \<longrightarrow>
                 listed lower (group_allowlist config) (case group_id of Some g \<Rightarrow> g | None \<Rightarrow> [])))"
proof (cases ct)
  case Dm
  then show ?thesis
    using assms is_allowed_listed
    by (auto simp: check_access_def check_dm_access_def split: if_splits option.splits)
next
  case Group
  then have "check_group_access lower config group_id bot_mentioned = Inr ()" using assms by (simp add: check_access_def)
  then show ?thesis using Group is_allowed_listed
    by (auto simp: check_group_access_def mention_gate_def Let_def split: group_policy.splits mention_mode.splits if_splits)
next
  case Channel
  then have "check_group_access lower config group_id bot_mentioned = Inr ()" using assms by (simp add: check_access_def)
  then show ?thesis using Channel is_allowed_listed
    by (auto simp: check_group_access_def mention_gate_def Let_def split: group_policy.splits mention_mode.splits if_splits)
qed

section \<open>One-time codes\<close>

definition OTP_TTL :: duration where "OTP_TTL = 300000"
definition MAX_ATTEMPTS :: nat where "MAX_ATTEMPTS = 3"

record otp_challenge =
  otp_code :: string
  otp_peer :: string
  otp_username :: "string option"
  otp_sender_name :: "string option"
  created_at :: instant
  expires_at :: instant
  attempts :: nat

record otp_state =
  challenges :: "string \<Rightarrow> otp_challenge option"
  lockouts :: "string \<Rightarrow> instant option"
  cooldown :: duration

datatype otp_init_result = Created string | AlreadyPending | InitLockedOut

datatype otp_verify_result = Approved | WrongCode nat | LockedOut | NoPending | Expired

definition otp_new :: "nat \<Rightarrow> otp_state" where
  "otp_new cooldown_secs = \<lparr>challenges = Map.empty, lockouts = Map.empty, cooldown = 1000 * cooldown_secs\<rparr>"

definition set_cooldown :: "nat \<Rightarrow> otp_state \<Rightarrow> otp_state" where
  "set_cooldown cooldown_secs s = s\<lparr>cooldown := 1000 * cooldown_secs\<rparr>"

definition locked :: "instant \<Rightarrow> instant option \<Rightarrow> bool" where
  "locked now l = (case l of Some u \<Rightarrow> now < u | None \<Rightarrow> False)"

text \<open>\<open>code\<close> is what \<open>generate_otp_code\<close> draws if a code is needed.\<close>

definition initiate :: "string \<Rightarrow> string option \<Rightarrow> string option \<Rightarrow> string \<Rightarrow> instant \<Rightarrow> otp_state
    \<Rightarrow> otp_state \<times> otp_init_result" where
  "initiate peer_id username sender_name code now s =
     (if locked now (lockouts s peer_id) then (s, InitLockedOut)
      else let s1 = s\<lparr>lockouts := (lockouts s)(peer_id := None)\<rparr> in
        if (case challenges s peer_id of Some c \<Rightarrow> now < expires_at c | None \<Rightarrow> False) then (s1, AlreadyPending)
        else (s1\<lparr>challenges := (challenges s)(peer_id \<mapsto>
                \<lparr>otp_code = code, otp_peer = peer_id, otp_username = username, otp_sender_name = sender_name,
                 created_at = now, expires_at = now + OTP_TTL, attempts = 0\<rparr>)\<rparr>, Created code))"

definition verify :: "string \<Rightarrow> string \<Rightarrow> instant \<Rightarrow> otp_state \<Rightarrow> otp_state \<times> otp_verify_result" where
  "verify peer_id code now s =
     (if locked now (lockouts s peer_id) then (s, LockedOut)
      else let s1 = s\<lparr>lockouts := (lockouts s)(peer_id := None)\<rparr>;
               removed = s1\<lparr>challenges := (challenges s)(peer_id := None)\<rparr>
           in case challenges s peer_id of
                None \<Rightarrow> (s1, NoPending)
              | Some c \<Rightarrow>
                  if expires_at c \<le> now then (removed, Expired)
                  else if otp_code c = code then (removed, Approved)
                  else let n = attempts c + 1 in
                    if MAX_ATTEMPTS \<le> n
                    then (removed\<lparr>lockouts := (lockouts s)(peer_id \<mapsto> now + cooldown s)\<rparr>, LockedOut)
                    else (s1\<lparr>challenges := (challenges s)(peer_id \<mapsto> c\<lparr>attempts := n\<rparr>)\<rparr>, WrongCode (MAX_ATTEMPTS - n)))"

definition has_pending :: "string \<Rightarrow> instant \<Rightarrow> otp_state \<Rightarrow> bool" where
  "has_pending peer_id now s = (case challenges s peer_id of Some c \<Rightarrow> now < expires_at c | None \<Rightarrow> False)"

definition is_locked_out :: "string \<Rightarrow> instant \<Rightarrow> otp_state \<Rightarrow> bool" where
  "is_locked_out peer_id now s = locked now (lockouts s peer_id)"

definition evict_expired :: "instant \<Rightarrow> otp_state \<Rightarrow> otp_state" where
  "evict_expired now s = s
     \<lparr>challenges := (\<lambda>p. case challenges s p of Some c \<Rightarrow> if now < expires_at c then Some c else None | None \<Rightarrow> None),
      lockouts := (\<lambda>p. if locked now (lockouts s p) then lockouts s p else None)\<rparr>"

text \<open>A run of the operations, with what each answered.\<close>

datatype otp_op =
  OpInitiate string "string option" "string option" string instant
| OpVerify string string instant
| OpEvict instant
| OpCooldown nat

datatype otp_event =
  Issued string string instant
| NotIssued string otp_init_result
| Checked string string otp_verify_result
| Housekeeping

fun otp_step :: "otp_state \<times> otp_event list \<Rightarrow> otp_op \<Rightarrow> otp_state \<times> otp_event list" where
  "otp_step (s, log) (OpInitiate p u n code now) =
     (case initiate p u n code now s of
        (s', Created c) \<Rightarrow> (s', log @ [Issued p c now])
      | (s', r) \<Rightarrow> (s', log @ [NotIssued p r]))"
| "otp_step (s, log) (OpVerify p code now) = (case verify p code now s of (s', r) \<Rightarrow> (s', log @ [Checked p code r]))"
| "otp_step (s, log) (OpEvict now) = (evict_expired now s, log @ [Housekeeping])"
| "otp_step (s, log) (OpCooldown secs) = (set_cooldown secs s, log @ [Housekeeping])"

definition otp_run :: "nat \<Rightarrow> otp_op list \<Rightarrow> otp_state \<times> otp_event list" where
  "otp_run secs = foldl otp_step (otp_new secs, [])"

fun spends :: "string \<Rightarrow> otp_event \<Rightarrow> bool" where
  "spends p (Checked q code r) = (q = p \<and> (\<exists>n. r = WrongCode n))"
| "spends p _ = False"

fun settles :: "string \<Rightarrow> otp_event \<Rightarrow> bool" where
  "settles p (Checked q code r) = (q = p \<and> (r = Approved \<or> r = LockedOut \<or> r = Expired))"
| "settles p (Issued q code t) = (q = p)"
| "settles p _ = False"

text \<open>The pending challenge of a peer is the last one issued to him, with his wrong codes since.\<close>

definition challenge_logged :: "string \<Rightarrow> otp_challenge \<Rightarrow> otp_event list \<Rightarrow> bool" where
  "challenge_logged p c log \<longleftrightarrow> (\<exists>pre post t0. log = pre @ Issued p (otp_code c) t0 # post
     \<and> expires_at c = t0 + OTP_TTL \<and> attempts c = length (filter (spends p) post)
     \<and> attempts c < MAX_ATTEMPTS \<and> (\<forall>e \<in> set post. \<not> settles p e))"

definition otp_ok :: "otp_state \<times> otp_event list \<Rightarrow> bool" where
  "otp_ok sl \<longleftrightarrow> (\<forall>p c. challenges (fst sl) p = Some c \<longrightarrow>
     lockouts (fst sl) p = None \<and> challenge_logged p c (snd sl))"

lemma challenge_logged_snoc:
  "challenge_logged p c log \<Longrightarrow> \<not> settles p e \<Longrightarrow> \<not> spends p e \<Longrightarrow> challenge_logged p c (log @ [e])"
  unfolding challenge_logged_def by force

lemma challenge_logged_wrong:
  assumes "challenge_logged p c log" "attempts c + 1 < MAX_ATTEMPTS"
  shows "challenge_logged p (c\<lparr>attempts := attempts c + 1\<rparr>) (log @ [Checked p code (WrongCode n)])"
proof -
  obtain pre post t0 where h: "log = pre @ Issued p (otp_code c) t0 # post" "expires_at c = t0 + OTP_TTL"
      "attempts c = length (filter (spends p) post)" "\<forall>e \<in> set post. \<not> settles p e"
    using assms(1) unfolding challenge_logged_def by blast
  show ?thesis
    unfolding challenge_logged_def
    using h assms(2) by (intro exI [of _ pre] exI [of _ "post @ [Checked p code (WrongCode n)]"] exI [of _ t0]) auto
qed

lemma challenge_logged_issue:
  "challenge_logged p \<lparr>otp_code = code, otp_peer = p, otp_username = u, otp_sender_name = n, created_at = now,
     expires_at = now + OTP_TTL, attempts = 0\<rparr> (log @ [Issued p code now])"
  unfolding challenge_logged_def
  by (intro exI [of _ log] exI [of _ "[]"] exI [of _ now]) (simp add: MAX_ATTEMPTS_def)

lemma otp_ok_other:
  assumes "otp_ok (s, log)" and "\<And>q c. challenges s' q = Some c \<Longrightarrow> q \<noteq> p \<Longrightarrow> challenges s q = Some c"
    and "\<And>q. q \<noteq> p \<Longrightarrow> lockouts s' q = lockouts s q" and "\<And>q. q \<noteq> p \<Longrightarrow> \<not> settles q e \<and> \<not> spends q e"
    and "\<And>c. challenges s' p = Some c \<Longrightarrow> lockouts s' p = None \<and> challenge_logged p c (log @ [e])"
  shows "otp_ok (s', log @ [e])"
  unfolding otp_ok_def
proof (intro allI impI)
  fix q c
  assume "challenges (fst (s', log @ [e])) q = Some c"
  then have c: "challenges s' q = Some c" by simp
  show "lockouts (fst (s', log @ [e])) q = None \<and> challenge_logged q c (snd (s', log @ [e]))"
  proof (cases "q = p")
    case False
    have "lockouts s q = None" "challenge_logged q c log"
      using assms(1) assms(2) [OF c False] by (auto simp: otp_ok_def)
    then show ?thesis using assms(3,4) [OF False] by (simp add: challenge_logged_snoc)
  qed (use assms(5) c in simp)
qed

lemma otp_ok_initiate:
  assumes ok: "otp_ok (s, log)"
  shows "otp_ok (otp_step (s, log) (OpInitiate p u n code now))"
proof -
  consider (locked) "locked now (lockouts s p)"
    | (pending) c where "\<not> locked now (lockouts s p)" "challenges s p = Some c" "now < expires_at c"
    | (fresh) "\<not> locked now (lockouts s p)" "\<not> (case challenges s p of Some c \<Rightarrow> now < expires_at c | None \<Rightarrow> False)"
    by (cases "challenges s p") auto
  then show ?thesis
  proof cases
    case locked
    then show ?thesis
      using ok by (auto simp: initiate_def intro!: otp_ok_other [of s log _ p]) (auto simp: otp_ok_def challenge_logged_snoc)
  next
    case pending
    then show ?thesis
      using ok by (auto simp: initiate_def Let_def intro!: otp_ok_other [of s log _ p]) (auto simp: otp_ok_def challenge_logged_snoc)
  next
    case fresh
    then show ?thesis
      using ok by (auto simp: initiate_def Let_def intro!: otp_ok_other [of s log _ p] challenge_logged_issue split: if_splits)
  qed
qed

lemma otp_ok_verify:
  assumes ok: "otp_ok (s, log)"
  shows "otp_ok (otp_step (s, log) (OpVerify p code now))"
proof (cases "locked now (lockouts s p) \<or> challenges s p = None")
  case True
  then have "challenges s p = None" using ok by (cases "challenges s p") (auto simp: otp_ok_def locked_def)
  then show ?thesis
    using ok by (auto simp: verify_def Let_def intro!: otp_ok_other [of s log _ p])
next
  case False
  then obtain c where c: "challenges s p = Some c" "\<not> locked now (lockouts s p)" by auto
  then have log: "challenge_logged p c log" "lockouts s p = None" using ok by (auto simp: otp_ok_def)
  show ?thesis
    using ok c challenge_logged_wrong [OF log(1)]
    by (auto simp: verify_def Let_def intro!: otp_ok_other [of s log _ p] split: if_splits)
qed

lemma otp_ok_step: "otp_ok sl \<Longrightarrow> otp_ok (otp_step sl op)"
proof (cases sl; cases op)
  fix s log now
  assume ok: "otp_ok sl" and sl: "sl = (s, log)" and op: "op = OpEvict now"
  have "challenges (evict_expired now s) p = Some c \<Longrightarrow> challenges s p = Some c" for p c
    by (auto simp: evict_expired_def split: option.splits if_splits)
  moreover have "lockouts s p = None \<Longrightarrow> lockouts (evict_expired now s) p = None" for p
    by (auto simp: evict_expired_def)
  ultimately show ?thesis using ok sl op by (auto simp: otp_ok_def challenge_logged_snoc)
next
  fix s log secs
  assume "otp_ok sl" "sl = (s, log)" "op = OpCooldown secs"
  then show ?thesis by (auto simp: otp_ok_def set_cooldown_def challenge_logged_snoc)
qed (auto intro: otp_ok_initiate otp_ok_verify simp del: otp_step.simps(1,2))

interpretation otp: run_invariant otp_step otp_ok
  by unfold_locales (rule otp_ok_step)

lemma otp_run_ok: "otp_ok (otp_run secs ops)"
  unfolding otp_run_def by (rule otp.run_inv) (simp add: otp_ok_def otp_new_def)

text \<open>
  C24. A sender is approved only by a fresh code of his own: if a submitted code is approved,
  that very code was issued to this peer less than five minutes before, and since then the
  peer has submitted at most two wrong codes, has not been approved with it, has not been
  locked out and no other code has been issued to him; for every history of the operations.
\<close>

theorem otp_approval_sound:
  assumes "otp_run secs ops = (s, log)" and "snd (verify p code now s) = Approved"
  shows "\<exists>pre t0 post. log = pre @ Issued p code t0 # post \<and> now < t0 + 300000
    \<and> length (filter (spends p) post) < 3 \<and> (\<forall>e \<in> set post. \<not> settles p e)"
proof -
  have ok: "otp_ok (s, log)" using otp_run_ok [of secs ops] assms(1) by simp
  obtain c where c: "challenges s p = Some c" "now < expires_at c" "otp_code c = code"
    using assms(2) by (auto simp: verify_def Let_def split: if_splits option.splits)
  then have "challenge_logged p c log" using ok by (auto simp: otp_ok_def)
  then obtain pre post t0 where "log = pre @ Issued p (otp_code c) t0 # post" "expires_at c = t0 + OTP_TTL"
      "length (filter (spends p) post) < MAX_ATTEMPTS" "\<forall>e \<in> set post. \<not> settles p e"
    unfolding challenge_logged_def by auto
  then show ?thesis using c by (auto simp: OTP_TTL_def MAX_ATTEMPTS_def)
qed

theorem otp_approval_sound_witness:
  "\<exists>pre t0 post. snd (otp_run 60 [OpInitiate ''p'' None None ''123456'' 5, OpVerify ''p'' ''000000'' 6])
     = pre @ Issued ''p'' ''123456'' t0 # post \<and> 7 < t0 + 300000
    \<and> length (filter (spends ''p'') post) < 3 \<and> (\<forall>e \<in> set post. \<not> settles ''p'' e)"
proof -
  let ?ops = "[OpInitiate ''p'' None None ''123456'' 5, OpVerify ''p'' ''000000'' 6]"
  have "snd (verify ''p'' ''123456'' 7 (fst (otp_run 60 ?ops))) = Approved"
    by (simp add: otp_run_def otp_new_def initiate_def verify_def locked_def OTP_TTL_def MAX_ATTEMPTS_def Let_def)
  then show ?thesis
    using otp_approval_sound [of 60 ?ops "fst (otp_run 60 ?ops)" "snd (otp_run 60 ?ops)" "''p''" "''123456''" 7] by simp
qed

section \<open>Lockouts last\<close>

fun op_time :: "otp_op \<Rightarrow> instant option" where
  "op_time (OpInitiate p u n code now) = Some now"
| "op_time (OpVerify p code now) = Some now"
| "op_time (OpEvict now) = Some now"
| "op_time (OpCooldown secs) = None"

definition before :: "instant \<Rightarrow> otp_op \<Rightarrow> bool" where
  "before u op = (case op_time op of Some t \<Rightarrow> t < u | None \<Rightarrow> True)"

lemma lockout_step:
  assumes "lockouts s p = Some u" "before u op"
  shows "lockouts (fst (otp_step (s, log) op)) p = Some u"
proof (cases op)
  case (OpInitiate q v n code now)
  then show ?thesis using assms
    by (cases "q = p") (auto simp: before_def initiate_def locked_def Let_def split: option.splits otp_init_result.splits)
next
  case (OpVerify q code now)
  then show ?thesis using assms
    by (cases "q = p") (auto simp: before_def verify_def locked_def Let_def split: option.splits)
next
  case (OpEvict now)
  then show ?thesis using assms by (simp add: before_def evict_expired_def locked_def)
next
  case (OpCooldown secs)
  then show ?thesis using assms by (simp add: set_cooldown_def)
qed

lemma lockout_run:
  "lockouts (fst sl) p = Some u \<Longrightarrow> list_all (before u) ops \<Longrightarrow> lockouts (fst (foldl otp_step sl ops)) p = Some u"
proof (induction ops arbitrary: sl)
  case (Cons op ops)
  have "lockouts (fst (otp_step sl op)) p = Some u" using lockout_step [of "fst sl" p u op "snd sl"] Cons.prems by simp
  then show ?case using Cons by simp
qed simp

text \<open>
  The third wrong code locks the peer out, and the lockout holds: from then until the
  cooldown in force at that moment is over, every code the peer submits and every new code
  he asks for is refused as locked out, whatever others do, whether or not expired entries
  are evicted and even if the cooldown is reconfigured in between.
\<close>

lemma otp_lockout_holds:
  assumes "otp_run secs ops = (s, log)" "has_pending p now s"
    and "challenges s p = Some c" "attempts c = 2" "code \<noteq> otp_code c"
    and "list_all (before (now + cooldown s)) later" "t < now + cooldown s"
  shows "snd (verify p code now s) = LockedOut
    \<and> (let s' = fst (foldl otp_step (otp_step (s, log) (OpVerify p code now)) later) in
        snd (verify p any t s') = LockedOut \<and> snd (initiate p u n any t s') = InitLockedOut)"
proof -
  have "lockouts s p = None" using otp_run_ok [of secs ops] assms(1,3) by (simp add: otp_ok_def)
  then have "verify p code now s = (s\<lparr>challenges := (challenges s)(p := None), lockouts := (lockouts s)(p \<mapsto> now + cooldown s)\<rparr>, LockedOut)"
    using assms(2-5) by (simp add: verify_def has_pending_def locked_def MAX_ATTEMPTS_def Let_def)
  moreover from this have "lockouts (fst (foldl otp_step (otp_step (s, log) (OpVerify p code now)) later)) p = Some (now + cooldown s)"
    by (intro lockout_run) (simp_all add: assms(6))
  ultimately show ?thesis using assms(7) by (simp add: verify_def initiate_def locked_def Let_def)
qed

end
