(* ===== verification/Cron_Schedule.thy ===== *)
theory Cron_Schedule
  imports Rust_Text
begin

text \<open>
  When a scheduled job runs next (\<open>crates/cron/src/schedule.rs\<close>) and how a duration is read
  (\<open>crates/cron/src/parse.rs\<close>). Times and intervals are 64-bit words and wrap as in a release
  build. The cron expression parser, the time zone database and the date arithmetic are
  third-party: they are the fields of \<open>cron_lib\<close>.
\<close>

section \<open>Schedules\<close>

datatype cron_schedule =
  At u64
| Every u64 "u64 option"
| Cron string "string option"

datatype cron_error =
  CronMessage string
| InvalidExpression string
| UnknownTimezone string
| JobNotFound string
| StoreFailed

record ('sch, 'tz, 'dt) cron_lib =
  parse_expr :: "string \<Rightarrow> 'sch option"
  parse_tz :: "string \<Rightarrow> 'tz option"
  date_of_millis :: "int \<Rightarrow> 'dt option"
  epoch_date :: 'dt
  next_after :: "'sch \<Rightarrow> 'tz option \<Rightarrow> 'dt \<Rightarrow> int option"

definition every_next :: "u64 \<Rightarrow> u64 \<Rightarrow> u64 \<Rightarrow> u64" where
  "every_next every_ms anchor now_ms =
     (let elapsed = now_ms - anchor; intervals = elapsed div every_ms in anchor + (intervals + 1) * every_ms)"

definition compute_next_run :: "('sch, 'tz, 'dt) cron_lib \<Rightarrow> cron_schedule \<Rightarrow> u64 \<Rightarrow> cron_error + u64 option" where
  "compute_next_run lib schedule now_ms =
     (case schedule of
        At at_ms \<Rightarrow> if now_ms < at_ms then Inr (Some at_ms) else Inr None
      | Every every_ms anchor_ms \<Rightarrow>
          if every_ms = 0 then Inl (CronMessage ''every_ms must be > 0'')
          else let anchor = (case anchor_ms of Some a \<Rightarrow> a | None \<Rightarrow> now_ms) in
            if now_ms < anchor then Inr (Some anchor) else Inr (Some (every_next every_ms anchor now_ms))
      | Cron expr tz \<Rightarrow>
          (case (case parse_expr lib expr of Some s \<Rightarrow> Some s | None \<Rightarrow> parse_expr lib (''0 '' @ expr @ '' *'')) of
             None \<Rightarrow> Inl (InvalidExpression expr)
           | Some s \<Rightarrow>
               (let now_dt = (case date_of_millis lib (sint now_ms) of Some d \<Rightarrow> d | None \<Rightarrow> epoch_date lib) in
                case tz of
                  None \<Rightarrow> Inr (map_option of_int (next_after lib s None now_dt))
                | Some name \<Rightarrow>
                    (case parse_tz lib name of
                       None \<Rightarrow> Inl (UnknownTimezone name)
                     | Some z \<Rightarrow> Inr (map_option of_int (next_after lib s (Some z) now_dt))))))"

lemma every_next_unat:
  assumes "0 < every" "anchor \<le> now" "unat now + unat every < 2 ^ 64"
  shows "unat (every_next every anchor now)
    = unat anchor + ((unat now - unat anchor) div unat every + 1) * unat every"
proof -
  define k where "k = (unat now - unat anchor) div unat every + 1"
  have e: "0 < unat every" using assms(1) by (simp add: unat_gt_0 word_gt_0)
  have el: "unat (now - anchor) = unat now - unat anchor" using assms(2) by (simp add: unat_sub)
  have le: "unat anchor \<le> unat now" using assms(2) by (simp add: word_le_nat_alt)
  have "k * unat every = (unat now - unat anchor) div unat every * unat every + unat every" by (simp add: k_def)
  also have "\<dots> \<le> (unat now - unat anchor) + unat every" by simp
  finally have k: "unat anchor + k * unat every \<le> unat now + unat every" using le by linarith
  have word: "every_next every anchor now = of_nat (unat anchor + k * unat every)"
    by (simp add: every_next_def k_def el [symmetric] unat_div [symmetric] algebra_simps)
  show ?thesis
    unfolding word k_def [symmetric] unsigned_of_nat of_nat_id
    by (rule take_bit_nat_eq_self) (use k assms(3) in simp)
qed

text \<open>
  A fixed interval keeps its grid: for a positive interval, an optional anchor and a time
  that leaves room for one more interval in 64 bits, the next run is the first point of the
  grid anchored there that lies strictly after now.
\<close>

lemma every_next_run_least:
  assumes "0 < every" "unat now + unat every < 2 ^ 64"
  shows "let a = unat (case anchor of Some x \<Rightarrow> x | None \<Rightarrow> now) in
    \<exists>next k. compute_next_run lib (Every every anchor) now = Inr (Some next)
    \<and> unat next = a + k * unat every \<and> unat now < unat next
    \<and> (\<forall>j. unat now < a + j * unat every \<longrightarrow> unat next \<le> a + j * unat every)"
proof -
  define x where "x = (case anchor of Some x \<Rightarrow> x | None \<Rightarrow> now)"
  define a where "a = unat x"
  note a = a_def
  have e: "0 < unat every" using assms(1) by (simp add: unat_gt_0 word_gt_0)
  have "\<exists>next k. compute_next_run lib (Every every anchor) now = Inr (Some next)
    \<and> unat next = a + k * unat every \<and> unat now < unat next
    \<and> (\<forall>j. unat now < a + j * unat every \<longrightarrow> unat next \<le> a + j * unat every)"
  proof (cases "now < x")
    case True
    then have "compute_next_run lib (Every every anchor) now = Inr (Some x)"
      using assms(1) by (simp add: compute_next_run_def x_def [symmetric] Let_def)
    then show ?thesis using True a by (intro exI [of _ x] exI [of _ 0]) (simp add: word_less_nat_alt)
  next
    case False
    define q where "q = (unat now - a) div unat every"
    have le: "x \<le> now" "a \<le> unat now" using False a by (simp_all add: word_le_nat_alt not_less)
    have next_run: "compute_next_run lib (Every every anchor) now = Inr (Some (every_next every x now))"
      using assms(1) False by (simp add: compute_next_run_def x_def [symmetric] Let_def)
    have u: "unat (every_next every x now) = a + (q + 1) * unat every"
      using every_next_unat [OF assms(1) le(1) assms(2)] by (simp add: a q_def)
    have "unat now - a = q * unat every + (unat now - a) mod unat every" by (simp add: q_def)
    moreover have "(unat now - a) mod unat every < unat every" using e by simp
    ultimately have q: "q * unat every \<le> unat now - a" "unat now - a < (q + 1) * unat every"
      unfolding add_mult_distrib mult_1 by linarith+
    have "a + (q + 1) * unat every \<le> a + j * unat every" if "unat now < a + j * unat every" for j
    proof -
      have "q * unat every < j * unat every" using q(1) le(2) that by linarith
      then have "q + 1 \<le> j" by simp
      then show ?thesis by (intro add_left_mono mult_right_mono) simp_all
    qed
    then show ?thesis using next_run u q(2) le(2) by (intro exI [of _ "every_next every x now"] exI [of _ "q + 1"]) auto
  qed
  then show ?thesis by (simp only: Let_def a_def x_def)
qed

definition demo_lib :: "(nat, nat, nat) cron_lib" where
  "demo_lib = \<lparr>parse_expr = (\<lambda>_. None), parse_tz = (\<lambda>_. None), date_of_millis = (\<lambda>_. None), epoch_date = 0,
     next_after = (\<lambda>_ _ _. None)\<rparr>"

section \<open>Durations\<close>

text \<open>\<open>char::is_alphabetic\<close> on the characters of the model.\<close>

definition is_alphabetic :: "char \<Rightarrow> bool" where
  "is_alphabetic c \<longleftrightarrow> (let n = of_char c :: nat in (65 \<le> n \<and> n \<le> 90) \<or> (97 \<le> n \<and> n \<le> 122)
     \<or> n = 170 \<or> n = 181 \<or> n = 186 \<or> (192 \<le> n \<and> n \<noteq> 215 \<and> n \<noteq> 247))"

definition duration_unit :: "string \<Rightarrow> u64 option" where
  "duration_unit sfx =
     (if sfx = ''s'' then Some 1000
      else if sfx = ''m'' then Some 60000
      else if sfx = ''h'' then Some 3600000
      else if sfx = ''d'' then Some 86400000
      else None)"

definition parse_duration_ms :: "string \<Rightarrow> cron_error + u64" where
  "parse_duration_ms raw =
     (let input = trim raw in
      if input = [] then Inl (CronMessage ''empty duration string'')
      else if input = ''0'' then Inr 0
      else if \<not> list_ex is_alphabetic input
        then Inl (CronMessage (''duration missing unit suffix (s/m/h/d): '' @ input))
      else let num_str = takeWhile (\<lambda>c. \<not> is_alphabetic c) input;
               sfx = dropWhile (\<lambda>c. \<not> is_alphabetic c) input
           in case parse_u64 num_str of
                None \<Rightarrow> Inl (CronMessage (''invalid number in duration: '' @ num_str))
              | Some value \<Rightarrow>
                  if value = 0 then Inl (CronMessage ''duration must be > 0'')
                  else case duration_unit sfx of
                         Some unit \<Rightarrow> Inr (of_nat value * unit)
                       | None \<Rightarrow> Inl (CronMessage (''unknown duration suffix: '' @ sfx @ '' (expected s/m/h/d)'')))"

lemma digit_plain: "is_ascii_digit c \<Longrightarrow> \<not> is_alphabetic c \<and> \<not> is_whitespace c"
  by (auto simp: is_ascii_digit_def is_alphabetic_def is_whitespace_def Let_def)

lemma trim_id:
  assumes "s \<noteq> []" "\<not> is_whitespace (hd s)" "\<not> is_whitespace (last s)"
  shows "trim s = s"
proof -
  have "trim_start s = s" using assms(1,2) by (cases s) (auto simp: trim_start_def)
  moreover have "dropWhile is_whitespace (rev s) = rev s"
    using assms(1,3) by (cases "rev s") (auto simp: hd_rev [symmetric])
  ultimately show ?thesis by (simp add: trim_def trim_end_def)
qed

lemma duration_unit_chars:
  assumes "duration_unit sfx = Some unit"
  obtains c where "sfx = [c]" "is_alphabetic c" "\<not> is_whitespace c"
  using assms
  by (auto simp: duration_unit_def is_alphabetic_def is_whitespace_def split: if_splits)

text \<open>
  C38. Durations round-trip: a positive number of seconds, minutes, hours or days, written
  out with its unit, is read as that many milliseconds whenever these fit in 64 bits.
\<close>

theorem duration_roundtrip:
  assumes "0 < n" "duration_unit sfx = Some unit" "n * unat unit < 2 ^ 64"
  shows "parse_duration_ms (show_nat n @ sfx) = Inr (of_nat (n * unat unit))"
proof -
  obtain c where c: "sfx = [c]" "is_alphabetic c" "\<not> is_whitespace c" using assms(2) by (rule duration_unit_chars)
  note d = show_nat_digits [of n]
  have digits: "\<forall>x \<in> set (show_nat n). \<not> is_alphabetic x" using d digit_plain by (auto simp: list_all_iff)
  have "\<not> is_whitespace (hd (show_nat n))" using d digit_plain by (auto simp: list_all_iff)
  then have trimmed: "trim (show_nat n @ sfx) = show_nat n @ [c]" 
    unfolding c(1) using c(3) d by (intro trim_id) auto
  have not0: "show_nat n @ [c] \<noteq> ''0''" using d by (cases "show_nat n") auto
  have "0 < unat unit" using assms(2) by (auto simp: duration_unit_def split: if_splits)
  then have "n \<le> n * unat unit" by simp
  then have "parse_u64 (show_nat n) = Some n" using assms(3) by (intro parse_show_nat) linarith
  moreover have "takeWhile (\<lambda>c. \<not> is_alphabetic c) (show_nat n @ [c]) = show_nat n"
    "dropWhile (\<lambda>c. \<not> is_alphabetic c) (show_nat n @ [c]) = [c]"
    using digits c(2) by (simp_all add: takeWhile_append2 dropWhile_append2)
  ultimately show ?thesis
    using assms(1,2) c(1,2) not0 d unfolding parse_duration_ms_def trimmed Let_def by simp
qed

theorem duration_roundtrip_witness: "parse_duration_ms (show_nat 90 @ ''m'') = Inr 5400000"
  using duration_roundtrip [of 90 "''m''" 60000] by (simp add: duration_unit_def)

text \<open>
  A duration that does not fit is not refused: the product wraps. The number of days below
  is read as less than a day.
\<close>

lemma duration_wraps: "parse_duration_ms ''213503982335d'' = Inr 34448384"
  by (simp add: parse_duration_ms_def trim_def trim_start_def trim_end_def is_whitespace_def is_alphabetic_def
      parse_u64_def is_ascii_digit_def duration_unit_def)

end
