(* ===== verification/Cron_Service.thy ===== *)
theory Cron_Service
  imports Admission Cron_Schedule
begin

text \<open>
  The cron scheduler of \<open>crates/cron/src/service.rs\<close> over the store of
  \<open>crates/cron/src/store_memory.rs\<close>. Every operation is one step on the service; an execution
  is two steps, its start and its end, so that anything may happen between them. The clock,
  the generated job ids and the outcome of an agent turn are arguments. What a turn carries
  for other components (model override, tool choice) is kept as its JSON.
\<close>

section \<open>Jobs\<close>

record cron_agent_turn =
  turn_message :: string
  turn_model_override :: "json option"
  turn_agent_id :: "string option"
  turn_timeout_secs :: "u64 option"
  turn_tool_choice :: "json option"
  deliver :: bool
  turn_channel :: "string option"
  turn_to :: "string option"

datatype cron_payload = SystemEvent string | AgentTurn cron_agent_turn

datatype session_target = MainSession | Isolated

datatype run_status = RunOk | RunError | RunSkipped

record cron_job_state =
  next_run_at_ms :: "u64 option"
  running_at_ms :: "u64 option"
  last_run_at_ms :: "u64 option"
  last_status :: "run_status option"
  last_error :: "string option"
  last_duration_ms :: "u64 option"

definition job_state_default :: cron_job_state where
  "job_state_default = \<lparr>next_run_at_ms = None, running_at_ms = None, last_run_at_ms = None,
     last_status = None, last_error = None, last_duration_ms = None\<rparr>"

record cron_job =
  job_id :: string
  job_name :: string
  enabled :: bool
  delete_after_run :: bool
  schedule :: cron_schedule
  payload :: cron_payload
  target :: session_target
  jstate :: cron_job_state
  auto_prune_container :: "bool option"
  created_at_ms :: u64
  updated_at_ms :: u64

record cron_run_record =
  run_job_id :: string
  started_at_ms :: u64
  finished_at_ms :: u64
  run_status_of :: run_status
  run_error :: "string option"
  duration_ms :: u64
  run_output :: "string option"
  input_tokens :: "u64 option"
  output_tokens :: "u64 option"
  run_session_key :: "string option"

record cron_job_create =
  create_name :: string
  create_schedule :: cron_schedule
  create_payload :: cron_payload
  create_target :: session_target
  create_delete_after_run :: bool
  create_enabled :: bool
  create_auto_prune :: "bool option"

record cron_job_patch =
  patch_name :: "string option"
  patch_schedule :: "cron_schedule option"
  patch_payload :: "cron_payload option"
  patch_target :: "session_target option"
  patch_enabled :: "bool option"
  patch_delete_after_run :: "bool option"
  patch_auto_prune :: "bool option option"

section \<open>Store\<close>

record cron_store =
  stored_jobs :: "string \<Rightarrow> cron_job option"
  stored_runs :: "string \<Rightarrow> cron_run_record list"

definition store_new :: cron_store where
  "store_new = \<lparr>stored_jobs = Map.empty, stored_runs = (\<lambda>_. [])\<rparr>"

definition save_job :: "cron_job \<Rightarrow> cron_store \<Rightarrow> cron_store" where
  "save_job job st = st\<lparr>stored_jobs := (stored_jobs st)(job_id job \<mapsto> job)\<rparr>"

definition delete_job :: "string \<Rightarrow> cron_store \<Rightarrow> cron_store \<times> (cron_error + unit)" where
  "delete_job i st =
     (case stored_jobs st i of
        None \<Rightarrow> (st, Inl (JobNotFound i))
      | Some _ \<Rightarrow> (st\<lparr>stored_jobs := (stored_jobs st)(i := None)\<rparr>, Inr ()))"

definition update_job :: "cron_job \<Rightarrow> cron_store \<Rightarrow> cron_store \<times> (cron_error + unit)" where
  "update_job job st =
     (case stored_jobs st (job_id job) of
        None \<Rightarrow> (st, Inl (JobNotFound (job_id job)))
      | Some _ \<Rightarrow> (st\<lparr>stored_jobs := (stored_jobs st)(job_id job \<mapsto> job)\<rparr>, Inr ()))"

definition append_run :: "string \<Rightarrow> cron_run_record \<Rightarrow> cron_store \<Rightarrow> cron_store" where
  "append_run i run st = st\<lparr>stored_runs := (stored_runs st)(i := stored_runs st i @ [run])\<rparr>"

definition get_runs :: "string \<Rightarrow> nat \<Rightarrow> cron_store \<Rightarrow> cron_run_record list" where
  "get_runs i limit st = (let records = stored_runs st i in drop (length records - limit) records)"

section \<open>Service\<close>

record cron_rate_limiter =
  timestamps :: "u64 list"
  max_per_window :: nat
  window_ms :: u64

definition saturating_sub :: "u64 \<Rightarrow> u64 \<Rightarrow> u64" where
  "saturating_sub a b = (if b \<le> a then a - b else 0)"

definition limiter_check :: "u64 \<Rightarrow> cron_rate_limiter \<Rightarrow> cron_rate_limiter \<times> (cron_error + unit)" where
  "limiter_check now rl =
     (let cutoff = saturating_sub now (window_ms rl);
          kept = dropWhile (\<lambda>t. t < cutoff) (timestamps rl)
      in if max_per_window rl \<le> length kept
         then (rl\<lparr>timestamps := kept\<rparr>, Inl (CronMessage (''rate limit exceeded: max '' @ show_nat (max_per_window rl)
             @ '' jobs per '' @ show_nat (unat (window_ms rl div 1000)) @ '' seconds'')))
         else (rl\<lparr>timestamps := kept @ [now]\<rparr>, Inr ()))"

record cron_service =
  store :: cron_store
  jobs :: "cron_job list"
  running :: bool
  rate_limiter :: cron_rate_limiter

definition STUCK_THRESHOLD_MS :: u64 where
  "STUCK_THRESHOLD_MS = 2 * 60 * 60 * 1000"

definition service_new :: "nat \<Rightarrow> u64 \<Rightarrow> cron_service" where
  "service_new max_jobs window = \<lparr>store = store_new, jobs = [], running = False,
     rate_limiter = \<lparr>timestamps = [], max_per_window = max_jobs, window_ms = window\<rparr>\<rparr>"

definition validate_job_spec :: "cron_job \<Rightarrow> cron_error + unit" where
  "validate_job_spec job =
     (case (target job, payload job) of
        (MainSession, AgentTurn _) \<Rightarrow> Inl (CronMessage ''sessionTarget=main requires payload kind=systemEvent'')
      | (Isolated, SystemEvent _) \<Rightarrow> Inl (CronMessage ''sessionTarget=isolated requires payload kind=agentTurn'')
      | (_, p) \<Rightarrow>
          (case p of
             SystemEvent _ \<Rightarrow> Inr ()
           | AgentTurn t \<Rightarrow>
               if \<not> deliver t then Inr ()
               else if turn_channel t = None \<or> turn_channel t = Some []
                 then Inl (CronMessage ''deliver=true requires a non-empty 'channel' (account_id)'')
               else if turn_to t = None \<or> turn_to t = Some []
                 then Inl (CronMessage ''deliver=true requires a non-empty 'to' (chat_id)'')
               else Inr ()))"

definition map_job :: "string \<Rightarrow> (cron_job \<Rightarrow> cron_job) \<Rightarrow> cron_job list \<Rightarrow> cron_job list" where
  "map_job i f = update_first (\<lambda>j. job_id j = i) f"

definition find_job :: "string \<Rightarrow> cron_job list \<Rightarrow> cron_job option" where
  "find_job i = find (\<lambda>j. job_id j = i)"

definition set_next_run :: "u64 option \<Rightarrow> cron_job \<Rightarrow> cron_job" where
  "set_next_run n job = job\<lparr>jstate := (jstate job)\<lparr>next_run_at_ms := n\<rparr>\<rparr>"

definition set_running :: "u64 option \<Rightarrow> cron_job \<Rightarrow> cron_job" where
  "set_running r job = job\<lparr>jstate := (jstate job)\<lparr>running_at_ms := r\<rparr>\<rparr>"

definition recompute_job :: "('sch, 'tz, 'dt) cron_lib \<Rightarrow> u64 \<Rightarrow> cron_job \<Rightarrow> cron_job" where
  "recompute_job lib now job =
     (if enabled job
      then set_next_run (case compute_next_run lib (schedule job) now of Inr n \<Rightarrow> n | Inl _ \<Rightarrow> None) job
      else job)"

text \<open>\<open>start\<close>: \<open>loaded\<close> is the order in which the store returns its jobs.\<close>

definition start :: "('sch, 'tz, 'dt) cron_lib \<Rightarrow> cron_job list \<Rightarrow> u64 \<Rightarrow> cron_service \<Rightarrow> cron_service" where
  "start lib loaded now s = s\<lparr>jobs := map (recompute_job lib now) loaded, running := True\<rparr>"

definition stop :: "cron_service \<Rightarrow> cron_service" where
  "stop s = s\<lparr>running := False\<rparr>"

definition add :: "('sch, 'tz, 'dt) cron_lib \<Rightarrow> string \<Rightarrow> cron_job_create \<Rightarrow> u64 \<Rightarrow> cron_service
    \<Rightarrow> cron_service \<times> (cron_error + cron_job)" where
  "add lib uuid c now s =
     (case limiter_check now (rate_limiter s) of
        (rl, Inl e) \<Rightarrow> (s\<lparr>rate_limiter := rl\<rparr>, Inl e)
      | (rl, Inr _) \<Rightarrow>
          (let s1 = s\<lparr>rate_limiter := rl\<rparr>;
               job = \<lparr>job_id = uuid, job_name = create_name c, enabled = create_enabled c,
                      delete_after_run = create_delete_after_run c, schedule = create_schedule c,
                      payload = create_payload c, target = create_target c, jstate = job_state_default,
                      auto_prune_container = create_auto_prune c, created_at_ms = now, updated_at_ms = now\<rparr>
           in case validate_job_spec job of
                Inl e \<Rightarrow> (s1, Inl e)
              | Inr _ \<Rightarrow>
                  (case (if enabled job then compute_next_run lib (schedule job) now else Inr None) of
                     Inl e \<Rightarrow> (s1, Inl e)
                   | Inr n \<Rightarrow>
                       (let job' = set_next_run n job in
                        (s1\<lparr>store := save_job job' (store s1), jobs := jobs s1 @ [job']\<rparr>, Inr job')))))"

definition apply_patch :: "cron_job_patch \<Rightarrow> u64 \<Rightarrow> cron_job \<Rightarrow> cron_job" where
  "apply_patch p now job = job
     \<lparr>job_name := (case patch_name p of Some x \<Rightarrow> x | None \<Rightarrow> job_name job),
      schedule := (case patch_schedule p of Some x \<Rightarrow> x | None \<Rightarrow> schedule job),
      payload := (case patch_payload p of Some x \<Rightarrow> x | None \<Rightarrow> payload job),
      target := (case patch_target p of Some x \<Rightarrow> x | None \<Rightarrow> target job),
      enabled := (case patch_enabled p of Some x \<Rightarrow> x | None \<Rightarrow> enabled job),
      delete_after_run := (case patch_delete_after_run p of Some x \<Rightarrow> x | None \<Rightarrow> delete_after_run job),
      auto_prune_container := (case patch_auto_prune p of Some x \<Rightarrow> x | None \<Rightarrow> auto_prune_container job),
      updated_at_ms := now\<rparr>"

text \<open>The patch is written into the job in place: a later error returns with it applied.\<close>

definition update :: "('sch, 'tz, 'dt) cron_lib \<Rightarrow> string \<Rightarrow> cron_job_patch \<Rightarrow> u64 \<Rightarrow> cron_service
    \<Rightarrow> cron_service \<times> (cron_error + cron_job)" where
  "update lib i p now s =
     (case find_job i (jobs s) of
        None \<Rightarrow> (s, Inl (JobNotFound i))
      | Some job \<Rightarrow>
          (let job1 = apply_patch p now job; s1 = s\<lparr>jobs := map_job i (\<lambda>_. job1) (jobs s)\<rparr> in
           case validate_job_spec job1 of
             Inl e \<Rightarrow> (s1, Inl e)
           | Inr _ \<Rightarrow>
               (case (if enabled job1 then compute_next_run lib (schedule job1) now else Inr None) of
                  Inl e \<Rightarrow> (s1, Inl e)
                | Inr n \<Rightarrow>
                    (let job2 = set_next_run n job1; s2 = s\<lparr>jobs := map_job i (\<lambda>_. job2) (jobs s)\<rparr> in
                     case update_job job2 (store s) of
                       (st, Inl e) \<Rightarrow> (s2, Inl e)
                     | (st, Inr _) \<Rightarrow> (s2\<lparr>store := st\<rparr>, Inr job2)))))"

definition remove :: "string \<Rightarrow> cron_service \<Rightarrow> cron_service \<times> (cron_error + unit)" where
  "remove i s =
     (case delete_job i (store s) of
        (st, Inl e) \<Rightarrow> (s, Inl e)
      | (st, Inr _) \<Rightarrow> (s\<lparr>store := st, jobs := filter (\<lambda>j. job_id j \<noteq> i) (jobs s)\<rparr>, Inr ()))"

definition ms_until_next_wake :: "u64 \<Rightarrow> cron_service \<Rightarrow> u64" where
  "ms_until_next_wake now s =
     (let waits = map (\<lambda>t. saturating_sub t now)
            (List.map_filter (\<lambda>j. next_run_at_ms (jstate j)) (filter enabled (jobs s)))
      in if waits = [] then 60000 else Min (set waits))"

definition is_due :: "u64 \<Rightarrow> cron_job \<Rightarrow> bool" where
  "is_due now job \<longleftrightarrow> enabled job
     \<and> (case next_run_at_ms (jstate job) of Some t \<Rightarrow> t \<le> now | None \<Rightarrow> False)
     \<and> running_at_ms (jstate job) = None"

definition clear_stuck_job :: "u64 \<Rightarrow> cron_job \<Rightarrow> cron_job" where
  "clear_stuck_job now job =
     (case running_at_ms (jstate job) of
        Some t \<Rightarrow>
          if STUCK_THRESHOLD_MS < saturating_sub now t
          then job\<lparr>jstate := (jstate job)\<lparr>running_at_ms := None, last_status := Some RunError,
                 last_error := Some ''stuck: exceeded 2h timeout''\<rparr>\<rparr>
          else job
      | None \<Rightarrow> job)"

text \<open>The jobs to spawn, as cloned after they were marked.\<close>

definition process_due_jobs :: "u64 \<Rightarrow> cron_service \<Rightarrow> cron_service \<times> cron_job list" where
  "process_due_jobs now s =
     (let marked = map (\<lambda>j. if is_due now j then set_running (Some now) j else j) (jobs s);
          due = map (set_running (Some now)) (filter (is_due now) (jobs s))
      in (s\<lparr>jobs := map (clear_stuck_job now) marked\<rparr>, due))"

text \<open>\<open>run\<close>: the forced start of a job, up to the point where it executes.\<close>

definition run_begin :: "string \<Rightarrow> bool \<Rightarrow> u64 \<Rightarrow> cron_service \<Rightarrow> cron_service \<times> (cron_error + cron_job)" where
  "run_begin i force now s =
     (case find_job i (jobs s) of
        None \<Rightarrow> (s, Inl (JobNotFound i))
      | Some job \<Rightarrow>
          if \<not> enabled job \<and> \<not> force
          then (s, Inl (CronMessage ''job is disabled (use force=true to override)''))
          else (s\<lparr>jobs := map_job i (set_running (Some now)) (jobs s)\<rparr>, Inr job))"

record agent_turn_result =
  turn_output :: string
  turn_input_tokens :: "u64 option"
  turn_output_tokens :: "u64 option"
  turn_session_key :: "string option"

definition event_injected :: agent_turn_result where
  "event_injected = \<lparr>turn_output = ''system event injected'', turn_input_tokens = None,
     turn_output_tokens = None, turn_session_key = None\<rparr>"

definition run_record :: "cron_job \<Rightarrow> u64 \<Rightarrow> u64 \<Rightarrow> string + agent_turn_result \<Rightarrow> cron_run_record" where
  "run_record job started finished result =
     (case result of
        Inr r \<Rightarrow> \<lparr>run_job_id = job_id job, started_at_ms = started, finished_at_ms = finished,
          run_status_of = RunOk, run_error = None, duration_ms = finished - started,
          run_output = Some (turn_output r), input_tokens = turn_input_tokens r,
          output_tokens = turn_output_tokens r, run_session_key = turn_session_key r\<rparr>
      | Inl e \<Rightarrow> \<lparr>run_job_id = job_id job, started_at_ms = started, finished_at_ms = finished,
          run_status_of = RunError, run_error = Some e, duration_ms = finished - started,
          run_output = None, input_tokens = None, output_tokens = None, run_session_key = None\<rparr>)"

definition persist_job :: "string \<Rightarrow> cron_service \<Rightarrow> cron_service" where
  "persist_job i s =
     (case find_job i (jobs s) of
        Some j \<Rightarrow> s\<lparr>store := fst (update_job j (store s))\<rparr>
      | None \<Rightarrow> s)"

text \<open>
  \<open>execute_job\<close> from the moment the turn has answered: \<open>turn\<close> is what an agent turn returned;
  a system event always succeeds. The job is the copy taken when it was started.
\<close>

definition finish_job :: "('sch, 'tz, 'dt) cron_lib \<Rightarrow> cron_job \<Rightarrow> u64 \<Rightarrow> u64 \<Rightarrow> u64 \<Rightarrow> string + agent_turn_result
    \<Rightarrow> cron_service \<Rightarrow> cron_service" where
  "finish_job lib job started finished now turn s =
     (let result = (case payload job of SystemEvent _ \<Rightarrow> Inr event_injected | AgentTurn _ \<Rightarrow> turn);
          run = run_record job started finished result;
          s1 = s\<lparr>store := append_run (job_id job) run (store s)\<rparr>;
          next_run = (case compute_next_run lib (schedule job) now of Inr n \<Rightarrow> n | Inl _ \<Rightarrow> None);
          s2 = s1\<lparr>jobs := map_job (job_id job) (\<lambda>j. j\<lparr>jstate := (jstate j)
                 \<lparr>running_at_ms := None, last_run_at_ms := Some finished, last_status := Some (run_status_of run),
                  last_error := run_error run, last_duration_ms := Some (duration_ms run),
                  next_run_at_ms := next_run\<rparr>\<rparr>) (jobs s1)\<rparr>
      in if next_run = None
         then if delete_after_run job then fst (remove (job_id job) s2)
              else persist_job (job_id job) (s2\<lparr>jobs := map_job (job_id job) (\<lambda>j. j\<lparr>enabled := False\<rparr>) (jobs s2)\<rparr>)
         else persist_job (job_id job) s2)"

section \<open>Interleavings of the timer\<close>

text \<open>
  A configuration: the service, the executions under way and the ids of all executions the
  timer has started. Time does not go back. With \<open>only = Some (i, a)\<close> the job \<open>i\<close> is a one-shot
  at \<open>a\<close> that nobody reschedules. Forced runs are left out, and no execution outlives the
  two hours after which the scheduler gives it up.
\<close>

type_synonym cron_config = "cron_service \<times> cron_job list \<times> string list"

definition pinned :: "(string \<times> u64) option \<Rightarrow> string \<Rightarrow> cron_schedule \<Rightarrow> bool" where
  "pinned only i sch = (case only of Some (k, a) \<Rightarrow> i = k \<longrightarrow> sch = At a | None \<Rightarrow> True)"

definition not_stuck :: "u64 \<Rightarrow> cron_job \<Rightarrow> bool" where
  "not_stuck now x \<longleftrightarrow> (\<forall>m. running_at_ms (jstate x) = Some m \<longrightarrow> \<not> STUCK_THRESHOLD_MS < saturating_sub now m)"

inductive timer_reach :: "('sch, 'tz, 'dt) cron_lib \<Rightarrow> (string \<times> u64) option \<Rightarrow> u64 \<Rightarrow> cron_config \<Rightarrow> bool"
  for lib only where
  init: "distinct (map job_id loaded) \<Longrightarrow> list_all (\<lambda>j. pinned only (job_id j) (schedule j)) loaded
    \<Longrightarrow> timer_reach lib only now (start lib loaded now s, [], [])"
| tick: "timer_reach lib only t (s, ex, fired) \<Longrightarrow> t \<le> now \<Longrightarrow> list_all (not_stuck now) ex
    \<Longrightarrow> process_due_jobs now s = (s', due)
    \<Longrightarrow> timer_reach lib only now (s', ex @ due, fired @ map job_id due)"
| finish: "timer_reach lib only t (s, xs @ x # ys, fired) \<Longrightarrow> t \<le> finished \<Longrightarrow> finished \<le> now
    \<Longrightarrow> timer_reach lib only now (finish_job lib x started finished now turn s, xs @ ys, fired)"
| add: "timer_reach lib only t (s, ex, fired) \<Longrightarrow> t \<le> now
    \<Longrightarrow> uuid \<notin> job_id ` set (jobs s) \<union> job_id ` set ex \<union> set fired
    \<Longrightarrow> pinned only uuid (create_schedule c)
    \<Longrightarrow> timer_reach lib only now (fst (add lib uuid c now s), ex, fired)"
| update: "timer_reach lib only t (s, ex, fired) \<Longrightarrow> t \<le> now \<Longrightarrow> (\<And>a. only \<noteq> Some (i, a))
    \<Longrightarrow> timer_reach lib only now (fst (update lib i p now s), ex, fired)"
| remove: "timer_reach lib only t (s, ex, fired)
    \<Longrightarrow> timer_reach lib only t (fst (remove i s), ex, fired)"

definition timer_ok :: "cron_job list \<Rightarrow> cron_job list \<Rightarrow> bool" where
  "timer_ok js ex \<longleftrightarrow> distinct (map job_id js) \<and> distinct (map job_id ex)
     \<and> (\<forall>x \<in> set ex. \<exists>m. running_at_ms (jstate x) = Some m
          \<and> (\<forall>j \<in> set js. job_id j = job_id x \<longrightarrow> running_at_ms (jstate j) = Some m))"

lemma timer_ok_running:
  assumes "timer_ok js ex" "x \<in> set ex"
  obtains m where "running_at_ms (jstate x) = Some m" "\<forall>j \<in> set js. job_id j = job_id x \<longrightarrow> running_at_ms (jstate j) = Some m"
  using assms unfolding timer_ok_def by blast

text \<open>What each operation does to the list of jobs.\<close>

lemma map_job_ids:
  "(\<And>j. job_id j = i \<Longrightarrow> job_id (f j) = i) \<Longrightarrow> map job_id (map_job i f js) = map job_id js"
  unfolding map_job_def by (induction js) auto

lemma map_job_in:
  "j \<in> set (map_job i f js) \<Longrightarrow> j \<in> set js \<or> (\<exists>k \<in> set js. job_id k = i \<and> j = f k)"
  unfolding map_job_def by (induction js) (auto split: if_splits)

lemma map_job_other:
  "j \<in> set (map_job i f js) \<Longrightarrow> (\<And>k. job_id k = i \<Longrightarrow> job_id (f k) = i) \<Longrightarrow> job_id j \<noteq> i \<Longrightarrow> j \<in> set js"
  using map_job_in by fastforce

lemma map_job_hit:
  "distinct (map job_id js) \<Longrightarrow> j \<in> set (map_job i f js) \<Longrightarrow> (\<And>k. job_id k = i \<Longrightarrow> job_id (f k) = i) \<Longrightarrow> job_id j = i
    \<Longrightarrow> \<exists>k \<in> set js. job_id k = i \<and> j = f k"
  unfolding map_job_def by (induction js) (auto split: if_splits)

lemma set_running_sel [simp]:
  "job_id (set_running r j) = job_id j" "schedule (set_running r j) = schedule j" "enabled (set_running r j) = enabled j"
  "running_at_ms (jstate (set_running r j)) = r" "next_run_at_ms (jstate (set_running r j)) = next_run_at_ms (jstate j)"
  "delete_after_run (set_running r j) = delete_after_run j" "payload (set_running r j) = payload j"
  by (simp_all add: set_running_def)

lemma set_next_run_sel [simp]:
  "job_id (set_next_run r j) = job_id j" "schedule (set_next_run r j) = schedule j"
  "running_at_ms (jstate (set_next_run r j)) = running_at_ms (jstate j)" "next_run_at_ms (jstate (set_next_run r j)) = r"
  "enabled (set_next_run r j) = enabled j"
  by (simp_all add: set_next_run_def)

lemma clear_stuck_sel [simp]:
  "job_id (clear_stuck_job now j) = job_id j" "schedule (clear_stuck_job now j) = schedule j"
  "enabled (clear_stuck_job now j) = enabled j"
  "next_run_at_ms (jstate (clear_stuck_job now j)) = next_run_at_ms (jstate j)"
  by (simp_all add: clear_stuck_job_def split: option.split)

lemma clear_stuck_id: "not_stuck now j \<Longrightarrow> clear_stuck_job now j = j"
  by (auto simp: clear_stuck_job_def not_stuck_def split: option.split)

lemma apply_patch_sel [simp]:
  "job_id (apply_patch p now j) = job_id j" "jstate (apply_patch p now j) = jstate j"
  by (simp_all add: apply_patch_def)

lemma persist_jobs [simp]: "jobs (persist_job i s) = jobs s"
  by (simp add: persist_job_def split: option.split)

lemma remove_jobs: "j \<in> set (jobs (fst (remove i s))) \<Longrightarrow> j \<in> set (jobs s)"
  by (auto simp: remove_def split: prod.splits sum.splits)

lemma remove_distinct: "distinct (map job_id (jobs s)) \<Longrightarrow> distinct (map job_id (jobs (fst (remove i s))))"
  by (auto simp: remove_def distinct_map_filter split: prod.splits sum.splits)

definition settle :: "u64 \<Rightarrow> cron_run_record \<Rightarrow> u64 option \<Rightarrow> cron_job \<Rightarrow> cron_job" where
  "settle finished run n j = j\<lparr>jstate := (jstate j)
     \<lparr>running_at_ms := None, last_run_at_ms := Some finished, last_status := Some (run_status_of run),
      last_error := run_error run, last_duration_ms := Some (duration_ms run), next_run_at_ms := n\<rparr>\<rparr>"

lemma settle_sel [simp]:
  "job_id (settle f r n j) = job_id j" "schedule (settle f r n j) = schedule j"
  "running_at_ms (jstate (settle f r n j)) = None" "next_run_at_ms (jstate (settle f r n j)) = n"
  by (simp_all add: settle_def)

lemma finish_jobs_alt:
  "\<exists>run. let n = (case compute_next_run lib (schedule x) now of Inr n \<Rightarrow> n | Inl _ \<Rightarrow> None);
            settled = map_job (job_id x) (settle finished run n) (jobs s);
            js = jobs (finish_job lib x started finished now turn s)
        in js = settled \<or> (\<exists>st. js = jobs (fst (remove (job_id x) (st\<lparr>jobs := settled\<rparr>))))
           \<or> js = map_job (job_id x) (\<lambda>j. j\<lparr>enabled := False\<rparr>) settled"
  unfolding finish_job_def Let_def settle_def
  by (rule exI [of _ "run_record x started finished (case payload x of SystemEvent _ \<Rightarrow> Inr event_injected | AgentTurn _ \<Rightarrow> turn)"])
    auto

lemma finish_jobs:
  assumes j: "j \<in> set (jobs (finish_job lib x started finished now turn s))" and d: "distinct (map job_id (jobs s))"
  shows "(job_id j \<noteq> job_id x \<and> j \<in> set (jobs s))
    \<or> (\<exists>k \<in> set (jobs s). job_id k = job_id x \<and> job_id j = job_id x \<and> schedule j = schedule k
        \<and> next_run_at_ms (jstate j) = (case compute_next_run lib (schedule x) now of Inr n \<Rightarrow> n | Inl _ \<Rightarrow> None)
        \<and> running_at_ms (jstate j) = None)"
proof -
  define n where "n = (case compute_next_run lib (schedule x) now of Inr n \<Rightarrow> n | Inl _ \<Rightarrow> None)"
  obtain run where alt: "let settled = map_job (job_id x) (settle finished run n) (jobs s);
            js = jobs (finish_job lib x started finished now turn s)
        in js = settled \<or> (\<exists>st. js = jobs (fst (remove (job_id x) (st\<lparr>jobs := settled\<rparr>))))
           \<or> js = map_job (job_id x) (\<lambda>j. j\<lparr>enabled := False\<rparr>) settled"
    using finish_jobs_alt [of lib x now finished s started turn] unfolding n_def Let_def by blast
  define settled where "settled = map_job (job_id x) (settle finished run n) (jobs s)"
  have ds: "distinct (map job_id settled)" unfolding settled_def using d by (subst map_job_ids) simp_all
  have base: "(job_id k \<noteq> job_id x \<and> k \<in> set (jobs s)) \<or> (\<exists>k' \<in> set (jobs s). job_id k' = job_id x \<and> k = settle finished run n k')"
    if "k \<in> set settled" for k
  proof (cases "job_id k = job_id x")
    case True
    then show ?thesis using map_job_hit [OF d, of k "job_id x" "settle finished run n"] that unfolding settled_def by simp
  next
    case False
    then show ?thesis using map_job_other [of k "job_id x" "settle finished run n" "jobs s"] that unfolding settled_def by simp
  qed
  from alt consider "j \<in> set settled" | k where "k \<in> set settled" "job_id k = job_id x" "j = k\<lparr>enabled := False\<rparr>"
    unfolding settled_def [symmetric] Let_def using j remove_jobs map_job_in [of j "job_id x" _ settled] by fastforce
  then show ?thesis
  proof cases
    case 1
    then show ?thesis using base [OF 1] unfolding n_def [symmetric] by auto
  next
    case 2
    then show ?thesis using base [OF 2(1)] unfolding n_def [symmetric] by auto
  qed
qed

lemma finish_distinct:
  assumes "distinct (map job_id (jobs s))"
  shows "distinct (map job_id (jobs (finish_job lib x started finished now turn s)))"
proof -
  obtain run where alt: "let n = (case compute_next_run lib (schedule x) now of Inr n \<Rightarrow> n | Inl _ \<Rightarrow> None);
            settled = map_job (job_id x) (settle finished run n) (jobs s);
            js = jobs (finish_job lib x started finished now turn s)
        in js = settled \<or> (\<exists>st. js = jobs (fst (remove (job_id x) (st\<lparr>jobs := settled\<rparr>))))
           \<or> js = map_job (job_id x) (\<lambda>j. j\<lparr>enabled := False\<rparr>) settled"
    using finish_jobs_alt by blast
  moreover have "distinct (map job_id (map_job (job_id x) (settle finished run n) (jobs s)))" for n
    using assms by (subst map_job_ids) simp_all
  ultimately show ?thesis
    by (auto simp: Let_def map_job_ids intro!: remove_distinct)
qed

lemma due_jobs:
  assumes "process_due_jobs now s = (s', due)"
  shows "jobs s' = map (\<lambda>j. clear_stuck_job now (if is_due now j then set_running (Some now) j else j)) (jobs s)"
    "due = map (set_running (Some now)) (filter (is_due now) (jobs s))"
  using assms by (auto simp: process_due_jobs_def Let_def)

lemma mark_kept: "clear_stuck_job now (set_running (Some now) j) = set_running (Some now) j"
  by (rule clear_stuck_id) (simp add: not_stuck_def saturating_sub_def STUCK_THRESHOLD_MS_def)

lemma timer_ok_tick:
  assumes ok: "timer_ok (jobs s) ex" and calm: "list_all (not_stuck now) ex"
    and tick: "process_due_jobs now s = (s', due)"
  shows "timer_ok (jobs s') (ex @ due)"
proof -
  note d = due_jobs [OF tick]
  have dj: "distinct (map job_id (jobs s))" and de: "distinct (map job_id ex)" using ok by (auto simp: timer_ok_def)
  have busy: "\<not> is_due now j" "running_at_ms (jstate j) = running_at_ms (jstate x)" "not_stuck now j"
    if "x \<in> set ex" "j \<in> set (jobs s)" "job_id j = job_id x" for x j
    using ok calm that by (fastforce simp: timer_ok_def is_due_def list_all_iff not_stuck_def)+
  have ids: "map job_id (jobs s') = map job_id (jobs s)" using d(1) by (simp add: comp_def if_distrib cong: if_cong)
  have dd: "distinct (map job_id due)" using dj d(2) by (simp add: comp_def distinct_map_filter)
  have "job_id ` set ex \<inter> job_id ` set due = {}" using busy(1) d(2) by fastforce
  then have "distinct (map job_id (ex @ due))" using de dd by simp
  moreover have "\<exists>m. running_at_ms (jstate x) = Some m \<and> (\<forall>j \<in> set (jobs s'). job_id j = job_id x \<longrightarrow> running_at_ms (jstate j) = Some m)"
    if x: "x \<in> set (ex @ due)" for x
  proof (cases "x \<in> set ex")
    case True
    then obtain m where m: "running_at_ms (jstate x) = Some m" using ok by (auto simp: timer_ok_def)
    have "running_at_ms (jstate j) = Some m" if mem: "j \<in> set (jobs s')" and eq: "job_id j = job_id x" for j
    proof -
      obtain k where k: "k \<in> set (jobs s)" "j = clear_stuck_job now (if is_due now k then set_running (Some now) k else k)"
        using mem d(1) by auto
      then have "job_id k = job_id x" using eq by (simp split: if_splits)
      then show ?thesis using busy [OF True k(1)] k(2) m by (simp add: clear_stuck_id)
    qed
    then show ?thesis using m by blast
  next
    case False
    then obtain k where k: "k \<in> set (jobs s)" "is_due now k" "x = set_running (Some now) k" using x d(2) by auto
    have "running_at_ms (jstate j) = Some now" if mem: "j \<in> set (jobs s')" and eq: "job_id j = job_id x" for j
    proof -
      obtain k' where k': "k' \<in> set (jobs s)" "j = clear_stuck_job now (if is_due now k' then set_running (Some now) k' else k')"
        using mem d(1) by auto
      then have "k' = k" using eq k(1,3) dj by (simp split: if_splits) (metis distinct_map inj_onD)+
      then show ?thesis using k' k(2) by (simp add: mark_kept)
    qed
    then show ?thesis using k(3) by auto
  qed
  ultimately show ?thesis using dj ids by (simp add: timer_ok_def)
qed

lemma timer_ok_finish:
  assumes ok: "timer_ok (jobs s) (xs @ x # ys)"
  shows "timer_ok (jobs (finish_job lib x started finished now turn s)) (xs @ ys)"
proof -
  let ?s' = "finish_job lib x started finished now turn s"
  have d: "distinct (map job_id (jobs s))" using ok by (simp add: timer_ok_def)
  have "\<exists>m. running_at_ms (jstate y) = Some m \<and> (\<forall>j \<in> set (jobs ?s'). job_id j = job_id y \<longrightarrow> running_at_ms (jstate j) = Some m)"
    if y: "y \<in> set (xs @ ys)" for y
  proof -
    have "distinct (map job_id (xs @ x # ys))" using ok by (simp add: timer_ok_def)
    then have ne: "job_id y \<noteq> job_id x" using y by (auto dest: sym)
    obtain m where m: "running_at_ms (jstate y) = Some m"
        "\<forall>j \<in> set (jobs s). job_id j = job_id y \<longrightarrow> running_at_ms (jstate j) = Some m"
      by (rule timer_ok_running [OF ok, of y]) (use y in auto)
    have "j \<in> set (jobs s)" if "j \<in> set (jobs ?s')" "job_id j = job_id y" for j
      using finish_jobs [OF that(1) d] that(2) ne by metis
    then show ?thesis using m by blast
  qed
  moreover have "distinct (map job_id (xs @ ys))" using ok by (auto simp: timer_ok_def)
  ultimately show ?thesis using finish_distinct [OF d] unfolding timer_ok_def by blast
qed

definition created_job :: "string \<Rightarrow> cron_job_create \<Rightarrow> u64 \<Rightarrow> cron_job" where
  "created_job uuid c now =
     \<lparr>job_id = uuid, job_name = create_name c, enabled = create_enabled c,
      delete_after_run = create_delete_after_run c, schedule = create_schedule c,
      payload = create_payload c, target = create_target c, jstate = job_state_default,
      auto_prune_container = create_auto_prune c, created_at_ms = now, updated_at_ms = now\<rparr>"

lemma created_job_sel [simp]:
  "job_id (created_job uuid c now) = uuid" "schedule (created_job uuid c now) = create_schedule c"
  "enabled (created_job uuid c now) = create_enabled c"
  by (simp_all add: created_job_def)

lemma add_jobs:
  "jobs (fst (add lib uuid c now s)) = jobs s
   \<or> (\<exists>n. jobs (fst (add lib uuid c now s)) = jobs s @ [set_next_run n (created_job uuid c now)]
        \<and> (create_enabled c \<longrightarrow> compute_next_run lib (create_schedule c) now = Inr n))"
  unfolding add_def Let_def created_job_def [symmetric]
  by (auto split: prod.splits sum.splits if_splits)

lemma find_update_first':
  "find P xs = Some x \<Longrightarrow> P y \<Longrightarrow> find P (update_first P (\<lambda>_. y) xs) = Some y"
  by (induction xs) (auto split: if_splits)

lemma find_job_Some: "find_job i js = Some j \<Longrightarrow> j \<in> set js \<and> job_id j = i"
  unfolding find_job_def using find_SomeD by fastforce

lemma update_jobs:
  "jobs (fst (update lib i p now s)) = jobs s
   \<or> (\<exists>job n. find_job i (jobs s) = Some job \<and>
        (jobs (fst (update lib i p now s)) = map_job i (\<lambda>_. apply_patch p now job) (jobs s)
         \<or> jobs (fst (update lib i p now s)) = map_job i (\<lambda>_. set_next_run n (apply_patch p now job)) (jobs s)))"
  by (auto simp: update_def Let_def split: prod.splits sum.splits if_splits option.splits)

lemma timer_ok_map_job:
  assumes ok: "timer_ok js ex" and find: "find_job i js = Some job"
    and g: "job_id g = i" "running_at_ms (jstate g) = running_at_ms (jstate job)"
  shows "timer_ok (map_job i (\<lambda>_. g) js) ex"
proof -
  have job: "job \<in> set js" "job_id job = i" using find_job_Some [OF find] by auto
  have "map job_id (map_job i (\<lambda>_. g) js) = map job_id js" using g(1) by (intro map_job_ids) simp
  moreover have "j \<in> set js \<or> j = g" if "j \<in> set (map_job i (\<lambda>_. g) js)" for j
    using map_job_in [OF that] by blast
  ultimately show ?thesis using ok job g by (fastforce simp: timer_ok_def)
qed

lemma timer_ok_update: "timer_ok (jobs s) ex \<Longrightarrow> timer_ok (jobs (fst (update lib i p now s))) ex"
  using update_jobs [of lib i p now s] find_job_Some timer_ok_map_job by (auto simp: timer_ok_map_job)

lemma timer_ok_reach: "timer_reach lib only t (s, ex, fired) \<Longrightarrow> timer_ok (jobs s) ex"
proof (induction t "(s, ex, fired)" arbitrary: s ex fired rule: timer_reach.induct)
  case (init loaded now s)
  have "map job_id (jobs (start lib loaded now s)) = map job_id loaded"
    by (simp add: start_def recompute_job_def comp_def if_distrib cong: if_cong)
  then show ?case using init by (simp add: timer_ok_def)
next
  case (tick t s ex fired now s' due)
  then show ?case by (blast intro: timer_ok_tick)
next
  case (finish t s xs x ys fired finished now started turn)
  then show ?case by (blast intro: timer_ok_finish)
next
  case (add t s ex fired now uuid c)
  then show ?case using add_jobs [of lib uuid c now s] by (fastforce simp: timer_ok_def)
next
  case (update t s ex fired now i p)
  then show ?case by (blast intro: timer_ok_update)
next
  case (remove t s ex fired i)
  then show ?case using remove_jobs remove_distinct by (fastforce simp: timer_ok_def)
qed

definition demo_job :: cron_job where
  "demo_job = \<lparr>job_id = ''j1'', job_name = ''report'', enabled = True, delete_after_run = False, schedule = At 600,
     payload = SystemEvent ''wake'', target = MainSession, jstate = job_state_default, auto_prune_container = None,
     created_at_ms = 0, updated_at_ms = 0\<rparr>"



section \<open>One-shot jobs\<close>

definition one_shot_ok :: "string \<Rightarrow> u64 \<Rightarrow> u64 \<Rightarrow> cron_job list \<Rightarrow> cron_job list \<Rightarrow> string list \<Rightarrow> bool" where
  "one_shot_ok i a t js ex fired \<longleftrightarrow> count_list fired i \<le> 1 \<and> (i \<in> job_id ` set ex \<longrightarrow> i \<in> set fired)
     \<and> (\<forall>x \<in> set ex. job_id x = i \<longrightarrow> schedule x = At a \<and> a \<le> t)
     \<and> (\<forall>j \<in> set js. job_id j = i \<longrightarrow> schedule j = At a
          \<and> (enabled j \<longrightarrow> next_run_at_ms (jstate j) \<in> {None, Some a})
          \<and> (i \<in> set fired \<longrightarrow> next_run_at_ms (jstate j) = None \<or> i \<in> job_id ` set ex \<or> \<not> enabled j))"

lemma next_run_At: "compute_next_run lib (At a) now = Inr (if now < a then Some a else None)"
  by (simp add: compute_next_run_def)

lemma one_shot_later: "one_shot_ok i a t js ex fired \<Longrightarrow> t \<le> t' \<Longrightarrow> one_shot_ok i a t' js ex fired"
  unfolding one_shot_ok_def by (meson order_trans)

lemma one_shot_jobs:
  assumes "one_shot_ok i a t js ex fired" "\<And>j. j \<in> set js' \<Longrightarrow> job_id j = i \<Longrightarrow> j \<in> set js"
  shows "one_shot_ok i a t js' ex fired"
  using assms unfolding one_shot_ok_def by blast

lemma count_list_distinct: "distinct xs \<Longrightarrow> count_list xs i \<le> 1"
  by (induction xs) (auto simp: count_list_0_iff)

lemma one_shot_tick:
  assumes ok: "one_shot_ok i a t (jobs s) ex fired" and tok: "timer_ok (jobs s) ex"
    and now: "t \<le> now" and tick: "process_due_jobs now s = (s', due)"
  shows "one_shot_ok i a now (jobs s') (ex @ due) (fired @ map job_id due)"
proof -
  note d = due_jobs [OF tick]
  have dj: "distinct (map job_id (jobs s))" using tok by (simp add: timer_ok_def)
  have free: "job_id x \<notin> job_id ` set ex" if x: "x \<in> set due" for x
  proof
    assume "job_id x \<in> job_id ` set ex"
    then obtain y where y: "y \<in> set ex" "job_id y = job_id x" by auto
    obtain m where "\<forall>j \<in> set (jobs s). job_id j = job_id y \<longrightarrow> running_at_ms (jstate j) = Some m"
      by (rule timer_ok_running [OF tok y(1)])
    then show False using x y(2) d(2) by (auto simp: is_due_def)
  qed
  have due: "schedule x = At a \<and> a \<le> now \<and> i \<notin> set fired" if x: "x \<in> set due" and xi: "job_id x = i" for x
  proof -
    obtain k where k: "k \<in> set (jobs s)" "is_due now k" "job_id k = i" "schedule x = schedule k" using x xi d(2) by auto
    have "i \<notin> job_id ` set ex" using free [OF x] xi by simp
    then show ?thesis using ok k by (auto simp: one_shot_ok_def is_due_def split: option.splits)
  qed
  have "distinct (map job_id due)" using dj d(2) by (simp add: comp_def distinct_map_filter)
  then have "count_list (map job_id due) i \<le> 1" by (rule count_list_distinct)
  moreover have "count_list fired i = 0" if "i \<in> job_id ` set due" using due that by (auto simp: count_list_0_iff)
  moreover have "count_list (map job_id due) i = 0" if "i \<notin> job_id ` set due" using that by (simp add: count_list_0_iff)
  ultimately have "count_list (fired @ map job_id due) i \<le> 1" using ok by (cases "i \<in> job_id ` set due") (auto simp: one_shot_ok_def)
  moreover have "schedule j = At a \<and> (enabled j \<longrightarrow> next_run_at_ms (jstate j) \<in> {None, Some a})
      \<and> (i \<in> set (fired @ map job_id due) \<longrightarrow> next_run_at_ms (jstate j) = None \<or> i \<in> job_id ` set (ex @ due) \<or> \<not> enabled j)"
    if mem: "j \<in> set (jobs s')" and eq: "job_id j = i" for j
  proof -
    obtain k where k: "k \<in> set (jobs s)" "j = clear_stuck_job now (if is_due now k then set_running (Some now) k else k)"
      using mem d(1) by auto
    then have "job_id k = i" "schedule j = schedule k" "enabled j = enabled k" "next_run_at_ms (jstate j) = next_run_at_ms (jstate k)"
      using eq by (auto split: if_splits)
    then show ?thesis using ok k(1) unfolding one_shot_ok_def by auto
  qed
  ultimately show ?thesis
    using ok due now unfolding one_shot_ok_def by (auto intro: order_trans)
qed

lemma one_shot_finish:
  assumes ok: "one_shot_ok i a t (jobs s) (xs @ x # ys) fired" and tok: "timer_ok (jobs s) (xs @ x # ys)"
    and now: "t \<le> finished" "finished \<le> now"
  shows "one_shot_ok i a now (jobs (finish_job lib x started finished now turn s)) (xs @ ys) fired"
proof -
  let ?js = "jobs (finish_job lib x started finished now turn s)"
  have later: "one_shot_ok i a now (jobs s) (xs @ x # ys) fired" using one_shot_later [OF ok] now by simp
  have d: "distinct (map job_id (jobs s))" using tok by (simp add: timer_ok_def)
  have "schedule j = At a \<and> (enabled j \<longrightarrow> next_run_at_ms (jstate j) \<in> {None, Some a})
      \<and> (i \<in> set fired \<longrightarrow> next_run_at_ms (jstate j) = None \<or> i \<in> job_id ` set (xs @ ys) \<or> \<not> enabled j)"
    if mem: "j \<in> set ?js" and eq: "job_id j = i" for j
  proof (cases "job_id x = i")
    case True
    then have x: "schedule x = At a" "a \<le> now" using later unfolding one_shot_ok_def by auto
    then have "(case compute_next_run lib (schedule x) now of Inr n \<Rightarrow> n | Inl _ \<Rightarrow> None) = None"
      by (simp add: next_run_At)
    then obtain k where "k \<in> set (jobs s)" "job_id k = i" "schedule j = schedule k" "next_run_at_ms (jstate j) = None"
      using finish_jobs [OF mem d] True eq by auto
    then show ?thesis using later unfolding one_shot_ok_def by auto
  next
    case False
    then have "j \<in> set (jobs s)" using finish_jobs [OF mem d] eq by auto
    then show ?thesis using later eq False unfolding one_shot_ok_def by auto
  qed
  then show ?thesis using later unfolding one_shot_ok_def by auto
qed

lemma one_shot_reach:
  "timer_reach lib (Some (i, a)) t (s, ex, fired) \<Longrightarrow> one_shot_ok i a t (jobs s) ex fired"
proof (induction t "(s, ex, fired)" arbitrary: s ex fired rule: timer_reach.induct)
  case (init loaded now s)
  have "schedule j = At a \<and> (enabled j \<longrightarrow> next_run_at_ms (jstate j) \<in> {None, Some a})"
    if mem: "j \<in> set (jobs (start lib loaded now s))" and eq: "job_id j = i" for j
  proof -
    obtain k where k: "k \<in> set loaded" "j = recompute_job lib now k" using mem by (auto simp: start_def)
    then have "job_id k = i" using eq by (simp add: recompute_job_def split: if_splits)
    then have "schedule k = At a" using init(2) k(1) by (auto simp: list_all_iff pinned_def)
    then show ?thesis using k(2) by (simp add: recompute_job_def next_run_At)
  qed
  then show ?case by (simp add: one_shot_ok_def)
next
  case (tick t s ex fired now s' due)
  then show ?case using timer_ok_reach [OF tick(1)] by (intro one_shot_tick)
next
  case (finish t s xs x ys fired finished now started turn)
  then show ?case using timer_ok_reach [OF finish(1)] by (intro one_shot_finish)
next
  case (add t s ex fired now uuid c)
  then have ok: "one_shot_ok i a now (jobs s) ex fired" using one_shot_later by blast
  have "one_shot_ok i a now (jobs s @ [set_next_run n (created_job uuid c now)]) ex fired"
    if "create_enabled c \<longrightarrow> compute_next_run lib (create_schedule c) now = Inr n" for n
    using ok add(4,5) that unfolding one_shot_ok_def by (auto simp: pinned_def next_run_At)
  then show ?case using ok add_jobs [of lib uuid c now s] by auto
next
  case (update t s ex fired now k p)
  then have ok: "one_shot_ok i a now (jobs s) ex fired" using one_shot_later by blast
  have other: "j \<in> set (map_job k (\<lambda>_. g) (jobs s)) \<Longrightarrow> job_id j = i \<Longrightarrow> job_id g = k \<Longrightarrow> j \<in> set (jobs s)" for j g
    using map_job_in [of j k "\<lambda>_. g" "jobs s"] update(4) by fastforce
  have patched: "one_shot_ok i a now (map_job k (\<lambda>_. g) (jobs s)) ex fired" if "job_id g = k" for g
    by (rule one_shot_jobs [OF ok]) (use other that in blast)
  show ?case using update_jobs [of lib k p now s]
  proof (elim disjE exE conjE)
    fix job n
    assume "find_job k (jobs s) = Some job"
    then have id: "job_id job = k" using find_job_Some by blast
    show ?case if "jobs (fst (update lib k p now s)) = map_job k (\<lambda>_. apply_patch p now job) (jobs s)"
      unfolding that by (rule patched) (simp add: id)
    show ?case if "jobs (fst (update lib k p now s)) = map_job k (\<lambda>_. set_next_run n (apply_patch p now job)) (jobs s)"
      unfolding that by (rule patched) (simp add: id)
  qed (simp add: ok)
next
  case (remove t s ex fired k)
  then show ?case using one_shot_jobs remove_jobs by blast
qed

text \<open>
  A one-shot job fires once: in every such interleaving, the timer starts a job scheduled
  for one point in time at most once, unless somebody reschedules it, also across the removal
  of the job and the recomputation of all schedules when the service starts.
\<close>

lemma one_shot_fires_once:
  assumes "timer_reach lib (Some (i, a)) t (s, executing, fired)"
  shows "count_list fired i \<le> 1"
  using one_shot_reach [OF assms] by (simp add: one_shot_ok_def)

section \<open>Waking up\<close>

lemma wake_waits:
  "set (map (\<lambda>t. saturating_sub t now) (List.map_filter (\<lambda>j. next_run_at_ms (jstate j)) (filter enabled js)))
   = {saturating_sub t now | t j. j \<in> set js \<and> enabled j \<and> next_run_at_ms (jstate j) = Some t}"
  by (force simp: List.map_filter_def)

lemma saturating_sub_mono: "t \<le> t' \<Longrightarrow> saturating_sub t now \<le> saturating_sub t' now"
  by (auto simp: saturating_sub_def word_le_nat_alt unat_sub intro: order_trans)



section \<open>Rejected changes\<close>

text \<open>
  What a rejected change leaves behind: when a patch makes a job invalid, the caller gets
  the error and the store keeps the old job, but the job the scheduler works on has the patch.
\<close>

lemma rejected_update_sticks:
  assumes "find_job i (jobs s) = Some job" "validate_job_spec (apply_patch p now job) = Inl e"
  shows "snd (update lib i p now s) = Inl e \<and> store (fst (update lib i p now s)) = store s
    \<and> find_job i (jobs (fst (update lib i p now s))) = Some (apply_patch p now job)"
proof -
  have "job_id job = i" using find_job_Some [OF assms(1)] by simp
  then have "find_job i (map_job i (\<lambda>_. apply_patch p now job) (jobs s)) = Some (apply_patch p now job)"
    using assms(1) unfolding find_job_def map_job_def by (subst find_update_first') auto
  then show ?thesis using assms by (simp add: update_def Let_def)
qed

definition demo_patch :: cron_job_patch where
  "demo_patch = \<lparr>patch_name = None, patch_schedule = None, patch_payload = None, patch_target = Some Isolated,
     patch_enabled = None, patch_delete_after_run = None, patch_auto_prune = None\<rparr>"

text \<open>
  Two further facts about the scheduler. A forced run does not look at the running mark, so
  it can overlap an execution that the timer has started. And while an overdue job executes,
  the timer chooses a sleep of zero over and over, and each of its passes leaves the job alone.
\<close>

lemma forced_run_ignores_running:
  assumes "find_job i (jobs s) = Some job" "enabled job" "running_at_ms (jstate job) = Some m"
  shows "snd (run_begin i False now s) = Inr job"
  using assms by (simp add: run_begin_def)

lemma overdue_running_job_spins:
  assumes "j \<in> set (jobs s)" "enabled j" "next_run_at_ms (jstate j) = Some t" "t \<le> now" "running_at_ms (jstate j) = Some m"
  shows "ms_until_next_wake now s = 0 \<and> \<not> is_due now j"
proof -
  define ws where "ws = map (\<lambda>t. saturating_sub t now) (List.map_filter (\<lambda>j. next_run_at_ms (jstate j)) (filter enabled (jobs s)))"
  have "0 \<in> {saturating_sub t now | t j. j \<in> set (jobs s) \<and> enabled j \<and> next_run_at_ms (jstate j) = Some t}"
    using assms(1-4) by (auto simp: saturating_sub_def intro!: exI [of _ t])
  then have mem: "0 \<in> set ws" unfolding ws_def wake_waits .
  then have "Min (set ws) = 0" by (intro Min_eqI) auto
  then have "ms_until_next_wake now s = 0"
    using mem by (auto simp: ms_until_next_wake_def Let_def simp flip: ws_def)
  then show ?thesis using assms(5) by (simp add: is_due_def)
qed

end
