(* ===== verification/Prompt_Queue.thy ===== *)
theory Prompt_Queue
  imports Rust_Text
begin

text \<open>
  The queue of prompts sent while a turn is active: \<open>crates/sessions/src/prompt_queue.rs\<close>
  with its table, and the content conversions of \<open>crates/chat/src/prompt_queue.rs\<close>. The
  table is its rows with the counter of \<open>AUTOINCREMENT\<close>; a query that the database refuses
  leaves it unchanged and is left out. Serialization of the content is a pair of parameters.
\<close>

section \<open>Content\<close>

datatype message_medium = MediumText | MediumVoice

datatype content_block = BlockText string | BlockImageUrl string

datatype message_content = ContentText string | ContentMultimodal "content_block list"

datatype queued_prompt_content_block = QBlockText string | QBlockImageUrl string

datatype queued_prompt_message_content = QText string | QMultimodal "queued_prompt_content_block list"

record queued_prompt_document =
  display_name :: string
  stored_filename :: string
  mime_type :: string
  size_bytes :: "nat option"
  media_ref :: string

text \<open>The channel's type, the kind of its message and its reply target are kept as their JSON.\<close>

record queued_prompt_channel_metadata =
  qc_channel_type :: json
  qc_sender_name :: "string option"
  qc_username :: "string option"
  qc_sender_id :: "string option"
  qc_message_kind :: "json option"

record queued_prompt_content =
  q_content :: queued_prompt_message_content
  q_documents :: "queued_prompt_document list"
  q_audio :: "string option"
  q_client_sequence :: "nat option"
  q_client_message_id :: "string option"
  q_input_medium :: message_medium
  q_reply_medium :: message_medium
  q_channel :: "queued_prompt_channel_metadata option"
  q_channel_reply_target :: "json option"

fun queue_message_content :: "message_content \<Rightarrow> queued_prompt_message_content" where
  "queue_message_content (ContentText t) = QText t"
| "queue_message_content (ContentMultimodal bs) =
     QMultimodal (map (\<lambda>b. case b of BlockText t \<Rightarrow> QBlockText t | BlockImageUrl u \<Rightarrow> QBlockImageUrl u) bs)"

definition queued_message_content :: "queued_prompt_content \<Rightarrow> message_content" where
  "queued_message_content c = (case q_content c of
     QText t \<Rightarrow> ContentText t
   | QMultimodal bs \<Rightarrow>
       ContentMultimodal (map (\<lambda>b. case b of QBlockText t \<Rightarrow> BlockText t | QBlockImageUrl u \<Rightarrow> BlockImageUrl u) bs))"

definition queued_sender_name :: "queued_prompt_content \<Rightarrow> string option" where
  "queued_sender_name c = Option.bind (q_channel c)
     (\<lambda>ch. case qc_sender_name ch of Some n \<Rightarrow> Some n | None \<Rightarrow> qc_username ch)"

fun first_text :: "queued_prompt_content_block list \<Rightarrow> string option" where
  "first_text [] = None"
| "first_text (QBlockText t # bs) = Some t"
| "first_text (QBlockImageUrl u # bs) = first_text bs"

definition queued_message_text :: "queued_prompt_content \<Rightarrow> string" where
  "queued_message_text c = (case q_content c of
     QText t \<Rightarrow> t
   | QMultimodal bs \<Rightarrow> (case first_text bs of Some t \<Rightarrow> t | None \<Rightarrow> ''[Image]''))"

section \<open>The table\<close>

record queued_prompt_row =
  row_id :: int
  row_session_key :: string
  row_content :: string

record queued_prompts_store =
  rows :: "queued_prompt_row list"
  last_id :: int

definition queue_empty :: queued_prompts_store where
  "queue_empty = \<lparr>rows = [], last_id = 0\<rparr>"

record queued_prompt =
  prompt_id :: int
  prompt_session :: string
  prompt_content :: queued_prompt_content

record queued_prompts_status =
  status_session :: string
  status_prompts :: "queued_prompt list"

record queued_prompts_drain =
  drained_prompts :: "queued_prompt list"
  drained_status :: queued_prompts_status

record prompt_codec =
  to_json :: "queued_prompt_content \<Rightarrow> string + string"
  from_json :: "string \<Rightarrow> string + queued_prompt_content"

definition prompt_of_row :: "prompt_codec \<Rightarrow> queued_prompt_row \<Rightarrow> string + queued_prompt" where
  "prompt_of_row codec r = (case from_json codec (row_content r) of
     Inl e \<Rightarrow> Inl e
   | Inr c \<Rightarrow> Inr \<lparr>prompt_id = row_id r, prompt_session = row_session_key r, prompt_content = c\<rparr>)"

fun collect_prompts :: "prompt_codec \<Rightarrow> queued_prompt_row list \<Rightarrow> string + queued_prompt list" where
  "collect_prompts codec [] = Inr []"
| "collect_prompts codec (r # rs) = (case prompt_of_row codec r of
     Inl e \<Rightarrow> Inl e
   | Inr p \<Rightarrow> (case collect_prompts codec rs of Inl e \<Rightarrow> Inl e | Inr ps \<Rightarrow> Inr (p # ps)))"

definition session_rows :: "string \<Rightarrow> queued_prompts_store \<Rightarrow> queued_prompt_row list" where
  "session_rows s st = sort_key row_id (filter (\<lambda>r. row_session_key r = s) (rows st))"

definition read_prompts :: "prompt_codec \<Rightarrow> string \<Rightarrow> queued_prompts_store \<Rightarrow> string + queued_prompt list" where
  "read_prompts codec s st = collect_prompts codec (session_rows s st)"

definition read_status :: "prompt_codec \<Rightarrow> string \<Rightarrow> queued_prompts_store \<Rightarrow> string + queued_prompts_status" where
  "read_status codec s st = (case read_prompts codec s st of
     Inl e \<Rightarrow> Inl e | Inr ps \<Rightarrow> Inr \<lparr>status_session = s, status_prompts = ps\<rparr>)"

definition insert_row :: "string \<Rightarrow> string \<Rightarrow> queued_prompts_store \<Rightarrow> queued_prompts_store" where
  "insert_row s j st = st\<lparr>rows := rows st @ [\<lparr>row_id = last_id st + 1, row_session_key = s, row_content = j\<rparr>],
     last_id := last_id st + 1\<rparr>"

definition delete_session :: "string \<Rightarrow> queued_prompts_store \<Rightarrow> queued_prompts_store" where
  "delete_session s st = st\<lparr>rows := filter (\<lambda>r. row_session_key r \<noteq> s) (rows st)\<rparr>"

section \<open>Operations\<close>

definition queue_enqueue :: "prompt_codec \<Rightarrow> string \<Rightarrow> queued_prompt_content \<Rightarrow> queued_prompts_store
    \<Rightarrow> queued_prompts_store \<times> (string + queued_prompts_status)" where
  "queue_enqueue codec s c st = (case to_json codec c of
     Inl e \<Rightarrow> (st, Inl e)
   | Inr j \<Rightarrow> (let st' = insert_row s j st in (st', read_status codec s st')))"

definition show_int :: "int \<Rightarrow> string" where
  "show_int i = (if i < 0 then CHR ''-'' # show_nat (nat (- i)) else show_nat (nat i))"

text \<open>A failing read of the status rolls the deletion back.\<close>

definition queue_remove :: "prompt_codec \<Rightarrow> int \<Rightarrow> queued_prompts_store
    \<Rightarrow> queued_prompts_store \<times> (string + queued_prompts_status)" where
  "queue_remove codec i st = (case find (\<lambda>r. row_id r = i) (rows st) of
     None \<Rightarrow> (st, Inl (''queued prompt '' @ [CHR 0x27] @ show_int i @ [CHR 0x27] @ '' not found''))
   | Some r \<Rightarrow>
       (let st' = st\<lparr>rows := filter (\<lambda>r. row_id r \<noteq> i) (rows st)\<rparr> in
        case read_status codec (row_session_key r) st' of
          Inl e \<Rightarrow> (st, Inl e) | Inr status \<Rightarrow> (st', Inr status)))"

definition queue_drain :: "prompt_codec \<Rightarrow> string \<Rightarrow> queued_prompts_store
    \<Rightarrow> queued_prompts_store \<times> (string + queued_prompts_drain)" where
  "queue_drain codec s st = (case read_prompts codec s st of
     Inl e \<Rightarrow> (st, Inl e)
   | Inr ps \<Rightarrow>
       (let st' = delete_session s st in
        case read_status codec s st' of
          Inl e \<Rightarrow> (st, Inl e)
        | Inr status \<Rightarrow> (st', Inr \<lparr>drained_prompts = ps, drained_status = status\<rparr>)))"

definition queue_clear :: "string \<Rightarrow> queued_prompts_store \<Rightarrow> queued_prompts_store" where
  "queue_clear s st = delete_session s st"

datatype queue_command =
    CmdEnqueue string queued_prompt_content
  | CmdRemove int
  | CmdDrain string
  | CmdClear string
  | CmdStatus string

datatype queue_reply =
    ReplyStatus "string + queued_prompts_status"
  | ReplyDrain "string + queued_prompts_drain"
  | ReplyUnit

text \<open>One turn of the command loop; commands are handled one after the other.\<close>

fun run_command :: "prompt_codec \<Rightarrow> queued_prompts_store \<Rightarrow> queue_command \<Rightarrow> queued_prompts_store \<times> queue_reply" where
  "run_command codec st (CmdEnqueue s c) = (case queue_enqueue codec s c st of (st', r) \<Rightarrow> (st', ReplyStatus r))"
| "run_command codec st (CmdRemove i) = (case queue_remove codec i st of (st', r) \<Rightarrow> (st', ReplyStatus r))"
| "run_command codec st (CmdDrain s) = (case queue_drain codec s st of (st', r) \<Rightarrow> (st', ReplyDrain r))"
| "run_command codec st (CmdClear s) = (queue_clear s st, ReplyUnit)"
| "run_command codec st (CmdStatus s) = (st, ReplyStatus (read_status codec s st))"

section \<open>The abstract queue\<close>

text \<open>
  What the service promises: a list of numbered prompts per session, with the numbers given
  out once. Every command is an operation on these lists.
\<close>

record abstract_queue =
  waiting :: "string \<Rightarrow> (int \<times> queued_prompt_content) list"
  issued :: int

definition as_prompts :: "string \<Rightarrow> (int \<times> queued_prompt_content) list \<Rightarrow> queued_prompt list" where
  "as_prompts s xs = map (\<lambda>(i, c). \<lparr>prompt_id = i, prompt_session = s, prompt_content = c\<rparr>) xs"

definition as_status :: "string \<Rightarrow> abstract_queue \<Rightarrow> queued_prompts_status" where
  "as_status s q = \<lparr>status_session = s, status_prompts = as_prompts s (waiting q s)\<rparr>"

text \<open>The session that a number waits in, if it waits.\<close>

definition waits_in :: "abstract_queue \<Rightarrow> int \<Rightarrow> string \<Rightarrow> bool" where
  "waits_in q i s \<longleftrightarrow> i \<in> fst ` set (waiting q s)"

inductive queue_spec :: "abstract_queue \<Rightarrow> queue_command \<Rightarrow> abstract_queue \<Rightarrow> queue_reply \<Rightarrow> bool" where
  accept: "q' = q\<lparr>waiting := (waiting q)(s := waiting q s @ [(issued q + 1, c)]), issued := issued q + 1\<rparr>
     \<Longrightarrow> queue_spec q (CmdEnqueue s c) q' (ReplyStatus (Inr (as_status s q')))"
| refuse: "queue_spec q (CmdEnqueue s c) q (ReplyStatus (Inl e))"
| remove: "waits_in q i s \<Longrightarrow> q' = q\<lparr>waiting := (waiting q)(s := filter (\<lambda>x. fst x \<noteq> i) (waiting q s))\<rparr>
     \<Longrightarrow> queue_spec q (CmdRemove i) q' (ReplyStatus (Inr (as_status s q')))"
| unknown: "\<forall>s. \<not> waits_in q i s \<Longrightarrow> queue_spec q (CmdRemove i) q (ReplyStatus (Inl e))"
| drain: "q' = q\<lparr>waiting := (waiting q)(s := [])\<rparr>
     \<Longrightarrow> queue_spec q (CmdDrain s) q' (ReplyDrain (Inr \<lparr>drained_prompts = as_prompts s (waiting q s), drained_status = as_status s q'\<rparr>))"
| clear: "queue_spec q (CmdClear s) (q\<lparr>waiting := (waiting q)(s := [])\<rparr>) ReplyUnit"
| status: "queue_spec q (CmdStatus s) q (ReplyStatus (Inr (as_status s q)))"

inductive spec_run :: "abstract_queue \<Rightarrow> (queue_command \<times> queue_reply) list \<Rightarrow> abstract_queue \<Rightarrow> bool" where
  spec_Nil: "spec_run q [] q"
| spec_snoc: "spec_run q xs q' \<Longrightarrow> queue_spec q' c q'' r \<Longrightarrow> spec_run q (xs @ [(c, r)]) q''"

section \<open>The table implements the queue\<close>

text \<open>The rows of a session, decoded, are its list; rows are in the order of their numbers.\<close>

definition represents :: "prompt_codec \<Rightarrow> queued_prompts_store \<Rightarrow> abstract_queue \<Rightarrow> bool" where
  "represents codec st q \<longleftrightarrow> issued q = last_id st
     \<and> sorted_wrt (<) (map row_id (rows st)) \<and> (\<forall>r \<in> set (rows st). row_id r \<le> last_id st)
     \<and> (\<forall>s. map (\<lambda>r. (row_id r, from_json codec (row_content r))) (filter (\<lambda>r. row_session_key r = s) (rows st))
         = map (\<lambda>(i, c). (i, Inr c)) (waiting q s))"

lemma sorted_rows_key: "sorted_wrt (<) (map row_id rs) \<Longrightarrow> sort_key row_id (filter P rs) = filter P rs"
  by (intro sorted_sort_id sort_key_id_if_sorted sorted_filter) (simp add: strict_sorted_imp_sorted)

lemma represents_rows: "represents codec st q \<Longrightarrow> session_rows s st = filter (\<lambda>r. row_session_key r = s) (rows st)"
  by (simp add: session_rows_def represents_def sorted_rows_key)

lemma collect_decoded:
  "map (\<lambda>r. (row_id r, from_json codec (row_content r))) rs = map (\<lambda>(i, c). (i, Inr c)) xs
   \<Longrightarrow> list_all (\<lambda>r. row_session_key r = s) rs \<Longrightarrow> collect_prompts codec rs = Inr (as_prompts s xs)"
proof (induction rs arbitrary: xs)
  case (Cons r rs)
  then obtain c ys where "xs = (row_id r, c) # ys" "from_json codec (row_content r) = Inr c" by auto
  then show ?case using Cons by (auto simp: prompt_of_row_def as_prompts_def)
qed (simp add: as_prompts_def)

lemma read_represented:
  assumes "represents codec st q"
  shows "read_prompts codec s st = Inr (as_prompts s (waiting q s))" "read_status codec s st = Inr (as_status s q)"
proof -
  have "list_all (\<lambda>r. row_session_key r = s) (filter (\<lambda>r. row_session_key r = s) (rows st))" by (simp add: list_all_iff)
  then show "read_prompts codec s st = Inr (as_prompts s (waiting q s))"
    using collect_decoded assms by (simp add: read_prompts_def represents_rows [OF assms]) (simp add: represents_def)
  then show "read_status codec s st = Inr (as_status s q)" by (simp add: read_status_def as_status_def)
qed

lemma represents_insert:
  assumes "represents codec st q" "from_json codec j = Inr c"
  shows "represents codec (insert_row s j st)
    (q\<lparr>waiting := (waiting q)(s := waiting q s @ [(issued q + 1, c)]), issued := issued q + 1\<rparr>)"
  using assms by (auto simp: represents_def insert_row_def sorted_wrt_append)

lemma represents_delete:
  assumes "represents codec st q"
  shows "represents codec (delete_session s st) (q\<lparr>waiting := (waiting q)(s := [])\<rparr>)"
  using assms by (auto simp: represents_def delete_session_def sorted_wrt_filter sorted_wrt_map conj_commute cong: conj_cong)

lemma filter_map_fst: "map f rs = map (\<lambda>(i, c). (i, g c)) xs \<Longrightarrow> (\<And>r. fst (f r) = row_id r)
   \<Longrightarrow> map f (filter (\<lambda>r. row_id r \<noteq> i) rs) = map (\<lambda>(i, c). (i, g c)) (filter (\<lambda>x. fst x \<noteq> i) xs)"
proof (induction rs arbitrary: xs)
  case (Cons r rs)
  then obtain y ys where "xs = y # ys" by (cases xs) auto
  then show ?case using Cons.prems Cons.IH [of ys] by (cases y) (auto dest: arg_cong [of _ _ fst])
qed simp

lemma represents_remove:
  assumes rep: "represents codec st q" and r: "r \<in> set (rows st)" "row_id r = i"
  shows "represents codec (st\<lparr>rows := filter (\<lambda>r. row_id r \<noteq> i) (rows st)\<rparr>)
    (q\<lparr>waiting := (waiting q)(row_session_key r := filter (\<lambda>x. fst x \<noteq> i) (waiting q (row_session_key r)))\<rparr>)"
proof -
  let ?f = "\<lambda>r. (row_id r, from_json codec (row_content r))"
  have dist: "distinct (map row_id (rows st))" using rep by (simp add: represents_def strict_sorted_iff)
  have other: "filter (\<lambda>r. row_id r \<noteq> i \<and> row_session_key r = s) (rows st) = filter (\<lambda>r. row_session_key r = s) (rows st)"
    if "s \<noteq> row_session_key r" for s
    using that r distinct_map_inj [OF dist] by (intro filter_cong) auto
  have "map ?f (filter (\<lambda>x. row_id x \<noteq> i \<and> row_session_key x = s) (rows st))
      = map (\<lambda>(i, c). (i, Inr c)) (filter (\<lambda>x. fst x \<noteq> i) (waiting q s))" for s
    using rep filter_map_fst [of ?f "filter (\<lambda>r. row_session_key r = s) (rows st)" Inr "waiting q s" i]
    by (simp add: represents_def conj_commute)
  moreover have "map ?f (filter (\<lambda>x. row_id x \<noteq> i \<and> row_session_key x = s) (rows st)) = map (\<lambda>(i, c). (i, Inr c)) (waiting q s)"
    if "s \<noteq> row_session_key r" for s
    using rep other [OF that] by (simp add: represents_def)
  ultimately show ?thesis
    using rep by (simp add: represents_def sorted_wrt_filter sorted_wrt_map conj_commute [of "row_session_key _ = _"])
qed

lemma waits_in_rows:
  assumes "represents codec st q"
  shows "waits_in q i s \<longleftrightarrow> (\<exists>r \<in> set (rows st). row_id r = i \<and> row_session_key r = s)"
proof -
  have "fst ` set (waiting q s) = set (map fst (map (\<lambda>(i, c). (i, Inr c :: string + queued_prompt_content)) (waiting q s)))" by force
  also have "\<dots> = set (map fst (map (\<lambda>r. (row_id r, from_json codec (row_content r))) (filter (\<lambda>r. row_session_key r = s) (rows st))))"
    using assms by (simp add: represents_def)
  finally show ?thesis by (auto simp: waits_in_def)
qed

lemma command_refines:
  assumes rt: "\<And>c j. to_json codec c = Inr j \<Longrightarrow> from_json codec j = Inr c"
    and rep: "represents codec st q" and run: "run_command codec st cmd = (st', r)"
  shows "\<exists>q'. queue_spec q cmd q' r \<and> represents codec st' q'"
proof (cases cmd)
  case (CmdEnqueue s c)
  show ?thesis
  proof (cases "to_json codec c")
    case (Inl e)
    then show ?thesis using run rep CmdEnqueue by (auto simp: queue_enqueue_def intro: queue_spec.refuse)
  next
    case (Inr j)
    note ins = represents_insert [OF rep rt [OF Inr], of s]
    then show ?thesis
      using run CmdEnqueue Inr read_represented(2) [OF ins, of s] queue_spec.accept [OF refl, of q s c]
      by (auto simp: queue_enqueue_def Let_def)
  qed
next
  case (CmdRemove i)
  show ?thesis
  proof (cases "find (\<lambda>r. row_id r = i) (rows st)")
    case None
    then obtain e where "st' = st" "r = ReplyStatus (Inl e)" using run CmdRemove by (simp add: queue_remove_def) blast
    moreover have "\<forall>s. \<not> waits_in q i s" using waits_in_rows [OF rep] find_None_conv [THEN iffD1, OF None] by blast
    ultimately show ?thesis using rep CmdRemove queue_spec.unknown by metis
  next
    case (Some x)
    then have x: "x \<in> set (rows st)" "row_id x = i" using find_SomeD [OF Some] by auto
    note rem = represents_remove [OF rep x]
    have "waits_in q i (row_session_key x)" using waits_in_rows [OF rep] x by blast
    from queue_spec.remove [OF this refl] show ?thesis
      using run CmdRemove Some rem read_represented(2) [OF rem, of "row_session_key x"]
      by (auto simp: queue_remove_def Let_def)
  qed
next
  case (CmdDrain s)
  note del = represents_delete [OF rep, of s]
  then show ?thesis
    using run CmdDrain read_represented(1) [OF rep, of s] read_represented(2) [OF del, of s] queue_spec.drain [OF refl, of q s]
    by (auto simp: queue_drain_def Let_def)
next
  case (CmdClear s)
  then show ?thesis
    using run represents_delete [OF rep, of s] queue_spec.clear [of q s] by (auto simp: queue_clear_def)
next
  case (CmdStatus s)
  then show ?thesis using run rep read_represented(2) [OF rep, of s] queue_spec.status [of q s] by auto
qed

text \<open>A run of the command loop, with the replies it sends.\<close>

fun run_commands :: "prompt_codec \<Rightarrow> queued_prompts_store \<Rightarrow> queue_command list \<Rightarrow> queued_prompts_store \<times> queue_reply list" where
  "run_commands codec st [] = (st, [])"
| "run_commands codec st (c # cs) =
     (case run_command codec st c of (st1, r) \<Rightarrow> (case run_commands codec st1 cs of (st2, rs) \<Rightarrow> (st2, r # rs)))"

definition abstract_empty :: abstract_queue where
  "abstract_empty = \<lparr>waiting = (\<lambda>_. []), issued = 0\<rparr>"

lemma represents_empty: "represents codec queue_empty abstract_empty"
  by (simp add: represents_def queue_empty_def abstract_empty_def)

lemma spec_run_Cons: "queue_spec q c q1 r \<Longrightarrow> spec_run q1 xs q' \<Longrightarrow> spec_run q ((c, r) # xs) q'"
proof (rotate_tac, induction rule: spec_run.induct)
  case (spec_Nil q1)
  then show ?case using spec_snoc [OF spec_run.spec_Nil spec_Nil] by simp
next
  case (spec_snoc q1 xs q' c' q'' r')
  then show ?case using spec_run.spec_snoc [of q "(c, r) # xs" q'] by simp
qed

lemma commands_refine:
  assumes rt: "\<And>c j. to_json codec c = Inr j \<Longrightarrow> from_json codec j = Inr c"
  shows "represents codec st q \<Longrightarrow> run_commands codec st cs = (st', rs)
    \<Longrightarrow> \<exists>q'. spec_run q (zip cs rs) q' \<and> represents codec st' q' \<and> length rs = length cs"
proof (induction cs arbitrary: st q rs)
  case Nil
  then show ?case by (auto intro: spec_Nil)
next
  case (Cons c cs)
  obtain st1 r rs1 where run: "run_command codec st c = (st1, r)" "run_commands codec st1 cs = (st', rs1)" "rs = r # rs1"
    using Cons.prems(2) by (auto split: prod.splits)
  obtain q1 where q1: "queue_spec q c q1 r" "represents codec st1 q1" using command_refines [OF rt Cons.prems(1) run(1)] by blast
  from Cons.IH [OF q1(2) run(2)] show ?case using spec_run_Cons [OF q1(1)] run(3) by auto
qed

text \<open>
  C39. The table is a family of lists: from the empty table, every sequence of commands is
  answered with exactly the replies of the abstract queue, which keeps one list of numbered
  prompts per session: enqueueing appends under a fresh number, draining returns the whole
  list and empties it, removing takes one number out, and every reply carries the list as it
  is then. Asked of the serialization: what it writes it reads back.
\<close>

theorem queue_refines_lists:
  assumes "\<And>c j. to_json codec c = Inr j \<Longrightarrow> from_json codec j = Inr c"
  shows "\<exists>q. spec_run abstract_empty (zip cs (snd (run_commands codec queue_empty cs))) q
    \<and> represents codec (fst (run_commands codec queue_empty cs)) q
    \<and> length (snd (run_commands codec queue_empty cs)) = length cs"
  using commands_refine [OF assms represents_empty] by (metis prod.collapse)

definition demo_content :: queued_prompt_content where
  "demo_content = \<lparr>q_content = QText ''hi'', q_documents = [], q_audio = None, q_client_sequence = Some 1, q_client_message_id = None,
     q_input_medium = MediumText, q_reply_medium = MediumText, q_channel = None, q_channel_reply_target = None\<rparr>"

definition demo_codec :: prompt_codec where
  "demo_codec = \<lparr>to_json = (\<lambda>c. if c = demo_content then Inr ''{}'' else Inl ''unsupported''), from_json = (\<lambda>_. Inr demo_content)\<rparr>"

lemma demo_codec_roundtrip: "to_json demo_codec c = Inr j \<Longrightarrow> from_json demo_codec j = Inr c"
  by (simp add: demo_codec_def split: if_splits)

theorem queue_refines_lists_witness:
  "\<exists>q. spec_run abstract_empty (zip [CmdEnqueue ''s'' demo_content, CmdDrain ''s'']
        (snd (run_commands demo_codec queue_empty [CmdEnqueue ''s'' demo_content, CmdDrain ''s'']))) q
    \<and> represents demo_codec (fst (run_commands demo_codec queue_empty [CmdEnqueue ''s'' demo_content, CmdDrain ''s''])) q
    \<and> length (snd (run_commands demo_codec queue_empty [CmdEnqueue ''s'' demo_content, CmdDrain ''s''])) = length [CmdEnqueue ''s'' demo_content, CmdDrain ''s'']"
  by (rule queue_refines_lists) (rule demo_codec_roundtrip)

section \<open>First in, first out, once\<close>

text \<open>What a run lets in, hands out and drops, read off the commands and their replies.\<close>

fun accepted :: "string \<Rightarrow> queue_command \<times> queue_reply \<Rightarrow> (int \<times> queued_prompt_content) list" where
  "accepted s (CmdEnqueue s' c, ReplyStatus (Inr status)) =
     (if s' = s then [(prompt_id (last (status_prompts status)), c)] else [])"
| "accepted s _ = []"

fun handed_out :: "string \<Rightarrow> queue_command \<times> queue_reply \<Rightarrow> (int \<times> queued_prompt_content) list" where
  "handed_out s (CmdDrain s', ReplyDrain (Inr d)) =
     (if s' = s then map (\<lambda>p. (prompt_id p, prompt_content p)) (drained_prompts d) else [])"
| "handed_out s _ = []"

fun removed :: "queue_command \<times> queue_reply \<Rightarrow> int list" where
  "removed (CmdRemove i, ReplyStatus (Inr _)) = [i]"
| "removed _ = []"

definition fifo_inv :: "string \<Rightarrow> (queue_command \<times> queue_reply) list \<Rightarrow> abstract_queue \<Rightarrow> bool" where
  "fifo_inv s xs q \<longleftrightarrow>
     (let ins = concat (map (accepted s) xs); gone = set (concat (map removed xs)) in
      filter (\<lambda>x. fst x \<notin> gone) ins = concat (map (handed_out s) xs) @ waiting q s
      \<and> sorted_wrt (<) (map fst ins) \<and> (\<forall>x \<in> set ins. fst x \<le> issued q) \<and> (\<forall>i \<in> gone. i \<le> issued q)
      \<and> (\<forall>s' x. x \<in> set (waiting q s') \<longrightarrow> fst x \<le> issued q \<and> (s' \<noteq> s \<longrightarrow> fst x \<notin> fst ` set ins)))"

lemma as_prompts_inverse [simp]: "map (\<lambda>p. (prompt_id p, prompt_content p)) (as_prompts s xs) = xs"
  by (induction xs) (auto simp: as_prompts_def)

lemma filter_split_distinct:
  assumes "filter P ins = out @ w" "distinct (map fst ins)" "i \<in> fst ` set w"
  shows "filter (\<lambda>x. P x \<and> fst x \<noteq> i) ins = out @ filter (\<lambda>x. fst x \<noteq> i) w"
proof -
  have "distinct (map fst (out @ w))" unfolding assms(1) [symmetric] by (rule distinct_map_filter) (rule assms(2))
  then have "i \<notin> fst ` set out" using assms(3) by auto
  then have "filter (\<lambda>x. fst x \<noteq> i) out = out" by (auto simp: filter_id_conv)
  then have "filter (\<lambda>x. fst x \<noteq> i) (out @ w) = out @ filter (\<lambda>x. fst x \<noteq> i) w" by simp
  then show ?thesis using assms(1) filter_filter [of "\<lambda>x. fst x \<noteq> i" P ins] by (simp add: conj_commute)
qed

lemma fifo_step:
  assumes inv: "fifo_inv s xs q" and step: "queue_spec q c q' r" and nc: "c \<noteq> CmdClear s"
  shows "fifo_inv s (xs @ [(c, r)]) q'"
proof -
  define ins out gone where d: "ins = concat (map (accepted s) xs)" "out = concat (map (handed_out s) xs)"
    "gone = set (concat (map removed xs))"
  have i: "filter (\<lambda>x. fst x \<notin> gone) ins = out @ waiting q s" "sorted_wrt (<) (map fst ins)" "\<forall>x \<in> set ins. fst x \<le> issued q"
      "\<forall>i \<in> gone. i \<le> issued q" "\<And>s' x. x \<in> set (waiting q s') \<Longrightarrow> fst x \<le> issued q \<and> (s' \<noteq> s \<longrightarrow> fst x \<notin> fst ` set ins)"
    using inv unfolding fifo_inv_def Let_def d [symmetric] by blast+
  have goal: "fifo_inv s (xs @ [(c, r)]) q' \<longleftrightarrow> (let ins' = ins @ accepted s (c, r); gone' = gone \<union> set (removed (c, r)) in
      filter (\<lambda>x. fst x \<notin> gone') ins' = (out @ handed_out s (c, r)) @ waiting q' s
      \<and> sorted_wrt (<) (map fst ins') \<and> (\<forall>x \<in> set ins'. fst x \<le> issued q') \<and> (\<forall>i \<in> gone'. i \<le> issued q')
      \<and> (\<forall>s' x. x \<in> set (waiting q' s') \<longrightarrow> fst x \<le> issued q' \<and> (s' \<noteq> s \<longrightarrow> fst x \<notin> fst ` set ins')))"
    unfolding fifo_inv_def d by simp
  have quiet: "fifo_inv s (xs @ [(c, r)]) q'"
    if "q' = q" "accepted s (c, r) = []" "handed_out s (c, r) = []" "removed (c, r) = []"
    unfolding goal Let_def using that i by simp
  show ?thesis
    using step
  proof cases
    case (accept s1 c1)
    let ?n = "issued q + 1"
    have new: "?n \<notin> gone" "?n \<notin> fst ` set ins" using i(3,4) by force+
    have acc: "accepted s (c, r) = (if s1 = s then [(?n, c1)] else [])" "removed (c, r) = []" "handed_out s (c, r) = []"
      using accept by (simp_all add: as_status_def as_prompts_def)
    have w: "x \<in> set (waiting q' s') \<Longrightarrow> x \<in> set (waiting q s') \<or> s' = s1 \<and> fst x = ?n" for x s'
      using accept by (auto split: if_splits)
    have waits: "fst x \<le> ?n \<and> (s' \<noteq> s \<longrightarrow> fst x \<notin> fst ` set (ins @ (if s1 = s then [(?n, c1)] else [])))"
      if "x \<in> set (waiting q' s')" for x s'
      using w [OF that] i(5) [of x s'] new(2) by (auto simp: image_iff)
    have "sorted_wrt (<) (map fst (ins @ [(?n, c1)]))" using i(2,3) by (auto simp: sorted_wrt_append)
    moreover have "\<forall>x \<in> set (ins @ [(?n, c1)]). fst x \<le> ?n" "\<forall>i \<in> gone. i \<le> ?n" using i(3,4) by force+
    moreover have "waiting q' s = waiting q s @ (if s1 = s then [(?n, c1)] else [])" "issued q' = ?n" using accept by auto
    ultimately show ?thesis
      using i(1,2) new(1) waits unfolding goal acc Let_def by (simp split: if_splits)
  next
    case (remove i1 s1)
    have w: "i1 \<in> fst ` set (waiting q s1)" using remove by (simp add: waits_in_def)
    have dist: "distinct (map fst ins)" using i(2) by (simp add: strict_sorted_iff)
    have "filter (\<lambda>x. fst x \<notin> insert i1 gone) ins = out @ waiting q' s"
    proof (cases "s1 = s")
      case True
      then show ?thesis using filter_split_distinct [OF i(1) dist, of i1] w remove by (simp add: conj_commute)
    next
      case False
      then have "i1 \<notin> fst ` set ins" using w i(5) by fastforce
      then have "filter (\<lambda>x. fst x \<notin> insert i1 gone) ins = filter (\<lambda>x. fst x \<notin> gone) ins" by (intro filter_cong) auto
      then show ?thesis using i(1) remove False by simp
    qed
    moreover have "i1 \<le> issued q" using w i(5) by fastforce
    moreover have "fst x \<le> issued q \<and> (s' \<noteq> s \<longrightarrow> fst x \<notin> fst ` set ins)" if "x \<in> set (waiting q' s')" for x s'
      using i(5) [of x s'] that remove by (simp split: if_splits)
    moreover have "accepted s (c, r) = []" "handed_out s (c, r) = []" "removed (c, r) = [i1]" "issued q' = issued q"
      using remove by simp_all
    ultimately show ?thesis using i(2-4) unfolding goal Let_def by (simp add: conj_commute)
  next
    case (drain s1)
    have "fst x \<le> issued q \<and> (s' \<noteq> s \<longrightarrow> fst x \<notin> fst ` set ins)" if "x \<in> set (waiting q' s')" for x s'
      using i(5) [of x s'] that drain by (simp split: if_splits)
    then show ?thesis using i(1-4) drain unfolding goal Let_def by simp
  next
    case (clear s1)
    have "fst x \<le> issued q \<and> (s' \<noteq> s \<longrightarrow> fst x \<notin> fst ` set ins)" if "x \<in> set (waiting q' s')" for x s'
      using i(5) [of x s'] that clear by (simp split: if_splits)
    then show ?thesis using i(1-4) clear nc unfolding goal Let_def by simp
  qed (rule quiet; simp)+
qed

lemma fifo_run:
  "spec_run q xs q' \<Longrightarrow> q = abstract_empty \<Longrightarrow> CmdClear s \<notin> fst ` set xs \<Longrightarrow> fifo_inv s xs q'"
proof (induction rule: spec_run.induct)
  case (spec_Nil q)
  then show ?case by (simp add: fifo_inv_def abstract_empty_def)
next
  case (spec_snoc q xs q' c q'' r)
  then show ?case using fifo_step [of s xs q' c q'' r] by auto
qed

text \<open>
  C27. Prompts leave a session in the order in which they came, each once: over any sequence
  of commands that does not clear the session, the prompts accepted for it and not removed
  are, in order, those handed out by its drains followed by those still waiting, with their
  content unchanged; and their numbers increase.
\<close>

theorem prompts_first_in_first_out:
  assumes "\<And>c j. to_json codec c = Inr j \<Longrightarrow> from_json codec j = Inr c" and "CmdClear s \<notin> set cs"
  shows "let (st, rs) = run_commands codec queue_empty cs; xs = zip cs rs; ins = concat (map (accepted s) xs) in
    \<exists>w. read_prompts codec s st = Inr (as_prompts s w)
      \<and> filter (\<lambda>x. fst x \<notin> set (concat (map removed xs))) ins = concat (map (handed_out s) xs) @ w
      \<and> sorted_wrt (<) (map fst ins)"
proof -
  obtain st rs where run: "run_commands codec queue_empty cs = (st, rs)" by force
  obtain q where q: "spec_run abstract_empty (zip cs rs) q" "represents codec st q"
    using commands_refine [OF assms(1) represents_empty run] by blast
  have "CmdClear s \<notin> fst ` set (zip cs rs)" using assms(2) by (auto dest: set_zip_leftD)
  then have "fifo_inv s (zip cs rs) q" using fifo_run [OF q(1) refl] by blast
  then show ?thesis using read_represented(1) [OF q(2), of s] run by (auto simp: fifo_inv_def Let_def)
qed

theorem prompts_first_in_first_out_witness:
  "let (st, rs) = run_commands demo_codec queue_empty [CmdEnqueue ''s'' demo_content, CmdDrain ''s''];
       xs = zip [CmdEnqueue ''s'' demo_content, CmdDrain ''s''] rs; ins = concat (map (accepted ''s'') xs) in
    \<exists>w. read_prompts demo_codec ''s'' st = Inr (as_prompts ''s'' w)
      \<and> filter (\<lambda>x. fst x \<notin> set (concat (map removed xs))) ins = concat (map (handed_out ''s'') xs) @ w
      \<and> sorted_wrt (<) (map fst ins)"
  by (rule prompts_first_in_first_out) (rule demo_codec_roundtrip, simp_all)

section \<open>Two consequences of reading everything\<close>

text \<open>
  A row that cannot be decoded blocks its session: every drain, removal and status of the
  session fails, and an enqueue is reported as failed although its row is in the table. Only
  \<open>queue_clear\<close> helps.
\<close>

lemma collect_poisoned: "r \<in> set rs \<Longrightarrow> from_json codec (row_content r) = Inl e \<Longrightarrow> \<exists>e'. collect_prompts codec rs = Inl e'"
  by (induction rs) (auto simp: prompt_of_row_def split: sum.splits)

lemma poisoned_session:
  assumes "r \<in> set (rows st)" "from_json codec (row_content r) = Inl e"
  shows "\<exists>e'. queue_drain codec (row_session_key r) st = (st, Inl e')"
    and "to_json codec c = Inr j \<Longrightarrow> \<exists>e'. queue_enqueue codec (row_session_key r) c st = (insert_row (row_session_key r) j st, Inl e')"
proof -
  have "r \<in> set (session_rows (row_session_key r) st)" using assms(1) by (simp add: session_rows_def)
  from collect_poisoned [OF this assms(2)] show "\<exists>e'. queue_drain codec (row_session_key r) st = (st, Inl e')"
    by (auto simp: queue_drain_def read_prompts_def)
  have "r \<in> set (session_rows (row_session_key r) (insert_row (row_session_key r) j st))"
    using assms(1) by (simp add: session_rows_def insert_row_def)
  from collect_poisoned [OF this assms(2)]
  show "\<exists>e'. queue_enqueue codec (row_session_key r) c st = (insert_row (row_session_key r) j st, Inl e')" if "to_json codec c = Inr j"
    using that by (auto simp: queue_enqueue_def read_status_def read_prompts_def Let_def)
qed

lemma content_roundtrip: "queued_message_content (c\<lparr>q_content := queue_message_content m\<rparr>) = m"
  by (cases m) (auto simp: queued_message_content_def comp_def split: content_block.splits intro!: map_idI)

end
