(* ===== verification/Task_List.thy ===== *)
theory Task_List
  imports Rust_Text "HOL-Library.AList" "HOL-Library.List_Lexorder" "HOL-Library.Char_ord" "HOL-Library.Product_Lexorder"
begin

text \<open>
  The shared task lists of \<open>crates/tools/src/task_list.rs\<close>: the store with its files, every
  operation, and the tool that reads its parameters. An operation is two sections, the change
  under the write lock and the writing of the file under the read lock; anything may happen
  between them. The serialization of a list, the answers of the file system and the clock
  are arguments; a file is known by its path.
\<close>

section \<open>Tasks\<close>

datatype task_status = Pending | InProgress | Completed

fun status_as_str :: "task_status \<Rightarrow> string" where
  "status_as_str Pending = ''pending''"
| "status_as_str InProgress = ''in_progress''"
| "status_as_str Completed = ''completed''"

definition status_from_str :: "string \<Rightarrow> string + task_status" where
  "status_from_str s =
     (if s = ''pending'' then Inr Pending else if s = ''in_progress'' then Inr InProgress
      else if s = ''completed'' then Inr Completed else Inl (''unknown task status: '' @ s))"

record task =
  task_id :: string
  subject :: string
  description :: string
  task_status :: task_status
  task_owner :: "string option"
  blocked_by :: "string list"
  created_at :: nat
  updated_at :: nat
  task_list_id :: string

record task_list =
  next_task_id :: nat
  tasks :: "(string \<times> task) list"

definition task_list_default :: task_list where
  "task_list_default = \<lparr>next_task_id = 1, tasks = []\<rparr>"

section \<open>The store\<close>

record 'doc task_store =
  data_dir :: string
  task_lists :: "(string \<times> task_list) list"
  disk :: "(string \<times> 'doc) list"

record 'doc list_codec =
  encode_list :: "task_list \<Rightarrow> string + 'doc"
  decode_list :: "'doc \<Rightarrow> string + task_list"

definition store_open :: "string \<Rightarrow> (string \<times> 'doc) list \<Rightarrow> 'doc task_store" where
  "store_open base files = \<lparr>data_dir = path_join base ''tasks'', task_lists = [], disk = files\<rparr>"

definition file_path :: "'doc task_store \<Rightarrow> string \<Rightarrow> string" where
  "file_path st l = path_join (data_dir st) (l @ ''.json'')"

definition quoted :: "string \<Rightarrow> string" where
  "quoted s = [CHR 0x27] @ s @ [CHR 0x27]"

text \<open>What can go wrong with the files: the directory, an entry of it after some number of them, or the file itself.\<close>

datatype io_failure = DirFailure string | EntryFailure nat string | FileFailure string

definition file_failure :: "io_failure option \<Rightarrow> string option" where
  "file_failure f = (case f of Some (FileFailure e) \<Rightarrow> Some e | _ \<Rightarrow> None)"

definition dir_failure :: "io_failure option \<Rightarrow> string option" where
  "dir_failure f = (case f of Some (DirFailure e) \<Rightarrow> Some e | _ \<Rightarrow> None)"

definition ensure_list :: "'doc list_codec \<Rightarrow> io_failure option \<Rightarrow> string \<Rightarrow> 'doc task_store \<Rightarrow> string + 'doc task_store" where
  "ensure_list codec read_error l st =
     (if map_of (task_lists st) l \<noteq> None then Inr st
      else case map_of (disk st) (file_path st l) of
        None \<Rightarrow> Inr (st\<lparr>task_lists := AList.update l task_list_default (task_lists st)\<rparr>)
      | Some doc \<Rightarrow>
          (case file_failure read_error of
             Some e \<Rightarrow> Inl (''failed to read task list '' @ quoted l @ '': '' @ e)
           | None \<Rightarrow>
               (case decode_list codec doc of
                  Inl e \<Rightarrow> Inl (''failed to parse task list '' @ quoted l @ '' JSON: '' @ e)
                | Inr ts \<Rightarrow> Inr (st\<lparr>task_lists := AList.update l ts (task_lists st)\<rparr>))))"

definition persist :: "'doc list_codec \<Rightarrow> io_failure option \<Rightarrow> string \<Rightarrow> 'doc task_store \<Rightarrow> 'doc task_store \<times> (string + unit)" where
  "persist codec write_error l st =
     (case map_of (task_lists st) l of
        None \<Rightarrow> (st, Inr ())
      | Some ts \<Rightarrow>
          (case dir_failure write_error of
             Some e \<Rightarrow> (st, Inl (''failed to create task dir: '' @ e))
           | None \<Rightarrow>
               (case encode_list codec ts of
                  Inl e \<Rightarrow> (st, Inl (''failed to serialize task list '' @ quoted l @ '': '' @ e))
                | Inr doc \<Rightarrow>
                    (case file_failure write_error of
                       Some e \<Rightarrow> (st, Inl (''failed to write task list '' @ quoted l @ '': '' @ e))
                     | None \<Rightarrow> (st\<lparr>disk := AList.update (file_path st l) doc (disk st)\<rparr>, Inr ())))))"

section \<open>Operations under the lock\<close>

text \<open>
  The common frame: load the list, then work on it. The code takes the lock twice for this;
  a list is never unloaded, so what comes between the two finds its place before or after.
\<close>

definition with_list :: "'doc list_codec \<Rightarrow> io_failure option \<Rightarrow> string \<Rightarrow> (task_list \<Rightarrow> string + task_list \<times> 'r)
    \<Rightarrow> 'doc task_store \<Rightarrow> 'doc task_store \<times> (string + 'r)" where
  "with_list codec read_error l f st =
     (case ensure_list codec read_error l st of
        Inl e \<Rightarrow> (st, Inl e)
      | Inr st1 \<Rightarrow>
          (case map_of (task_lists st1) l of
             None \<Rightarrow> (st1, Inl (''missing task list: '' @ l))
           | Some ts \<Rightarrow>
               (case f ts of
                  Inl e \<Rightarrow> (st1, Inl e)
                | Inr (ts', r) \<Rightarrow> (st1\<lparr>task_lists := AList.update l ts' (task_lists st1)\<rparr>, Inr r))))"

definition create_in :: "nat \<Rightarrow> string \<Rightarrow> string \<Rightarrow> string \<Rightarrow> task_list \<Rightarrow> string + task_list \<times> task" where
  "create_in now l subj descr ts =
     (let i = show_nat (next_task_id ts);
          t = \<lparr>task_id = i, subject = subj, description = descr, task_status = Pending, task_owner = None,
               blocked_by = [], created_at = now, updated_at = now, task_list_id = l\<rparr>
      in Inr (ts\<lparr>next_task_id := saturating_add (next_task_id ts) 1, tasks := AList.update i t (tasks ts)\<rparr>, t))"

definition or_else :: "'a option \<Rightarrow> 'a \<Rightarrow> 'a" where
  "or_else new old = (case new of Some v \<Rightarrow> v | None \<Rightarrow> old)"

definition update_in :: "nat \<Rightarrow> string \<Rightarrow> task_status option \<Rightarrow> string option \<Rightarrow> string option \<Rightarrow> string option
    \<Rightarrow> string list option \<Rightarrow> task_list \<Rightarrow> string + task_list \<times> task" where
  "update_in now i stat subj descr own deps ts =
     (case map_of (tasks ts) i of
        None \<Rightarrow> Inl (''task not found: '' @ i)
      | Some t \<Rightarrow>
          (let t' = t\<lparr>task_status := or_else stat (task_status t), subject := or_else subj (subject t),
                      description := or_else descr (description t),
                      task_owner := (case own of Some v \<Rightarrow> Some v | None \<Rightarrow> task_owner t),
                      blocked_by := or_else deps (blocked_by t), updated_at := now\<rparr>
           in Inr (ts\<lparr>tasks := AList.update i t' (tasks ts)\<rparr>, t')))"

fun join_comma :: "string list \<Rightarrow> string" where
  "join_comma [] = []"
| "join_comma [x] = x"
| "join_comma (x # xs) = x @ '', '' @ join_comma xs"

definition blocking :: "task_list \<Rightarrow> task \<Rightarrow> string list" where
  "blocking ts t = filter (\<lambda>d. case map_of (tasks ts) d of Some dep \<Rightarrow> task_status dep \<noteq> Completed | None \<Rightarrow> False) (blocked_by t)"

definition claim_in :: "nat \<Rightarrow> string \<Rightarrow> string \<Rightarrow> task_list \<Rightarrow> string + task_list \<times> task" where
  "claim_in now i own ts =
     (case map_of (tasks ts) i of
        None \<Rightarrow> Inl (''task not found: '' @ i)
      | Some t \<Rightarrow>
          if task_status t \<noteq> Pending then
            Inl (''task '' @ i @ '' cannot be claimed: current status is '' @ status_as_str (task_status t))
          else if blocking ts t \<noteq> [] then
            Inl (''task '' @ i @ '' is blocked by incomplete tasks: '' @ join_comma (blocking ts t))
          else
            (let t' = t\<lparr>task_owner := Some own, task_status := InProgress, updated_at := now\<rparr>
             in Inr (ts\<lparr>tasks := AList.update i t' (tasks ts)\<rparr>, t')))"

definition get_in :: "string \<Rightarrow> task_list \<Rightarrow> string + task_list \<times> task option" where
  "get_in i ts = Inr (ts, map_of (tasks ts) i)"

definition keeps_status :: "task_status option \<Rightarrow> task \<Rightarrow> bool" where
  "keeps_status filt t = (case filt of None \<Rightarrow> True | Some s \<Rightarrow> task_status t = s)"

definition numeric_id :: "task \<Rightarrow> nat" where
  "numeric_id t = (case parse_u64 (task_id t) of Some n \<Rightarrow> n | None \<Rightarrow> 0)"

definition list_in :: "task_status option \<Rightarrow> task_list \<Rightarrow> string + task_list \<times> task list" where
  "list_in filt ts = Inr (ts, sort_key numeric_id (filter (keeps_status filt) (map snd (tasks ts))))"

text \<open>Reading the directory loads every list found there; the first failure ends it.\<close>

definition json_stem :: "string \<Rightarrow> string option" where
  "json_stem file = (if ends_with file ''.json'' \<and> 5 < length file then Some (take (length file - 5) file) else None)"

definition dir_files :: "'doc task_store \<Rightarrow> string list" where
  "dir_files st = List.map_filter
     (\<lambda>(p, _). case strip_prefix (data_dir st @ ''/'') p of
        Some file \<Rightarrow> if CHR ''/'' \<in> set file then None else Some file | None \<Rightarrow> None) (disk st)"

fun ensure_lists :: "'doc list_codec \<Rightarrow> io_failure option \<Rightarrow> string list \<Rightarrow> 'doc task_store \<Rightarrow> 'doc task_store \<times> (string + unit)" where
  "ensure_lists codec read_error [] st = (st, Inr ())"
| "ensure_lists codec read_error (l # ls) st =
     (case ensure_list codec read_error l st of
        Inl e \<Rightarrow> (st, Inl e) | Inr st1 \<Rightarrow> ensure_lists codec read_error ls st1)"

definition read_dir :: "'doc list_codec \<Rightarrow> io_failure option \<Rightarrow> 'doc task_store \<Rightarrow> 'doc task_store \<times> (string + unit)" where
  "read_dir codec read_error st =
     (case read_error of
        Some (DirFailure e) \<Rightarrow> (st, Inl (''failed to read task dir: '' @ e))
      | Some (EntryFailure n e) \<Rightarrow>
          (case ensure_lists codec None (List.map_filter json_stem (take n (dir_files st))) st of
             (st1, Inl e') \<Rightarrow> (st1, Inl e') | (st1, Inr _) \<Rightarrow> (st1, Inl (''failed to read task dir entry: '' @ e)))
      | _ \<Rightarrow> ensure_lists codec read_error (List.map_filter json_stem (dir_files st)) st)"

definition list_ids :: "'doc list_codec \<Rightarrow> io_failure option \<Rightarrow> 'doc task_store \<Rightarrow> 'doc task_store \<times> (string + string list)" where
  "list_ids codec read_error st =
     (case read_dir codec read_error st of
        (st1, Inl e) \<Rightarrow> (st1, Inl e)
      | (st1, Inr _) \<Rightarrow>
          (st1, Inr (sort (map fst (filter (\<lambda>(l, ts). map_of (disk st1) (file_path st1 l) \<noteq> None \<or> tasks ts \<noteq> [])
             (task_lists st1))))))"

definition list_all_tasks :: "'doc list_codec \<Rightarrow> io_failure option \<Rightarrow> task_status option \<Rightarrow> 'doc task_store
    \<Rightarrow> 'doc task_store \<times> (string + task list)" where
  "list_all_tasks codec read_error filt st =
     (case list_ids codec read_error st of
        (st1, Inl e) \<Rightarrow> (st1, Inl e)
      | (st1, Inr ids) \<Rightarrow>
          (st1, Inr (map (snd \<circ> snd) (sort_key (\<lambda>(l, n, _). (l, n)) (concat (map
             (\<lambda>l. case map_of (task_lists st1) l of
                None \<Rightarrow> []
              | Some ts \<Rightarrow> map (\<lambda>t. (l, numeric_id t, t\<lparr>task_list_id := l\<rparr>)) (filter (keeps_status filt) (map snd (tasks ts))))
             ids))))))"

definition list_tasks :: "'doc list_codec \<Rightarrow> io_failure option \<Rightarrow> string \<Rightarrow> task_status option \<Rightarrow> 'doc task_store
    \<Rightarrow> 'doc task_store \<times> (string + task list)" where
  "list_tasks codec read_error l filt st =
     (if l = ''*'' then list_all_tasks codec read_error filt st else with_list codec read_error l (list_in filt) st)"

section \<open>The tool\<close>

definition str_param :: "json \<Rightarrow> string \<Rightarrow> string option" where
  "str_param params key = (case Option.bind (json_get params key) as_str of
     Some v \<Rightarrow> if trim v = [] then None else Some (trim v) | None \<Rightarrow> None)"

fun str_param_any :: "json \<Rightarrow> string list \<Rightarrow> string option" where
  "str_param_any params [] = None"
| "str_param_any params (k # ks) = (case str_param params k of Some v \<Rightarrow> Some v | None \<Rightarrow> str_param_any params ks)"

definition require_str :: "json \<Rightarrow> string \<Rightarrow> string + string" where
  "require_str params key = (case str_param params key of
     Some v \<Rightarrow> Inr v | None \<Rightarrow> Inl (''missing required parameter: '' @ key))"

datatype task_request =
    ReqCreate string string string
  | ReqList string "task_status option"
  | ReqListLists
  | ReqGet string string
  | ReqUpdate string string "task_status option" "string option" "string option" "string option" "string list option"
  | ReqClaim string string string

definition status_param :: "json \<Rightarrow> string + task_status option" where
  "status_param params = (case str_param params ''status'' of
     None \<Rightarrow> Inr None
   | Some s \<Rightarrow> (case status_from_str s of Inl e \<Rightarrow> Inl e | Inr x \<Rightarrow> Inr (Some x)))"

definition read_request :: "json \<Rightarrow> string + task_request" where
  "read_request params =
     (case require_str params ''action'' of
        Inl e \<Rightarrow> Inl e
      | Inr action \<Rightarrow>
          (let l = or_else (str_param_any params [''list_id'', ''listId'']) ''default'' in
           if action = ''create'' then
             (case require_str params ''subject'' of
                Inl e \<Rightarrow> Inl e | Inr s \<Rightarrow> Inr (ReqCreate l s (or_else (str_param params ''description'') [])))
           else if action = ''list'' then
             (case status_param params of
                Inl e \<Rightarrow> Inl e
              | Inr filt \<Rightarrow> Inr (ReqList (if l = ''default'' \<and> json_get params ''list_id'' = None \<and> json_get params ''listId'' = None
                                         then ''*'' else l) filt))
           else if action = ''list_lists'' then Inr ReqListLists
           else if action = ''get'' then
             (case require_str params ''id'' of Inl e \<Rightarrow> Inl e | Inr i \<Rightarrow> Inr (ReqGet l i))
           else if action = ''update'' then
             (case require_str params ''id'' of
                Inl e \<Rightarrow> Inl e
              | Inr i \<Rightarrow> (case status_param params of
                    Inl e \<Rightarrow> Inl e
                  | Inr stat \<Rightarrow> Inr (ReqUpdate l i stat (str_param params ''subject'') (str_param params ''description'')
                      (str_param params ''owner'')
                      (map_option (List.map_filter as_str) (Option.bind (json_get params ''blocked_by'') as_array)))))
           else if action = ''claim'' then
             (case require_str params ''id'' of
                Inl e \<Rightarrow> Inl e
              | Inr i \<Rightarrow> Inr (ReqClaim l i (or_else (str_param_any params [''owner'', ''_session_key'']) ''agent'')))
           else Inl (''unknown task_list action: '' @ action)))"

datatype task_result = ResTask task | ResTaskOption "task option" | ResTasks "task list" | ResIds "string list"

text \<open>
  The first section of a request: its answer if it succeeds, and the list to be written
  when the request changes one.
\<close>

definition begin_request :: "'doc list_codec \<Rightarrow> io_failure option \<Rightarrow> nat \<Rightarrow> task_request \<Rightarrow> 'doc task_store
    \<Rightarrow> 'doc task_store \<times> (string + task_result) \<times> string option" where
  "begin_request codec read_error now req st = (case req of
     ReqCreate l subj descr \<Rightarrow> (case with_list codec read_error l (create_in now l subj descr) st of
        (st1, Inl e) \<Rightarrow> (st1, Inl e, None) | (st1, Inr t) \<Rightarrow> (st1, Inr (ResTask t), Some l))
   | ReqList l filt \<Rightarrow> (case list_tasks codec read_error l filt st of
        (st1, Inl e) \<Rightarrow> (st1, Inl e, None) | (st1, Inr ts) \<Rightarrow> (st1, Inr (ResTasks ts), None))
   | ReqListLists \<Rightarrow> (case list_ids codec read_error st of
        (st1, Inl e) \<Rightarrow> (st1, Inl e, None) | (st1, Inr ls) \<Rightarrow> (st1, Inr (ResIds ls), None))
   | ReqGet l i \<Rightarrow> (case with_list codec read_error l (get_in i) st of
        (st1, Inl e) \<Rightarrow> (st1, Inl e, None) | (st1, Inr t) \<Rightarrow> (st1, Inr (ResTaskOption t), None))
   | ReqUpdate l i stat subj descr own deps \<Rightarrow>
       (case with_list codec read_error l (update_in now i stat subj descr own deps) st of
        (st1, Inl e) \<Rightarrow> (st1, Inl e, None) | (st1, Inr t) \<Rightarrow> (st1, Inr (ResTask t), Some l))
   | ReqClaim l i own \<Rightarrow> (case with_list codec read_error l (claim_in now i own) st of
        (st1, Inl e) \<Rightarrow> (st1, Inl e, None) | (st1, Inr t) \<Rightarrow> (st1, Inr (ResTask t), Some l)))"

text \<open>The tool, when nothing comes between the two sections.\<close>

definition execute :: "'doc list_codec \<Rightarrow> io_failure option \<Rightarrow> io_failure option \<Rightarrow> nat \<Rightarrow> json \<Rightarrow> 'doc task_store
    \<Rightarrow> 'doc task_store \<times> (string + task_result)" where
  "execute codec read_error write_error now params st =
     (case read_request params of
        Inl e \<Rightarrow> (st, Inl e)
      | Inr req \<Rightarrow>
          (case begin_request codec read_error now req st of
             (st1, r, None) \<Rightarrow> (st1, r)
           | (st1, r, Some l) \<Rightarrow>
               (case persist codec write_error l st1 of
                  (st2, Inl e) \<Rightarrow> (st2, Inl e) | (st2, Inr _) \<Rightarrow> (st2, r))))"

section \<open>Interleavings\<close>

text \<open>
  The sections of all requests, in the order in which they take the lock. With the store
  goes the set of lists that were changed and not yet written.
\<close>

datatype section_step =
    Begin "io_failure option" nat task_request \<comment> \<open>read error, clock, request\<close>
  | Write "io_failure option" string \<comment> \<open>write error, list\<close>

fun section_run :: "'doc list_codec \<Rightarrow> section_step list \<Rightarrow> 'doc task_store \<times> string set \<Rightarrow> ('doc task_store \<times> string set) \<times> (string + task_result) list" where
  "section_run codec [] c = (c, [])"
| "section_run codec (Begin re now req # ss) (st, D) =
     (case begin_request codec re now req st of
        (st1, r, d) \<Rightarrow> (case section_run codec ss (st1, (case d of Some l \<Rightarrow> insert l D | None \<Rightarrow> D)) of
           (c, rs) \<Rightarrow> (c, r # rs)))"
| "section_run codec (Write we l # ss) (st, D) =
     (case persist codec we l st of
        (st1, Inl e) \<Rightarrow> (case section_run codec ss (st1, D) of (c, rs) \<Rightarrow> (c, Inl e # rs))
      | (st1, Inr _) \<Rightarrow> (case section_run codec ss (st1, D - {l}) of (c, rs) \<Rightarrow> (c, Inr (ResIds []) # rs)))"

lemma ensure_present: "ensure_list codec re l st = Inr st1 \<Longrightarrow> \<exists>ts. map_of (task_lists st1) l = Some ts"
  by (auto simp: ensure_list_def update_conv' split: if_splits option.splits sum.splits)

lemma with_list_cases:
  assumes "with_list codec re l f st = (st', r)"
  obtains (failed) e where "ensure_list codec re l st = Inl e" "st' = st" "r = Inl e"
    | (loaded) st1 ts e where "ensure_list codec re l st = Inr st1" "map_of (task_lists st1) l = Some ts" "f ts = Inl e" "st' = st1" "r = Inl e"
    | (changed) st1 ts ts' x where "ensure_list codec re l st = Inr st1" "map_of (task_lists st1) l = Some ts" "f ts = Inr (ts', x)"
        "st' = st1\<lparr>task_lists := AList.update l ts' (task_lists st1)\<rparr>" "r = Inr x"
proof (cases "ensure_list codec re l st")
  case (Inl e)
  show thesis by (rule failed [OF Inl]) (use assms Inl in \<open>simp_all add: with_list_def\<close>)
next
  case (Inr st1)
  obtain ts where ts: "map_of (task_lists st1) l = Some ts" using ensure_present [OF Inr] by blast
  show thesis
  proof (cases "f ts")
    case (Inl e)
    show thesis by (rule loaded [OF Inr ts Inl]) (use assms Inr ts Inl in \<open>simp_all add: with_list_def\<close>)
  next
    case f: (Inr y)
    obtain ts' x where y: "y = (ts', x)" by force
    show thesis by (rule changed [OF Inr ts f [unfolded y]]) (use assms Inr ts f y in \<open>simp_all add: with_list_def\<close>)
  qed
qed

text \<open>Loading never changes a list that is in memory.\<close>

definition grows :: "'doc task_store \<Rightarrow> 'doc task_store \<Rightarrow> bool" where
  "grows st st' \<longleftrightarrow> data_dir st' = data_dir st \<and> disk st' = disk st
     \<and> (\<forall>l ts. map_of (task_lists st) l = Some ts \<longrightarrow> map_of (task_lists st') l = Some ts)"

lemma grows_refl: "grows st st" and grows_trans: "grows s1 s2 \<Longrightarrow> grows s2 s3 \<Longrightarrow> grows s1 s3"
  by (simp_all add: grows_def)

lemma ensure_grows: "ensure_list codec re l st = Inr st1 \<Longrightarrow> grows st st1"
  by (auto simp: ensure_list_def grows_def update_conv' split: if_splits option.splits sum.splits)

lemma ensure_lists_grows: "ensure_lists codec re ls st = (st', r) \<Longrightarrow> grows st st'"
proof (induction ls arbitrary: st)
  case (Cons l ls)
  then show ?case by (auto split: sum.splits intro: grows_refl grows_trans [OF ensure_grows])
qed (simp add: grows_refl)

lemma read_dir_grows: "read_dir codec re st = (st', r) \<Longrightarrow> grows st st'"
  by (auto simp: read_dir_def grows_refl split: prod.splits sum.splits option.splits io_failure.splits dest: ensure_lists_grows)

lemma list_ids_grows: "list_ids codec re st = (st', r) \<Longrightarrow> grows st st'"
  by (auto simp: list_ids_def split: prod.splits sum.splits dest: read_dir_grows)

lemma list_all_grows: "list_all_tasks codec re filt st = (st', r) \<Longrightarrow> grows st st'"
  by (auto simp: list_all_tasks_def split: prod.splits sum.splits dest: list_ids_grows)

section \<open>Claims\<close>

definition taken :: "'doc task_store \<Rightarrow> string \<Rightarrow> string \<Rightarrow> bool" where
  "taken st l i \<longleftrightarrow> (\<exists>ts t. map_of (task_lists st) l = Some ts \<and> map_of (tasks ts) i = Some t \<and> task_status t \<noteq> Pending)"

lemma taken_grows: "grows st st' \<Longrightarrow> taken st l i \<Longrightarrow> taken st' l i"
  unfolding taken_def grows_def by blast

text \<open>The requests that can make a task pending: an update that says so, and its creation.\<close>

fun reopens :: "string \<Rightarrow> string \<Rightarrow> section_step \<Rightarrow> string + task_result \<Rightarrow> bool" where
  "reopens l i (Begin _ _ (ReqUpdate l' i' stat _ _ _ _)) r \<longleftrightarrow> l' = l \<and> i' = i \<and> stat = Some Pending"
| "reopens l i (Begin _ _ (ReqCreate l' _ _)) (Inr (ResTask t)) \<longleftrightarrow> l' = l \<and> task_id t = i"
| "reopens l i _ _ \<longleftrightarrow> False"

lemma taken_with_list:
  assumes "with_list codec re l' f st = (st', r)" "taken st l i"
    and keep: "\<And>ts ts' x t. f ts = Inr (ts', x) \<Longrightarrow> r = Inr x \<Longrightarrow> l' = l \<Longrightarrow> map_of (tasks ts) i = Some t \<Longrightarrow> task_status t \<noteq> Pending
        \<Longrightarrow> \<exists>t'. map_of (tasks ts') i = Some t' \<and> task_status t' \<noteq> Pending"
  shows "taken st' l i"
  using assms(1)
proof (cases rule: with_list_cases)
  case failed
  then show ?thesis using assms(2) by simp
next
  case (loaded st1 ts e)
  then show ?thesis using taken_grows [OF ensure_grows] assms(2) by blast
next
  case (changed st1 ts ts' x)
  have t1: "taken st1 l i" using taken_grows [OF ensure_grows [OF changed(1)] assms(2)] .
  show ?thesis
  proof (cases "l' = l")
    case True
    obtain t where t: "map_of (tasks ts) i = Some t" "task_status t \<noteq> Pending"
      using t1 changed(2) True by (auto simp: taken_def)
    from keep [OF changed(3,5) True t] obtain t' where "map_of (tasks ts') i = Some t'" "task_status t' \<noteq> Pending" by blast
    then show ?thesis using changed(4) True by (simp add: taken_def update_conv')
  next
    case False
    then show ?thesis using t1 changed(4) by (simp add: taken_def update_conv')
  qed
qed

lemma keep_update:
  assumes "update_in now j stat subj descr own deps ts = Inr (ts', x)" "\<not> (j = i \<and> stat = Some Pending)"
    "map_of (tasks ts) i = Some t" "task_status t \<noteq> Pending"
  shows "\<exists>t'. map_of (tasks ts') i = Some t' \<and> task_status t' \<noteq> Pending"
  using assms by (auto simp: update_in_def update_conv' or_else_def Let_def split: option.splits)

lemma keep_claim:
  assumes "claim_in now j own ts = Inr (ts', x)" "map_of (tasks ts) i = Some t" "task_status t \<noteq> Pending"
  shows "\<exists>t'. map_of (tasks ts') i = Some t' \<and> task_status t' \<noteq> Pending"
  using assms by (auto simp: claim_in_def update_conv' Let_def split: option.splits if_splits)

lemma taken_begin:
  assumes run: "begin_request codec re now req st = (st', r, d)" and t: "taken st l i" and n: "\<not> reopens l i (Begin re now req) r"
  shows "taken st' l i"
proof (cases req)
  case (ReqCreate l' subj descr)
  obtain r' where w: "with_list codec re l' (create_in now l' subj descr) st = (st', r')"
      "r = (case r' of Inl e \<Rightarrow> Inl e | Inr t \<Rightarrow> Inr (ResTask t))"
    using run ReqCreate by (auto simp: begin_request_def split: prod.splits sum.splits)
  show ?thesis
    by (rule taken_with_list [OF w(1) t])
      (use n w(2) ReqCreate in \<open>auto simp: create_in_def update_conv' Let_def split: sum.splits\<close>)
next
  case (ReqList l' filt)
  then have "list_tasks codec re l' filt st = (st', case r of Inl e \<Rightarrow> Inl e | Inr (ResTasks ts) \<Rightarrow> Inr ts)"
    using run by (auto simp: begin_request_def split: prod.splits sum.splits)
  then show ?thesis
    using t taken_grows [OF list_all_grows] by (auto simp: list_tasks_def list_in_def split: if_splits intro: taken_with_list)
next
  case ReqListLists
  then show ?thesis using run t taken_grows [OF list_ids_grows] by (auto simp: begin_request_def split: prod.splits sum.splits)
next
  case (ReqGet l' j)
  then obtain r' where "with_list codec re l' (get_in j) st = (st', r')"
    using run by (auto simp: begin_request_def split: prod.splits sum.splits)
  then show ?thesis using t by (rule taken_with_list) (auto simp: get_in_def)
next
  case (ReqUpdate l' j stat subj descr own deps)
  then obtain r' where "with_list codec re l' (update_in now j stat subj descr own deps) st = (st', r')"
    using run by (auto simp: begin_request_def split: prod.splits sum.splits)
  then show ?thesis using t by (rule taken_with_list) (use n ReqUpdate in \<open>auto intro: keep_update\<close>)
next
  case (ReqClaim l' j own)
  then obtain r' where "with_list codec re l' (claim_in now j own) st = (st', r')"
    using run by (auto simp: begin_request_def split: prod.splits sum.splits)
  then show ?thesis using t by (rule taken_with_list) (auto intro: keep_claim)
qed

lemma persist_lists: "persist codec we l st = (st', r) \<Longrightarrow> task_lists st' = task_lists st"
  by (auto simp: persist_def split: option.splits sum.splits)

lemma taken_run:
  assumes "section_run codec ss (st, D) = ((st', D'), rs)" "taken st l i" "\<forall>(s, r) \<in> set (zip ss rs). \<not> reopens l i s r"
  shows "taken st' l i"
  using assms
proof (induction ss arbitrary: st D rs)
  case (Cons s ss)
  show ?case
  proof (cases s)
    case (Begin re now req)
    obtain st1 r d where b: "begin_request codec re now req st = (st1, r, d)" by (cases "begin_request codec re now req st") auto
    let ?D = "case d of Some l \<Rightarrow> insert l D | None \<Rightarrow> D"
    obtain rs' where run: "section_run codec ss (st1, ?D) = ((st', D'), rs')" "rs = r # rs'"
      using Cons.prems(1) Begin b by (auto split: prod.splits)
    have "taken st1 l i" by (rule taken_begin [OF b Cons.prems(2)]) (use Cons.prems(3) Begin run(2) in simp)
    then show ?thesis by (rule Cons.IH [OF run(1)]) (use Cons.prems(3) run(2) in simp)
  next
    case (Write we l')
    obtain st1 r where p: "persist codec we l' st = (st1, r)" by force
    have t: "taken st1 l i" using Cons.prems(2) persist_lists [OF p] by (simp add: taken_def)
    obtain D1 x rs' where run: "section_run codec ss (st1, D1) = ((st', D'), rs')" "rs = x # rs'"
      using Cons.prems(1) Write p by (cases r) (auto split: prod.splits)
    show ?thesis by (rule Cons.IH [OF run(1) t]) (use Cons.prems(3) run(2) in simp)
  qed
qed simp

lemma claim_taken:
  assumes "taken st l i"
  shows "\<exists>e. begin_request codec re now (ReqClaim l i own) st = (st, Inl e, None)"
proof -
  obtain ts t where t: "map_of (task_lists st) l = Some ts" "map_of (tasks ts) i = Some t" "task_status t \<noteq> Pending"
    using assms by (auto simp: taken_def)
  then have "ensure_list codec re l st = Inr st" by (simp add: ensure_list_def)
  with t show ?thesis by (simp add: begin_request_def with_list_def claim_in_def)
qed

lemma claim_in_result:
  assumes "claim_in now i own ts = Inr (ts', t)"
  shows "map_of (tasks ts') i = Some t" "task_status t = InProgress" "task_owner t = Some own"
    "\<And>d t'. d \<in> set (blocked_by t) \<Longrightarrow> map_of (tasks ts') d = Some t' \<Longrightarrow> task_status t' = Completed"
  using assms
  by (auto simp: claim_in_def blocking_def Let_def update_conv' filter_empty_conv split: option.splits if_splits)
    fastforce+

lemma claim_begin:
  assumes "begin_request codec re now (ReqClaim l i own) st = (st1, Inr r, d)"
  obtains ts t where "map_of (task_lists st1) l = Some ts" "r = ResTask t" "map_of (tasks ts) i = Some t"
    "task_status t = InProgress" "task_owner t = Some own"
    "\<And>d t'. d \<in> set (blocked_by t) \<Longrightarrow> map_of (tasks ts) d = Some t' \<Longrightarrow> task_status t' = Completed"
proof -
  obtain t where w: "with_list codec re l (claim_in now i own) st = (st1, Inr t)" and r: "r = ResTask t"
    using assms by (auto simp: begin_request_def split: prod.splits sum.splits)
  from w show thesis
  proof (cases rule: with_list_cases)
    case (changed s1 ts ts' x)
    then show ?thesis using claim_in_result [OF changed(3)] r that by (simp add: update_conv')
  qed simp_all
qed

text \<open>
  C28. A task is claimed once. A successful claim answers with the task in progress and owned
  by the claimer, and every task it waits for that the list knows is completed. However the
  sections of other requests follow, reads, writes of the files and failures included, as
  long as none of them makes the task pending again, every further claim of it is refused
  and changes nothing.
\<close>

theorem claimed_stays_claimed:
  assumes claim: "begin_request codec re now (ReqClaim l i own) st = (st1, Inr r, d)"
    and run: "section_run codec ss (st1, D) = ((st2, D2), rs)"
    and quiet: "\<forall>(s, x) \<in> set (zip ss rs). \<not> reopens l i s x"
  shows "(\<exists>ts t. map_of (task_lists st1) l = Some ts \<and> r = ResTask t \<and> map_of (tasks ts) i = Some t
       \<and> task_status t = InProgress \<and> task_owner t = Some own
       \<and> (\<forall>b t'. b \<in> set (blocked_by t) \<and> map_of (tasks ts) b = Some t' \<longrightarrow> task_status t' = Completed))
     \<and> (\<exists>e. begin_request codec re' now' (ReqClaim l i own') st2 = (st2, Inl e, None))"
proof -
  obtain ts t where c: "map_of (task_lists st1) l = Some ts" "r = ResTask t" "map_of (tasks ts) i = Some t"
    "task_status t = InProgress" "task_owner t = Some own"
    "\<And>d t'. d \<in> set (blocked_by t) \<Longrightarrow> map_of (tasks ts) d = Some t' \<Longrightarrow> task_status t' = Completed"
    using claim_begin [OF claim] by blast
  have "taken st1 l i" using c(1,3,4) by (auto simp: taken_def)
  from claim_taken [OF taken_run [OF run this quiet]] show ?thesis using c by blast
qed

definition demo_file_codec :: "task_list list_codec" where
  "demo_file_codec = \<lparr>encode_list = Inr, decode_list = Inr\<rparr>"

definition demo_task :: task where
  "demo_task = \<lparr>task_id = ''1'', subject = ''a'', description = [], task_status = Pending, task_owner = None,
     blocked_by = [], created_at = 0, updated_at = 0, task_list_id = ''l''\<rparr>"

definition demo_store :: "task_list task_store" where
  "demo_store = \<lparr>data_dir = ''/d'', task_lists = [(''l'', \<lparr>next_task_id = 2, tasks = [(''1'', demo_task)]\<rparr>)], disk = []\<rparr>"

theorem claimed_stays_claimed_witness:
  "\<exists>e. begin_request demo_file_codec None 9 (ReqClaim ''l'' ''1'' ''w2'')
      (fst (fst (section_run demo_file_codec [Write None ''l'', Begin None 8 (ReqUpdate ''l'' ''1'' (Some Completed) None None None None)]
        (fst (begin_request demo_file_codec None 7 (ReqClaim ''l'' ''1'' ''w1'') demo_store), {''l''}))))
    = (fst (fst (section_run demo_file_codec [Write None ''l'', Begin None 8 (ReqUpdate ''l'' ''1'' (Some Completed) None None None None)]
        (fst (begin_request demo_file_codec None 7 (ReqClaim ''l'' ''1'' ''w1'') demo_store), {''l''}))), Inl e, None)"
proof -
  let ?t = "demo_task\<lparr>task_owner := Some ''w1'', task_status := InProgress, updated_at := 7\<rparr>"
  let ?s1 = "demo_store\<lparr>task_lists := [(''l'', \<lparr>next_task_id = 2, tasks = [(''1'', ?t)]\<rparr>)]\<rparr>"
  let ?ss = "[Write None ''l'', Begin None 8 (ReqUpdate ''l'' ''1'' (Some Completed) None None None None)]"
  have c: "begin_request demo_file_codec None 7 (ReqClaim ''l'' ''1'' ''w1'') demo_store = (?s1, Inr (ResTask ?t), Some ''l'')"
    by (simp add: begin_request_def with_list_def ensure_list_def claim_in_def blocking_def Let_def demo_store_def demo_task_def)
  obtain st2 D2 rs where run: "section_run demo_file_codec ?ss (?s1, {''l''}) = ((st2, D2), rs)"
    by (metis prod.exhaust)
  have "\<forall>(s, x) \<in> set (zip ?ss rs). \<not> reopens ''l'' ''1'' s x"
    using set_zip_leftD by fastforce
  from claimed_stays_claimed [OF c run this, of None 9 "''w2''"] c run show ?thesis by simp
qed

section \<open>What a restart finds\<close>

definition plain :: "string \<Rightarrow> bool" where
  "plain l \<longleftrightarrow> CHR ''/'' \<notin> set l"

definition on_disk :: "'doc list_codec \<Rightarrow> 'doc task_store \<Rightarrow> string \<Rightarrow> task_list \<Rightarrow> bool" where
  "on_disk codec st l ts = (case map_of (disk st) (file_path st l) of
     None \<Rightarrow> ts = task_list_default | Some doc \<Rightarrow> decode_list codec doc = Inr ts)"

definition caught_up :: "'doc list_codec \<Rightarrow> 'doc task_store \<Rightarrow> string set \<Rightarrow> bool" where
  "caught_up codec st D \<longleftrightarrow>
     (\<forall>l ts. plain l \<and> l \<notin> D \<and> map_of (task_lists st) l = Some ts \<longrightarrow> on_disk codec st l ts)"

lemma plain_path: "plain l \<Longrightarrow> file_path st l = data_dir st @ ''/'' @ l @ ''.json''"
  by (cases l) (auto simp: file_path_def path_join_def starts_with_def plain_def)

lemma path_inject: "plain l \<Longrightarrow> plain k \<Longrightarrow> file_path st l = file_path st k \<longleftrightarrow> l = k"
  by (simp add: plain_path)

lemma on_disk_lists [simp]: "on_disk codec (st\<lparr>task_lists := x\<rparr>) l ts = on_disk codec st l ts"
  by (simp add: on_disk_def file_path_def)

lemma ensure_new:
  "ensure_list codec re l st = Inr st1 \<Longrightarrow> map_of (task_lists st1) k = Some ts
   \<Longrightarrow> map_of (task_lists st) k = Some ts \<or> on_disk codec st k ts"
  by (auto simp: ensure_list_def on_disk_def update_conv' split: if_splits option.splits sum.splits)

lemma ensure_on_disk: "ensure_list codec re l st = Inr st1 \<Longrightarrow> on_disk codec st1 k ts = on_disk codec st k ts"
  by (auto simp: ensure_list_def split: if_splits option.splits sum.splits)

lemma ensure_caught_up:
  assumes "ensure_list codec re l st = Inr st1" "caught_up codec st D"
  shows "caught_up codec st1 D"
  using assms(2) ensure_new [OF assms(1)] unfolding caught_up_def ensure_on_disk [OF assms(1)] by blast

lemma ensure_lists_caught_up:
  "ensure_lists codec re ls st = (st', r) \<Longrightarrow> caught_up codec st D \<Longrightarrow> caught_up codec st' D"
proof (induction ls arbitrary: st)
  case (Cons l ls)
  then show ?case by (auto split: sum.splits dest: ensure_caught_up)
qed simp

lemma list_ids_caught_up: "list_ids codec re st = (st', r) \<Longrightarrow> caught_up codec st D \<Longrightarrow> caught_up codec st' D"
  by (auto simp: list_ids_def read_dir_def
      split: prod.splits sum.splits option.splits io_failure.splits dest: ensure_lists_caught_up)

lemma with_list_caught_up:
  assumes "with_list codec re l f st = (st', r)" "caught_up codec st D"
    and "\<And>ts ts' x. f ts = Inr (ts', x) \<Longrightarrow> r = Inr x \<Longrightarrow> ts' = ts \<or> l \<in> D'" "D \<subseteq> D'"
  shows "caught_up codec st' D'"
  using assms(1)
proof (cases rule: with_list_cases)
  case failed
  then show ?thesis using assms(2,4) by (auto simp: caught_up_def)
next
  case (loaded st1 ts e)
  then show ?thesis using ensure_caught_up [OF loaded(1) assms(2)] assms(4) by (auto simp: caught_up_def)
next
  case (changed st1 ts ts' x)
  have c: "caught_up codec st1 D'" using ensure_caught_up [OF changed(1) assms(2)] assms(4) by (auto simp: caught_up_def)
  with assms(3) [OF changed(3,5)] changed(2) show ?thesis
    unfolding changed(4) by (auto simp: caught_up_def update_conv' split: if_splits)
qed

lemma list_all_caught_up:
  "list_all_tasks codec re filt st = (st', r) \<Longrightarrow> caught_up codec st D \<Longrightarrow> caught_up codec st' D"
  by (auto simp: list_all_tasks_def split: prod.splits sum.splits dest: list_ids_caught_up)

lemma begin_caught_up:
  assumes run: "begin_request codec re now req st = (st', r, d)" and c: "caught_up codec st D"
  shows "caught_up codec st' (case d of Some l \<Rightarrow> insert l D | None \<Rightarrow> D)"
proof (cases req)
  case (ReqCreate l subj descr)
  then show ?thesis using run c
    by (auto simp: begin_request_def split: prod.splits sum.splits elim!: with_list_caught_up)
next
  case (ReqList l filt)
  then show ?thesis using run c
    by (auto simp: begin_request_def list_tasks_def list_in_def split: prod.splits sum.splits if_splits
        elim!: with_list_caught_up dest: list_all_caught_up)
next
  case ReqListLists
  then show ?thesis using run c by (auto simp: begin_request_def split: prod.splits sum.splits dest: list_ids_caught_up)
next
  case (ReqGet l j)
  then show ?thesis using run c
    by (auto simp: begin_request_def get_in_def split: prod.splits sum.splits elim!: with_list_caught_up)
next
  case (ReqUpdate l j stat subj descr own deps)
  then show ?thesis using run c
    by (auto simp: begin_request_def split: prod.splits sum.splits elim!: with_list_caught_up)
next
  case (ReqClaim l j own)
  then show ?thesis using run c
    by (auto simp: begin_request_def split: prod.splits sum.splits elim!: with_list_caught_up)
qed

lemma on_disk_write:
  assumes "plain l" "plain k"
  shows "on_disk codec (st\<lparr>disk := AList.update (file_path st l) doc (disk st)\<rparr>) k ts
    \<longleftrightarrow> (if k = l then decode_list codec doc = Inr ts else on_disk codec st k ts)"
  using path_inject [OF assms, of st]
  by (auto simp: on_disk_def update_conv' file_path_def)

lemma persist_caught_up:
  assumes round: "\<And>ts doc. encode_list codec ts = Inr doc \<Longrightarrow> decode_list codec doc = Inr ts" and l: "plain l"
    and p: "persist codec we l st = (st', r)" and c: "caught_up codec st D"
  shows "caught_up codec st' (case r of Inl e \<Rightarrow> D | Inr _ \<Rightarrow> D - {l})"
proof (cases "st' = st \<and> (isl r \<or> map_of (task_lists st) l = None)")
  case True
  then show ?thesis using c by (cases r) (auto simp: caught_up_def)
next
  case False
  then obtain ts doc where w: "map_of (task_lists st) l = Some ts" "encode_list codec ts = Inr doc"
    "st' = st\<lparr>disk := AList.update (file_path st l) doc (disk st)\<rparr>" "r = Inr ()"
    using p by (auto simp: persist_def split: option.splits sum.splits)
  show ?thesis using c round [OF w(2)] w(1) l
    by (auto simp: caught_up_def w(3,4) on_disk_write)
qed

text \<open>Requests whose list names are file names.\<close>

fun plain_step :: "section_step \<Rightarrow> bool" where
  "plain_step (Write _ l) \<longleftrightarrow> plain l"
| "plain_step _ \<longleftrightarrow> True"

lemma with_list_dir: "with_list codec re l f st = (st', r) \<Longrightarrow> data_dir st' = data_dir st"
  by (auto simp: with_list_def grows_def split: sum.splits option.splits dest!: ensure_grows)

lemma begin_dir: "begin_request codec re now req st = (st', r, d) \<Longrightarrow> data_dir st' = data_dir st"
  by (auto simp: begin_request_def list_tasks_def grows_def split: task_request.splits prod.splits sum.splits if_splits
      dest: with_list_dir list_ids_grows list_all_grows)

lemma persist_dir: "persist codec we l st = (st', r) \<Longrightarrow> data_dir st' = data_dir st"
  by (auto simp: persist_def split: option.splits sum.splits)

lemma run_dir: "section_run codec ss (st, D) = ((st', D'), rs) \<Longrightarrow> data_dir st' = data_dir st"
proof (induction ss arbitrary: st D rs)
  case (Cons s ss)
  show ?case
  proof (cases s)
    case (Begin re now req)
    then show ?thesis using Cons by (auto split: prod.splits dest!: begin_dir)
  next
    case (Write we l)
    then show ?thesis using Cons by (auto split: prod.splits sum.splits dest!: persist_dir)
  qed
qed simp

lemma run_caught_up:
  assumes round: "\<And>ts doc. encode_list codec ts = Inr doc \<Longrightarrow> decode_list codec doc = Inr ts"
    and "section_run codec ss (st, D) = ((st', D'), rs)" "\<forall>s \<in> set ss. plain_step s" "caught_up codec st D"
  shows "caught_up codec st' D'"
  using assms(2-)
proof (induction ss arbitrary: st D rs)
  case (Cons s ss)
  show ?case
  proof (cases s)
    case (Begin re now req)
    obtain st1 r d where b: "begin_request codec re now req st = (st1, r, d)" by (cases "begin_request codec re now req st") auto
    let ?D = "case d of Some l \<Rightarrow> insert l D | None \<Rightarrow> D"
    obtain rs' where run: "section_run codec ss (st1, ?D) = ((st', D'), rs')"
      using Cons.prems(1) Begin b by (auto split: prod.splits)
    show ?thesis by (rule Cons.IH [OF run _ begin_caught_up [OF b Cons.prems(3)]]) (use Cons.prems(2) in simp)
  next
    case (Write we l)
    obtain st1 r where p: "persist codec we l st = (st1, r)" by force
    have l: "plain l" using Cons.prems(2) Write by simp
    obtain rs' where run: "section_run codec ss (st1, case r of Inl e \<Rightarrow> D | Inr _ \<Rightarrow> D - {l}) = ((st', D'), rs')"
      using Cons.prems(1) Write p by (cases r) (auto split: prod.splits)
    show ?thesis
      by (rule Cons.IH [OF run _ persist_caught_up [OF round l p Cons.prems(3)]]) (use Cons.prems(2) in simp)
  qed
qed simp



section \<open>Names, numbers and paths\<close>

lemma status_round_trip: "status_from_str (status_as_str s) = Inr s"
  by (cases s) (simp_all add: status_from_str_def)

lemma status_from_str_inverse: "status_from_str x = Inr s \<Longrightarrow> x = status_as_str s"
  by (auto simp: status_from_str_def split: if_splits)

lemma show_nat_inject: "show_nat m = show_nat n \<Longrightarrow> m = n"
  by (metis show_nat_digits)

text \<open>In a list whose numbers are below the next one, a new task takes no other's place.\<close>

definition numbered :: "task_list \<Rightarrow> bool" where
  "numbered ts \<longleftrightarrow> (\<forall>i \<in> fst ` set (tasks ts). \<exists>n < next_task_id ts. i = show_nat n)"

lemma created_is_new:
  assumes n: "numbered ts" and bound: "next_task_id ts < 2 ^ 64 - 1" and c: "create_in now l subj descr ts = Inr (ts', t)"
  shows "map_of (tasks ts) (task_id t) = None" "numbered ts'" "map_of (tasks ts') (task_id t) = Some t"
proof -
  have t: "task_id t = show_nat (next_task_id ts)" "tasks ts' = AList.update (task_id t) t (tasks ts)"
    "next_task_id ts' = Suc (next_task_id ts)"
    using c bound by (auto simp: create_in_def Let_def saturating_add_def)
  have new: "show_nat (next_task_id ts) \<notin> fst ` set (tasks ts)"
    using n using show_nat_inject by (fastforce simp: numbered_def)
  then show "map_of (tasks ts) (task_id t) = None" by (simp add: t(1) map_of_eq_None_iff)
  have "fst ` set (tasks ts') = insert (task_id t) (fst ` set (tasks ts))"
    using dom_update [of "task_id t" t "tasks ts"] by (simp add: t(2) dom_map_of_conv_image_fst)
  then show "numbered ts'" using n unfolding numbered_def t(3) t(1) by (metis insert_iff lessI less_SucI)
  show "map_of (tasks ts') (task_id t) = Some t" by (simp add: t(2) update_conv')
qed

text \<open>A list name that is an absolute path leaves the directory of the store.\<close>

lemma absolute_name_escapes: "file_path st (CHR ''/'' # p) = CHR ''/'' # p @ ''.json''"
  by (simp add: file_path_def path_join_def starts_with_def)

text \<open>A write that fails answers with an error, and the change stays in memory.\<close>

lemma failed_write_keeps_change:
  assumes "begin_request codec re now req st = (st1, Inr r, Some l)"
    "read_request params = Inr req" "persist codec we l st1 = (st2, Inl e)"
  shows "execute codec re we now params st = (st1, Inl e)"
  using assms by (auto simp: execute_def persist_def split: option.splits sum.splits)

end
