(* ===== verification/Tool_Lifecycle.thy ===== *)
theory Tool_Lifecycle
  imports Rust_Text "HOL-Library.List_Lexorder" "HOL-Library.Char_ord"
begin

text \<open>
  The lifecycle of a tool call (\<open>crates/common/src/tool_lifecycle.rs\<close>) and the tool names a
  record of the history makes visible (\<open>crates/common/src/tool_disclosure.rs\<close>). Decoding an
  event from JSON, which the sources derive, and parsing JSON text are parameters. The
  budget metadata of an event is kept as its JSON.
\<close>

section \<open>Events\<close>

datatype tool_lifecycle_stage =
    StCreated | StInputStreaming | StInputReady | StWaitingForExecution | StExecuting
  | StExecutionProgress | StResultReady | StCompleted | StRejected | StCancelled

definition is_terminal :: "tool_lifecycle_stage \<Rightarrow> bool" where
  "is_terminal s \<longleftrightarrow> s = StCompleted \<or> s = StRejected \<or> s = StCancelled"

datatype tool_lifecycle_update =
    LcCreated "nat option"
  | LcInputStreaming string
  | LcInputReady json
  | LcWaitingForExecution json
  | LcExecuting json nat
  | LcExecutionProgress json nat string
  | LcResultReady json bool "string option" "string option"
  | LcCompleted json bool "string option" "string option" \<comment> \<open>arguments, success, result, error\<close>
  | LcRejected json string string \<comment> \<open>arguments, reason, result\<close>
  | LcCancelled "json option" string

fun stage :: "tool_lifecycle_update \<Rightarrow> tool_lifecycle_stage" where
  "stage (LcCreated _) = StCreated"
| "stage (LcInputStreaming _) = StInputStreaming"
| "stage (LcInputReady _) = StInputReady"
| "stage (LcWaitingForExecution _) = StWaitingForExecution"
| "stage (LcExecuting _ _) = StExecuting"
| "stage (LcExecutionProgress _ _ _) = StExecutionProgress"
| "stage (LcResultReady _ _ _ _) = StResultReady"
| "stage (LcCompleted _ _ _ _) = StCompleted"
| "stage (LcRejected _ _ _) = StRejected"
| "stage (LcCancelled _ _) = StCancelled"

definition AGENT_RUN_CANCELLED_REASON :: string where
  "AGENT_RUN_CANCELLED_REASON = ''Stopped by user.''"

fun is_user_stop :: "tool_lifecycle_update \<Rightarrow> bool" where
  "is_user_stop (LcCancelled _ reason) \<longleftrightarrow> reason = AGENT_RUN_CANCELLED_REASON"
| "is_user_stop _ \<longleftrightarrow> False"

fun lifecycle_arguments :: "tool_lifecycle_update \<Rightarrow> json option" where
  "lifecycle_arguments (LcCreated _) = None"
| "lifecycle_arguments (LcInputStreaming _) = None"
| "lifecycle_arguments (LcInputReady a) = Some a"
| "lifecycle_arguments (LcWaitingForExecution a) = Some a"
| "lifecycle_arguments (LcExecuting a _) = Some a"
| "lifecycle_arguments (LcExecutionProgress a _ _) = Some a"
| "lifecycle_arguments (LcResultReady a _ _ _) = Some a"
| "lifecycle_arguments (LcCompleted a _ _ _) = Some a"
| "lifecycle_arguments (LcRejected a _ _) = Some a"
| "lifecycle_arguments (LcCancelled a _) = a"

record tool_lifecycle_event =
  lc_call_id :: string
  lc_tool_name :: string
  lc_sequence :: nat
  emitted_at_ms :: nat
  lc_run_id :: "string option"
  context_budget :: "json option"
  lc_update :: tool_lifecycle_update

section \<open>What a record discloses\<close>

record json_decoders =
  de_lifecycle :: "json \<Rightarrow> string + tool_lifecycle_event"
  de_json :: "string \<Rightarrow> string + json"

text \<open>A sorted set of names is the sorted list of its elements.\<close>

record disclosed_record =
  disclosed_names :: "string list"
  disclosed_segment :: "string option"

definition GET_TOOL_NAME :: string where
  "GET_TOOL_NAME = ''get_tool''"

definition role_of :: "json \<Rightarrow> string option" where
  "role_of v = Option.bind (json_get v ''role'') as_str"

definition disclosable :: "string option \<Rightarrow> string option" where
  "disclosable name = (case name of
     None \<Rightarrow> None
   | Some n \<Rightarrow> if trim n \<noteq> [] \<and> trim n \<noteq> GET_TOOL_NAME then Some (trim n) else None)"

definition collect_direct_tool_calls :: "json \<Rightarrow> string list" where
  "collect_direct_tool_calls v = (case Option.bind (json_get v ''tool_calls'') as_array of
     None \<Rightarrow> []
   | Some calls \<Rightarrow> sort (remdups (List.map_filter
       (\<lambda>c. disclosable (Option.bind (Option.bind (json_get c ''function'') (\<lambda>f. json_get f ''name'')) as_str)) calls)))"

fun as_bool :: "json \<Rightarrow> bool option" where
  "as_bool (JBool b) = Some b"
| "as_bool _ = None"

definition collect_get_tool_reveal :: "('a :: type) json_decoders_scheme \<Rightarrow> json \<Rightarrow> string + string list" where
  "collect_get_tool_reveal dec v = (case de_lifecycle dec v of
     Inl e \<Rightarrow> Inl e
   | Inr l \<Rightarrow>
       if lc_tool_name l \<noteq> GET_TOOL_NAME then Inr []
       else (case lc_update l of
          LcCompleted _ True (Some r) _ \<Rightarrow>
            (case de_json dec r of
               Inl e \<Rightarrow> Inl e
             | Inr res \<Rightarrow>
                 if Option.bind (json_get res ''schema_visible'') as_bool \<noteq> Some True then Inr []
                 else (case disclosable (Option.bind (json_get res ''name'') as_str) of
                    None \<Rightarrow> Inr [] | Some n \<Rightarrow> Inr [n]))
        | _ \<Rightarrow> Inr []))"

definition record_segment :: "json \<Rightarrow> string option" where
  "record_segment v = (if role_of v = Some ''assistant'' then Option.bind (json_get v ''segmentId'') as_str else None)"

definition record_disclosure :: "('a :: type) json_decoders_scheme \<Rightarrow> json \<Rightarrow> string + disclosed_record" where
  "record_disclosure dec v =
     (case (if role_of v = Some ''assistant'' then Inr (collect_direct_tool_calls v)
            else if role_of v = Some ''tool_lifecycle'' then collect_get_tool_reveal dec v else Inr []) of
        Inl e \<Rightarrow> Inl e
      | Inr ns \<Rightarrow> Inr \<lparr>disclosed_names = ns, disclosed_segment = record_segment v\<rparr>)"

lemma disclosable_not_get_tool: "disclosable n = Some m \<Longrightarrow> m \<noteq> GET_TOOL_NAME \<and> m \<noteq> []"
  by (auto simp: disclosable_def split: option.splits if_splits)

lemma in_map_filter: "y \<in> set (List.map_filter f xs) \<longleftrightarrow> (\<exists>x \<in> set xs. f x = Some y)"
  by (force simp: map_filter_def)

text \<open>The control tool itself is never disclosed.\<close>

lemma get_tool_hidden: "record_disclosure dec v = Inr d \<Longrightarrow> GET_TOOL_NAME \<notin> set (disclosed_names d)"
  by (auto simp: record_disclosure_def collect_direct_tool_calls_def collect_get_tool_reveal_def in_map_filter
      dest!: disclosable_not_get_tool split: if_splits sum.splits option.splits tool_lifecycle_update.splits bool.splits)

lemma disclosed_names_distinct: "record_disclosure dec v = Inr d \<Longrightarrow> distinct (disclosed_names d)"
  by (auto simp: record_disclosure_def collect_direct_tool_calls_def collect_get_tool_reveal_def
      split: if_splits sum.splits option.splits tool_lifecycle_update.splits bool.splits)

end
