(* ===== verification/Session_Journal.thy ===== *)
theory Session_Journal
  imports Tool_Lifecycle
begin

text \<open>
  The canonical journal of a session: \<open>crates/sessions/src/journal.rs\<close> over its tables, with
  the parts of \<open>crates/sessions/src/store.rs\<close> that choose a boundary. The tables of a session
  are one record; a table is the list of its rows in the order of insertion, a transaction
  that fails leaves the tables as they were. A payload column holds the text of a JSON value
  and is kept as that value. What the database itself may refuse, other than a duplicate key,
  is left out.
\<close>

section \<open>Tables\<close>

record journal_pointers =
  canonical_tail :: nat
  last_checkpoint_index :: "nat option"
  first_user_index :: "nat option"

record record_row =
  record_index :: nat
  record_role :: string
  payload :: json

record session_tables =
  journal_row :: "journal_pointers option"
  session_records :: "record_row list"
  tool_disclosures :: "(string \<times> nat) list"
  assistant_segments :: "(nat \<times> string) list"
  disclosure_errors :: "nat list"
  ui_total_messages :: "nat option"
  ui_snapshots :: nat

datatype journal_error =
    HistoryWithoutJournal string
  | NoCanonicalJournal string
  | UniqueConstraint
  | JournalMessage string

datatype journal_import_conflict = Skip | Overwrite

text \<open>An index is bound as a signed 64-bit integer.\<close>

definition as_i64 :: "nat \<Rightarrow> journal_error + nat" where
  "as_i64 n = (if n < 2 ^ 63 then Inr n else Inl (JournalMessage ''out of range integral type conversion attempted''))"

definition max_index :: "nat list \<Rightarrow> nat option" where
  "max_index ns = (if ns = [] then None else Some (Max (set ns)))"

definition min_index :: "nat list \<Rightarrow> nat option" where
  "min_index ns = (if ns = [] then None else Some (Min (set ns)))"

definition coalesce :: "'a option \<Rightarrow> 'a option \<Rightarrow> 'a option" where
  "coalesce a b = (case a of Some x \<Rightarrow> Some x | None \<Rightarrow> b)"

definition rows_with :: "string \<Rightarrow> record_row list \<Rightarrow> nat list" where
  "rows_with role rs = map record_index (filter (\<lambda>r. record_role r = role) rs)"

definition has_ui_history :: "session_tables \<Rightarrow> bool" where
  "has_ui_history t \<longleftrightarrow> (case ui_total_messages t of Some n \<Rightarrow> 0 < n | None \<Rightarrow> False) \<or> 0 < ui_snapshots t"

section \<open>Opening\<close>

definition empty_pointers :: journal_pointers where
  "empty_pointers = \<lparr>canonical_tail = 0, last_checkpoint_index = None, first_user_index = None\<rparr>"

definition ensure_open_tx :: "string \<Rightarrow> bool \<Rightarrow> session_tables \<Rightarrow> session_tables \<times> (journal_error + journal_pointers)" where
  "ensure_open_tx key discard t = (case journal_row t of
     Some p \<Rightarrow> (t, Inr p)
   | None \<Rightarrow>
       if \<not> discard \<and> has_ui_history t then (t, Inl (HistoryWithoutJournal key))
       else (if discard then t else t\<lparr>journal_row := Some empty_pointers\<rparr>, Inr empty_pointers))"

definition pointers :: "string \<Rightarrow> session_tables \<Rightarrow> journal_error + journal_pointers" where
  "pointers key t = (case journal_row t of Some p \<Rightarrow> Inr p | None \<Rightarrow> Inl (NoCanonicalJournal key))"

section \<open>Appending\<close>

definition stored_role :: "json \<Rightarrow> string" where
  "stored_role v = (case role_of v of Some r \<Rightarrow> r | None \<Rightarrow> [])"

text \<open>\<open>ON CONFLICT DO NOTHING\<close>: the first record that disclosed a name keeps it.\<close>

definition insert_disclosure :: "nat \<Rightarrow> string \<Rightarrow> (string \<times> nat) list \<Rightarrow> (string \<times> nat) list" where
  "insert_disclosure i n ds = (if n \<in> fst ` set ds then ds else ds @ [(n, i)])"

definition insert_record :: "('a :: type) json_decoders_scheme \<Rightarrow> nat \<Rightarrow> json \<Rightarrow> session_tables \<Rightarrow> journal_error + session_tables" where
  "insert_record dec i v t = (case as_i64 i of
     Inl e \<Rightarrow> Inl e
   | Inr _ \<Rightarrow>
       if i \<in> record_index ` set (session_records t) then Inl UniqueConstraint
       else
         (let t1 = t\<lparr>session_records := session_records t @ [\<lparr>record_index = i, record_role = stored_role v, payload = v\<rparr>]\<rparr> in
          case record_disclosure dec v of
            Inr d \<Rightarrow>
              (let t2 = t1\<lparr>tool_disclosures := fold (insert_disclosure i) (disclosed_names d) (tool_disclosures t1)\<rparr> in
               case disclosed_segment d of
                 None \<Rightarrow> Inr t2
               | Some s \<Rightarrow>
                   if i \<in> fst ` set (assistant_segments t2) then Inl UniqueConstraint
                   else Inr (t2\<lparr>assistant_segments := assistant_segments t2 @ [(i, s)]\<rparr>))
          | Inl _ \<Rightarrow>
              if i \<in> set (disclosure_errors t1) then Inl UniqueConstraint
              else Inr (t1\<lparr>disclosure_errors := disclosure_errors t1 @ [i]\<rparr>)))"

record append_state =
  next_index :: nat
  last_checkpoint :: "nat option"
  first_user :: "nat option"

definition note_record :: "json \<Rightarrow> append_state \<Rightarrow> append_state" where
  "note_record v a = \<lparr>next_index = next_index a + 1,
     last_checkpoint = (if stored_role v = ''checkpoint'' then Some (next_index a) else last_checkpoint a),
     first_user = (if stored_role v = ''user'' \<and> first_user a = None then Some (next_index a) else first_user a)\<rparr>"

fun append_loop :: "('a :: type) json_decoders_scheme \<Rightarrow> json list \<Rightarrow> append_state \<Rightarrow> session_tables
    \<Rightarrow> journal_error + append_state \<times> session_tables" where
  "append_loop dec [] a t = Inr (a, t)"
| "append_loop dec (v # vs) a t =
     (if next_index a = 2 ^ 64 - 1 then Inl (JournalMessage ''session message index overflow'')
      else (case insert_record dec (next_index a) v t of
         Inl e \<Rightarrow> Inl e
       | Inr t1 \<Rightarrow> append_loop dec vs (note_record v a) t1))"

definition append_records :: "('a :: type) json_decoders_scheme \<Rightarrow> json list \<Rightarrow> nat \<Rightarrow> session_tables
    \<Rightarrow> session_tables \<times> (journal_error + nat)" where
  "append_records dec vs expected t =
     (if vs = [] then (t, Inl (JournalMessage ''session append batch is empty''))
      else case as_i64 expected of
        Inl e \<Rightarrow> (t, Inl e)
      | Inr _ \<Rightarrow>
          (case journal_row t of
             None \<Rightarrow> (t, Inl (JournalMessage (''expected message index '' @ show_nat expected @ '', found session tail '' @ show_nat 0)))
           | Some p \<Rightarrow>
               if canonical_tail p \<noteq> expected then
                 (t, Inl (JournalMessage (''expected message index '' @ show_nat expected @ '', found session tail '' @ show_nat (canonical_tail p))))
               else (case append_loop dec vs \<lparr>next_index = expected, last_checkpoint = None, first_user = None\<rparr> t of
                  Inl e \<Rightarrow> (t, Inl e)
                | Inr (a, t1) \<Rightarrow>
                    (case as_i64 (next_index a) of
                       Inl e \<Rightarrow> (t, Inl e)
                     | Inr _ \<Rightarrow>
                         (t1\<lparr>journal_row := Some \<lparr>canonical_tail = next_index a,
                             last_checkpoint_index = coalesce (last_checkpoint a) (last_checkpoint_index p),
                             first_user_index = coalesce (first_user_index p) (first_user a)\<rparr>\<rparr>, Inr expected)))))"

section \<open>Clearing, cutting, forking, rewriting, importing\<close>

definition no_rows :: "session_tables \<Rightarrow> session_tables" where
  "no_rows t = t\<lparr>session_records := [], tool_disclosures := [], assistant_segments := [], disclosure_errors := []\<rparr>"

definition clear_journal :: "session_tables \<Rightarrow> session_tables" where
  "clear_journal t = (no_rows t)\<lparr>journal_row := Some empty_pointers\<rparr>"

definition below :: "nat \<Rightarrow> nat option \<Rightarrow> nat option" where
  "below b i = (case i of Some n \<Rightarrow> if n < b then Some n else None | None \<Rightarrow> None)"

definition truncate_journal :: "nat \<Rightarrow> session_tables \<Rightarrow> session_tables \<times> (journal_error + unit)" where
  "truncate_journal b t = (case as_i64 b of
     Inl e \<Rightarrow> (t, Inl e)
   | Inr _ \<Rightarrow>
       (let rs = filter (\<lambda>r. record_index r < b) (session_records t) in
        (t\<lparr>session_records := rs,
           tool_disclosures := filter (\<lambda>(_, i). i < b) (tool_disclosures t),
           assistant_segments := filter (\<lambda>(i, _). i < b) (assistant_segments t),
           disclosure_errors := filter (\<lambda>i. i < b) (disclosure_errors t),
           journal_row := map_option (\<lambda>p. \<lparr>canonical_tail = b,
             last_checkpoint_index = max_index (filter (\<lambda>i. i < b) (rows_with ''checkpoint'' rs)),
             first_user_index = below b (first_user_index p)\<rparr>) (journal_row t)\<rparr>, Inr ())))"

text \<open>\<open>INSERT ... SELECT\<close> into a table with a primary key.\<close>

definition insert_all :: "('r \<Rightarrow> 'k) \<Rightarrow> 'r list \<Rightarrow> 'r list \<Rightarrow> 'r list option" where
  "insert_all key old new =
     (if distinct (map key new) \<and> key ` set new \<inter> key ` set old = {} then Some (old @ new) else None)"

definition copy_rows :: "session_tables \<Rightarrow> nat \<Rightarrow> session_tables \<Rightarrow> session_tables option" where
  "copy_rows p b t =
     (case (insert_all record_index (session_records t) (filter (\<lambda>r. record_index r < b) (session_records p)),
            insert_all fst (tool_disclosures t) (filter (\<lambda>(_, i). i < b) (tool_disclosures p)),
            insert_all fst (assistant_segments t) (filter (\<lambda>(i, _). i < b) (assistant_segments p)),
            insert_all id (disclosure_errors t) (filter (\<lambda>i. i < b) (disclosure_errors p))) of
        (Some rs, Some ds, Some ss, Some es) \<Rightarrow>
          Some (t\<lparr>session_records := rs, tool_disclosures := ds, assistant_segments := ss, disclosure_errors := es\<rparr>)
      | _ \<Rightarrow> None)"

definition copy_prefix :: "session_tables \<Rightarrow> nat \<Rightarrow> session_tables \<Rightarrow> session_tables \<times> (journal_error + unit)" where
  "copy_prefix parent b t = (case as_i64 b of
     Inl e \<Rightarrow> (t, Inl e)
   | Inr _ \<Rightarrow>
       if (case journal_row t of Some p \<Rightarrow> canonical_tail p \<noteq> 0 | None \<Rightarrow> False) then
         (t, Inl (JournalMessage ''fork destination already has a journal''))
       else if (case journal_row parent of None \<Rightarrow> 0 < b | Some p \<Rightarrow> canonical_tail p < b) then
         (t, Inl (JournalMessage ''fork boundary is outside canonical journal''))
       else (case copy_rows parent b t of
          None \<Rightarrow> (t, Inl UniqueConstraint)
        | Some t1 \<Rightarrow>
            (t1\<lparr>journal_row := Some \<lparr>canonical_tail = b,
               last_checkpoint_index = max_index (filter (\<lambda>i. i < b) (rows_with ''checkpoint'' (session_records t1))),
               first_user_index = Option.bind (journal_row parent) (\<lambda>p. below b (first_user_index p))\<rparr>\<rparr>, Inr ())))"

definition required_payload :: "nat \<Rightarrow> session_tables \<Rightarrow> journal_error + json" where
  "required_payload i t = (case as_i64 i of
     Inl e \<Rightarrow> Inl e
   | Inr _ \<Rightarrow>
       (case find (\<lambda>r. record_index r = i) (session_records t) of
          None \<Rightarrow> Inl (JournalMessage (''message index '' @ show_nat i @ '' is outside session history''))
        | Some r \<Rightarrow> Inr (payload r)))"

definition same_disclosure :: "('a :: type) json_decoders_scheme \<Rightarrow> json \<Rightarrow> json \<Rightarrow> bool" where
  "same_disclosure dec v w = (case (record_disclosure dec v, record_disclosure dec w) of
     (Inr a, Inr b) \<Rightarrow> a = b
   | (Inl _, Inl _) \<Rightarrow> True
   | _ \<Rightarrow> False)"

definition update_record :: "('a :: type) json_decoders_scheme \<Rightarrow> nat \<Rightarrow> json \<Rightarrow> session_tables
    \<Rightarrow> session_tables \<times> (journal_error + unit)" where
  "update_record dec i w t = (case required_payload i t of
     Inl e \<Rightarrow> (t, Inl e)
   | Inr v \<Rightarrow>
       if \<not> same_disclosure dec v w then (t, Inl (JournalMessage ''canonical update cannot change tool disclosure''))
       else (t\<lparr>session_records := map (\<lambda>r. if record_index r = i then r\<lparr>record_role := stored_role w, payload := w\<rparr> else r)
               (session_records t)\<rparr>, Inr ()))"

text \<open>
  Importing takes the rows of the attached database, the user interface's included. Every
  row of the session is deleted first when the session exists and is to be overwritten.
\<close>

definition import_one :: "session_tables \<Rightarrow> journal_import_conflict \<Rightarrow> session_tables
    \<Rightarrow> session_tables \<times> (journal_error + bool)" where
  "import_one imported conflict t =
     (let present = journal_row t \<noteq> None \<or> ui_total_messages t \<noteq> None in
      if present \<and> conflict = Skip then (t, Inr False)
      else
        (let t1 = (if present then (no_rows t)\<lparr>journal_row := None, ui_total_messages := None, ui_snapshots := 0\<rparr> else t) in
         case insert_all record_index (session_records t1) (session_records imported) of
           None \<Rightarrow> (t, Inl UniqueConstraint)
         | Some rs \<Rightarrow>
           (case insert_all fst (tool_disclosures t1) (tool_disclosures imported) of
              None \<Rightarrow> (t, Inl UniqueConstraint)
            | Some ds \<Rightarrow>
              (case insert_all fst (assistant_segments t1) (assistant_segments imported) of
                 None \<Rightarrow> (t, Inl UniqueConstraint)
               | Some ss \<Rightarrow>
                 (case insert_all id (disclosure_errors t1) (disclosure_errors imported) of
                    None \<Rightarrow> (t, Inl UniqueConstraint)
                  | Some es \<Rightarrow>
                      (\<lparr>journal_row = journal_row imported, session_records = rs, tool_disclosures = ds,
                        assistant_segments = ss, disclosure_errors = es,
                        ui_total_messages = ui_total_messages imported, ui_snapshots = ui_snapshots t1 + ui_snapshots imported\<rparr>,
                       Inr True))))))"

section \<open>The history a journal holds\<close>

text \<open>
  The abstract journal is the list of its values. Every table is computed from that list:
  \<open>fills\<close> says that the rows are, \<open>represents\<close> that the pointers are as well.
\<close>

definition indices_with :: "string \<Rightarrow> json list \<Rightarrow> nat list" where
  "indices_with role vs = map fst (filter (\<lambda>(i, v). stored_role v = role) (enumerate 0 vs))"

definition pointers_of :: "json list \<Rightarrow> journal_pointers" where
  "pointers_of vs = \<lparr>canonical_tail = length vs, last_checkpoint_index = max_index (indices_with ''checkpoint'' vs),
     first_user_index = min_index (indices_with ''user'' vs)\<rparr>"

definition row_of :: "nat \<times> json \<Rightarrow> record_row" where
  "row_of = (\<lambda>(i, v). \<lparr>record_index = i, record_role = stored_role v, payload = v\<rparr>)"

definition names_of :: "('a :: type) json_decoders_scheme \<Rightarrow> json \<Rightarrow> string list" where
  "names_of dec v = (case record_disclosure dec v of Inr d \<Rightarrow> disclosed_names d | Inl _ \<Rightarrow> [])"

definition segment_of :: "('a :: type) json_decoders_scheme \<Rightarrow> json \<Rightarrow> string option" where
  "segment_of dec v = (case record_disclosure dec v of Inr d \<Rightarrow> disclosed_segment d | Inl _ \<Rightarrow> None)"

definition disclosures_of :: "('a :: type) json_decoders_scheme \<Rightarrow> json list \<Rightarrow> (string \<times> nat) list" where
  "disclosures_of dec vs = fold (\<lambda>(i, v). fold (insert_disclosure i) (names_of dec v)) (enumerate 0 vs) []"

definition segments_of :: "('a :: type) json_decoders_scheme \<Rightarrow> json list \<Rightarrow> (nat \<times> string) list" where
  "segments_of dec vs = List.map_filter (\<lambda>(i, v). map_option (Pair i) (segment_of dec v)) (enumerate 0 vs)"

definition errors_of :: "('a :: type) json_decoders_scheme \<Rightarrow> json list \<Rightarrow> nat list" where
  "errors_of dec vs = map fst (filter (\<lambda>(i, v). isl (record_disclosure dec v)) (enumerate 0 vs))"

definition fills :: "('a :: type) json_decoders_scheme \<Rightarrow> session_tables \<Rightarrow> json list \<Rightarrow> bool" where
  "fills dec t vs \<longleftrightarrow> session_records t = map row_of (enumerate 0 vs) \<and> tool_disclosures t = disclosures_of dec vs
     \<and> assistant_segments t = segments_of dec vs \<and> disclosure_errors t = errors_of dec vs"

definition represents :: "('a :: type) json_decoders_scheme \<Rightarrow> session_tables \<Rightarrow> json list option \<Rightarrow> bool" where
  "represents dec t c \<longleftrightarrow> (case c of
     None \<Rightarrow> journal_row t = None \<and> fills dec t []
   | Some vs \<Rightarrow> journal_row t = Some (pointers_of vs) \<and> fills dec t vs)"

lemma enumerate_snoc: "enumerate 0 (vs @ [v]) = enumerate 0 vs @ [(length vs, v)]"
  by (simp add: enumerate_append_eq)

lemma enumerate_below: "(i, v) \<in> set (enumerate 0 vs) \<Longrightarrow> i < length vs"
  by (auto simp: in_set_enumerate_eq)

lemma indices_snoc: "indices_with r (vs @ [v]) = indices_with r vs @ (if stored_role v = r then [length vs] else [])"
  by (simp add: indices_with_def enumerate_snoc)

lemma indices_below: "i \<in> set (indices_with r vs) \<Longrightarrow> i < length vs"
  by (auto simp: indices_with_def dest: enumerate_below)

lemma indices_Nil [simp]: "indices_with r [] = []"
  by (simp add: indices_with_def)

lemma max_index_snoc: "\<forall>m \<in> set ns. m \<le> n \<Longrightarrow> max_index (ns @ [n]) = Some n"
  by (auto simp: max_index_def intro!: Max_eqI)

lemma min_index_snoc: "\<forall>m \<in> set ns. m \<le> n \<Longrightarrow> min_index (ns @ [n]) = coalesce (min_index ns) (Some n)"
  by (cases "ns = []") (auto simp: min_index_def coalesce_def min_absorb2 intro: order_trans)

lemma disclosures_snoc: "disclosures_of dec (vs @ [v]) = fold (insert_disclosure (length vs)) (names_of dec v) (disclosures_of dec vs)"
  by (simp add: disclosures_of_def enumerate_snoc)

lemma segments_snoc: "segments_of dec (vs @ [v]) = segments_of dec vs @ (case segment_of dec v of Some s \<Rightarrow> [(length vs, s)] | None \<Rightarrow> [])"
  by (simp add: segments_of_def enumerate_snoc map_filter_def split: option.splits)

lemma errors_snoc: "errors_of dec (vs @ [v]) = errors_of dec vs @ (if isl (record_disclosure dec v) then [length vs] else [])"
  by (simp add: errors_of_def enumerate_snoc)

lemma segments_below: "i \<in> fst ` set (segments_of dec vs) \<Longrightarrow> i < length vs"
  by (auto simp: segments_of_def in_map_filter dest: enumerate_below)

lemma errors_below: "i \<in> set (errors_of dec vs) \<Longrightarrow> i < length vs"
  by (auto simp: errors_of_def dest: enumerate_below)

lemma fold_insert_disclosure:
  "(n, j) \<in> set (fold (insert_disclosure i) ns ds) \<Longrightarrow> (n, j) \<in> set ds \<or> j = i"
proof (induction ns arbitrary: ds)
  case (Cons m ns)
  then have "(n, j) \<in> set (insert_disclosure i m ds) \<or> j = i" by simp
  then show ?case by (auto simp: insert_disclosure_def split: if_splits)
qed simp

lemma disclosures_below: "(n, i) \<in> set (disclosures_of dec vs) \<Longrightarrow> i < length vs"
proof (induction vs rule: rev_induct)
  case (snoc v vs)
  then show ?case by (force simp: disclosures_snoc dest: fold_insert_disclosure)
qed (simp add: disclosures_of_def)

lemma fills_empty: "fills dec t [] \<longleftrightarrow> session_records t = [] \<and> tool_disclosures t = [] \<and> assistant_segments t = [] \<and> disclosure_errors t = []"
  by (simp add: fills_def disclosures_of_def segments_of_def errors_of_def map_filter_def)

lemma fills_row_index: "fills dec t vs \<Longrightarrow> record_index ` set (session_records t) = {..<length vs}"
  by (force simp: fills_def row_of_def in_set_enumerate_eq)

section \<open>Appending\<close>

lemma insert_record_fills:
  assumes "fills dec t vs"
  shows "insert_record dec (length vs) v t = (if length vs < 2 ^ 63
    then Inr (t\<lparr>session_records := map row_of (enumerate 0 (vs @ [v])), tool_disclosures := disclosures_of dec (vs @ [v]),
      assistant_segments := segments_of dec (vs @ [v]), disclosure_errors := errors_of dec (vs @ [v])\<rparr>)
    else Inl (JournalMessage ''out of range integral type conversion attempted''))"
proof -
  have "length vs \<notin> record_index ` set (session_records t)" using fills_row_index [OF assms] by simp
  moreover have "length vs \<notin> fst ` set (assistant_segments t)" "length vs \<notin> set (disclosure_errors t)"
    using assms segments_below errors_below by (fastforce simp: fills_def)+
  ultimately show ?thesis
    using assms by (auto simp: insert_record_def as_i64_def fills_def row_of_def enumerate_snoc disclosures_snoc segments_snoc
        errors_snoc names_of_def segment_of_def Let_def split: sum.splits option.splits)
qed

text \<open>What the accumulators of the loop say about the values passed.\<close>

definition tracks :: "journal_pointers \<Rightarrow> append_state \<Rightarrow> json list \<Rightarrow> bool" where
  "tracks p a vs \<longleftrightarrow> next_index a = length vs
     \<and> coalesce (last_checkpoint a) (last_checkpoint_index p) = max_index (indices_with ''checkpoint'' vs)
     \<and> coalesce (first_user_index p) (first_user a) = min_index (indices_with ''user'' vs)"

lemma tracks_step:
  assumes "tracks p a vs"
  shows "tracks p (note_record v a) (vs @ [v])"
proof -
  have "max_index (indices_with r vs @ [length vs]) = Some (length vs)"
    "min_index (indices_with r vs @ [length vs]) = coalesce (min_index (indices_with r vs)) (Some (length vs))" for r
    by (auto intro!: max_index_snoc min_index_snoc simp: less_imp_le indices_below)
  moreover have "indices_with r (vs @ [v]) = indices_with r vs" if "stored_role v \<noteq> r" for r using that by (simp add: indices_snoc)
  ultimately show ?thesis
    using assms by (auto simp: tracks_def note_record_def indices_snoc coalesce_def split: option.splits)
qed

lemma append_loop_fills:
  assumes "fills dec t vs" "tracks p a vs"
  shows "(case append_loop dec us a t of
      Inl e \<Rightarrow> 2 ^ 63 < length vs + length us
    | Inr (a', t') \<Rightarrow> fills dec t' (vs @ us) \<and> tracks p a' (vs @ us) \<and> journal_row t' = journal_row t
        \<and> ui_total_messages t' = ui_total_messages t \<and> ui_snapshots t' = ui_snapshots t)"
  using assms
proof (induction us arbitrary: vs a t)
  case (Cons u us)
  have next_i: "next_index a = length vs" using Cons.prems(2) by (simp add: tracks_def)
  show ?case
  proof (cases "length vs < 2 ^ 63")
    case True
    let ?t = "t\<lparr>session_records := map row_of (enumerate 0 (vs @ [u])), tool_disclosures := disclosures_of dec (vs @ [u]),
      assistant_segments := segments_of dec (vs @ [u]), disclosure_errors := errors_of dec (vs @ [u])\<rparr>"
    have "fills dec ?t (vs @ [u])" by (simp add: fills_def)
    from Cons.IH [OF this tracks_step [OF Cons.prems(2)]] show ?thesis
      using True insert_record_fills [OF Cons.prems(1), of u] by (simp add: next_i split: sum.splits prod.splits)
  next
    case False
    then show ?thesis using insert_record_fills [OF Cons.prems(1), of u] by (simp add: next_i Let_def)
  qed
qed simp

lemma append_represents:
  assumes "represents dec t (Some vs)"
  shows "if us \<noteq> [] \<and> n = length vs \<and> n + length us < 2 ^ 63
    then \<exists>t'. append_records dec us n t = (t', Inr n) \<and> represents dec t' (Some (vs @ us))
      \<and> ui_total_messages t' = ui_total_messages t \<and> ui_snapshots t' = ui_snapshots t
    else \<exists>e. append_records dec us n t = (t, Inl e)"
proof -
  let ?a = "\<lparr>next_index = n, last_checkpoint = None, first_user = None\<rparr>"
  have row: "journal_row t = Some (pointers_of vs)" and fill: "fills dec t vs" using assms by (simp_all add: represents_def)
  show ?thesis
  proof (cases "us \<noteq> [] \<and> n = length vs")
    case False
    then show ?thesis using row by (auto simp: append_records_def as_i64_def pointers_of_def)
  next
    case True
    have "tracks (pointers_of vs) ?a vs" using True by (simp add: tracks_def pointers_of_def coalesce_def split: option.splits)
    note loop = append_loop_fills [OF fill this, of us]
    show ?thesis
    proof (cases "append_loop dec us ?a t")
      case (Inl e)
      then show ?thesis using loop True row by (auto simp: append_records_def as_i64_def pointers_of_def)
    next
      case (Inr y)
      obtain a t' where y: "y = (a, t')" by force
      have l: "fills dec t' (vs @ us)" "tracks (pointers_of vs) a (vs @ us)"
        "ui_total_messages t' = ui_total_messages t" "ui_snapshots t' = ui_snapshots t"
        using loop Inr y by simp_all
      have nxt: "next_index a = length vs + length us" using l(2) by (simp add: tracks_def)
      show ?thesis
        using l True row Inr y nxt
        by (auto simp: append_records_def as_i64_def represents_def fills_def tracks_def) (simp_all add: pointers_of_def)
    qed
  qed
qed

section \<open>The other operations\<close>

lemma enumerate_take: "filter (\<lambda>(i, v). i < b) (enumerate 0 vs) = enumerate 0 (take b vs)"
proof (induction vs rule: rev_induct)
  case (snoc v vs)
  show ?case
  proof (cases "length vs < b")
    case True
    then have "filter (\<lambda>(i, v). i < b) (enumerate 0 vs) = enumerate 0 vs" by (auto simp: filter_id_conv dest: enumerate_below)
    then show ?thesis using True by (simp add: enumerate_snoc)
  next
    case False
    then show ?thesis using snoc by (simp add: enumerate_snoc)
  qed
qed simp

lemma rows_take: "filter (\<lambda>r. record_index r < b) (map row_of (enumerate 0 vs)) = map row_of (enumerate 0 (take b vs))"
  unfolding enumerate_take [symmetric] by (simp add: filter_map comp_def row_of_def case_prod_unfold)

lemma segments_take: "filter (\<lambda>(i, _). i < b) (segments_of dec vs) = segments_of dec (take b vs)"
proof -
  have "filter (\<lambda>(i, _). i < b) (List.map_filter (\<lambda>(i, v). map_option (Pair i) (f v)) xs)
      = List.map_filter (\<lambda>(i, v). map_option (Pair i) (f v)) (filter (\<lambda>(i, v). i < b) xs)" for f :: "json \<Rightarrow> string option" and xs
    by (induction xs) (auto simp: map_filter_simps split: option.splits)
  then show ?thesis by (simp add: segments_of_def enumerate_take)
qed

lemma errors_take: "filter (\<lambda>i. i < b) (errors_of dec vs) = errors_of dec (take b vs)"
  unfolding errors_of_def enumerate_take [symmetric]
  by (simp add: filter_map comp_def case_prod_unfold conj_commute)

lemma indices_take: "filter (\<lambda>i. i < b) (indices_with r vs) = indices_with r (take b vs)"
  unfolding indices_with_def enumerate_take [symmetric]
  by (simp add: filter_map comp_def case_prod_unfold conj_commute)

lemma filter_fold_insert: "b \<le> i \<Longrightarrow> filter (\<lambda>(_, j). j < b) (fold (insert_disclosure i) ns ds) = filter (\<lambda>(_, j). j < b) ds"
proof (induction ns arbitrary: ds)
  case (Cons m ns)
  then show ?case using Cons.IH [of "insert_disclosure i m ds"] by (simp add: insert_disclosure_def)
qed simp

lemma disclosures_take: "filter (\<lambda>(_, i). i < b) (disclosures_of dec vs) = disclosures_of dec (take b vs)"
proof (induction vs rule: rev_induct)
  case (snoc v vs)
  show ?case
  proof (cases "length vs < b")
    case True
    then have "filter (\<lambda>(_, i). i < b) (disclosures_of dec (vs @ [v])) = disclosures_of dec (vs @ [v])"
      by (force simp: filter_id_conv dest: disclosures_below)
    then show ?thesis using True by simp
  next
    case False
    then show ?thesis using snoc by (simp add: disclosures_snoc filter_fold_insert)
  qed
qed (simp add: disclosures_of_def)

lemmas rows_cut = rows_take segments_take errors_take disclosures_take

lemma rows_with_indices: "rows_with r (map row_of (enumerate 0 vs)) = indices_with r vs"
  by (simp add: rows_with_def indices_with_def filter_map comp_def row_of_def case_prod_unfold)

lemma indices_all_below: "filter (\<lambda>i. i < length vs) (indices_with r vs) = indices_with r vs"
  by (auto simp: filter_id_conv dest: indices_below)

lemma indices_cut: "filter (\<lambda>i. i < b) (indices_with r (take b vs)) = indices_with r (take b vs)"
  by (auto simp: filter_id_conv dest!: indices_below)

lemma below_min: "below b (min_index (indices_with r vs)) = min_index (indices_with r (take b vs))"
proof -
  have "below b (min_index ns) = min_index (filter (\<lambda>i. i < b) ns)" if "sorted ns" for ns
    using that
  proof (cases ns)
    case (Cons m ms)
    then have "Min (set ns) = m" using that by (auto intro!: Min_eqI)
    moreover have "filter (\<lambda>i. i < b) ns = []" if "\<not> m < b" using that Cons \<open>sorted ns\<close> by (auto simp: filter_empty_conv)
    moreover have "Min (set (filter (\<lambda>i. i < b) ns)) = m" if "m < b" using that Cons \<open>sorted ns\<close> by (auto intro!: Min_eqI)
    ultimately show ?thesis using Cons by (auto simp: min_index_def below_def)
  qed (simp add: min_index_def below_def)
  moreover have "sorted (indices_with r vs)"
    by (induction vs rule: rev_induct) (auto simp: indices_snoc sorted_append less_imp_le indices_below)
  ultimately show ?thesis by (simp add: indices_take)
qed

lemma truncate_represents:
  assumes "represents dec t (Some vs)" "b \<le> length vs"
  shows "if b < 2 ^ 63
    then \<exists>t'. truncate_journal b t = (t', Inr ()) \<and> represents dec t' (Some (take b vs))
      \<and> ui_total_messages t' = ui_total_messages t \<and> ui_snapshots t' = ui_snapshots t
    else \<exists>e. truncate_journal b t = (t, Inl e)"
  using assms by (auto simp: truncate_journal_def as_i64_def represents_def fills_def rows_cut pointers_of_def rows_with_indices
      below_min indices_cut min_def)

lemma insert_all_empty: "insert_all key [] new = (if distinct (map key new) then Some new else None)"
  by (simp add: insert_all_def)

lemma distinct_rows: "distinct (map record_index (map row_of (enumerate 0 vs)))"
proof -
  have "map record_index (map row_of (enumerate 0 vs)) = map fst (enumerate 0 vs)" by (simp add: row_of_def case_prod_unfold comp_def)
  then show ?thesis by simp
qed

lemma distinct_fold_insert: "distinct (map fst ds) \<Longrightarrow> distinct (map fst (fold (insert_disclosure i) ns ds))"
  by (induction ns arbitrary: ds) (auto simp: insert_disclosure_def)

lemma distinct_disclosures: "distinct (map fst (disclosures_of dec vs))"
  by (induction vs rule: rev_induct) (simp add: disclosures_of_def, simp add: disclosures_snoc distinct_fold_insert)

lemma distinct_segments: "distinct (map fst (segments_of dec vs))"
proof (induction vs rule: rev_induct)
  case (snoc v vs)
  then show ?case using segments_below by (fastforce simp: segments_snoc split: option.splits)
qed (simp add: segments_of_def map_filter_simps)

lemma distinct_errors: "distinct (errors_of dec vs)"
  by (simp add: errors_of_def distinct_map_filter)

lemma copy_rows_fills:
  assumes "fills dec t []" "fills dec p vs"
  obtains t' where "copy_rows p b t = Some t'" "fills dec t' (take b vs)" "ui_total_messages t' = ui_total_messages t"
    "ui_snapshots t' = ui_snapshots t"
proof -
  have "copy_rows p b t = Some (t\<lparr>session_records := map row_of (enumerate 0 (take b vs)), tool_disclosures := disclosures_of dec (take b vs),
      assistant_segments := segments_of dec (take b vs), disclosure_errors := errors_of dec (take b vs)\<rparr>)"
    using assms(2) assms(1) [unfolded fills_empty] distinct_rows [of "take b vs"] distinct_disclosures [of dec "take b vs"]
      distinct_segments [of dec "take b vs"] distinct_errors [of dec "take b vs"]
    by (simp add: copy_rows_def fills_def rows_cut insert_all_empty)
  then show thesis by (rule that) (simp_all add: fills_def)
qed

lemma copy_prefix_represents:
  assumes "represents dec t c" "represents dec p pc"
  shows "if b < 2 ^ 63 \<and> (case c of Some vs \<Rightarrow> vs = [] | None \<Rightarrow> True) \<and> (case pc of Some vs \<Rightarrow> b \<le> length vs | None \<Rightarrow> b = 0)
    then \<exists>t'. copy_prefix p b t = (t', Inr ()) \<and> represents dec t' (Some (take b (case pc of Some vs \<Rightarrow> vs | None \<Rightarrow> [])))
      \<and> ui_total_messages t' = ui_total_messages t \<and> ui_snapshots t' = ui_snapshots t
    else \<exists>e. copy_prefix p b t = (t, Inl e)"
proof -
  let ?vs = "case pc of Some vs \<Rightarrow> vs | None \<Rightarrow> []"
  have pf: "fills dec p ?vs" using assms(2) by (auto simp: represents_def split: option.splits)
  have own: "(case journal_row t of Some p \<Rightarrow> canonical_tail p \<noteq> 0 | None \<Rightarrow> False) \<longleftrightarrow> \<not> (case c of Some vs \<Rightarrow> vs = [] | None \<Rightarrow> True)"
    using assms(1) by (auto simp: represents_def pointers_of_def split: option.splits)
  have out: "(case journal_row p of None \<Rightarrow> 0 < b | Some p \<Rightarrow> canonical_tail p < b) \<longleftrightarrow> \<not> (case pc of Some vs \<Rightarrow> b \<le> length vs | None \<Rightarrow> b = 0)"
    using assms(2) by (auto simp: represents_def pointers_of_def split: option.splits)
  show ?thesis
  proof (cases "b < 2 ^ 63 \<and> (case c of Some vs \<Rightarrow> vs = [] | None \<Rightarrow> True) \<and> (case pc of Some vs \<Rightarrow> b \<le> length vs | None \<Rightarrow> b = 0)")
    case False
    then show ?thesis by (auto simp: copy_prefix_def as_i64_def own out)
  next
    case True
    then have "fills dec t []" using assms(1) by (auto simp: represents_def split: option.splits)
    from copy_rows_fills [OF this pf, of b] obtain t' where t': "copy_rows p b t = Some t'" "fills dec t' (take b ?vs)"
      "ui_total_messages t' = ui_total_messages t" "ui_snapshots t' = ui_snapshots t" by blast
    have "b \<le> length ?vs" using True by (auto split: option.splits)
    have fu: "Option.bind (journal_row p) (\<lambda>p. below b (first_user_index p)) = min_index (indices_with ''user'' (take b ?vs))"
    proof (cases pc)
      case None
      then show ?thesis using assms(2) by (simp add: represents_def min_index_def)
    next
      case (Some vs)
      then show ?thesis using assms(2) by (simp add: represents_def pointers_of_def below_min)
    qed
    have "copy_prefix p b t = (t'\<lparr>journal_row := Some (pointers_of (take b ?vs))\<rparr>, Inr ())"
      using True t'(1,2) fu \<open>b \<le> length ?vs\<close>
      by (simp add: copy_prefix_def as_i64_def own out pointers_of_def fills_def rows_with_indices indices_cut min_def)
    then show ?thesis using True t'(2-4) by (simp add: represents_def fills_def)
  qed
qed

lemma required_represents:
  assumes "fills dec t vs"
  shows "required_payload i t = (if 2 ^ 63 \<le> i then Inl (JournalMessage ''out of range integral type conversion attempted'')
     else if i < length vs then Inr (vs ! i)
     else Inl (JournalMessage (''message index '' @ show_nat i @ '' is outside session history'')))"
proof (cases "find (\<lambda>r. record_index r = i) (session_records t)")
  case None
  then have "i \<notin> record_index ` set (session_records t)" by (auto simp: find_None_iff)
  then have "\<not> i < length vs" using fills_row_index [OF assms] by simp
  then show ?thesis using None by (simp add: required_payload_def as_i64_def)
next
  case (Some r)
  then have "r \<in> set (session_records t)" "record_index r = i"
    using find_SomeD [OF Some] by simp_all
  then have "i < length vs" "payload r = vs ! i"
    using assms by (auto simp: fills_def row_of_def in_set_enumerate_eq)
  then show ?thesis using Some by (simp add: required_payload_def as_i64_def)
qed

lemma enumerate_update: "i < length vs \<Longrightarrow> enumerate 0 (vs[i := w]) = map (\<lambda>(j, v). if j = i then (j, w) else (j, v)) (enumerate 0 vs)"
  by (rule nth_equalityI) (auto simp: nth_enumerate_eq nth_list_update)

lemma same_disclosure_sel:
  assumes "same_disclosure dec v w"
  shows "names_of dec w = names_of dec v" "segment_of dec w = segment_of dec v"
    "isl (record_disclosure dec w) = isl (record_disclosure dec v)"
  using assms by (auto simp: same_disclosure_def names_of_def segment_of_def split: sum.splits)

lemma map_filter_map_same:
  "(\<And>x. x \<in> set xs \<Longrightarrow> f (g x) = f x) \<Longrightarrow> List.map_filter f (map g xs) = List.map_filter f xs"
  by (induction xs) (simp_all add: map_filter_simps split: option.split)

lemma update_represents:
  assumes rep: "represents dec t (Some vs)" and role: "i < length vs \<Longrightarrow> stored_role w = stored_role (vs ! i)"
  shows "if i < length vs \<and> i < 2 ^ 63 \<and> same_disclosure dec (vs ! i) w
    then \<exists>t'. update_record dec i w t = (t', Inr ()) \<and> represents dec t' (Some (vs[i := w]))
      \<and> ui_total_messages t' = ui_total_messages t \<and> ui_snapshots t' = ui_snapshots t
    else \<exists>e. update_record dec i w t = (t, Inl e)"
proof -
  have fill: "fills dec t vs" using rep by (simp add: represents_def)
  show ?thesis
  proof (cases "i < length vs \<and> i < 2 ^ 63 \<and> same_disclosure dec (vs ! i) w")
    case False
    then show ?thesis using required_represents [OF fill, of i] by (auto simp: update_record_def)
  next
    case True
    then have i: "i < length vs" and same: "same_disclosure dec (vs ! i) w" by simp_all
    have old: "v = vs ! i" if "(i, v) \<in> set (enumerate 0 vs)" for v
      using that by (simp add: in_set_enumerate_eq)
    have rows: "map (\<lambda>r. if record_index r = i then r\<lparr>record_role := stored_role w, payload := w\<rparr> else r) (map row_of (enumerate 0 vs))
        = map row_of (enumerate 0 (vs[i := w]))"
      by (auto simp: enumerate_update [OF i] row_of_def)
    have segs: "segments_of dec (vs[i := w]) = segments_of dec vs"
      unfolding segments_of_def enumerate_update [OF i]
      by (rule map_filter_map_same) (use old same_disclosure_sel(2) [OF same] in auto)
    have errs: "errors_of dec (vs[i := w]) = errors_of dec vs"
      unfolding errors_of_def enumerate_update [OF i]
      using old same_disclosure_sel(3) [OF same]
      by (auto simp: filter_map comp_def case_prod_unfold intro!: map_cong filter_cong)
    have disc: "disclosures_of dec (vs[i := w]) = disclosures_of dec vs"
      unfolding disclosures_of_def enumerate_update [OF i]
      using old same_disclosure_sel(1) [OF same]
      unfolding fold_map by (intro fold_cong) auto
    have idx: "indices_with r (vs[i := w]) = indices_with r vs" for r
      unfolding indices_with_def enumerate_update [OF i]
      using old role [OF i] by (auto simp: filter_map comp_def case_prod_unfold intro!: map_cong filter_cong)
    have "update_record dec i w t = (t\<lparr>session_records := map row_of (enumerate 0 (vs[i := w]))\<rparr>, Inr ())"
      using True required_represents [OF fill, of i] fill rows by (simp add: update_record_def fills_def)
    then show ?thesis
      using True rep by (simp add: represents_def fills_def segs errs disc pointers_of_def idx)
  qed
qed

lemma import_represents:
  assumes "represents dec t c" "represents dec im (Some ws)"
  shows "if (c \<noteq> None \<or> ui_total_messages t \<noteq> None) \<and> conflict = Skip then import_one im conflict t = (t, Inr False)
    else \<exists>t'. import_one im conflict t = (t', Inr True) \<and> represents dec t' (Some ws)
      \<and> ui_total_messages t' = ui_total_messages im
      \<and> ui_snapshots t' = (if c \<noteq> None \<or> ui_total_messages t \<noteq> None then 0 else ui_snapshots t) + ui_snapshots im"
proof -
  have present: "journal_row t \<noteq> None \<longleftrightarrow> c \<noteq> None" using assms(1) by (auto simp: represents_def split: option.splits)
  have empty: "c = None \<Longrightarrow> fills dec t []" using assms(1) by (simp add: represents_def)
  have f: "fills dec im ws" "journal_row im = Some (pointers_of ws)" using assms(2) by (simp_all add: represents_def)
  then have d: "distinct (map record_index (session_records im))" "distinct (map fst (tool_disclosures im))"
    "distinct (map fst (assistant_segments im))" "distinct (disclosure_errors im)"
    using distinct_rows distinct_disclosures distinct_segments distinct_errors by (simp_all add: fills_def)
  show ?thesis
  proof (cases "c \<noteq> None \<or> ui_total_messages t \<noteq> None")
    case True
    let ?t = "\<lparr>journal_row = journal_row im, session_records = session_records im, tool_disclosures = tool_disclosures im,
      assistant_segments = assistant_segments im, disclosure_errors = disclosure_errors im,
      ui_total_messages = ui_total_messages im, ui_snapshots = ui_snapshots im\<rparr>"
    have "import_one im conflict t = (if conflict = Skip then (t, Inr False) else (?t, Inr True))"
      using True present d by (simp add: import_one_def no_rows_def insert_all_empty Let_def)
    then show ?thesis using True f by (cases conflict) (simp_all add: represents_def fills_def)
  next
    case False
    then have e: "session_records t = []" "tool_disclosures t = []" "assistant_segments t = []" "disclosure_errors t = []"
      using empty by (simp_all add: fills_empty)
    let ?t = "\<lparr>journal_row = journal_row im, session_records = session_records im, tool_disclosures = tool_disclosures im,
      assistant_segments = assistant_segments im, disclosure_errors = disclosure_errors im,
      ui_total_messages = ui_total_messages im, ui_snapshots = ui_snapshots t + ui_snapshots im\<rparr>"
    have "import_one im conflict t = (?t, Inr True)"
      using False present d e by (simp add: import_one_def insert_all_empty Let_def)
    then show ?thesis using False f by (simp add: represents_def fills_def)
  qed
qed

end
