(* ===== verification/Journal_Store.thy ===== *)
theory Journal_Store
  imports Session_Journal
begin

section \<open>Operations on the database\<close>

text \<open>
  The requests of the store, each a transaction on the tables of one session. The store cuts
  only before a user message; whether a cut would split an interleaved segment is the answer
  of the user-interface history, an argument here. \<open>UiWrites\<close> stands for that history
  writing its own tables.
\<close>

datatype user_message_target = MessageIndex nat | ClientSeq nat

definition user_index_for_seq :: "nat \<Rightarrow> session_tables \<Rightarrow> journal_error + nat" where
  "user_index_for_seq seq t = (case as_i64 seq of
     Inl e \<Rightarrow> Inl e
   | Inr _ \<Rightarrow>
       (case min_index (map record_index (filter (\<lambda>r. record_role r = ''user'' \<and> Option.bind (json_get (payload r) ''seq'') as_u64 = Some seq)
          (session_records t))) of
          None \<Rightarrow> Inl (JournalMessage (''user message with seq '' @ show_nat seq @ '' not found''))
        | Some i \<Rightarrow> Inr i))"

definition find_role :: "nat \<Rightarrow> session_tables \<Rightarrow> journal_error + string" where
  "find_role i t = (case as_i64 i of
     Inl e \<Rightarrow> Inl e
   | Inr _ \<Rightarrow> (case find (\<lambda>r. record_index r = i) (session_records t) of
        None \<Rightarrow> Inl (JournalMessage (''message index '' @ show_nat i @ '' is outside session history''))
      | Some r \<Rightarrow> Inr (record_role r)))"

definition resolve_user_target :: "user_message_target \<Rightarrow> session_tables \<Rightarrow> journal_error + nat" where
  "resolve_user_target target t =
     (let tail = (case journal_row t of Some p \<Rightarrow> canonical_tail p | None \<Rightarrow> 0) in
      case target of
        MessageIndex i \<Rightarrow>
          if tail \<le> i then Inl (JournalMessage (''messageIndex '' @ show_nat i @ '' exceeds message count '' @ show_nat tail))
          else (case find_role i t of
             Inl e \<Rightarrow> Inl e
           | Inr role \<Rightarrow>
               if role \<noteq> ''user'' then Inl (JournalMessage (''message at index '' @ show_nat i @ '' is not a user message''))
               else Inr i)
      | ClientSeq seq \<Rightarrow> user_index_for_seq seq t)"

definition truncate_from_user_message :: "user_message_target \<Rightarrow> bool \<Rightarrow> session_tables \<Rightarrow> session_tables \<times> (journal_error + nat)" where
  "truncate_from_user_message target splits t = (case resolve_user_target target t of
     Inl e \<Rightarrow> (t, Inl e)
   | Inr b \<Rightarrow>
       if splits then (t, Inl (JournalMessage ''mutation would split an interleaved canonical segment''))
       else (case truncate_journal b t of (t', Inl e) \<Rightarrow> (t', Inl e) | (t', Inr _) \<Rightarrow> (t', Inr b)))"

datatype journal_op =
    Open string bool
  | Append string "json list" nat
  | Clear string
  | Truncate string user_message_target bool
  | Fork string string nat
  | Rewrite string nat json
  | Import string session_tables journal_import_conflict
  | UiWrites string "nat option" nat

datatype journal_reply = RPointers journal_pointers | RIndex nat | RDone | RImported bool

type_synonym journal_db = "string \<Rightarrow> session_tables"

definition on_session :: "string \<Rightarrow> (session_tables \<Rightarrow> session_tables \<times> (journal_error + 'r)) \<Rightarrow> ('r \<Rightarrow> journal_reply)
    \<Rightarrow> journal_db \<Rightarrow> journal_db \<times> (journal_error + journal_reply)" where
  "on_session key f reply db = (case f (db key) of
     (t, Inl e) \<Rightarrow> (db(key := t), Inl e) | (t, Inr x) \<Rightarrow> (db(key := t), Inr (reply x)))"

fun journal_step :: "('a :: type) json_decoders_scheme \<Rightarrow> journal_op \<Rightarrow> journal_db \<Rightarrow> journal_db \<times> (journal_error + journal_reply)" where
  "journal_step dec (Open k d) db = on_session k (ensure_open_tx k d) RPointers db"
| "journal_step dec (Append k vs n) db = on_session k (append_records dec vs n) RIndex db"
| "journal_step dec (Clear k) db = on_session k (\<lambda>t. (clear_journal t, Inr ())) (\<lambda>_. RDone) db"
| "journal_step dec (Truncate k target splits) db = on_session k (truncate_from_user_message target splits) RIndex db"
| "journal_step dec (Fork p k b) db =
     (if p = k then (db, Inl (JournalMessage ''fork destination must differ from its parent''))
      else on_session k (copy_prefix (db p) b) (\<lambda>_. RDone) db)"
| "journal_step dec (Rewrite k i w) db = on_session k (update_record dec i w) (\<lambda>_. RDone) db"
| "journal_step dec (Import k im conflict) db = on_session k (import_one im conflict) RImported db"
| "journal_step dec (UiWrites k total_n snaps) db =
     (db(k := (db k)\<lparr>ui_total_messages := total_n, ui_snapshots := snaps\<rparr>), Inr RDone)"

section \<open>Refinement\<close>

text \<open>
  The specification: a session is a list of values, or nothing, beside what the user-interface
  history holds of it. \<open>None\<close> as the result of a request means that it is refused.
\<close>

record session_spec =
  content :: "json list option"
  ui_of :: "nat option \<times> nat"

definition ui_nonempty :: "nat option \<times> nat \<Rightarrow> bool" where
  "ui_nonempty u \<longleftrightarrow> (case fst u of Some n \<Rightarrow> 0 < n | None \<Rightarrow> False) \<or> 0 < snd u"

definition user_target :: "user_message_target \<Rightarrow> json list \<Rightarrow> nat option" where
  "user_target target vs = (case target of
     MessageIndex i \<Rightarrow> if i < length vs \<and> i < 2 ^ 63 \<and> stored_role (vs ! i) = ''user'' then Some i else None
   | ClientSeq seq \<Rightarrow>
       if 2 ^ 63 \<le> seq then None
       else min_index (map fst (filter (\<lambda>(i, v). stored_role v = ''user'' \<and> Option.bind (json_get v ''seq'') as_u64 = Some seq) (enumerate 0 vs))))"

fun spec_step :: "('a :: type) json_decoders_scheme \<Rightarrow> journal_op \<Rightarrow> (string \<Rightarrow> session_spec) \<Rightarrow> ((string \<Rightarrow> session_spec) \<times> journal_reply) option" where
  "spec_step dec (Open k d) A = (case content (A k) of
     Some vs \<Rightarrow> Some (A, RPointers (pointers_of vs))
   | None \<Rightarrow>
       if d then Some (A, RPointers (pointers_of []))
       else if ui_nonempty (ui_of (A k)) then None
       else Some (A(k := (A k)\<lparr>content := Some []\<rparr>), RPointers (pointers_of [])))"
| "spec_step dec (Append k us n) A = (case content (A k) of
     Some vs \<Rightarrow> if us \<noteq> [] \<and> n = length vs \<and> n + length us < 2 ^ 63
       then Some (A(k := (A k)\<lparr>content := Some (vs @ us)\<rparr>), RIndex n) else None
   | None \<Rightarrow> None)"
| "spec_step dec (Clear k) A = Some (A(k := (A k)\<lparr>content := Some []\<rparr>), RDone)"
| "spec_step dec (Truncate k target splits) A = (case content (A k) of
     Some vs \<Rightarrow> (case user_target target vs of
        Some b \<Rightarrow> if splits \<or> 2 ^ 63 \<le> b then None else Some (A(k := (A k)\<lparr>content := Some (take b vs)\<rparr>), RIndex b)
      | None \<Rightarrow> None)
   | None \<Rightarrow> None)"
| "spec_step dec (Fork p k b) A =
     (if p \<noteq> k \<and> b < 2 ^ 63 \<and> (case content (A k) of Some vs \<Rightarrow> vs = [] | None \<Rightarrow> True)
         \<and> (case content (A p) of Some vs \<Rightarrow> b \<le> length vs | None \<Rightarrow> b = 0)
      then Some (A(k := (A k)\<lparr>content := Some (take b (case content (A p) of Some vs \<Rightarrow> vs | None \<Rightarrow> []))\<rparr>), RDone) else None)"
| "spec_step dec (Rewrite k i w) A = (case content (A k) of
     Some vs \<Rightarrow> if i < length vs \<and> i < 2 ^ 63 \<and> same_disclosure dec (vs ! i) w
       then Some (A(k := (A k)\<lparr>content := Some (vs[i := w])\<rparr>), RDone) else None
   | None \<Rightarrow> None)"
| "spec_step dec (Import k im conflict) A =
     (let present = content (A k) \<noteq> None \<or> fst (ui_of (A k)) \<noteq> None in
      if present \<and> conflict = Skip then Some (A, RImported False)
      else Some (A(k := \<lparr>content = Some (map payload (session_records im)),
        ui_of = (ui_total_messages im, (if present then 0 else snd (ui_of (A k))) + ui_snapshots im)\<rparr>), RImported True))"
| "spec_step dec (UiWrites k total_n snaps) A = Some (A(k := (A k)\<lparr>ui_of := (total_n, snaps)\<rparr>), RDone)"

text \<open>
  What the callers guarantee: a record is rewritten by one of the same role (the store
  compares their kinds before), and an imported database holds a journal.
\<close>

fun op_allowed :: "('a :: type) json_decoders_scheme \<Rightarrow> (string \<Rightarrow> session_spec) \<Rightarrow> journal_op \<Rightarrow> bool" where
  "op_allowed dec A (Rewrite k i w) \<longleftrightarrow>
     (case content (A k) of Some vs \<Rightarrow> i < length vs \<longrightarrow> stored_role w = stored_role (vs ! i) | None \<Rightarrow> True)"
| "op_allowed dec A (Import k im conflict) \<longleftrightarrow> represents dec im (Some (map payload (session_records im)))"
| "op_allowed dec A _ \<longleftrightarrow> True"

definition represents_db :: "('a :: type) json_decoders_scheme \<Rightarrow> journal_db \<Rightarrow> (string \<Rightarrow> session_spec) \<Rightarrow> bool" where
  "represents_db dec db A \<longleftrightarrow> (\<forall>k. represents dec (db k) (content (A k)) \<and> ui_of (A k) = (ui_total_messages (db k), ui_snapshots (db k)))"

lemma represents_db_upd:
  assumes "represents_db dec db A" "represents dec t c" "u = (ui_total_messages t, ui_snapshots t)"
  shows "represents_db dec (db(k := t)) (A(k := \<lparr>content = c, ui_of = u\<rparr>))"
  using assms by (simp add: represents_db_def)

lemma user_index_represents:
  assumes "fills dec t vs"
  shows "user_index_for_seq seq t = (case user_target (ClientSeq seq) vs of
    Some i \<Rightarrow> Inr i
  | None \<Rightarrow> if 2 ^ 63 \<le> seq then Inl (JournalMessage ''out of range integral type conversion attempted'')
      else Inl (JournalMessage (''user message with seq '' @ show_nat seq @ '' not found'')))"
proof -
  have "map record_index (filter (\<lambda>r. record_role r = ''user'' \<and> Option.bind (json_get (payload r) ''seq'') as_u64 = Some seq) (map row_of xs))
      = map fst (filter (\<lambda>(i, v). stored_role v = ''user'' \<and> Option.bind (json_get v ''seq'') as_u64 = Some seq) xs)" for xs
    by (induction xs) (auto simp: row_of_def)
  then show ?thesis
    using assms by (auto simp: user_index_for_seq_def user_target_def fills_def as_i64_def split: option.splits)
qed

lemma find_role_represents:
  assumes "fills dec t vs" "i < length vs" "i < 2 ^ 63"
  shows "find_role i t = Inr (stored_role (vs ! i))"
proof (cases "find (\<lambda>r. record_index r = i) (session_records t)")
  case None
  then have "i \<notin> record_index ` set (session_records t)" by (auto simp: find_None_iff)
  then show ?thesis using fills_row_index [OF assms(1)] assms(2) by simp
next
  case (Some r)
  then have "r \<in> set (session_records t)" "record_index r = i" using find_SomeD [OF Some] by simp_all
  then show ?thesis using Some assms by (auto simp: find_role_def as_i64_def fills_def row_of_def in_set_enumerate_eq)
qed

lemma min_index_in: "min_index ns = Some n \<Longrightarrow> n \<in> set ns"
  using Min_in [of "set ns"] by (auto simp: min_index_def split: if_splits)

lemma user_target_below: "user_target target vs = Some b \<Longrightarrow> b < length vs"
  by (cases target) (auto simp: user_target_def split: if_splits dest!: min_index_in enumerate_below)

lemma resolve_represents:
  assumes "represents dec t c"
  shows "case Option.bind c (user_target target) of Some b \<Rightarrow> resolve_user_target target t = Inr b
    | None \<Rightarrow> isl (resolve_user_target target t)"
proof (cases c)
  case None
  then have "journal_row t = None" "fills dec t []" using assms by (simp_all add: represents_def)
  then show ?thesis
    using None user_index_represents [of dec t "[]"]
    by (cases target) (auto simp: resolve_user_target_def user_target_def min_index_def)
next
  case (Some vs)
  then have t: "journal_row t = Some (pointers_of vs)" and fill: "fills dec t vs" using assms by (simp_all add: represents_def)
  show ?thesis
  proof (cases target)
    case (MessageIndex i)
    show ?thesis
    proof (cases "i < length vs \<and> i < 2 ^ 63")
      case True
      then show ?thesis
        using t Some MessageIndex find_role_represents [OF fill, of i]
        by (simp add: resolve_user_target_def user_target_def pointers_of_def)
    next
      case False
      then show ?thesis
        using t Some MessageIndex by (auto simp: resolve_user_target_def user_target_def pointers_of_def find_role_def as_i64_def Let_def)
    qed
  next
    case (ClientSeq seq)
    then show ?thesis
      using Some user_index_represents [OF fill, of seq] by (auto simp: resolve_user_target_def split: option.splits)
  qed
qed

lemma truncate_user_represents:
  assumes "represents dec t c"
  shows "case Option.bind c (user_target target) of
      Some b \<Rightarrow>
        if splits \<or> 2 ^ 63 \<le> b then \<exists>e. truncate_from_user_message target splits t = (t, Inl e)
        else \<exists>t'. truncate_from_user_message target splits t = (t', Inr b) \<and> represents dec t' (Some (take b (the c)))
          \<and> ui_total_messages t' = ui_total_messages t \<and> ui_snapshots t' = ui_snapshots t
    | None \<Rightarrow> \<exists>e. truncate_from_user_message target splits t = (t, Inl e)"
proof (cases "Option.bind c (user_target target)")
  case None
  then obtain e where "resolve_user_target target t = Inl e"
    using resolve_represents [OF assms, of target] by (auto simp: isl_def)
  then show ?thesis using None by (simp add: truncate_from_user_message_def)
next
  case (Some b)
  then obtain vs where vs: "c = Some vs" "user_target target vs = Some b" by (cases c) simp_all
  have r: "resolve_user_target target t = Inr b" using resolve_represents [OF assms, of target] Some by simp
  have "b \<le> length vs" using user_target_below [OF vs(2)] by simp
  from truncate_represents [OF assms [unfolded vs(1)] this] show ?thesis
    using Some vs(1) r by (auto simp: truncate_from_user_message_def split: if_splits)
qed

lemma ensure_open_represents:
  assumes "represents dec t c" "u = (ui_total_messages t, ui_snapshots t)"
  shows "case c of
      Some vs \<Rightarrow> ensure_open_tx k d t = (t, Inr (pointers_of vs))
    | None \<Rightarrow>
        if d then ensure_open_tx k d t = (t, Inr (pointers_of []))
        else if ui_nonempty u then \<exists>e. ensure_open_tx k d t = (t, Inl e)
        else ensure_open_tx k d t = (t\<lparr>journal_row := Some (pointers_of [])\<rparr>, Inr (pointers_of []))
          \<and> represents dec (t\<lparr>journal_row := Some (pointers_of [])\<rparr>) (Some [])"
  using assms
  by (auto simp: represents_def ensure_open_tx_def has_ui_history_def ui_nonempty_def empty_pointers_def pointers_of_def
      max_index_def min_index_def fills_def split: option.splits)

lemma clear_represents: "represents dec (clear_journal t) (Some [])"
  by (simp add: represents_def clear_journal_def no_rows_def fills_empty empty_pointers_def pointers_of_def max_index_def min_index_def)

text \<open>What a request does to one session is what it does to the database.\<close>

definition agrees :: "('a :: type) json_decoders_scheme \<Rightarrow> journal_db \<Rightarrow> (string \<Rightarrow> session_spec) \<Rightarrow> journal_db \<times> (journal_error + journal_reply)
    \<Rightarrow> ((string \<Rightarrow> session_spec) \<times> journal_reply) option \<Rightarrow> bool" where
  "agrees dec db A out s \<longleftrightarrow> (case s of
     None \<Rightarrow> fst out = db \<and> isl (snd out)
   | Some (A', reply) \<Rightarrow> snd out = Inr reply \<and> represents_db dec (fst out) A')"

lemma agrees_refused: "f (db k) = (db k, Inl e) \<Longrightarrow> agrees dec db A (on_session k f reply db) None"
  by (simp add: agrees_def on_session_def)

lemma agrees_done:
  assumes "represents_db dec db A" "f (db k) = (t, Inr x)" "represents dec t c" "u = (ui_total_messages t, ui_snapshots t)"
  shows "agrees dec db A (on_session k f reply db) (Some (A(k := \<lparr>content = c, ui_of = u\<rparr>), reply x))"
  using represents_db_upd [OF assms(1,3,4)] by (simp add: agrees_def on_session_def assms(2))

lemma agrees_content:
  assumes rep: "represents_db dec db A" and f: "f (db k) = (t, Inr x)" and t: "represents dec t c"
    "ui_total_messages t = ui_total_messages (db k)" "ui_snapshots t = ui_snapshots (db k)"
  shows "agrees dec db A (on_session k f reply db) (Some (A(k := (A k)\<lparr>content := c\<rparr>), reply x))"
proof -
  have "ui_of (A k) = (ui_total_messages t, ui_snapshots t)" using rep t(2,3) by (simp add: represents_db_def)
  then have "(A k)\<lparr>content := c\<rparr> = \<lparr>content = c, ui_of = (ui_total_messages t, ui_snapshots t)\<rparr>" by simp
  then show ?thesis using agrees_done [where f = f and k = k, OF rep f t(1) refl] by (simp only:)
qed

lemma agrees_same:
  assumes "represents_db dec db A" "f (db k) = (db k, Inr x)"
  shows "agrees dec db A (on_session k f reply db) (Some (A, reply x))"
  using assms by (simp add: agrees_def on_session_def)

lemma represents_ui [simp]:
  "represents dec (t\<lparr>ui_total_messages := a, ui_snapshots := b\<rparr>) c \<longleftrightarrow> represents dec t c"
  by (simp add: represents_def fills_def split: option.split)

lemma step_refines:
  assumes rep: "represents_db dec db A" and ok: "op_allowed dec A op"
  shows "agrees dec db A (journal_step dec op db) (spec_step dec op A)"
proof (cases op)
  case (Open k d)
  have r: "represents dec (db k) (content (A k))" "ui_of (A k) = (ui_total_messages (db k), ui_snapshots (db k))"
    using rep by (simp_all add: represents_db_def)
  note e = ensure_open_represents [OF r, where k = k and d = d]
  show ?thesis
  proof (cases "content (A k)")
    case None
    show ?thesis
    proof (cases "\<not> d \<and> \<not> ui_nonempty (ui_of (A k))")
      case True
      then show ?thesis
        using e None Open agrees_content [OF rep, where f = "ensure_open_tx k d" and k = k and t = "(db k)\<lparr>journal_row := Some (pointers_of [])\<rparr>" and x = "pointers_of []" and c = "Some []" and reply = RPointers]
        by simp
    next
      case False
      then show ?thesis
        using e None Open agrees_same [OF rep, where f = "ensure_open_tx k d" and k = k and x = "pointers_of []" and reply = RPointers] agrees_refused [where f = "ensure_open_tx k d" and k = k and db = db]
        by (auto split: if_splits)
    qed
  next
    case (Some vs)
    then show ?thesis using e Open agrees_same [OF rep, where f = "ensure_open_tx k d" and k = k and x = "pointers_of vs" and reply = RPointers] by simp
  qed
next
  case (Append k us n)
  have r: "represents dec (db k) (content (A k))" using rep by (simp add: represents_db_def)
  show ?thesis
  proof (cases "content (A k)")
    case None
    then have "\<exists>e. append_records dec us n (db k) = (db k, Inl e)"
      using r by (auto simp: append_records_def represents_def as_i64_def)
    then show ?thesis using Append None agrees_refused [where f = "append_records dec us n" and k = k and db = db] by auto
  next
    case (Some vs)
    show ?thesis
    proof (cases "us \<noteq> [] \<and> n = length vs \<and> n + length us < 2 ^ 63")
      case True
      then obtain t' where "append_records dec us n (db k) = (t', Inr n)" "represents dec t' (Some (vs @ us))"
        "ui_total_messages t' = ui_total_messages (db k)" "ui_snapshots t' = ui_snapshots (db k)"
        using append_represents [OF r [unfolded Some], of us n] by auto
      from agrees_content [where f = "append_records dec us n" and k = k, OF rep this] show ?thesis using Append Some True by simp
    next
      case False
      then obtain e where "append_records dec us n (db k) = (db k, Inl e)"
        using append_represents [OF r [unfolded Some], of us n] unfolding if_not_P [OF False] by blast
      from agrees_refused [where f = "append_records dec us n" and k = k and db = db, OF this] show ?thesis using Append Some False by auto
    qed
  qed
next
  case (Clear k)
  have c: "(clear_journal (db k), Inr ()) = (clear_journal (db k), Inr ())" by (rule refl)
  from agrees_content [OF rep, where f = "\<lambda>t. (clear_journal t, Inr ())" and k = k and x = "()" and reply = "\<lambda>_. RDone", OF refl clear_represents]
  show ?thesis using Clear by (simp add: clear_journal_def no_rows_def)
next
  case (Truncate k target splits)
  have r: "represents dec (db k) (content (A k))" using rep by (simp add: represents_db_def)
  note t = truncate_user_represents [OF r, of target splits]
  show ?thesis
  proof (cases "Option.bind (content (A k)) (user_target target)")
    case None
    then obtain e where "truncate_from_user_message target splits (db k) = (db k, Inl e)" using t by auto
    from agrees_refused [where f = "truncate_from_user_message target splits" and k = k and db = db, OF this] show ?thesis
      using Truncate None by (cases "content (A k)") auto
  next
    case (Some b)
    then obtain vs where vs: "content (A k) = Some vs" "user_target target vs = Some b" by (cases "content (A k)") auto
    show ?thesis
    proof (cases "splits \<or> 2 ^ 63 \<le> b")
      case True
      then obtain e where "truncate_from_user_message target splits (db k) = (db k, Inl e)" using t Some by auto
      from agrees_refused [where f = "truncate_from_user_message target splits" and k = k and db = db, OF this] show ?thesis using Truncate vs True by auto
    next
      case False
      then obtain t' where "truncate_from_user_message target splits (db k) = (t', Inr b)" "represents dec t' (Some (take b vs))"
        "ui_total_messages t' = ui_total_messages (db k)" "ui_snapshots t' = ui_snapshots (db k)"
        using t Some vs(1) by auto
      from agrees_content [where f = "truncate_from_user_message target splits" and k = k, OF rep this] show ?thesis using Truncate vs False by simp
    qed
  qed
next
  case (Fork p k b)
  have r: "represents dec (db k) (content (A k))" "represents dec (db p) (content (A p))" using rep by (simp_all add: represents_db_def)
  let ?ok = "b < 2 ^ 63 \<and> (case content (A k) of Some vs \<Rightarrow> vs = [] | None \<Rightarrow> True) \<and> (case content (A p) of Some vs \<Rightarrow> b \<le> length vs | None \<Rightarrow> b = 0)"
  show ?thesis
  proof (cases "p = k")
    case True
    then show ?thesis using Fork by (simp add: agrees_def)
  next
    case pk: False
    show ?thesis
    proof (cases ?ok)
      case True
      then obtain t' where "copy_prefix (db p) b (db k) = (t', Inr ())"
        "represents dec t' (Some (take b (case content (A p) of Some vs \<Rightarrow> vs | None \<Rightarrow> [])))"
        "ui_total_messages t' = ui_total_messages (db k)" "ui_snapshots t' = ui_snapshots (db k)"
        using copy_prefix_represents [OF r, of b] by auto
      from agrees_content [where f = "copy_prefix (db p) b" and k = k, OF rep this] show ?thesis using Fork pk True by simp
    next
      case False
      then obtain e where "copy_prefix (db p) b (db k) = (db k, Inl e)"
        using copy_prefix_represents [OF r, of b] unfolding if_not_P [OF False] by blast
      from agrees_refused [where f = "copy_prefix (db p) b" and k = k and db = db, OF this] show ?thesis using Fork pk False by (simp only: journal_step.simps spec_step.simps) auto
    qed
  qed
next
  case (Rewrite k i w)
  have r: "represents dec (db k) (content (A k))" using rep by (simp add: represents_db_def)
  show ?thesis
  proof (cases "content (A k)")
    case None
    then have "\<exists>e. update_record dec i w (db k) = (db k, Inl e)"
      using r required_represents [of dec "db k" "[]" i] by (auto simp: update_record_def represents_def)
    then show ?thesis using Rewrite None agrees_refused [where f = "update_record dec i w" and k = k and db = db] by auto
  next
    case (Some vs)
    have "i < length vs \<Longrightarrow> stored_role w = stored_role (vs ! i)" using ok Rewrite Some by simp
    note u = update_represents [OF r [unfolded Some] this]
    show ?thesis
    proof (cases "i < length vs \<and> i < 2 ^ 63 \<and> same_disclosure dec (vs ! i) w")
      case True
      then obtain t' where "update_record dec i w (db k) = (t', Inr ())" "represents dec t' (Some (vs[i := w]))"
        "ui_total_messages t' = ui_total_messages (db k)" "ui_snapshots t' = ui_snapshots (db k)"
        using u by auto
      from agrees_content [where f = "update_record dec i w" and k = k, OF rep this] show ?thesis using Rewrite Some True by simp
    next
      case False
      then obtain e where "update_record dec i w (db k) = (db k, Inl e)" using u by auto
      from agrees_refused [where f = "update_record dec i w" and k = k and db = db, OF this] show ?thesis using Rewrite Some False by auto
    qed
  qed
next
  case (Import k im conflict)
  have r: "represents dec (db k) (content (A k))" "ui_of (A k) = (ui_total_messages (db k), ui_snapshots (db k))"
    using rep by (simp_all add: represents_db_def)
  have im: "represents dec im (Some (map payload (session_records im)))" using ok Import by simp
  note i = import_represents [OF r(1) im, of conflict]
  show ?thesis
  proof (cases "(content (A k) \<noteq> None \<or> ui_total_messages (db k) \<noteq> None) \<and> conflict = Skip")
    case True
    then show ?thesis
      using i r(2) Import agrees_same [OF rep, where f = "import_one im conflict" and k = k and x = False and reply = RImported] by simp
  next
    case False
    then obtain t' where t': "import_one im conflict (db k) = (t', Inr True)" "represents dec t' (Some (map payload (session_records im)))"
      "ui_total_messages t' = ui_total_messages im"
      "ui_snapshots t' = (if content (A k) \<noteq> None \<or> ui_total_messages (db k) \<noteq> None then 0 else ui_snapshots (db k)) + ui_snapshots im"
      using i unfolding if_not_P [OF False] by blast
    have "spec_step dec op A = Some (A(k := \<lparr>content = Some (map payload (session_records im)),
        ui_of = (ui_total_messages t', ui_snapshots t')\<rparr>), RImported True)"
      using Import False r(2) t'(3,4) by (cases conflict) simp_all
    then show ?thesis
      using agrees_done [where f = "import_one im conflict" and k = k and reply = RImported, OF rep t'(1,2) refl] Import by simp
  qed
next
  case (UiWrites k n s)
  then show ?thesis
    using rep by (simp add: agrees_def represents_db_def)
qed

section \<open>Runs\<close>

fun journal_run :: "('a :: type) json_decoders_scheme \<Rightarrow> journal_op list \<Rightarrow> journal_db \<Rightarrow> journal_db \<times> (journal_error + journal_reply) list" where
  "journal_run dec [] db = (db, [])"
| "journal_run dec (op # ops) db =
     (case journal_step dec op db of (db1, r) \<Rightarrow> (case journal_run dec ops db1 of (db2, rs) \<Rightarrow> (db2, r # rs)))"

definition after :: "'s \<Rightarrow> ('s \<times> 'r) option \<Rightarrow> 's" where
  "after A s = (case s of Some (A', _) \<Rightarrow> A' | None \<Rightarrow> A)"

fun spec_states :: "('a :: type) json_decoders_scheme \<Rightarrow> journal_op list \<Rightarrow> (string \<Rightarrow> session_spec) \<Rightarrow> (string \<Rightarrow> session_spec)" where
  "spec_states dec [] A = A"
| "spec_states dec (op # ops) A = spec_states dec ops (after A (spec_step dec op A))"

fun spec_replies :: "('a :: type) json_decoders_scheme \<Rightarrow> journal_op list \<Rightarrow> (string \<Rightarrow> session_spec) \<Rightarrow> journal_reply option list" where
  "spec_replies dec [] A = []"
| "spec_replies dec (op # ops) A = map_option snd (spec_step dec op A) # spec_replies dec ops (after A (spec_step dec op A))"

fun ops_allowed :: "('a :: type) json_decoders_scheme \<Rightarrow> journal_op list \<Rightarrow> (string \<Rightarrow> session_spec) \<Rightarrow> bool" where
  "ops_allowed dec [] A \<longleftrightarrow> True"
| "ops_allowed dec (op # ops) A \<longleftrightarrow> op_allowed dec A op \<and> ops_allowed dec ops (after A (spec_step dec op A))"

definition answer :: "journal_error + journal_reply \<Rightarrow> journal_reply option" where
  "answer r = (case r of Inl _ \<Rightarrow> None | Inr x \<Rightarrow> Some x)"

definition no_tables :: session_tables where
  "no_tables = \<lparr>journal_row = None, session_records = [], tool_disclosures = [], assistant_segments = [], disclosure_errors = [],
     ui_total_messages = None, ui_snapshots = 0\<rparr>"

definition no_sessions :: "string \<Rightarrow> session_spec" where
  "no_sessions = (\<lambda>_. \<lparr>content = None, ui_of = (None, 0)\<rparr>)"

lemma run_refines:
  assumes "represents_db dec db A" "ops_allowed dec ops A"
  shows "represents_db dec (fst (journal_run dec ops db)) (spec_states dec ops A)
    \<and> map answer (snd (journal_run dec ops db)) = spec_replies dec ops A"
  using assms
proof (induction ops arbitrary: db A)
  case (Cons op ops)
  obtain db1 r where step: "journal_step dec op db = (db1, r)" by force
  have g: "agrees dec db A (db1, r) (spec_step dec op A)" using step_refines [OF Cons.prems(1), of op] Cons.prems(2) step by simp
  then have "represents_db dec db1 (after A (spec_step dec op A))" and a: "answer r = map_option snd (spec_step dec op A)"
    using Cons.prems(1) by (auto simp: agrees_def after_def answer_def split: option.splits sum.splits)
  from Cons.IH [OF this(1)] Cons.prems(2) show ?case using step a by (cases "journal_run dec ops db1") simp
qed simp

text \<open>
  C6. The journal of a session is the list of its records. From an empty database, any
  sequence of requests on any sessions, the writes of the user-interface history between them
  included, gets the answers of the specification: appending at the tail appends and answers
  the index, appending anywhere else is refused and changes nothing, cutting keeps the prefix
  before the user message named, forking copies a prefix, and so on. The tables always hold
  exactly what the list determines: the rows, the pointers to the last checkpoint and the
  first user message, the tools disclosed, the assistant segments, the undecodable records.
\<close>

theorem journal_refines_list:
  assumes "ops_allowed dec ops no_sessions"
  shows "represents_db dec (fst (journal_run dec ops (\<lambda>_. no_tables))) (spec_states dec ops no_sessions)
    \<and> map answer (snd (journal_run dec ops (\<lambda>_. no_tables))) = spec_replies dec ops no_sessions"
proof -
  have "represents_db dec (\<lambda>_. no_tables) no_sessions"
    by (simp add: represents_db_def represents_def no_sessions_def no_tables_def fills_empty)
  from run_refines [OF this assms] show ?thesis .
qed

definition demo_decoders :: json_decoders where
  "demo_decoders = \<lparr>de_lifecycle = (\<lambda>_. Inl ''no lifecycle''), de_json = (\<lambda>_. Inl ''no value'')\<rparr>"

definition demo_user :: json where
  "demo_user = JObject [(''role'', JString ''user''), (''content'', JString ''hi'')]"

theorem journal_refines_list_witness:
  "represents_db demo_decoders
     (fst (journal_run demo_decoders [Open ''s'' False, Append ''s'' [demo_user] 0, Append ''s'' [demo_user] 0, Truncate ''s'' (MessageIndex 0) False]
       (\<lambda>_. no_tables)))
     (spec_states demo_decoders [Open ''s'' False, Append ''s'' [demo_user] 0, Append ''s'' [demo_user] 0, Truncate ''s'' (MessageIndex 0) False] no_sessions)
   \<and> map answer (snd (journal_run demo_decoders [Open ''s'' False, Append ''s'' [demo_user] 0, Append ''s'' [demo_user] 0, Truncate ''s'' (MessageIndex 0) False]
       (\<lambda>_. no_tables))) = [Some (RPointers (pointers_of [])), Some (RIndex 0), None, Some (RIndex 0)]"
proof -
  let ?ops = "[Open ''s'' False, Append ''s'' [demo_user] 0, Append ''s'' [demo_user] 0, Truncate ''s'' (MessageIndex 0) False]"
  have "ops_allowed demo_decoders ?ops no_sessions" by simp
  from journal_refines_list [OF this] show ?thesis
    by (simp add: no_sessions_def ui_nonempty_def after_def user_target_def stored_role_def role_of_def demo_user_def)
qed

end
