(* ===== verification/Chat_History.thy ===== *)
theory Chat_History
  imports Provider_Output Tool_Lifecycle
begin

text \<open>
  Turning the records of a session back into provider messages:
  \<open>crates/agents/src/model/chat_reconstruction.rs\<close>, \<open>convert.rs\<close>, \<open>aborted_calls.rs\<close> and
  \<open>arguments.rs\<close>. Decoders that the sources derive, the JSON printer and the data directory
  are parameters.
\<close>

section \<open>Messages\<close>

datatype tool_call_argument_source = EmptyString | NullOrMissing | MalformedString

record tool_call_argument_diagnostic =
  diag_source :: tool_call_argument_source
  raw_len :: "nat option"
  raw_preview :: "string option"
  parse_error :: "string option"

record tool_call =
  call_id :: string
  call_name :: string
  call_arguments :: json
  argument_diagnostic :: "tool_call_argument_diagnostic option"

datatype content_part = PartText string | PartImage string string \<comment> \<open>media type, data\<close>

datatype user_content = UserText string | UserMultimodal "content_part list"

datatype chat_message =
    SystemMessage string
  | UserMessage user_content "string option"
  | AssistantMessage "string option" "tool_call list" "reasoning_content option" "provider_output_item list" "string option"
  | ToolMessage string string

section \<open>Arguments\<close>

record history_env = json_decoders +
  de_item :: "json \<Rightarrow> string + provider_output_item"
  de_update :: "json \<Rightarrow> string + provider_item_update"
  de_close :: "json \<Rightarrow> string + string \<times> provider_segment_outcome"
  print_json :: "json \<Rightarrow> string"
  env_data_dir :: string

record decoded_arguments =
  decoded_json :: json
  decoded_diagnostic :: "tool_call_argument_diagnostic option"

definition NOT_AN_OBJECT_ERROR :: string where
  "NOT_AN_OBJECT_ERROR = ''tool arguments must be a JSON object''"

text \<open>Lengths are in bytes, the preview is cut after a number of characters.\<close>

definition continues_char :: "char \<Rightarrow> bool" where
  "continues_char c \<longleftrightarrow> 128 \<le> (of_char c :: nat) \<and> (of_char c :: nat) < 192"

fun take_chars :: "nat \<Rightarrow> string \<Rightarrow> string" where
  "take_chars n [] = []"
| "take_chars n (c # s) = (if continues_char c then c # take_chars n s else if n = 0 then [] else c # take_chars (n - 1) s)"

definition count_chars :: "string \<Rightarrow> nat" where
  "count_chars s = length (filter (\<lambda>c. \<not> continues_char c) s)"

definition raw_argument_preview :: "string \<Rightarrow> string" where
  "raw_argument_preview raw = take_chars 160 raw @ (if 160 < count_chars raw then ''...'' else [])"

lemma take_chars_count: "take_chars n s = s \<longleftrightarrow> count_chars s \<le> n"
proof (induction n s rule: take_chars.induct)
  case (2 n c s)
  then show ?case by (cases n) (auto simp: count_chars_def)
qed (simp add: count_chars_def)

lemma take_chars_prefix: "\<exists>r. s = take_chars n s @ r"
  by (induction n s rule: take_chars.induct) auto

definition malformed :: "string \<Rightarrow> string \<Rightarrow> decoded_arguments" where
  "malformed raw e = \<lparr>decoded_json = JObject [], decoded_diagnostic = Some
     \<lparr>diag_source = MalformedString, raw_len = Some (length raw), raw_preview = Some (raw_argument_preview raw), parse_error = Some e\<rparr>\<rparr>"

definition decode_tool_call_arguments_from_str :: "history_env \<Rightarrow> string \<Rightarrow> decoded_arguments" where
  "decode_tool_call_arguments_from_str env raw =
     (if trim raw = [] then
        \<lparr>decoded_json = JObject [], decoded_diagnostic = Some
          \<lparr>diag_source = EmptyString, raw_len = Some (length raw), raw_preview = Some (raw_argument_preview raw), parse_error = None\<rparr>\<rparr>
      else case de_json env raw of
        Inr v \<Rightarrow> if is_object v then \<lparr>decoded_json = v, decoded_diagnostic = None\<rparr> else malformed raw NOT_AN_OBJECT_ERROR
      | Inl e \<Rightarrow> malformed raw e)"

definition decode_tool_call_arguments :: "history_env \<Rightarrow> json option \<Rightarrow> decoded_arguments" where
  "decode_tool_call_arguments env arguments = (case arguments of
     Some (JString raw) \<Rightarrow> decode_tool_call_arguments_from_str env raw
   | Some JNull \<Rightarrow>
       \<lparr>decoded_json = JObject [], decoded_diagnostic = Some \<lparr>diag_source = NullOrMissing, raw_len = None, raw_preview = None, parse_error = None\<rparr>\<rparr>
   | None \<Rightarrow>
       \<lparr>decoded_json = JObject [], decoded_diagnostic = Some \<lparr>diag_source = NullOrMissing, raw_len = None, raw_preview = None, parse_error = None\<rparr>\<rparr>
   | Some v \<Rightarrow> \<lparr>decoded_json = v, decoded_diagnostic = None\<rparr>)"

section \<open>Errors and reasoning\<close>

datatype conversion_error =
    ReasoningError nat string
  | ProviderItemsCollection nat
  | ProviderItemError nat nat string
  | ToolLifecycleError nat string
  | ProviderUpdateError nat string
  | ProviderSegmentCloseError nat string
  | ProviderSegmentReplay nat materializer_error
  | UnsupportedRole nat string

fun all_strings :: "json list \<Rightarrow> string list option" where
  "all_strings [] = Some []"
| "all_strings (v # vs) = (case (as_str v, all_strings vs) of (Some s, Some ss) \<Rightarrow> Some (s # ss) | _ \<Rightarrow> None)"

text \<open>The untagged enum of a text or a list of texts.\<close>

definition de_reasoning :: "json \<Rightarrow> string + reasoning_content" where
  "de_reasoning v = (case v of
     JString s \<Rightarrow> Inr (RC_Text s)
   | JArray vs \<Rightarrow> (case all_strings vs of Some ss \<Rightarrow> Inr (RC_Parts ss) | None \<Rightarrow> Inl ''data did not match any variant of untagged enum ReasoningContent'')
   | _ \<Rightarrow> Inl ''data did not match any variant of untagged enum ReasoningContent'')"

fun is_blank :: "reasoning_content \<Rightarrow> bool" where
  "is_blank (RC_Text t) \<longleftrightarrow> trim t = []"
| "is_blank (RC_Parts ps) \<longleftrightarrow> list_all (\<lambda>p. trim p = []) ps"

definition decode_reasoning :: "json option \<Rightarrow> nat \<Rightarrow> conversion_error + reasoning_content option" where
  "decode_reasoning v i = (case v of
     None \<Rightarrow> Inr None
   | Some JNull \<Rightarrow> Inr None
   | Some w \<Rightarrow> (case de_reasoning w of Inl e \<Rightarrow> Inl (ReasoningError i e) | Inr r \<Rightarrow> Inr (if is_blank r then None else Some r)))"

section \<open>The reconstruction\<close>

record chat_reconstruction =
  messages :: "chat_message list"
  pending_tool_call_ids :: "string set"
  provider_segments :: "materializer list"
  replayed_segment_ids :: "string set"
  filter_orphan_tool_results :: bool

definition reconstruction_new :: "bool \<Rightarrow> string set \<Rightarrow> chat_reconstruction" where
  "reconstruction_new filt ids = \<lparr>messages = [], pending_tool_call_ids = {}, provider_segments = [],
     replayed_segment_ids = ids, filter_orphan_tool_results = filt\<rparr>"

definition emit :: "chat_message \<Rightarrow> chat_reconstruction \<Rightarrow> chat_reconstruction" where
  "emit m rc = rc\<lparr>messages := messages rc @ [m]\<rparr>"

definition document_absolute_path :: "history_env \<Rightarrow> string \<Rightarrow> string" where
  "document_absolute_path env ref =
     (if starts_with ref ''/'' then ref else path_join (path_join (env_data_dir env) ''sessions'') ref)"

definition document_section :: "history_env \<Rightarrow> json \<Rightarrow> string option" where
  "document_section env d = (case (as_str (json_index d ''display_name''), as_str (json_index d ''mime_type''), as_str (json_index d ''media_ref'')) of
     (Some name, Some mime, Some ref) \<Rightarrow>
       Some (''filename: '' @ name @ ''\<newline>mime_type: '' @ mime @ ''\<newline>local_path: '' @ document_absolute_path env ref @ ''\<newline>media_ref: '' @ ref)
   | _ \<Rightarrow> None)"

fun join_blank :: "string list \<Rightarrow> string" where
  "join_blank [] = []"
| "join_blank [x] = x"
| "join_blank (x # xs) = x @ ''\<newline>\<newline>'' @ join_blank xs"

definition document_context :: "history_env \<Rightarrow> json \<Rightarrow> string option" where
  "document_context env v = (case as_array (json_index v ''documents'') of
     None \<Rightarrow> None
   | Some ds \<Rightarrow>
       (let sections = List.map_filter (document_section env) ds in
        if sections = [] then None else Some (join_blank (''[Inbound documents available]'' # sections))))"

definition sender_name :: "json \<Rightarrow> string option" where
  "sender_name v =
     (case Option.bind (json_get v ''channel'') (\<lambda>c. case as_str (json_index c ''sender_name'') of
          Some s \<Rightarrow> Some s | None \<Rightarrow> as_str (json_index c ''username'')) of
        Some s \<Rightarrow> Some s | None \<Rightarrow> as_str (json_index v ''name''))"

definition parse_data_uri :: "string \<Rightarrow> (string \<times> string) option" where
  "parse_data_uri uri = (case strip_prefix ''data:'' uri of
     None \<Rightarrow> None
   | Some rest \<Rightarrow>
       (case str_find '';base64,'' rest of
          None \<Rightarrow> None
        | Some k \<Rightarrow>
            (let media = take k rest; data = drop (k + 8) rest in if media = [] \<or> data = [] then None else Some (media, data))))"

definition user_part :: "json \<Rightarrow> content_part option" where
  "user_part b = (case as_str (json_index b ''type'') of
     None \<Rightarrow> None
   | Some ty \<Rightarrow>
       if ty = ''text'' then map_option PartText (as_str (json_index b ''text''))
       else if ty = ''image_url'' then
         Option.bind (as_str (json_index (json_index b ''image_url'') ''url''))
           (\<lambda>u. map_option (\<lambda>(m, d). PartImage m d) (parse_data_uri u))
       else None)"

fun add_context :: "string \<Rightarrow> content_part list \<Rightarrow> content_part list option" where
  "add_context doc [] = None"
| "add_context doc (PartText t # ps) = Some (PartText ((if trim t = [] then t else t @ ''\<newline>\<newline>'') @ doc) # ps)"
| "add_context doc (PartImage m d # ps) = map_option (Cons (PartImage m d)) (add_context doc ps)"

definition push_user :: "history_env \<Rightarrow> json \<Rightarrow> chat_reconstruction \<Rightarrow> chat_reconstruction" where
  "push_user env v rc =
     (let name = sender_name v; doc = document_context env v in
      case as_str (json_index v ''content'') of
        Some text \<Rightarrow> emit (UserMessage (UserText (case doc of
            Some d \<Rightarrow> if trim text = [] then d else text @ ''\<newline>\<newline>'' @ d | None \<Rightarrow> text)) name) rc
      | None \<Rightarrow>
          (case as_array (json_index v ''content'') of
             Some blocks \<Rightarrow>
               (let parts = List.map_filter user_part blocks in
                emit (UserMessage (UserMultimodal (case doc of
                    None \<Rightarrow> parts
                  | Some d \<Rightarrow> (case add_context d parts of Some ps \<Rightarrow> ps | None \<Rightarrow> PartText d # parts))) name) rc)
           | None \<Rightarrow> emit (UserMessage (UserText (case doc of Some d \<Rightarrow> d | None \<Rightarrow> [])) name) rc))"

fun decode_items :: "history_env \<Rightarrow> nat \<Rightarrow> nat \<Rightarrow> json list \<Rightarrow> conversion_error + provider_output_item list" where
  "decode_items env i k [] = Inr []"
| "decode_items env i k (v # vs) = (case de_item env v of
     Inl e \<Rightarrow> Inl (ProviderItemError i k e)
   | Inr x \<Rightarrow> (case decode_items env i (k + 1) vs of Inl e \<Rightarrow> Inl e | Inr xs \<Rightarrow> Inr (x # xs)))"

definition decode_provider_items :: "history_env \<Rightarrow> nat \<Rightarrow> json \<Rightarrow> conversion_error + provider_output_item list" where
  "decode_provider_items env i v = (case json_get v ''providerItems'' of
     None \<Rightarrow> Inr []
   | Some (JArray vs) \<Rightarrow> decode_items env i 0 vs
   | Some _ \<Rightarrow> Inl (ProviderItemsCollection i))"

definition decode_call :: "history_env \<Rightarrow> json \<Rightarrow> tool_call option" where
  "decode_call env c = (case (as_str (json_index c ''id''), as_str (json_index (json_index c ''function'') ''name'')) of
     (Some i, Some n) \<Rightarrow>
       (let d = decode_tool_call_arguments env (json_get (json_index c ''function'') ''arguments'') in
        Some \<lparr>call_id = i, call_name = n, call_arguments = decoded_json d, argument_diagnostic = decoded_diagnostic d\<rparr>)
   | _ \<Rightarrow> None)"

definition push_assistant :: "history_env \<Rightarrow> nat \<Rightarrow> json \<Rightarrow> chat_reconstruction \<Rightarrow> conversion_error + chat_reconstruction" where
  "push_assistant env i v rc = (case decode_reasoning (json_get v ''reasoning'') i of
     Inl e \<Rightarrow> Inl e
   | Inr reasoning \<Rightarrow>
       (case decode_provider_items env i v of
          Inl e \<Rightarrow> Inl e
        | Inr provider_items \<Rightarrow>
            (let calls = (case as_array (json_index v ''tool_calls'') of Some cs \<Rightarrow> List.map_filter (decode_call env) cs | None \<Rightarrow> []) in
             Inr (emit (AssistantMessage (as_str (json_index v ''content'')) calls reasoning provider_items
                   (Option.bind (json_get v ''segmentId'') as_str))
                 (rc\<lparr>pending_tool_call_ids := pending_tool_call_ids rc \<union> call_id ` set calls\<rparr>)))))"

text \<open>The common end of the two kinds of tool result.\<close>

definition push_result :: "string \<Rightarrow> string \<Rightarrow> chat_reconstruction \<Rightarrow> chat_reconstruction" where
  "push_result i text rc =
     (let rc' = rc\<lparr>pending_tool_call_ids := pending_tool_call_ids rc - {i}\<rparr> in
      if filter_orphan_tool_results rc \<and> i \<notin> pending_tool_call_ids rc then rc' else emit (ToolMessage i text) rc')"

definition push_tool :: "history_env \<Rightarrow> json \<Rightarrow> chat_reconstruction \<Rightarrow> chat_reconstruction" where
  "push_tool env v rc =
     push_result (case as_str (json_index v ''tool_call_id'') of Some s \<Rightarrow> s | None \<Rightarrow> [])
       (case as_str (json_index v ''content'') of Some s \<Rightarrow> s | None \<Rightarrow> print_json env (json_index v ''content'')) rc"

fun terminal_text :: "tool_lifecycle_update \<Rightarrow> string option" where
  "terminal_text (LcCompleted _ _ result error) = Some (case result of Some r \<Rightarrow> r
     | None \<Rightarrow> (case error of Some e \<Rightarrow> ''Error: '' @ e | None \<Rightarrow> []))"
| "terminal_text (LcRejected _ _ result) = Some result"
| "terminal_text (LcCancelled _ reason) = Some (''Tool call cancelled: '' @ reason)"
| "terminal_text _ = None"

definition push_tool_lifecycle :: "history_env \<Rightarrow> nat \<Rightarrow> json \<Rightarrow> chat_reconstruction \<Rightarrow> conversion_error + chat_reconstruction" where
  "push_tool_lifecycle env i v rc = (case de_lifecycle env v of
     Inl e \<Rightarrow> Inl (ToolLifecycleError i e)
   | Inr l \<Rightarrow> (case terminal_text (lc_update l) of
        None \<Rightarrow> Inr rc | Some text \<Rightarrow> Inr (push_result (lc_call_id l) text rc)))"

section \<open>Replaying segments\<close>

definition has_segment :: "string \<Rightarrow> materializer \<Rightarrow> bool" where
  "has_segment s m \<longleftrightarrow> segment_id (segment m) = Some s"

text \<open>The materializer of a segment, created at the end of the list on first sight.\<close>

definition replayed_segment :: "string \<Rightarrow> materializer list \<Rightarrow> materializer list \<times> materializer" where
  "replayed_segment s ms = (case find (has_segment s) ms of
     Some m \<Rightarrow> (ms, m) | None \<Rightarrow> (ms @ [materializer_new s], materializer_new s))"

definition replayed_tool_calls :: "history_env \<Rightarrow> provider_output_item list \<Rightarrow> tool_call list" where
  "replayed_tool_calls env xs = List.map_filter (\<lambda>x. case item_payload x of
     FunctionCall c n a \<Rightarrow>
       (let d = decode_tool_call_arguments env (Some (JString a)) in
        Some \<lparr>call_id = c, call_name = n, call_arguments = decoded_json d, argument_diagnostic = decoded_diagnostic d\<rparr>)
   | _ \<Rightarrow> None) xs"

definition replayed_assistant_message :: "history_env \<Rightarrow> materializer \<Rightarrow> string set \<Rightarrow> chat_message option" where
  "replayed_assistant_message env m replayed =
     (if items (segment m) = [] then None
      else if (case segment_id (segment m) of Some s \<Rightarrow> s \<in> replayed | None \<Rightarrow> False) then None
      else Some (AssistantMessage (message_text (segment m)) (replayed_tool_calls env (items (segment m)))
        (segment_reasoning_content (segment m)) (items (segment m)) (segment_id (segment m))))"

definition flush_replayed_segment :: "history_env \<Rightarrow> string \<Rightarrow> chat_reconstruction \<Rightarrow> chat_reconstruction" where
  "flush_replayed_segment env s rc = (case find (has_segment s) (provider_segments rc) of
     None \<Rightarrow> rc
   | Some m \<Rightarrow> (case replayed_assistant_message env m (replayed_segment_ids rc) of
        None \<Rightarrow> rc
      | Some msg \<Rightarrow> (emit msg rc)\<lparr>replayed_segment_ids := insert s (replayed_segment_ids rc)\<rparr>))"

definition push_provider_update :: "history_env \<Rightarrow> nat \<Rightarrow> json \<Rightarrow> chat_reconstruction \<Rightarrow> conversion_error + chat_reconstruction" where
  "push_provider_update env i v rc = (case de_update env v of
     Inl e \<Rightarrow> Inl (ProviderUpdateError i e)
   | Inr u \<Rightarrow>
       (case replayed_segment (upd_segment_id u) (provider_segments rc) of
          (ms, m) \<Rightarrow> (case apply_update m u of
             (m', Inl e) \<Rightarrow> Inl (ProviderSegmentReplay i e)
           | (m', Inr _) \<Rightarrow> Inr (rc\<lparr>provider_segments := update_first (has_segment (upd_segment_id u)) (\<lambda>_. m') ms\<rparr>))))"

definition push_provider_close :: "history_env \<Rightarrow> nat \<Rightarrow> json \<Rightarrow> chat_reconstruction \<Rightarrow> conversion_error + chat_reconstruction" where
  "push_provider_close env i v rc = (case de_close env v of
     Inl e \<Rightarrow> Inl (ProviderSegmentCloseError i e)
   | Inr (s, out) \<Rightarrow>
       (case replayed_segment s (provider_segments rc) of
          (ms, m) \<Rightarrow> (case close m out of
             (m', Inl e) \<Rightarrow> Inl (ProviderSegmentReplay i e)
           | (m', Inr _) \<Rightarrow> Inr (flush_replayed_segment env s (rc\<lparr>provider_segments := update_first (has_segment s) (\<lambda>_. m') ms\<rparr>)))))"

definition push :: "history_env \<Rightarrow> nat \<times> json \<Rightarrow> chat_reconstruction \<Rightarrow> conversion_error + chat_reconstruction" where
  "push env = (\<lambda>(i, v) rc. case as_str (json_index v ''role'') of
     None \<Rightarrow> Inr rc
   | Some role \<Rightarrow>
       if role = ''system'' then Inr (emit (SystemMessage (case as_str (json_index v ''content'') of Some s \<Rightarrow> s | None \<Rightarrow> [])) rc)
       else if role = ''user'' then Inr (push_user env v rc)
       else if role = ''assistant'' then push_assistant env i v rc
       else if role = ''tool'' then Inr (push_tool env v rc)
       else if role = ''tool_lifecycle'' then push_tool_lifecycle env i v rc
       else if role = ''notice'' then Inr rc
       else if role = ''provider_update'' then push_provider_update env i v rc
       else if role = ''provider_segment_close'' then push_provider_close env i v rc
       else if role = ''checkpoint'' then
         Inr (emit (UserMessage (UserText (''<conversation-summary>\<newline>'' @ (case as_str (json_index v ''summary'') of Some s \<Rightarrow> s | None \<Rightarrow> [])
           @ ''\<newline></conversation-summary>'')) None) rc)
       else Inl (UnsupportedRole i role))"

fun push_all :: "history_env \<Rightarrow> (nat \<times> json) list \<Rightarrow> chat_reconstruction \<Rightarrow> conversion_error + chat_reconstruction" where
  "push_all env [] rc = Inr rc"
| "push_all env (x # xs) rc = (case push env x rc of Inl e \<Rightarrow> Inl e | Inr rc' \<Rightarrow> push_all env xs rc')"

fun append_replayed :: "history_env \<Rightarrow> materializer list \<Rightarrow> string set \<Rightarrow> chat_message list \<Rightarrow> chat_message list" where
  "append_replayed env [] replayed msgs = msgs"
| "append_replayed env (m # ms) replayed msgs = (case replayed_assistant_message env m replayed of
     None \<Rightarrow> append_replayed env ms replayed msgs
   | Some msg \<Rightarrow> append_replayed env ms
       (case segment_id (segment m) of Some s \<Rightarrow> insert s replayed | None \<Rightarrow> replayed) (msgs @ [msg]))"

section \<open>Aborted calls\<close>

definition ABORTED_TOOL_RESULT :: string where
  "ABORTED_TOOL_RESULT = ''aborted''"

definition answered_ids :: "chat_message list \<Rightarrow> string set" where
  "answered_ids msgs = set (List.map_filter (\<lambda>m. case m of ToolMessage i _ \<Rightarrow> Some i | _ \<Rightarrow> None) msgs)"

definition item_call_ids :: "provider_output_item list \<Rightarrow> string list" where
  "item_call_ids xs = List.map_filter (\<lambda>x. case item_payload x of FunctionCall c _ _ \<Rightarrow> Some c | _ \<Rightarrow> None) xs"

fun message_call_ids :: "chat_message \<Rightarrow> string list" where
  "message_call_ids (AssistantMessage _ calls _ provider_items _) = map call_id calls @ item_call_ids provider_items"
| "message_call_ids _ = []"

fun note_missing :: "string set \<Rightarrow> nat \<Rightarrow> string list \<Rightarrow> (nat \<times> string) list \<Rightarrow> (nat \<times> string) list" where
  "note_missing answered i [] missing = missing"
| "note_missing answered i (c # cs) missing =
     note_missing answered i cs (if c \<in> answered \<or> c \<in> snd ` set missing then missing else missing @ [(i, c)])"

fun missing_calls :: "string set \<Rightarrow> nat \<Rightarrow> chat_message list \<Rightarrow> (nat \<times> string) list \<Rightarrow> (nat \<times> string) list" where
  "missing_calls answered i [] missing = missing"
| "missing_calls answered i (m # ms) missing = missing_calls answered (i + 1) ms (note_missing answered i (message_call_ids m) missing)"

definition insert_at :: "nat \<Rightarrow> 'a \<Rightarrow> 'a list \<Rightarrow> 'a list" where
  "insert_at i x xs = take i xs @ x # drop i xs"

fun insert_aborted :: "(nat \<times> string) list \<Rightarrow> chat_message list \<Rightarrow> chat_message list" where
  "insert_aborted [] msgs = msgs"
| "insert_aborted ((i, c) # missing) msgs = insert_aborted missing (insert_at (i + 1) (ToolMessage c ABORTED_TOOL_RESULT) msgs)"

definition ensure_tool_call_results_present :: "chat_message list \<Rightarrow> chat_message list" where
  "ensure_tool_call_results_present msgs = insert_aborted (rev (missing_calls (answered_ids msgs) 0 msgs [])) msgs"

definition finish :: "history_env \<Rightarrow> chat_reconstruction \<Rightarrow> chat_message list" where
  "finish env rc = ensure_tool_call_results_present
     (append_replayed env (provider_segments rc) (replayed_segment_ids rc) (messages rc))"

section \<open>Whole histories\<close>

definition assistant_segment_ids :: "json list \<Rightarrow> string set" where
  "assistant_segment_ids vs = set (List.map_filter (\<lambda>v. Option.bind (json_get v ''segmentId'') as_str)
     (filter (\<lambda>v. as_str (json_index v ''role'') = Some ''assistant'') vs))"

definition rposition :: "('a \<Rightarrow> bool) \<Rightarrow> 'a list \<Rightarrow> nat option" where
  "rposition P xs = map_option fst (find (\<lambda>(i, x). P x) (rev (enumerate 0 xs)))"

definition is_checkpoint :: "json \<Rightarrow> bool" where
  "is_checkpoint v \<longleftrightarrow> as_str (json_index v ''role'') = Some ''checkpoint''"

definition ordered_values :: "json list \<Rightarrow> (nat \<times> json) list" where
  "ordered_values vs = (case rposition is_checkpoint vs of
     None \<Rightarrow> enumerate 0 vs
   | Some c \<Rightarrow>
       (let start = (case as_u64 (json_index (vs ! c) ''messagesSummarized'') of Some n \<Rightarrow> if n \<le> c then n else c | None \<Rightarrow> c) in
        (c, vs ! c) # filter (\<lambda>(_, v). \<not> is_checkpoint v) (enumerate start (drop start (take c vs)))
          @ enumerate (c + 1) (drop (c + 1) vs)))"

definition values_to_chat_messages_inner :: "history_env \<Rightarrow> json list \<Rightarrow> bool \<Rightarrow> conversion_error + chat_message list" where
  "values_to_chat_messages_inner env vs filt =
     (case push_all env (ordered_values vs) (reconstruction_new filt (assistant_segment_ids vs)) of
        Inl e \<Rightarrow> Inl e | Inr rc \<Rightarrow> Inr (finish env rc))"

definition values_to_chat_messages :: "history_env \<Rightarrow> json list \<Rightarrow> conversion_error + chat_message list" where
  "values_to_chat_messages env vs = values_to_chat_messages_inner env vs True"

definition provider_values_to_chat_messages :: "history_env \<Rightarrow> json list \<Rightarrow> conversion_error + chat_message list" where
  "provider_values_to_chat_messages env vs = values_to_chat_messages_inner env vs False"

end
