(* ===== verification/Chat_Replay.thy ===== *)
theory Chat_Replay
  imports Chat_History
begin

text \<open>
  What the reconstruction of \<open>Chat_History\<close> gives to a provider: every call has a result and
  every result a call before it; a segment that was interrupted is replayed once, as the
  materializer left it.
\<close>

section \<open>Filling in aborted results\<close>

text \<open>The reference: after each message, a result for each of its calls that has none yet.\<close>

fun fresh :: "string set \<Rightarrow> string list \<Rightarrow> string list" where
  "fresh known [] = []"
| "fresh known (c # cs) = (if c \<in> known then fresh known cs else c # fresh (insert c known) cs)"

definition aborted :: "string \<Rightarrow> chat_message" where
  "aborted c = ToolMessage c ABORTED_TOOL_RESULT"

fun fill :: "string set \<Rightarrow> chat_message list \<Rightarrow> chat_message list" where
  "fill known [] = []"
| "fill known (m # ms) = (let new = fresh known (message_call_ids m) in m # map aborted new @ fill (known \<union> set new) ms)"

fun todo :: "string set \<Rightarrow> nat \<Rightarrow> chat_message list \<Rightarrow> (nat \<times> string) list" where
  "todo known i [] = []"
| "todo known i (m # ms) = (let new = fresh known (message_call_ids m) in map (Pair i) new @ todo (known \<union> set new) (i + 1) ms)"

lemma set_fresh: "set (fresh known cs) = set cs - known"
  by (induction known cs rule: fresh.induct) auto

lemma note_missing_fresh:
  "note_missing answered i cs missing = missing @ map (Pair i) (fresh (answered \<union> snd ` set missing) cs)"
proof (induction cs arbitrary: missing)
  case (Cons c cs)
  then show ?case by (auto simp: insert_commute)
qed simp

lemma missing_calls_todo:
  "missing_calls answered i ms missing = missing @ todo (answered \<union> snd ` set missing) i ms"
proof (induction ms arbitrary: i missing)
  case (Cons m ms)
  then show ?case by (simp add: note_missing_fresh Let_def image_Un image_image Un_assoc)
qed simp

lemma insert_aborted_append: "insert_aborted (xs @ ys) msgs = insert_aborted ys (insert_aborted xs msgs)"
  by (induction xs msgs rule: insert_aborted.induct) simp_all

lemma insert_aborted_block:
  "length pre = i \<Longrightarrow> insert_aborted (rev (map (Pair i) new)) (pre @ m # rest) = pre @ m # map aborted new @ rest"
proof (induction new arbitrary: rest rule: rev_induct)
  case (snoc c new)
  have "insert_at (i + 1) (ToolMessage c ABORTED_TOOL_RESULT) (pre @ m # rest) = pre @ m # aborted c # rest"
    using snoc.prems by (simp add: insert_at_def aborted_def)
  then show ?case using snoc.IH [OF snoc.prems, of "aborted c # rest"] by simp
qed simp

lemma insert_aborted_todo:
  "length pre = i \<Longrightarrow> insert_aborted (rev (todo known i ms)) (pre @ ms) = pre @ fill known ms"
proof (induction ms arbitrary: pre i known)
  case (Cons m ms)
  let ?new = "fresh known (message_call_ids m)"
  have "insert_aborted (rev (todo (known \<union> set ?new) (i + 1) ms)) ((pre @ [m]) @ ms) = (pre @ [m]) @ fill (known \<union> set ?new) ms"
    by (rule Cons.IH) (use Cons.prems in simp)
  then show ?case
    using insert_aborted_block [OF Cons.prems, of ?new m "fill (known \<union> set ?new) ms"]
    by (simp add: Let_def insert_aborted_append)
qed simp

lemma ensure_fill: "ensure_tool_call_results_present msgs = fill (answered_ids msgs) msgs"
  using insert_aborted_todo [of "[]" 0 "answered_ids msgs" msgs]
  by (simp add: ensure_tool_call_results_present_def missing_calls_todo)

text \<open>The results and the calls of a conversation.\<close>

definition results :: "chat_message list \<Rightarrow> string list" where
  "results ms = List.map_filter (\<lambda>m. case m of ToolMessage i _ \<Rightarrow> Some i | _ \<Rightarrow> None) ms"

definition calls :: "chat_message list \<Rightarrow> string set" where
  "calls ms = (\<Union>m \<in> set ms. set (message_call_ids m))"

lemma results_simps [simp]:
  "results [] = []" "results (ms @ ns) = results ms @ results ns"
  "results (m # ms) = (case m of ToolMessage i _ \<Rightarrow> [i] | _ \<Rightarrow> []) @ results ms"
  by (simp_all add: results_def map_filter_def split: chat_message.split)

lemma calls_simps [simp]: "calls [] = {}" "calls (m # ms) = set (message_call_ids m) \<union> calls ms" "calls (ms @ ns) = calls ms \<union> calls ns"
  by (auto simp: calls_def)

lemma answered_results: "answered_ids ms = set (results ms)"
  by (simp add: answered_ids_def results_def)

lemma aborted_simps [simp]: "results (map aborted cs) = cs" "calls (map aborted cs) = {}"
  by (induction cs) (simp_all add: aborted_def)

lemma fill_calls: "calls (fill known ms) = calls ms"
  by (induction known ms rule: fill.induct) (simp_all add: Let_def)

lemma fill_results: "set (results (fill known ms)) = set (results ms) \<union> (calls ms - known)"
  by (induction known ms rule: fill.induct) (auto simp: Let_def set_fresh)

lemma ensure_answered: "calls (ensure_tool_call_results_present msgs) \<subseteq> set (results (ensure_tool_call_results_present msgs))"
  by (auto simp: ensure_fill fill_calls fill_results answered_results)

section \<open>Every result has a call\<close>

definition justified :: "chat_message list \<Rightarrow> bool" where
  "justified ms \<longleftrightarrow> (\<forall>pre i t post. ms = pre @ ToolMessage i t # post \<longrightarrow> i \<in> calls pre)"

definition callers :: "string \<Rightarrow> chat_message list \<Rightarrow> nat" where
  "callers c ms = length (filter (\<lambda>m. c \<in> set (message_call_ids m)) ms)"

lemma justified_snoc:
  "justified (ms @ [m]) \<longleftrightarrow> justified ms \<and> (case m of ToolMessage i _ \<Rightarrow> i \<in> calls ms | _ \<Rightarrow> True)"
proof -
  have "(\<forall>pre i t post. ms @ [m] = pre @ ToolMessage i t # post \<longrightarrow> i \<in> calls pre) \<longleftrightarrow>
    (\<forall>pre i t post. ms = pre @ ToolMessage i t # post \<longrightarrow> i \<in> calls pre) \<and> (\<forall>i t. m = ToolMessage i t \<longrightarrow> i \<in> calls ms)" (is "?L \<longleftrightarrow> ?R")
  proof
    assume l: ?L
    have "i \<in> calls pre" if "ms = pre @ ToolMessage i t # post" for pre i t post
      using l [rule_format, of pre i t "post @ [m]"] that by simp
    moreover have "i \<in> calls ms" if "m = ToolMessage i t" for i t using l [rule_format, of ms i t "[]"] that by simp
    ultimately show ?R by blast
  next
    assume r: ?R
    show ?L
    proof (intro allI impI)
      fix pre i t post
      assume eq: "ms @ [m] = pre @ ToolMessage i t # post"
      show "i \<in> calls pre"
        using eq r by (cases post rule: rev_cases) auto
    qed
  qed
  then show ?thesis by (auto simp: justified_def split: chat_message.split)
qed

lemma aborted_no_calls [simp]: "message_call_ids (aborted c) = []"
  by (simp add: aborted_def)

lemma justified_append_aborted: "justified ms \<Longrightarrow> set cs \<subseteq> calls ms \<Longrightarrow> justified (ms @ map aborted cs)"
proof (induction cs arbitrary: ms)
  case (Cons c cs)
  have "justified (ms @ [aborted c])" using Cons.prems by (simp add: justified_snoc) (simp add: aborted_def)
  from Cons.IH [OF this] Cons.prems show ?case by simp
qed simp

lemma justified_fill:
  "justified (pre @ ms) \<Longrightarrow> justified pre' \<Longrightarrow> calls pre \<subseteq> calls pre' \<Longrightarrow> justified (pre' @ fill known ms)"
proof (induction ms arbitrary: pre pre' known)
  case (Cons m ms)
  let ?new = "fresh known (message_call_ids m)"
  have j: "case m of ToolMessage i _ \<Rightarrow> i \<in> calls pre | _ \<Rightarrow> True"
    using Cons.prems(1) by (auto simp: justified_def split: chat_message.split)
  then have "justified (pre' @ [m])" using Cons.prems(2,3) by (auto simp: justified_snoc split: chat_message.splits)
  then have "justified ((pre' @ [m]) @ map aborted ?new)" by (rule justified_append_aborted) (auto simp: set_fresh)
  from Cons.IH [OF _ this, of "pre @ [m]" "known \<union> set ?new"] Cons.prems(1,3) show ?case by (auto simp: Let_def)
qed simp

lemma count_fresh: "count_list (fresh known cs) c = (if c \<in> set cs - known then 1 else 0)"
  by (induction known cs rule: fresh.induct) auto

lemma count_list_append [simp]: "count_list (xs @ ys) c = count_list xs c + count_list ys c"
  by (induction xs) simp_all

lemma fill_count: "count_list (results (fill known ms)) c = count_list (results ms) c + (if c \<in> calls ms - known then 1 else 0)"
  by (induction known ms rule: fill.induct) (auto simp: Let_def count_fresh set_fresh split: chat_message.splits)

lemma fill_callers: "callers c (fill known ms) = callers c ms"
  by (induction known ms rule: fill.induct) (auto simp: Let_def callers_def aborted_def comp_def)

lemma callers_pos: "c \<in> calls ms \<Longrightarrow> 0 < callers c ms"
  by (auto simp: callers_def calls_def filter_empty_conv)

text \<open>What a reconstruction that drops orphans keeps.\<close>

definition balanced :: "chat_reconstruction \<Rightarrow> bool" where
  "balanced rc \<longleftrightarrow> pending_tool_call_ids rc \<subseteq> calls (messages rc) \<and> justified (messages rc)
     \<and> (\<forall>c. count_list (results (messages rc)) c + (if c \<in> pending_tool_call_ids rc then 1 else 0) \<le> callers c (messages rc))
     \<and> filter_orphan_tool_results rc"

lemma balanced_emit: "balanced rc \<Longrightarrow> (\<forall>i t. m \<noteq> ToolMessage i t) \<Longrightarrow> balanced (emit m rc)"
proof -
  assume b: "balanced rc" and m: "\<forall>i t. m \<noteq> ToolMessage i t"
  have r: "results (messages rc @ [m]) = results (messages rc)" using m by (cases m) simp_all
  have "callers c (messages rc) \<le> callers c (messages rc @ [m])" for c by (simp add: callers_def)
  then have "count_list (results (messages rc)) c + (if c \<in> pending_tool_call_ids rc then 1 else 0) \<le> callers c (messages rc @ [m])" for c
    using b order_trans unfolding balanced_def by blast
  moreover have "justified (messages rc @ [m])" using b m by (cases m) (simp_all add: balanced_def justified_snoc)
  ultimately show ?thesis using b by (auto simp add: balanced_def emit_def simp del: results_simps simp add: r)
qed

lemma balanced_result:
  assumes b: "balanced rc"
  shows "balanced (push_result i t rc)"
proof (cases "i \<in> pending_tool_call_ids rc")
  case True
  have n: "count_list (results (messages rc)) c + (if c \<in> pending_tool_call_ids rc then 1 else 0) \<le> callers c (messages rc)" for c
    using b by (simp add: balanced_def)
  have "count_list (results (messages rc) @ [i]) c + (if c \<in> pending_tool_call_ids rc - {i} then 1 else 0) \<le> callers c (messages rc)" for c
    using n [of c] True by (cases "c = i") (simp_all split: if_splits)
  then show ?thesis
    using b True by (auto simp: push_result_def balanced_def emit_def justified_snoc callers_def)
next
  case False
  then show ?thesis using b by (auto simp: push_result_def balanced_def)
qed

lemma balanced_assistant:
  assumes "balanced rc"
  shows "balanced (emit (AssistantMessage x cs r its s) (rc\<lparr>pending_tool_call_ids := pending_tool_call_ids rc \<union> call_id ` set cs\<rparr>))"
proof -
  have n: "count_list (results (messages rc)) c + (if c \<in> pending_tool_call_ids rc then 1 else 0) \<le> callers c (messages rc)" for c
    using assms by (simp add: balanced_def)
  have "count_list (results (messages rc)) c + (if c \<in> pending_tool_call_ids rc \<union> call_id ` set cs then 1 else 0)
      \<le> callers c (messages rc @ [AssistantMessage x cs r its s])" for c
    using n [of c] by (cases "c \<in> call_id ` set cs") (simp_all add: callers_def split: if_splits)
  then show ?thesis using assms by (auto simp: balanced_def emit_def justified_snoc callers_def)
qed


lemma balanced_frame:
  "balanced rc \<Longrightarrow> messages rc' = messages rc \<Longrightarrow> pending_tool_call_ids rc' = pending_tool_call_ids rc
    \<Longrightarrow> filter_orphan_tool_results rc' = filter_orphan_tool_results rc \<Longrightarrow> balanced rc'"
  by (simp add: balanced_def)

lemma replayed_not_tool: "replayed_assistant_message env m r = Some msg \<Longrightarrow> \<forall>i t. msg \<noteq> ToolMessage i t"
  by (auto simp: replayed_assistant_message_def split: if_splits)

lemma balanced_flush: "balanced rc \<Longrightarrow> balanced (flush_replayed_segment env s rc)"
proof -
  assume b: "balanced rc"
  have "balanced ((emit msg rc)\<lparr>replayed_segment_ids := x\<rparr>)" if "replayed_assistant_message env m r = Some msg" for m r msg x
    by (rule balanced_frame [OF balanced_emit [OF b replayed_not_tool [OF that]]]) simp_all
  then show ?thesis using b by (simp add: flush_replayed_segment_def split: option.split)
qed

lemma push_assistant_shape:
  "push_assistant env i v rc = Inr rc' \<Longrightarrow> \<exists>x cs r its.
    rc' = emit (AssistantMessage x cs r its (Option.bind (json_get v ''segmentId'') as_str))
      (rc\<lparr>pending_tool_call_ids := pending_tool_call_ids rc \<union> call_id ` set cs\<rparr>)"
  unfolding push_assistant_def Let_def by (simp only: sum.simps split: sum.split_asm) blast

lemma balanced_push: "balanced rc \<Longrightarrow> push env (i, v) rc = Inr rc' \<Longrightarrow> balanced rc'"
proof -
  assume b: "balanced rc" and p: "push env (i, v) rc = Inr rc'"
  have u: "balanced (push_user env v rc)"
    unfolding push_user_def Let_def by (cases "as_str (json_index v ''content'')"; cases "as_array (json_index v ''content'')") (simp_all add: balanced_emit b)
  have a: "balanced rc'" if pa: "push_assistant env i v rc = Inr rc'"
  proof -
    obtain x r its sg cs where rc': "rc' = emit (AssistantMessage x cs r its sg) (rc\<lparr>pending_tool_call_ids := pending_tool_call_ids rc \<union> call_id ` set cs\<rparr>)"
      using push_assistant_shape [OF pa] by blast
    show ?thesis unfolding rc' by (rule balanced_assistant [OF b])
  qed
  have l: "balanced rc'" if "push_tool_lifecycle env i v rc = Inr rc'"
    using that b by (auto simp: push_tool_lifecycle_def intro!: balanced_result split: sum.splits option.splits)
  have d: "balanced rc'" if "push_provider_update env i v rc = Inr rc'"
    using that b by (auto simp: push_provider_update_def split: sum.splits prod.splits intro: balanced_frame)
  have c: "balanced rc'" if "push_provider_close env i v rc = Inr rc'"
    using that b by (auto simp: push_provider_close_def split: sum.splits prod.splits intro!: balanced_flush intro: balanced_frame)
  have e: "balanced (emit (SystemMessage x) rc)" "balanced (emit (UserMessage y z) rc)" "balanced (push_tool env v rc)" for x y z
    by (simp_all add: balanced_emit balanced_result push_tool_def b)
  show ?thesis
    using p b u a l d c e unfolding push_def prod.case by (simp only: split: option.splits if_splits) (simp_all, metis+)
qed

lemma balanced_push_all: "balanced rc \<Longrightarrow> push_all env xs rc = Inr rc' \<Longrightarrow> balanced rc'"
proof (induction xs arbitrary: rc)
  case (Cons x xs)
  then show ?case by (cases x) (auto dest: balanced_push split: sum.splits)
qed simp

definition well_answered :: "chat_message list \<Rightarrow> bool" where
  "well_answered ms \<longleftrightarrow> calls ms \<subseteq> set (results ms)"

definition well_called :: "chat_message list \<Rightarrow> bool" where
  "well_called ms \<longleftrightarrow> justified ms \<and> (\<forall>c. count_list (results ms) c \<le> callers c ms)"

lemma well_called_append_replayed: "well_called msgs \<Longrightarrow> well_called (append_replayed env ms replayed msgs)"
proof (induction env ms replayed msgs rule: append_replayed.induct)
  case (2 env m ms replayed msgs)
  show ?case
  proof (cases "replayed_assistant_message env m replayed")
    case None
    then show ?thesis using 2 by simp
  next
    case (Some msg)
    have "well_called (msgs @ [msg])"
      using 2(3) replayed_not_tool [OF Some] by (cases msg) (simp_all add: well_called_def justified_snoc callers_def le_SucI)
    then show ?thesis using 2(2) Some by simp
  qed
qed simp

lemma well_called_ensure: "well_called ms \<Longrightarrow> well_called (ensure_tool_call_results_present ms)"
proof -
  assume w: "well_called ms"
  have "justified ([] @ fill (answered_ids ms) ms)"
    by (rule justified_fill [of "[]"]) (use w in \<open>auto simp: well_called_def justified_def\<close>)
  moreover have "count_list (results (fill (answered_ids ms) ms)) c \<le> callers c (fill (answered_ids ms) ms)" for c
    using w callers_pos [of c ms] by (auto simp: well_called_def fill_count fill_callers answered_results count_list_0_iff Suc_le_eq)
  ultimately show ?thesis by (simp add: well_called_def ensure_fill)
qed

lemma balanced_well_called: "balanced rc \<Longrightarrow> well_called (messages rc)"
  by (auto simp: balanced_def well_called_def intro: add_leD1)

text \<open>
  C16. What the provider is sent is a conversation it accepts: a history either fails to convert
  or becomes messages in which every tool call has a result, results only follow a call with
  their id, and an id has no more results than calls.
\<close>

theorem conversation_well_formed:
  assumes "values_to_chat_messages env vs = Inr ms"
  shows "well_answered ms \<and> well_called ms"
proof -
  obtain rc where p: "push_all env (ordered_values vs) (reconstruction_new True (assistant_segment_ids vs)) = Inr rc"
    and ms: "ms = finish env rc"
    using assms by (auto simp: values_to_chat_messages_def values_to_chat_messages_inner_def split: sum.splits)
  have "balanced (reconstruction_new True (assistant_segment_ids vs))"
    by (simp add: balanced_def reconstruction_new_def justified_def callers_def)
  from balanced_well_called [OF balanced_push_all [OF this p]] show ?thesis
    unfolding ms finish_def
    by (simp add: well_answered_def ensure_answered well_called_ensure well_called_append_replayed)
qed

section \<open>A segment that was interrupted\<close>

text \<open>The records of one segment, as the materializer's events.\<close>

definition segment_event :: "history_env \<Rightarrow> string \<Rightarrow> json \<Rightarrow> mat_event option" where
  "segment_event env sid v =
     (if as_str (json_index v ''role'') = Some ''provider_update'' then
        (case de_update env v of Inr u \<Rightarrow> if upd_segment_id u = sid then Some (Update u) else None | Inl _ \<Rightarrow> None)
      else if as_str (json_index v ''role'') = Some ''provider_segment_close'' then
        (case de_close env v of Inr (s, out) \<Rightarrow> if s = sid then Some (Close out) else None | Inl _ \<Rightarrow> None)
      else None)"

definition replay :: "history_env \<Rightarrow> string \<Rightarrow> json list \<Rightarrow> materializer" where
  "replay env sid vs = foldl mat_step (materializer_new sid) (List.map_filter (segment_event env sid) vs)"

fun carries :: "string \<Rightarrow> chat_message \<Rightarrow> bool" where
  "carries sid (AssistantMessage _ _ _ _ (Some s)) \<longleftrightarrow> s = sid"
| "carries sid _ \<longleftrightarrow> False"

definition segment_message :: "history_env \<Rightarrow> materializer \<Rightarrow> chat_message list" where
  "segment_message env m = (if items (segment m) = [] then [] else
     [AssistantMessage (message_text (segment m)) (replayed_tool_calls env (items (segment m)))
       (segment_reasoning_content (segment m)) (items (segment m)) (segment_id (segment m))])"

lemma replay_snoc: "replay env sid (vs @ [v]) = (case segment_event env sid v of None \<Rightarrow> replay env sid vs | Some e \<Rightarrow> mat_step (replay env sid vs) e)"
  by (simp add: replay_def map_filter_def split: option.split)

text \<open>Storing the materializer of one segment.\<close>

definition segments_ok :: "materializer list \<Rightarrow> bool" where
  "segments_ok ms \<longleftrightarrow> distinct (map (segment_id \<circ> segment) ms) \<and> (\<forall>m \<in> set ms. segment_id (segment m) \<noteq> None)"

definition store_segment :: "string \<Rightarrow> materializer \<Rightarrow> materializer list \<Rightarrow> materializer list" where
  "store_segment s m ms = update_first (has_segment s) (\<lambda>_. m) (fst (replayed_segment s ms))"

lemma find_none_iff: "find (has_segment s) ms = None \<longleftrightarrow> Some s \<notin> (segment_id \<circ> segment) ` set ms"
  by (force simp: find_None_iff has_segment_def)

lemma find_append_one: "find P (xs @ [x]) = (case find P xs of Some y \<Rightarrow> Some y | None \<Rightarrow> if P x then Some x else None)"
  by (induction xs) auto

lemma materializer_new_id [simp]: "segment_id (segment (materializer_new s)) = Some s"
  "outcome (segment (materializer_new s)) = Active" "items (segment (materializer_new s)) = []"
  by (simp_all add: materializer_new_def segment_new_def)

lemma find_store:
  assumes "has_segment s m"
  shows "find (has_segment sid) (store_segment s m ms) = (if sid = s then Some m else find (has_segment sid) ms)"
proof (cases "sid = s")
  case True
  show ?thesis
  proof (cases "find (has_segment s) ms")
    case None
    then show ?thesis using True assms
      by (induction ms) (auto simp: store_segment_def replayed_segment_def has_segment_def split: if_splits)
  next
    case (Some x)
    then show ?thesis using True assms
      by (induction ms) (auto simp: store_segment_def replayed_segment_def split: if_splits)
  qed
next
  case False
  have o: "find (has_segment sid) (update_first (has_segment s) (\<lambda>_. m) xs) = find (has_segment sid) xs" for xs
    by (rule find_update_first_other) (use False assms in \<open>auto simp: has_segment_def\<close>)
  show ?thesis using False
    by (auto simp: store_segment_def o replayed_segment_def find_append_one has_segment_def split: option.split)
qed

lemma segments_ok_store:
  assumes "segments_ok ms" "has_segment s m"
  shows "segments_ok (store_segment s m ms)"
proof -
  have i: "map (segment_id \<circ> segment) (update_first (has_segment s) (\<lambda>_. m) xs) = map (segment_id \<circ> segment) xs" for xs
    using assms(2) by (induction xs) (auto simp: has_segment_def)
  have "segments_ok xs \<longleftrightarrow> distinct (map (segment_id \<circ> segment) xs) \<and> None \<notin> set (map (segment_id \<circ> segment) xs)" for xs
    by (auto simp: segments_ok_def image_iff) (metis not_Some_eq)
  note ok = this
  have "segments_ok (fst (replayed_segment s ms))"
    using assms(1) find_none_iff [of s ms] by (auto simp: replayed_segment_def segments_ok_def split: option.split)
  then show ?thesis unfolding store_segment_def ok i .
qed


text \<open>What the reconstruction knows of one segment after some records.\<close>

definition replays :: "history_env \<Rightarrow> string \<Rightarrow> json list \<Rightarrow> chat_reconstruction \<Rightarrow> bool" where
  "replays env sid vs rc \<longleftrightarrow> segments_ok (provider_segments rc)
     \<and> find (has_segment sid) (provider_segments rc) =
         (if List.map_filter (segment_event env sid) vs = [] then None else Some (replay env sid vs))
     \<and> segment_id (segment (replay env sid vs)) = Some sid
     \<and> (if sid \<in> replayed_segment_ids rc
        then outcome (segment (replay env sid vs)) \<noteq> Active \<and> items (segment (replay env sid vs)) \<noteq> []
          \<and> filter (carries sid) (messages rc) = segment_message env (replay env sid vs)
        else filter (carries sid) (messages rc) = [])"

lemma replays_emit:
  assumes "replays env sid vs rc" "segment_event env sid v = None" "messages rc' = messages rc @ ms" "filter (carries sid) ms = []"
    "provider_segments rc' = provider_segments rc" "replayed_segment_ids rc' = replayed_segment_ids rc"
  shows "replays env sid (vs @ [v]) rc'"
  using assms by (simp add: replays_def replay_snoc map_filter_def)

lemma push_result_shape:
  "\<exists>ms. messages (push_result i t rc) = messages rc @ ms \<and> filter (carries sid) ms = []"
  "provider_segments (push_result i t rc) = provider_segments rc"
  "replayed_segment_ids (push_result i t rc) = replayed_segment_ids rc"
  by (auto simp: push_result_def emit_def Let_def)

lemma push_user_shape: "\<exists>c n. push_user env v rc = emit (UserMessage c n) rc"
  by (auto simp: push_user_def Let_def split: option.split)

lemma apply_update_active: "apply_update m u = (m', Inr x) \<Longrightarrow> outcome (segment m) = Active"
  by (auto simp: apply_update_def split: if_splits)

lemma apply_update_id: "apply_update m u = (m', Inr x) \<Longrightarrow> segment_id (segment m) = Some s \<Longrightarrow> segment_id (segment m') = Some s"
  by (auto simp: apply_update_def apply_sequenced_def Let_def split: if_splits option.splits sum.splits prod.splits)

lemma close_ok: "close m out = (m', Inr x) \<Longrightarrow> outcome (segment m) = Active \<and> m' = m\<lparr>segment := (segment m)\<lparr>outcome := out\<rparr>\<rparr>"
  by (auto simp: close_def split: if_splits option.splits)

lemma replayed_segment_snd:
  "replays env sid vs rc \<Longrightarrow> snd (replayed_segment sid (provider_segments rc)) = replay env sid vs"
  by (auto simp: replayed_segment_def replays_def replay_def split: option.split if_splits)


lemma replays_update:
  assumes r: "replays env sid vs rc" and p: "push_provider_update env i v rc = Inr rc'"
    and role: "as_str (json_index v ''role'') = Some ''provider_update''"
  shows "replays env sid (vs @ [v]) rc'"
proof -
  obtain u m' where u: "de_update env v = Inr u"
    and a: "apply_update (snd (replayed_segment (upd_segment_id u) (provider_segments rc))) u = (m', Inr ())"
    and rc': "rc' = rc\<lparr>provider_segments := store_segment (upd_segment_id u) m' (provider_segments rc)\<rparr>"
    using p by (auto simp: push_provider_update_def store_segment_def split: sum.splits prod.splits)
  let ?s = "upd_segment_id u"
  have id: "segment_id (segment (snd (replayed_segment ?s (provider_segments rc)))) = Some ?s"
    using find_Some_iff [of "has_segment ?s"] by (auto simp: replayed_segment_def has_segment_def split: option.split)
  have h: "has_segment ?s m'" using apply_update_id [OF a id] by (simp add: has_segment_def)
  have ok: "segments_ok (provider_segments rc')" using segments_ok_store [OF _ h] r by (simp add: rc' replays_def)
  show ?thesis
  proof (cases "?s = sid")
    case False
    then have "segment_event env sid v = None" using role u by (simp add: segment_event_def)
    then show ?thesis using r ok False by (simp add: replays_def replay_snoc map_filter_def rc' find_store [OF h])
  next
    case True
    then have e: "segment_event env sid v = Some (Update u)" using role u by (simp add: segment_event_def)
    have m: "m' = mat_step (replay env sid vs) (Update u)" and act: "outcome (segment (replay env sid vs)) = Active"
      using a apply_update_active [OF a] unfolding True replayed_segment_snd [OF r] by simp_all
    have n: "sid \<notin> replayed_segment_ids rc" using r act by (simp add: replays_def split: if_splits)
    have k: "replay env sid (vs @ [v]) = m'" by (simp add: replay_snoc e m)
    show ?thesis using ok r n h unfolding replays_def k
      by (simp add: e map_filter_def rc' find_store [OF h [unfolded True]] True) (simp add: has_segment_def)
  qed
qed

lemma replays_close:
  assumes r: "replays env sid vs rc" and p: "push_provider_close env i v rc = Inr rc'"
    and role: "as_str (json_index v ''role'') = Some ''provider_segment_close''"
    and fin: "de_close env v \<noteq> Inr (sid, Active)"
  shows "replays env sid (vs @ [v]) rc'"
proof -
  obtain s out m' where u: "de_close env v = Inr (s, out)"
    and a: "close (snd (replayed_segment s (provider_segments rc))) out = (m', Inr ())"
    and rc': "rc' = flush_replayed_segment env s (rc\<lparr>provider_segments := store_segment s m' (provider_segments rc)\<rparr>)"
    using p by (auto simp: push_provider_close_def store_segment_def split: sum.splits prod.splits)
  have id: "segment_id (segment (snd (replayed_segment s (provider_segments rc)))) = Some s"
    using find_Some_iff [of "has_segment s"] by (auto simp: replayed_segment_def has_segment_def split: option.split)
  have h: "has_segment s m'" using close_ok [OF a] id by (simp add: has_segment_def)
  have ok: "segments_ok (store_segment s m' (provider_segments rc))" using segments_ok_store [OF _ h] r by (simp add: replays_def)
  have fl: "rc' = (case replayed_assistant_message env m' (replayed_segment_ids rc) of
      None \<Rightarrow> rc\<lparr>provider_segments := store_segment s m' (provider_segments rc)\<rparr>
    | Some msg \<Rightarrow> emit msg (rc\<lparr>provider_segments := store_segment s m' (provider_segments rc), replayed_segment_ids := insert s (replayed_segment_ids rc)\<rparr>))"
    unfolding rc' flush_replayed_segment_def using find_store [OF h, of s]
    by (simp add: emit_def split: option.split)
  show ?thesis
  proof (cases "s = sid")
    case False
    then have e: "segment_event env sid v = None" using role u by (simp add: segment_event_def)
    have "\<not> carries sid msg" if "replayed_assistant_message env m' x = Some msg" for msg x
      using that h False by (auto simp: replayed_assistant_message_def has_segment_def split: if_splits)
    then show ?thesis using r ok False e
      by (auto simp add: replays_def replay_snoc map_filter_def fl find_store [OF h] emit_def split: option.split)
  next
    case True
    then have e: "segment_event env sid v = Some (Close out)" using role u by (simp add: segment_event_def)
    have m: "m' = mat_step (replay env sid vs) (Close out)" and act: "outcome (segment (replay env sid vs)) = Active"
      using a close_ok [OF a] unfolding True replayed_segment_snd [OF r] by simp_all
    have c: "outcome (segment m') \<noteq> Active" using close_ok [OF a] fin u True by auto
    have n: "sid \<notin> replayed_segment_ids rc" using r act by (simp add: replays_def split: if_splits)
    have k: "replay env sid (vs @ [v]) = m'" by (simp add: replay_snoc e m)
    show ?thesis using ok r n h c unfolding replays_def k
      by (auto simp add: e map_filter_def fl find_store [OF h [unfolded True]] True h [unfolded True has_segment_def] emit_def replayed_assistant_message_def segment_message_def split: option.split)
  qed
qed

lemma push_lifecycle_result:
  "push_tool_lifecycle env i v rc = Inr rc' \<Longrightarrow> rc' = rc \<or> (\<exists>c t. rc' = push_result c t rc)"
  by (auto simp: push_tool_lifecycle_def split: sum.splits option.splits)

lemma push_other:
  assumes p: "push env (i, v) rc = Inr rc'"
    and o: "as_str (json_index v ''role'') \<noteq> Some ''provider_update''" "as_str (json_index v ''role'') \<noteq> Some ''provider_segment_close''"
  shows "(rc' = rc \<or> (\<exists>x. rc' = emit (SystemMessage x) rc) \<or> (\<exists>c n. rc' = emit (UserMessage c n) rc))
    \<or> (\<exists>c t. rc' = push_result c t rc) \<or> push_assistant env i v rc = Inr rc' \<and> as_str (json_index v ''role'') = Some ''assistant''"
proof (cases "as_str (json_index v ''role'')")
  case None
  then show ?thesis using p by (simp add: push_def)
next
  case (Some role)
  consider "role = ''system''" | "role = ''user''" | "role = ''assistant''" | "role = ''tool''" | "role = ''tool_lifecycle''"
    | "role = ''notice''" | "role = ''checkpoint''"
    using p o Some unfolding push_def prod.case by (auto split: if_splits)
  then show ?thesis
    using p Some push_user_shape [of env v rc] push_lifecycle_result [of env i v rc rc'] unfolding push_def prod.case push_tool_def
    by cases (simp_all only: option.case if_True if_False refl HOL.simp_thms, simp_all, blast+)
qed

lemma replays_push:
  assumes r: "replays env sid vs rc" and p: "push env (i, v) rc = Inr rc'"
    and a: "as_str (json_index v ''role'') = Some ''assistant'' \<Longrightarrow> Option.bind (json_get v ''segmentId'') as_str \<noteq> Some sid"
    and fin: "de_close env v \<noteq> Inr (sid, Active)"
  shows "replays env sid (vs @ [v]) rc'"
proof (cases "as_str (json_index v ''role'') \<in> {Some ''provider_update'', Some ''provider_segment_close''}")
  case True
  then show ?thesis using replays_update [OF r] replays_close [OF r] p fin by (auto simp: push_def)
next
  case False
  then have e: "segment_event env sid v = None" by (auto simp: segment_event_def)
  have "\<exists>ms. messages rc' = messages rc @ ms \<and> filter (carries sid) ms = [] \<and> provider_segments rc' = provider_segments rc
      \<and> replayed_segment_ids rc' = replayed_segment_ids rc"
  proof -
    have res: ?thesis if "\<exists>c t. rc' = push_result c t rc"
      using that push_result_shape [where rc = rc] by auto
    have ass: ?thesis if pa: "push_assistant env i v rc = Inr rc'" and ar: "as_str (json_index v ''role'') = Some ''assistant''"
    proof -
      obtain x cs rr its where rc': "rc' = emit (AssistantMessage x cs rr its (Option.bind (json_get v ''segmentId'') as_str))
         (rc\<lparr>pending_tool_call_ids := pending_tool_call_ids rc \<union> call_id ` set cs\<rparr>)"
        using push_assistant_shape [OF pa] by blast
      have nc: "\<not> carries sid (AssistantMessage x cs rr its (Option.bind (json_get v ''segmentId'') as_str))"
        using a [OF ar] by (cases "Option.bind (json_get v ''segmentId'') as_str") simp_all
      show ?thesis unfolding rc' using nc by (simp add: emit_def)
    qed
    have plain: ?thesis if "rc' = rc \<or> (\<exists>x. rc' = emit (SystemMessage x) rc) \<or> (\<exists>c n. rc' = emit (UserMessage c n) rc)"
      using that by (auto simp: emit_def)
    have "as_str (json_index v ''role'') \<noteq> Some ''provider_update''" "as_str (json_index v ''role'') \<noteq> Some ''provider_segment_close''"
      using False by simp_all
    from push_other [OF p this] res ass plain show ?thesis by blast
  qed
  then show ?thesis using replays_emit [OF r e] by blast
qed


lemma replays_push_all:
  assumes "replays env sid vs rc" "push_all env xs rc = Inr rc'"
    "\<forall>v \<in> snd ` set xs. (as_str (json_index v ''role'') = Some ''assistant'' \<longrightarrow> Option.bind (json_get v ''segmentId'') as_str \<noteq> Some sid)
      \<and> de_close env v \<noteq> Inr (sid, Active)"
  shows "replays env sid (vs @ map snd xs) rc'"
  using assms
proof (induction xs arbitrary: vs rc)
  case (Cons x xs)
  obtain i v where x: "x = (i, v)" by (cases x)
  obtain rc1 where p: "push env (i, v) rc = Inr rc1" "push_all env xs rc1 = Inr rc'" using Cons.prems(2) by (auto simp: x split: sum.splits)
  have "replays env sid (vs @ [v]) rc1" by (rule replays_push [OF Cons.prems(1) p(1)]) (use Cons.prems(3) in \<open>auto simp: x\<close>)
  from Cons.IH [OF this p(2)] Cons.prems(3) show ?case by (simp add: x)
qed simp

lemma carries_append_replayed:
  assumes "segments_ok ms"
  shows "filter (carries sid) (append_replayed env ms replayed msgs) = filter (carries sid) msgs @
    (case find (has_segment sid) ms of None \<Rightarrow> [] | Some m \<Rightarrow> if sid \<in> replayed then [] else segment_message env m)"
  using assms
proof (induction env ms replayed msgs rule: append_replayed.induct)
  case (2 env m ms replayed msgs)
  obtain s where s: "segment_id (segment m) = Some s" using 2(3) by (auto simp: segments_ok_def)
  have ok: "segments_ok ms" using 2(3) by (auto simp: segments_ok_def)
  have hs: "has_segment sid m \<longleftrightarrow> s = sid" using s by (simp add: has_segment_def)
  have n: "find (has_segment s) ms = None" unfolding find_none_iff using 2(3) s by (auto simp: segments_ok_def)
  show ?case
  proof (cases "replayed_assistant_message env m replayed")
    case None
    have "filter (carries sid) (append_replayed env ms replayed msgs) = filter (carries sid) msgs @
        (case find (has_segment sid) ms of None \<Rightarrow> [] | Some m \<Rightarrow> if sid \<in> replayed then [] else segment_message env m)"
      by (rule 2(1) [OF None ok])
    then show ?thesis using None s n
      by (auto simp: hs replayed_assistant_message_def segment_message_def split: if_splits)
  next
    case (Some msg)
    have m: "segment_message env m = [msg]" "s \<notin> replayed" "carries sid msg \<longleftrightarrow> s = sid"
      using Some s by (auto simp: replayed_assistant_message_def segment_message_def split: if_splits)
    have "filter (carries sid) (append_replayed env ms (insert s replayed) (msgs @ [msg])) = filter (carries sid) (msgs @ [msg]) @
        (case find (has_segment sid) ms of None \<Rightarrow> [] | Some m \<Rightarrow> if sid \<in> insert s replayed then [] else segment_message env m)"
      using 2(2) [OF Some ok] unfolding s option.case .
    then show ?thesis using Some s n m by (auto simp: hs split: option.split)
  qed
qed simp

lemma carries_fill: "filter (carries sid) (fill known ms) = filter (carries sid) ms"
  by (induction known ms rule: fill.induct) (simp_all add: Let_def aborted_def filter_map comp_def)

lemma rposition_Some: "rposition P xs = Some c \<Longrightarrow> c < length xs \<and> P (xs ! c)"
proof -
  assume a: "rposition P xs = Some c"
  then obtain x where f: "find (\<lambda>(i, x). P x) (rev (enumerate 0 xs)) = Some (c, x)" by (auto simp: rposition_def)
  then have "(c, x) \<in> set (rev (enumerate 0 xs))" "P x" by (auto simp: find_Some_iff) (metis length_rev nth_mem set_rev length_enumerate)
  then show ?thesis by (auto simp: in_set_enumerate_eq)
qed

lemma values_enumerate: "snd ` set (enumerate k xs) = set xs"
  by (metis list.set_map map_snd_enumerate)

lemma ordered_values_subset: "snd ` set (ordered_values vs) \<subseteq> set vs"
proof (cases "rposition is_checkpoint vs")
  case None
  then show ?thesis by (simp add: ordered_values_def values_enumerate)
next
  case (Some c)
  have f: "snd ` set (filter Q (enumerate k xs)) \<subseteq> set xs" for Q k and xs :: "json list"
    using values_enumerate [of k xs] by auto
  have t: "set (drop j (take c vs)) \<subseteq> set vs" for j by (meson order_trans set_drop_subset set_take_subset)
  have c: "vs ! c \<in> set vs" using rposition_Some [OF Some] by simp
  show ?thesis
    unfolding ordered_values_def Some option.case Let_def list.set set_append image_insert image_Un snd_conv values_enumerate
    using c set_drop_subset [of "c + 1" vs] order_trans [OF f t] by blast
qed

text \<open>
  C17. A segment whose run was cut off before its assistant record was written is replayed from
  its journalled updates: exactly one assistant message carries it, holding the items, text,
  reasoning and calls the live materializer had reached, and none does when it had no item.
\<close>

theorem interrupted_segment_replayed_once:
  assumes "values_to_chat_messages_inner env vs filt = Inr ms" "sid \<notin> assistant_segment_ids vs"
    "\<forall>v \<in> set vs. de_close env v \<noteq> Inr (sid, Active)"
  shows "filter (carries sid) ms = segment_message env (replay env sid (map snd (ordered_values vs)))"
proof -
  obtain rc where p: "push_all env (ordered_values vs) (reconstruction_new filt (assistant_segment_ids vs)) = Inr rc"
    and ms: "ms = finish env rc"
    using assms(1) by (auto simp: values_to_chat_messages_inner_def split: sum.splits)
  have init: "replays env sid [] (reconstruction_new filt (assistant_segment_ids vs))"
    using assms(2) by (simp add: replays_def reconstruction_new_def segments_ok_def replay_def)
  have "as_str (json_index v ''role'') = Some ''assistant'' \<longrightarrow> Option.bind (json_get v ''segmentId'') as_str \<noteq> Some sid"
    if "v \<in> set vs" for v
    using assms(2) that by (force simp: assistant_segment_ids_def map_filter_def image_iff)
  then have "replays env sid ([] @ map snd (ordered_values vs)) rc"
    using ordered_values_subset [of vs] assms(3) by (intro replays_push_all [OF init p]) blast
  then have r: "replays env sid (map snd (ordered_values vs)) rc" by simp
  then have ok: "segments_ok (provider_segments rc)" by (simp add: replays_def)
  have e: "List.map_filter (segment_event env sid) (map snd (ordered_values vs)) = [] \<Longrightarrow> replay env sid (map snd (ordered_values vs)) = materializer_new sid"
    by (simp add: replay_def)
  show ?thesis
    unfolding ms finish_def ensure_fill carries_fill carries_append_replayed [OF ok] using r e
    by (auto simp: replays_def segment_message_def split: if_splits)
qed

section \<open>A concrete history\<close>

text \<open>A run cut off inside a tool call: one started call and the close of its segment.\<close>

definition demo_env :: history_env where
  "demo_env = \<lparr>de_lifecycle = (\<lambda>_. Inl ''no lifecycle''), de_json = (\<lambda>_. Inl ''no value''), de_item = (\<lambda>_. Inl ''no item''),
     de_update = (\<lambda>_. Inr (sample_update ''call_1'' 0 1 (FunctionCallStart ''search''))),
     de_close = (\<lambda>_. Inr (''seg'', TransportError)), print_json = (\<lambda>_. []), env_data_dir = ''/data''\<rparr>"

definition demo_interrupted :: "json list" where
  "demo_interrupted = [JObject [(''role'', JString ''user''), (''content'', JString ''hi'')],
     JObject [(''role'', JString ''provider_update''), (''segmentId'', JString ''seg'')],
     JObject [(''role'', JString ''provider_segment_close''), (''segmentId'', JString ''seg'')]]"

definition demo_result :: json where
  "demo_result = JObject [(''role'', JString ''tool''), (''tool_call_id'', JString ''call_1''), (''content'', JString ''found'')]"

definition demo_call :: chat_message where
  "demo_call = AssistantMessage None [\<lparr>call_id = ''call_1'', call_name = ''search'', call_arguments = JObject [],
       argument_diagnostic = Some \<lparr>diag_source = EmptyString, raw_len = Some 0, raw_preview = Some [], parse_error = None\<rparr>\<rparr>]
     None [\<lparr>item_id = ''call_1'', item_position = 0, item_payload = FunctionCall ''call_1'' ''search'' []\<rparr>] (Some ''seg'')"

definition demo_messages :: "chat_message list" where
  "demo_messages = [UserMessage (UserText ''hi'') None, demo_call, ToolMessage ''call_1'' ''aborted'']"

lemma demo_converts: "values_to_chat_messages demo_env demo_interrupted = Inr demo_messages"
  by code_simp

theorem conversation_well_formed_witness:
  "calls demo_messages = {''call_1''} \<and> well_answered demo_messages \<and> well_called demo_messages"
  using conversation_well_formed [OF demo_converts] by (simp add: demo_messages_def demo_call_def item_call_ids_def map_filter_def)

theorem interrupted_segment_replayed_once_witness:
  "filter (carries ''seg'') demo_messages = segment_message demo_env (replay demo_env ''seg'' (map snd (ordered_values demo_interrupted)))
   \<and> segment_message demo_env (replay demo_env ''seg'' (map snd (ordered_values demo_interrupted))) = [demo_call]"
proof
  have "''seg'' \<notin> assistant_segment_ids demo_interrupted" by code_simp
  from interrupted_segment_replayed_once [OF demo_converts [unfolded values_to_chat_messages_def] this]
  show "filter (carries ''seg'') demo_messages = segment_message demo_env (replay demo_env ''seg'' (map snd (ordered_values demo_interrupted)))"
    by (simp add: demo_env_def)
  show "segment_message demo_env (replay demo_env ''seg'' (map snd (ordered_values demo_interrupted))) = [demo_call]" by code_simp
qed

text \<open>
  The replayed calls are not among the calls awaiting a result, so a result recorded after the
  close of such a segment is dropped as an orphan and the call is reported aborted.
\<close>

lemma replayed_result_lost:
  "values_to_chat_messages demo_env (demo_interrupted @ [demo_result]) = Inr demo_messages"
  "provider_values_to_chat_messages demo_env (demo_interrupted @ [demo_result])
     = Inr [UserMessage (UserText ''hi'') None, demo_call, ToolMessage ''call_1'' ''found'']"
  by code_simp+

end
