(* ===== verification/Journal_Reads.thy ===== *)
theory Journal_Reads
  imports Session_Journal
begin

text \<open>
  Reading the journal (\<open>crates/sessions/src/journal.rs\<close>): pages of rows, the records that are
  active after the last checkpoint, the tools made visible, and the searches backwards. Every
  paging loop is shown to be the plain selection it pages through.
\<close>

section \<open>Ranges in pages\<close>

definition PAGE :: nat where
  "PAGE = 64"

definition page_after :: "bool \<Rightarrow> nat \<Rightarrow> int \<Rightarrow> record_row list \<Rightarrow> record_row list" where
  "page_after skip_checkpoints e cursor rs = take PAGE (sort_key record_index (filter
     (\<lambda>r. cursor < int (record_index r) \<and> record_index r < e \<and> (skip_checkpoints \<longrightarrow> record_role r \<noteq> ''checkpoint'')) rs))"

lemma last_page_after:
  assumes "page_after skip e cursor rs \<noteq> []"
  shows "cursor < int (record_index (last (page_after skip e cursor rs)))" "record_index (last (page_after skip e cursor rs)) < e"
proof -
  have "last (page_after skip e cursor rs) \<in> set (page_after skip e cursor rs)" using assms by simp
  then show "cursor < int (record_index (last (page_after skip e cursor rs)))" "record_index (last (page_after skip e cursor rs)) < e"
    by (auto simp: page_after_def dest!: in_set_takeD)
qed

function stream_loop :: "bool \<Rightarrow> nat \<Rightarrow> int \<Rightarrow> record_row list \<Rightarrow> (nat \<times> json) list" where
  "stream_loop skip_checkpoints e cursor rs =
     (let page = page_after skip_checkpoints e cursor rs in
      if page = [] then []
      else map (\<lambda>r. (record_index r, payload r)) page
        @ (if length page < PAGE then [] else stream_loop skip_checkpoints e (int (record_index (last page))) rs))"
  by pat_completeness auto
termination
  by (relation "measure (\<lambda>(skip, e, cursor, rs). nat (int e - cursor))") (use last_page_after in \<open>force+\<close>)

declare stream_loop.simps [simp del]

definition stream_range :: "nat \<Rightarrow> nat \<Rightarrow> bool \<Rightarrow> session_tables \<Rightarrow> journal_error + (nat \<times> json) list" where
  "stream_range start e skip_checkpoints t =
     (if e \<le> start then Inr []
      else case as_i64 start of
        Inl x \<Rightarrow> Inl x
      | Inr _ \<Rightarrow> (case as_i64 e of Inl x \<Rightarrow> Inl x | Inr _ \<Rightarrow> Inr (stream_loop skip_checkpoints e (int start - 1) (session_records t))))"

lemma strict_last: "sorted_wrt (\<lambda>x y. f x < (f y :: 'b :: linorder)) xs \<Longrightarrow> x \<in> set xs \<Longrightarrow> f x \<le> f (last xs)"
  by (induction xs rule: rev_induct) (auto simp: sorted_wrt_append less_imp_le)

lemma drop_after_last:
  assumes "sorted_wrt (\<lambda>x y. f x < (f y :: 'b :: linorder)) xs" "0 < n" "n \<le> length xs"
  shows "drop n xs = filter (\<lambda>x. f (last (take n xs)) < f x) xs"
proof -
  have s: "sorted_wrt (\<lambda>x y. f x < f y) (take n xs @ drop n xs)" using assms(1) by simp
  have ne: "take n xs \<noteq> []" using assms(2,3) by auto
  have "\<not> f (last (take n xs)) < f x" if "x \<in> set (take n xs)" for x
    using strict_last [OF _ that, of f] s [unfolded sorted_wrt_append] by (simp add: not_less)
  moreover have "f (last (take n xs)) < f x" if "x \<in> set (drop n xs)" for x
    using s [unfolded sorted_wrt_append] that last_in_set [OF ne] by blast
  ultimately have "filter (\<lambda>x. f (last (take n xs)) < f x) (take n xs @ drop n xs) = drop n xs"
    by (simp only: filter_append) (simp add: filter_empty_conv filter_id_conv)
  then show ?thesis by simp
qed

text \<open>The rows with an index after \<open>c\<close> and before \<open>e\<close>.\<close>

definition between :: "bool \<Rightarrow> nat \<Rightarrow> int \<Rightarrow> record_row list \<Rightarrow> record_row list" where
  "between skip e c rs = filter (\<lambda>r. c < int (record_index r) \<and> record_index r < e \<and> (skip \<longrightarrow> record_role r \<noteq> ''checkpoint'')) rs"

definition in_order :: "record_row list \<Rightarrow> bool" where
  "in_order rs \<longleftrightarrow> sorted_wrt (\<lambda>x y. record_index x < record_index y) rs"

lemma page_between:
  assumes "in_order rs"
  shows "page_after skip e c rs = take PAGE (between skip e c rs)"
proof -
  have "sorted (map record_index (between skip e c rs))"
    using assms by (auto simp: in_order_def between_def sorted_wrt_map intro!: sorted_wrt_filter elim!: sorted_wrt_mono_rel [rotated])
  then show ?thesis by (simp add: page_after_def between_def [symmetric] sort_key_id_if_sorted)
qed

lemma between_rest:
  assumes "in_order rs" "PAGE \<le> length (between skip e c rs)"
  shows "drop PAGE (between skip e c rs) = between skip e (int (record_index (last (take PAGE (between skip e c rs))))) rs"
proof -
  have "sorted_wrt (\<lambda>x y. record_index x < record_index y) (between skip e c rs)"
    using assms(1) by (simp add: between_def in_order_def sorted_wrt_filter)
  from drop_after_last [OF this _ assms(2)]
  have d: "drop PAGE (between skip e c rs)
      = filter (\<lambda>r. record_index (last (take PAGE (between skip e c rs))) < record_index r) (between skip e c rs)"
    by (simp add: PAGE_def)
  have "take PAGE (between skip e c rs) \<noteq> []" using assms(2) by (auto simp: PAGE_def)
  then have "last (take PAGE (between skip e c rs)) \<in> set (between skip e c rs)" by (meson in_set_takeD last_in_set)
  then have "c < int (record_index (last (take PAGE (between skip e c rs))))" by (simp add: between_def)
  then show ?thesis unfolding d unfolding between_def [of _ _ "int _"] by (auto simp: between_def intro!: filter_cong)
qed

lemma stream_loop_between:
  "in_order rs \<Longrightarrow> stream_loop skip e c rs = map (\<lambda>r. (record_index r, payload r)) (between skip e c rs)"
proof (induction skip e c rs rule: stream_loop.induct)
  case (1 skip e c rs)
  let ?B = "between skip e c rs"
  have page: "page_after skip e c rs = take PAGE ?B" by (rule page_between [OF 1(2)])
  show ?case
  proof (cases "length ?B < PAGE")
    case True
    then show ?thesis by (subst stream_loop.simps) (simp add: page Let_def)
  next
    case False
    then have "take PAGE ?B \<noteq> []" by (auto simp: PAGE_def)
    then have "stream_loop skip e c rs = map (\<lambda>r. (record_index r, payload r)) (take PAGE ?B @ drop PAGE ?B)"
      using 1(1) [OF refl, unfolded page] 1(2) False between_rest [OF 1(2), of skip e c]
      by (subst stream_loop.simps) (simp add: page Let_def)
    then show ?thesis by simp
  qed
qed

lemma fills_in_order: "fills dec t vs \<Longrightarrow> in_order (session_records t)"
proof -
  have "in_order (map row_of (enumerate 0 vs))"
    by (induction vs rule: rev_induct)
      (auto simp: in_order_def enumerate_snoc sorted_wrt_append row_of_def dest: enumerate_below)
  then show "fills dec t vs \<Longrightarrow> in_order (session_records t)" by (simp add: fills_def)
qed

text \<open>On the tables of a history: the values of the range with their indices.\<close>

definition range_of :: "nat \<Rightarrow> nat \<Rightarrow> bool \<Rightarrow> json list \<Rightarrow> (nat \<times> json) list" where
  "range_of start e skip vs = filter (\<lambda>(i, v). start \<le> i \<and> i < e \<and> (skip \<longrightarrow> stored_role v \<noteq> ''checkpoint'')) (enumerate 0 vs)"

lemma stream_range_fills:
  assumes "fills dec t vs"
  shows "stream_range start e skip t = (if e \<le> start then Inr []
    else if 2 ^ 63 \<le> start \<or> 2 ^ 63 \<le> e then Inl (JournalMessage ''out of range integral type conversion attempted'')
    else Inr (range_of start e skip vs))"
proof -
  have "map (\<lambda>r. (record_index r, payload r)) (between skip e (int start - 1) (map row_of xs))
      = filter (\<lambda>(i, v). start \<le> i \<and> i < e \<and> (skip \<longrightarrow> stored_role v \<noteq> ''checkpoint'')) xs" for xs
    by (induction xs) (auto simp: between_def row_of_def)
  then show ?thesis
    using stream_loop_between [OF fills_in_order [OF assms]] assms
    by (simp add: stream_range_def as_i64_def fills_def range_of_def)
qed

lemma range_empty: "e \<le> start \<Longrightarrow> range_of start e skip vs = []"
  by (auto simp: range_of_def filter_empty_conv)

lemma stream_range_ok:
  "fills dec t vs \<Longrightarrow> start < 2 ^ 63 \<Longrightarrow> e < 2 ^ 63 \<Longrightarrow> stream_range start e skip t = Inr (range_of start e skip vs)"
  using range_empty [of e start skip vs] by (auto simp: stream_range_fills)

section \<open>Simple reads\<close>

definition read_range :: "nat \<Rightarrow> nat \<Rightarrow> session_tables \<Rightarrow> journal_error + json list" where
  "read_range start e t = (case stream_range start e False t of Inl x \<Rightarrow> Inl x | Inr rs \<Rightarrow> Inr (map snd rs))"

definition read_last_n :: "string \<Rightarrow> nat \<Rightarrow> session_tables \<Rightarrow> journal_error + json list" where
  "read_last_n key n t =
     (if n = 0 then Inr []
      else case pointers key t of Inl x \<Rightarrow> Inl x | Inr p \<Rightarrow> read_range (canonical_tail p - n) (canonical_tail p) t)"

definition max_role_index :: "string \<Rightarrow> session_tables \<Rightarrow> nat option" where
  "max_role_index role t = max_index (rows_with role (session_records t))"

definition child_suffix :: "string \<Rightarrow> session_tables \<Rightarrow> journal_error + json list" where
  "child_suffix key t = (case pointers key t of
     Inl x \<Rightarrow> Inl x
   | Inr p \<Rightarrow>
       (case (max_role_index ''user'' t, max_role_index ''assistant'' t) of
          (Some u, Some a) \<Rightarrow> read_range (min u a) (canonical_tail p) t
        | (Some i, None) \<Rightarrow> read_range i (canonical_tail p) t
        | (None, Some i) \<Rightarrow> read_range i (canonical_tail p) t
        | (None, None) \<Rightarrow> Inr []))"

definition latest_user_before :: "nat \<Rightarrow> session_tables \<Rightarrow> journal_error + nat option" where
  "latest_user_before b t = (case as_i64 b of
     Inl x \<Rightarrow> Inl x | Inr _ \<Rightarrow> Inr (max_index (filter (\<lambda>i. i < b) (rows_with ''user'' (session_records t)))))"

definition assistant_payloads :: "session_tables \<Rightarrow> json list" where
  "assistant_payloads t = map payload (sort_key record_index (filter (\<lambda>r. record_role r = ''assistant'') (session_records t)))"

definition visible_tool_names :: "('a :: type) json_decoders_scheme \<Rightarrow> string \<Rightarrow> session_tables \<Rightarrow> journal_error + string set" where
  "visible_tool_names dec key t = (case pointers key t of
     Inl x \<Rightarrow> Inl x
   | Inr p \<Rightarrow>
       (let tail = canonical_tail p in
        case as_i64 tail of
          Inl x \<Rightarrow> Inl x
        | Inr _ \<Rightarrow>
            (case min_index (filter (\<lambda>i. i < tail) (disclosure_errors t)) of
               Some i \<Rightarrow>
                 (case required_payload i t of
                    Inl x \<Rightarrow> Inl x
                  | Inr v \<Rightarrow>
                      (case record_disclosure dec v of
                         Inl e \<Rightarrow> Inl (JournalMessage e)
                       | Inr _ \<Rightarrow> Inl (JournalMessage (''session '' @ key @ '' disclosure error at record '' @ show_nat i @ '' decoded successfully''))))
             | None \<Rightarrow> Inr (fst ` set (filter (\<lambda>(_, i). i < tail) (tool_disclosures t))))))"

lemma range_all: "range_of 0 (length vs) False vs = enumerate 0 vs"
  by (auto simp: range_of_def filter_id_conv dest: enumerate_below)

lemma range_snd: "map snd (range_of start e False vs) = drop start (take e vs)"
proof (induction vs rule: rev_induct)
  case (snoc v vs)
  then show ?case by (auto simp: range_of_def enumerate_snoc)
qed (simp add: range_of_def)

lemma read_range_fills:
  "fills dec t vs \<Longrightarrow> start \<le> e \<Longrightarrow> e \<le> length vs \<Longrightarrow> e < 2 ^ 63 \<Longrightarrow> read_range start e t = Inr (drop start (take e vs))"
  by (auto simp: read_range_def stream_range_fills range_snd)

lemma read_last_fills:
  assumes "represents dec t (Some vs)" "length vs < 2 ^ 63"
  shows "read_last_n key n t = Inr (drop (length vs - n) vs)"
  using assms read_range_fills [of dec t vs "length vs - n" "length vs"]
  by (auto simp: read_last_n_def pointers_def represents_def pointers_of_def)

lemma disclosures_names: "fst ` set (disclosures_of dec vs) = (\<Union>v \<in> set vs. set (names_of dec v))"
proof (induction vs rule: rev_induct)
  case (snoc v vs)
  have "fst ` set (fold (insert_disclosure i) ns ds) = fst ` set ds \<union> set ns" for i ns ds
    by (induction ns arbitrary: ds) (auto simp: insert_disclosure_def)
  then show ?case using snoc by (auto simp: disclosures_snoc)
qed (simp add: disclosures_of_def)

text \<open>
  C29. The tools a session may use are those its history discloses: every name called directly
  by an assistant record or revealed by the control tool, whatever the order, and never the
  control tool itself. One undecodable record makes the question fail.
\<close>

theorem visible_tools_disclosed:
  assumes "represents dec t (Some vs)" "length vs < 2 ^ 63"
  shows "if \<exists>v \<in> set vs. isl (record_disclosure dec v) then isl (visible_tool_names dec key t)
    else visible_tool_names dec key t = Inr (\<Union>v \<in> set vs. set (names_of dec v))
      \<and> GET_TOOL_NAME \<notin> (\<Union>v \<in> set vs. set (names_of dec v))"
proof -
  have t: "journal_row t = Some (pointers_of vs)" "fills dec t vs" using assms(1) by (simp_all add: represents_def)
  have errs: "filter (\<lambda>i. i < length vs) (disclosure_errors t) = errors_of dec vs"
    using t(2) errors_below by (fastforce simp: fills_def filter_id_conv)
  have names: "fst ` set (filter (\<lambda>(_, i). i < length vs) (tool_disclosures t)) = (\<Union>v \<in> set vs. set (names_of dec v))"
    using t(2) disclosures_take [of "length vs" dec vs] by (simp add: fills_def disclosures_names)
  have bad: "errors_of dec vs = [] \<longleftrightarrow> \<not> (\<exists>v \<in> set vs. isl (record_disclosure dec v))"
  proof -
    have "errors_of dec vs = [] \<longleftrightarrow> (\<forall>v \<in> snd ` set (enumerate 0 vs). \<not> isl (record_disclosure dec v))"
      by (auto simp: errors_of_def filter_empty_conv)
    also have "snd ` set (enumerate 0 vs) = set (map snd (enumerate 0 vs))" by (simp only: set_map)
    finally show ?thesis by simp
  qed
  have "GET_TOOL_NAME \<notin> set (names_of dec v)" for v
    using get_tool_hidden [of dec v] by (auto simp: names_of_def split: sum.splits)
  then have hidden: "GET_TOOL_NAME \<notin> (\<Union>v \<in> set vs. set (names_of dec v))" by simp
  show ?thesis
  proof (cases "errors_of dec vs = []")
    case True
    then have "visible_tool_names dec key t = Inr (\<Union>v \<in> set vs. set (names_of dec v))"
      using assms(2) names errs by (simp add: visible_tool_names_def pointers_def t(1) pointers_of_def as_i64_def min_index_def)
    then show ?thesis using True bad hidden by simp
  next
    case False
    then have "isl (visible_tool_names dec key t)"
      using assms(2) errs by (auto simp: visible_tool_names_def pointers_def t(1) pointers_of_def as_i64_def min_index_def split: sum.split)
    then show ?thesis using False bad by simp
  qed
qed

definition demo_call :: json where
  "demo_call = JObject [(''role'', JString ''assistant''),
     (''tool_calls'', JArray [JObject [(''function'', JObject [(''name'', JString ''ls'')])]])]"

definition demo_tables :: session_tables where
  "demo_tables = \<lparr>journal_row = Some \<lparr>canonical_tail = 1, last_checkpoint_index = None, first_user_index = None\<rparr>,
     session_records = [\<lparr>record_index = 0, record_role = ''assistant'', payload = demo_call\<rparr>],
     tool_disclosures = [(''ls'', 0)], assistant_segments = [], disclosure_errors = [], ui_total_messages = None, ui_snapshots = 0\<rparr>"

definition blind_decoders :: json_decoders where
  "blind_decoders = \<lparr>de_lifecycle = (\<lambda>_. Inl ''no lifecycle''), de_json = (\<lambda>_. Inl ''no value'')\<rparr>"

lemma demo_call_discloses: "record_disclosure blind_decoders demo_call = Inr \<lparr>disclosed_names = [''ls''], disclosed_segment = None\<rparr>"
  by (simp add: record_disclosure_def role_of_def demo_call_def collect_direct_tool_calls_def map_filter_simps disclosable_def
      GET_TOOL_NAME_def trim_def trim_start_def trim_end_def is_whitespace_def record_segment_def Let_def)

theorem visible_tools_disclosed_witness:
  "visible_tool_names blind_decoders ''s'' demo_tables = Inr {''ls''}"
proof -
  have "represents blind_decoders demo_tables (Some [demo_call])"
    by (simp add: represents_def fills_def demo_tables_def pointers_of_def indices_with_def row_of_def disclosures_of_def segments_of_def
        errors_of_def names_of_def segment_of_def demo_call_discloses insert_disclosure_def map_filter_simps max_index_def min_index_def
        stored_role_def role_of_def) (simp add: demo_call_def)
  from visible_tools_disclosed [OF this, of "''s''"] show ?thesis by (simp add: demo_call_discloses names_of_def)
qed

section \<open>Searching backwards\<close>

text \<open>The two searches page from the tail down; the first record that fits is the answer.\<close>

definition page_before :: "string \<Rightarrow> nat \<Rightarrow> record_row list \<Rightarrow> record_row list" where
  "page_before role cursor rs = take PAGE (rev (sort_key record_index (filter (\<lambda>r. record_role r = role \<and> record_index r < cursor) rs)))"

lemma last_page_before: "page_before role c rs \<noteq> [] \<Longrightarrow> record_index (last (page_before role c rs)) < c"
proof -
  assume "page_before role c rs \<noteq> []"
  then have "last (page_before role c rs) \<in> set (page_before role c rs)" by simp
  then show ?thesis by (auto simp: page_before_def dest!: in_set_takeD)
qed

function search_back :: "string \<Rightarrow> (json \<Rightarrow> bool) \<Rightarrow> nat \<Rightarrow> record_row list \<Rightarrow> nat option" where
  "search_back role fits cursor rs =
     (let page = page_before role cursor rs in
      if page = [] then None
      else (case find (\<lambda>r. fits (payload r)) page of
         Some r \<Rightarrow> Some (record_index r)
       | None \<Rightarrow> if length page < PAGE then None else search_back role fits (record_index (last page)) rs))"
  by pat_completeness auto
termination
  by (relation "measure (\<lambda>(role, fits, cursor, rs). cursor)") (use last_page_before in \<open>force+\<close>)

declare search_back.simps [simp del]

definition call_ids :: "json \<Rightarrow> string list" where
  "call_ids v = (case Option.bind (json_get v ''tool_calls'') as_array of
     None \<Rightarrow> [] | Some calls \<Rightarrow> List.map_filter (\<lambda>c. Option.bind (json_get c ''id'') as_str) calls)"

definition latest_matching_assistant :: "nat \<Rightarrow> string list \<Rightarrow> session_tables \<Rightarrow> journal_error + nat option" where
  "latest_matching_assistant tail expected t = (case as_i64 tail of
     Inl x \<Rightarrow> Inl x | Inr _ \<Rightarrow> Inr (search_back ''assistant'' (\<lambda>v. call_ids v = expected) tail (session_records t)))"

definition text_contained_by :: "string \<Rightarrow> json \<Rightarrow> bool" where
  "text_contained_by expected v = (case Option.bind (json_get v ''content'') as_str of
     Some persisted \<Rightarrow> str_contains expected persisted | None \<Rightarrow> False)"

definition latest_user_text_contained_by :: "nat \<Rightarrow> string \<Rightarrow> session_tables \<Rightarrow> journal_error + nat option" where
  "latest_user_text_contained_by tail expected t = (case as_i64 tail of
     Inl x \<Rightarrow> Inl x | Inr _ \<Rightarrow> Inr (search_back ''user'' (text_contained_by expected) tail (session_records t)))"

text \<open>The reference: the last index below the cursor whose record fits.\<close>

definition latest_index :: "string \<Rightarrow> (json \<Rightarrow> bool) \<Rightarrow> nat \<Rightarrow> record_row list \<Rightarrow> nat option" where
  "latest_index role fits c rs = map_option record_index
     (find (\<lambda>r. record_role r = role \<and> record_index r < c \<and> fits (payload r)) (rev rs))"

lemma find_filter: "find P (filter Q xs) = find (\<lambda>x. Q x \<and> P x) xs"
  by (induction xs) auto

lemma find_append: "find P (xs @ ys) = (case find P xs of Some x \<Rightarrow> Some x | None \<Rightarrow> find P ys)"
  by (induction xs) auto

lemma search_back_latest:
  "in_order rs \<Longrightarrow> search_back role fits c rs = latest_index role fits c rs"
proof (induction role fits c rs rule: search_back.induct)
  case (1 role fits c rs)
  let ?B = "rev (filter (\<lambda>r. record_role r = role \<and> record_index r < c) rs)"
  have sorted: "sorted_wrt (\<lambda>x y. record_index x < record_index y) (filter (\<lambda>r. record_role r = role \<and> record_index r < c) rs)"
    using 1(2) by (simp add: in_order_def sorted_wrt_filter)
  then have "sorted (map record_index (filter (\<lambda>r. record_role r = role \<and> record_index r < c) rs))"
    by (auto simp: sorted_wrt_map elim!: sorted_wrt_mono_rel [rotated])
  then have page: "page_before role c rs = take PAGE ?B"
    by (simp add: page_before_def sort_key_id_if_sorted)
  have ref: "latest_index role fits c rs = map_option record_index (find (\<lambda>r. fits (payload r)) ?B)"
    by (simp add: latest_index_def rev_filter find_filter conj_assoc)
  have split: "find (\<lambda>r. fits (payload r)) ?B = (case find (\<lambda>r. fits (payload r)) (take PAGE ?B) of
      Some x \<Rightarrow> Some x | None \<Rightarrow> find (\<lambda>r. fits (payload r)) (drop PAGE ?B))"
    using find_append [of "\<lambda>r. fits (payload r)" "take PAGE ?B" "drop PAGE ?B"] by simp
  show ?case
  proof (cases "length ?B < PAGE")
    case True
    then show ?thesis
      by (subst search_back.simps) (auto simp: page Let_def ref split: option.split)
  next
    case False
    then have ne: "take PAGE ?B \<noteq> []" by (auto simp: PAGE_def)
    let ?c = "record_index (last (take PAGE ?B))"
    have rest: "drop PAGE ?B = rev (filter (\<lambda>r. record_role r = role \<and> record_index r < ?c) rs)"
    proof -
      have "sorted_wrt (\<lambda>x y. - int (record_index x) < - int (record_index y)) ?B"
        using sorted by (simp add: sorted_wrt_rev)
      from drop_after_last [OF this, of PAGE] False
      have "drop PAGE ?B = filter (\<lambda>r. record_index r < ?c) ?B" by (simp add: PAGE_def)
      moreover have "last (take PAGE ?B) \<in> set ?B" using ne by (meson in_set_takeD last_in_set)
      then have "?c < c" by simp
      then have "filter (\<lambda>r. record_index r < ?c) ?B = rev (filter (\<lambda>r. record_role r = role \<and> record_index r < ?c) rs)"
        by (auto simp: rev_filter intro!: filter_cong)
      ultimately show ?thesis by simp
    qed
    then have "latest_index role fits ?c rs = map_option record_index (find (\<lambda>r. fits (payload r)) (drop PAGE ?B))"
      by (simp add: latest_index_def rev_filter find_filter conj_assoc)
    then show ?thesis
      using 1(1) [OF refl, unfolded page] 1(2) False ne
      by (subst search_back.simps) (auto simp: page Let_def ref split split: option.split)
  qed
qed

section \<open>Active records\<close>

text \<open>
  What the visitor is given: the start event with the segments that a persisted assistant
  message carries, then the rows. A failing read ends the visit before its first event.
\<close>

definition tail_start :: "nat \<Rightarrow> json \<Rightarrow> nat" where
  "tail_start checkpoint v = (case Option.bind (json_get v ''messagesSummarized'') as_u64 of
     Some start \<Rightarrow> if start \<le> checkpoint then start else checkpoint
   | None \<Rightarrow> checkpoint)"

definition active_checkpoint :: "journal_pointers \<Rightarrow> nat option" where
  "active_checkpoint p = below (canonical_tail p) (last_checkpoint_index p)"

definition segment_ids :: "journal_pointers \<Rightarrow> session_tables \<Rightarrow> journal_error + string set" where
  "segment_ids p t = (case as_i64 (canonical_tail p) of
     Inl x \<Rightarrow> Inl x
   | Inr tail \<Rightarrow>
       (case active_checkpoint p of
          None \<Rightarrow> Inr (snd ` set (filter (\<lambda>(i, _). i < tail) (assistant_segments t)))
        | Some c \<Rightarrow>
            (case required_payload c t of
               Inl x \<Rightarrow> Inl x
             | Inr v \<Rightarrow>
                 (let start = tail_start c v;
                      mentioned = List.map_filter (\<lambda>r. Option.bind (json_get (payload r) ''segmentId'') as_str)
                        (filter (\<lambda>r. record_role r \<in> {''provider_update'', ''provider_segment_close''} \<and> record_index r < tail
                           \<and> (start \<le> record_index r \<and> record_index r < c \<or> c < record_index r)) (session_records t))
                  in Inr (snd ` set (filter (\<lambda>(i, s). start \<le> i \<and> i < c \<or> c < i \<and> i < tail
                       \<or> i < start \<and> s \<in> set mentioned) (assistant_segments t)))))))"

definition active_events :: "string \<Rightarrow> session_tables \<Rightarrow> journal_error + nat \<times> string set \<times> (nat \<times> json) list" where
  "active_events key t = (case journal_row t of
     None \<Rightarrow> if has_ui_history t then Inl (HistoryWithoutJournal key) else Inr (0, {}, [])
   | Some p \<Rightarrow>
       (case segment_ids p t of
          Inl x \<Rightarrow> Inl x
        | Inr ids \<Rightarrow>
            (let tail = canonical_tail p in
             if tail = 0 then Inr (0, ids, [])
             else (case active_checkpoint p of
                None \<Rightarrow> (case stream_range 0 tail False t of Inl x \<Rightarrow> Inl x | Inr rs \<Rightarrow> Inr (tail, ids, rs))
              | Some c \<Rightarrow>
                  (case required_payload c t of
                     Inl x \<Rightarrow> Inl x
                   | Inr v \<Rightarrow>
                       (case stream_range (tail_start c v) c True t of
                          Inl x \<Rightarrow> Inl x
                        | Inr rs \<Rightarrow>
                            (case stream_range (c + 1) tail False t of
                               Inl x \<Rightarrow> Inl x
                             | Inr rs' \<Rightarrow> Inr (tail, ids, (c, v) # rs @ rs'))))))))"

text \<open>What they are on the tables of a history.\<close>

definition last_checkpoint_of :: "json list \<Rightarrow> nat option" where
  "last_checkpoint_of vs = max_index (indices_with ''checkpoint'' vs)"

definition active_rows :: "json list \<Rightarrow> (nat \<times> json) list" where
  "active_rows vs = (case last_checkpoint_of vs of
     None \<Rightarrow> enumerate 0 vs
   | Some c \<Rightarrow> (c, vs ! c) # range_of (tail_start c (vs ! c)) c True vs @ range_of (c + 1) (length vs) False vs)"

lemma last_checkpoint_below: "last_checkpoint_of vs = Some c \<Longrightarrow> c < length vs"
proof -
  assume "last_checkpoint_of vs = Some c"
  then have "c \<in> set (indices_with ''checkpoint'' vs)"
    using Max_in [of "set (indices_with ''checkpoint'' vs)"] by (auto simp: last_checkpoint_of_def max_index_def split: if_splits)
  then show ?thesis by (rule indices_below)
qed

lemma active_checkpoint_of: "active_checkpoint (pointers_of vs) = last_checkpoint_of vs"
  using last_checkpoint_below [of vs]
  by (auto simp: active_checkpoint_def pointers_of_def below_def last_checkpoint_of_def split: option.splits)

lemma tail_start_le: "tail_start c v \<le> c"
  by (simp add: tail_start_def split: option.splits)

lemma active_events_rows:
  assumes "represents dec t (Some vs)" "length vs < 2 ^ 63"
  shows "\<exists>ids. segment_ids (pointers_of vs) t = Inr ids \<and> active_events key t = Inr (length vs, ids, active_rows vs)"
proof -
  have t: "journal_row t = Some (pointers_of vs)" "fills dec t vs" using assms(1) by (simp_all add: represents_def)
  show ?thesis
  proof (cases "last_checkpoint_of vs")
    case None
    then show ?thesis
      using t assms(2) stream_range_fills [OF t(2), of 0 "length vs" False]
      by (auto simp: segment_ids_def active_events_def active_checkpoint_of active_rows_def as_i64_def Let_def)
        (auto simp: pointers_of_def range_all)
  next
    case (Some c)
    have c: "c < length vs" using last_checkpoint_below [OF Some] .
    then have "required_payload c t = Inr (vs ! c)" using assms(2) required_represents [OF t(2), of c] by simp
    moreover have "stream_range (tail_start c (vs ! c)) c True t = Inr (range_of (tail_start c (vs ! c)) c True vs)"
      using stream_range_ok [OF t(2), of "tail_start c (vs ! c)" c True] c assms(2) tail_start_le [of c "vs ! c"] by simp
    moreover have "stream_range (c + 1) (length vs) False t = Inr (range_of (c + 1) (length vs) False vs)"
      using stream_range_ok [OF t(2), of "c + 1" "length vs" False] c assms(2) by simp
    ultimately show ?thesis
      using t c assms(2) Some
      by (auto simp: segment_ids_def active_events_def active_checkpoint_of active_rows_def as_i64_def Let_def)
        (auto simp: pointers_of_def)
  qed
qed

end
