(* ===== verification/Active_Context.thy ===== *)
theory Active_Context
  imports Chat_Replay Journal_Reads
begin

text \<open>
  What the next request is built from (\<open>crates/chat/src/active_context.rs\<close> and
  \<open>compaction_reminder.rs\<close>): the active records of the journal are pushed one by one into the
  reconstruction of \<open>Chat_History\<close>, the visible tools and the reminder come from the same
  tables. The incremental reading is shown to give what converting the whole history gives.
\<close>

section \<open>Loading\<close>

datatype context_error = StoreFailed journal_error | ConversionFailed conversion_error | ReminderFailed string

definition load_active_messages :: "history_env \<Rightarrow> string \<Rightarrow> session_tables \<Rightarrow> context_error + chat_message list \<times> nat" where
  "load_active_messages env key t = (case active_events key t of
     Inl e \<Rightarrow> Inl (StoreFailed e)
   | Inr (n, ids, rows) \<Rightarrow>
       (case push_all env rows (reconstruction_new True ids) of
          Inl e \<Rightarrow> Inl (ConversionFailed e)
        | Inr rc \<Rightarrow> Inr (finish env rc, n)))"

definition visible_tools :: "('a :: type) json_decoders_scheme \<Rightarrow> string \<Rightarrow> bool \<Rightarrow> bool \<Rightarrow> session_tables \<Rightarrow> context_error + string set" where
  "visible_tools dec key tools_enabled lazy t =
     (if tools_enabled \<and> lazy then
        (case visible_tool_names dec key t of
           Inr names \<Rightarrow> Inr names
         | Inl (NoCanonicalJournal _) \<Rightarrow> Inr {}
         | Inl e \<Rightarrow> Inl (StoreFailed e))
      else Inr {})"

section \<open>The reminder after a compaction\<close>

record compaction_reminder =
  reminder_text :: "string option"
  checkpoint_active :: bool

fun block_texts :: "json list \<Rightarrow> string \<times> bool \<Rightarrow> string + string \<times> bool" where
  "block_texts [] acc = Inr acc"
| "block_texts (b # bs) (text, saw) = (case Option.bind (json_get b ''type'') as_str of
     Some ty \<Rightarrow>
       if ty = ''text'' then
         (case Option.bind (json_get b ''text'') as_str of
            Some s \<Rightarrow> block_texts bs (text @ s, True)
          | None \<Rightarrow> Inl ''first persisted user message has an invalid text block'')
       else if ty = ''image_url'' then block_texts bs (text, saw)
       else Inl (''first persisted user message has unsupported content block type '' @ [CHR 0x27] @ ty @ [CHR 0x27])
   | None \<Rightarrow> Inl ''first persisted user message has a content block without a valid type'')"

definition first_user_text :: "json \<Rightarrow> string + string option" where
  "first_user_text v = (case json_get v ''content'' of
     None \<Rightarrow> Inl ''first persisted user message is missing content''
   | Some (JString s) \<Rightarrow> Inr (Some s)
   | Some (JArray bs) \<Rightarrow>
       (case block_texts bs ([], False) of Inl e \<Rightarrow> Inl e | Inr (text, saw) \<Rightarrow> Inr (if saw then Some text else None))
   | Some _ \<Rightarrow> Inl ''first persisted user message content must be a string or array'')"

definition from_parts :: "bool \<Rightarrow> bool \<Rightarrow> json option \<Rightarrow> string + compaction_reminder" where
  "from_parts enabled active user =
     (if \<not> enabled then Inr \<lparr>reminder_text = None, checkpoint_active = False\<rparr>
      else case user of
        None \<Rightarrow> Inr \<lparr>reminder_text = None, checkpoint_active = active\<rparr>
      | Some v \<Rightarrow> (case first_user_text v of Inl e \<Rightarrow> Inl e | Inr s \<Rightarrow> Inr \<lparr>reminder_text = s, checkpoint_active = active\<rparr>))"

definition activate :: "compaction_reminder \<Rightarrow> compaction_reminder" where
  "activate r = r\<lparr>checkpoint_active := True\<rparr>"

definition is_active :: "compaction_reminder \<Rightarrow> bool" where
  "is_active r \<longleftrightarrow> checkpoint_active r \<and> reminder_text r \<noteq> None"

definition active_segment :: "compaction_reminder \<Rightarrow> string option" where
  "active_segment r = (if checkpoint_active r
     then map_option (\<lambda>s. ''\<newline>\<newline><REMINDER>\<newline>'' @ s @ ''\<newline></REMINDER>'') (reminder_text r) else None)"

definition render :: "compaction_reminder \<Rightarrow> string \<Rightarrow> string" where
  "render r base = (case active_segment r of None \<Rightarrow> base | Some s \<Rightarrow> base @ s)"

definition reminder_error :: "string + compaction_reminder \<Rightarrow> context_error + compaction_reminder" where
  "reminder_error x = (case x of Inl e \<Rightarrow> Inl (ReminderFailed e) | Inr r \<Rightarrow> Inr r)"

definition reminder_from_journal :: "string \<Rightarrow> bool \<Rightarrow> session_tables \<Rightarrow> context_error + compaction_reminder" where
  "reminder_from_journal key enabled t = (case pointers key t of
     Inl (NoCanonicalJournal _) \<Rightarrow> reminder_error (from_parts enabled False None)
   | Inl e \<Rightarrow> Inl (StoreFailed e)
   | Inr p \<Rightarrow>
       (case (if enabled then first_user_index p else None) of
          None \<Rightarrow> reminder_error (from_parts enabled (last_checkpoint_index p \<noteq> None) None)
        | Some i \<Rightarrow>
            (case required_payload i t of
               Inl e \<Rightarrow> Inl (StoreFailed e)
             | Inr v \<Rightarrow> reminder_error (from_parts enabled (last_checkpoint_index p \<noteq> None) (Some v)))))"

lemma render_active: "render r base = base \<longleftrightarrow> \<not> is_active r"
  by (cases "reminder_text r") (auto simp: render_def active_segment_def is_active_def)

section \<open>The rows are those of the whole history\<close>

lemma role_of_index: "as_str (json_index v ''role'') = role_of v"
  by (simp add: json_index_def role_of_def split: option.split)

lemma is_checkpoint_stored: "is_checkpoint v \<longleftrightarrow> stored_role v = ''checkpoint''"
  by (auto simp: is_checkpoint_def role_of_index stored_role_def split: option.split)

lemma rposition_snoc: "rposition P (xs @ [x]) = (if P x then Some (length xs) else rposition P xs)"
  by (simp add: rposition_def enumerate_append_eq)

lemma rposition_last: "rposition is_checkpoint vs = last_checkpoint_of vs"
proof (induction vs rule: rev_induct)
  case Nil
  show ?case by (simp add: rposition_def last_checkpoint_of_def indices_with_def max_index_def)
next
  case (snoc v vs)
  have "max_index (indices_with ''checkpoint'' vs @ [length vs]) = Some (length vs)"
    by (rule max_index_snoc) (simp add: less_imp_le indices_below)
  then show ?case using snoc by (simp add: rposition_snoc is_checkpoint_stored last_checkpoint_of_def indices_snoc)
qed

lemma enumerate_slice:
  "filter (\<lambda>(i, v). a \<le> i \<and> i < b \<and> Q v) (enumerate k vs)
     = filter (\<lambda>(i, v). Q v) (enumerate (max a k) (drop (a - k) (take (b - k) vs)))"
proof (induction vs arbitrary: k)
  case (Cons v vs)
  show ?case
  proof (cases "k < b")
    case True
    then have "b - k = Suc (b - Suc k)" by simp
    then show ?thesis using Cons [of "Suc k"] True
      by (cases "a \<le> k"; cases "a = Suc k") (auto simp: max_def Suc_diff_le not_le Suc_diff_Suc [symmetric])
  next
    case False
    then show ?thesis using Cons [of "Suc k"] by simp
  qed
qed simp

lemma active_rows_ordered: "active_rows vs = ordered_values vs"
proof (cases "last_checkpoint_of vs")
  case None
  then show ?thesis by (simp add: active_rows_def ordered_values_def rposition_last)
next
  case (Some c)
  have "c < length vs" by (rule last_checkpoint_below [OF Some])
  then have "range_of (c + 1) (length vs) False vs = enumerate (c + 1) (drop (c + 1) vs)"
    using enumerate_slice [of "c + 1" "length vs" "\<lambda>_. True" 0 vs] by (simp add: range_of_def case_prod_unfold)
  moreover have "range_of s c True vs = filter (\<lambda>(_, v). \<not> is_checkpoint v) (enumerate s (drop s (take c vs)))" for s
    using enumerate_slice [of s c "\<lambda>v. stored_role v \<noteq> ''checkpoint''" 0 vs] by (simp add: range_of_def is_checkpoint_stored)
  moreover have "tail_start c (vs ! c) = (case as_u64 (json_index (vs ! c) ''messagesSummarized'') of Some n \<Rightarrow> if n \<le> c then n else c | None \<Rightarrow> c)"
    by (auto simp: tail_start_def json_index_def split: option.split)
  ultimately show ?thesis using Some by (simp add: active_rows_def ordered_values_def rposition_last Let_def)
qed

section \<open>Only the mentioned segments matter\<close>

definition with_ids :: "string set \<Rightarrow> chat_reconstruction \<Rightarrow> chat_reconstruction" where
  "with_ids r rc = rc\<lparr>replayed_segment_ids := r\<rparr>"

definition segments_in :: "string set \<Rightarrow> chat_reconstruction \<Rightarrow> bool" where
  "segments_in S rc \<longleftrightarrow> (\<forall>m \<in> set (provider_segments rc). \<exists>s \<in> S. segment_id (segment m) = Some s)"

definition agree :: "string set \<Rightarrow> chat_reconstruction \<Rightarrow> chat_reconstruction \<Rightarrow> bool" where
  "agree S a b \<longleftrightarrow> segments_in S a \<and> b = with_ids (replayed_segment_ids b) a
     \<and> replayed_segment_ids a \<inter> S = replayed_segment_ids b \<inter> S"

lemma with_ids_sel [simp]:
  "messages (with_ids r rc) = messages rc" "provider_segments (with_ids r rc) = provider_segments rc"
  "pending_tool_call_ids (with_ids r rc) = pending_tool_call_ids rc" "replayed_segment_ids (with_ids r rc) = r"
  "filter_orphan_tool_results (with_ids r rc) = filter_orphan_tool_results rc"
  by (simp_all add: with_ids_def)

lemma emit_with_ids [simp]: "emit m (with_ids r rc) = with_ids r (emit m rc)"
  by (simp add: emit_def with_ids_def)

lemma push_result_with_ids [simp]: "push_result c t (with_ids r rc) = with_ids r (push_result c t rc)"
  by (simp add: push_result_def emit_def with_ids_def Let_def)

lemma push_user_with_ids [simp]: "push_user env v (with_ids r rc) = with_ids r (push_user env v rc)"
  by (simp add: push_user_def Let_def split: option.split)

lemma push_assistant_with_ids [simp]: "push_assistant env i v (with_ids r rc) = map_sum id (with_ids r) (push_assistant env i v rc)"
  by (simp add: push_assistant_def Let_def emit_def with_ids_def split: sum.split)

lemma push_lifecycle_with_ids [simp]: "push_tool_lifecycle env i v (with_ids r rc) = map_sum id (with_ids r) (push_tool_lifecycle env i v rc)"
  by (simp add: push_tool_lifecycle_def split: sum.split option.split)

lemma push_update_with_ids [simp]: "push_provider_update env i v (with_ids r rc) = map_sum id (with_ids r) (push_provider_update env i v rc)"
  by (simp add: push_provider_update_def with_ids_def split: sum.split prod.split)

lemma push_with_ids:
  "as_str (json_index v ''role'') \<noteq> Some ''provider_segment_close'' \<Longrightarrow>
   push env (i, v) (with_ids r rc) = map_sum id (with_ids r) (push env (i, v) rc)"
  unfolding push_def prod.case push_tool_def by (simp split: option.split)

lemma segments_in_store: "segments_in S rc \<Longrightarrow> has_segment s m \<Longrightarrow> s \<in> S \<Longrightarrow> x \<in> set (store_segment s m (provider_segments rc)) \<Longrightarrow>
  \<exists>s \<in> S. segment_id (segment x) = Some s"
  by (auto simp: store_segment_def segments_in_def replayed_segment_def has_segment_def split: option.splits dest!: in_update_firstD)

lemma replayed_id: "segment_id (segment (snd (replayed_segment s ms))) = Some s"
  using find_Some_iff [of "has_segment s"] by (auto simp: replayed_segment_def has_segment_def split: option.split)

lemma update_shape:
  assumes "push_provider_update env i v rc = Inr rc'"
  shows "\<exists>u m. de_update env v = Inr u \<and> has_segment (upd_segment_id u) m
    \<and> rc' = rc\<lparr>provider_segments := store_segment (upd_segment_id u) m (provider_segments rc)\<rparr>"
proof -
  obtain u m' where u: "de_update env v = Inr u"
    and a: "apply_update (snd (replayed_segment (upd_segment_id u) (provider_segments rc))) u = (m', Inr ())"
    and rc': "rc' = rc\<lparr>provider_segments := store_segment (upd_segment_id u) m' (provider_segments rc)\<rparr>"
    using assms by (auto simp: push_provider_update_def store_segment_def split: sum.splits prod.splits)
  show ?thesis using u rc' apply_update_id [OF a replayed_id] by (auto simp: has_segment_def)
qed

lemma push_frame:
  assumes p: "push env (i, v) a = Inr rc" and c: "as_str (json_index v ''role'') \<noteq> Some ''provider_segment_close''"
    and S: "segments_in S a" "\<forall>s. segment_event env s v \<noteq> None \<longrightarrow> s \<in> S"
  shows "replayed_segment_ids rc = replayed_segment_ids a \<and> segments_in S rc"
proof (cases "as_str (json_index v ''role'') = Some ''provider_update''")
  case True
  then have "push_provider_update env i v a = Inr rc" using p by (simp add: push_def)
  from update_shape [OF this] obtain u m where u: "de_update env v = Inr u" "has_segment (upd_segment_id u) m"
    "rc = a\<lparr>provider_segments := store_segment (upd_segment_id u) m (provider_segments a)\<rparr>" by blast
  have "upd_segment_id u \<in> S" using S(2) True u(1) by (simp add: segment_event_def)
  from segments_in_store [OF S(1) u(2) this] show ?thesis by (simp add: u(3) segments_in_def)
next
  case False
  have "replayed_segment_ids rc = replayed_segment_ids a \<and> provider_segments rc = provider_segments a"
    using push_other [OF p False c] push_assistant_shape [of env i v a rc] push_result_shape(2,3) [of _ _ a]
    by (elim disjE exE conjE) (auto simp: emit_def)
  then show ?thesis using S(1) by (simp add: segments_in_def)
qed

lemma replayed_agree:
  "segment_id (segment m) = Some s \<Longrightarrow> (s \<in> r \<longleftrightarrow> s \<in> r') \<Longrightarrow> replayed_assistant_message env m r = replayed_assistant_message env m r'"
  by (simp add: replayed_assistant_message_def)

lemma flush_agree:
  assumes "agree S a b" "s \<in> S"
  shows "agree S (flush_replayed_segment env s a) (flush_replayed_segment env s b)"
proof -
  define r where "r = replayed_segment_ids b"
  have ag: "segments_in S a" "b = with_ids r a" "replayed_segment_ids a \<inter> S = r \<inter> S" using assms(1) by (simp_all add: agree_def r_def)
  show ?thesis
  proof (cases "find (has_segment s) (provider_segments a)")
    case None
    then have "flush_replayed_segment env s a = a" "flush_replayed_segment env s b = b" by (simp_all add: flush_replayed_segment_def ag(2))
    then show ?thesis using assms(1) by simp
  next
    case (Some m)
    have m: "segment_id (segment m) = Some s" using Some by (auto simp: find_Some_iff has_segment_def)
    have r: "replayed_assistant_message env m (replayed_segment_ids a) = replayed_assistant_message env m r"
      by (rule replayed_agree [OF m]) (use ag(3) assms(2) in blast)
    show ?thesis
    proof (cases "replayed_assistant_message env m r")
      case None
      then have "flush_replayed_segment env s a = a" "flush_replayed_segment env s b = b"
        using Some r by (simp_all add: flush_replayed_segment_def ag(2))
      then show ?thesis using assms(1) by simp
    next
      case msg: (Some msg)
      have "flush_replayed_segment env s a = (emit msg a)\<lparr>replayed_segment_ids := insert s (replayed_segment_ids a)\<rparr>"
        "flush_replayed_segment env s b = (emit msg a)\<lparr>replayed_segment_ids := insert s r\<rparr>"
        using Some r msg by (simp_all add: flush_replayed_segment_def ag(2) with_ids_def emit_def)
      then show ?thesis using ag by (auto simp: agree_def with_ids_def segments_in_def emit_def)
    qed
  qed
qed

lemma close_agree:
  assumes ag: "agree S a b" and role: "as_str (json_index v ''role'') = Some ''provider_segment_close''"
    and S: "\<forall>s. segment_event env s v \<noteq> None \<longrightarrow> s \<in> S"
  shows "rel_sum (=) (agree S) (push_provider_close env i v a) (push_provider_close env i v b)"
proof (cases "de_close env v")
  case (Inl e)
  then show ?thesis by (simp add: push_provider_close_def)
next
  case (Inr so)
  obtain s out where so: "so = (s, out)" by (cases so)
  have s: "s \<in> S" using S role Inr so by (simp add: segment_event_def)
  have b: "b = with_ids (replayed_segment_ids b) a" using ag by (simp add: agree_def)
  have segs: "provider_segments b = provider_segments a" by (subst b) simp
  obtain m' res where c: "close (snd (replayed_segment s (provider_segments a))) out = (m', res)" by fastforce
  show ?thesis
  proof (cases res)
    case (Inl e)
    then show ?thesis using Inr so segs c by (simp add: push_provider_close_def case_prod_unfold)
  next
    case (Inr u)
    have h: "has_segment s m'" using close_ok [OF c [unfolded Inr]] replayed_id [of s "provider_segments a"] by (simp add: has_segment_def)
    let ?ms = "store_segment s m' (provider_segments a)"
    have "segments_in S a" using ag by (simp add: agree_def)
    from segments_in_store [OF this h s] have "segments_in S (a\<lparr>provider_segments := ?ms\<rparr>)"
      by (simp add: segments_in_def)
    moreover have "b\<lparr>provider_segments := ?ms\<rparr> = with_ids (replayed_segment_ids b) (a\<lparr>provider_segments := ?ms\<rparr>)"
      by (subst b) (simp add: with_ids_def)
    ultimately have "agree S (a\<lparr>provider_segments := ?ms\<rparr>) (b\<lparr>provider_segments := ?ms\<rparr>)" using ag by (simp add: agree_def)
    from flush_agree [OF this s] show ?thesis
      using \<open>de_close env v = Inr so\<close> so segs c Inr by (simp add: push_provider_close_def case_prod_unfold store_segment_def)
  qed
qed

lemma push_agree:
  assumes ag: "agree S a b" and S: "\<forall>s. segment_event env s v \<noteq> None \<longrightarrow> s \<in> S"
  shows "rel_sum (=) (agree S) (push env (i, v) a) (push env (i, v) b)"
proof (cases "as_str (json_index v ''role'') = Some ''provider_segment_close''")
  case True
  then show ?thesis using close_agree [OF ag True S, of i] by (simp add: push_def)
next
  case False
  have b: "b = with_ids (replayed_segment_ids b) a" using ag by (simp add: agree_def)
  have p: "push env (i, v) b = map_sum id (with_ids (replayed_segment_ids b)) (push env (i, v) a)"
    by (subst b) (rule push_with_ids [OF False])
  show ?thesis
  proof (cases "push env (i, v) a")
    case (Inl e)
    then show ?thesis by (simp add: p)
  next
    case (Inr rc)
    from push_frame [OF this False _ S] ag show ?thesis by (simp add: p Inr agree_def)
  qed
qed

lemma push_all_agree:
  assumes "agree S a b" "\<forall>v \<in> snd ` set xs. \<forall>s. segment_event env s v \<noteq> None \<longrightarrow> s \<in> S"
  shows "rel_sum (=) (agree S) (push_all env xs a) (push_all env xs b)"
  using assms
proof (induction xs arbitrary: a b)
  case (Cons x xs)
  obtain i v where x: "x = (i, v)" by (cases x)
  have "rel_sum (=) (agree S) (push env (i, v) a) (push env (i, v) b)"
    by (rule push_agree [OF Cons.prems(1)]) (use Cons.prems(2) in \<open>simp add: x\<close>)
  then show ?case using Cons.IH Cons.prems(2) by (cases rule: rel_sum.cases) (simp_all add: x)
qed simp

lemma append_replayed_agree:
  "\<forall>m \<in> set ms. \<exists>s \<in> S. segment_id (segment m) = Some s \<Longrightarrow> r \<inter> S = r' \<inter> S \<Longrightarrow> append_replayed env ms r msgs = append_replayed env ms r' msgs"
proof (induction env ms r msgs arbitrary: r' rule: append_replayed.induct)
  case (2 env m ms r msgs)
  obtain s where s: "s \<in> S" "segment_id (segment m) = Some s" using 2(3) by auto
  have e: "replayed_assistant_message env m r = replayed_assistant_message env m r'"
    by (rule replayed_agree [OF s(2)]) (use 2(4) s(1) in blast)
  show ?case
  proof (cases "replayed_assistant_message env m r")
    case None
    then show ?thesis using 2(1) [OF None, of r'] 2(3,4) e by simp
  next
    case (Some msg)
    have "insert s r \<inter> S = insert s r' \<inter> S" using 2(4) by blast
    then show ?thesis using 2(2) [OF Some, of "insert s r'"] 2(3) s(2) Some e [symmetric] by simp
  qed
qed simp

lemma finish_agree: "agree S a b \<Longrightarrow> finish env a = finish env b"
proof -
  assume ag: "agree S a b"
  then have b: "b = with_ids (replayed_segment_ids b) a" by (simp add: agree_def)
  have "append_replayed env (provider_segments a) (replayed_segment_ids a) (messages a)
      = append_replayed env (provider_segments a) (replayed_segment_ids b) (messages a)"
    by (rule append_replayed_agree [where S = S]) (use ag in \<open>auto simp: agree_def segments_in_def\<close>)
  then show ?thesis by (subst b) (simp add: finish_def)
qed

section \<open>Loading is converting the whole history\<close>

text \<open>The decoders, which the sources derive from the record types, read the field \<open>segmentId\<close>.\<close>

definition reads_segment_id :: "history_env \<Rightarrow> bool" where
  "reads_segment_id env \<longleftrightarrow> (\<forall>v u. de_update env v = Inr u \<longrightarrow> Option.bind (json_get v ''segmentId'') as_str = Some (upd_segment_id u))
     \<and> (\<forall>v s out. de_close env v = Inr (s, out) \<longrightarrow> Option.bind (json_get v ''segmentId'') as_str = Some s)"

definition mentioned :: "history_env \<Rightarrow> (nat \<times> json) list \<Rightarrow> string set" where
  "mentioned env xs = {s. \<exists>(i, v) \<in> set xs. segment_event env s v \<noteq> None}"

lemma segment_event_field:
  "reads_segment_id env \<Longrightarrow> segment_event env s v \<noteq> None \<Longrightarrow>
   stored_role v \<in> {''provider_update'', ''provider_segment_close''} \<and> Option.bind (json_get v ''segmentId'') as_str = Some s"
  by (auto simp: segment_event_def reads_segment_id_def role_of_index stored_role_def split: if_splits sum.splits)

lemma segments_of_iff: "(i, s) \<in> set (segments_of dec vs) \<longleftrightarrow> i < length vs \<and> segment_of dec (vs ! i) = Some s"
proof -
  have "(i, s) \<in> set (segments_of dec vs) \<longleftrightarrow> (\<exists>v. (i, v) \<in> set (enumerate 0 vs) \<and> segment_of dec v = Some s)"
    by (force simp: segments_of_def in_map_filter)
  then show ?thesis by (auto simp: in_set_enumerate_eq)
qed

lemma segment_of_assistant:
  "segment_of dec v = Some s \<longleftrightarrow> role_of v = Some ''assistant'' \<and> Option.bind (json_get v ''segmentId'') as_str = Some s"
  by (auto simp: segment_of_def record_disclosure_def record_segment_def split: sum.splits)

lemma assistant_ids_segments: "assistant_segment_ids vs = snd ` set (segments_of dec vs)"
proof -
  have "s \<in> assistant_segment_ids vs \<longleftrightarrow> (\<exists>v \<in> set vs. segment_of dec v = Some s)" for s
    by (auto simp: segment_of_assistant assistant_segment_ids_def in_map_filter role_of_index)
  moreover have "s \<in> snd ` set (segments_of dec vs) \<longleftrightarrow> (\<exists>i. (i, s) \<in> set (segments_of dec vs))" for s by force
  moreover have "(\<exists>v \<in> set vs. segment_of dec v = Some s) \<longleftrightarrow> (\<exists>i. i < length vs \<and> segment_of dec (vs ! i) = Some s)" for s
    unfolding Bex_def in_set_conv_nth by blast
  ultimately show ?thesis unfolding segments_of_iff set_eq_iff by simp
qed

lemma ids_mentioned:
  assumes "represents dec t (Some vs)" "length vs < 2 ^ 63" "segment_ids (pointers_of vs) t = Inr ids" "reads_segment_id env"
  shows "ids \<inter> mentioned env (active_rows vs) = assistant_segment_ids vs \<inter> mentioned env (active_rows vs)"
proof -
  have ct: "canonical_tail (pointers_of vs) = length vs" by (simp add: pointers_of_def)
  have f: "fills dec t vs" "assistant_segments t = segments_of dec vs" "session_records t = map row_of (enumerate 0 vs)"
    using assms(1) by (simp_all add: represents_def fills_def)
  show ?thesis
proof (cases "last_checkpoint_of vs")
  case None
  have "filter (\<lambda>(i, _). i < length vs) (segments_of dec vs) = segments_of dec vs"
    using segments_of_iff [of _ _ dec vs] by (auto simp: filter_id_conv)
  then have "ids = snd ` set (segments_of dec vs)"
    using assms(2,3) None by (simp add: segment_ids_def active_checkpoint_of f ct as_i64_def)
  then show ?thesis by (simp add: assistant_ids_segments [where dec = dec])
next
  case (Some c)
  have c: "c < length vs" by (rule last_checkpoint_below [OF Some])
  let ?start = "tail_start c (vs ! c)"
  let ?ment = "set (List.map_filter (\<lambda>r. Option.bind (json_get (payload r) ''segmentId'') as_str)
    (filter (\<lambda>r. record_role r \<in> {''provider_update'', ''provider_segment_close''} \<and> record_index r < length vs
       \<and> (?start \<le> record_index r \<and> record_index r < c \<or> c < record_index r)) (session_records t)))"
  have ids: "ids = snd ` set (filter (\<lambda>(i, s). ?start \<le> i \<and> i < c \<or> c < i \<and> i < length vs \<or> i < ?start \<and> s \<in> ?ment) (segments_of dec vs))"
    using assms(2,3) Some required_represents [OF f(1), of c] c
    by (simp add: segment_ids_def active_checkpoint_of f(2) as_i64_def ct Let_def)
  have chk: "stored_role (vs ! c) = ''checkpoint''"
    using rposition_Some [of is_checkpoint vs c] Some by (simp add: rposition_last is_checkpoint_stored)
  have ment: "s \<in> ?ment" if ms: "s \<in> mentioned env (active_rows vs)" for s
  proof -
    obtain i v where iv: "(i, v) \<in> set (active_rows vs)" "segment_event env s v \<noteq> None" using ms by (auto simp: mentioned_def)
    have fld: "stored_role v \<in> {''provider_update'', ''provider_segment_close''}" "Option.bind (json_get v ''segmentId'') as_str = Some s"
      using segment_event_field [OF assms(4) iv(2)] by simp_all
    have "(i, v) \<noteq> (c, vs ! c)" using fld(1) chk by auto
    then have r: "(i, v) \<in> set (enumerate 0 vs)" "?start \<le> i \<and> i < c \<or> c < i" using iv(1) Some by (auto simp: active_rows_def range_of_def)
    have "row_of (i, v) \<in> set (session_records t)" using r(1) by (simp add: f(3))
    then show ?thesis using r fld enumerate_below [OF r(1)]
      by (force simp: map_filter_def row_of_def image_iff)
  qed
  have "s \<in> ids" if "s \<in> assistant_segment_ids vs" "s \<in> ?ment" for s
  proof -
    obtain i where i: "(i, s) \<in> set (segments_of dec vs)" using \<open>s \<in> assistant_segment_ids vs\<close> by (auto simp: assistant_ids_segments [where dec = dec])
    then have "i < length vs" "segment_of dec (vs ! i) = Some s" by (simp_all add: segments_of_iff)
    then have "i \<noteq> c" using chk
      by (auto simp: segment_of_assistant stored_role_def)
    then show ?thesis unfolding ids using i that(2) \<open>i < length vs\<close> by force
  qed
  moreover have "ids \<subseteq> assistant_segment_ids vs" unfolding ids assistant_ids_segments [where dec = dec] by auto
  ultimately show ?thesis using ment by blast
qed
qed

text \<open>
  C7. The context read from the journal is the context of the whole history: on tables that
  represent a history, pushing the active records one by one, from the last checkpoint on and
  with the persisted segments that the tables name, gives the messages, or the error, of
  converting the whole history, and the position the next record must have.
\<close>

theorem active_context_is_history:
  assumes "represents env t (Some vs)" "length vs < 2 ^ 63" "reads_segment_id env"
  shows "load_active_messages env key t = (case values_to_chat_messages env vs of
    Inl e \<Rightarrow> Inl (ConversionFailed e) | Inr ms \<Rightarrow> Inr (ms, length vs))"
proof -
  obtain ids where ids: "segment_ids (pointers_of vs) t = Inr ids" "active_events key t = Inr (length vs, ids, active_rows vs)"
    using active_events_rows [OF assms(1,2)] by blast
  let ?S = "mentioned env (active_rows vs)"
  have "agree ?S (reconstruction_new True ids) (reconstruction_new True (assistant_segment_ids vs))"
    using ids_mentioned [OF assms(1,2) ids(1) assms(3)]
    by (simp add: agree_def segments_in_def reconstruction_new_def with_ids_def)
  then have "rel_sum (=) (agree ?S) (push_all env (active_rows vs) (reconstruction_new True ids))
      (push_all env (active_rows vs) (reconstruction_new True (assistant_segment_ids vs)))"
    by (rule push_all_agree) (force simp: mentioned_def)
  then show ?thesis
    unfolding load_active_messages_def ids values_to_chat_messages_def values_to_chat_messages_inner_def active_rows_ordered
    by (cases rule: rel_sum.cases) (simp_all add: finish_agree)
qed

text \<open>The cut-off run of \<open>Chat_Replay\<close> as it lies in the tables.\<close>

definition journal_env :: history_env where
  "journal_env = demo_env\<lparr>
     de_update := (\<lambda>v. if Option.bind (json_get v ''segmentId'') as_str = Some ''seg'' then de_update demo_env v else Inl ''no segment''),
     de_close := (\<lambda>v. if Option.bind (json_get v ''segmentId'') as_str = Some ''seg'' then Inr (''seg'', TransportError) else Inl ''no segment'')\<rparr>"

definition journal_tables :: session_tables where
  "journal_tables = \<lparr>journal_row = Some (pointers_of demo_interrupted), session_records = map row_of (enumerate 0 demo_interrupted),
     tool_disclosures = disclosures_of journal_env demo_interrupted, assistant_segments = segments_of journal_env demo_interrupted,
     disclosure_errors = errors_of journal_env demo_interrupted, ui_total_messages = None, ui_snapshots = 0\<rparr>"

theorem active_context_is_history_witness:
  "load_active_messages journal_env ''s'' journal_tables = Inr (demo_messages, 3)"
proof -
  have r: "represents journal_env journal_tables (Some demo_interrupted)" by (simp add: represents_def fills_def journal_tables_def)
  have s: "reads_segment_id journal_env"
    by (auto simp: reads_segment_id_def journal_env_def demo_env_def sample_update_def split: if_splits)
  have l: "length demo_interrupted < 2 ^ 63" by (simp add: demo_interrupted_def)
  have c: "values_to_chat_messages journal_env demo_interrupted = Inr demo_messages" by code_simp
  have n: "length demo_interrupted = 3" by (simp add: demo_interrupted_def)
  show ?thesis unfolding active_context_is_history [OF r l s] c sum.case n ..
qed

section \<open>Tools and reminder of a represented history\<close>

lemma no_journal_context:
  assumes "represents env t None" "\<not> has_ui_history t"
  shows "load_active_messages env key t = Inr ([], 0)" "visible_tools env key e l t = Inr {}"
    "reminder_from_journal key e t = Inr \<lparr>reminder_text = None, checkpoint_active = False\<rparr>"
proof -
  have r: "journal_row t = None" using assms(1) by (simp add: represents_def)
  have "finish env (reconstruction_new True {}) = []"
    by (simp add: finish_def reconstruction_new_def ensure_fill)
  then show "load_active_messages env key t = Inr ([], 0)" using assms(2) r by (simp add: load_active_messages_def active_events_def)
  show "visible_tools env key e l t = Inr {}" using r by (simp add: visible_tools_def visible_tool_names_def pointers_def)
  show "reminder_from_journal key e t = Inr \<lparr>reminder_text = None, checkpoint_active = False\<rparr>"
    using r by (simp add: reminder_from_journal_def pointers_def reminder_error_def from_parts_def)
qed

lemma indices_nil: "indices_with r [] = []"
  by (simp add: indices_with_def)

text \<open>The reminder quotes the first user message, and does so only once a checkpoint exists.
\<close>

lemma reminder_of_history:
  assumes "represents dec t (Some vs)" "length vs < 2 ^ 63"
  shows "reminder_from_journal key True t = reminder_error (from_parts True (\<exists>v \<in> set vs. stored_role v = ''checkpoint'')
    (find (\<lambda>v. stored_role v = ''user'') vs))"
proof -
  have f: "fills dec t vs" "journal_row t = Some (pointers_of vs)" using assms(1) by (simp_all add: represents_def)
  have c: "last_checkpoint_index (pointers_of vs) \<noteq> None \<longleftrightarrow> (\<exists>v \<in> set vs. stored_role v = ''checkpoint'')"
  proof -
    have "indices_with ''checkpoint'' vs = [] \<longleftrightarrow> \<not> (\<exists>v \<in> set vs. stored_role v = ''checkpoint'')"
      by (induction vs rule: rev_induct) (auto simp: indices_snoc indices_nil)
    then show ?thesis by (simp add: pointers_of_def max_index_def)
  qed
  have u: "case min_index (indices_with ''user'' vs) of None \<Rightarrow> find (\<lambda>v. stored_role v = ''user'') vs = None
     | Some i \<Rightarrow> i < length vs \<and> find (\<lambda>v. stored_role v = ''user'') vs = Some (vs ! i)"
  proof (induction vs rule: rev_induct)
    case Nil
    show ?case by (simp add: indices_with_def min_index_def)
  next
    case (snoc v vs)
    have m: "min_index (indices_with ''user'' vs @ [length vs]) = coalesce (min_index (indices_with ''user'' vs)) (Some (length vs))"
      by (rule min_index_snoc) (simp add: less_imp_le indices_below)
    show ?case using snoc by (auto simp: indices_snoc m coalesce_def find_append_one nth_append split: option.splits if_splits)
  qed
  show ?thesis
  proof (cases "min_index (indices_with ''user'' vs)")
    case None
    then show ?thesis using u c f by (simp add: reminder_from_journal_def pointers_def) (simp add: pointers_of_def)
  next
    case (Some i)
    then have "required_payload i t = Inr (vs ! i)" using u required_represents [OF f(1), of i] assms(2) by simp
    moreover have "first_user_index (pointers_of vs) = Some i" using Some by (simp add: pointers_of_def)
    ultimately show ?thesis using u c f Some by (simp add: reminder_from_journal_def pointers_def)
  qed
qed

end
