(* ===== verification/Ui_Projection.thy ===== *)
theory Ui_Projection
  imports Prompt_Queue Provider_Output Tool_Lifecycle
begin

text \<open>
  The messages a session shows: typed records (\<open>crates/sessions/src/message.rs\<close>), snapshots
  (\<open>ui_history_types.rs\<close>) and the projection of one record onto the snapshot it belongs to
  (\<open>ui_history_projection.rs\<close>). Parsing a UUID and the texts of materializer errors are
  parameters; a generated identifier is an argument.
\<close>

section \<open>Records\<close>

record user_document =
  doc_display_name :: string
  doc_stored_filename :: string
  doc_mime_type :: string
  doc_size_bytes :: "nat option"
  doc_media_ref :: string
  doc_absolute_path :: "string option"

record persisted_tool_call =
  pc_id :: string
  pc_type :: string
  pc_name :: string
  pc_arguments :: string

record checkpoint_message =
  cp_summary :: string
  cp_created_at :: "nat option"
  cp_model :: "string option"
  cp_provider :: "string option"
  cp_input_tokens :: "nat option"
  cp_output_tokens :: "nat option"
  cp_messages_summarized :: "nat option"

record user_message =
  um_content :: message_content
  um_created_at :: "nat option"
  um_audio :: "string option"
  um_documents :: "user_document list option"
  um_channel :: "json option"
  um_seq :: "nat option"
  um_run_id :: "string option"

record assistant_message =
  am_content :: string
  am_created_at :: "nat option"
  am_model :: "string option"
  am_provider :: "string option"
  am_reasoning_effort :: "string option"
  am_input_tokens :: "nat option"
  am_output_tokens :: "nat option"
  am_cache_read_tokens :: "nat option"
  am_cache_write_tokens :: "nat option"
  am_duration_ms :: "nat option"
  am_request_input_tokens :: "nat option"
  am_request_output_tokens :: "nat option"
  am_request_cache_read_tokens :: "nat option"
  am_request_cache_write_tokens :: "nat option"
  am_tool_calls :: "persisted_tool_call list option"
  am_reasoning :: "reasoning_content option"
  am_provider_items :: "provider_output_item list option"
  am_segment_id :: "string option"
  am_llm_api_response :: "json option"
  am_audio :: "string option"
  am_seq :: "nat option"
  am_run_id :: "string option"

datatype persisted_message =
    PmSystem string "nat option"
  | PmNotice string "nat option"
  | PmCheckpoint checkpoint_message
  | PmUser user_message
  | PmAssistant assistant_message
  | PmTool string string "nat option"
  | PmToolLifecycle tool_lifecycle_event
  | PmProviderUpdate provider_item_update "nat option" "nat option" "string option"
  | PmSegmentClose string provider_segment_outcome "nat option" "nat option" "string option"

fun message_run_id :: "persisted_message \<Rightarrow> string option" where
  "message_run_id (PmUser u) = um_run_id u"
| "message_run_id (PmAssistant a) = am_run_id a"
| "message_run_id (PmProviderUpdate _ _ _ r) = r"
| "message_run_id (PmSegmentClose _ _ _ _ r) = r"
| "message_run_id (PmToolLifecycle l) = lc_run_id l"
| "message_run_id _ = None"

section \<open>Snapshots\<close>

record ui_record =
  ur_message :: persisted_message
  ur_client_message_id :: "string option"
  ur_tts_provider :: "string option"

record ui_provider_error =
  pe_run_id :: string
  pe_segment_id :: "string option"
  pe_created_at :: nat
  pe_raw :: string
  pe_details :: json
  pe_retry_after_ms :: "nat option"

datatype ui_content = UiRecord ui_record | UiError ui_provider_error

fun content_run_id :: "ui_content \<Rightarrow> string option" where
  "content_run_id (UiRecord r) = message_run_id (ur_message r)"
| "content_run_id (UiError e) = Some (pe_run_id e)"

datatype ui_presentation_document = DocText string | DocMarkdown string | DocDiff string

record ui_presentation =
  document :: "ui_presentation_document option"
  metadata :: "string \<Rightarrow> json option"

definition default_presentation :: ui_presentation where
  "default_presentation = \<lparr>document = None, metadata = Map.empty\<rparr>"

record ui_snapshot =
  snap_id :: string
  position :: nat
  revision :: nat
  canonical_committed :: bool
  snap_content :: ui_content
  presentation :: ui_presentation
  accumulated_arguments :: "string option"
  assistant_id :: "string option"
  snap_outcome :: "provider_segment_outcome option"

record ui_canonical_binding =
  bind_start :: nat
  bind_end :: nat
  record_at :: "nat option"

record ui_entry =
  snapshot :: ui_snapshot
  canonical :: "ui_canonical_binding option"
  content_version :: nat
  entry_materializer :: "materializer option"

record ui_run_metadata =
  rm_run_id :: string
  rm_model :: string
  rm_provider :: string
  rm_reasoning_effort :: "string option"

section \<open>Identities\<close>

record ui_env =
  parse_uuid :: "string \<Rightarrow> string + string" \<comment> \<open>the error, or the canonical text\<close>
  materializer_error_text :: "materializer_error \<Rightarrow> string"

definition segment_message_id :: "string \<Rightarrow> string" where
  "segment_message_id s = ''segment:'' @ s"

definition tool_message_id :: "string \<Rightarrow> string \<Rightarrow> string" where
  "tool_message_id run call = ''tool:'' @ show_nat (length run) @ '':'' @ run @ '':'' @ call"

definition validate_client_message_id :: "ui_env \<Rightarrow> string \<Rightarrow> string + unit" where
  "validate_client_message_id env i = (case parse_uuid env i of
     Inl e \<Rightarrow> Inl (''invalid clientMessageId: '' @ e)
   | Inr canon \<Rightarrow> if canon \<noteq> i then Inl ''clientMessageId must be a canonical UUID'' else Inr ())"

definition identity :: "ui_env \<Rightarrow> ui_record \<Rightarrow> string + string option" where
  "identity env r = (case ur_message r of
     PmProviderUpdate u _ _ _ \<Rightarrow> Inr (Some (segment_message_id (upd_segment_id u)))
   | PmSegmentClose s _ _ _ _ \<Rightarrow> Inr (Some (segment_message_id s))
   | PmAssistant a \<Rightarrow> Inr (map_option segment_message_id (am_segment_id a))
   | PmToolLifecycle l \<Rightarrow> (case lc_run_id l of
        None \<Rightarrow> Inl ''UI tool lifecycle requires a run ID''
      | Some run \<Rightarrow> Inr (Some (tool_message_id run (lc_call_id l))))
   | PmUser _ \<Rightarrow> (case ur_client_message_id r of
        None \<Rightarrow> Inr None
      | Some i \<Rightarrow> (case validate_client_message_id env i of Inl e \<Rightarrow> Inl e | Inr _ \<Rightarrow> Inr (Some (''user:'' @ i))))
   | _ \<Rightarrow> Inr None)"

section \<open>Projection\<close>

datatype ui_ingress = Live | Journal

definition plain_record :: "persisted_message \<Rightarrow> ui_record" where
  "plain_record m = \<lparr>ur_message = m, ur_client_message_id = None, ur_tts_provider = None\<rparr>"

definition empty_assistant :: "string \<Rightarrow> ui_run_metadata option \<Rightarrow> assistant_message" where
  "empty_assistant s run =
     \<lparr>am_content = [], am_created_at = None, am_model = map_option rm_model run, am_provider = map_option rm_provider run,
      am_reasoning_effort = Option.bind run rm_reasoning_effort, am_input_tokens = None, am_output_tokens = None,
      am_cache_read_tokens = None, am_cache_write_tokens = None, am_duration_ms = None, am_request_input_tokens = None,
      am_request_output_tokens = None, am_request_cache_read_tokens = None, am_request_cache_write_tokens = None,
      am_tool_calls = None, am_reasoning = None, am_provider_items = None, am_segment_id = Some s,
      am_llm_api_response = None, am_audio = None, am_seq = None, am_run_id = map_option rm_run_id run\<rparr>"

definition initial_entry :: "string \<Rightarrow> nat \<Rightarrow> ui_record \<Rightarrow> ui_entry" where
  "initial_entry i pos r = \<lparr>snapshot = \<lparr>snap_id = i, position = pos, revision = 0, canonical_committed = False, snap_content = UiRecord r,
     presentation = default_presentation, accumulated_arguments = None, assistant_id = None, snap_outcome = None\<rparr>,
     canonical = None, content_version = 0, entry_materializer = None\<rparr>"

text \<open>The assistant record a snapshot shows, if it shows one.\<close>

definition shown_assistant :: "ui_entry \<Rightarrow> (ui_record \<times> assistant_message) option" where
  "shown_assistant e = (case snap_content (snapshot e) of
     UiRecord r \<Rightarrow> (case ur_message r of PmAssistant a \<Rightarrow> Some (r, a) | _ \<Rightarrow> None)
   | UiError _ \<Rightarrow> None)"

definition segment_calls :: "provider_output_item list \<Rightarrow> persisted_tool_call list" where
  "segment_calls xs = List.map_filter (\<lambda>x. case item_payload x of
     FunctionCall c n a \<Rightarrow> Some \<lparr>pc_id = c, pc_type = ''function'', pc_name = n, pc_arguments = a\<rparr> | _ \<Rightarrow> None) xs"

definition or_else_opt :: "'a option \<Rightarrow> 'a option \<Rightarrow> 'a option" where
  "or_else_opt a b = (case a of Some x \<Rightarrow> Some x | None \<Rightarrow> b)"

definition materialized_assistant :: "materializer \<Rightarrow> nat option \<Rightarrow> nat option \<Rightarrow> string option \<Rightarrow> ui_run_metadata option
    \<Rightarrow> assistant_message \<Rightarrow> assistant_message" where
  "materialized_assistant m created sq run_id run a =
     (let calls = segment_calls (items (segment m)) in
      a\<lparr>am_content := (case message_text (segment m) of Some t \<Rightarrow> t | None \<Rightarrow> []),
        am_created_at := or_else_opt (am_created_at a) created,
        am_seq := sq,
        am_run_id := or_else_opt run_id (map_option rm_run_id run),
        am_reasoning := segment_reasoning_content (segment m),
        am_provider_items := Some (items (segment m)),
        am_tool_calls := (if calls = [] then None else Some calls)\<rparr>)"

definition set_content :: "ui_content \<Rightarrow> ui_entry \<Rightarrow> ui_entry" where
  "set_content c e = e\<lparr>snapshot := (snapshot e)\<lparr>snap_content := c\<rparr>\<rparr>"

definition set_outcome :: "provider_segment_outcome \<Rightarrow> ui_entry \<Rightarrow> ui_entry" where
  "set_outcome out e = e\<lparr>snapshot := (snapshot e)\<lparr>snap_outcome := Some out\<rparr>\<rparr>"

definition project_update :: "ui_env \<Rightarrow> provider_item_update \<Rightarrow> nat option \<Rightarrow> nat option \<Rightarrow> string option \<Rightarrow> ui_ingress
    \<Rightarrow> ui_run_metadata option \<Rightarrow> ui_entry \<Rightarrow> string + bool \<times> ui_entry" where
  "project_update env u created sq run_id ingress run e =
     (let m = (case entry_materializer e of Some m \<Rightarrow> m | None \<Rightarrow> materializer_new (upd_segment_id u)); e1 = e\<lparr>entry_materializer := Some m\<rparr> in
      if ingress = Journal \<and> (case last_update_seq m (upd_item_id u) of Some q \<Rightarrow> update_seq u \<le> q | None \<Rightarrow> False) then Inr (False, e1)
      else case apply_update m u of
        (_, Inl x) \<Rightarrow> Inl (materializer_error_text env x)
      | (m', Inr _) \<Rightarrow>
          (let (r, a) = (case shown_assistant e of Some ra \<Rightarrow> ra
             | None \<Rightarrow> (let a = empty_assistant (upd_segment_id u) run in (plain_record (PmAssistant a), a)))
           in Inr (True, set_outcome (outcome (segment m')) (set_content
                (UiRecord (r\<lparr>ur_message := PmAssistant (materialized_assistant m' created sq run_id run a)\<rparr>)) (e1\<lparr>entry_materializer := Some m'\<rparr>)))))"

definition project_close :: "ui_env \<Rightarrow> string \<Rightarrow> provider_segment_outcome \<Rightarrow> ui_ingress \<Rightarrow> ui_run_metadata option
    \<Rightarrow> ui_entry \<Rightarrow> string + bool \<times> ui_entry" where
  "project_close env s out ingress run e =
     (let m = (case entry_materializer e of Some m \<Rightarrow> m | None \<Rightarrow> materializer_new s); e1 = e\<lparr>entry_materializer := Some m\<rparr> in
      if ingress = Journal \<and> outcome (segment m) = out then Inr (False, e1)
      else case close m out of
        (_, Inl x) \<Rightarrow> Inl (materializer_error_text env x)
      | (m', Inr _) \<Rightarrow>
          (let e2 = e1\<lparr>entry_materializer := Some m'\<rparr>;
               e3 = (if shown_assistant e = None then set_content (UiRecord (plain_record (PmAssistant (empty_assistant s run)))) e2 else e2)
           in Inr (True, set_outcome out e3)))"

definition shown_lifecycle :: "ui_entry \<Rightarrow> tool_lifecycle_event option" where
  "shown_lifecycle e = (case snap_content (snapshot e) of
     UiRecord r \<Rightarrow> (case ur_message r of PmToolLifecycle l \<Rightarrow> Some l | _ \<Rightarrow> None)
   | UiError _ \<Rightarrow> None)"

definition add_arguments :: "tool_lifecycle_update \<Rightarrow> ui_entry \<Rightarrow> ui_entry" where
  "add_arguments up e = (case up of
     LcInputStreaming delta \<Rightarrow> e\<lparr>snapshot := (snapshot e)\<lparr>accumulated_arguments :=
       Some ((case accumulated_arguments (snapshot e) of Some a \<Rightarrow> a | None \<Rightarrow> []) @ delta)\<rparr>\<rparr>
   | _ \<Rightarrow> e)"

definition project_lifecycle :: "ui_record \<Rightarrow> tool_lifecycle_event \<Rightarrow> ui_ingress \<Rightarrow> ui_entry \<Rightarrow> string + bool \<times> ui_entry" where
  "project_lifecycle r l ingress e =
     (if (case shown_lifecycle e of Some previous \<Rightarrow> 0 < revision (snapshot e) \<and> lc_sequence l \<le> lc_sequence previous | None \<Rightarrow> False)
      then (if ingress = Journal then Inr (False, e) else Inl ''non-monotonic UI tool lifecycle sequence'')
      else Inr (True, set_content (UiRecord r) (add_arguments (lc_update l) e)))"

definition project_assistant :: "ui_record \<Rightarrow> assistant_message \<Rightarrow> ui_entry \<Rightarrow> string + bool \<times> ui_entry" where
  "project_assistant r a e =
     (if (case entry_materializer e of
            Some m \<Rightarrow> segment_id (segment m) \<noteq> am_segment_id a
              \<or> (case am_provider_items a of Some xs \<Rightarrow> xs \<noteq> items (segment m) | None \<Rightarrow> False)
          | None \<Rightarrow> False)
      then Inl ''assistant snapshot differs from copied canonical provider items''
      else Inr (True, set_content (UiRecord r) e))"

text \<open>The raw provider response is not shown.\<close>

definition without_api_response :: "ui_record \<Rightarrow> ui_record" where
  "without_api_response r = (case ur_message r of
     PmAssistant a \<Rightarrow> r\<lparr>ur_message := PmAssistant (a\<lparr>am_llm_api_response := None\<rparr>)\<rparr> | _ \<Rightarrow> r)"

definition project :: "ui_env \<Rightarrow> ui_entry \<Rightarrow> ui_record \<Rightarrow> ui_ingress \<Rightarrow> ui_run_metadata option \<Rightarrow> string + bool \<times> ui_entry" where
  "project env e record0 ingress run =
     (let r = without_api_response record0 in
      case ur_message r of
        PmProviderUpdate u created sq run_id \<Rightarrow> project_update env u created sq run_id ingress run e
      | PmSegmentClose s out _ _ _ \<Rightarrow> project_close env s out ingress run e
      | PmToolLifecycle l \<Rightarrow> project_lifecycle r l ingress e
      | PmAssistant a \<Rightarrow> project_assistant r a e
      | PmTool _ _ _ \<Rightarrow> Inl ''tool results require a UI lifecycle identity''
      | _ \<Rightarrow> Inr (True, set_content (UiRecord r) e))"

definition active :: "ui_entry \<Rightarrow> bool" where
  "active e \<longleftrightarrow> snap_outcome (snapshot e) = Some Active
     \<or> (case shown_lifecycle e of Some l \<Rightarrow> \<not> is_terminal (stage (lc_update l)) | None \<Rightarrow> False)"

section \<open>What a projection changes\<close>

text \<open>Identity, place and bookkeeping of the snapshot are the caller's.\<close>

definition same_place :: "ui_entry \<Rightarrow> ui_entry \<Rightarrow> bool" where
  "same_place e e' \<longleftrightarrow> snap_id (snapshot e') = snap_id (snapshot e) \<and> position (snapshot e') = position (snapshot e)
     \<and> revision (snapshot e') = revision (snapshot e) \<and> presentation (snapshot e') = presentation (snapshot e)
     \<and> assistant_id (snapshot e') = assistant_id (snapshot e) \<and> canonical e' = canonical e \<and> content_version e' = content_version e"

lemma same_place_simps [simp]:
  "same_place e e" "same_place e (set_content c e') = same_place e e'" "same_place e (set_outcome out e') = same_place e e'"
  "same_place e (e'\<lparr>entry_materializer := m\<rparr>) = same_place e e'" "same_place e (add_arguments up e') = same_place e e'"
  by (auto simp: same_place_def set_content_def set_outcome_def add_arguments_def split: tool_lifecycle_update.split)

lemma update_place: "project_update env u c q rid ingress run e = Inr (b, e') \<Longrightarrow> same_place e e' \<and> (\<not> b \<longrightarrow> ingress = Journal \<and> snapshot e' = snapshot e)"
  by (auto simp: project_update_def Let_def split: if_splits sum.splits prod.splits)

lemma close_place: "project_close env s out ingress run e = Inr (b, e') \<Longrightarrow> same_place e e' \<and> (\<not> b \<longrightarrow> ingress = Journal \<and> snapshot e' = snapshot e)"
  by (auto simp: project_close_def Let_def split: if_splits sum.splits prod.splits)

lemma lifecycle_place: "project_lifecycle r l ingress e = Inr (b, e') \<Longrightarrow> same_place e e' \<and> (\<not> b \<longrightarrow> ingress = Journal \<and> snapshot e' = snapshot e)"
  by (auto simp: project_lifecycle_def split: if_splits)

lemma assistant_place: "project_assistant r a e = Inr (b, e') \<Longrightarrow> same_place e e' \<and> b"
  by (auto simp: project_assistant_def split: if_splits)

lemma project_place:
  assumes "project env e r ingress run = Inr (b, e')"
  shows "same_place e e' \<and> (\<not> b \<longrightarrow> ingress = Journal \<and> snapshot e' = snapshot e)"
proof (cases "ur_message (without_api_response r)")
  case (PmAssistant a)
  then show ?thesis using assms assistant_place by (fastforce simp: project_def)
next
  case (PmToolLifecycle l)
  then show ?thesis using assms lifecycle_place by (simp add: project_def)
next
  case (PmProviderUpdate u c q rid)
  then show ?thesis using assms update_place by (simp add: project_def)
next
  case (PmSegmentClose s out c q rid)
  then show ?thesis using assms close_place by (simp add: project_def)
qed (use assms in \<open>auto simp: project_def\<close>)

text \<open>A tool identity tells the run from the call, whatever characters they have.\<close>

lemma show_nat_no_colon: "CHR '':'' \<notin> set (show_nat n)"
proof (induction n rule: show_nat.induct)
  case (1 n)
  have d: "char_of (48 + k) \<noteq> CHR '':''" if "k < (10::nat)" for k
    using that by (auto simp: char_of_eq_iff take_bit_eq_mod)
  show ?case
  proof (cases "n < 10")
    case True
    then show ?thesis using d [of n] by (subst show_nat.simps) auto
  next
    case False
    then show ?thesis using 1 d [of "n mod 10"] by (subst show_nat.simps) auto
  qed
qed

lemma before_first: "c \<notin> set xs \<Longrightarrow> c \<notin> set ys \<Longrightarrow> xs @ c # as = ys @ c # bs \<Longrightarrow> xs = ys \<and> as = bs"
proof (induction xs arbitrary: ys)
  case Nil
  then show ?case by (cases ys) auto
next
  case (Cons x xs)
  then show ?case by (cases ys) auto
qed

lemma tool_message_id_inject:
  assumes "tool_message_id run call = tool_message_id run' call'"
  shows "run = run' \<and> call = call'"
proof -
  have "show_nat (length run) @ CHR '':'' # run @ '':'' @ call = show_nat (length run') @ CHR '':'' # run' @ '':'' @ call'"
    using assms by (simp add: tool_message_id_def)
  from before_first [OF show_nat_no_colon show_nat_no_colon this]
  have "show_nat (length run) = show_nat (length run')" "run @ '':'' @ call = run' @ '':'' @ call'" by simp_all
  then have "length run = length run'" by (metis show_nat_digits)
  then show ?thesis using \<open>run @ '':'' @ call = run' @ '':'' @ call'\<close> by simp
qed

lemma identities_apart: "segment_message_id s \<noteq> tool_message_id run call" "segment_message_id s \<noteq> ''user:'' @ i" "tool_message_id run call \<noteq> ''user:'' @ i"
  by (simp_all add: segment_message_id_def tool_message_id_def)

end
