(* ===== verification/Ui_Engine.thy ===== *)
theory Ui_Engine
  imports Ui_Projection
begin

text \<open>
  The live history of one session (\<open>crates/sessions/src/ui_history_engine.rs\<close> and
  \<open>ui_history_database.rs\<close>): entries in memory with revisions, their rows in the database, the
  flush between the two, and what subscribers read. A section under the lock of the state is
  one definition; a reader that releases the lock around its query is split there. The error
  a database itself may raise, notifications and logging are left out.
\<close>

section \<open>State\<close>

record registered_run =
  run_metadata :: ui_run_metadata
  run_segment :: "string option"
  last_error :: "(string \<times> string) option"

record ui_state =
  generation :: string
  ui_revision :: nat
  committed_revision :: nat
  next_position :: nat
  total_messages :: nat
  ui_tail :: nat
  entries :: "(string \<times> ui_entry) list"
  pending_appends :: "(string \<times> nat) list"
  runs :: "(string \<times> registered_run) list"
  tool_owners :: "(string \<times> string) list"
  ui_failure :: "string option"

definition out_of_range :: string where
  "out_of_range = ''out of range integral type conversion attempted''"

definition integer :: "nat \<Rightarrow> string + nat" where
  "integer n = (if n < 2 ^ 63 then Inr n else Inl (''UI history integer overflow: '' @ out_of_range))"

definition check :: "ui_state \<Rightarrow> string + unit" where
  "check st = (case ui_failure st of Some f \<Rightarrow> Inl f | None \<Rightarrow> Inr ())"

definition advance :: "ui_state \<Rightarrow> ui_state \<times> (string + nat)" where
  "advance st =
     (if ui_revision st = 2 ^ 64 - 1 then (st, Inl ''UI history revision overflow'')
      else (let st1 = st\<lparr>ui_revision := ui_revision st + 1\<rparr> in
        case integer (ui_revision st1) of Inl e \<Rightarrow> (st1, Inl e) | Inr _ \<Rightarrow> (st1, Inr (ui_revision st1))))"

definition allocate :: "ui_state \<Rightarrow> ui_state \<times> (string + nat)" where
  "allocate st =
     (let pos = next_position st in
      if pos = 2 ^ 64 - 1 then (st, Inl ''UI history position overflow'')
      else (let st1 = st\<lparr>next_position := pos + 1\<rparr> in
        case integer (pos + 1) of
          Inl e \<Rightarrow> (st1, Inl e)
        | Inr _ \<Rightarrow>
            if total_messages st = 2 ^ 32 - 1 then (st1, Inl ''UI history count overflow'')
            else (st1\<lparr>total_messages := total_messages st + 1\<rparr>, Inr pos)))"

section \<open>Projecting and committing\<close>

definition prepare :: "(string \<times> ui_entry) list \<Rightarrow> ui_state \<Rightarrow> ui_state" where
  "prepare es st = st\<lparr>entries := es, pending_appends := []\<rparr>"

definition note_owners :: "string \<Rightarrow> ui_entry \<Rightarrow> (string \<times> string) list \<Rightarrow> (string \<times> string) list" where
  "note_owners i e owners = (case shown_assistant e of
     Some (_, a) \<Rightarrow> (case (am_tool_calls a, am_run_id a) of
         (Some calls, Some run) \<Rightarrow> fold (\<lambda>c. AList.update (tool_message_id run (pc_id c)) i) calls owners
       | _ \<Rightarrow> owners)
   | None \<Rightarrow> owners)"

definition note_segment :: "ui_ingress \<Rightarrow> ui_entry \<Rightarrow> (string \<times> registered_run) list \<Rightarrow> (string \<times> registered_run) list" where
  "note_segment ingress e rs =
     (case (ingress, content_run_id (snap_content (snapshot e)), entry_materializer e) of
        (Live, Some run, Some m) \<Rightarrow> (case map_of rs run of
            Some rr \<Rightarrow> AList.update run (rr\<lparr>run_segment := segment_id (segment m)\<rparr>) rs | None \<Rightarrow> rs)
      | _ \<Rightarrow> rs)"

text \<open>\<open>UiState::project\<close>. It only ever runs on a prepared state, which an error discards.\<close>

definition project_state :: "ui_env \<Rightarrow> string \<Rightarrow> ui_record \<Rightarrow> ui_ingress \<Rightarrow> ui_state \<Rightarrow> string + ui_state" where
  "project_state env i r ingress st =
     (let run = Option.bind (message_run_id (ur_message r)) (\<lambda>k. map_option run_metadata (map_of (runs st) k));
          e0 = (case map_of (entries st) i of Some e \<Rightarrow> e | None \<Rightarrow> initial_entry i (next_position st) r) in
      case project env e0 r ingress run of
        Inl x \<Rightarrow> Inl x
      | Inr (False, _) \<Rightarrow> Inr st
      | Inr (True, e1) \<Rightarrow>
          (case (if map_of (entries st) i = None then allocate st else (st, Inr (position (snapshot e1)))) of
             (_, Inl x) \<Rightarrow> Inl x
           | (st1, Inr pos) \<Rightarrow>
               if content_version e1 = 2 ^ 64 - 1 then Inl ''UI content version overflow''
               else
                 (let e2 = e1\<lparr>content_version := content_version e1 + 1, snapshot := (snapshot e1)\<lparr>position := pos, canonical_committed := False,
                        assistant_id := or_else_opt (map_of (tool_owners st1) i) (assistant_id (snapshot e1))\<rparr>\<rparr>;
                      st2 = st1\<lparr>tool_owners := note_owners i e2 (tool_owners st1), runs := note_segment ingress e2 (runs st1)\<rparr> in
                  case advance st2 of
                    (_, Inl x) \<Rightarrow> Inl x
                  | (st3, Inr rv) \<Rightarrow>
                      Inr (st3\<lparr>entries := bt_insert i (e2\<lparr>snapshot := (snapshot e2)\<lparr>revision := rv\<rparr>\<rparr>) (entries st3)\<rparr>))))"

definition own :: "(string \<times> string) list \<Rightarrow> nat \<Rightarrow> string \<Rightarrow> ui_entry \<Rightarrow> ui_entry" where
  "own owners rv i e = (case map_of owners i of
     Some owner \<Rightarrow> if assistant_id (snapshot e) \<noteq> Some owner
       then e\<lparr>snapshot := (snapshot e)\<lparr>assistant_id := Some owner, revision := rv\<rparr>\<rparr> else e
   | None \<Rightarrow> e)"

definition commit :: "ui_state \<Rightarrow> ui_state \<Rightarrow> ui_state" where
  "commit prepared st = st\<lparr>ui_revision := ui_revision prepared, next_position := next_position prepared,
     total_messages := total_messages prepared,
     entries := map (\<lambda>(i, e). (i, own (tool_owners prepared) (ui_revision prepared) i e))
       (fold (\<lambda>(i, e). bt_insert i e) (entries prepared) (entries st)),
     tool_owners := tool_owners prepared, runs := runs prepared\<rparr>"

section \<open>Copying live\<close>

definition ingest :: "ui_env \<Rightarrow> string \<Rightarrow> ui_record \<Rightarrow> ui_ingress \<Rightarrow> string option \<Rightarrow> ui_state \<Rightarrow> ui_state \<times> (string + string)" where
  "ingest env fresh r ingress expected st = (case check st of
     Inl x \<Rightarrow> (st, Inl x)
   | Inr _ \<Rightarrow>
       if (case expected of Some g \<Rightarrow> g \<noteq> generation st | None \<Rightarrow> False)
         \<or> (case message_run_id (ur_message r) of Some k \<Rightarrow> map_of (runs st) k = None | None \<Rightarrow> True)
       then (st, Inl ''copied stream belongs to an inactive UI history run'')
       else (case identity env r of
          Inl x \<Rightarrow> (st, Inl x)
        | Inr oi \<Rightarrow>
            (let i = (case oi of Some j \<Rightarrow> j | None \<Rightarrow> fresh);
                 es = (case map_of (entries st) i of Some e \<Rightarrow> [(i, e)] | None \<Rightarrow> []) in
             case project_state env i r ingress (prepare es st) of
               Inl x \<Rightarrow> (st, Inl x)
             | Inr prepared \<Rightarrow> (commit prepared st, Inr i))))"

fun with_run_id :: "string \<Rightarrow> persisted_message \<Rightarrow> persisted_message" where
  "with_run_id run (PmProviderUpdate u c q _) = PmProviderUpdate u c q (Some run)"
| "with_run_id run (PmSegmentClose s out c q _) = PmSegmentClose s out c q (Some run)"
| "with_run_id run (PmAssistant a) = PmAssistant (a\<lparr>am_run_id := Some run\<rparr>)"
| "with_run_id run (PmUser u) = PmUser (u\<lparr>um_run_id := Some run\<rparr>)"
| "with_run_id run (PmToolLifecycle l) = PmToolLifecycle (l\<lparr>lc_run_id := Some run\<rparr>)"
| "with_run_id run m = m"

definition copy_message :: "ui_env \<Rightarrow> string \<Rightarrow> string \<Rightarrow> string \<Rightarrow> persisted_message \<Rightarrow> ui_state \<Rightarrow> ui_state \<times> (string + string)" where
  "copy_message env fresh gen run m st =
     (if (case message_run_id m of Some k \<Rightarrow> k \<noteq> run | None \<Rightarrow> False)
      then (st, Inl ''copied provider item has a different run ID'')
      else ingest env fresh (plain_record (with_run_id run m)) Live (Some gen) st)"

section \<open>Staging for the journal\<close>

record ui_append_receipt =
  rcpt_id :: string
  commits_snapshot :: bool
  semantic_record :: bool
  rcpt_generation :: string
  rcpt_version :: nat

fun identify :: "ui_env \<Rightarrow> string list \<Rightarrow> ui_record list \<Rightarrow> string + (string \<times> ui_record) list" where
  "identify env fresh [] = Inr []"
| "identify env fresh (r # rs) = (case identity env r of
     Inl x \<Rightarrow> Inl x
   | Inr oi \<Rightarrow> (case identify env (tl fresh) rs of
        Inl x \<Rightarrow> Inl x | Inr irs \<Rightarrow> Inr ((case oi of Some i \<Rightarrow> i | None \<Rightarrow> hd fresh, r) # irs)))"

definition is_user :: "ui_record \<Rightarrow> bool" where
  "is_user r = (case ur_message r of PmUser _ \<Rightarrow> True | _ \<Rightarrow> False)"

definition receipt_for :: "string \<Rightarrow> ui_record \<Rightarrow> ui_entry option \<Rightarrow> string \<Rightarrow> nat \<Rightarrow> ui_append_receipt" where
  "receipt_for i r before gen version = \<lparr>rcpt_id = i,
     commits_snapshot = (case ur_message r of
        PmProviderUpdate _ _ _ _ \<Rightarrow> False
      | PmToolLifecycle l \<Rightarrow> (case Option.bind before shown_lifecycle of Some previous \<Rightarrow> lc_sequence previous \<le> lc_sequence l | None \<Rightarrow> True)
      | _ \<Rightarrow> True),
     semantic_record = (case ur_message r of PmProviderUpdate _ _ _ _ \<Rightarrow> False | PmSegmentClose _ _ _ _ _ \<Rightarrow> False | _ \<Rightarrow> True),
     rcpt_generation = gen, rcpt_version = version\<rparr>"

fun stage_loop :: "ui_env \<Rightarrow> string \<Rightarrow> (string \<times> ui_record) list \<Rightarrow> ui_state \<Rightarrow> string + ui_state \<times> ui_append_receipt list" where
  "stage_loop env gen [] p = Inr (p, [])"
| "stage_loop env gen ((i, r) # irs) p =
     (if is_user r \<and> map_of (entries p) i \<noteq> None then Inl ''clientMessageId already exists in this session''
      else case project_state env i r Journal p of
        Inl x \<Rightarrow> Inl x
      | Inr p1 \<Rightarrow>
          (case map_of (entries p1) i of
             None \<Rightarrow> Inl ''staged UI entry is missing''
           | Some e \<Rightarrow>
               (case stage_loop env gen irs p1 of
                  Inl x \<Rightarrow> Inl x
                | Inr (p2, rcs) \<Rightarrow> Inr (p2, receipt_for i r (map_of (entries p) i) gen (content_version e) # rcs))))"

definition count_pending :: "string \<Rightarrow> (string \<times> nat) list \<Rightarrow> (string \<times> nat) list" where
  "count_pending i ps = AList.update i ((case map_of ps i of Some n \<Rightarrow> n | None \<Rightarrow> 0) + 1) ps"

text \<open>The generation and the rows in \<open>loaded\<close> were read before the lock was taken.\<close>

definition stage_batch :: "ui_env \<Rightarrow> string \<Rightarrow> (string \<times> ui_entry) list \<Rightarrow> (string \<times> ui_record) list \<Rightarrow> ui_state
    \<Rightarrow> ui_state \<times> (string + ui_append_receipt list)" where
  "stage_batch env gen loaded irs st = (case check st of
     Inl x \<Rightarrow> (st, Inl x)
   | Inr _ \<Rightarrow>
       if generation st \<noteq> gen then (st, Inl ''UI history changed during staging'')
       else
         (let es = fold (\<lambda>(i, _) acc. case map_of (entries st) i of Some e \<Rightarrow> bt_insert i e acc | None \<Rightarrow> acc) irs loaded in
          case stage_loop env gen irs (prepare es st) of
            Inl x \<Rightarrow> (st, Inl x)
          | Inr (prepared, rcs) \<Rightarrow>
              (let st1 = commit prepared st in
               (st1\<lparr>pending_appends := fold (count_pending \<circ> rcpt_id) rcs (pending_appends st1)\<rparr>, Inr rcs))))"

definition bound :: "nat \<Rightarrow> ui_append_receipt \<Rightarrow> ui_canonical_binding option \<Rightarrow> ui_canonical_binding" where
  "bound idx rcp old = (case old of
     Some b \<Rightarrow> \<lparr>bind_start = min (bind_start b) idx, bind_end = max (bind_end b) (idx + 1),
       record_at = (if semantic_record rcp then Some idx else record_at b)\<rparr>
   | None \<Rightarrow> \<lparr>bind_start = idx, bind_end = idx + 1, record_at = (if semantic_record rcp then Some idx else None)\<rparr>)"

definition bind_receipt :: "ui_append_receipt \<Rightarrow> nat \<Rightarrow> ui_state \<Rightarrow> ui_state \<times> (string + unit)" where
  "bind_receipt rcp idx st = (case check st of
     Inl x \<Rightarrow> (st, Inl x)
   | Inr _ \<Rightarrow>
       if generation st \<noteq> rcpt_generation rcp \<or> map_of (pending_appends st) (rcpt_id rcp) = None
       then (st, Inl ''obsolete or duplicate UI append receipt'')
       else if idx = 2 ^ 64 - 1 then (st, Inl ''canonical history index overflow'')
       else (case advance st of
          (st1, Inl x) \<Rightarrow> (st1, Inl x)
        | (st1, Inr rv) \<Rightarrow>
            (case map_of (entries st1) (rcpt_id rcp) of
               None \<Rightarrow> (st1, Inl ''UI append receipt has no snapshot'')
             | Some e \<Rightarrow>
                 (let e1 = e\<lparr>canonical := Some (bound idx rcp (canonical e)),
                        snapshot := (snapshot e)\<lparr>canonical_committed := canonical_committed (snapshot e)
                          \<or> commits_snapshot rcp \<and> content_version e = rcpt_version rcp, revision := rv\<rparr>\<rparr>;
                      left = (case map_of (pending_appends st1) (rcpt_id rcp) of Some n \<Rightarrow> n - 1 | None \<Rightarrow> 0) in
                  (st1\<lparr>entries := bt_insert (rcpt_id rcp) e1 (entries st1), ui_tail := max (ui_tail st1) (idx + 1),
                     pending_appends := (if left = 0 then AList.delete (rcpt_id rcp) (pending_appends st1)
                       else AList.update (rcpt_id rcp) left (pending_appends st1))\<rparr>, Inr ())))))"

section \<open>Runs and errors\<close>

definition begin_run :: "ui_run_metadata \<Rightarrow> ui_state \<Rightarrow> ui_state \<times> (string + unit)" where
  "begin_run md st = (case check st of
     Inl x \<Rightarrow> (st, Inl x)
   | Inr _ \<Rightarrow>
       if map_of (runs st) (rm_run_id md) \<noteq> None then (st, Inl ''UI history run is already registered'')
       else (st\<lparr>runs := AList.update (rm_run_id md) \<lparr>run_metadata = md, run_segment = None, last_error = None\<rparr> (runs st)\<rparr>, Inr ()))"

definition fail_history :: "string \<Rightarrow> ui_state \<Rightarrow> ui_state" where
  "fail_history e st = (if ui_failure st = None then fst (advance (st\<lparr>ui_failure := Some e\<rparr>)) else st)"

definition insert_error :: "string \<Rightarrow> ui_provider_error \<Rightarrow> string option \<Rightarrow> ui_state \<Rightarrow> ui_state \<times> (string + string)" where
  "insert_error fresh pe expected st = (case check st of
     Inl x \<Rightarrow> (st, Inl x)
   | Inr _ \<Rightarrow>
       if (case expected of Some g \<Rightarrow> g \<noteq> generation st \<or> map_of (runs st) (pe_run_id pe) = None | None \<Rightarrow> False)
       then (st, Inl ''obsolete UI history run'')
       else
         (let (pe1, st1) = (case map_of (runs st) (pe_run_id pe) of
                Some rr \<Rightarrow> (if pe_segment_id pe = None then pe\<lparr>pe_segment_id := run_segment rr\<rparr> else pe,
                  st\<lparr>runs := AList.update (pe_run_id pe) (rr\<lparr>last_error := Some (fresh, pe_raw pe)\<rparr>) (runs st)\<rparr>)
              | None \<Rightarrow> (pe, st))
          in case allocate st1 of
               (st2, Inl x) \<Rightarrow> (st2, Inl x)
             | (st2, Inr pos) \<Rightarrow> (case advance st2 of
                  (st3, Inl x) \<Rightarrow> (st3, Inl x)
                | (st3, Inr rv) \<Rightarrow>
                    (st3\<lparr>entries := bt_insert fresh \<lparr>snapshot = \<lparr>snap_id = fresh, position = pos, revision = rv, canonical_committed = False,
                        snap_content = UiError pe1, presentation = default_presentation, accumulated_arguments = None,
                        assistant_id = None, snap_outcome = None\<rparr>, canonical = None, content_version = 0, entry_materializer = None\<rparr> (entries st3)\<rparr>,
                     Inr fresh))))"

definition with_run :: "string \<Rightarrow> string \<Rightarrow> (registered_run \<Rightarrow> registered_run) \<Rightarrow> ui_state \<Rightarrow> ui_state \<times> (string + registered_run)" where
  "with_run gen run f st = (case check st of
     Inl x \<Rightarrow> (st, Inl x)
   | Inr _ \<Rightarrow>
       if generation st \<noteq> gen then (st, Inl ''obsolete UI history run'')
       else (case map_of (runs st) run of
          None \<Rightarrow> (st, Inl ''UI history run is inactive'')
        | Some rr \<Rightarrow> (st\<lparr>runs := AList.update run (f rr) (runs st)\<rparr>, Inr rr)))"

definition start_attempt :: "string \<Rightarrow> string \<Rightarrow> string option \<Rightarrow> ui_state \<Rightarrow> ui_state \<times> (string + registered_run)" where
  "start_attempt gen run seg = with_run gen run (\<lambda>rr. rr\<lparr>run_segment := seg, last_error := None\<rparr>)"

definition recorded_error :: "string \<Rightarrow> string \<Rightarrow> string \<Rightarrow> ui_state \<Rightarrow> string + string option" where
  "recorded_error gen run raw st = (case snd (with_run gen run id st) of
     Inl x \<Rightarrow> Inl x
   | Inr rr \<Rightarrow> Inr (case last_error rr of Some (i, previous) \<Rightarrow> if previous = raw then Some i else None | None \<Rightarrow> None))"

definition mutate_presentation :: "string \<Rightarrow> string \<Rightarrow> string \<Rightarrow> (ui_presentation \<Rightarrow> ui_presentation) \<Rightarrow> ui_state \<Rightarrow> ui_state \<times> (string + unit)" where
  "mutate_presentation gen run i f st = (case check st of
     Inl x \<Rightarrow> (st, Inl x)
   | Inr _ \<Rightarrow>
       if generation st \<noteq> gen \<or> map_of (runs st) run = None then (st, Inl ''obsolete UI history run'')
       else (case map_of (entries st) i of
          None \<Rightarrow> (st, Inl ''UI presentation target does not belong to this run'')
        | Some e \<Rightarrow>
            if content_run_id (snap_content (snapshot e)) \<noteq> Some run then (st, Inl ''UI presentation target does not belong to this run'')
            else (case advance st of
               (st1, Inl x) \<Rightarrow> (st1, Inl x)
             | (st1, Inr rv) \<Rightarrow>
                 (st1\<lparr>entries := bt_insert i (e\<lparr>snapshot := (snapshot e)\<lparr>presentation := f (presentation (snapshot e)), revision := rv\<rparr>\<rparr>) (entries st1)\<rparr>, Inr ()))))"

definition merge_metadata :: "string \<Rightarrow> string \<Rightarrow> string \<Rightarrow> (string \<Rightarrow> json option) \<Rightarrow> ui_state \<Rightarrow> ui_state \<times> (string + unit)" where
  "merge_metadata gen run i md = mutate_presentation gen run i (\<lambda>p. p\<lparr>metadata := metadata p ++ md\<rparr>)"

definition present_document :: "string \<Rightarrow> string \<Rightarrow> string \<Rightarrow> ui_presentation \<Rightarrow> ui_state \<Rightarrow> ui_state \<times> (string + unit)" where
  "present_document gen run i new = mutate_presentation gen run i (\<lambda>p. \<lparr>document = document new, metadata = metadata p ++ metadata new\<rparr>)"

definition unfinished :: "ui_entry \<Rightarrow> bool" where
  "unfinished e \<longleftrightarrow> (case snap_content (snapshot e) of UiRecord _ \<Rightarrow> \<not> canonical_committed (snapshot e) \<or> active e | UiError _ \<Rightarrow> False)"

definition of_run :: "string \<Rightarrow> ui_entry \<Rightarrow> bool" where
  "of_run run e \<longleftrightarrow> content_run_id (snap_content (snapshot e)) = Some run"

definition finish_registered :: "string \<Rightarrow> string \<Rightarrow> ui_state \<Rightarrow> ui_state \<times> (string + unit)" where
  "finish_registered gen run st =
     (if generation st \<noteq> gen \<or> map_of (runs st) run = None then (st, Inl ''obsolete UI history run'')
      else case
        (if \<exists>(i, e) \<in> set (entries st). map_of (pending_appends st) i \<noteq> None \<and> of_run run e
           then Some ''UI run still has pending canonical receipts''
         else if \<exists>(i, e) \<in> set (entries st). of_run run e \<and> unfinished e then Some ''UI run contains unfinished canonical content''
         else None) of
        Some failure \<Rightarrow>
          (case advance (st\<lparr>ui_failure := Some failure\<rparr>) of (st1, Inl x) \<Rightarrow> (st1, Inl x) | (st1, Inr _) \<Rightarrow> (st1, Inl failure))
      | None \<Rightarrow>
          (let st1 = st\<lparr>runs := AList.delete run (runs st),
                 entries := filter (\<lambda>(i, e). committed_revision st < revision (snapshot e) \<or> \<not> of_run run e) (entries st),
                 tool_owners := filter (\<lambda>(t, _). \<not> starts_with t (tool_message_id run [])) (tool_owners st)\<rparr>
           in (st1, check st1)))"

section \<open>The database\<close>

record ui_row =
  row_position :: nat
  row_entry :: ui_entry

record ui_store =
  db_generation :: string
  db_revision :: nat
  db_next_position :: nat
  db_total :: nat
  db_failure :: "string option"
  db_rows :: "(string \<times> ui_row) list"

definition fits :: "ui_entry \<Rightarrow> string + unit" where
  "fits e = (case integer (position (snapshot e)) of
     Inl x \<Rightarrow> Inl x
   | Inr _ \<Rightarrow> (case integer (revision (snapshot e)) of
       Inl x \<Rightarrow> Inl x
     | Inr _ \<Rightarrow>
         if (case canonical e of Some b \<Rightarrow> 2 ^ 63 \<le> bind_start b \<or> 2 ^ 63 \<le> bind_end b
             \<or> (case record_at b of Some i \<Rightarrow> 2 ^ 63 \<le> i | None \<Rightarrow> False) | None \<Rightarrow> False)
         then Inl out_of_range else Inr ()))"

text \<open>On conflict the position of the row stays.\<close>

definition upsert :: "ui_entry \<Rightarrow> (string \<times> ui_row) list \<Rightarrow> (string \<times> ui_row) list" where
  "upsert e rws = (let i = snap_id (snapshot e) in
     bt_insert i \<lparr>row_position = (case map_of rws i of Some r \<Rightarrow> row_position r | None \<Rightarrow> position (snapshot e)), row_entry = e\<rparr> rws)"

fun write_entries :: "ui_entry list \<Rightarrow> (string \<times> ui_row) list \<Rightarrow> string + (string \<times> ui_row) list" where
  "write_entries [] rws = Inr rws"
| "write_entries (e # es) rws = (case fits e of Inl x \<Rightarrow> Inl x | Inr _ \<Rightarrow> write_entries es (upsert e rws))"

definition load_state :: "nat \<Rightarrow> ui_store \<Rightarrow> ui_state" where
  "load_state tail db = \<lparr>generation = db_generation db, ui_revision = db_revision db, committed_revision = db_revision db,
     next_position = db_next_position db, total_messages = db_total db, ui_tail = tail, entries = [], pending_appends = [],
     runs = [], tool_owners = [], ui_failure = db_failure db\<rparr>"

section \<open>Flushing\<close>

record flush_job =
  job_generation :: string
  job_from :: nat
  job_revision :: nat
  job_next_position :: nat
  job_total :: nat
  job_failure :: "string option"
  job_entries :: "ui_entry list"

definition flush_begin :: "nat \<Rightarrow> ui_state \<Rightarrow> flush_job option" where
  "flush_begin progress st =
     (if ui_revision st = progress then None
      else Some \<lparr>job_generation = generation st, job_from = progress, job_revision = ui_revision st, job_next_position = next_position st,
        job_total = total_messages st, job_failure = ui_failure st,
        job_entries = map snd (filter (\<lambda>(_, e). progress < revision (snapshot e)) (entries st))\<rparr>)"

definition flush_write :: "flush_job \<Rightarrow> ui_store \<Rightarrow> ui_store \<times> (string + unit)" where
  "flush_write job db = (case integer (job_revision job) of
     Inl x \<Rightarrow> (db, Inl x)
   | Inr _ \<Rightarrow> (case integer (job_next_position job) of
       Inl x \<Rightarrow> (db, Inl x)
     | Inr _ \<Rightarrow>
         if db_generation db \<noteq> job_generation job \<or> db_revision db \<noteq> job_from job
         then (db, Inl ''UI history persistence generation/revision conflict'')
         else (case write_entries (job_entries job) (db_rows db) of
            Inl x \<Rightarrow> (db, Inl x)
          | Inr rws \<Rightarrow> (db\<lparr>db_revision := job_revision job, db_next_position := job_next_position job, db_total := job_total job,
              db_failure := job_failure job, db_rows := rws\<rparr>, Inr ()))))"

definition flush_end :: "flush_job \<Rightarrow> ui_state \<Rightarrow> ui_state \<times> (string + unit)" where
  "flush_end job st =
     (if generation st \<noteq> job_generation job then (st, Inl ''UI history changed during flush'')
      else (let st1 = st\<lparr>committed_revision := job_revision job,
              entries := filter (\<lambda>(i, e). map_of (pending_appends st) i \<noteq> None \<or> job_revision job < revision (snapshot e) \<or> active e
                \<or> (case content_run_id (snap_content (snapshot e)) of Some run \<Rightarrow> map_of (runs st) run \<noteq> None | None \<Rightarrow> False)) (entries st)\<rparr>
            in (st1, check st1)))"

section \<open>What readers are given\<close>

text \<open>Rows that were read are overlaid with the entries in memory, by identity.\<close>

definition overlay :: "ui_entry list \<Rightarrow> (string \<times> ui_entry) list \<Rightarrow> (string \<times> ui_snapshot) list" where
  "overlay rws es = fold (\<lambda>(_, e). bt_insert (snap_id (snapshot e)) (snapshot e)) es
     (fold (\<lambda>e. bt_insert (snap_id (snapshot e)) (snapshot e)) rws [])"

record ui_history_batch =
  batch_generation :: string
  from_revision :: nat
  batch_revision :: nat
  batch_total :: nat
  batch_history :: "ui_snapshot list"

datatype 'a answer = Retry | Obsolete | Answer 'a

definition updates_begin :: "string \<Rightarrow> nat \<Rightarrow> nat \<Rightarrow> ui_state \<Rightarrow> string + nat option" where
  "updates_begin gen since limit st =
     (if limit = 0 then Inl ''UI update limit must be positive''
      else if 2 ^ 63 \<le> limit + 1 then Inl ''UI update limit overflow''
      else case check st of
        Inl x \<Rightarrow> Inl x
      | Inr _ \<Rightarrow>
          if generation st \<noteq> gen then Inr None
          else if ui_revision st < since then Inl ''UI revision is ahead of the server''
          else Inr (Some (committed_revision st)))"

definition updates_query :: "nat \<Rightarrow> nat \<Rightarrow> nat \<Rightarrow> ui_store \<Rightarrow> string + ui_entry list" where
  "updates_query committed since limit db =
     (if committed \<le> since then Inr []
      else case integer since of
        Inl x \<Rightarrow> Inl x
      | Inr _ \<Rightarrow> Inr (map row_entry (take (limit + 1) (sort_key row_position
          (filter (\<lambda>r. since < revision (snapshot (row_entry r))) (map snd (db_rows db)))))))"

definition updates_finish :: "string \<Rightarrow> nat \<Rightarrow> nat \<Rightarrow> nat \<Rightarrow> ui_entry list \<Rightarrow> ui_state \<Rightarrow> string + ui_history_batch answer" where
  "updates_finish gen since limit committed rws st = (case check st of
     Inl x \<Rightarrow> Inl x
   | Inr _ \<Rightarrow>
       if generation st \<noteq> gen then Inr Obsolete
       else if committed_revision st \<noteq> committed then Inr Retry
       else if limit < length (overlay rws []) then Inr Obsolete
       else
         (let merged = overlay rws (filter (\<lambda>(_, e). since < revision (snapshot e)) (entries st)) in
          if limit < length merged then Inr Obsolete
          else Inr (Answer \<lparr>batch_generation = generation st, from_revision = since, batch_revision = ui_revision st,
            batch_total = total_messages st, batch_history = sort_key position (map snd merged)\<rparr>)))"

definition find_entry :: "ui_state \<Rightarrow> ui_store \<Rightarrow> string \<Rightarrow> ui_entry option" where
  "find_entry st db i = (case map_of (entries st) i of Some e \<Rightarrow> Some e | None \<Rightarrow> map_option row_entry (map_of (db_rows db) i))"

datatype ui_history_range = Latest | Before nat | After nat | Around string | Window nat "nat option"

record page_bounds =
  lower :: "nat option"
  upper :: "nat option"
  newest :: bool
  around :: "nat option"

record ui_history_page =
  page_generation :: string
  page_revision :: nat
  page_total :: nat
  history :: "ui_snapshot list"
  has_older :: bool
  has_newer :: bool
  first_position :: "nat option"
  last_position :: "nat option"

text \<open>The target of an \<open>Around\<close> range was looked up first, with the generation of then.\<close>

definition page_begin :: "ui_history_range \<Rightarrow> (string \<times> nat) option \<Rightarrow> ui_state \<Rightarrow> string + string \<times> nat \<times> page_bounds" where
  "page_begin rg target st = (case check st of
     Inl x \<Rightarrow> Inl x
   | Inr _ \<Rightarrow>
       (case (case rg of
            Latest \<Rightarrow> Inr \<lparr>lower = None, upper = None, newest = True, around = None\<rparr>
          | Before p \<Rightarrow> Inr \<lparr>lower = None, upper = Some p, newest = True, around = None\<rparr>
          | After p \<Rightarrow> Inr \<lparr>lower = Some p, upper = None, newest = False, around = None\<rparr>
          | Window a b \<Rightarrow>
              if (case b of Some q \<Rightarrow> q \<le> a | None \<Rightarrow> False) then Inl ''invalid UI history window''
              else Inr \<lparr>lower = (if a = 0 then None else Some (a - 1)), upper = b, newest = (b = None), around = None\<rparr>
          | Around _ \<Rightarrow>
              (case target of
                 None \<Rightarrow> Inl ''UI history target is missing''
               | Some (g, p) \<Rightarrow> if generation st \<noteq> g then Inl ''UI history generation changed''
                   else Inr \<lparr>lower = None, upper = None, newest = True, around = Some p\<rparr>)) of
          Inl x \<Rightarrow> Inl x
        | Inr b \<Rightarrow> Inr (generation st, committed_revision st, b)))"

definition in_bounds :: "nat option \<Rightarrow> nat option \<Rightarrow> nat \<Rightarrow> bool" where
  "in_bounds lo up p \<longleftrightarrow> (case lo of Some l \<Rightarrow> l < p | None \<Rightarrow> True) \<and> (case up of Some u \<Rightarrow> p < u | None \<Rightarrow> True)"

definition db_entries :: "nat option \<Rightarrow> nat option \<Rightarrow> bool \<Rightarrow> nat \<Rightarrow> ui_store \<Rightarrow> ui_entry list" where
  "db_entries lo up newest_first limit db =
     (let rs = sort_key row_position (filter (\<lambda>r. in_bounds lo up (row_position r)) (map snd (db_rows db)))
      in map row_entry (take limit (if newest_first then rev rs else rs)))"

definition page_query :: "page_bounds \<Rightarrow> nat \<Rightarrow> ui_store \<Rightarrow> ui_entry list" where
  "page_query b limit db = (case around b of
     Some p \<Rightarrow> db_entries None (Some p) True limit db @ db_entries (if p = 0 then None else Some (p - 1)) None False limit db
   | None \<Rightarrow> db_entries (lower b) (upper b) (newest b) limit db)"

definition abs_diff :: "nat \<Rightarrow> nat \<Rightarrow> nat" where
  "abs_diff a b = (if a \<le> b then b - a else a - b)"

definition select_snapshots :: "page_bounds \<Rightarrow> nat \<Rightarrow> ui_snapshot list \<Rightarrow> ui_snapshot list" where
  "select_snapshots b limit snaps = (let inside = filter (\<lambda>s. in_bounds (lower b) (upper b) (position s)) snaps in
     sort_key position (take limit
       (case around b of
          Some p \<Rightarrow> sort_key (\<lambda>s. abs_diff (position s) p) (sort_key position inside)
        | None \<Rightarrow> if newest b then rev (sort_key position inside) else sort_key position inside)))"

definition page_finish :: "string \<Rightarrow> nat \<Rightarrow> page_bounds \<Rightarrow> nat \<Rightarrow> ui_entry list \<Rightarrow> ui_state \<Rightarrow> string + ui_history_page answer" where
  "page_finish gen committed b limit rws st = (case check st of
     Inl x \<Rightarrow> Inl x
   | Inr _ \<Rightarrow>
       if generation st \<noteq> gen \<or> committed_revision st \<noteq> committed then Inr Retry
       else
         (let h = select_snapshots b limit (map snd (overlay rws (entries st)));
              f = (case h of [] \<Rightarrow> None | s # _ \<Rightarrow> Some (position s)); l = (if h = [] then None else Some (position (last h))) in
          Inr (Answer \<lparr>page_generation = gen, page_revision = ui_revision st, page_total = total_messages st, history = h,
            has_older = (case f of Some p \<Rightarrow> 0 < p | None \<Rightarrow> False),
            has_newer = (case l of Some p \<Rightarrow> p + 1 < next_position st | None \<Rightarrow> False), first_position = f, last_position = l\<rparr>)))"

text \<open>The snapshots of one run.\<close>

definition run_query :: "string \<Rightarrow> ui_store \<Rightarrow> ui_entry list" where
  "run_query run db = map row_entry (sort_key row_position (filter (\<lambda>r. of_run run (row_entry r)) (map snd (db_rows db))))"

definition read_run_finish :: "string \<Rightarrow> string \<Rightarrow> nat \<Rightarrow> ui_entry list \<Rightarrow> ui_state \<Rightarrow> string + ui_snapshot list answer" where
  "read_run_finish run gen committed rws st = (case check st of
     Inl x \<Rightarrow> Inl x
   | Inr _ \<Rightarrow>
       if generation st \<noteq> gen \<or> committed_revision st \<noteq> committed then Inr Retry
       else Inr (Answer (sort_key position (map snd (filter (\<lambda>(i, _). i \<notin> fst ` set (entries st) \<or>
         (\<exists>e. map_of (entries st) i = Some e \<and> of_run run e)) (overlay rws (filter (\<lambda>(_, e). of_run run e) (entries st))))))))"

section \<open>Changes to what is stored\<close>

text \<open>The snapshot of a canonical record, and its replacement.\<close>

definition record_query :: "nat \<Rightarrow> ui_store \<Rightarrow> ui_entry option" where
  "record_query idx db = map_option row_entry (find (\<lambda>r. Option.bind (canonical (row_entry r)) record_at = Some idx) (map snd (db_rows db)))"

definition prepare_record_update :: "nat \<Rightarrow> string \<Rightarrow> nat \<Rightarrow> ui_entry option \<Rightarrow> ui_state \<Rightarrow> string + (string \<times> ui_entry) answer" where
  "prepare_record_update idx gen committed stored st = (case check st of
     Inl x \<Rightarrow> Inl x
   | Inr _ \<Rightarrow>
       if generation st \<noteq> gen \<or> committed_revision st \<noteq> committed then Inr Retry
       else (case or_else_opt (find (\<lambda>e. Option.bind (canonical e) record_at = Some idx) (map snd (entries st))) stored of
          None \<Rightarrow> Inl ''canonical record has no semantic snapshot''
        | Some e \<Rightarrow>
            if map_of (pending_appends st) (snap_id (snapshot e)) \<noteq> None then Inl ''canonical record still has pending appends''
            else Inr (Answer (gen, e))))"

fun discriminant :: "persisted_message \<Rightarrow> nat" where
  "discriminant (PmSystem _ _) = 0"
| "discriminant (PmNotice _ _) = 1"
| "discriminant (PmCheckpoint _) = 2"
| "discriminant (PmUser _) = 3"
| "discriminant (PmAssistant _) = 4"
| "discriminant (PmTool _ _ _) = 5"
| "discriminant (PmToolLifecycle _) = 6"
| "discriminant (PmProviderUpdate _ _ _ _) = 7"
| "discriminant (PmSegmentClose _ _ _ _ _) = 8"

definition validate_record_update :: "ui_env \<Rightarrow> ui_entry \<Rightarrow> ui_record \<Rightarrow> string + ui_entry" where
  "validate_record_update env e r =
     (if \<not> canonical_committed (snapshot e) \<or> active e then Inl ''only confirmed inactive records can be updated''
      else case snap_content (snapshot e) of
        UiError _ \<Rightarrow> Inl ''canonical update requires a semantic record''
      | UiRecord old \<Rightarrow>
          if discriminant (ur_message old) \<noteq> discriminant (ur_message r) \<or> message_run_id (ur_message old) \<noteq> message_run_id (ur_message r)
            \<or> ur_client_message_id old \<noteq> ur_client_message_id r
          then Inl ''canonical update cannot change message identity''
          else (case identity env old of
             Inl x \<Rightarrow> Inl x
           | Inr a \<Rightarrow> (case identity env r of
               Inl x \<Rightarrow> Inl x
             | Inr b \<Rightarrow>
                 if a \<noteq> b then Inl ''canonical update cannot change message identity''
                 else (case project env e r Journal None of
                    Inl x \<Rightarrow> Inl x
                  | Inr (False, _) \<Rightarrow> Inl ''canonical update did not advance its semantic record''
                  | Inr (True, e1) \<Rightarrow>
                      if content_version e1 = 2 ^ 64 - 1 then Inl ''UI content version overflow''
                      else Inr (e1\<lparr>content_version := content_version e1 + 1\<rparr>)))))"

definition update_record_entry :: "ui_env \<Rightarrow> string \<times> ui_entry \<Rightarrow> ui_entry \<Rightarrow> ui_record \<Rightarrow> ui_state \<Rightarrow> ui_state \<times> (string + unit)" where
  "update_record_entry env expected loaded r st = (case check st of
     Inl x \<Rightarrow> (st, Inl x)
   | Inr _ \<Rightarrow>
       (let i = snap_id (snapshot loaded);
            current = (case map_of (entries st) i of Some e \<Rightarrow> e | None \<Rightarrow> loaded) in
        if generation st \<noteq> fst expected \<or> snap_id (snapshot current) \<noteq> snap_id (snapshot (snd expected))
          \<or> canonical current \<noteq> canonical (snd expected) \<or> content_version current \<noteq> content_version (snd expected)
          \<or> map_of (pending_appends st) (snap_id (snapshot current)) \<noteq> None
        then (st, Inl ''canonical update target changed during file write'')
        else (case validate_record_update env current r of
           Inl x \<Rightarrow> (st, Inl x)
         | Inr e \<Rightarrow> (case advance st of
             (st1, Inl x) \<Rightarrow> (st1, Inl x)
           | (st1, Inr rv) \<Rightarrow>
               (st1\<lparr>entries := bt_insert (snap_id (snapshot e)) (e\<lparr>snapshot := (snapshot e)\<lparr>revision := rv\<rparr>\<rparr>) (entries st1)\<rparr>, Inr ())))))"

definition canonical_index :: "string \<Rightarrow> string \<Rightarrow> ui_entry option \<Rightarrow> ui_state \<Rightarrow> string + nat" where
  "canonical_index i gen stored st = (case check st of
     Inl x \<Rightarrow> Inl x
   | Inr _ \<Rightarrow>
       if generation st \<noteq> gen then Inl ''obsolete UI history generation''
       else (case or_else_opt (map_of (entries st) i) stored of
          None \<Rightarrow> Inl ''UI message was removed''
        | Some e \<Rightarrow>
            if \<not> canonical_committed (snapshot e) then Inl ''UI message has not been committed to the canonical journal''
            else (case Option.bind (canonical e) record_at of Some k \<Rightarrow> Inr k | None \<Rightarrow> Inl ''UI message has no canonical record'')))"

definition update_presentation :: "string \<Rightarrow> string \<Rightarrow> ui_presentation \<Rightarrow> ui_entry option \<Rightarrow> ui_state \<Rightarrow> ui_state \<times> (string + unit)" where
  "update_presentation i gen new stored st = (case check st of
     Inl x \<Rightarrow> (st, Inl x)
   | Inr _ \<Rightarrow>
       if generation st \<noteq> gen then (st, Inl ''obsolete UI history generation'')
       else (case or_else_opt (map_of (entries st) i) stored of
          None \<Rightarrow> (st, Inl ''UI message was removed'')
        | Some e \<Rightarrow> (case advance st of
            (st1, Inl x) \<Rightarrow> (st1, Inl x)
          | (st1, Inr rv) \<Rightarrow>
              (st1\<lparr>entries := bt_insert i (e\<lparr>snapshot := (snapshot e)\<lparr>presentation := new, revision := rv\<rparr>\<rparr>) (entries st1)\<rparr>, Inr ()))))"

text \<open>
  Cutting and forking hold the lock of the flush; their transaction and the change of the
  state after it are one step here.
\<close>

definition splits_segment :: "nat \<Rightarrow> ui_store \<Rightarrow> bool" where
  "splits_segment b db \<longleftrightarrow> (\<exists>(_, r) \<in> set (db_rows db). case canonical (row_entry r) of
     Some c \<Rightarrow> bind_start c < b \<and> b < bind_end c | None \<Rightarrow> False)"

definition db_next :: "(string \<times> ui_row) list \<Rightarrow> nat" where
  "db_next rws = (if rws = [] then 0 else Max (set (map (row_position \<circ> snd) rws)) + 1)"

definition cut_rows :: "nat \<Rightarrow> (string \<times> ui_row) list \<Rightarrow> (string \<times> ui_row) list" where
  "cut_rows b rws =
     (let after = map row_position (filter (\<lambda>r. case canonical (row_entry r) of Some c \<Rightarrow> b \<le> bind_start c | None \<Rightarrow> False) (map snd rws)) in
      if b = 0 then []
      else filter (\<lambda>(_, r). \<not> ((case canonical (row_entry r) of Some c \<Rightarrow> b < bind_end c | None \<Rightarrow> False)
        \<or> after \<noteq> [] \<and> Min (set after) \<le> row_position r)) rws)"

definition truncate_history :: "string \<Rightarrow> nat \<Rightarrow> ui_state \<Rightarrow> ui_store \<Rightarrow> ui_state \<times> ui_store \<times> (string + unit)" where
  "truncate_history fresh b st db =
     (if ui_revision st = 2 ^ 64 - 1 then (st, db, Inl ''UI revision overflow'')
      else if 2 ^ 63 \<le> b then (st, db, Inl out_of_range)
      else
        (let rws = cut_rows b (db_rows db); n = length rws; nxt = db_next rws; rv = ui_revision st + 1 in
         if 2 ^ 32 \<le> n then (st, db, Inl out_of_range)
         else (case integer rv of
            Inl x \<Rightarrow> (st, db, Inl x)
          | Inr _ \<Rightarrow>
              if db_generation db \<noteq> generation st then (st, db, Inl ''UI mutation generation conflict'')
              else (st\<lparr>generation := fresh, ui_revision := rv, committed_revision := rv, next_position := nxt, total_messages := n,
                      ui_tail := b, entries := [], pending_appends := [], runs := [], tool_owners := [], ui_failure := None\<rparr>,
                    db\<lparr>db_generation := fresh, db_revision := rv, db_next_position := nxt, db_total := n, db_failure := None, db_rows := rws\<rparr>,
                    Inr ()))))"

definition ensure_empty :: "ui_state \<Rightarrow> string + unit" where
  "ensure_empty st = (case check st of
     Inl x \<Rightarrow> Inl x
   | Inr _ \<Rightarrow> if total_messages st \<noteq> 0 \<or> ui_tail st \<noteq> 0 \<or> runs st \<noteq> [] \<or> pending_appends st \<noteq> []
       then Inl ''fork destination is not empty'' else Inr ())"

definition copy_prefix_from :: "nat \<Rightarrow> ui_entry list \<Rightarrow> ui_state \<Rightarrow> ui_store \<Rightarrow> ui_state \<times> ui_store \<times> (string + unit)" where
  "copy_prefix_from tail es st db = (case ensure_empty st of
     Inl x \<Rightarrow> (st, db, Inl x)
   | Inr _ \<Rightarrow> (case write_entries es (db_rows db) of
       Inl x \<Rightarrow> (st, db, Inl x)
     | Inr rws \<Rightarrow>
         (let n = length rws; rv = (if rws = [] then 0 else Max (set (map (revision \<circ> snapshot \<circ> row_entry \<circ> snd) rws))); nxt = db_next rws in
          if 2 ^ 32 \<le> n then (st, db, Inl out_of_range)
          else (st\<lparr>ui_revision := rv, committed_revision := rv, next_position := nxt, total_messages := n, ui_tail := tail\<rparr>,
                db\<lparr>db_revision := rv, db_next_position := nxt, db_total := n, db_rows := rws\<rparr>, Inr ()))))"

end
