(* ===== verification/Ui_Memory.thy ===== *)
theory Ui_Memory
  imports Ui_Engine
begin

text \<open>
  What each operation of \<open>Ui_Engine\<close> may do to the entries a session holds in memory: an entry it
  changes carries a revision of that operation, and one it drops was committed.
\<close>

section \<open>What an operation does to the memory\<close>

text \<open>
  An entry in memory afterwards is one the session had, or carries a revision of this
  operation; an entry that left the memory was committed.
\<close>

definition touches :: "(string \<Rightarrow> ui_entry option) \<Rightarrow> ui_state \<Rightarrow> ui_state \<Rightarrow> bool" where
  "touches known st st' \<longleftrightarrow> generation st' = generation st \<and> committed_revision st' = committed_revision st
     \<and> ui_revision st \<le> ui_revision st' \<and> bt_ok (entries st')
     \<and> (\<forall>i e. map_of (entries st') i = Some e \<longrightarrow> known i = Some e
          \<or> ui_revision st < revision (snapshot e) \<and> revision (snapshot e) \<le> ui_revision st' \<and> snap_id (snapshot e) = i)
     \<and> (\<forall>i e. map_of (entries st) i = Some e \<longrightarrow> map_of (entries st') i \<noteq> None \<or> revision (snapshot e) \<le> committed_revision st)"

lemma advance_frame:
  assumes "advance st = (st', res)"
  shows "entries st' = entries st" "generation st' = generation st" "committed_revision st' = committed_revision st"
    "tool_owners st' = tool_owners st" "ui_revision st \<le> ui_revision st'" "res = Inr n \<Longrightarrow> n = ui_revision st' \<and> ui_revision st < n"
  using assms by (auto simp: advance_def Let_def split: if_splits sum.splits)

lemma allocate_frame:
  assumes "allocate st = (st', res)"
  shows "entries st' = entries st" "generation st' = generation st" "committed_revision st' = committed_revision st"
    "tool_owners st' = tool_owners st" "ui_revision st' = ui_revision st"
  using assms by (auto simp: allocate_def Let_def split: if_splits sum.splits)

definition memory_known :: "(string \<Rightarrow> ui_entry option) \<Rightarrow> ui_state \<Rightarrow> bool" where
  "memory_known known st \<longleftrightarrow> bt_ok (entries st) \<and> (\<forall>i e. map_of (entries st) i = Some e \<longrightarrow> known i = Some e)
     \<and> (\<forall>i e. known i = Some e \<longrightarrow> snap_id (snapshot e) = i)"

lemma touches_same:
  assumes "memory_known known st" "entries st' = entries st" "generation st' = generation st"
    "committed_revision st' = committed_revision st" "ui_revision st \<le> ui_revision st'"
  shows "touches known st st'"
  using assms by (auto simp: touches_def memory_known_def)

lemma touches_put:
  assumes "memory_known known st" "entries st' = bt_insert i e (entries st)" "generation st' = generation st"
    "committed_revision st' = committed_revision st" "ui_revision st < revision (snapshot e)" "revision (snapshot e) = ui_revision st'" "snap_id (snapshot e) = i"
  shows "touches known st st'"
  using assms by (auto simp: touches_def memory_known_def map_of_bt_insert bt_insert_ok)

lemma touches_bind:
  assumes k: "memory_known known st"
  shows "touches known st (fst (bind_receipt rcp idx st))"
proof (cases "advance st")
  case (Pair st1 res)
  note a = advance_frame [OF Pair]
  have same: "touches known st st1" by (rule touches_same [OF k]) (use a in simp_all)
  show ?thesis
  proof (cases "\<exists>n e. res = Inr n \<and> map_of (entries st1) (rcpt_id rcp) = Some e")
    case False
    then show ?thesis using same touches_same [OF k, of st]
      by (auto simp: bind_receipt_def Pair split: sum.split option.split)
  next
    case True
    then obtain n e where n: "res = Inr n" "map_of (entries st1) (rcpt_id rcp) = Some e" by blast
    have i: "snap_id (snapshot e) = rcpt_id rcp" using k n(2) a by (simp add: memory_known_def)
    show ?thesis
      using touches_same [OF k, of st] a n i
      by (auto simp: bind_receipt_def Pair Let_def split: sum.split option.split intro!: touches_put [OF k, where i = "rcpt_id rcp"])
  qed
qed

lemma touches_refl: "memory_known known st \<Longrightarrow> touches known st st"
  by (rule touches_same) simp_all

lemma touches_error: "memory_known known st \<Longrightarrow> touches known st (fst (insert_error fresh pe expected st))"
proof -
  assume k: "memory_known known st"
  define run where "run = (case map_of (runs st) (pe_run_id pe) of
      Some rr \<Rightarrow> (if pe_segment_id pe = None then pe\<lparr>pe_segment_id := run_segment rr\<rparr> else pe,
        st\<lparr>runs := AList.update (pe_run_id pe) (rr\<lparr>last_error := Some (fresh, pe_raw pe)\<rparr>) (runs st)\<rparr>)
    | None \<Rightarrow> (pe, st))"
  obtain pe1 st1 where r: "run = (pe1, st1)" by (cases run)
  obtain st2 a where al: "allocate st1 = (st2, a)" by (cases "allocate st1")
  obtain st3 b where ad: "advance st2 = (st3, b)" by (cases "advance st2")
  have f1: "entries st1 = entries st" "generation st1 = generation st" "committed_revision st1 = committed_revision st"
    "ui_revision st1 = ui_revision st"
    using r by (auto simp: run_def split: option.splits)
  note f2 = allocate_frame [OF al] and f3 = advance_frame [OF ad]
  have t: "touches known st x" if "x = st \<or> x = st2 \<or> x = st3" for x
    by (rule touches_same [OF k]) (use that f1 f2 f3 in auto)
  have put: "touches known st (st3\<lparr>entries := bt_insert fresh e (entries st3)\<rparr>)"
    if "b = Inr rv" "snap_id (snapshot e) = fresh" "revision (snapshot e) = rv" for e rv
    by (rule touches_put [OF k, where i = fresh and e = e]) (use that f1 f2 f3(1,2,3) f3(6) [of rv] in simp_all)
  show ?thesis
    unfolding insert_error_def run_def [symmetric] r prod.case al Let_def ad
    by (cases "check st"; cases a; cases b) (simp_all add: t put)
qed

lemma touches_fail: "memory_known known st \<Longrightarrow> touches known st (fail_history e st)"
proof -
  assume k: "memory_known known st"
  obtain st1 a where ad: "advance (st\<lparr>ui_failure := Some e\<rparr>) = (st1, a)" by fastforce
  have "touches known st st1" by (rule touches_same [OF k]) (use advance_frame [OF ad] in simp_all)
  then show ?thesis using touches_refl [OF k] by (simp add: fail_history_def ad)
qed

lemma touches_runs: "memory_known known st \<Longrightarrow> touches known st (st\<lparr>runs := rs\<rparr>)"
  by (rule touches_same) simp_all

lemma touches_begin: "memory_known known st \<Longrightarrow> touches known st (fst (begin_run md st))"
  by (simp add: begin_run_def touches_refl touches_runs split: sum.split)

lemma touches_attempt: "memory_known known st \<Longrightarrow> touches known st (fst (start_attempt gen run seg st))"
  by (simp add: start_attempt_def with_run_def touches_refl touches_runs split: sum.split option.split)

lemma touches_changed:
  assumes k: "memory_known known st" and e: "known i = Some e" and ad: "advance st = (st1, Inr rv)"
    and c: "snap_id (snapshot e') = snap_id (snapshot e)" "revision (snapshot e') = rv"
  shows "touches known st (st1\<lparr>entries := bt_insert i e' (entries st1)\<rparr>)"
proof (rule touches_put [OF k, where i = i and e = e'])
  note f = advance_frame [OF ad]
  show "snap_id (snapshot e') = i" using k e c(1) by (simp add: memory_known_def)
  show "ui_revision st < revision (snapshot e')" "revision (snapshot e') = ui_revision (st1\<lparr>entries := bt_insert i e' (entries st1)\<rparr>)"
    using f(6) [of rv] c(2) by simp_all
qed (use advance_frame [OF ad] in simp_all)

lemma touches_advance: "memory_known known st \<Longrightarrow> advance st = (st1, res) \<Longrightarrow> touches known st st1"
  by (rule touches_same) (simp_all add: advance_frame)

lemma touches_mutate: "memory_known known st \<Longrightarrow> touches known st (fst (mutate_presentation gen run i f st))"
proof -
  assume k: "memory_known known st"
  obtain st1 a where ad: "advance st = (st1, a)" by fastforce
  have "map_of (entries st) i = Some e \<Longrightarrow> known i = Some e" for e using k by (simp add: memory_known_def)
  then show ?thesis
    using touches_refl [OF k] touches_advance [OF k ad] ad
    by (auto simp: mutate_presentation_def split: sum.split option.split intro!: touches_changed [OF k])
qed

lemma touches_present: "memory_known known st \<Longrightarrow> touches known st (fst (update_presentation i gen new (known i) st))"
proof -
  assume k: "memory_known known st"
  obtain st1 a where ad: "advance st = (st1, a)" by fastforce
  have "or_else_opt (map_of (entries st) i) (known i) = known i" using k by (auto simp: or_else_opt_def memory_known_def split: option.split)
  then show ?thesis
    using touches_refl [OF k] touches_advance [OF k ad] ad
    by (auto simp: update_presentation_def split: sum.split option.split intro!: touches_changed [OF k])
qed

lemma validate_place: "validate_record_update env e r = Inr e' \<Longrightarrow> snap_id (snapshot e') = snap_id (snapshot e)"
proof -
  assume v: "validate_record_update env e r = Inr e'"
  have "\<exists>b e1. project env e r Journal None = Inr (b, e1) \<and> snapshot e' = snapshot e1"
    using v unfolding validate_record_update_def
    by (simp only: split: if_split_asm ui_content.split_asm sum.split_asm prod.split_asm bool.split_asm) auto
  then show ?thesis using project_place by (auto simp: same_place_def)
qed

lemma touches_rewrite:
  assumes k: "memory_known known st" and l: "known (snap_id (snapshot loaded)) = Some loaded"
  shows "touches known st (fst (update_record_entry env expected loaded r st))"
proof -
  obtain st1 a where ad: "advance st = (st1, a)" by fastforce
  define cur where "cur = (case map_of (entries st) (snap_id (snapshot loaded)) of Some e \<Rightarrow> e | None \<Rightarrow> loaded)"
  have m: "map_of (entries st) i = Some e \<Longrightarrow> known i = Some e" for i e using k by (simp add: memory_known_def)
  have cur: "cur = loaded"
  proof (cases "map_of (entries st) (snap_id (snapshot loaded))")
    case (Some e)
    then show ?thesis using m [OF Some] l by (simp add: cur_def)
  qed (simp add: cur_def)
  have validated: "touches known st (st1\<lparr>entries := bt_insert (snap_id (snapshot e)) (e\<lparr>snapshot := (snapshot e)\<lparr>revision := rv\<rparr>\<rparr>) (entries st1)\<rparr>)"
    if "validate_record_update env loaded r = Inr e" "a = Inr rv" for e rv
  proof -
    have i: "snap_id (snapshot e) = snap_id (snapshot loaded)" by (rule validate_place [OF that(1)])
    show ?thesis unfolding i by (rule touches_changed [OF k l ad [unfolded that(2)]]) (simp_all add: i)
  qed
  show ?thesis
    unfolding update_record_entry_def Let_def cur_def [symmetric] cur ad
    using touches_refl [OF k] touches_advance [OF k ad] validated
    by (cases "check st"; cases "validate_record_update env loaded r"; cases a) simp_all
qed

lemma map_of_filter: "bt_ok xs \<Longrightarrow> map_of (filter (\<lambda>(i, e). P i e) xs) i = (case map_of xs i of Some e \<Rightarrow> if P i e then Some e else None | None \<Rightarrow> None)"
proof (induction xs)
  case (Cons x xs)
  obtain j e where x: "x = (j, e)" by (cases x)
  have "map_of xs j = None" using Cons.prems by (force simp: x bt_ok_def map_of_eq_None_iff)
  then show ?case using Cons by (auto simp: x bt_ok_def split: option.split)
qed simp

lemma touches_finish: "memory_known known st \<Longrightarrow> touches known st (fst (finish_registered gen run st))"
proof -
  assume k: "memory_known known st"
  have a: "touches known st st1" if "advance (st\<lparr>ui_failure := x\<rparr>) = (st1, res)" for x st1 res
    by (rule touches_same [OF k]) (use advance_frame [OF that] in simp_all)
  have "touches known st (st\<lparr>runs := rs, entries := filter (\<lambda>(i, e). committed_revision st < revision (snapshot e) \<or> \<not> of_run run e) (entries st),
      tool_owners := os\<rparr>)" for rs os
    using k by (auto simp: touches_def memory_known_def bt_ok_filter map_of_filter split: option.splits if_splits)
  then show ?thesis using touches_refl [OF k] a
    by (auto simp: finish_registered_def Let_def split: option.split prod.split sum.split)
qed

section \<open>Projections and their commit\<close>

text \<open>A projection works on a copy of the state, from the revision \<open>n\<close> and the owners \<open>owners\<close> on.\<close>

definition staged :: "(string \<Rightarrow> ui_entry option) \<Rightarrow> ui_state \<Rightarrow> (string \<times> ui_entry) list \<Rightarrow> ui_state \<Rightarrow> bool" where
  "staged known st es p \<longleftrightarrow> generation p = generation st \<and> committed_revision p = committed_revision st
     \<and> ui_revision st \<le> ui_revision p \<and> bt_ok (entries p)
     \<and> (\<forall>i e. map_of (entries p) i = Some e \<longrightarrow> snap_id (snapshot e) = i
          \<and> (known i = Some e \<or> ui_revision st < revision (snapshot e) \<and> revision (snapshot e) \<le> ui_revision p))
     \<and> (ui_revision p = ui_revision st \<longrightarrow> entries p = es \<and> tool_owners p = tool_owners st)"

lemma project_state_effect:
  assumes "project_state env i r ingress p = Inr p'"
  shows "p' = p \<and> ingress = Journal
    \<or> (\<exists>e e0. generation p' = generation p \<and> committed_revision p' = committed_revision p \<and> ui_revision p < ui_revision p'
        \<and> entries p' = bt_insert i e (entries p) \<and> revision (snapshot e) = ui_revision p' \<and> snap_id (snapshot e) = snap_id (snapshot e0)
        \<and> (map_of (entries p) i = Some e0 \<or> snap_id (snapshot e0) = i))"
proof -
  define run where "run = Option.bind (message_run_id (ur_message r)) (\<lambda>k. map_option run_metadata (map_of (runs p) k))"
  define e0 where "e0 = (case map_of (entries p) i of Some e \<Rightarrow> e | None \<Rightarrow> initial_entry i (next_position p) r)"
  have e0: "map_of (entries p) i = Some e0 \<or> snap_id (snapshot e0) = i" by (simp add: e0_def initial_entry_def split: option.split)
  obtain b e1 where pr: "project env e0 r ingress run = Inr (b, e1)"
    using assms by (auto simp: project_state_def Let_def run_def [symmetric] e0_def [symmetric] split: sum.splits)
  have place: "snap_id (snapshot e1) = snap_id (snapshot e0)" "\<not> b \<longrightarrow> ingress = Journal"
    using project_place [OF pr] by (simp_all add: same_place_def)
  show ?thesis
  proof (cases b)
    case False
    then have "project_state env i r ingress p = Inr p" by (simp add: project_state_def Let_def run_def [symmetric] e0_def [symmetric] pr)
    then show ?thesis using assms place False by simp
  next
    case True
    obtain st1 a where al: "(if map_of (entries p) i = None then allocate p else (p, Inr (position (snapshot e1)))) = (st1, a)" by fastforce
    have f1: "entries st1 = entries p" "generation st1 = generation p" "committed_revision st1 = committed_revision p" "ui_revision st1 = ui_revision p"
      using al allocate_frame [of p st1 a] by (auto split: if_splits)
    obtain pos where a: "a = Inr pos" and v: "content_version e1 \<noteq> 2 ^ 64 - 1"
      using assms True by (auto simp: project_state_def Let_def run_def [symmetric] e0_def [symmetric] pr al split: sum.splits if_splits)
    define e2 where "e2 = e1\<lparr>content_version := content_version e1 + 1, snapshot := (snapshot e1)\<lparr>position := pos, canonical_committed := False,
      assistant_id := or_else_opt (map_of (tool_owners st1) i) (assistant_id (snapshot e1))\<rparr>\<rparr>"
    define st2 where "st2 = st1\<lparr>tool_owners := note_owners i e2 (tool_owners st1), runs := note_segment ingress e2 (runs st1)\<rparr>"
    obtain st3 c where ad: "advance st2 = (st3, c)" by (cases "advance st2")
    have eq: "project_state env i r ingress p = (case (st3, c) of (_, Inl x) \<Rightarrow> Inl x
      | (st3, Inr rv) \<Rightarrow> Inr (st3\<lparr>entries := bt_insert i (e2\<lparr>snapshot := (snapshot e2)\<lparr>revision := rv\<rparr>\<rparr>) (entries st3)\<rparr>))"
      unfolding ad [symmetric] project_state_def Let_def run_def [symmetric] e0_def [symmetric] pr
      by (simp only: True al a v st2_def e2_def sum.case prod.case bool.case if_False)
    obtain rv where c: "c = Inr rv" "p' = st3\<lparr>entries := bt_insert i (e2\<lparr>snapshot := (snapshot e2)\<lparr>revision := rv\<rparr>\<rparr>) (entries st3)\<rparr>"
      using assms unfolding eq by (cases c) simp_all
    note f3 = advance_frame [OF ad] and f4 = advance_frame(6) [OF ad, OF c(1)]
    define e3 where "e3 = e2\<lparr>snapshot := (snapshot e2)\<lparr>revision := rv\<rparr>\<rparr>"
    have e3: "snap_id (snapshot e3) = snap_id (snapshot e0)" "revision (snapshot e3) = rv" by (simp_all add: e3_def e2_def place)
    have s2: "ui_revision st2 = ui_revision p" "generation st2 = generation p" "committed_revision st2 = committed_revision p" "entries st2 = entries p"
      using f1 by (simp_all add: st2_def)
    have p': "p' = st3\<lparr>entries := bt_insert i e3 (entries st3)\<rparr>" unfolding e3_def by (rule c(2))
    have "entries p' = bt_insert i e3 (entries p) \<and> revision (snapshot e3) = ui_revision p' \<and> ui_revision p < ui_revision p'"
      "generation p' = generation p" "committed_revision p' = committed_revision p"
      unfolding p' using s2 f3(1,2,3) f4 e3(2) by simp_all
    then show ?thesis using e0 e3(1) by blast
  qed
qed

lemma staged_project:
  assumes s: "staged known st es p" and p: "project_state env i r ingress p = Inr p'"
  shows "staged known st es p'" and "ingress = Live \<Longrightarrow> ui_revision p < ui_revision p'"
proof -
  consider "p' = p" "ingress = Journal" | e e0 where "generation p' = generation p" "committed_revision p' = committed_revision p" "ui_revision p < ui_revision p'"
    "entries p' = bt_insert i e (entries p)" "revision (snapshot e) = ui_revision p'" "snap_id (snapshot e) = snap_id (snapshot e0)"
    "map_of (entries p) i = Some e0 \<or> snap_id (snapshot e0) = i"
    using project_state_effect [OF p] by blast
  then have "staged known st es p' \<and> (ingress = Live \<longrightarrow> ui_revision p < ui_revision p')"
  proof cases
    case 1
    then show ?thesis using s by simp
  next
    case 2
    have "snap_id (snapshot e) = i" using 2 s by (auto simp: staged_def)
    moreover have m: "map_of (entries p') = (map_of (entries p))(i \<mapsto> e)" "bt_ok (entries p')"
      using 2 s by (auto simp: staged_def bt_insert_ok map_of_bt_insert)
    ultimately show ?thesis using 2(1,2,3,5) s unfolding staged_def m by (auto split: if_splits) (meson le_less_trans less_imp_le)+
  qed
  then show "staged known st es p'" "ingress = Live \<Longrightarrow> ui_revision p < ui_revision p'" by simp_all
qed


lemma staged_prepare:
  assumes "bt_ok es" "\<And>i e. map_of es i = Some e \<Longrightarrow> known i = Some e \<and> snap_id (snapshot e) = i"
  shows "staged known st es (prepare es st)"
  using assms by (simp add: staged_def prepare_def)

lemma staged_loop:
  assumes "staged known st es p" "stage_loop env gen irs p = Inr (p', rcs)"
  shows "staged known st es p'"
  using assms
proof (induction env gen irs p arbitrary: p' rcs rule: stage_loop.induct)
  case (2 env gen i r irs p)
  obtain p1 where p1: "project_state env i r Journal p = Inr p1" "\<not> (is_user r \<and> map_of (entries p) i \<noteq> None)"
    using 2(3) by (auto split: if_splits sum.splits)
  obtain e where e: "map_of (entries p1) i = Some e" using 2(3) p1 by (auto split: option.splits)
  obtain rcs2 where "stage_loop env gen irs p1 = Inr (p', rcs2)" using 2(3) p1 e by (auto split: sum.splits)
  with 2(1) [OF p1(2) p1(1) e] staged_project(1) [OF 2(2) p1(1)] show ?case by simp
qed simp

text \<open>Committing also notes the owner of every entry that a projected record named.\<close>

definition owners_settled :: "(string \<times> string) list \<Rightarrow> (string \<times> ui_entry) list \<Rightarrow> bool" where
  "owners_settled owners es \<longleftrightarrow> (\<forall>(i, e) \<in> set es. own owners 0 i e = e)"

lemma own_cases: "own owners rv i e = e \<or> revision (snapshot (own owners rv i e)) = rv"
  by (simp add: own_def split: option.split)

lemma own_id: "snap_id (snapshot (own owners rv i e)) = snap_id (snapshot e)"
  by (simp add: own_def split: option.split)

lemma own_settled: "own owners 0 i e = e \<Longrightarrow> own owners rv i e = e"
proof (cases "\<exists>owner. map_of owners i = Some owner \<and> assistant_id (snapshot e) \<noteq> Some owner")
  case True
  then obtain owner where o: "map_of owners i = Some owner" "assistant_id (snapshot e) \<noteq> Some owner" by blast
  assume "own owners 0 i e = e"
  then have "assistant_id (snapshot (own owners 0 i e)) = assistant_id (snapshot e)" by simp
  then show ?thesis using o by (simp add: own_def)
qed (auto simp: own_def split: option.split)

lemma map_of_keyed: "map_of (map (\<lambda>(i, e). (i, f i e)) xs) i = map_option (f i) (map_of xs i)"
  by (induction xs) auto

lemma bt_ok_keyed: "bt_ok (map (\<lambda>(i, e). (i, f i e)) xs) = bt_ok xs"
  by (simp add: bt_ok_def comp_def case_prod_beta)

lemma map_of_fold_insert:
  assumes "bt_ok xs" "distinct (map fst ys)"
  shows "bt_ok (fold (\<lambda>(i, e). bt_insert i e) ys xs) \<and>
    map_of (fold (\<lambda>(i, e). bt_insert i e) ys xs) = map_of xs ++ map_of ys"
  using assms
proof (induction ys arbitrary: xs)
  case (Cons y ys)
  obtain i e where y: "y = (i, e)" by (cases y)
  have "map_of ys i = None" using Cons.prems(2) by (simp add: y map_of_eq_None_iff)
  then show ?case using Cons.IH [of "bt_insert i e xs"] Cons.prems
    by (auto simp: y bt_insert_ok map_of_bt_insert fun_eq_iff map_add_def split: option.split)
qed simp

lemma touches_commit:
  assumes k: "memory_known known st" and s: "staged known st es p"
    and settled: "ui_revision p = ui_revision st \<Longrightarrow> owners_settled (tool_owners st) (entries st @ es)"
  shows "touches known st (commit p st)"
proof -
  define merged where "merged = fold (\<lambda>(i, e). bt_insert i e) (entries p) (entries st)"
  have bt: "bt_ok (entries st)" "bt_ok (entries p)" using k s by (simp_all add: memory_known_def staged_def)
  have m: "bt_ok merged" "map_of merged = map_of (entries st) ++ map_of (entries p)"
    using map_of_fold_insert [OF bt(1), of "entries p"] bt(2) by (simp_all add: merged_def bt_ok_def)
  have f: "bt_ok (entries (commit p st))" "map_of (entries (commit p st)) i = map_option (own (tool_owners p) (ui_revision p) i) (map_of merged i)" for i
    using m(1) by (simp_all add: commit_def merged_def [symmetric] bt_ok_keyed map_of_keyed)
  have each: "known i = Some (own (tool_owners p) (ui_revision p) i e)
      \<or> ui_revision st < revision (snapshot (own (tool_owners p) (ui_revision p) i e)) \<and> revision (snapshot (own (tool_owners p) (ui_revision p) i e)) \<le> ui_revision p
        \<and> snap_id (snapshot (own (tool_owners p) (ui_revision p) i e)) = i"
    if e: "map_of merged i = Some e" for i e
  proof -
    have old: "snap_id (snapshot e) = i \<and> (known i = Some e \<or> ui_revision st < revision (snapshot e) \<and> revision (snapshot e) \<le> ui_revision p)"
      using e k s by (auto simp: m map_add_Some_iff memory_known_def staged_def)
    show ?thesis
    proof (cases "ui_revision p = ui_revision st")
      case True
      then have "(i, e) \<in> set (entries st @ es)" "tool_owners p = tool_owners st"
        using e s by (auto simp: m map_add_Some_iff staged_def dest: map_of_SomeD)
      then have "own (tool_owners p) (ui_revision p) i e = e" using settled [OF True] by (auto simp: owners_settled_def intro: own_settled)
      then show ?thesis using old by simp
    next
      case False
      then have "ui_revision st < ui_revision p" using s by (simp add: staged_def)
      then show ?thesis using own_cases [of "tool_owners p" "ui_revision p" i e] old by (auto simp: own_id)
    qed
  qed
  have "generation (commit p st) = generation st" "committed_revision (commit p st) = committed_revision st" "ui_revision (commit p st) = ui_revision p"
    by (simp_all add: commit_def)
  moreover have "map_of (entries (commit p st)) i \<noteq> None" if "map_of (entries st) i = Some e" for i e
    using that by (auto simp: f m map_add_def split: option.split)
  ultimately show ?thesis using f each s unfolding touches_def staged_def by (auto simp: map_option_case split: option.splits)
qed


lemma touches_frame: "touches known st st1 \<Longrightarrow> generation st2 = generation st1 \<Longrightarrow> committed_revision st2 = committed_revision st1
    \<Longrightarrow> ui_revision st2 = ui_revision st1 \<Longrightarrow> entries st2 = entries st1 \<Longrightarrow> touches known st st2"
  by (simp add: touches_def)

lemma touches_ingest:
  assumes k: "memory_known known st"
  shows "touches known st (fst (ingest env fresh r Live expected st))"
proof -
  have projected: "touches known st (commit p st)"
    if p: "project_state env i r Live (prepare es st) = Inr p" and es: "es = (case map_of (entries st) i of Some e \<Rightarrow> [(i, e)] | None \<Rightarrow> [])" for i es p
  proof -
    have "staged known st es (prepare es st)"
      by (rule staged_prepare) (use k in \<open>auto simp: es bt_ok_def memory_known_def split: option.splits if_splits\<close>)
    from staged_project [OF this p] have "staged known st es p" "ui_revision st < ui_revision p" by (simp_all add: prepare_def)
    then show ?thesis using touches_commit [OF k] by simp
  qed
  show ?thesis using touches_refl [OF k] projected
    by (auto simp: ingest_def Let_def split: sum.split)
qed

lemma touches_stage:
  assumes k: "memory_known known st" and l: "bt_ok loaded" "\<And>i e. (i, e) \<in> set loaded \<Longrightarrow> known i = Some e"
    and r: "stage_batch env gen loaded irs st = (st', res)"
    and settled: "ui_revision st' = ui_revision st \<Longrightarrow> owners_settled (tool_owners st) (entries st @ loaded)"
  shows "touches known st st'"
proof (cases "st' = st")
  case True
  then show ?thesis using touches_refl [OF k] by simp
next
  case False
  define es where "es = fold (\<lambda>(i, _) acc. case map_of (entries st) i of Some e \<Rightarrow> bt_insert i e acc | None \<Rightarrow> acc) irs loaded"
  have m: "bt_ok es" "\<And>i e. map_of es i = Some e \<Longrightarrow> map_of (entries st) i = Some e \<or> map_of loaded i = Some e"
  proof -
    have "bt_ok (fold (\<lambda>(i, _) acc. case map_of (entries st) i of Some e \<Rightarrow> bt_insert i e acc | None \<Rightarrow> acc) rs acc) \<and>
      (\<forall>i e. map_of (fold (\<lambda>(i, _) acc. case map_of (entries st) i of Some e \<Rightarrow> bt_insert i e acc | None \<Rightarrow> acc) rs acc) i = Some e
        \<longrightarrow> map_of (entries st) i = Some e \<or> map_of acc i = Some e)" if "bt_ok acc" for rs :: "(string \<times> ui_record) list" and acc
      using that
    proof (induction rs arbitrary: acc)
      case (Cons x rs)
      obtain j r where x: "x = (j, r)" by (cases x)
      show ?case
      proof (cases "map_of (entries st) j")
        case None
        then show ?thesis using Cons by (simp add: x)
      next
        case (Some e)
        show ?thesis using Cons.IH [OF bt_insert_ok [OF Cons.prems], of j e] Cons.prems Some
          by (auto simp: x map_of_bt_insert split: if_splits)
      qed
    qed simp
    from this [OF l(1)] show "bt_ok es" "\<And>i e. map_of es i = Some e \<Longrightarrow> map_of (entries st) i = Some e \<or> map_of loaded i = Some e"
      by (simp_all add: es_def)
  qed
  obtain p rcs where p: "stage_loop env gen irs (prepare es st) = Inr (p, rcs)"
    "st' = (commit p st)\<lparr>pending_appends := fold (count_pending \<circ> rcpt_id) rcs (pending_appends (commit p st))\<rparr>"
    using r False by (auto simp: stage_batch_def es_def [symmetric] Let_def split: sum.splits if_splits)
  have "known i = Some e" if "map_of es i = Some e" for i e
    using m(2) [OF that] l(2) k by (auto simp: memory_known_def dest: map_of_SomeD)
  then have "staged known st es (prepare es st)"
    using k m(1) by (intro staged_prepare) (simp_all add: memory_known_def)
  then have s: "staged known st es p" by (rule staged_loop) (rule p(1))
  have rv: "ui_revision st' = ui_revision p" by (simp add: p(2) commit_def)
  have sub: "set es \<subseteq> set (entries st @ loaded)"
  proof
    fix x assume "x \<in> set es"
    moreover have "distinct (map fst es)" using m(1) by (auto simp: bt_ok_def sorted_wrt_map strict_sorted_iff)
    ultimately have "map_of es (fst x) = Some (snd x)" by (simp add: map_of_eq_Some_iff)
    then show "x \<in> set (entries st @ loaded)" using m(2) [of "fst x" "snd x"] by (auto dest: map_of_SomeD)
  qed
  have "touches known st (commit p st)"
    by (rule touches_commit [OF k s]) (use settled sub in \<open>auto simp: rv owners_settled_def\<close>)
  then show ?thesis by (rule touches_frame) (simp_all add: p(2))
qed

end
