(* ===== verification/Ui_Sync.thy ===== *)
theory Ui_Sync
  imports Ui_Memory
begin

text \<open>
  A session of \<open>Ui_Engine\<close> under every interleaving of its operations with a flush: memory and
  rows together always hold the whole history, and a subscriber that asks for the changes
  since a revision gets every change. Cutting and forking the history are left out: they change
  its generation or need an empty one, and a subscriber of another generation starts again.
\<close>

section \<open>Sessions\<close>

record ui_session =
  state :: ui_state
  store :: ui_store
  progress :: nat
  flushing :: "(flush_job \<times> bool) option" \<comment> \<open>the flush at work, and whether its transaction is done\<close>

definition entry_of :: "ui_session \<Rightarrow> string \<Rightarrow> ui_entry option" where
  "entry_of s = find_entry (state s) (store s)"

definition row_of_id :: "ui_session \<Rightarrow> string \<Rightarrow> ui_entry option" where
  "row_of_id s i = map_option row_entry (map_of (db_rows (store s)) i)"

lemma entry_of_cases: "entry_of s i = (case map_of (entries (state s)) i of Some e \<Rightarrow> Some e | None \<Rightarrow> row_of_id s i)"
  by (simp add: entry_of_def find_entry_def row_of_id_def split: option.split)

text \<open>
  What was read from the rows before the lock was taken is what the session still holds: the
  code checks no more than the generation here. A batch whose records were all copied before
  changes no revision; it must not meet an entry that lacks the owner noted for it, since
  noting it now would go unseen.
\<close>

inductive ui_step :: "ui_env \<Rightarrow> ui_session \<Rightarrow> ui_session \<Rightarrow> bool" for env where
  copy: "ui_step env s (s\<lparr>state := fst (ingest env fresh r Live expected (state s))\<rparr>)"
| stage: "bt_ok loaded \<Longrightarrow> (\<And>i e. (i, e) \<in> set loaded \<Longrightarrow> entry_of s i = Some e) \<Longrightarrow>
    stage_batch env gen loaded irs (state s) = (st', res) \<Longrightarrow>
    (ui_revision st' = ui_revision (state s) \<longrightarrow> owners_settled (tool_owners (state s)) (entries (state s) @ loaded)) \<Longrightarrow>
    ui_step env s (s\<lparr>state := st'\<rparr>)"
| bind: "ui_step env s (s\<lparr>state := fst (bind_receipt rcp idx (state s))\<rparr>)"
| error: "ui_step env s (s\<lparr>state := fst (insert_error fresh pe expected (state s))\<rparr>)"
| fail: "ui_step env s (s\<lparr>state := fail_history e (state s)\<rparr>)"
| start: "ui_step env s (s\<lparr>state := fst (begin_run md (state s))\<rparr>)"
| attempt: "ui_step env s (s\<lparr>state := fst (start_attempt gen run seg (state s))\<rparr>)"
| mutate: "ui_step env s (s\<lparr>state := fst (mutate_presentation gen run i f (state s))\<rparr>)"
| present: "ui_step env s (s\<lparr>state := fst (update_presentation i gen new (entry_of s i) (state s))\<rparr>)"
| rewrite: "entry_of s (snap_id (snapshot loaded)) = Some loaded \<Longrightarrow>
    ui_step env s (s\<lparr>state := fst (update_record_entry env expected loaded r (state s))\<rparr>)"
| finish: "ui_step env s (s\<lparr>state := fst (finish_registered gen run (state s))\<rparr>)"
| flush_begin: "flushing s = None \<Longrightarrow>
    ui_step env s (s\<lparr>flushing := map_option (\<lambda>j. (j, False)) (flush_begin (progress s) (state s))\<rparr>)"
| flush_write: "flushing s = Some (j, False) \<Longrightarrow> flush_write j (store s) = (db, res) \<Longrightarrow>
    ui_step env s (s\<lparr>store := db, flushing := (if isl res then None else Some (j, True))\<rparr>)"
| flush_end: "flushing s = Some (j, True) \<Longrightarrow> flush_end j (state s) = (st', res) \<Longrightarrow>
    ui_step env s (s\<lparr>state := st', progress := (if generation (state s) = job_generation j then job_revision j else progress s), flushing := None\<rparr>)"

definition opened :: "nat \<Rightarrow> ui_store \<Rightarrow> ui_session" where
  "opened tail db = \<lparr>state = load_state tail db, store = db, progress = db_revision db, flushing = None\<rparr>"

definition rows_ok :: "ui_store \<Rightarrow> bool" where
  "rows_ok db \<longleftrightarrow> bt_ok (db_rows db) \<and> (\<forall>(i, r) \<in> set (db_rows db). snap_id (snapshot (row_entry r)) = i \<and> revision (snapshot (row_entry r)) \<le> db_revision db)"

section \<open>Memory and rows\<close>

text \<open>The revision the rows stand at: that of the flush whose transaction is done.\<close>

definition written :: "ui_session \<Rightarrow> nat" where
  "written s = (case flushing s of Some (j, True) \<Rightarrow> job_revision j | _ \<Rightarrow> progress s)"

definition newer_in_memory :: "ui_session \<Rightarrow> string \<Rightarrow> nat \<Rightarrow> bool" where
  "newer_in_memory s i n \<longleftrightarrow> (\<exists>e. map_of (entries (state s)) i = Some e \<and> n \<le> revision (snapshot e))"

definition job_ok :: "ui_session \<Rightarrow> flush_job \<Rightarrow> bool" where
  "job_ok s j \<longleftrightarrow> job_from j = progress s \<and> distinct (map (snap_id \<circ> snapshot) (job_entries j))
     \<and> (\<forall>i e. map_of (entries (state s)) i = Some e \<longrightarrow> progress s < revision (snapshot e) \<longrightarrow> revision (snapshot e) \<le> job_revision j \<longrightarrow> e \<in> set (job_entries j))
     \<and> (\<forall>e \<in> set (job_entries j). progress s < revision (snapshot e) \<and> revision (snapshot e) \<le> job_revision j
          \<and> newer_in_memory s (snap_id (snapshot e)) (revision (snapshot e)))"

definition sync_ok :: "ui_session \<Rightarrow> bool" where
  "sync_ok s \<longleftrightarrow> db_generation (store s) = generation (state s) \<and> committed_revision (state s) = progress s
     \<and> bt_ok (entries (state s)) \<and> rows_ok (store s) \<and> db_revision (store s) = written s
     \<and> progress s \<le> written s \<and> written s \<le> ui_revision (state s)
     \<and> (\<forall>i e. map_of (entries (state s)) i = Some e \<longrightarrow> snap_id (snapshot e) = i \<and> revision (snapshot e) \<le> ui_revision (state s)
          \<and> (revision (snapshot e) \<le> written s \<longrightarrow> row_of_id s i = Some e))
     \<and> (\<forall>i e. row_of_id s i = Some e \<longrightarrow> progress s < revision (snapshot e) \<longrightarrow> newer_in_memory s i (revision (snapshot e)))
     \<and> (\<forall>j w. flushing s = Some (j, w) \<longrightarrow> job_generation j = generation (state s) \<and> progress s < job_revision j
          \<and> job_revision j \<le> ui_revision (state s) \<and> (\<not> w \<longrightarrow> job_ok s j))"

lemma row_of_id_ok:
  assumes "sync_ok s" "row_of_id s i = Some e"
  shows "snap_id (snapshot e) = i" "revision (snapshot e) \<le> written s"
  using assms by (auto simp: sync_ok_def rows_ok_def row_of_id_def dest!: map_of_SomeD)

lemma sync_memory:
  assumes "sync_ok s"
  shows "memory_known (entry_of s) (state s)"
proof -
  have "snap_id (snapshot e) = i" if "entry_of s i = Some e" for i e
    using that assms row_of_id_ok(1) [OF assms] by (auto simp: entry_of_cases sync_ok_def split: option.splits)
  then show ?thesis using assms by (auto simp: memory_known_def sync_ok_def entry_of_cases)
qed

text \<open>An operation changes the state only, and as \<open>touches\<close> says.\<close>

lemma sync_touches:
  assumes s: "sync_ok s" and t: "touches (entry_of s) (state s) st'"
  shows "sync_ok (s\<lparr>state := st'\<rparr>)"
    and "entry_of (s\<lparr>state := st'\<rparr>) i = entry_of s i
      \<or> (\<exists>e. entry_of (s\<lparr>state := st'\<rparr>) i = Some e \<and> ui_revision (state s) < revision (snapshot e))"
proof -
  let ?s = "s\<lparr>state := st'\<rparr>"
  have same: "row_of_id ?s = row_of_id s" "written ?s = written s" "progress ?s = progress s" "flushing ?s = flushing s" "store ?s = store s" "state ?s = st'"
    by (simp_all add: row_of_id_def written_def fun_eq_iff split: option.split prod.split bool.split)
  have basic: "generation st' = generation (state s)" "committed_revision st' = progress s" "ui_revision (state s) \<le> ui_revision st'" "bt_ok (entries st')"
    "committed_revision (state s) = progress s" "written s \<le> ui_revision (state s)" "progress s \<le> written s"
    using s t by (simp_all add: sync_ok_def touches_def)
  have after: "entry_of s i = Some e \<or> ui_revision (state s) < revision (snapshot e) \<and> revision (snapshot e) \<le> ui_revision st' \<and> snap_id (snapshot e) = i"
    if "map_of (entries st') i = Some e" for i e using t that by (simp add: touches_def)
  have kept: "map_of (entries st') i \<noteq> None" if "newer_in_memory s i n" "progress s < n" for i n
    using t that basic by (fastforce simp: touches_def newer_in_memory_def)
  have row_newer: "newer_in_memory s i (revision (snapshot e))" if "row_of_id s i = Some e" "progress s < revision (snapshot e)" for i e
    using s that by (simp add: sync_ok_def)
  have memory: "snap_id (snapshot e) = i \<and> revision (snapshot e) \<le> ui_revision (state s) \<and> (revision (snapshot e) \<le> written s \<longrightarrow> row_of_id s i = Some e)"
    if "map_of (entries (state s)) i = Some e" for i e using s that by (simp add: sync_ok_def)
  have known: "snap_id (snapshot e) = i \<and> revision (snapshot e) \<le> ui_revision (state s) \<and> (revision (snapshot e) \<le> written s \<longrightarrow> row_of_id s i = Some e)
      \<and> (progress s < revision (snapshot e) \<longrightarrow> map_of (entries (state s)) i = Some e)" if "entry_of s i = Some e" for i e
  proof (cases "map_of (entries (state s)) i")
    case None
    then have r: "row_of_id s i = Some e" using that by (simp add: entry_of_cases)
    show ?thesis using row_of_id_ok [OF s r] r row_newer [OF r] basic None by (auto simp: newer_in_memory_def)
  next
    case (Some e')
    then show ?thesis using that memory [OF Some] by (simp add: entry_of_cases)
  qed
  have newer: "newer_in_memory ?s i n" if n: "newer_in_memory s i n" "progress s < n" for i n
  proof -
    obtain e where e: "map_of (entries st') i = Some e" using kept [OF n] by blast
    obtain e0 where e0: "map_of (entries (state s)) i = Some e0" "n \<le> revision (snapshot e0)" using n(1) by (auto simp: newer_in_memory_def)
    have "n \<le> revision (snapshot e)" using after [OF e] e0 memory [OF e0(1)] by (auto simp: entry_of_cases)
    then show ?thesis using e by (simp add: newer_in_memory_def)
  qed
  have job: "job_ok ?s j" if "job_ok s j" "job_revision j \<le> ui_revision (state s)" for j
  proof -
    have "e \<in> set (job_entries j)" if "map_of (entries st') i = Some e" "progress s < revision (snapshot e)" "revision (snapshot e) \<le> job_revision j" for i e
      using after [OF that(1)] known [of i e] that \<open>job_ok s j\<close> \<open>job_revision j \<le> ui_revision (state s)\<close> by (auto simp: job_ok_def)
    then show ?thesis using that(1) newer by (simp add: job_ok_def)
  qed
  have "snap_id (snapshot e) = i \<and> revision (snapshot e) \<le> ui_revision st' \<and> (revision (snapshot e) \<le> written s \<longrightarrow> row_of_id s i = Some e)"
    if "map_of (entries st') i = Some e" for i e
    using after [OF that] known [of i e] basic by auto
  then show "sync_ok ?s"
    using s basic newer row_newer job unfolding sync_ok_def same by (auto simp del: not_less)
  show "entry_of ?s i = entry_of s i \<or> (\<exists>e. entry_of ?s i = Some e \<and> ui_revision (state s) < revision (snapshot e))"
  proof (cases "map_of (entries st') i")
    case None
    have "row_of_id s i = Some e" if "map_of (entries (state s)) i = Some e" for e
    proof -
      have "revision (snapshot e) \<le> progress s" using t that None basic(5) by (fastforce simp: touches_def)
      then show ?thesis using memory [OF that] basic(7) by simp
    qed
    then show ?thesis using None by (simp add: entry_of_cases same split: option.split)
  next
    case (Some e)
    then show ?thesis using after [OF Some] by (auto simp: entry_of_cases [of ?s])
  qed
qed

section \<open>The flush\<close>

lemma sync_flush_begin:
  assumes s: "sync_ok s" and n: "flushing s = None"
  shows "sync_ok (s\<lparr>flushing := map_option (\<lambda>j. (j, False)) (flush_begin (progress s) (state s))\<rparr>)"
proof (cases "flush_begin (progress s) (state s)")
  case None
  then have "s\<lparr>flushing := map_option (\<lambda>j. (j, False)) (flush_begin (progress s) (state s))\<rparr> = s" using n by (cases s) simp
  then show ?thesis using s by simp
next
  case (Some j)
  have w: "written s = progress s" using n by (simp add: written_def)
  have j: "job_generation j = generation (state s)" "job_revision j = ui_revision (state s)" "progress s < job_revision j" "job_from j = progress s"
    "job_entries j = map snd (filter (\<lambda>(_, e). progress s < revision (snapshot e)) (entries (state s)))"
    using Some s w by (auto simp: flush_begin_def sync_ok_def split: if_splits)
  have id: "snap_id (snapshot e) = i \<and> revision (snapshot e) \<le> ui_revision (state s) \<and> map_of (entries (state s)) i = Some e"
    if "(i, e) \<in> set (entries (state s))" for i e
    using s that by (auto simp: sync_ok_def bt_ok_def)
  have "map (snap_id \<circ> snapshot) (job_entries j) = map fst (filter (\<lambda>(_, e). progress s < revision (snapshot e)) (entries (state s)))"
    using id by (auto simp: j)
  then have "distinct (map (snap_id \<circ> snapshot) (job_entries j))"
    using s bt_ok_filter by (metis bt_ok_def sync_ok_def)
  then have "job_ok s j"
    using id by (force simp: job_ok_def j newer_in_memory_def dest: map_of_SomeD)
  then have "job_ok (s\<lparr>flushing := Some (j, False)\<rparr>) j" by (simp add: job_ok_def newer_in_memory_def)
  then show ?thesis using s w j unfolding sync_ok_def
    by (simp add: Some written_def row_of_id_def newer_in_memory_def)
qed

lemma write_entries_effect:
  assumes "write_entries es rws = Inr rws'" "bt_ok rws"
  shows "bt_ok rws' \<and> (\<forall>i. (\<exists>e \<in> set es. snap_id (snapshot e) = i \<and> map_option row_entry (map_of rws' i) = Some e)
    \<or> i \<notin> snap_id ` snapshot ` set es \<and> map_of rws' i = map_of rws i)"
  using assms
proof (induction es rws rule: write_entries.induct)
  case (2 e es rws)
  have f: "write_entries es (upsert e rws) = Inr rws'" using 2(2) by (simp split: sum.splits)
  have u: "bt_ok (upsert e rws)" "map_option row_entry (map_of (upsert e rws) (snap_id (snapshot e))) = Some e"
    "i \<noteq> snap_id (snapshot e) \<Longrightarrow> map_of (upsert e rws) i = map_of rws i" for i
    using 2(3) by (auto simp: upsert_def Let_def bt_insert_ok map_of_bt_insert)
  obtain y where "fits e = Inr y" using 2(2) by (auto split: sum.splits)
  note ih = 2(1) [OF this f u(1)]
  have "(\<exists>x \<in> set (e # es). snap_id (snapshot x) = i \<and> map_option row_entry (map_of rws' i) = Some x)
      \<or> i \<notin> snap_id ` snapshot ` set (e # es) \<and> map_of rws' i = map_of rws i" for i
  proof (cases "\<exists>x \<in> set es. snap_id (snapshot x) = i \<and> map_option row_entry (map_of rws' i) = Some x")
    case False
    then have r: "i \<notin> snap_id ` snapshot ` set es" "map_of rws' i = map_of (upsert e rws) i" using ih by blast+
    show ?thesis
    proof (cases "i = snap_id (snapshot e)")
      case True
      have "map_option row_entry (map_of rws' i) = Some e" unfolding r(2) unfolding True by (rule u(2))
      then show ?thesis using True by simp
    next
      case False
      then show ?thesis using r u(3) by simp
    qed
  qed auto
  then show ?case using ih by blast
qed simp

lemma fits_errors: "fits e \<noteq> Inl ''UI history persistence generation/revision conflict''"
  by (auto simp: fits_def integer_def out_of_range_def split: sum.splits if_splits)

lemma write_entries_errors: "write_entries es rws \<noteq> Inl ''UI history persistence generation/revision conflict''"
  by (induction es rws rule: write_entries.induct) (use fits_errors in \<open>auto split: sum.splits\<close>)

lemma sync_job:
  assumes "sync_ok s" "flushing s = Some (j, w)"
  shows "job_generation j = generation (state s)" "progress s < job_revision j" "job_revision j \<le> ui_revision (state s)" "\<not> w \<Longrightarrow> job_ok s j"
  using assms unfolding sync_ok_def by blast+

text \<open>The rows of a session after the transaction of its flush.\<close>

lemma job_rows:
  assumes s: "sync_ok s" and j: "flushing s = Some (j, False)" and w: "write_entries (job_entries j) (db_rows (store s)) = Inr rws"
  shows "bt_ok rws"
    and "(\<exists>e \<in> set (job_entries j). snap_id (snapshot e) = i \<and> map_option row_entry (map_of rws i) = Some e)
      \<or> i \<notin> snap_id ` snapshot ` set (job_entries j) \<and> map_of rws i = map_of (db_rows (store s)) i"
    and "e \<in> set (job_entries j) \<Longrightarrow> map_option row_entry (map_of rws (snap_id (snapshot e))) = Some e"
proof -
  note ef = write_entries_effect [OF w]
  show "bt_ok rws" and r: "(\<exists>e \<in> set (job_entries j). snap_id (snapshot e) = i \<and> map_option row_entry (map_of rws i) = Some e)
      \<or> i \<notin> snap_id ` snapshot ` set (job_entries j) \<and> map_of rws i = map_of (db_rows (store s)) i" for i
    using ef s by (simp_all add: sync_ok_def rows_ok_def)
  have "inj_on (snap_id \<circ> snapshot) (set (job_entries j))" using sync_job(4) [OF s j] by (simp add: job_ok_def distinct_map)
  then show "map_option row_entry (map_of rws (snap_id (snapshot e))) = Some e" if "e \<in> set (job_entries j)"
    using r [of "snap_id (snapshot e)"] that by (force simp: inj_on_def)
qed

text \<open>With its session in step, a flush never meets the conflict it checks for.\<close>

lemma sync_flush_write:
  assumes s: "sync_ok s" and j: "flushing s = Some (j, False)" and w: "flush_write j (store s) = (db, res)"
  defines "s' \<equiv> s\<lparr>store := db, flushing := (if isl res then None else Some (j, True))\<rparr>"
  shows "res \<noteq> Inl ''UI history persistence generation/revision conflict''" and "sync_ok s'" and "entry_of s' i = entry_of s i"
    and "row_of_id s' i = row_of_id s i \<or> (\<exists>e. row_of_id s' i = Some e \<and> progress s < revision (snapshot e))"
proof -
  have wr: "written s = progress s" by (simp add: written_def j)
  have no: "job_generation j = generation (state s)" "progress s < job_revision j" "job_revision j \<le> ui_revision (state s)" "job_ok s j"
    "db_generation (store s) = job_generation j" "db_revision (store s) = job_from j"
    using sync_job [OF s j] s wr by (simp_all add: sync_ok_def job_ok_def)
  show "res \<noteq> Inl ''UI history persistence generation/revision conflict''"
    using w no write_entries_errors by (auto simp: flush_write_def integer_def out_of_range_def split: sum.splits if_splits)
  have "sync_ok s' \<and> entry_of s' i = entry_of s i \<and> (row_of_id s' i = row_of_id s i \<or> (\<exists>e. row_of_id s' i = Some e \<and> progress s < revision (snapshot e)))"
  proof (cases res)
    case (Inl x)
    then have "db = store s" using w by (auto simp: flush_write_def split: sum.splits if_splits)
    then have same: "s' = s\<lparr>flushing := None\<rparr>" using Inl by (simp add: s'_def)
    show ?thesis using s wr unfolding same
      by (simp add: sync_ok_def entry_of_def row_of_id_def written_def newer_in_memory_def)
  next
    case (Inr u)
    obtain rws where rws: "write_entries (job_entries j) (db_rows (store s)) = Inr rws" "db_rows db = rws" "db_generation db = db_generation (store s)"
      "db_revision db = job_revision j"
      using w Inr by (auto simp: flush_write_def split: sum.splits if_splits)
    note rw = job_rows [OF s j rws(1)]
    have s': "state s' = state s" "progress s' = progress s" "written s' = job_revision j" "store s' = db" "flushing s' = Some (j, True)"
      by (simp_all add: s'_def Inr written_def)
    have newer: "newer_in_memory s' = newer_in_memory s" by (simp add: newer_in_memory_def s' fun_eq_iff)
    have row: "(\<exists>e \<in> set (job_entries j). snap_id (snapshot e) = i \<and> row_of_id s' i = Some e)
        \<or> i \<notin> snap_id ` snapshot ` set (job_entries j) \<and> row_of_id s' i = row_of_id s i" for i
      using rw(2) [of i] by (auto simp: row_of_id_def s' rws(2))
    have job: "progress s < revision (snapshot e)" "revision (snapshot e) \<le> job_revision j" "newer_in_memory s (snap_id (snapshot e)) (revision (snapshot e))"
      if "e \<in> set (job_entries j)" for e using no(4) that by (simp_all add: job_ok_def)
    have ids: "rows_ok db"
    proof -
      have "snap_id (snapshot (row_entry r)) = i \<and> revision (snapshot (row_entry r)) \<le> job_revision j" if "(i, r) \<in> set rws" for i r
      proof -
        have "row_of_id s' i = Some (row_entry r)" using rw(1) that by (auto simp: row_of_id_def s' rws(2) bt_ok_def)
        then show ?thesis using row [of i] job(2) row_of_id_ok [OF s, of i "row_entry r"] wr no(2) by auto
      qed
      then show ?thesis using rw(1) by (auto simp: rows_ok_def rws)
    qed
    have mem: "row_of_id s' i = Some e" if e: "map_of (entries (state s)) i = Some e" "revision (snapshot e) \<le> job_revision j" for i e
    proof (cases "revision (snapshot e) \<le> progress s")
      case True
      then have "row_of_id s i = Some e" using s e(1) wr by (simp add: sync_ok_def)
      moreover have "i \<notin> snap_id ` snapshot ` set (job_entries j)"
        using job(1,3) e(1) True by (fastforce simp: newer_in_memory_def)
      ultimately show ?thesis using row [of i] by auto
    next
      case False
      then have "progress s < revision (snapshot e)" by simp
      then have "e \<in> set (job_entries j)" using no(4) e unfolding job_ok_def by blast
      moreover have "snap_id (snapshot e) = i" using s e(1) by (simp add: sync_ok_def)
      ultimately show ?thesis using rw(3) by (auto simp: row_of_id_def s' rws(2))
    qed
    have stale: "newer_in_memory s i (revision (snapshot e))" if "row_of_id s' i = Some e" "progress s < revision (snapshot e)" for i e
      using row [of i] job(3) that s by (auto simp: sync_ok_def)
    have "db_generation db = generation (state s)" "committed_revision (state s) = progress s" "bt_ok (entries (state s))" "progress s \<le> job_revision j"
      "\<And>i e. map_of (entries (state s)) i = Some e \<Longrightarrow> snap_id (snapshot e) = i \<and> revision (snapshot e) \<le> ui_revision (state s)"
      using s no(2) by (simp_all add: sync_ok_def rws(3))
    then have "sync_ok s'"
      unfolding sync_ok_def s' newer using no(1,2,3) ids mem stale rws(4) by blast
    moreover have "entry_of s' i = entry_of s i"
    proof (cases "map_of (entries (state s)) i")
      case None
      then have "i \<notin> snap_id ` snapshot ` set (job_entries j)" using job(3) by (fastforce simp: newer_in_memory_def)
      then show ?thesis using row [of i] by (auto simp: entry_of_cases s' None)
    qed (simp add: entry_of_cases s')
    ultimately show ?thesis using row [of i] job(1) by auto
  qed
  then show "sync_ok s'" "entry_of s' i = entry_of s i"
    "row_of_id s' i = row_of_id s i \<or> (\<exists>e. row_of_id s' i = Some e \<and> progress s < revision (snapshot e))" by simp_all
qed

lemma sync_flush_end:
  assumes s: "sync_ok s" and j: "flushing s = Some (j, True)" and w: "flush_end j (state s) = (st', res)"
  defines "s' \<equiv> s\<lparr>state := st', progress := (if generation (state s) = job_generation j then job_revision j else progress s), flushing := None\<rparr>"
  shows "sync_ok s'" and "entry_of s' i = entry_of s i" and "progress s < progress s'"
proof -
  have no: "job_generation j = generation (state s)" "progress s < job_revision j" "job_revision j \<le> ui_revision (state s)" "written s = job_revision j"
    using sync_job(1-3) [OF s j] by (simp_all add: written_def j)
  define keep where "keep = (\<lambda>i e. map_of (pending_appends (state s)) i \<noteq> None \<or> job_revision j < revision (snapshot e) \<or> active e
    \<or> (case content_run_id (snap_content (snapshot e)) of Some run \<Rightarrow> map_of (runs (state s)) run \<noteq> None | None \<Rightarrow> False))"
  have st': "st' = (state s)\<lparr>committed_revision := job_revision j, entries := filter (\<lambda>(i, e). keep i e) (entries (state s))\<rparr>"
    using w no(1) by (auto simp: flush_end_def keep_def Let_def)
  have s': "state s' = st'" "progress s' = job_revision j" "written s' = job_revision j" "store s' = store s" "flushing s' = None" "row_of_id s' = row_of_id s"
    using no(1) by (simp_all add: s'_def written_def row_of_id_def fun_eq_iff)
  have bt: "bt_ok (entries (state s))" using s by (simp add: sync_ok_def)
  have m: "map_of (entries st') i = (case map_of (entries (state s)) i of Some e \<Rightarrow> if keep i e then Some e else None | None \<Rightarrow> None)" for i
    by (simp add: st' map_of_filter [OF bt])
  have rowsle: "revision (snapshot e) \<le> job_revision j" if "row_of_id s i = Some e" for i e
    using row_of_id_ok(2) [OF s that] no(4) by simp
  have mem: "snap_id (snapshot e) = i \<and> revision (snapshot e) \<le> ui_revision (state s) \<and> (revision (snapshot e) \<le> job_revision j \<longrightarrow> row_of_id s i = Some e)"
    if "map_of (entries (state s)) i = Some e" for i e using s that no(4) by (simp add: sync_ok_def)
  have frame: "generation st' = generation (state s)" "ui_revision st' = ui_revision (state s)" "committed_revision st' = job_revision j" "bt_ok (entries st')"
    using bt by (simp_all add: st' bt_ok_filter)
  have "snap_id (snapshot e) = i \<and> revision (snapshot e) \<le> ui_revision (state s) \<and> (revision (snapshot e) \<le> job_revision j \<longrightarrow> row_of_id s i = Some e)"
    if "map_of (entries st') i = Some e" for i e
    using that mem by (auto simp: m split: option.splits if_splits)
  moreover have "db_generation (store s) = generation (state s)" "rows_ok (store s)" "db_revision (store s) = job_revision j"
    using s no(4) by (simp_all add: sync_ok_def)
  moreover have "\<not> job_revision j < revision (snapshot e)" if "row_of_id s i = Some e" for i e using rowsle [OF that] by simp
  ultimately show "sync_ok s'"
    unfolding sync_ok_def s' frame using frame(4) no(3) by blast
  show "entry_of s' i = entry_of s i"
  proof (cases "map_of (entries (state s)) i")
    case (Some e)
    then show ?thesis using mem [OF Some] by (auto simp: entry_of_cases s' m keep_def)
  qed (simp add: entry_of_cases s' m)
  show "progress s < progress s'" using no(2) by (simp add: s')
qed

section \<open>Every interleaving\<close>

lemma sync_opened: "rows_ok db \<Longrightarrow> sync_ok (opened tail db)"
  by (auto simp: sync_ok_def opened_def load_state_def written_def row_of_id_def rows_ok_def bt_ok_def dest!: map_of_SomeD)

lemma step_touches:
  assumes s: "sync_ok s" and t: "ui_step env s s'"
  shows "(\<exists>st'. s' = s\<lparr>state := st'\<rparr> \<and> touches (entry_of s) (state s) st')
    \<or> flushing s = None \<and> s' = s\<lparr>flushing := map_option (\<lambda>j. (j, False)) (flush_begin (progress s) (state s))\<rparr>
    \<or> (\<exists>j db res. flushing s = Some (j, False) \<and> flush_write j (store s) = (db, res)
        \<and> s' = s\<lparr>store := db, flushing := (if isl res then None else Some (j, True))\<rparr>)
    \<or> (\<exists>j st' res. flushing s = Some (j, True) \<and> flush_end j (state s) = (st', res)
        \<and> s' = s\<lparr>state := st', progress := (if generation (state s) = job_generation j then job_revision j else progress s), flushing := None\<rparr>)"
proof -
  note k = sync_memory [OF s]
  from t show ?thesis
  proof cases
    case (stage loaded gen irs st' res)
    have settled: "owners_settled (tool_owners (state s)) (entries (state s) @ loaded)" if "ui_revision st' = ui_revision (state s)"
      using stage that by blast
    have "touches (entry_of s) (state s) st'" by (rule touches_stage [OF k stage(2,3,4) settled])
    then show ?thesis using stage(1) by blast
  next
    case (rewrite loaded expected r)
    then show ?thesis using touches_rewrite [OF k] by blast
  next
    case flush_begin
    then show ?thesis by (intro disjI2 disjI1 conjI)
  next
    case (flush_write j db res)
    then show ?thesis by (intro disjI2 disjI1 conjI exI)
  next
    case (flush_end j st' res)
    then show ?thesis by (intro disjI2 conjI exI)
  qed ((rule disjI1, rule exI, rule conjI, assumption, rule touches_ingest [OF k] touches_bind [OF k] touches_error [OF k] touches_fail [OF k]
    touches_begin [OF k] touches_attempt [OF k] touches_mutate [OF k] touches_present [OF k] touches_finish [OF k])+)
qed

text \<open>What a step changes carries a newer revision, in what the session holds and in its rows.\<close>

definition later :: "ui_session \<Rightarrow> ui_session \<Rightarrow> bool" where
  "later s s' \<longleftrightarrow> generation (state s') = generation (state s) \<and> ui_revision (state s) \<le> ui_revision (state s') \<and> progress s \<le> progress s'
     \<and> (\<forall>i. entry_of s' i = entry_of s i \<or> (\<exists>e. entry_of s' i = Some e \<and> ui_revision (state s) < revision (snapshot e)))
     \<and> (\<forall>i. row_of_id s' i = row_of_id s i \<or> (\<exists>e. row_of_id s' i = Some e \<and> progress s < revision (snapshot e)))"

lemma step_later:
  assumes s: "sync_ok s" and t: "ui_step env s s'"
  shows "sync_ok s' \<and> later s s'"
  using step_touches [OF s t]
proof (elim disjE exE conjE)
  fix st' assume e: "s' = s\<lparr>state := st'\<rparr>" and t: "touches (entry_of s) (state s) st'"
  show ?thesis using sync_touches [OF s t] t unfolding e later_def by (simp add: row_of_id_def touches_def)
next
  assume n: "flushing s = None" and e: "s' = s\<lparr>flushing := map_option (\<lambda>j. (j, False)) (flush_begin (progress s) (state s))\<rparr>"
  show ?thesis using sync_flush_begin [OF s n] unfolding e later_def by (simp add: row_of_id_def entry_of_def)
next
  fix j db res
  assume j: "flushing s = Some (j, False)" and w: "flush_write j (store s) = (db, res)"
    and e: "s' = s\<lparr>store := db, flushing := (if isl res then None else Some (j, True))\<rparr>"
  show ?thesis using sync_flush_write(2-4) [OF s j w] unfolding e later_def by simp
next
  fix j st' res
  assume j: "flushing s = Some (j, True)" and w: "flush_end j (state s) = (st', res)"
    and e: "s' = s\<lparr>state := st', progress := (if generation (state s) = job_generation j then job_revision j else progress s), flushing := None\<rparr>"
  have "generation st' = generation (state s)" "ui_revision st' = ui_revision (state s)" using w by (auto simp: flush_end_def Let_def split: if_splits)
  then show ?thesis using sync_flush_end [OF s j w] unfolding e later_def by (simp add: row_of_id_def)
qed

lemma later_trans:
  assumes "later a b" "later b c"
  shows "later a c"
proof -
  have "entry_of c i = entry_of a i \<or> (\<exists>e. entry_of c i = Some e \<and> ui_revision (state a) < revision (snapshot e))"
    "row_of_id c i = row_of_id a i \<or> (\<exists>e. row_of_id c i = Some e \<and> progress a < revision (snapshot e))" for i
    using assms unfolding later_def by (metis order_le_less_trans)+
  then show ?thesis using assms by (simp add: later_def)
qed

lemma run_later:
  assumes "(ui_step env)\<^sup>*\<^sup>* s s'" "sync_ok s"
  shows "sync_ok s' \<and> later s s'"
  using assms
proof (induction rule: rtranclp_induct)
  case base
  then show ?case by (simp add: later_def)
next
  case (step a b)
  then show ?case using step_later later_trans by blast
qed

section \<open>Catching up\<close>

definition view :: "ui_session \<Rightarrow> string \<Rightarrow> ui_snapshot option" where
  "view s i = map_option snapshot (entry_of s i)"

definition apply_batch :: "ui_history_batch \<Rightarrow> (string \<Rightarrow> ui_snapshot option) \<Rightarrow> string \<Rightarrow> ui_snapshot option" where
  "apply_batch b v = v ++ map_of (map (\<lambda>sn. (snap_id sn, sn)) (batch_history b))"

lemma overlay_fold:
  "overlay rws es = fold (\<lambda>(i, sn). bt_insert i sn) (map (\<lambda>(_, e). (snap_id (snapshot e), snapshot e)) es)
     (fold (\<lambda>(i, sn). bt_insert i sn) (map (\<lambda>e. (snap_id (snapshot e), snapshot e)) rws) [])"
  by (simp add: overlay_def fold_map comp_def case_prod_unfold)

lemma map_of_overlay:
  assumes "distinct (map (snap_id \<circ> snapshot) rws)" "distinct (map fst es)" "\<And>i e. (i, e) \<in> set es \<Longrightarrow> snap_id (snapshot e) = i"
  shows "bt_ok (overlay rws es)"
    and "map_of (overlay rws es) = map_of (map (\<lambda>e. (snap_id (snapshot e), snapshot e)) rws) ++ (map_option snapshot \<circ> map_of es)"
proof -
  have e: "map (\<lambda>(_, e). (snap_id (snapshot e), snapshot e)) es = map (\<lambda>(i, e). (i, snapshot e)) es" using assms(3) by auto
  have r: "bt_ok (fold (\<lambda>(i, sn). bt_insert i sn) (map (\<lambda>e. (snap_id (snapshot e), snapshot e)) rws) [])
      \<and> map_of (fold (\<lambda>(i, sn). bt_insert i sn) (map (\<lambda>e. (snap_id (snapshot e), snapshot e)) rws) [])
        = map_of (map (\<lambda>e. (snap_id (snapshot e), snapshot e)) rws)"
    using map_of_fold_insert [of "[]" "map (\<lambda>e. (snap_id (snapshot e), snapshot e)) rws"] assms(1) by (simp add: bt_ok_def comp_def)
  have "distinct (map fst (map (\<lambda>(i, e). (i, snapshot e)) es))" using assms(2) by (simp add: comp_def case_prod_beta)
  from map_of_fold_insert [OF conjunct1 [OF r] this] r
  show "bt_ok (overlay rws es)" "map_of (overlay rws es) = map_of (map (\<lambda>e. (snap_id (snapshot e), snapshot e)) rws) ++ (map_option snapshot \<circ> map_of es)"
    by (simp_all add: overlay_fold e map_of_map)
qed

lemma overlay_length: "distinct (map (snap_id \<circ> snapshot) rws) \<Longrightarrow> length (overlay rws []) = length rws"
proof -
  assume d: "distinct (map (snap_id \<circ> snapshot) rws)"
  note m = map_of_overlay [OF d, of "[]", simplified]
  have "fst ` set (overlay rws []) = dom (map_of (overlay rws []))" by (simp add: dom_map_of_conv_image_fst)
  also have "\<dots> = (snap_id \<circ> snapshot) ` set rws" by (simp add: m(2) dom_map_of_conv_image_fst image_image)
  finally have "card (fst ` set (overlay rws [])) = length rws" using distinct_card [OF d] by simp
  moreover have "card (fst ` set (overlay rws [])) = length (overlay rws [])"
    using m(1) distinct_card [of "map fst (overlay rws [])"] by (simp add: bt_ok_def)
  ultimately show ?thesis by simp
qed

text \<open>A batch that is not refused was read from all the rows that changed.\<close>

lemma query_all:
  assumes s: "sync_ok s" and q: "updates_query c since limit (store s) = Inr rws" and l: "length (overlay rws []) \<le> limit"
  shows "distinct (map (snap_id \<circ> snapshot) rws)"
    and "c \<le> since \<Longrightarrow> rws = []"
    and "since < c \<Longrightarrow> map_of (map (\<lambda>e. (snap_id (snapshot e), snapshot e)) rws) i = Some sn
      \<longleftrightarrow> (\<exists>e. row_of_id s i = Some e \<and> since < revision (snapshot e) \<and> sn = snapshot e)"
proof -
  define changed where "changed = sort_key row_position (filter (\<lambda>r. since < revision (snapshot (row_entry r))) (map snd (db_rows (store s))))"
  have rw: "distinct (map fst (db_rows (store s)))" "\<And>i r. (i, r) \<in> set (db_rows (store s)) \<Longrightarrow> snap_id (snapshot (row_entry r)) = i"
    using s by (auto simp: sync_ok_def rows_ok_def bt_ok_def)
  have "map (snap_id \<circ> snapshot \<circ> row_entry) (map snd (db_rows (store s))) = map fst (db_rows (store s))" using rw(2) by auto
  then have "distinct (map (snap_id \<circ> snapshot \<circ> row_entry) (map snd (db_rows (store s))))" using rw(1) by metis
  then have d: "distinct (map (snap_id \<circ> snapshot \<circ> row_entry) changed)"
    unfolding changed_def by (auto simp: distinct_map inj_on_def)
  have q2: "rws = [] \<and> c \<le> since \<or> since < c \<and> rws = map row_entry (take (limit + 1) changed)"
    using q by (auto simp: updates_query_def changed_def split: if_splits sum.splits)
  have d2: "distinct (map (snap_id \<circ> snapshot) (map row_entry (take (limit + 1) changed)))"
    using distinct_take [OF d, of "limit + 1"] by (simp add: take_map comp_assoc)
  show d3: "distinct (map (snap_id \<circ> snapshot) rws)" using q2 d2 by (elim disjE conjE) simp_all
  show "c \<le> since \<Longrightarrow> rws = []" using q2 by auto
  show "map_of (map (\<lambda>e. (snap_id (snapshot e), snapshot e)) rws) i = Some sn
      \<longleftrightarrow> (\<exists>e. row_of_id s i = Some e \<and> since < revision (snapshot e) \<and> sn = snapshot e)" if "since < c"
  proof -
    have "length rws \<le> limit" using l overlay_length [OF d3] by simp
    then have all: "rws = map row_entry changed" using q2 that by auto
    have "map_of (map (\<lambda>e. (snap_id (snapshot e), snapshot e)) rws) i = Some sn \<longleftrightarrow> (i, sn) \<in> set (map (\<lambda>e. (snap_id (snapshot e), snapshot e)) rws)"
      by (rule map_of_eq_Some_iff) (use d3 in \<open>simp add: comp_def\<close>)
    also have "\<dots> \<longleftrightarrow> (\<exists>j r. (j, r) \<in> set (db_rows (store s)) \<and> since < revision (snapshot (row_entry r)) \<and> i = j \<and> sn = snapshot (row_entry r))"
      using rw(2) by (auto simp: all changed_def image_iff) 
    also have "\<dots> \<longleftrightarrow> (\<exists>e. row_of_id s i = Some e \<and> since < revision (snapshot e) \<and> sn = snapshot e)"
      using map_of_eq_Some_iff [OF rw(1)] by (auto simp: row_of_id_def)
    finally show ?thesis .
  qed
qed

lemma history_map:
  assumes "distinct (map fst xs)" "\<And>i sn. (i, sn) \<in> set xs \<Longrightarrow> snap_id sn = i"
  shows "map_of (map (\<lambda>sn. (snap_id sn, sn)) (sort_key position (map snd xs))) = map_of xs"
proof -
  have "map snap_id (map snd xs) = map fst xs" using assms(2) by auto
  then have "distinct (map snap_id (map snd xs))" using assms(1) by metis
  then have d: "distinct (map fst (map (\<lambda>sn. (snap_id sn, sn)) (sort_key position (map snd xs))))"
    by (auto simp: distinct_map inj_on_def comp_def)
  have "set (map (\<lambda>sn. (snap_id sn, sn)) (sort_key position (map snd xs))) = set xs"
    using assms(2) by (force simp: image_iff)
  then show ?thesis using map_of_inject_set [OF d assms(1)] by simp
qed

lemma answer_complete:
  assumes s1: "sync_ok s1" and s2: "sync_ok s2" and l: "later s1 s2" and c: "c \<le> progress s1"
    and q: "updates_query c since limit (store s1) = Inr rws"
    and a: "updates_finish gen since limit c rws (state s2) = Inr (Answer b)"
  shows "batch_revision b = ui_revision (state s2)"
    and "map_of (map (\<lambda>sn. (snap_id sn, sn)) (batch_history b)) i = Some sn
      \<longleftrightarrow> (\<exists>e. entry_of s2 i = Some e \<and> since < revision (snapshot e) \<and> sn = snapshot e)"
proof -
  define mem where "mem = filter (\<lambda>(_, e). since < revision (snapshot e)) (entries (state s2))"
  have sh: "c = committed_revision (state s2)" "length (overlay rws []) \<le> limit" "batch_revision b = ui_revision (state s2)"
    "batch_history b = sort_key position (map snd (overlay rws mem))"
    using a by (auto simp: updates_finish_def Let_def mem_def split: sum.splits if_splits)
  show "batch_revision b = ui_revision (state s2)" by (rule sh(3))
  note rows = query_all [OF s1 q sh(2)]
  have p: "c = progress s2" "progress s1 = c" using s2 sh(1) c l by (simp_all add: sync_ok_def later_def)
  have bt: "bt_ok (entries (state s2))" using s2 by (simp add: sync_ok_def)
  have m: "map_of mem j = (case map_of (entries (state s2)) j of Some e \<Rightarrow> if since < revision (snapshot e) then Some e else None | None \<Rightarrow> None)" for j
    unfolding mem_def by (rule map_of_filter [OF bt])
  have memory: "snap_id (snapshot e) = j \<and> (revision (snapshot e) \<le> written s2 \<longrightarrow> row_of_id s2 j = Some e)" if "map_of (entries (state s2)) j = Some e" for j e
    using s2 that by (simp add: sync_ok_def)
  have newer: "map_of (entries (state s2)) j \<noteq> None" if "row_of_id s2 j = Some e" "c < revision (snapshot e)" for j e
  proof -
    have "newer_in_memory s2 j (revision (snapshot e))" using s2 that unfolding p(1) sync_ok_def by blast
    then show ?thesis by (auto simp: newer_in_memory_def)
  qed
  have md: "distinct (map fst mem)" "\<And>j e. (j, e) \<in> set mem \<Longrightarrow> snap_id (snapshot e) = j"
    using bt_ok_filter [OF bt] bt memory by (auto simp: mem_def bt_ok_def)
  note ov = map_of_overlay [OF rows(1) md]
  have ids: "snap_id x = j" if "(j, x) \<in> set (overlay rws mem)" for j x
  proof -
    have "map_of (overlay rws mem) j = Some x" using ov(1) that by (simp add: bt_ok_def)
    then show ?thesis using memory by (auto simp: ov(2) map_add_Some_iff m dest: map_of_SomeD split: option.splits if_splits)
  qed
  have "map_of (map (\<lambda>sn. (snap_id sn, sn)) (batch_history b)) i = map_of (overlay rws mem) i"
    unfolding sh(4) using history_map [OF _ ids] ov(1) by (simp add: bt_ok_def)
  also have "\<dots> = Some sn \<longleftrightarrow> (\<exists>e. entry_of s2 i = Some e \<and> since < revision (snapshot e) \<and> sn = snapshot e)"
  proof (cases "c \<le> since")
    case True
    then have "map_of (overlay rws mem) i = map_option snapshot (map_of mem i)" using fun_cong [OF ov(2), of i] rows(2) by simp
    then show ?thesis using newer [of i] True by (auto simp: m entry_of_cases split: option.splits)
  next
    case False
    then have f: "since < c" by simp
    have row: "map_of (map (\<lambda>e. (snap_id (snapshot e), snapshot e)) rws) i = Some sn
      \<longleftrightarrow> (\<exists>e. row_of_id s1 i = Some e \<and> since < revision (snapshot e) \<and> sn = snapshot e)" for sn by (rule rows(3) [OF f])
    have moved: "row_of_id s2 i = row_of_id s1 i \<or> (\<exists>e. row_of_id s2 i = Some e \<and> c < revision (snapshot e))"
      using l p(2) by (simp add: later_def)
    show ?thesis
    proof (cases "map_of (entries (state s2)) i")
      case None
      then have "row_of_id s2 i = row_of_id s1 i" using moved newer by blast
      then show ?thesis using row [of sn] by (simp add: ov(2) map_add_def m None entry_of_cases)
    next
      case (Some e)
      show ?thesis
      proof (cases "since < revision (snapshot e)")
        case True
        then show ?thesis by (auto simp: ov(2) map_add_def m Some entry_of_cases)
      next
        case old: False
        have "revision (snapshot e) \<le> written s2" using old f p(1) s2 by (simp add: sync_ok_def)
        then have "row_of_id s2 i = Some e" using memory [OF Some] by simp
        then have "row_of_id s1 i = Some e" using moved old f by auto
        then show ?thesis using row [of sn] old by (simp add: ov(2) map_add_def m Some entry_of_cases)
      qed
    qed
  qed
  finally show "map_of (map (\<lambda>sn. (snap_id sn, sn)) (batch_history b)) i = Some sn
      \<longleftrightarrow> (\<exists>e. entry_of s2 i = Some e \<and> since < revision (snapshot e) \<and> sn = snapshot e)" .
qed


definition sample_env :: ui_env where
  "sample_env = \<lparr>parse_uuid = Inr, materializer_error_text = (\<lambda>_. [])\<rparr>"

definition sample_store :: ui_store where
  "sample_store = \<lparr>db_generation = ''g'', db_revision = 0, db_next_position = 0, db_total = 0, db_failure = None, db_rows = []\<rparr>"

definition sample_error :: ui_provider_error where
  "sample_error = \<lparr>pe_run_id = ''r'', pe_segment_id = None, pe_created_at = 1, pe_raw = ''busy'', pe_details = JNull, pe_retry_after_ms = None\<rparr>"

definition sample_entry :: "nat \<Rightarrow> ui_presentation_document option \<Rightarrow> ui_entry" where
  "sample_entry rv doc = \<lparr>snapshot = \<lparr>snap_id = ''e'', position = 0, revision = rv, canonical_committed = False, snap_content = UiError sample_error,
     presentation = \<lparr>document = doc, metadata = Map.empty\<rparr>, accumulated_arguments = None, assistant_id = None, snap_outcome = None\<rparr>,
     canonical = None, content_version = 0, entry_materializer = None\<rparr>"

definition sample_job :: flush_job where
  "sample_job = \<lparr>job_generation = ''g'', job_from = 0, job_revision = 1, job_next_position = 1, job_total = 1, job_failure = None,
     job_entries = [sample_entry 1 None]\<rparr>"

definition sample_state :: "nat \<Rightarrow> nat \<Rightarrow> (string \<times> ui_entry) list \<Rightarrow> ui_state" where
  "sample_state rv committed es = \<lparr>generation = ''g'', ui_revision = rv, committed_revision = committed, next_position = 1, total_messages = 1, ui_tail = 0,
     entries = es, pending_appends = [], runs = [], tool_owners = [], ui_failure = None\<rparr>"

definition written_store :: ui_store where
  "written_store = \<lparr>db_generation = ''g'', db_revision = 1, db_next_position = 1, db_total = 1, db_failure = None,
     db_rows = [(''e'', \<lparr>row_position = 0, row_entry = sample_entry 1 None\<rparr>)]\<rparr>"

definition edited :: ui_presentation where
  "edited = \<lparr>document = Some (DocText ''busy''), metadata = Map.empty\<rparr>"

text \<open>An error is recorded and flushed, and its presentation is edited while a subscriber is answered.\<close>

definition sample_flushed :: ui_session where
  "sample_flushed = \<lparr>state = sample_state 1 1 [], store = written_store, progress = 1, flushing = None\<rparr>"

definition sample_edited :: ui_session where
  "sample_edited = \<lparr>state = sample_state 2 1 [(''e'', sample_entry 2 (Some (DocText ''busy'')))], store = written_store, progress = 1, flushing = None\<rparr>"

lemma sample_flush: "(ui_step sample_env)\<^sup>*\<^sup>* (opened 0 sample_store) sample_flushed"
proof -
  define s1 where "s1 = \<lparr>state = sample_state 1 0 [(''e'', sample_entry 1 None)], store = sample_store, progress = 0, flushing = None\<rparr>"
  define s2 where "s2 = s1\<lparr>flushing := Some (sample_job, False)\<rparr>"
  define s3 where "s3 = s1\<lparr>store := written_store, flushing := Some (sample_job, True)\<rparr>"
  have "ui_step sample_env (opened 0 sample_store) s1"
    using ui_step.error [of sample_env "opened 0 sample_store" "''e''" sample_error None]
    by (simp add: opened_def s1_def load_state_def sample_store_def sample_state_def insert_error_def check_def allocate_def advance_def integer_def
      Let_def sample_entry_def default_presentation_def sample_error_def)
  moreover have "ui_step sample_env s1 s2"
    using ui_step.flush_begin [of s1 sample_env]
    by (simp add: s1_def s2_def flush_begin_def sample_state_def sample_job_def sample_entry_def)
  moreover have "ui_step sample_env s2 s3"
  proof -
    have "flush_write sample_job sample_store = (written_store, Inr ())"
      by (simp add: flush_write_def sample_job_def sample_store_def integer_def fits_def sample_entry_def upsert_def written_store_def)
    then show ?thesis using ui_step.flush_write [of s2 sample_job written_store "Inr ()" sample_env] by (simp add: s1_def s2_def s3_def)
  qed
  moreover have "ui_step sample_env s3 sample_flushed"
  proof -
    have "flush_end sample_job (sample_state 1 0 [(''e'', sample_entry 1 None)]) = (sample_state 1 1 [], Inr ())"
      by (simp add: flush_end_def sample_job_def sample_state_def check_def sample_entry_def sample_error_def active_def shown_lifecycle_def)
    moreover have "generation (sample_state 1 0 [(''e'', sample_entry 1 None)]) = job_generation sample_job" "job_revision sample_job = 1"
      by (simp_all add: sample_state_def sample_job_def)
    ultimately show ?thesis
      using ui_step.flush_end [of s3 sample_job "sample_state 1 1 []" "Inr ()" sample_env] by (simp add: s1_def s3_def sample_flushed_def)
  qed
  ultimately show ?thesis by (meson converse_rtranclp_into_rtranclp r_into_rtranclp)
qed

lemma sample_edit: "(ui_step sample_env)\<^sup>*\<^sup>* sample_flushed sample_edited"
proof -
  have "entry_of sample_flushed ''e'' = Some (sample_entry 1 None)"
    by (simp add: entry_of_def find_entry_def sample_flushed_def sample_state_def written_store_def)
  then have "ui_step sample_env sample_flushed sample_edited"
    using ui_step.present [of sample_env sample_flushed "''e''" "''g''" edited]
    by (simp add: sample_flushed_def sample_edited_def update_presentation_def check_def sample_state_def advance_def integer_def or_else_opt_def
      edited_def sample_entry_def flip: numeral_2_eq_2)
  then show ?thesis by (rule r_into_rtranclp)
qed


end
