(* ===== verification/Ui_Fork.thy ===== *)
theory Ui_Fork
  imports Ui_Engine
begin

text \<open>
  Where a session may be forked (\<open>crates/sessions/src/ui_history_fork.rs\<close>, read by
  \<open>fork_snapshot\<close> of \<open>ui_history_engine.rs\<close>): a prefix of the positions that holds nothing
  unfinished and splits no segment of the journal.
\<close>

datatype ui_fork_boundary_reason = ActiveContent | InterleavedSegment

record ui_fork_result =
  fork_point :: nat
  source_end :: nat
  boundary_adjusted :: bool
  boundary_reasons :: "ui_fork_boundary_reason list"

record ui_fork_snapshot =
  fork_result :: ui_fork_result
  canonical_tail :: nat
  fork_entries :: "ui_entry list"

fun least :: "nat list \<Rightarrow> nat option" where
  "least [] = None"
| "least (n # ns) = Some (case least ns of Some m \<Rightarrow> min n m | None \<Rightarrow> n)"

lemma least_none: "least ns = None \<longleftrightarrow> ns = []"
  by (cases ns) simp_all

lemma least_some: "least ns = Some m \<Longrightarrow> m \<in> set ns \<and> (\<forall>n \<in> set ns. m \<le> n)"
  by (induction ns arbitrary: m) (fastforce simp: least_none min_def split: option.splits if_splits)+

definition place :: "ui_entry \<Rightarrow> nat" where
  "place e = position (snapshot e)"

definition bindings :: "(ui_entry \<Rightarrow> bool) \<Rightarrow> ui_entry list \<Rightarrow> ui_canonical_binding list" where
  "bindings P es = List.map_filter canonical (filter P es)"

definition tail_before :: "ui_entry list \<Rightarrow> nat \<Rightarrow> nat" where
  "tail_before es p = fold max (map bind_end (bindings (\<lambda>e. place e < p) es)) 0"

definition crossing :: "ui_entry list \<Rightarrow> nat \<Rightarrow> nat option" where
  "crossing es p = least (filter (\<lambda>s. s < tail_before es p) (map bind_start (bindings (\<lambda>e. p \<le> place e) es)))"

definition crossed :: "ui_entry list \<Rightarrow> nat \<Rightarrow> nat \<Rightarrow> nat option" where
  "crossed es p c = least (map place (filter (\<lambda>e. place e < p \<and> (case canonical e of Some b \<Rightarrow> c < bind_end b | None \<Rightarrow> False)) es))"

lemma crossed_less: "crossed es p c = Some q \<Longrightarrow> q < p"
  by (auto simp: crossed_def dest!: least_some)

text \<open>Every turn of the loop moves the position back.\<close>

function settle :: "bool \<Rightarrow> ui_entry list \<Rightarrow> nat \<Rightarrow> ui_fork_boundary_reason list \<Rightarrow> string + nat \<times> ui_fork_boundary_reason list" where
  "settle asked es p reasons = (case crossing es p of
     None \<Rightarrow> Inr (p, reasons)
   | Some c \<Rightarrow>
       if asked then Inl ''fork point splits an interleaved canonical segment''
       else (case crossed es p c of
          None \<Rightarrow> Inl ''interleaved fork boundary has no owning snapshot''
        | Some q \<Rightarrow> settle asked es q (if InterleavedSegment \<in> set reasons then reasons else reasons @ [InterleavedSegment])))"
  by pat_completeness auto
termination by (relation "measure (\<lambda>(_, _, p, _). p)") (auto dest: crossed_less)

declare settle.simps [simp del]

definition select_prefix :: "ui_entry list \<Rightarrow> nat option \<Rightarrow> nat \<Rightarrow> string + ui_fork_snapshot" where
  "select_prefix es requested end_at =
     (let asked = requested \<noteq> None; p0 = (case requested of Some p \<Rightarrow> p | None \<Rightarrow> end_at) in
      if end_at < p0 then Inl ''fork point is outside UI history''
      else
        (let blocked = (case least (map place (filter unfinished es)) of Some u \<Rightarrow> if u < p0 then Some u else None | None \<Rightarrow> None) in
         if blocked \<noteq> None \<and> asked then Inl ''fork prefix contains uncommitted provider content''
         else case settle asked es (case blocked of Some u \<Rightarrow> u | None \<Rightarrow> p0) (if blocked \<noteq> None then [ActiveContent] else []) of
           Inl x \<Rightarrow> Inl x
         | Inr (p, reasons) \<Rightarrow>
             if \<not> asked \<and> 0 < end_at \<and> p = 0 then Inl ''no confirmed UI history prefix is available for default fork''
             else if 2 ^ 32 \<le> p then Inl out_of_range
             else Inr \<lparr>fork_result = \<lparr>fork_point = p, source_end = end_at, boundary_adjusted = (\<not> asked \<and> p < end_at), boundary_reasons = reasons\<rparr>,
               canonical_tail = tail_before es p, fork_entries = filter (\<lambda>e. place e < p) es\<rparr>))"

text \<open>A look at the state, a read of all rows and a second look.\<close>

definition fork_begin :: "ui_state \<Rightarrow> string + string \<times> nat" where
  "fork_begin st = (case check st of
     Inl x \<Rightarrow> Inl x
   | Inr _ \<Rightarrow> if pending_appends st \<noteq> [] then Inl ''canonical appends are still pending'' else Inr (generation st, committed_revision st))"

definition fork_query :: "ui_store \<Rightarrow> ui_entry list" where
  "fork_query = db_entries None None False (2 ^ 32 - 1)"

definition fork_finish :: "nat option \<Rightarrow> string \<Rightarrow> nat \<Rightarrow> ui_entry list \<Rightarrow> ui_state \<Rightarrow> string + ui_fork_snapshot answer" where
  "fork_finish requested gen committed stored st = (case check st of
     Inl x \<Rightarrow> Inl x
   | Inr _ \<Rightarrow>
       if generation st \<noteq> gen \<or> committed_revision st \<noteq> committed then Inr Retry
       else (case select_prefix (map snd (fold (\<lambda>(i, e). bt_insert i e) (entries st) (fold (\<lambda>e. bt_insert (snap_id (snapshot e)) e) stored [])))
           requested (next_position st) of
          Inl x \<Rightarrow> Inl x | Inr f \<Rightarrow> Inr (Answer f)))"

section \<open>The chosen prefix\<close>

text \<open>A position that splits no binding, and one that leaves no unfinished content before it.\<close>

definition unsplit :: "ui_entry list \<Rightarrow> nat \<Rightarrow> bool" where
  "unsplit es p \<longleftrightarrow> (\<forall>e \<in> set es. \<forall>e' \<in> set es. place e < p \<and> p \<le> place e' \<longrightarrow>
     (case (canonical e, canonical e') of (Some b, Some b') \<Rightarrow> bind_end b \<le> bind_start b' | _ \<Rightarrow> True))"

definition finished_before :: "ui_entry list \<Rightarrow> nat \<Rightarrow> bool" where
  "finished_before es p \<longleftrightarrow> (\<forall>e \<in> set es. place e < p \<longrightarrow> \<not> unfinished e)"

lemma bindings_iff: "b \<in> set (bindings P es) \<longleftrightarrow> (\<exists>e \<in> set es. P e \<and> canonical e = Some b)"
  by (force simp: bindings_def List.map_filter_def)

lemma fold_max: "fold max ns (m :: nat) = (if ns = [] then m else max m (Max (set ns)))"
  by (induction ns arbitrary: m) (auto simp: max.assoc max.left_commute)

lemma tail_before_upper: "b \<in> set (bindings (\<lambda>e. place e < p) es) \<Longrightarrow> bind_end b \<le> tail_before es p"
  by (auto simp: tail_before_def fold_max intro!: Max_ge le_max_iff_disj [THEN iffD2])

lemma tail_before_attained: "tail_before es p = 0 \<or> (\<exists>b \<in> set (bindings (\<lambda>e. place e < p) es). bind_end b = tail_before es p)"
proof (cases "bindings (\<lambda>e. place e < p) es = []")
  case False
  then have "Max (bind_end ` set (bindings (\<lambda>e. place e < p) es)) \<in> bind_end ` set (bindings (\<lambda>e. place e < p) es)" by (intro Max_in) auto
  moreover have "tail_before es p = Max (bind_end ` set (bindings (\<lambda>e. place e < p) es))"
    using False by (simp add: tail_before_def fold_max)
  ultimately show ?thesis by (metis imageE)
qed (simp add: tail_before_def)

lemma unsplit_bindings: "unsplit es p \<longleftrightarrow> (\<forall>b \<in> set (bindings (\<lambda>e. place e < p) es). \<forall>b' \<in> set (bindings (\<lambda>e. p \<le> place e) es). bind_end b \<le> bind_start b')"
proof -
  have "(case (x, y) of (Some b, Some b') \<Rightarrow> bind_end b \<le> bind_start b' | _ \<Rightarrow> True)
      \<longleftrightarrow> (\<forall>b b'. x = Some b \<longrightarrow> y = Some b' \<longrightarrow> bind_end b \<le> bind_start b')" for x y
    by (cases x; cases y) simp_all
  then show ?thesis unfolding unsplit_def bindings_iff Ball_def by blast
qed

lemma crossing_none: "crossing es p = None \<longleftrightarrow> unsplit es p"
proof -
  have "crossing es p = None \<longleftrightarrow> (\<forall>b' \<in> set (bindings (\<lambda>e. p \<le> place e) es). tail_before es p \<le> bind_start b')"
    by (auto simp: crossing_def least_none filter_empty_conv)
  also have "\<dots> \<longleftrightarrow> unsplit es p"
    unfolding unsplit_bindings using tail_before_upper tail_before_attained [of es p] by (metis le0 order_trans)
  finally show ?thesis .
qed

text \<open>Nothing between the old and the new position of a turn would have been better.\<close>

lemma crossed_best:
  assumes c: "crossing es p = Some c"
  shows "\<exists>q. crossed es p c = Some q \<and> (\<forall>r. unsplit es r \<and> r \<le> p \<longrightarrow> r \<le> q)"
proof -
  have c2: "c < tail_before es p" "\<exists>b \<in> set (bindings (\<lambda>e. p \<le> place e) es). bind_start b = c"
    using least_some [OF c [unfolded crossing_def]] by auto
  obtain e' b' where e': "e' \<in> set es" "p \<le> place e'" "canonical e' = Some b'" "bind_start b' = c" using c2(2) by (auto simp: bindings_iff)
  obtain e b where e: "e \<in> set es" "place e < p" "canonical e = Some b" "c < bind_end b"
    using tail_before_attained [of es p] c2(1) by (auto simp: bindings_iff)
  then have "crossed es p c \<noteq> None" by (auto simp: crossed_def least_none filter_empty_conv)
  then obtain q where q: "crossed es p c = Some q" by blast
  obtain x where x: "x \<in> set es" "place x = q" "place x < p" "\<exists>b. canonical x = Some b \<and> c < bind_end b"
    using least_some [OF q [unfolded crossed_def]] by (auto split: option.splits)
  have "r \<le> q" if "unsplit es r" "r \<le> p" for r
  proof (rule ccontr)
    assume "\<not> r \<le> q"
    then have less: "place x < r" "r \<le> place e'" using that(2) x(2) e'(2) by simp_all
    obtain b where "canonical x = Some b" "c < bind_end b" using x(4) by blast
    then have "b \<in> set (bindings (\<lambda>e. place e < r) es)" "b' \<in> set (bindings (\<lambda>e. r \<le> place e) es)" "bind_start b' < bind_end b"
      using x(1) e' less by (auto simp: bindings_iff)
    then show False using that(1) unfolding unsplit_bindings by fastforce
  qed
  then show ?thesis using q by blast
qed

lemma settle_spec:
  "case settle asked es p reasons of
     Inl x \<Rightarrow> asked \<and> \<not> unsplit es p
   | Inr (q, _) \<Rightarrow> unsplit es q \<and> q \<le> p \<and> (asked \<longrightarrow> q = p) \<and> (\<forall>r. unsplit es r \<and> r \<le> p \<longrightarrow> r \<le> q)"
proof (induction asked es p reasons rule: settle.induct)
  case (1 asked es p reasons)
  show ?case
  proof (cases "crossing es p")
    case None
    then have "unsplit es p" using crossing_none [of es p] by simp
    then show ?thesis by (simp add: settle.simps [of asked es p] None)
  next
    case (Some c)
    then have n: "\<not> unsplit es p" using crossing_none [of es p] by simp
    show ?thesis
    proof (cases asked)
      case True
      then show ?thesis using Some n by (simp add: settle.simps [of _ es p])
    next
      case False
      obtain q where q: "crossed es p c = Some q" "\<And>r. unsplit es r \<Longrightarrow> r \<le> p \<Longrightarrow> r \<le> q" using crossed_best [OF Some] by blast
      have s: "settle asked es p reasons = settle asked es q (if InterleavedSegment \<in> set reasons then reasons else reasons @ [InterleavedSegment])"
        using Some False q(1) by (simp add: settle.simps [of _ es p])
      show ?thesis
      proof (cases "settle asked es p reasons")
        case (Inl x)
        then show ?thesis using 1 [OF Some False q(1)] False unfolding s by simp
      next
        case (Inr y)
        then show ?thesis using 1 [OF Some False q(1)] crossed_less [OF q(1)] q(2) False unfolding s by (cases y) auto
      qed
    qed
  qed
qed

text \<open>
  C15. The prefix a fork takes holds no unfinished content and splits no segment of the journal
  (every record of it ends in the journal before any of the rest starts), is all of the
  history up to the fork point, and is the longest such prefix within what was asked for; a
  fork that names its position gets that position or an error. The search for the position
  always ends, and never fails for want of an owner.
\<close>
theorem fork_prefix_largest:
  assumes "select_prefix es requested end_at = Inr f"
  defines "p \<equiv> fork_point (fork_result f)"
  shows "unsplit es p \<and> finished_before es p \<and> fork_entries f = filter (\<lambda>e. place e < p) es
    \<and> (\<forall>q. unsplit es q \<and> finished_before es q \<and> q \<le> (case requested of Some n \<Rightarrow> n | None \<Rightarrow> end_at) \<longrightarrow> q \<le> p)
    \<and> (\<forall>n. requested = Some n \<longrightarrow> p = n)
    \<and> (\<forall>e \<in> set (fork_entries f). \<forall>b. canonical e = Some b \<longrightarrow> bind_end b \<le> canonical_tail f)"
proof -
  define p0 where "p0 = (case requested of Some n \<Rightarrow> n | None \<Rightarrow> end_at)"
  define u where "u = least (map place (filter unfinished es))"
  define blocked where "blocked = (case u of Some u \<Rightarrow> if u < p0 then Some u else None | None \<Rightarrow> None)"
  define p1 where "p1 = (case blocked of Some u \<Rightarrow> u | None \<Rightarrow> p0)"
  obtain reasons where st: "settle (requested \<noteq> None) es p1 (if blocked \<noteq> None then [ActiveContent] else []) = Inr (p, reasons)"
    and f: "fork_entries f = filter (\<lambda>e. place e < p) es" "canonical_tail f = tail_before es p" and b: "requested \<noteq> None \<Longrightarrow> blocked = None"
    using assms(1) unfolding select_prefix_def Let_def p0_def [symmetric] u_def [symmetric] blocked_def [symmetric] p1_def [symmetric] p_def
    by (auto split: if_splits sum.splits prod.splits)
  have s: "unsplit es p" "p \<le> p1" "requested \<noteq> None \<Longrightarrow> p = p1" "\<And>r. unsplit es r \<Longrightarrow> r \<le> p1 \<Longrightarrow> r \<le> p"
    using settle_spec [of "requested \<noteq> None" es p1 "if blocked \<noteq> None then [ActiveContent] else []"] unfolding st by auto
  have le: "q \<le> p1" if "finished_before es q" "q \<le> p0" for q
  proof (cases blocked)
    case (Some v)
    then have "u = Some v" by (auto simp: blocked_def split: option.splits if_splits)
    then obtain e where "e \<in> set es" "unfinished e" "place e = v" using least_some [of "map place (filter unfinished es)" v] by (auto simp: u_def)
    then show ?thesis using that Some by (auto simp: p1_def finished_before_def not_less [symmetric])
  qed (use that in \<open>simp add: p1_def\<close>)
  have "finished_before es p1"
  proof -
    have "p1 \<le> place e" if e: "e \<in> set es" "unfinished e" for e
    proof -
      have "u \<noteq> None" using e by (auto simp: u_def least_none filter_empty_conv)
      then obtain v where v: "u = Some v" by blast
      then have "v \<le> place e" using least_some [of "map place (filter unfinished es)" v] e by (auto simp: u_def)
      then show ?thesis using v by (auto simp: p1_def blocked_def)
    qed
    then show ?thesis by (fastforce simp: finished_before_def)
  qed
  then have fin: "finished_before es p" using s(2) by (auto simp: finished_before_def)
  have tail: "bind_end b \<le> canonical_tail f" if "e \<in> set (fork_entries f)" "canonical e = Some b" for e b
    using that tail_before_upper [of b p es] by (auto simp: f bindings_iff)
  have "p = n" if "requested = Some n" for n using s(3) b that by (simp add: p1_def p0_def)
  then show ?thesis using s(1,4) fin le tail f(1) unfolding p0_def by blast
qed

definition sample_at :: "string \<Rightarrow> nat \<Rightarrow> ui_content \<Rightarrow> nat \<Rightarrow> nat \<Rightarrow> ui_entry" where
  "sample_at i p c a b = \<lparr>snapshot = \<lparr>snap_id = i, position = p, revision = 1, canonical_committed = False, snap_content = c,
     presentation = default_presentation, accumulated_arguments = None, assistant_id = None, snap_outcome = None\<rparr>,
     canonical = Some \<lparr>bind_start = a, bind_end = b, record_at = None\<rparr>, content_version = 0, entry_materializer = None\<rparr>"

text \<open>An unfinished notice, written to the journal between the two records of a segment.\<close>

definition sample_history :: "ui_entry list" where
  "sample_history =
     (let e = UiError \<lparr>pe_run_id = ''r'', pe_segment_id = None, pe_created_at = 1, pe_raw = ''busy'', pe_details = JNull, pe_retry_after_ms = None\<rparr>
      in [sample_at ''a'' 0 e 0 1, sample_at ''b'' 1 e 1 4, sample_at ''c'' 2 (UiRecord (plain_record (PmNotice ''n'' None))) 2 3])"

theorem fork_prefix_largest_witness:
  "unsplit sample_history 1 \<and> finished_before sample_history 1 \<and> \<not> unsplit sample_history 2 \<and> \<not> finished_before sample_history 3"
proof -
  have s: "settle False sample_history 2 [ActiveContent] = Inr (1, [ActiveContent, InterleavedSegment])"
    by (simp add: settle.simps crossing_def crossed_def tail_before_def bindings_def List.map_filter_def place_def sample_history_def sample_at_def Let_def)
  have "select_prefix sample_history None 3 = Inr \<lparr>fork_result = \<lparr>fork_point = 1, source_end = 3, boundary_adjusted = True,
      boundary_reasons = [ActiveContent, InterleavedSegment]\<rparr>, canonical_tail = 1, fork_entries = [sample_at ''a'' 0 (snap_content (snapshot (hd sample_history))) 0 1]\<rparr>"
    using s by (simp add: select_prefix_def unfinished_def place_def sample_history_def sample_at_def Let_def tail_before_def bindings_def List.map_filter_def)
  from fork_prefix_largest [OF this] show ?thesis
    by (simp add: unsplit_def finished_before_def sample_history_def sample_at_def place_def unfinished_def Let_def)
qed

end
