(* ===== verification/Tool_Arguments.thy ===== *)
theory Tool_Arguments
  imports Chat_History "HOL-Library.AList"
begin

text \<open>
  The arguments of a tool call: the validator (\<open>crates/agents/src/tool_arg_validator.rs\<close>), the
  messages about arguments that did not decode (\<open>model/types.rs\<close>), and what the runner adds
  to arguments and hides of them (\<open>runner/helpers.rs\<close>, \<open>runner/tool_execution.rs\<close>). Printing a
  JSON value is a parameter.
\<close>

section \<open>Names and objects\<close>

definition strip_suffix :: "string \<Rightarrow> string \<Rightarrow> string option" where
  "strip_suffix s p = (if ends_with s p then Some (take (length s - length p) s) else None)"

definition sanitize_tool_name :: "string \<Rightarrow> string" where
  "sanitize_tool_name name =
     (let trimmed = trim name;
          quote = [CHR 0x22];
          unquoted = (case Option.bind (strip_prefix trimmed quote) (\<lambda>s. strip_suffix s quote) of Some s \<Rightarrow> s | None \<Rightarrow> trimmed);
          bare = (case strip_prefix unquoted ''functions_'' of Some s \<Rightarrow> s | None \<Rightarrow> unquoted)
      in case rposition (\<lambda>c. c = CHR ''_'') bare of
           Some pos \<Rightarrow> (let suffix = drop (pos + 1) bare in
             if suffix \<noteq> [] \<and> list_all is_ascii_digit suffix \<and> 0 < pos then take pos bare else bare)
         | None \<Rightarrow> bare)"

fun as_object :: "json \<Rightarrow> (string \<times> json) list option" where
  "as_object (JObject kvs) = Some kvs"
| "as_object _ = None"

text \<open>Removing an entry moves the last one to its place.\<close>

definition swap_remove :: "string \<Rightarrow> (string \<times> json) list \<Rightarrow> (string \<times> json) list" where
  "swap_remove k kvs = (if map_of kvs k = None then kvs
     else (let i = length (takeWhile (\<lambda>(k', _). k' \<noteq> k) kvs) in
       if i + 1 = length kvs then butlast kvs else (butlast kvs)[i := last kvs]))"

definition public_tool_arguments :: "json \<Rightarrow> json" where
  "public_tool_arguments args = (case as_object args of
     Some kvs \<Rightarrow> JObject (filter (\<lambda>(k, _). \<not> starts_with k ''_'') kvs)
   | None \<Rightarrow> args)"

definition enrich_tool_arguments :: "json option \<Rightarrow> string \<Rightarrow> json \<Rightarrow> json" where
  "enrich_tool_arguments context call args = (case as_object args of
     None \<Rightarrow> args
   | Some kvs \<Rightarrow>
       (let extra = (case Option.bind context as_object of Some ctx \<Rightarrow> ctx | None \<Rightarrow> []) in
        JObject (AList.update ''_tool_call_id'' (JString call) (fold (\<lambda>(k, v). AList.update k v) extra kvs))))"

definition public_arguments_after_hook :: "json option \<Rightarrow> json \<Rightarrow> json" where
  "public_arguments_after_hook context args = (case as_object args of
     None \<Rightarrow> args
   | Some kvs \<Rightarrow>
       (let extra = (case Option.bind context as_object of Some ctx \<Rightarrow> ctx | None \<Rightarrow> []) in
        JObject (swap_remove ''_tool_call_id'' (fold (\<lambda>(k, _). swap_remove k) extra kvs))))"

section \<open>Diagnostics\<close>

fun source_name :: "tool_call_argument_source \<Rightarrow> string" where
  "source_name EmptyString = ''empty-string''"
| "source_name NullOrMissing = ''null-or-missing''"
| "source_name MalformedString = ''malformed-string''"

definition diagnostic_short_summary :: "tool_call_argument_diagnostic \<Rightarrow> string" where
  "diagnostic_short_summary d = ''arg_decode='' @ source_name (diag_source d)
     @ (case raw_len d of Some n \<Rightarrow> '' raw_len='' @ show_nat n | None \<Rightarrow> [])
     @ (case parse_error d of Some e \<Rightarrow> '' parse_error='' @ e | None \<Rightarrow> [])"

definition llm_detail :: "tool_call_argument_diagnostic \<Rightarrow> string" where
  "llm_detail d = ''Argument decode status: '' @ diagnostic_short_summary d @ ''.''
     @ (case raw_preview d of Some p \<Rightarrow> if p = [] then [] else '' Raw argument preview: '' @ p | None \<Rightarrow> [])"

section \<open>Validation\<close>

record type_mismatch =
  mis_field :: string
  mis_expected :: string
  mis_actual :: string

record tool_arg_error =
  missing_required :: "string list"
  type_mismatches :: "type_mismatch list"
  received :: json

fun value_type_name :: "json \<Rightarrow> string" where
  "value_type_name JNull = ''null''"
| "value_type_name (JBool _) = ''boolean''"
| "value_type_name (JNumber _) = ''number''"
| "value_type_name (JString _) = ''string''"
| "value_type_name (JArray _) = ''array''"
| "value_type_name (JObject _) = ''object''"

definition join_with :: "string \<Rightarrow> string list \<Rightarrow> string" where
  "join_with sep xs = (case xs of [] \<Rightarrow> [] | y # ys \<Rightarrow> foldl (\<lambda>acc z. acc @ sep @ z) y ys)"

fun expected_type_name :: "json \<Rightarrow> string" where
  "expected_type_name (JString s) = s"
| "expected_type_name (JArray ts) = (let labels = List.map_filter as_str ts in if labels = [] then ''unknown'' else join_with '' | '' labels)"
| "expected_type_name _ = ''unknown''"

text \<open>A float is printed with a fraction, or with an exponent when it is at least \<open>10 ^ 16\<close>.\<close>

fun is_integral :: "json_number \<Rightarrow> bool" where
  "is_integral (PosInt _) = True"
| "is_integral (NegInt _) = True"
| "is_integral (Float s) = (ends_with s ''.0'' \<or> str_contains s ''e'' \<and> \<not> str_contains s ''e-'')"

definition type_matches_single :: "string \<Rightarrow> json \<Rightarrow> bool" where
  "type_matches_single expected v =
     (if expected = ''integer'' then (case v of JNumber n \<Rightarrow> is_integral n | _ \<Rightarrow> False)
      else if expected \<in> {''string'', ''number'', ''boolean'', ''object'', ''array'', ''null''} then value_type_name v = expected
      else True)"

fun type_matches :: "json \<Rightarrow> json \<Rightarrow> bool" where
  "type_matches (JString expected) v = type_matches_single expected v"
| "type_matches (JArray ts) v = list_ex (\<lambda>t. type_matches_single t v) (List.map_filter as_str ts)"
| "type_matches _ v = True"

definition required_fields :: "(string \<times> json) list \<Rightarrow> string list" where
  "required_fields schema = (case Option.bind (map_of schema ''required'') as_array of
     Some xs \<Rightarrow> List.map_filter as_str xs | None \<Rightarrow> [])"

definition missing_fields :: "string list \<Rightarrow> (string \<times> json) list \<Rightarrow> string list" where
  "missing_fields required args = filter (\<lambda>f. map_of args f = None \<or> map_of args f = Some JNull) required"

definition property_mismatch :: "(string \<times> json) list \<Rightarrow> string \<times> json \<Rightarrow> type_mismatch option" where
  "property_mismatch args prop = (case map_of args (fst prop) of
     None \<Rightarrow> None
   | Some v \<Rightarrow>
       if v = JNull then None
       else (case Option.bind (as_object (snd prop)) (\<lambda>kvs. map_of kvs ''type'') of
          None \<Rightarrow> None
        | Some t \<Rightarrow> if type_matches t v then None
            else Some \<lparr>mis_field = fst prop, mis_expected = expected_type_name t, mis_actual = value_type_name v\<rparr>))"

definition validate_tool_args :: "json \<Rightarrow> json \<Rightarrow> tool_arg_error + unit" where
  "validate_tool_args schema args = (case as_object schema of
     None \<Rightarrow> Inr ()
   | Some kvs \<Rightarrow>
       if kvs = [] then Inr ()
       else
         (let required = required_fields kvs; properties = Option.bind (map_of kvs ''properties'') as_object in
          if required = [] \<and> properties = None then Inr ()
          else case as_object args of
            None \<Rightarrow> if required = [] then Inr () else Inl \<lparr>missing_required = required, type_mismatches = [], received = args\<rparr>
          | Some a \<Rightarrow>
              (let missing = missing_fields required a;
                   wrong = (case properties of Some ps \<Rightarrow> List.map_filter (property_mismatch a) ps | None \<Rightarrow> []) in
               if missing = [] \<and> wrong = [] then Inr ()
               else Inl \<lparr>missing_required = missing, type_mismatches = wrong, received = args\<rparr>)))"

definition newline :: string where
  "newline = [CHR 0x0A]"

definition to_llm_error_message :: "(json \<Rightarrow> string) \<Rightarrow> string \<Rightarrow> tool_call_argument_diagnostic option \<Rightarrow> tool_arg_error \<Rightarrow> string" where
  "to_llm_error_message pp name diagnostic e =
     ''Tool call rejected before execution by `'' @ name @ ''`.'' @ newline
     @ (if missing_required e = [] then [] else ''Missing required field(s): `'' @ join_with ''`, `'' (missing_required e) @ ''`.'' @ newline)
     @ concat (map (\<lambda>m. ''Field `'' @ mis_field m @ ''` has wrong type: expected `'' @ mis_expected m @ ''`, got `'' @ mis_actual m @ ''`.'' @ newline)
         (type_mismatches e))
     @ (case diagnostic of Some d \<Rightarrow> llm_detail d @ newline | None \<Rightarrow> [])
     @ ''Do not retry with the same arguments. You MUST call `get_tool '' @ pp (JObject [(''name'', JString name)])
     @ ''` next to retrieve the exact parameter schema before retrying `'' @ name @ ''`.''"

definition arg_error_short_summary :: "tool_call_argument_diagnostic option \<Rightarrow> tool_arg_error \<Rightarrow> string" where
  "arg_error_short_summary diagnostic e = join_with '' ''
     ((if missing_required e = [] then [] else [''missing='' @ join_with '','' (missing_required e)])
      @ (if type_mismatches e = [] then [] else [''type_mismatch='' @ join_with '',''
           (map (\<lambda>m. mis_field m @ '':'' @ mis_expected m @ ''!='' @ mis_actual m) (type_mismatches e))])
      @ (case diagnostic of Some d \<Rightarrow> [diagnostic_short_summary d] | None \<Rightarrow> []))"

section \<open>What the runner adds and hides\<close>

definition hidden_key :: "string \<Rightarrow> bool" where
  "hidden_key k \<longleftrightarrow> starts_with k ''_''"

definition shows_hidden :: "json \<Rightarrow> bool" where
  "shows_hidden v \<longleftrightarrow> (\<exists>k. hidden_key k \<and> json_get v k \<noteq> None)"

lemma public_arguments_public: "\<not> shows_hidden (public_tool_arguments args)"
proof -
  have "map_of (filter (\<lambda>(k, _). \<not> starts_with k ''_'') kvs) k = None" if "hidden_key k" for k and kvs :: "(string \<times> json) list"
    using that by (auto simp: map_of_eq_None_iff hidden_key_def)
  then show ?thesis by (cases args) (auto simp: shows_hidden_def public_tool_arguments_def)
qed

lemma public_arguments_keep:
  "\<not> hidden_key k \<Longrightarrow> json_get (public_tool_arguments args) k = json_get args k"
proof (cases args)
  case (JObject kvs)
  assume k: "\<not> hidden_key k"
  have "map_of (filter (\<lambda>(k, _). \<not> starts_with k ''_'') kvs) k = map_of kvs k"
    using k by (induction kvs) (auto simp: hidden_key_def)
  then show ?thesis by (simp add: JObject public_tool_arguments_def)
qed (simp_all add: public_tool_arguments_def)

lemma map_of_updates: "map_of (fold (\<lambda>(k, v). AList.update k v) ys xs) = map_of xs ++ map_of (rev ys)"
proof (induction ys arbitrary: xs)
  case (Cons y ys)
  then show ?case by (cases y) (simp add: update_conv' map_add_upd_left map_add_def fun_eq_iff split: option.split)
qed simp

text \<open>The values of the context reach the tool, whatever the model wrote under their keys.\<close>

lemma enriched_trusted:
  assumes "context = JObject ctx" "distinct (map fst ctx)" "map_of ctx k = Some v" "k \<noteq> ''_tool_call_id''"
  shows "json_get (enrich_tool_arguments (Some context) call (JObject kvs)) k = Some v"
proof -
  have "map_of (rev ctx) k = Some v" using assms(2,3) by (simp add: map_of_eq_Some_iff rev_map [symmetric])
  then show ?thesis using assms(1,4) by (simp add: enrich_tool_arguments_def update_conv' map_of_updates map_add_def)
qed

lemma enriched_call_id: "json_get (enrich_tool_arguments context call (JObject kvs)) ''_tool_call_id'' = Some (JString call)"
  by (simp add: enrich_tool_arguments_def Let_def update_conv')

text \<open>
  A hidden key the context does not set passes from the model to the tool: the runner adds
  its own keys and removes none.
\<close>

lemma unset_hidden_key_passes:
  assumes "map_of ctx k = None" "k \<noteq> ''_tool_call_id''"
  shows "json_get (enrich_tool_arguments (Some (JObject ctx)) call (JObject kvs)) k = map_of kvs k"
proof -
  have "map_of (rev ctx) k = None" using assms(1) by (simp add: map_of_eq_None_iff)
  then show ?thesis using assms(2) by (simp add: enrich_tool_arguments_def update_conv' map_of_updates map_add_def)
qed

text \<open>What the validator accepts has every required field and no field of another declared type.\<close>

lemma validated_arguments:
  assumes v: "validate_tool_args (JObject schema) (JObject args) = Inr ()"
  shows "f \<in> set (required_fields schema) \<Longrightarrow> \<exists>x. map_of args f = Some x \<and> x \<noteq> JNull"
    and "map_of schema ''properties'' = Some (JObject ps) \<Longrightarrow> (f, JObject p) \<in> set ps \<Longrightarrow> map_of p ''type'' = Some t
      \<Longrightarrow> map_of args f = Some x \<Longrightarrow> x \<noteq> JNull \<Longrightarrow> type_matches t x"
proof -
  have none: "map_of schema ''properties'' = None" if "schema = []" using that by simp
  show "\<exists>x. map_of args f = Some x \<and> x \<noteq> JNull" if f: "f \<in> set (required_fields schema)"
  proof -
    have r: "required_fields schema \<noteq> []" using f by auto
    then have "schema \<noteq> []" by (auto simp: required_fields_def)
    with r have "missing_fields (required_fields schema) args = []" using v by (auto simp: validate_tool_args_def Let_def split: if_splits)
    then show ?thesis using f by (auto simp: missing_fields_def filter_empty_conv)
  qed
  show "type_matches t x"
    if p: "map_of schema ''properties'' = Some (JObject ps)" "(f, JObject p) \<in> set ps" "map_of p ''type'' = Some t" "map_of args f = Some x" "x \<noteq> JNull"
  proof -
    have "schema \<noteq> []" using p(1) by auto
    then have "List.map_filter (property_mismatch args) ps = []" using v p(1) by (auto simp: validate_tool_args_def Let_def split: if_splits)
    then have "property_mismatch args (f, JObject p) = None" using p(2) by (auto simp: List.map_filter_def filter_empty_conv)
    then show ?thesis using p(3-5) by (auto simp: property_mismatch_def split: if_splits)
  qed
qed

end
