(* ===== verification/Tool_Results.thy ===== *)
theory Tool_Results
  imports Tool_Arguments
begin

text \<open>
  Keeping tool results (\<open>crates/sessions/src/tool_results.rs\<close>) and cutting them for the context
  (\<open>crates/agents/src/runner/tool_result.rs\<close>): files of a session, the schema inferred for a
  JSON result, the removal of encoded blobs and the cut at a character boundary. Strings are
  lists of bytes. The JSON parser and printers and the errors of the file system are
  parameters.
\<close>

section \<open>Files\<close>

record result_env =
  parse_json :: "string \<Rightarrow> json option"
  print_compact :: "json \<Rightarrow> string"
  print_pretty :: "json \<Rightarrow> string"
  io_error :: "string \<Rightarrow> string option" \<comment> \<open>the error of the operations on a path\<close>

record result_store =
  base_dir :: string
  result_files :: "string \<Rightarrow> string option"

record persisted_result =
  content_path :: string
  schema_path :: "string option"
  content_bytes :: nat
  content_lines :: nat

definition TOOL_RESULTS_DIR_NAME :: string where
  "TOOL_RESULTS_DIR_NAME = ''tool-results''"

definition is_ascii_alphanumeric :: "char \<Rightarrow> bool" where
  "is_ascii_alphanumeric c \<longleftrightarrow> (let n = of_char c :: nat in 48 \<le> n \<and> n \<le> 57 \<or> 65 \<le> n \<and> n \<le> 90 \<or> 97 \<le> n \<and> n \<le> 122)"

text \<open>One character may be several bytes; all but the first of them are dropped.\<close>

definition sanitize_path_component :: "string \<Rightarrow> string" where
  "sanitize_path_component s = (if s = [] then ''unknown''
     else map (\<lambda>c. if is_ascii_alphanumeric c \<or> c \<in> set ''_.-'' then c else CHR ''_'') (filter (\<lambda>c. \<not> continues_char c) s))"

definition store_new :: "string \<Rightarrow> (string \<Rightarrow> string option) \<Rightarrow> result_store" where
  "store_new sessions_dir fs = \<lparr>base_dir = path_join sessions_dir TOOL_RESULTS_DIR_NAME, result_files = fs\<rparr>"

definition session_dir :: "result_store \<Rightarrow> string \<Rightarrow> string" where
  "session_dir st key = path_join (base_dir st) (sanitize_path_component key)"

definition call_dir :: "result_store \<Rightarrow> string \<Rightarrow> string \<Rightarrow> string" where
  "call_dir st key call = path_join (session_dir st key) (sanitize_path_component call)"

definition count_lines :: "string \<Rightarrow> nat" where
  "count_lines s = length (filter (\<lambda>c. c = CHR 0x0A) s) + (if s \<noteq> [] \<and> last s \<noteq> CHR 0x0A then 1 else 0)"

definition write_if_missing :: "result_env \<Rightarrow> string \<Rightarrow> string \<Rightarrow> result_store \<Rightarrow> result_store \<times> (string + unit)" where
  "write_if_missing env p content st = (case io_error env p of
     Some e \<Rightarrow> (st, Inl e)
   | None \<Rightarrow> (if result_files st p \<noteq> None then st else st\<lparr>result_files := (result_files st)(p \<mapsto> content)\<rparr>, Inr ()))"

section \<open>Schemas\<close>

fun dedup_by :: "('a \<Rightarrow> 'b) \<Rightarrow> 'a list \<Rightarrow> 'a list" where
  "dedup_by f [] = []"
| "dedup_by f (x # xs) = x # dedup_by f (filter (\<lambda>y. f y \<noteq> f x) xs)"

definition schema_of_type :: "string \<Rightarrow> json" where
  "schema_of_type t = JObject [(''type'', JString t)]"

definition schema_key :: "(json \<Rightarrow> string) \<Rightarrow> json \<Rightarrow> string" where
  "schema_key pp s = (case Option.bind (json_get s ''type'') as_str of Some t \<Rightarrow> t | None \<Rightarrow> pp s)"

definition finish_object_schema :: "(string \<times> json) list \<Rightarrow> string list \<Rightarrow> json" where
  "finish_object_schema properties required = JObject ([(''type'', JString ''object''), (''properties'', JObject properties)]
     @ (if required = [] then [] else [(''required'', JArray (map JString required))]))"

definition objects_of :: "json list \<Rightarrow> (string \<times> json) list list" where
  "objects_of vs = List.map_filter as_object vs"

definition keys_in_order :: "(string \<times> json) list list \<Rightarrow> string list" where
  "keys_in_order objs = dedup_by id (map fst (concat objs))"

definition values_of :: "string \<Rightarrow> (string \<times> json) list list \<Rightarrow> json list" where
  "values_of k objs = map snd (filter (\<lambda>(k', _). k' = k) (concat objs))"

definition one_of :: "json list \<Rightarrow> json" where
  "one_of ss = JObject [(''oneOf'', JArray ss)]"

definition weight :: "json list \<Rightarrow> nat" where
  "weight vs = sum_list (map size vs)"

lemma weight_filter: "weight (filter P vs) \<le> weight vs"
  by (induction vs) (auto simp: weight_def)

lemma weight_member: "v \<in> set vs \<Longrightarrow> size v \<le> weight vs"
  by (auto simp: weight_def intro: member_le_sum_list)

lemma size_entries: "weight (map snd kvs) \<le> size_list (size_prod (\<lambda>x. 0) size) kvs"
  by (induction kvs) (auto simp: weight_def)

lemma size_list_weight: "weight vs \<le> size_list size vs"
  by (induction vs) (auto simp: weight_def)

lemma size_object: "weight (map snd kvs) < size (JObject kvs)"
  using size_entries [of kvs] by simp

lemma size_array: "weight vs < size (JArray vs)"
  using size_list_weight [of vs] by simp

lemma weight_append: "weight (xs @ ys) = weight xs + weight ys"
  by (simp add: weight_def)

lemma weight_objects_of: "weight (map JObject (objects_of vs)) \<le> weight vs"
proof (induction vs)
  case (Cons v vs)
  then show ?case by (cases v) (auto simp: weight_def objects_of_def List.map_filter_simps)
qed (simp add: weight_def objects_of_def List.map_filter_simps)

lemma weight_values_of: "k \<in> set (keys_in_order objs) \<Longrightarrow> weight (values_of k objs) < weight (map JObject objs)"
proof -
  have "weight (map snd (filter P ys)) \<le> weight (map snd ys)" for P and ys :: "(string \<times> json) list"
    by (induction ys) (auto simp: weight_def)
  then have f: "weight (values_of k objs) \<le> weight (map snd (concat objs))" by (simp add: values_of_def)
  have e: "weight (map snd (concat objs)) + length objs \<le> weight (map JObject objs)"
  proof (induction objs)
    case (Cons o' objs)
    have "weight (map snd o') < size (JObject o')" by (rule size_object)
    then show ?case using Cons by (simp add: weight_append) (simp add: weight_def)
  qed (simp add: weight_def)
  assume "k \<in> set (keys_in_order objs)"
  then have "objs \<noteq> []" by (auto simp: keys_in_order_def)
  then show ?thesis using f e by (cases objs) auto
qed

lemma schema_termination_order:
  "(k, v) \<in> set kvs \<Longrightarrow> size v < size (JObject kvs)"
proof -
  assume "(k, v) \<in> set kvs"
  then have "v \<in> set (map snd kvs)" by force
  then show ?thesis using weight_member [of v "map snd kvs"] size_object [of kvs] by simp
qed

function (sequential) to_json_schema :: "(json \<Rightarrow> string) \<Rightarrow> json \<Rightarrow> json"
  and unique_schemas :: "(json \<Rightarrow> string) \<Rightarrow> json list \<Rightarrow> json list"
  and merge_object_schemas :: "(json \<Rightarrow> string) \<Rightarrow> (string \<times> json) list list \<Rightarrow> json"
  and merge_values :: "(json \<Rightarrow> string) \<Rightarrow> json list \<Rightarrow> json" where
  "to_json_schema pp JNull = schema_of_type ''null''"
| "to_json_schema pp (JBool _) = schema_of_type ''boolean''"
| "to_json_schema pp (JNumber n) = schema_of_type (case n of Float _ \<Rightarrow> ''number'' | _ \<Rightarrow> ''integer'')"
| "to_json_schema pp (JString _) = schema_of_type ''string''"
| "to_json_schema pp (JArray xs) =
     (if xs = [] then schema_of_type ''array''
      else JObject [(''type'', JString ''array''), (''items'',
        if list_all is_object xs then merge_object_schemas pp (objects_of xs)
        else (let ss = unique_schemas pp xs in if length ss = 1 then hd ss else one_of ss))])"
| "to_json_schema pp (JObject kvs) = finish_object_schema (map (\<lambda>(k, v). (k, to_json_schema pp v)) kvs) (map fst kvs)"
| "unique_schemas pp vs = dedup_by (schema_key pp) (map (to_json_schema pp) (filter (\<lambda>v. \<not> is_object v) vs))
     @ (if objects_of vs = [] then [] else [merge_object_schemas pp (objects_of vs)])"
| "merge_object_schemas pp objs = finish_object_schema (map (\<lambda>k. (k, merge_values pp (values_of k objs))) (keys_in_order objs))
     (filter (\<lambda>k. length (values_of k objs) = length objs) (keys_in_order objs))"
| "merge_values pp vs =
     (if list_all is_object vs then merge_object_schemas pp (objects_of vs)
      else (let ss = unique_schemas pp vs in if length ss = 1 then hd ss else one_of ss))"
  by pat_completeness auto
termination
proof (relation "measure (\<lambda>x. case x of
    Inl (Inl (_, v)) \<Rightarrow> 4 * size v | Inl (Inr (_, vs)) \<Rightarrow> 4 * weight vs + 1
  | Inr (Inl (_, objs)) \<Rightarrow> 4 * weight (map JObject objs) | Inr (Inr (_, vs)) \<Rightarrow> 4 * weight vs + 2)", goal_cases)
  case (2 pp xs)
  then show ?case using weight_objects_of [of xs] size_array [of xs] by simp
next
  case (3 pp xs)
  then show ?case using size_array [of xs] by simp
next
  case (4 pp kvs x k v)
  then show ?case using schema_termination_order [of k v kvs] by simp
next
  case (5 pp vs x)
  then show ?case using weight_member [of x vs] by simp
next
  case (6 pp vs)
  then show ?case using weight_objects_of [of vs] by simp
next
  case (7 pp objs x)
  then show ?case using weight_values_of [of x objs] by simp
next
  case (8 pp vs)
  then show ?case using weight_objects_of [of vs] by simp
qed simp_all

text \<open>A property is required exactly when every object has it (here: once).\<close>

lemma dedup_by_set: "set (dedup_by f xs) \<subseteq> set xs"
  by (induction f xs rule: dedup_by.induct) auto

lemma dedup_by_id: "set (dedup_by id xs) = set xs \<and> distinct (dedup_by id xs)"
  by (induction "id :: 'a \<Rightarrow> 'a" xs rule: dedup_by.induct) (use dedup_by_set in fastforce)+

lemma filter_key: "distinct (map fst o') \<Longrightarrow> filter (\<lambda>(k', _). k' = k) o' = (case map_of o' k of None \<Rightarrow> [] | Some v \<Rightarrow> [(k, v)])"
proof (induction o')
  case (Cons x xs)
  obtain k' v where x: "x = (k', v)" by (cases x)
  have "map_of xs k' = None" using Cons.prems by (simp add: x map_of_eq_None_iff)
  then show ?case using Cons by (auto simp: x split: option.splits)
qed simp

lemma length_filter_all: "length (filter P xs) = length xs \<longleftrightarrow> (\<forall>x \<in> set xs. P x)"
proof (induction xs)
  case (Cons x xs)
  have "length (filter P xs) \<le> length xs" by (rule length_filter_le)
  then have "length (filter P xs) \<noteq> Suc (length xs)" by linarith
  then show ?case using Cons by (cases "P x") simp_all
qed simp

lemma count_values:
  assumes "\<And>o'. o' \<in> set objs \<Longrightarrow> distinct (map fst o')"
  shows "length (values_of k objs) = length (filter (\<lambda>o'. map_of o' k \<noteq> None) objs)"
  using assms
proof (induction objs)
  case (Cons o' objs)
  then have "length (values_of k objs) = length (filter (\<lambda>o'. map_of o' k \<noteq> None) objs)" by simp
  then show ?case using filter_key [of o' k] Cons.prems
    by (cases "map_of o' k") (simp_all add: values_of_def filter_empty_conv)
qed (simp add: values_of_def)

lemma required_iff_everywhere:
  assumes "\<And>o'. o' \<in> set objs \<Longrightarrow> distinct (map fst o')" "objs \<noteq> []"
  shows "k \<in> set (filter (\<lambda>k. length (values_of k objs) = length objs) (keys_in_order objs)) \<longleftrightarrow> (\<forall>o' \<in> set objs. map_of o' k \<noteq> None)"
proof -
  have "length (filter (\<lambda>o'. map_of o' k \<noteq> None) objs) = length objs \<longleftrightarrow> (\<forall>o' \<in> set objs. map_of o' k \<noteq> None)"
    by (rule length_filter_all)
  moreover have "k \<in> set (keys_in_order objs)" if "\<forall>o' \<in> set objs. map_of o' k \<noteq> None"
  proof -
    obtain o' where "o' \<in> set objs" using assms(2) by (cases objs) auto
    then have "k \<in> fst ` set (concat objs)" using that by (force simp: map_of_eq_None_iff)
    then show ?thesis using dedup_by_id [of "map fst (concat objs)"] by (simp add: keys_in_order_def)
  qed
  ultimately show ?thesis using count_values [OF assms(1)] by auto
qed

text \<open>
  The schemas of an array keep one schema per type: what the later arrays in an array hold is
  lost, and an integer beside a float is admitted by both alternatives of its \<open>oneOf\<close>.
\<close>

lemma nested_array_schema_lost:
  "to_json_schema pp (JArray [JArray [JNumber (PosInt 1)], JArray [JString ''a'']])
    = JObject [(''type'', JString ''array''), (''items'', JObject [(''type'', JString ''array''), (''items'', schema_of_type ''integer'')])]"
  by (simp add: objects_of_def List.map_filter_simps schema_key_def schema_of_type_def)

lemma integer_beside_float:
  "to_json_schema pp (JArray [JNumber (PosInt 1), JNumber (Float ''1.5'')])
    = JObject [(''type'', JString ''array''), (''items'', one_of [schema_of_type ''integer'', schema_of_type ''number''])]"
  by (simp add: objects_of_def List.map_filter_simps schema_key_def schema_of_type_def)

section \<open>Persisting\<close>

definition persist_text :: "result_env \<Rightarrow> string \<Rightarrow> string \<Rightarrow> string \<Rightarrow> result_store \<Rightarrow> result_store \<times> (string + persisted_result)" where
  "persist_text env key call content st =
     (let dir = call_dir st key call; p = path_join dir ''content.txt'' in
      case io_error env dir of
        Some e \<Rightarrow> (st, Inl e)
      | None \<Rightarrow> (case write_if_missing env p content st of
          (st1, Inl e) \<Rightarrow> (st1, Inl e)
        | (st1, Inr _) \<Rightarrow> (st1, Inr \<lparr>content_path = p, schema_path = None, content_bytes = length content, content_lines = count_lines content\<rparr>)))"

definition persisted_content :: "result_env \<Rightarrow> string \<Rightarrow> string \<times> string \<times> string option" where
  "persisted_content env raw = (case parse_json env raw of
     Some (JString t) \<Rightarrow> (''content.txt'', t, None)
   | Some v \<Rightarrow> (''content.json'', print_pretty env v, Some (print_compact env (to_json_schema (print_compact env) v)))
   | None \<Rightarrow> (''content.txt'', raw, None))"

definition persist :: "result_env \<Rightarrow> string \<Rightarrow> string \<Rightarrow> string \<Rightarrow> result_store \<Rightarrow> result_store \<times> (string + persisted_result)" where
  "persist env key call raw st =
     (let dir = call_dir st key call; (name, content, schema) = persisted_content env raw; p = path_join dir name in
      case io_error env dir of
        Some e \<Rightarrow> (st, Inl e)
      | None \<Rightarrow> (case write_if_missing env p content st of
          (st1, Inl e) \<Rightarrow> (st1, Inl e)
        | (st1, Inr _) \<Rightarrow>
            (let kept = \<lparr>content_path = p, schema_path = None, content_bytes = length content, content_lines = count_lines content\<rparr> in
             case schema of
               None \<Rightarrow> (st1, Inr kept)
             | Some s \<Rightarrow>
                 (let sp = path_join dir ''schema.json'' in
                  case write_if_missing env sp s st1 of
                    (st2, Inl e) \<Rightarrow> (st2, Inl e)
                  | (st2, Inr _) \<Rightarrow> (st2, Inr (kept\<lparr>schema_path := Some sp\<rparr>))))))"

definition persist_result :: "result_env \<Rightarrow> string \<Rightarrow> string \<Rightarrow> json \<Rightarrow> string \<Rightarrow> bool \<Rightarrow> result_store
    \<Rightarrow> result_store \<times> (string + persisted_result option)" where
  "persist_result env key call v rendered on st =
     (if \<not> on then (st, Inr None)
      else case (case v of JString t \<Rightarrow> persist_text env key call t st | _ \<Rightarrow> persist env key call rendered st) of
        (st1, Inl e) \<Rightarrow> (st1, Inl e)
      | (st1, Inr p) \<Rightarrow> (st1, Inr (Some p)))"

section \<open>Blobs\<close>

definition em_dash :: string where
  "em_dash = [CHR 0xE2, CHR 0x80, CHR 0x94]"

definition BLOB_MIN_LEN :: nat where
  "BLOB_MIN_LEN = 200"

definition is_base64_byte :: "char \<Rightarrow> bool" where
  "is_base64_byte c \<longleftrightarrow> is_ascii_alphanumeric c \<or> c \<in> set ''+/=''"

definition is_hex_digit :: "char \<Rightarrow> bool" where
  "is_hex_digit c \<longleftrightarrow> (let n = of_char c :: nat in 48 \<le> n \<and> n \<le> 57 \<or> 65 \<le> n \<and> n \<le> 70 \<or> 97 \<le> n \<and> n \<le> 102)"

text \<open>The blob after a \<open>data:\<close> tag, if it is long enough: its type, and its length with the tag.\<close>

definition base64_blob :: "string \<Rightarrow> (string \<times> nat) option" where
  "base64_blob after = (case str_find '';base64,'' after of
     None \<Rightarrow> None
   | Some m \<Rightarrow>
       (let start = m + length '';base64,''; n = length (takeWhile is_base64_byte (drop start after)) in
        if BLOB_MIN_LEN \<le> n then Some (take m after, length ''data:'' + start + n) else None))"

definition blob_marker :: "string \<Rightarrow> nat \<Rightarrow> string" where
  "blob_marker mime n = (if starts_with mime ''image/'' then ''[screenshot captured and displayed in UI]''
     else ''['' @ mime @ '' data removed '' @ em_dash @ '' '' @ show_nat n @ '' bytes]'')"

lemma base64_blob_length: "base64_blob after = Some b \<Longrightarrow> (mime, n) = b \<Longrightarrow> 0 < n"
  by (auto simp: base64_blob_def Let_def split: option.splits if_splits)

function strip_base64_blobs :: "string \<Rightarrow> string" where
  "strip_base64_blobs s = (case str_find ''data:'' s of
     None \<Rightarrow> s
   | Some i \<Rightarrow>
       (let after = drop (i + 5) s in
        case base64_blob after of
          Some (mime, n) \<Rightarrow> take i s @ blob_marker mime n @ strip_base64_blobs (drop (i + n) s)
        | None \<Rightarrow> take i s @ ''data:'' @ strip_base64_blobs after))"
  by pat_completeness auto
termination
proof (relation "measure length", goal_cases)
  case 1
  then show ?case by simp
next
  case prems: 2
  then show ?case using str_find_length [OF prems(1)] by simp
next
  case prems: 3
  then show ?case using str_find_length [OF prems(1)] base64_blob_length [OF prems(3,4)] by simp
qed

declare strip_base64_blobs.simps [simp del]

function strip_hex_blobs :: "string \<Rightarrow> string" where
  "strip_hex_blobs [] = []"
| "strip_hex_blobs (c # cs) =
     (if is_hex_digit c then
        (let run = takeWhile is_hex_digit (c # cs) in
         (if BLOB_MIN_LEN \<le> length run then ''[hex data removed '' @ em_dash @ '' '' @ show_nat (length run) @ '' chars]'' else run)
           @ strip_hex_blobs (dropWhile is_hex_digit (c # cs)))
      else c # strip_hex_blobs cs)"
  by pat_completeness auto
termination
  by (relation "measure length") (auto intro: le_less_trans [OF length_dropWhile_le])

definition sanitize_tool_result :: "string \<Rightarrow> string" where
  "sanitize_tool_result s = strip_hex_blobs (strip_base64_blobs s)"

section \<open>Cutting\<close>

definition is_char_boundary :: "string \<Rightarrow> nat \<Rightarrow> bool" where
  "is_char_boundary s i \<longleftrightarrow> i = 0 \<or> i = length s \<or> i < length s \<and> \<not> continues_char (s ! i)"

fun floor_boundary :: "string \<Rightarrow> nat \<Rightarrow> nat" where
  "floor_boundary s 0 = 0"
| "floor_boundary s (Suc n) = (if is_char_boundary s (Suc n) then Suc n else floor_boundary s n)"

function ceil_boundary :: "string \<Rightarrow> nat \<Rightarrow> nat" where
  "ceil_boundary s i = (if i < length s \<and> \<not> is_char_boundary s i then ceil_boundary s (i + 1) else i)"
  by pat_completeness auto
termination by (relation "measure (\<lambda>(s, i). length s - i)") auto

declare ceil_boundary.simps [simp del]

definition truncate_at_char_boundary :: "nat \<Rightarrow> string \<Rightarrow> string" where
  "truncate_at_char_boundary n s = take (floor_boundary s n) s"

definition truncate_end_at_char_boundary :: "nat \<Rightarrow> nat \<Rightarrow> string \<Rightarrow> string" where
  "truncate_end_at_char_boundary n preserve s =
     (if length s \<le> n then s
      else
        (let p = floor_boundary s (min preserve n); budget = n - p in
         if budget = 0 then take p s
         else take p s @ drop (ceil_boundary s (length s - budget)) s))"

datatype truncation = TruncStandard | TruncEnd | TruncOff

definition append_full_output_pointer :: "persisted_result \<Rightarrow> string \<Rightarrow> string" where
  "append_full_output_pointer p s = s @ newline @ newline @ ''[Truncated '' @ em_dash @ '' full tool result ('' @ show_nat ((content_bytes p + 1023) div 1024)
     @ ''KB or '' @ show_nat (content_lines p) @ '' lines) written to file. Use the read_file tool to access the content at: '' @ content_path p @ '']''
     @ (case schema_path p of Some sp \<Rightarrow> newline @ ''[Data schema found at: '' @ sp @ '']'' | None \<Rightarrow> [])"

definition rendered :: "result_env \<Rightarrow> json \<Rightarrow> string" where
  "rendered env v = (case v of JString t \<Rightarrow> t | _ \<Rightarrow> print_pretty env v)"

definition persist_and_truncate :: "result_env \<Rightarrow> string \<Rightarrow> string \<Rightarrow> json \<Rightarrow> nat \<Rightarrow> truncation \<Rightarrow> bool \<Rightarrow> nat \<Rightarrow> result_store
    \<Rightarrow> result_store \<times> (string + string)" where
  "persist_and_truncate env key call v max_bytes trunc on preserve st =
     (let raw = rendered env v in
      case persist_result env key call v raw on st of
        (st1, Inl e) \<Rightarrow> (st1, Inl e)
      | (st1, Inr kept) \<Rightarrow>
          (let r = sanitize_tool_result raw in
           if trunc = TruncOff \<or> length r \<le> max_bytes then (st1, Inr r)
           else (case kept of
              None \<Rightarrow> (st1, Inl ''tool result persistence cannot be disabled when truncation is required'')
            | Some p \<Rightarrow> (st1, Inr (append_full_output_pointer p
                (if trunc = TruncStandard then truncate_at_char_boundary max_bytes r else truncate_end_at_char_boundary max_bytes preserve r))))))"

lemma floor_boundary_spec: "is_char_boundary s (floor_boundary s n) \<and> floor_boundary s n \<le> n \<and> (\<forall>j \<le> n. is_char_boundary s j \<longrightarrow> j \<le> floor_boundary s n)"
  by (induction s n rule: floor_boundary.induct) (auto simp: is_char_boundary_def le_Suc_eq)

lemma ceil_boundary_spec:
  "i \<le> length s \<Longrightarrow> is_char_boundary s (ceil_boundary s i) \<and> i \<le> ceil_boundary s i \<and> ceil_boundary s i \<le> length s
    \<and> (\<forall>j. i \<le> j \<and> is_char_boundary s j \<longrightarrow> ceil_boundary s i \<le> j)"
proof (induction s i rule: ceil_boundary.induct)
  case (1 s i)
  show ?case
  proof (cases "i < length s \<and> \<not> is_char_boundary s i")
    case True
    have "ceil_boundary s i \<le> j" if "i \<le> j" "is_char_boundary s j" for j
      using 1 True that by (cases "j = i") (simp_all add: ceil_boundary.simps [of s i])
    then show ?thesis using 1 True by (simp add: ceil_boundary.simps [of s i])
  next
    case False
    then show ?thesis using 1(2) by (auto simp: ceil_boundary.simps [of s i] is_char_boundary_def)
  qed
qed

text \<open>What is kept of a text: a prefix and a suffix, cut between characters.\<close>

definition cut_of :: "string \<Rightarrow> string \<Rightarrow> bool" where
  "cut_of s r \<longleftrightarrow> (\<exists>p t. is_char_boundary s p \<and> is_char_boundary s t \<and> p \<le> t \<and> r = take p s @ drop t s)"

lemma truncate_start_cut: "cut_of s (truncate_at_char_boundary n s) \<and> length (truncate_at_char_boundary n s) \<le> n"
proof -
  note f = floor_boundary_spec [of s n]
  have "floor_boundary s n \<le> length s" using f by (auto simp: is_char_boundary_def)
  then have "cut_of s (truncate_at_char_boundary n s)"
    unfolding cut_of_def truncate_at_char_boundary_def using f
    by (intro exI [of _ "floor_boundary s n"] exI [of _ "length s"]) (simp add: is_char_boundary_def)
  then show ?thesis using f by (simp add: truncate_at_char_boundary_def min_def)
qed

lemma truncate_end_cut: "cut_of s (truncate_end_at_char_boundary n m s) \<and> length (truncate_end_at_char_boundary n m s) \<le> n"
proof (cases "length s \<le> n")
  case True
  then show ?thesis
    unfolding cut_of_def truncate_end_at_char_boundary_def
    by (intro conjI exI [of _ "length s"] exI [of _ "length s"]) (simp_all add: is_char_boundary_def)
next
  case False
  define p where "p = floor_boundary s (min m n)"
  define t where "t = ceil_boundary s (length s - (n - p))"
  have p: "is_char_boundary s p" "p \<le> n" using floor_boundary_spec [of s "min m n"] by (simp_all add: p_def)
  have t: "is_char_boundary s t" "length s - (n - p) \<le> t" "t \<le> length s" using ceil_boundary_spec [of "length s - (n - p)" s] by (simp_all add: t_def)
  have r: "truncate_end_at_char_boundary n m s = (if n - p = 0 then take p s else take p s @ drop t s)"
    using False unfolding truncate_end_at_char_boundary_def Let_def p_def [symmetric] t_def [symmetric] by simp
  show ?thesis
  proof (cases "n - p = 0")
    case True
    then have "cut_of s (take p s)" unfolding cut_of_def using p False
      by (intro exI [of _ p] exI [of _ "length s"]) (simp add: is_char_boundary_def)
    then show ?thesis using r True p by simp
  next
    case f: False
    then have "cut_of s (take p s @ drop t s)" unfolding cut_of_def using p t False by (intro exI [of _ p] exI [of _ t]) simp
    then show ?thesis using r f p t False by simp
  qed
qed

text \<open>The file of a result, and what it says.\<close>

definition complete_content :: "result_env \<Rightarrow> json \<Rightarrow> string" where
  "complete_content env v = (case v of JString t \<Rightarrow> t | _ \<Rightarrow> fst (snd (persisted_content env (print_pretty env v))))"

lemma write_if_missing_effect:
  assumes "write_if_missing env p c st = (st', Inr u)"
  shows "result_files st' p = (if result_files st p = None then Some c else result_files st p)"
    and "q \<noteq> p \<Longrightarrow> result_files st' q = result_files st q" and "base_dir st' = base_dir st"
  using assms by (auto simp: write_if_missing_def split: option.splits if_splits)

lemma path_join_name: "path_join d ''content.txt'' \<noteq> path_join d ''schema.json'' \<and> path_join d ''content.json'' \<noteq> path_join d ''schema.json''"
  by (simp add: path_join_def starts_with_def)

lemma persisted_content_name: "persisted_content env raw = (name, content, schema) \<Longrightarrow> name = ''content.txt'' \<or> name = ''content.json''"
  by (auto simp: persisted_content_def split: option.splits json.splits)

lemma persist_effect:
  assumes "persist env key call raw st = (st', Inr p)"
  shows "result_files st' (content_path p)
    = (if result_files st (content_path p) = None then Some (fst (snd (persisted_content env raw))) else result_files st (content_path p))"
proof -
  obtain name content schema where c: "persisted_content env raw = (name, content, schema)" by (cases "persisted_content env raw")
  define cp where "cp = path_join (call_dir st key call) name"
  have io: "io_error env (call_dir st key call) = None" using assms by (cases "io_error env (call_dir st key call)") (simp_all add: persist_def Let_def c)
  obtain st1 w where w: "write_if_missing env cp content st = (st1, w)" by fastforce
  obtain u where u: "w = Inr u" using assms by (cases w) (simp_all add: persist_def Let_def c io cp_def [symmetric] w)
  note e1 = write_if_missing_effect [OF w [unfolded u]]
  show ?thesis
  proof (cases schema)
    case None
    then show ?thesis using assms e1(1) by (auto simp: persist_def Let_def c io cp_def [symmetric] w u)
  next
    case (Some sc)
    obtain st2 w2 where w2: "write_if_missing env (path_join (call_dir st key call) ''schema.json'') sc st1 = (st2, w2)" by fastforce
    obtain u2 where u2: "w2 = Inr u2" using assms by (cases w2) (simp_all add: persist_def Let_def c io cp_def [symmetric] w u Some w2)
    have "cp \<noteq> path_join (call_dir st key call) ''schema.json''" using persisted_content_name [OF c] path_join_name by (auto simp: cp_def)
    then have "result_files st2 cp = result_files st1 cp" using write_if_missing_effect(2) [OF w2 [unfolded u2]] by simp
    moreover have "st' = st2" "content_path p = cp"
      using assms by (auto simp: persist_def Let_def c io cp_def [symmetric] w u Some w2 u2)
    ultimately show ?thesis using e1(1) by (simp add: c)
  qed
qed

lemma persist_result_effect:
  assumes "persist_result env key call v (rendered env v) on st = (st', Inr (Some p))"
  shows "result_files st' (content_path p)
    = (if result_files st (content_path p) = None then Some (complete_content env v) else result_files st (content_path p))"
proof (cases v)
  case (JString t)
  obtain st1 w where w: "write_if_missing env (path_join (call_dir st key call) ''content.txt'') t st = (st1, w)" by fastforce
  have "w = Inr () \<and> st' = st1 \<and> content_path p = path_join (call_dir st key call) ''content.txt''"
    using assms w by (auto simp: persist_result_def persist_text_def Let_def JString split: if_splits option.splits sum.splits prod.splits)
  then show ?thesis using write_if_missing_effect(1) [of env _ t st st1 "()"] w by (simp add: complete_content_def JString)
qed (use assms persist_effect in \<open>auto simp: persist_result_def complete_content_def rendered_def split: if_splits prod.splits sum.splits\<close>)


definition sample_results :: result_env where
  "sample_results = \<lparr>parse_json = (\<lambda>_. None), print_compact = (\<lambda>_. []), print_pretty = (\<lambda>_. []), io_error = (\<lambda>_. None)\<rparr>"


text \<open>A call whose identifier was used before in the session points to the earlier result.\<close>

lemma stale_result:
  assumes "persist_result env key call v (rendered env v) on st = (st', Inr (Some p))" "result_files st (content_path p) = Some old"
  shows "result_files st' (content_path p) = Some old"
  using persist_result_effect [OF assms(1)] assms(2) by simp

text \<open>No component contains a separator, but two dots are kept as they are.\<close>

lemma component_confined: "CHR ''/'' \<notin> set (sanitize_path_component s)"
  by (auto simp: sanitize_path_component_def is_ascii_alphanumeric_def)

lemma parent_component: "sanitize_path_component ''..'' = ''..''"
  by (simp add: sanitize_path_component_def continues_char_def is_ascii_alphanumeric_def)

end
