(* ===== verification/Tool_Execution.thy ===== *)
theory Tool_Execution
  imports Tool_Results Tool_Lifecycle Hooks
begin

text \<open>
  The execution of one tool call (\<open>crates/agents/src/runner/tool_execution.rs\<close>): its checks, the
  two permissions, the hooks, the tool itself with its progress, and the lifecycle events. The
  tool, the operator, the hooks, the consumer of the events and the clock are parameters;
  the hooks may be those of \<open>Hooks\<close>. A missing consumer, operator or hook registry is one that
  accepts, approves and continues. Logging and the presentation of an event are left out.
\<close>

section \<open>The parties\<close>

datatype run_error = RunCancelled | RunFailed string

datatype permission_phase = BeforeExecution | AfterResult

datatype permission_decision = Approve | Skip | Deny string

record agent_tool =
  tool_schema :: json
  tool_validate :: "json \<Rightarrow> string option"
  tool_truncation :: "json \<Rightarrow> truncation"
  tool_persists :: "json \<Rightarrow> bool"
  tool_result_bytes :: "json \<Rightarrow> nat option"
  tool_preserved_prefix :: "json \<Rightarrow> json \<Rightarrow> nat"
  tool_agent_result :: "json \<Rightarrow> json \<Rightarrow> string + json"
  tool_execute :: "json \<Rightarrow> json \<Rightarrow> string + json" \<comment> \<open>of the public and the complete arguments\<close>

record exec_env =
  find_tool :: "string \<Rightarrow> agent_tool option"
  ex_session :: string
  ex_channel :: "channel_binding option"
  trusted_context :: "json option"
  tools_disabled :: bool
  budget_metadata :: json
  cancelled_at_start :: bool
  cancel_after :: "nat option" \<comment> \<open>how often the execution is awaited until the token stops it\<close>
  permission :: "permission_phase \<Rightarrow> run_error + permission_decision"
  run_hook :: "hook_payload \<Rightarrow> string + hook_action"
  consumer_error :: "nat \<Rightarrow> string option" \<comment> \<open>the error of the n-th delivery\<close>
  clock :: "nat \<Rightarrow> string + nat" \<comment> \<open>the n-th reading\<close>
  tick_retries :: "nat list" \<comment> \<open>the retries counted at each second of the execution\<close>
  result_limit :: "string + nat"
  ex_results :: result_env

record exec_state =
  next_sequence :: nat
  readings :: nat
  deliveries :: nat
  delivered :: "(tool_lifecycle_event \<times> json option) list"
  executed :: "(json \<times> json) list"
  polls_left :: "nat option"
  result_files_of :: result_store

record tool_outcome =
  out_success :: bool
  out_error :: "string option"
  out_rejected :: bool
  out_result :: string

datatype stop = Interrupted | Stop run_error

type_synonym 'a exec = "exec_state \<Rightarrow> exec_state \<times> (stop + 'a)"

definition give :: "'a \<Rightarrow> 'a exec" where
  "give a s = (s, Inr a)"

definition halt :: "run_error \<Rightarrow> 'a exec" where
  "halt e s = (s, Inl (Stop e))"

definition andthen :: "'a exec \<Rightarrow> ('a \<Rightarrow> 'b exec) \<Rightarrow> 'b exec" where
  "andthen m f s = (case m s of (s1, Inl e) \<Rightarrow> (s1, Inl e) | (s1, Inr a) \<Rightarrow> f a s1)"

text \<open>Where an execution waits, it may be stopped instead.\<close>

definition awaiting :: "'a exec \<Rightarrow> 'a exec" where
  "awaiting m s = (case polls_left s of
     Some 0 \<Rightarrow> (s, Inl Interrupted)
   | Some (Suc n) \<Rightarrow> m (s\<lparr>polls_left := Some n\<rparr>)
   | None \<Rightarrow> m s)"

definition lifecycle_now_ms :: "exec_env \<Rightarrow> nat exec" where
  "lifecycle_now_ms env s = (s\<lparr>readings := readings s + 1\<rparr>, (case clock env (readings s) of Inl e \<Rightarrow> Inl (Stop (RunFailed e)) | Inr t \<Rightarrow> Inr t))"

definition deliver :: "exec_env \<Rightarrow> tool_lifecycle_event \<Rightarrow> json option \<Rightarrow> unit exec" where
  "deliver env ev raw s = (let s1 = s\<lparr>deliveries := deliveries s + 1\<rparr> in
     case consumer_error env (deliveries s) of
       Some e \<Rightarrow> (s1, Inl (Stop (RunFailed e)))
     | None \<Rightarrow> (s1\<lparr>delivered := delivered s1 @ [(ev, raw)]\<rparr>, Inr ()))"

definition take_sequence :: "nat exec" where
  "take_sequence s = (s\<lparr>next_sequence := saturating_add (next_sequence s) 1\<rparr>, Inr (next_sequence s))"

definition emit_update :: "exec_env \<Rightarrow> tool_call \<Rightarrow> tool_lifecycle_update \<Rightarrow> json option \<Rightarrow> unit exec" where
  "emit_update env call up raw =
     andthen (lifecycle_now_ms env) (\<lambda>now. andthen take_sequence (\<lambda>n. awaiting (deliver env
       \<lparr>lc_call_id = call_id call, lc_tool_name = call_name call, lc_sequence = n, emitted_at_ms = now, lc_run_id = None,
        context_budget = (if is_terminal (stage up) then Some (budget_metadata env) else None), lc_update = up\<rparr> raw)))"

section \<open>Results\<close>

definition error_json :: "string \<Rightarrow> json" where
  "error_json e = JObject [(''error'', JString e)]"

definition hooked_result :: "exec_env \<Rightarrow> string \<Rightarrow> json \<Rightarrow> nat \<Rightarrow> json \<times> nat" where
  "hooked_result env name v preserve = (case run_hook env (ToolResultPersistP (ex_session env) (sanitize_tool_name name) v (ex_channel env)) of
     Inr (ModifyPayload w) \<Rightarrow> (w, 0)
   | Inr (Block reason) \<Rightarrow> (error_json (''blocked by hook: '' @ reason), 0)
   | _ \<Rightarrow> (v, preserve))"

definition prepare_agent_result :: "exec_env \<Rightarrow> tool_call \<Rightarrow> agent_tool option \<Rightarrow> json \<Rightarrow> json \<Rightarrow> bool \<Rightarrow> string exec" where
  "prepare_agent_result env call tool args raw has_raw s =
     (case (case tool of Some t \<Rightarrow> if has_raw then tool_agent_result t args raw else Inr raw | None \<Rightarrow> Inr raw) of
        Inl e \<Rightarrow> (s, Inl (Stop (RunFailed e)))
      | Inr v0 \<Rightarrow>
          (let trunc = (case tool of Some t \<Rightarrow> tool_truncation t args | None \<Rightarrow> TruncStandard);
               preserve0 = (case tool of Some t \<Rightarrow> if trunc = TruncEnd \<and> has_raw then tool_preserved_prefix t args raw else 0 | None \<Rightarrow> 0);
               (v, preserve) = hooked_result env (call_name call) v0 preserve0
           in case result_limit env of
             Inl e \<Rightarrow> (s, Inl (Stop (RunFailed e)))
           | Inr limit \<Rightarrow>
               (case persist_and_truncate (ex_results env) (ex_session env) (call_id call) v
                    (case Option.bind tool (\<lambda>t. tool_result_bytes t args) of Some n \<Rightarrow> n | None \<Rightarrow> limit) trunc
                    (case tool of Some t \<Rightarrow> tool_persists t args | None \<Rightarrow> True) preserve (result_files_of s) of
                  (st, Inl e) \<Rightarrow> (s\<lparr>result_files_of := st\<rparr>, Inl (Stop (RunFailed e)))
                | (st, Inr r) \<Rightarrow> (s\<lparr>result_files_of := st\<rparr>, Inr r))))"

definition emit_cancelled :: "exec_env \<Rightarrow> tool_call \<Rightarrow> json option \<Rightarrow> unit exec" where
  "emit_cancelled env call args = emit_update env call (LcCancelled args AGENT_RUN_CANCELLED_REASON) None"

definition complete_as_error :: "exec_env \<Rightarrow> tool_call \<Rightarrow> agent_tool option \<Rightarrow> json \<Rightarrow> json \<Rightarrow> string \<Rightarrow> bool \<Rightarrow> tool_outcome exec" where
  "complete_as_error env call tool public args e ready =
     andthen (prepare_agent_result env call tool args (error_json e) False) (\<lambda>r.
     andthen (if ready then emit_update env call (LcResultReady public False (Some r) (Some e)) None else give ()) (\<lambda>_.
     andthen (emit_update env call (LcCompleted public False (Some r) (Some e)) None) (\<lambda>_.
     give \<lparr>out_success = False, out_error = Some e, out_rejected = False, out_result = r\<rparr>)))"

definition TOOL_PERMISSION_SKIP_ERROR :: string where
  "TOOL_PERMISSION_SKIP_ERROR = ''Tool call was skipped by the user as unnecessary/erroneous''"

definition tool_permission_deny_error :: "string \<Rightarrow> string" where
  "tool_permission_deny_error feedback = ''Tool execution was declined by the user. Feedback: '' @ feedback"

definition finish_permission :: "exec_env \<Rightarrow> tool_call \<Rightarrow> agent_tool option \<Rightarrow> json \<Rightarrow> json \<Rightarrow> permission_phase \<Rightarrow> bool \<Rightarrow> tool_outcome option exec" where
  "finish_permission env call tool public args phase ready = (case permission env phase of
     Inr Approve \<Rightarrow> give None
   | Inr Skip \<Rightarrow> andthen (complete_as_error env call tool public args TOOL_PERMISSION_SKIP_ERROR ready) (\<lambda>out. give (Some out))
   | Inr (Deny feedback) \<Rightarrow> andthen (complete_as_error env call tool public args (tool_permission_deny_error feedback) ready) (\<lambda>out. give (Some out))
   | Inl RunCancelled \<Rightarrow> andthen (emit_cancelled env call (Some public)) (\<lambda>_. halt RunCancelled)
   | Inl (RunFailed e) \<Rightarrow> halt (RunFailed e))"

section \<open>Running the tool\<close>

record raw_execution =
  raw_success :: bool
  wrapped_result :: json
  raw_error :: "string option"
  raw_public :: json
  raw_arguments :: json

definition refused :: "json \<Rightarrow> json \<Rightarrow> string \<Rightarrow> raw_execution" where
  "refused public args e = \<lparr>raw_success = False, wrapped_result = error_json e, raw_error = Some e, raw_public = public, raw_arguments = args\<rparr>"

definition rejection :: "string \<Rightarrow> string \<Rightarrow> string" where
  "rejection name e = ''Tool call rejected before execution by `'' @ name @ ''`: '' @ e"

definition progress_message :: "nat \<Rightarrow> nat \<Rightarrow> string" where
  "progress_message elapsed retries =
     (let m = ''wait for result ['' @ show_nat elapsed @ ''] sec.'' in
      if retries = 0 then m else m @ '' Provider request retries: '' @ show_nat retries @ ''.'')"

fun tick_loop :: "exec_env \<Rightarrow> tool_call \<Rightarrow> json \<Rightarrow> nat \<Rightarrow> nat list \<Rightarrow> unit exec" where
  "tick_loop env call public elapsed [] = give ()"
| "tick_loop env call public elapsed (retries # rs) =
     (let n = saturating_add elapsed 1 in
      andthen (awaiting (give ())) (\<lambda>_.
      andthen (emit_update env call (LcExecutionProgress public (min (2 ^ 64 - 1) (n * 1000)) (progress_message n retries)) None) (\<lambda>_.
      tick_loop env call public n rs)))"

definition start_tool :: "json \<Rightarrow> json \<Rightarrow> unit exec" where
  "start_tool public args s = (s\<lparr>executed := executed s @ [(public, args)]\<rparr>, Inr ())"

definition has_error :: "json \<Rightarrow> bool" where
  "has_error v \<longleftrightarrow> json_get v ''error'' \<noteq> None \<or> json_get v ''success'' = Some (JBool False)"

definition execute_tool :: "exec_env \<Rightarrow> tool_call \<Rightarrow> agent_tool \<Rightarrow> json \<Rightarrow> json \<Rightarrow> raw_execution exec" where
  "execute_tool env call tool public args =
     (let shown = public_tool_arguments public in
      andthen (lifecycle_now_ms env) (\<lambda>started.
      andthen (emit_update env call (LcExecuting shown started) None) (\<lambda>_.
      andthen (emit_update env call (LcExecutionProgress shown 0 ''wait for result [0] sec.'') None) (\<lambda>_.
      andthen (start_tool public args) (\<lambda>_.
      andthen (tick_loop env call shown 0 (tick_retries env)) (\<lambda>_.
      awaiting (andthen (give (tool_execute tool public args)) (\<lambda>res.
      awaiting (give (case res of
        Inr v \<Rightarrow> \<lparr>raw_success = \<not> has_error v, wrapped_result = JObject [(''result'', v)],
          raw_error = (if has_error v then Option.bind (json_get v ''error'') as_str else None), raw_public = public, raw_arguments = args\<rparr>
      | Inl e \<Rightarrow> refused public args e))))))))))"

definition invalid_arguments :: "exec_env \<Rightarrow> string \<Rightarrow> agent_tool \<Rightarrow> tool_call_argument_diagnostic option \<Rightarrow> json \<Rightarrow> string option" where
  "invalid_arguments env name tool diagnostic args = (case validate_tool_args (tool_schema tool) args of
     Inl e \<Rightarrow> Some (to_llm_error_message (print_compact (ex_results env)) name diagnostic e)
   | Inr _ \<Rightarrow> map_option (rejection name) (tool_validate tool args))"

definition run_before_hook_and_execute :: "exec_env \<Rightarrow> tool_call \<Rightarrow> string \<Rightarrow> agent_tool option \<Rightarrow> json \<Rightarrow> json \<Rightarrow> raw_execution exec" where
  "run_before_hook_and_execute env call name tool public args = awaiting
     (let go = (\<lambda>public args. case tool of None \<Rightarrow> give (refused public args (''unknown tool: '' @ name)) | Some t \<Rightarrow> execute_tool env call t public args) in
      case run_hook env (BeforeToolCallP (ex_session env) name args (ex_channel env)) of
        Inr (Block reason) \<Rightarrow> give (refused public args (''blocked by hook: '' @ reason))
      | Inr (ModifyPayload v) \<Rightarrow>
          (let public1 = public_arguments_after_hook (trusted_context env) v;
               args1 = enrich_tool_arguments (trusted_context env) (call_id call) public1
           in case Option.bind tool (\<lambda>t. invalid_arguments env name t None public1) of
             Some e \<Rightarrow> give (refused public1 args1 e)
           | None \<Rightarrow> go public1 args1)
      | _ \<Rightarrow> go public args)"

text \<open>Running it until the token is cancelled.\<close>

definition until_cancelled :: "nat option \<Rightarrow> 'a exec \<Rightarrow> 'a option exec" where
  "until_cancelled limit m s = (case m (s\<lparr>polls_left := limit\<rparr>) of
     (s1, Inl Interrupted) \<Rightarrow> (s1\<lparr>polls_left := None\<rparr>, Inr None)
   | (s1, Inl (Stop e)) \<Rightarrow> (s1\<lparr>polls_left := None\<rparr>, Inl (Stop e))
   | (s1, Inr a) \<Rightarrow> (s1\<lparr>polls_left := None\<rparr>, Inr (Some a)))"

section \<open>The whole call\<close>

definition validation_error :: "exec_env \<Rightarrow> tool_call \<Rightarrow> string \<Rightarrow> agent_tool option \<Rightarrow> string option" where
  "validation_error env call name tool =
     (if tools_disabled env then Some (''tool `'' @ name @ ''` cannot be called: tool use is disabled for this turn'')
      else case (case argument_diagnostic call of Some d \<Rightarrow> if diag_source d = MalformedString then Some d else None | None \<Rightarrow> None) of
        Some d \<Rightarrow> Some (''Tool call rejected before execution by `'' @ name @ ''`: failed to parse function arguments: ''
          @ (case parse_error d of Some e \<Rightarrow> e | None \<Rightarrow> ''invalid JSON'') @ ''. '' @ llm_detail d)
      | None \<Rightarrow> (case tool of
          None \<Rightarrow> Some (''unknown tool: '' @ name)
        | Some t \<Rightarrow> invalid_arguments env name t (argument_diagnostic call) (call_arguments call)))"

definition finish_execution :: "exec_env \<Rightarrow> tool_call \<Rightarrow> agent_tool option \<Rightarrow> raw_execution \<Rightarrow> tool_outcome exec" where
  "finish_execution env call tool x =
     (let public = public_tool_arguments (raw_public x); inner = json_get (wrapped_result x) ''result'';
          raw = (case inner of Some v \<Rightarrow> v | None \<Rightarrow> wrapped_result x)
      in
      andthen (prepare_agent_result env call tool (raw_arguments x) raw (inner \<noteq> None)) (\<lambda>r.
      andthen (emit_update env call (LcResultReady public (raw_success x) (Some r) (raw_error x)) None) (\<lambda>_.
      andthen (finish_permission env call tool public (raw_arguments x) AfterResult False) (\<lambda>done_early.
      case done_early of
        Some out \<Rightarrow> give out
      | None \<Rightarrow>
          andthen (emit_update env call (LcCompleted public (raw_success x) (Some r) (raw_error x)) (if inner = None then None else Some raw)) (\<lambda>_.
          give \<lparr>out_success = raw_success x, out_error = raw_error x, out_rejected = False, out_result = r\<rparr>)))))"

definition reject_call :: "exec_env \<Rightarrow> tool_call \<Rightarrow> agent_tool option \<Rightarrow> json \<Rightarrow> json \<Rightarrow> string \<Rightarrow> tool_outcome exec" where
  "reject_call env call tool public args e =
     andthen (prepare_agent_result env call tool args (error_json e) False) (\<lambda>r.
     andthen (emit_update env call (LcRejected public e r) None) (\<lambda>_.
     give \<lparr>out_success = False, out_error = Some e, out_rejected = True, out_result = r\<rparr>))"

definition execute_inner :: "exec_env \<Rightarrow> tool_call \<Rightarrow> tool_outcome exec" where
  "execute_inner env call =
     (let name = sanitize_tool_name (call_name call); tool = find_tool env name; raw = call_arguments call;
          public = public_tool_arguments raw; args = enrich_tool_arguments (trusted_context env) (call_id call) raw
      in if cancelled_at_start env then andthen (emit_cancelled env call (Some public)) (\<lambda>_. halt RunCancelled)
      else
        andthen (emit_update env call (LcWaitingForExecution public) None) (\<lambda>_.
        andthen (finish_permission env call tool public args BeforeExecution True) (\<lambda>done_early.
        case done_early of
          Some out \<Rightarrow> give out
        | None \<Rightarrow>
            (case validation_error env call name tool of
               Some e \<Rightarrow> reject_call env call tool public args e
             | None \<Rightarrow>
                 andthen (until_cancelled (cancel_after env) (run_before_hook_and_execute env call name tool raw args)) (\<lambda>result.
                 case result of
                   None \<Rightarrow> andthen (emit_cancelled env call (Some public)) (\<lambda>_. halt RunCancelled)
                 | Some x \<Rightarrow> finish_execution env call tool x)))))"

text \<open>\<open>execute_cancellable\<close>, from the first sequence number the runner assigns.\<close>

definition start_state :: "nat \<Rightarrow> result_store \<Rightarrow> exec_state" where
  "start_state first files = \<lparr>next_sequence = first, readings = 0, deliveries = 0, delivered = [], executed = [], polls_left = None, result_files_of = files\<rparr>"

definition execute_call :: "exec_env \<Rightarrow> tool_call \<Rightarrow> nat \<Rightarrow> result_store \<Rightarrow> exec_state \<times> (stop + tool_outcome)" where
  "execute_call env call first files = execute_inner env call (start_state first files)"

section \<open>Triples\<close>

text \<open>What holds after a step, by whether it gives a value or stops.\<close>

definition spec :: "(exec_state \<Rightarrow> bool) \<Rightarrow> 'a exec \<Rightarrow> ('a \<Rightarrow> exec_state \<Rightarrow> bool) \<Rightarrow> (stop \<Rightarrow> exec_state \<Rightarrow> bool) \<Rightarrow> bool" where
  "spec P m Q E \<longleftrightarrow> (\<forall>s. P s \<longrightarrow> (case m s of (s1, Inl e) \<Rightarrow> E e s1 | (s1, Inr a) \<Rightarrow> Q a s1))"

named_theorems triple

lemma spec_give: "(\<And>s. P s \<Longrightarrow> Q a s) \<Longrightarrow> spec P (give a) Q E"
  by (simp add: spec_def give_def)

lemma spec_halt: "(\<And>s. P s \<Longrightarrow> E (Stop e) s) \<Longrightarrow> spec P (halt e) Q E"
  by (simp add: spec_def halt_def)

lemma spec_andthen: "spec P m R E \<Longrightarrow> (\<And>a. spec (R a) (f a) Q E) \<Longrightarrow> spec P (andthen m f) Q E"
  by (fastforce simp: spec_def andthen_def split: prod.splits sum.splits)

lemma spec_apply: "spec P m Q E \<Longrightarrow> P s \<Longrightarrow> case m s of (s1, Inl e) \<Rightarrow> E e s1 | (s1, Inr a) \<Rightarrow> Q a s1"
  by (simp add: spec_def)

lemma spec_weaken: "spec P m Q E \<Longrightarrow> (\<And>s. P' s \<Longrightarrow> P s) \<Longrightarrow> (\<And>a s. Q a s \<Longrightarrow> Q' a s) \<Longrightarrow> (\<And>e s. E e s \<Longrightarrow> E' e s) \<Longrightarrow> spec P' m Q' E'"
  by (fastforce simp: spec_def split: prod.splits sum.splits)

text \<open>Conditions that do not look at the cancellation.\<close>

definition poll_free :: "(exec_state \<Rightarrow> bool) \<Rightarrow> bool" where
  "poll_free P \<longleftrightarrow> (\<forall>s x. P (s\<lparr>polls_left := x\<rparr>) = P s)"

lemma spec_awaiting: "poll_free P \<Longrightarrow> spec P m Q E \<Longrightarrow> (\<And>s. P s \<Longrightarrow> E Interrupted s) \<Longrightarrow> spec P (awaiting m) Q E"
  by (auto simp: spec_def awaiting_def poll_free_def split: option.splits nat.splits)

lemma spec_until_cancelled:
  assumes "poll_free P" "\<And>a. poll_free (Q a)" "\<And>e. poll_free (E e)" "spec P m (\<lambda>a. Q (Some a)) E" "\<And>s. E Interrupted s \<Longrightarrow> Q None s"
  shows "spec P (until_cancelled limit m) Q E"
  unfolding spec_def
proof (intro allI impI)
  fix s
  assume "P s"
  then have "case m (s\<lparr>polls_left := limit\<rparr>) of (s1, Inl e) \<Rightarrow> E e s1 | (s1, Inr a) \<Rightarrow> Q (Some a) s1"
    using assms(1,4) by (simp add: spec_def poll_free_def)
  then show "case until_cancelled limit m s of (s1, Inl e) \<Rightarrow> E e s1 | (s1, Inr a) \<Rightarrow> Q a s1"
    using assms(2,3,5) by (auto simp: until_cancelled_def poll_free_def split: prod.splits sum.splits stop.splits)
qed

text \<open>An execution that is not to be cancelled is not interrupted.\<close>

definition calm :: "'a exec \<Rightarrow> bool" where
  "calm m \<longleftrightarrow> spec (\<lambda>s. polls_left s = None) m (\<lambda>_ s. polls_left s = None) (\<lambda>e s. polls_left s = None \<and> e \<noteq> Interrupted)"

lemma calm_give [simp]: "calm (give a)" and calm_halt [simp]: "calm (halt e)"
  by (simp_all add: calm_def spec_give spec_halt)

lemma calm_andthen: "calm m \<Longrightarrow> (\<And>a. calm (f a)) \<Longrightarrow> calm (andthen m f)"
  unfolding calm_def by (rule spec_andthen)

lemma calm_awaiting: "calm m \<Longrightarrow> calm (awaiting m)"
  by (auto simp: calm_def spec_def awaiting_def)

lemma calm_until_cancelled: "calm (until_cancelled limit m)"
  by (auto simp: calm_def spec_def until_cancelled_def split: prod.splits sum.splits stop.splits)

lemma calm_emit_update: "calm (emit_update env call up raw)"
  unfolding emit_update_def
  by (intro calm_andthen calm_awaiting)
    (auto simp: calm_def spec_def lifecycle_now_ms_def take_sequence_def deliver_def Let_def split: sum.splits option.splits)

lemma calm_prepare_agent_result: "calm (prepare_agent_result env call tool args raw has_raw)"
  by (auto simp: calm_def spec_def prepare_agent_result_def Let_def split: prod.splits sum.splits option.splits)

lemma calm_complete_as_error: "calm (complete_as_error env call tool public args e ready)"
  unfolding complete_as_error_def by (auto intro!: calm_andthen calm_prepare_agent_result calm_emit_update)

lemma calm_finish_permission: "calm (finish_permission env call tool public args phase ready)"
  unfolding finish_permission_def emit_cancelled_def
  by (auto intro!: calm_andthen calm_complete_as_error calm_emit_update split: sum.split permission_decision.split run_error.split)

lemma calm_finish_execution: "calm (finish_execution env call tool x)"
  unfolding finish_execution_def Let_def
  by (auto intro!: calm_andthen calm_prepare_agent_result calm_emit_update calm_finish_permission split: option.split)

lemma calm_execute_inner: "calm (execute_inner env call)"
  unfolding execute_inner_def Let_def reject_call_def emit_cancelled_def
  by (auto intro!: calm_andthen calm_prepare_agent_result calm_emit_update calm_finish_permission calm_until_cancelled calm_finish_execution split: option.split)

section \<open>The tool runs only when it may\<close>

text \<open>The tool has run with the listed arguments, and the arguments of the set have been announced.\<close>

definition run_log :: "json set \<Rightarrow> (json \<times> json) list \<Rightarrow> exec_state \<Rightarrow> bool" where
  "run_log A L s \<longleftrightarrow> executed s = L \<and> (\<forall>a \<in> A. \<exists>p \<in> set (delivered s). \<exists>t. lc_update (fst p) = LcExecuting a t)"

definition keeps :: "'a exec \<Rightarrow> bool" where
  "keeps m \<longleftrightarrow> (\<forall>A L. spec (run_log A L) m (\<lambda>_. run_log A L) (\<lambda>_. run_log A L))"

lemma poll_free_run_log [simp]: "poll_free (run_log A L)"
  by (simp add: poll_free_def run_log_def)

lemma keeps_give [simp]: "keeps (give a)" and keeps_halt [simp]: "keeps (halt e)"
  by (simp_all add: keeps_def spec_give spec_halt)

lemma keeps_andthen: "keeps m \<Longrightarrow> (\<And>a. keeps (f a)) \<Longrightarrow> keeps (andthen m f)"
  unfolding keeps_def using spec_andthen by blast

lemma keeps_awaiting: "keeps m \<Longrightarrow> keeps (awaiting m)"
  unfolding keeps_def by (auto intro: spec_awaiting)

lemma keeps_emit_update: "keeps (emit_update env call up raw)"
  unfolding emit_update_def
  by (intro keeps_andthen keeps_awaiting)
    (auto simp: keeps_def spec_def run_log_def lifecycle_now_ms_def take_sequence_def deliver_def Let_def split: sum.splits option.splits)

lemma keeps_now: "keeps (lifecycle_now_ms env)"
  by (auto simp: keeps_def spec_def run_log_def lifecycle_now_ms_def split: sum.splits)

lemma keeps_prepare_agent_result: "keeps (prepare_agent_result env call tool args raw has_raw)"
  by (auto simp: keeps_def spec_def run_log_def prepare_agent_result_def Let_def split: prod.splits sum.splits option.splits)

lemma keeps_complete_as_error: "keeps (complete_as_error env call tool public args e ready)"
  unfolding complete_as_error_def by (auto intro!: keeps_andthen keeps_prepare_agent_result keeps_emit_update)

lemma keeps_finish_permission: "keeps (finish_permission env call tool public args phase ready)"
  unfolding finish_permission_def emit_cancelled_def
  by (auto intro!: keeps_andthen keeps_complete_as_error keeps_emit_update split: sum.split permission_decision.split run_error.split)

lemma keeps_finish_execution: "keeps (finish_execution env call tool x)"
  unfolding finish_execution_def Let_def
  by (auto intro!: keeps_andthen keeps_prepare_agent_result keeps_emit_update keeps_finish_permission split: option.split)

lemma keeps_reject_call: "keeps (reject_call env call tool public args e)"
  unfolding reject_call_def by (auto intro!: keeps_andthen keeps_prepare_agent_result keeps_emit_update)

lemma keeps_tick_loop: "keeps (tick_loop env call public n rs)"
  by (induction rs arbitrary: n) (auto simp: Let_def intro!: keeps_andthen keeps_awaiting keeps_emit_update)

lemma announced: "spec (run_log A L) (emit_update env call (LcExecuting a t) raw) (\<lambda>_. run_log (insert a A) L) (\<lambda>_. run_log A L)"
proof -
  have now: "spec (run_log A L) (lifecycle_now_ms env) (\<lambda>_. run_log A L) (\<lambda>_. run_log A L)" and number: "spec (run_log A L) take_sequence (\<lambda>_. run_log A L) (\<lambda>_. run_log A L)"
    by (auto simp: spec_def run_log_def lifecycle_now_ms_def take_sequence_def split: sum.splits)
  have "spec (run_log A L) (deliver env ev raw) (\<lambda>_. run_log (insert a A) L) (\<lambda>_. run_log A L)" if "lc_update ev = LcExecuting a t" for ev
    using that by (auto simp: spec_def run_log_def deliver_def Let_def split: option.splits)
  then show ?thesis
    unfolding emit_update_def
    by (intro spec_andthen [OF now] spec_andthen [OF number] spec_awaiting [OF poll_free_run_log]) auto
qed

definition ran_with :: "json \<Rightarrow> json \<Rightarrow> exec_state \<Rightarrow> bool" where
  "ran_with public args s \<longleftrightarrow> (\<exists>A. run_log A [] s) \<or> run_log {public_tool_arguments public} [(public, args)] s"

lemma tool_executed: "spec (run_log {} []) (execute_tool env call tool public args) (\<lambda>_. ran_with public args) (\<lambda>_. ran_with public args)"
proof -
  let ?E = "\<lambda>_ :: stop. ran_with public args"
  let ?shown = "public_tool_arguments public"
  have before: "spec (run_log A []) m (\<lambda>_. run_log A []) ?E" if "keeps m" for m :: "'a exec" and A
    by (rule spec_weaken [OF that [unfolded keeps_def, rule_format, of A "[]"]]) (auto simp: ran_with_def)
  have said: "spec (run_log {} []) (emit_update env call (LcExecuting ?shown t) None) (\<lambda>_. run_log {?shown} []) ?E" for t
    by (rule spec_weaken [OF announced]) (auto simp: ran_with_def)
  have start: "spec (run_log {?shown} []) (start_tool public args) (\<lambda>_. run_log {?shown} [(public, args)]) ?E"
    by (auto simp: spec_def start_tool_def run_log_def)
  have after: "spec (run_log {?shown} [(public, args)]) m (\<lambda>_. ran_with public args) ?E" if "keeps m" for m :: "'a exec"
    by (rule spec_weaken [OF that [unfolded keeps_def, rule_format]]) (auto simp: ran_with_def)
  show ?thesis
    unfolding execute_tool_def Let_def
    by (intro spec_andthen [OF before [OF keeps_now]] spec_andthen [OF said] spec_andthen [OF before [OF keeps_emit_update]] spec_andthen [OF start]
        after keeps_andthen keeps_tick_loop keeps_awaiting keeps_give)
qed

text \<open>With what, if anything, a call that begins may run the tool.\<close>

definition may_run :: "exec_env \<Rightarrow> tool_call \<Rightarrow> exec_state \<Rightarrow> bool" where
  "may_run env call s \<longleftrightarrow> executed s = [] \<or>
     (let name = sanitize_tool_name (call_name call); raw = call_arguments call;
          args = enrich_tool_arguments (trusted_context env) (call_id call) in
      \<exists>tool public. find_tool env name = Some tool
       \<and> executed s = [(public, args public)]
       \<and> validate_tool_args (tool_schema tool) public = Inr () \<and> tool_validate tool public = None
       \<and> (case run_hook env (BeforeToolCallP (ex_session env) name (args raw) (ex_channel env)) of
            Inr (Block _) \<Rightarrow> False | Inr (ModifyPayload v) \<Rightarrow> public = public_arguments_after_hook (trusted_context env) v | _ \<Rightarrow> public = raw)
       \<and> (\<exists>p \<in> set (delivered s). \<exists>t. lc_update (fst p) = LcExecuting (public_tool_arguments public) t))"

lemma valid_arguments: "invalid_arguments env name tool d args = None \<Longrightarrow> validate_tool_args (tool_schema tool) args = Inr () \<and> tool_validate tool args = None"
  by (auto simp: invalid_arguments_def split: sum.splits)

lemma not_run: "run_log A [] s \<Longrightarrow> may_run env call s"
  by (simp add: run_log_def may_run_def)

lemma before_hook:
  fixes env call
  defines "name \<equiv> sanitize_tool_name (call_name call)" and "raw \<equiv> call_arguments call"
  assumes valid: "validation_error env call name tool = None" and tool: "tool = find_tool env name"
  shows "spec (run_log {} []) (run_before_hook_and_execute env call name tool raw (enrich_tool_arguments (trusted_context env) (call_id call) raw))
    (\<lambda>_. may_run env call) (\<lambda>_. may_run env call)"
proof -
  let ?args = "enrich_tool_arguments (trusted_context env) (call_id call)"
  obtain t where t: "tool = Some t" and raw_ok: "invalid_arguments env name t (argument_diagnostic call) raw = None"
    using valid by (auto simp: validation_error_def raw_def split: if_splits option.splits)
  have refused_spec: "spec (run_log {} []) (give x) (\<lambda>_. may_run env call) (\<lambda>_. may_run env call)" for x :: raw_execution
    by (rule spec_give) (rule not_run)
  have go: "spec (run_log {} []) (execute_tool env call t public (?args public)) (\<lambda>_. may_run env call) (\<lambda>_. may_run env call)"
    if ok: "invalid_arguments env name t d public = None"
      and hook: "case run_hook env (BeforeToolCallP (ex_session env) name (?args raw) (ex_channel env)) of
            Inr (Block _) \<Rightarrow> False | Inr (ModifyPayload v) \<Rightarrow> public = public_arguments_after_hook (trusted_context env) v | _ \<Rightarrow> public = raw"
    for public d
  proof (rule spec_weaken [OF tool_executed])
    have "may_run env call s" if "ran_with public (?args public) s" for s
      using that valid_arguments [OF ok] hook t tool
      unfolding may_run_def Let_def name_def [symmetric] raw_def [symmetric]
      by (auto simp: ran_with_def run_log_def)
    then show "\<And>a s. ran_with public (?args public) s \<Longrightarrow> may_run env call s" "\<And>e s. ran_with public (?args public) s \<Longrightarrow> may_run env call s"
      by blast+
  qed
  show ?thesis
    unfolding run_before_hook_and_execute_def Let_def t
    apply (rule spec_awaiting [OF poll_free_run_log])
     apply (auto split: sum.split hook_action.split option.split intro!: refused_spec intro: go [OF raw_ok] go not_run)
    done
qed

lemma poll_free_may_run: "poll_free (may_run env call)"
  by (simp add: poll_free_def may_run_def)

lemma keeps_may_run: "keeps m \<Longrightarrow> spec (may_run env call) m (\<lambda>_. may_run env call) (\<lambda>_. may_run env call)"
  unfolding spec_def
proof (intro allI impI)
  fix s
  assume "keeps m" and s: "may_run env call s"
  let ?A = "{a. \<exists>p \<in> set (delivered s). \<exists>t. lc_update (fst p) = LcExecuting a t}"
  have "run_log ?A (executed s) s" by (auto simp: run_log_def)
  then have "case m s of (s1, Inl _) \<Rightarrow> run_log ?A (executed s) s1 | (s1, Inr _) \<Rightarrow> run_log ?A (executed s) s1"
    using \<open>keeps m\<close> by (auto simp: keeps_def spec_def)
  moreover have "may_run env call s1" if "run_log ?A (executed s) s1" for s1
    using that s by (fastforce simp: may_run_def run_log_def Let_def)
  ultimately show "case m s of (s1, Inl _) \<Rightarrow> may_run env call s1 | (s1, Inr _) \<Rightarrow> may_run env call s1"
    by (auto split: prod.splits sum.splits)
qed

lemma andthen_give: "andthen (give a) f = f a" and andthen_halt: "andthen (halt e) f = halt e"
  by (simp_all add: fun_eq_iff andthen_def give_def halt_def)

lemma andthen_assoc: "andthen (andthen m f) g = andthen m (\<lambda>a. andthen (f a) g)"
  by (auto simp: andthen_def split: prod.splits sum.splits)

lemma blocked_call:
  assumes "cancelled_at_start env \<or> permission env BeforeExecution \<noteq> Inr Approve
    \<or> validation_error env call (sanitize_tool_name (call_name call)) (find_tool env (sanitize_tool_name (call_name call))) \<noteq> None"
  shows "keeps (execute_inner env call)"
proof (cases "permission env BeforeExecution = Inr Approve")
  case True
  then show ?thesis using assms unfolding execute_inner_def Let_def finish_permission_def emit_cancelled_def
    by (auto simp: andthen_give intro!: keeps_andthen keeps_emit_update keeps_reject_call split: option.split)
next
  case False
  then show ?thesis unfolding execute_inner_def Let_def finish_permission_def emit_cancelled_def
    by (auto simp: andthen_give andthen_halt andthen_assoc intro!: keeps_andthen keeps_emit_update keeps_complete_as_error
        split: sum.split permission_decision.split run_error.split)
qed

lemma inner_may_run: "spec (run_log {} []) (execute_inner env call) (\<lambda>_. may_run env call) (\<lambda>_. may_run env call)"
proof (cases "keeps (execute_inner env call)")
  case True
  then show ?thesis by (rule spec_weaken [OF _ _ not_run not_run, OF keeps_def [THEN iffD1, rule_format]])
next
  case False
  let ?name = "sanitize_tool_name (call_name call)"
  have approved: "\<not> cancelled_at_start env" "permission env BeforeExecution = Inr Approve"
    and valid: "validation_error env call ?name (find_tool env ?name) = None"
    using False blocked_call by blast+
  have keep: "spec (run_log {} []) m (\<lambda>_. run_log {} []) (\<lambda>_. may_run env call)" if "keeps m" for m :: "'a exec"
    by (rule spec_weaken [OF that [unfolded keeps_def, rule_format, of "{}" "[]"]]) (auto intro: not_run)
  let ?run = "run_before_hook_and_execute env call ?name (find_tool env ?name) (call_arguments call)
    (enrich_tool_arguments (trusted_context env) (call_id call) (call_arguments call))"
  have free: "poll_free (run_log {} [])" "poll_free (may_run env call)" using poll_free_may_run by auto
  have run: "spec (run_log {} []) (until_cancelled (cancel_after env) ?run) (\<lambda>_. may_run env call) (\<lambda>_. may_run env call)"
    by (rule spec_until_cancelled) (use free before_hook [OF valid refl] in auto)
  show ?thesis unfolding execute_inner_def Let_def finish_permission_def emit_cancelled_def
    using approved valid
    by (auto simp: andthen_give intro!: spec_andthen [OF keep [OF keeps_emit_update]] spec_andthen [OF run] keeps_may_run keeps_andthen keeps_emit_update keeps_finish_execution
        split: option.split)
qed

text \<open>
  C9. A tool runs at most once in a call, and only when the run was not already cancelled, the
  operator approved, the call passed validation and no hook blocked it. It runs with the
  arguments of the call, or with those a hook put in their place once they are free of the
  trusted context's keys; either way they satisfy the tool's schema and its own check, the
  complete arguments add the trusted context to them, and an event said that it starts.
\<close>

theorem tool_runs_only_when_allowed:
  assumes "execute_call env call first files = (s, r)" "executed s \<noteq> []"
  shows "\<not> cancelled_at_start env \<and> permission env BeforeExecution = Inr Approve
    \<and> (let name = sanitize_tool_name (call_name call); raw = call_arguments call;
          args = enrich_tool_arguments (trusted_context env) (call_id call) in
        validation_error env call name (find_tool env name) = None \<and>
        (\<exists>tool public. find_tool env name = Some tool
         \<and> executed s = [(public, args public)]
         \<and> validate_tool_args (tool_schema tool) public = Inr () \<and> tool_validate tool public = None
         \<and> (case run_hook env (BeforeToolCallP (ex_session env) name (args raw) (ex_channel env)) of
              Inr (Block _) \<Rightarrow> False | Inr (ModifyPayload v) \<Rightarrow> public = public_arguments_after_hook (trusted_context env) v | _ \<Rightarrow> public = raw)
         \<and> (\<exists>p \<in> set (delivered s). \<exists>t. lc_update (fst p) = LcExecuting (public_tool_arguments public) t)))"
proof -
  have run: "execute_inner env call (start_state first files) = (s, r)" and start: "run_log {} [] (start_state first files)"
    using assms(1) by (simp_all add: execute_call_def start_state_def run_log_def)
  have "\<not> keeps (execute_inner env call)"
  proof
    assume "keeps (execute_inner env call)"
    then have "spec (run_log {} []) (execute_inner env call) (\<lambda>_. run_log {} []) (\<lambda>_. run_log {} [])" by (simp add: keeps_def)
    then have "run_log {} [] s" using run start by (auto simp: spec_def split: sum.splits)
    then show False using assms(2) by (simp add: run_log_def)
  qed
  moreover have "may_run env call s" using inner_may_run [of env call] run start by (auto simp: spec_def split: sum.splits)
  ultimately show ?thesis using assms(2) blocked_call [of env call] unfolding may_run_def Let_def by blast
qed

section \<open>The events of a call\<close>

definition closing :: "(tool_lifecycle_event \<times> json option) \<Rightarrow> bool" where
  "closing p \<longleftrightarrow> is_terminal (stage (lc_update (fst p)))"

definition in_order :: "(tool_lifecycle_event \<times> json option) list \<Rightarrow> bool" where
  "in_order ps \<longleftrightarrow> sorted_wrt (\<lambda>p q. lc_sequence (fst p) < lc_sequence (fst q) \<or> lc_sequence (fst q) = 2 ^ 64 - 1) ps"

definition log_ok :: "exec_state \<Rightarrow> bool" where
  "log_ok s \<longleftrightarrow> in_order (delivered s)
     \<and> (\<forall>p \<in> set (delivered s). lc_sequence (fst p) < next_sequence s \<or> next_sequence s = 2 ^ 64 - 1)
     \<and> (\<forall>p \<in> set (delivered s). \<forall>a. lifecycle_arguments (lc_update (fst p)) = Some a \<longrightarrow> \<not> shows_hidden a)"

definition open_log :: "exec_state \<Rightarrow> bool" where
  "open_log s \<longleftrightarrow> log_ok s \<and> (\<forall>p \<in> set (delivered s). \<not> closing p)"

definition closed_log :: "tool_lifecycle_update \<Rightarrow> exec_state \<Rightarrow> bool" where
  "closed_log up s \<longleftrightarrow> log_ok s \<and> (\<forall>p \<in> set (butlast (delivered s)). \<not> closing p) \<and> delivered s \<noteq> [] \<and> lc_update (fst (last (delivered s))) = up"

fun reports :: "tool_lifecycle_update \<Rightarrow> tool_outcome \<Rightarrow> bool" where
  "reports (LcCompleted _ ok r e) out = (\<not> out_rejected out \<and> out_success out = ok \<and> Some (out_result out) = r \<and> out_error out = e)"
| "reports (LcRejected _ reason r) out = (out_rejected out \<and> \<not> out_success out \<and> out_result out = r \<and> out_error out = Some reason)"
| "reports _ out = False"

definition reported :: "tool_outcome \<Rightarrow> exec_state \<Rightarrow> bool" where
  "reported out s \<longleftrightarrow> (\<exists>up. closed_log up s \<and> reports up out)"

definition stopped :: "stop \<Rightarrow> exec_state \<Rightarrow> bool" where
  "stopped e s \<longleftrightarrow> (if e = Stop RunCancelled then \<exists>a. closed_log (LcCancelled a AGENT_RUN_CANCELLED_REASON) s else open_log s)"

lemma poll_free_open: "poll_free open_log"
  by (simp add: poll_free_def open_log_def log_ok_def)

lemma log_ok_skips: "log_ok s \<Longrightarrow> log_ok (s\<lparr>next_sequence := saturating_add (next_sequence s) 1\<rparr>)"
  by (fastforce simp: log_ok_def saturating_add_def)

lemma log_ok_emits:
  assumes "log_ok s" "lc_sequence ev = next_sequence s" "\<And>a. lifecycle_arguments (lc_update ev) = Some a \<Longrightarrow> \<not> shows_hidden a"
  shows "log_ok (s\<lparr>next_sequence := saturating_add (next_sequence s) 1, delivered := delivered s @ [(ev, raw)]\<rparr>)"
  using assms by (fastforce simp: log_ok_def in_order_def sorted_wrt_append saturating_add_def)

definition shows_nothing :: "tool_lifecycle_update \<Rightarrow> bool" where
  "shows_nothing up \<longleftrightarrow> (\<forall>a. lifecycle_arguments up = Some a \<longrightarrow> \<not> shows_hidden a)"

definition after_emit :: "tool_lifecycle_update \<Rightarrow> exec_state \<Rightarrow> bool" where
  "after_emit up s \<longleftrightarrow> (if is_terminal (stage up) then closed_log up s else open_log s)"

text \<open>Conditions that look at the log only.\<close>

lemma log_only [simp]:
  "open_log (s\<lparr>readings := n\<rparr>) = open_log s" "open_log (s\<lparr>deliveries := n\<rparr>) = open_log s"
  "open_log (s\<lparr>result_files_of := st\<rparr>) = open_log s" "open_log (s\<lparr>executed := xs\<rparr>) = open_log s"
  "open_log (s\<lparr>polls_left := x\<rparr>) = open_log s"
  "closed_log up (s\<lparr>polls_left := x\<rparr>) = closed_log up s"
  by (simp_all add: open_log_def closed_log_def log_ok_def)

definition numbered :: "nat \<Rightarrow> exec_state \<Rightarrow> bool" where
  "numbered n s \<longleftrightarrow> open_log s \<and> (\<forall>ev raw. lc_sequence ev = n \<longrightarrow> shows_nothing (lc_update ev) \<longrightarrow> log_ok (s\<lparr>delivered := delivered s @ [(ev, raw)]\<rparr>))"

lemma poll_free_numbered: "poll_free (numbered n)"
  by (simp add: poll_free_def numbered_def log_ok_def)

lemma number_taken: "spec open_log take_sequence numbered stopped"
  unfolding spec_def take_sequence_def
proof (intro allI impI)
  fix s
  assume s: "open_log s"
  have "log_ok (s\<lparr>next_sequence := saturating_add (next_sequence s) 1, delivered := delivered s @ [(ev, raw)]\<rparr>)"
    if "lc_sequence ev = next_sequence s" "shows_nothing (lc_update ev)" for ev raw
    using log_ok_emits s that by (simp add: open_log_def shows_nothing_def)
  then have "numbered (next_sequence s) (s\<lparr>next_sequence := saturating_add (next_sequence s) 1\<rparr>)"
    using s log_ok_skips by (simp add: numbered_def open_log_def)
  then show "case (s\<lparr>next_sequence := saturating_add (next_sequence s) 1\<rparr>, Inr (next_sequence s)) of
      (s1, Inl e) \<Rightarrow> stopped e s1 | (s1, Inr n) \<Rightarrow> numbered n s1" by simp
qed

lemma event_delivered:
  assumes "lc_sequence ev = n" "lc_update ev = up" "shows_nothing up"
  shows "spec (numbered n) (deliver env ev raw) (\<lambda>_. after_emit up) stopped"
proof -
  have "after_emit up (s\<lparr>deliveries := k, delivered := delivered s @ [(ev, raw)]\<rparr>)" if s: "numbered n s" for s k
  proof -
    have "log_ok (s\<lparr>deliveries := k, delivered := delivered s @ [(ev, raw)]\<rparr>)"
      using s assms by (simp add: numbered_def log_ok_def)
    then show ?thesis using s assms by (auto simp: after_emit_def numbered_def open_log_def closed_log_def closing_def)
  qed
  then show ?thesis by (auto simp: spec_def deliver_def Let_def stopped_def numbered_def split: option.splits)
qed

lemma emitted:
  assumes "shows_nothing up"
  shows "spec open_log (emit_update env call up raw) (\<lambda>_. after_emit up) stopped"
proof -
  have "spec open_log (lifecycle_now_ms env) (\<lambda>_. open_log) stopped"
    by (auto simp: spec_def lifecycle_now_ms_def stopped_def split: sum.splits)
  then show ?thesis
    unfolding emit_update_def
    by (rule spec_andthen) (rule spec_andthen [OF number_taken], rule spec_awaiting [OF poll_free_numbered],
      rule event_delivered, simp_all add: assms stopped_def numbered_def)
qed

lemma went_on:
  assumes "shows_nothing up" "\<not> is_terminal (stage up)"
  shows "spec open_log (emit_update env call up raw) (\<lambda>_. open_log) stopped"
  by (rule spec_weaken [OF emitted [OF assms(1)]]) (simp_all add: after_emit_def assms(2))

lemma closed_with:
  assumes "shows_nothing up" "is_terminal (stage up)"
  shows "spec open_log (emit_update env call up raw) (\<lambda>_. closed_log up) stopped"
  by (rule spec_weaken [OF emitted [OF assms(1)]]) (simp_all add: after_emit_def assms(2))

lemma shows_nothing_public [simp]:
  "\<not> shows_hidden a \<Longrightarrow> shows_nothing (LcWaitingForExecution a)" "\<not> shows_hidden a \<Longrightarrow> shows_nothing (LcExecuting a t)"
  "\<not> shows_hidden a \<Longrightarrow> shows_nothing (LcExecutionProgress a t m)" "\<not> shows_hidden a \<Longrightarrow> shows_nothing (LcResultReady a ok r e)"
  "\<not> shows_hidden a \<Longrightarrow> shows_nothing (LcCompleted a ok r e)" "\<not> shows_hidden a \<Longrightarrow> shows_nothing (LcRejected a m t')"
  "\<not> shows_hidden a \<Longrightarrow> shows_nothing (LcCancelled (Some a) m)"
  by (simp_all add: shows_nothing_def)

declare is_terminal_def [simp] public_arguments_public [simp]

lemma result_prepared: "spec open_log (prepare_agent_result env call tool args raw has_raw) (\<lambda>_. open_log) stopped"
  by (auto simp: spec_def stopped_def prepare_agent_result_def Let_def split: prod.splits sum.splits option.splits)

lemma reported_with: "reports up out \<Longrightarrow> spec (closed_log up) (give out) reported stopped"
  by (rule spec_give) (auto simp: reported_def)

lemma reported_by: "closed_log (LcCompleted a ok (Some r) e) s \<Longrightarrow> reported \<lparr>out_success = ok, out_error = e, out_rejected = False, out_result = r\<rparr> s"
  unfolding reported_def by (rule exI [of _ "LcCompleted a ok (Some r) e"]) simp

lemma cancelled_with: "\<not> shows_hidden a \<Longrightarrow> spec open_log (andthen (emit_cancelled env call (Some a)) (\<lambda>_. halt RunCancelled)) Q stopped"
  unfolding emit_cancelled_def
  by (rule spec_andthen [OF closed_with]) (auto intro!: spec_halt simp: stopped_def)

lemma completed_as_error:
  assumes "\<not> shows_hidden public"
  shows "spec open_log (complete_as_error env call tool public args e ready) reported stopped"
proof -
  have ready: "spec open_log (if ready then emit_update env call (LcResultReady public False (Some r) (Some e)) None else give ()) (\<lambda>_. open_log) stopped" for r
    by (auto intro!: went_on spec_give simp: assms)
  show ?thesis unfolding complete_as_error_def
    by (intro spec_andthen [OF result_prepared] spec_andthen [OF ready] spec_andthen [OF closed_with] reported_with) (simp_all add: assms)
qed

definition open_or_reported :: "tool_outcome option \<Rightarrow> exec_state \<Rightarrow> bool" where
  "open_or_reported r s \<longleftrightarrow> (case r of None \<Rightarrow> open_log s | Some out \<Rightarrow> reported out s)"

lemma permission_finished:
  assumes "\<not> shows_hidden public"
  shows "spec open_log (finish_permission env call tool public args phase ready) open_or_reported stopped"
proof -
  have failed: "spec open_log (andthen (complete_as_error env call tool public args e ready) (\<lambda>out. give (Some out))) open_or_reported stopped" for e
    by (rule spec_andthen [OF completed_as_error [OF assms]]) (auto intro!: spec_give simp: open_or_reported_def)
  show ?thesis unfolding finish_permission_def
    by (auto intro!: failed cancelled_with [OF assms] spec_give spec_halt simp: open_or_reported_def stopped_def
        split: sum.split permission_decision.split run_error.split)
qed

lemma go_on: "(\<And>out. spec (reported out) (f (Some out)) Q E) \<Longrightarrow> spec open_log (f None) Q E \<Longrightarrow> spec (open_or_reported r) (f r) Q E"
  by (cases r) (simp_all add: open_or_reported_def [abs_def])

lemma ticked: "\<not> shows_hidden public \<Longrightarrow> spec open_log (tick_loop env call public n rs) (\<lambda>_. open_log) stopped"
proof (induction rs arbitrary: n)
  case (Cons r rs)
  have wait: "spec open_log (awaiting (give ())) (\<lambda>_. open_log) stopped"
    by (rule spec_awaiting [OF poll_free_open]) (auto intro: spec_give simp: stopped_def)
  show ?case
    unfolding tick_loop.simps Let_def
    by (intro spec_andthen [OF wait] spec_andthen [OF went_on] Cons.IH) (simp_all add: Cons.prems)
qed (simp add: spec_give)

lemma tool_ran: "spec open_log (execute_tool env call tool public args) (\<lambda>_. open_log) stopped"
proof -
  have now: "spec open_log (lifecycle_now_ms env) (\<lambda>_. open_log) stopped"
    by (auto simp: spec_def lifecycle_now_ms_def stopped_def split: sum.splits)
  have start: "spec open_log (start_tool public args) (\<lambda>_. open_log) stopped"
    by (auto simp: spec_def start_tool_def)
  have wait: "spec open_log (awaiting m) (\<lambda>_. open_log) stopped" if "spec open_log m (\<lambda>_. open_log) stopped" for m :: "'a exec"
    by (rule spec_awaiting [OF poll_free_open that]) (simp add: stopped_def)
  have given: "spec open_log (give x) (\<lambda>_. open_log) stopped" for x :: 'a by (simp add: spec_give)
  show ?thesis unfolding execute_tool_def Let_def
    by (intro spec_andthen [OF now] spec_andthen [OF went_on] spec_andthen [OF start] spec_andthen [OF ticked] wait spec_andthen [OF given] given) simp_all
qed

lemma hook_ran: "spec open_log (run_before_hook_and_execute env call name tool raw args) (\<lambda>_. open_log) stopped"
  unfolding run_before_hook_and_execute_def Let_def
  by (rule spec_awaiting [OF poll_free_open])
    (auto intro!: spec_give tool_ran simp: stopped_def split: sum.split hook_action.split option.split)

lemma execution_finished: "spec open_log (finish_execution env call tool x) reported stopped"
  unfolding finish_execution_def Let_def
  by (intro spec_andthen [OF result_prepared] spec_andthen [OF went_on] spec_andthen [OF permission_finished] go_on)
    (auto intro!: spec_andthen [OF closed_with] spec_give intro: reported_by)

lemma call_rejected: "\<not> shows_hidden public \<Longrightarrow> spec open_log (reject_call env call tool public args e) reported stopped"
  unfolding reject_call_def
  by (intro spec_andthen [OF result_prepared] spec_andthen [OF closed_with] reported_with) simp_all

lemma inner_reported: "spec open_log (execute_inner env call) reported stopped"
proof -
  have free: "poll_free (stopped e)" for e by (simp add: poll_free_def stopped_def)
  have run: "spec open_log (until_cancelled limit (run_before_hook_and_execute env call name tool raw args)) (\<lambda>_. open_log) stopped" for limit name tool raw args
    by (rule spec_until_cancelled) (auto intro: hook_ran poll_free_open free simp: stopped_def)
  show ?thesis unfolding execute_inner_def Let_def
    by (auto intro!: cancelled_with spec_andthen [OF went_on] spec_andthen [OF permission_finished] go_on spec_give call_rejected spec_andthen [OF run] execution_finished
        split: option.split)
qed

lemma call_reported:
  "case execute_call env call first files of (s, Inr out) \<Rightarrow> reported out s | (s, Inl e) \<Rightarrow> stopped e s \<and> e \<noteq> Interrupted"
proof -
  let ?s = "start_state first files"
  have start: "open_log ?s" and none: "polls_left ?s = None"
    by (simp_all add: start_state_def open_log_def log_ok_def in_order_def)
  have "case execute_inner env call ?s of (s, Inl e) \<Rightarrow> stopped e s | (s, Inr out) \<Rightarrow> reported out s"
    by (rule spec_apply [OF inner_reported start])
  moreover have "case execute_inner env call ?s of (s, Inl e) \<Rightarrow> polls_left s = None \<and> e \<noteq> Interrupted | (s, Inr out) \<Rightarrow> polls_left s = None"
    by (rule spec_apply [OF calm_execute_inner [unfolded calm_def] none])
  ultimately show ?thesis by (auto simp: execute_call_def split: prod.splits sum.splits)
qed

text \<open>
  C10. Every call that returns has reported its outcome: the last event it delivered is the
  terminal one and carries the outcome, a cancelled call ends with the cancellation, and a call that
  fails has delivered no terminal event. No other event is terminal, and the sequence numbers
  increase until they saturate.
\<close>

theorem outcome_reported_once:
  "case execute_call env call first files of (s, r) \<Rightarrow> in_order (delivered s) \<and> (case r of
      Inr out \<Rightarrow> delivered s \<noteq> [] \<and> list_all (\<lambda>p. \<not> closing p) (butlast (delivered s)) \<and> reports (lc_update (fst (last (delivered s)))) out
    | Inl (Stop RunCancelled) \<Rightarrow> delivered s \<noteq> [] \<and> list_all (\<lambda>p. \<not> closing p) (butlast (delivered s)) \<and> is_user_stop (lc_update (fst (last (delivered s))))
    | Inl (Stop (RunFailed _)) \<Rightarrow> list_all (\<lambda>p. \<not> closing p) (delivered s)
    | Inl Interrupted \<Rightarrow> False)"
  using call_reported [of env call first files]
  by (auto simp: stopped_def reported_def closed_log_def open_log_def log_ok_def list_all_iff split: prod.splits sum.splits stop.splits run_error.splits if_splits)


section \<open>A sample call\<close>

definition sample_tool :: agent_tool where
  "sample_tool = \<lparr>tool_schema = JObject [(''required'', JArray [JString ''q''])], tool_validate = (\<lambda>_. None), tool_truncation = (\<lambda>_. TruncOff),
     tool_persists = (\<lambda>_. False), tool_result_bytes = (\<lambda>_. None), tool_preserved_prefix = (\<lambda>_ _. 0), tool_agent_result = (\<lambda>_ r. Inr r),
     tool_execute = (\<lambda>public _. Inr (JString ''ok''))\<rparr>"

definition sample_env :: exec_env where
  "sample_env = \<lparr>find_tool = (\<lambda>n. if n = ''ask'' then Some sample_tool else None), ex_session = ''s'', ex_channel = None,
     trusted_context = Some (JObject [(''_session_key'', JString ''s'')]), tools_disabled = False, budget_metadata = JNull,
     cancelled_at_start = False, cancel_after = None, permission = (\<lambda>_. Inr Approve), run_hook = (\<lambda>_. Inr Continue),
     consumer_error = (\<lambda>_. None), clock = (\<lambda>n. Inr n), tick_retries = [1], result_limit = Inr 100, ex_results = sample_results\<rparr>"

definition sample_call :: tool_call where
  "sample_call = \<lparr>call_id = ''c1'', call_name = ''ask'', call_arguments = JObject [(''q'', JString ''x'')], argument_diagnostic = None\<rparr>"

lemma sample_emit:
  "polls_left s = None \<Longrightarrow> emit_update sample_env call up raw s =
    (s\<lparr>readings := readings s + 1, next_sequence := saturating_add (next_sequence s) 1, deliveries := deliveries s + 1, delivered := delivered s @
      [(\<lparr>lc_call_id = call_id call, lc_tool_name = call_name call, lc_sequence = next_sequence s, emitted_at_ms = readings s, lc_run_id = None,
        context_budget = (if is_terminal (stage up) then Some JNull else None), lc_update = up\<rparr>, raw)]\<rparr>, Inr ())"
  by (simp add: emit_update_def andthen_def awaiting_def lifecycle_now_ms_def take_sequence_def deliver_def sample_env_def del: is_terminal_def)

lemma sample_name: "sanitize_tool_name ''ask'' = ''ask''"
  by code_simp

lemma sample_validation: "validation_error sample_env sample_call ''ask'' (Some sample_tool) = None"
  by code_simp

lemma sample_enriched: "enrich_tool_arguments (trusted_context sample_env) (call_id sample_call) (call_arguments sample_call)
   = JObject [(''q'', JString ''x''), (''_session_key'', JString ''s''), (''_tool_call_id'', JString ''c1'')]"
  by code_simp

lemma kept: "keeps m \<Longrightarrow> executed (fst (m s)) = executed s"
  using spec_apply [of "run_log {} (executed s)" m "\<lambda>_. run_log {} (executed s)" "\<lambda>_. run_log {} (executed s)" s]
  by (auto simp: keeps_def run_log_def split: prod.splits sum.splits)

lemma sample_executes: "\<exists>s x. run_before_hook_and_execute sample_env sample_call ''ask'' (Some sample_tool) raw args s0 = (s, Inr x)
  \<and> executed s = [(raw, args)]" if "polls_left s0 = None" "executed s0 = []" for s0
proof -
  have hook: "run_hook sample_env p = Inr Continue" and ticks: "tick_retries sample_env = [1]" and now: "clock sample_env n = Inr n" for p n
    by (simp_all add: sample_env_def)
  show ?thesis
    by (simp add: that run_before_hook_and_execute_def awaiting_def execute_tool_def andthen_def sample_emit give_def hook ticks now
      lifecycle_now_ms_def start_tool_def Let_def del: is_terminal_def)
qed

lemma andthen_result: "m s = (s1, Inr a) \<Longrightarrow> andthen m f s = f a s1"
  by (simp add: andthen_def)

lemma sample_runs: "executed (fst (execute_call sample_env sample_call 0 (store_new ''/d'' (\<lambda>_. None)))) = [(call_arguments sample_call, 
   enrich_tool_arguments (trusted_context sample_env) (call_id sample_call) (call_arguments sample_call))]"
proof -
  have env: "find_tool sample_env ''ask'' = Some sample_tool" "cancelled_at_start sample_env = False" "cancel_after sample_env = None"
     "permission sample_env BeforeExecution = Inr Approve" and call: "call_name sample_call = ''ask''"
    by (simp_all add: sample_env_def sample_call_def)
  obtain w where waiting: "emit_update sample_env sample_call (LcWaitingForExecution (public_tool_arguments (call_arguments sample_call))) None
      (start_state 0 (store_new ''/d'' (\<lambda>_. None))) = (w, Inr ())" and fresh: "polls_left w = None" "executed w = []"
    using sample_emit [of "start_state 0 (store_new ''/d'' (\<lambda>_. None))"] by (simp add: start_state_def del: is_terminal_def)
  obtain s x where run: "until_cancelled None (run_before_hook_and_execute sample_env sample_call ''ask'' (Some sample_tool) (call_arguments sample_call)
      (enrich_tool_arguments (trusted_context sample_env) (call_id sample_call) (call_arguments sample_call))) w = (s, Inr (Some x))"
    and ran: "executed s = [(call_arguments sample_call, enrich_tool_arguments (trusted_context sample_env) (call_id sample_call) (call_arguments sample_call))]"
    using sample_executes [of "w\<lparr>polls_left := None\<rparr>" "call_arguments sample_call"
      "enrich_tool_arguments (trusted_context sample_env) (call_id sample_call) (call_arguments sample_call)"] fresh(2)
    by (auto simp: until_cancelled_def)
  show ?thesis
    unfolding execute_call_def execute_inner_def call sample_name env Let_def if_False finish_permission_def
    by (simp only: env sum.case permission_decision.case andthen_give sample_validation option.case andthen_result waiting run
      kept [OF keeps_finish_execution] ran)
qed

theorem tool_runs_only_when_allowed_witness:
  "\<exists>s r tool. execute_call sample_env sample_call 0 (store_new ''/d'' (\<lambda>_. None)) = (s, r) \<and> executed s \<noteq> []
    \<and> permission sample_env BeforeExecution = Inr Approve \<and> find_tool sample_env ''ask'' = Some tool
    \<and> validate_tool_args (tool_schema tool) (call_arguments sample_call) = Inr ()"
proof -
  obtain s r where run: "execute_call sample_env sample_call 0 (store_new ''/d'' (\<lambda>_. None)) = (s, r)" by fastforce
  moreover have "executed s \<noteq> []" using sample_runs run by simp
  moreover note tool_runs_only_when_allowed [OF run \<open>executed s \<noteq> []\<close>, unfolded Let_def]
  moreover have "sanitize_tool_name (call_name sample_call) = ''ask''" "run_hook sample_env p = Inr Continue" for p
    using sample_name by (simp_all add: sample_call_def sample_env_def)
  ultimately show ?thesis by auto
qed

end
