(* ===== verification/Turn_Context.thy ===== *)
theory Turn_Context
  imports Loop_Detector Retry Stream_Attempt Chat_Replay Tool_Execution
begin

text \<open>
  What a turn of the agent loop decides from the conversation (\<open>crates/agents/src/runner/helpers.rs\<close>,
  \<open>crates/common/src/context_budget.rs\<close>, \<open>model/chat.rs\<close>, \<open>model/types.rs\<close>): the size of the prompt and
  when it must be compacted, where the conversation is split, the budget of tool calls, the
  usage, the retries of malformed answers and the intervention of the loop detector. Printing
  JSON is a parameter.
\<close>

section \<open>Messages as JSON\<close>

definition sanitize_message_name :: "string \<Rightarrow> string option" where
  "sanitize_message_name name =
     (let s = take 64 (filter (\<lambda>c. is_ascii_alphanumeric c \<or> c = CHR ''_'' \<or> c = CHR ''-'') (map (\<lambda>c. if c = CHR '' '' then CHR ''_'' else c) name))
      in if s = [] then None else Some s)"

fun part_value :: "content_part \<Rightarrow> json" where
  "part_value (PartText t) = JObject [(''type'', JString ''text''), (''text'', JString t)]"
| "part_value (PartImage media_type data) = JObject [(''type'', JString ''image_url''),
     (''image_url'', JObject [(''url'', JString (''data:'' @ media_type @ '';base64,'' @ data))])]"

definition call_value :: "string \<Rightarrow> string \<Rightarrow> string \<Rightarrow> json" where
  "call_value i n args = JObject [(''id'', JString i), (''type'', JString ''function''),
     (''function'', JObject [(''name'', JString n), (''arguments'', JString args)])]"

definition canonical_tool_calls :: "provider_output_item list \<Rightarrow> json list" where
  "canonical_tool_calls xs = List.map_filter (\<lambda>x. case item_payload x of FunctionCall c n args \<Rightarrow> Some (call_value c n args) | _ \<Rightarrow> None) xs"

fun to_openai_value :: "(json \<Rightarrow> string) \<Rightarrow> chat_message \<Rightarrow> json" where
  "to_openai_value pp (SystemMessage t) = JObject [(''role'', JString ''system''), (''content'', JString t)]"
| "to_openai_value pp (UserMessage content name) = JObject ([(''role'', JString ''user''),
     (''content'', case content of UserText t \<Rightarrow> JString t | UserMultimodal ps \<Rightarrow> JArray (map part_value ps))]
     @ (case Option.bind name sanitize_message_name of Some n \<Rightarrow> [(''name'', JString n)] | None \<Rightarrow> []))"
| "to_openai_value pp (AssistantMessage content tcs reasoning provider_items sid) =
     (let canonical = canonical_tool_calls provider_items;
          cs = (if canonical = [] then map (\<lambda>c. call_value (call_id c) (call_name c) (pp (call_arguments c))) tcs else canonical)
      in if cs = [] then JObject [(''role'', JString ''assistant''), (''content'', JString (case content of Some t \<Rightarrow> t | None \<Rightarrow> []))]
         else JObject ([(''role'', JString ''assistant''), (''tool_calls'', JArray cs)] @ (case content of Some t \<Rightarrow> [(''content'', JString t)] | None \<Rightarrow> [])))"
| "to_openai_value pp (ToolMessage i t) = JObject [(''role'', JString ''tool''), (''tool_call_id'', JString i), (''content'', JString t)]"

section \<open>The size of a prompt\<close>

definition AUTO_COMPACTION_RATIO :: nat where
  "AUTO_COMPACTION_RATIO = 85"

definition estimate_prompt_text_tokens :: "string \<Rightarrow> nat" where
  "estimate_prompt_text_tokens text = (let t = trim text in if t = [] then 0 else max 1 ((length t + 3) div 4))"

definition estimate_message_tokens :: "(json \<Rightarrow> string) \<Rightarrow> chat_message \<Rightarrow> nat" where
  "estimate_message_tokens pp m = estimate_prompt_text_tokens (pp (to_openai_value pp m))"

definition estimate_prompt_tokens :: "(json \<Rightarrow> string) \<Rightarrow> chat_message list \<Rightarrow> nat" where
  "estimate_prompt_tokens pp ms = sum_list (map (estimate_message_tokens pp) ms)"

definition estimate_tool_schema_tokens :: "(json \<Rightarrow> string) \<Rightarrow> json list \<Rightarrow> nat" where
  "estimate_tool_schema_tokens pp schemas = sum_list (map (\<lambda>s. estimate_prompt_text_tokens (pp s)) schemas)"

record context_budget_metadata =
  context_window :: nat
  max_input_tokens :: nat
  max_output_tokens :: nat
  compaction_ratio :: nat
  prompt_tokens :: nat
  tool_schema_tokens :: nat
  available_input_tokens :: nat
  compaction_budget :: nat
  usage_percent :: nat
  compaction_required :: bool

definition evaluate_context_budget :: "(json \<Rightarrow> string) \<Rightarrow> chat_message list \<Rightarrow> json list \<Rightarrow> nat \<Rightarrow> nat \<Rightarrow> nat \<Rightarrow> context_budget_metadata" where
  "evaluate_context_budget pp ms schemas ctx max_in max_out =
     (let prompt = estimate_prompt_tokens pp ms; tools = estimate_tool_schema_tokens pp schemas;
          available = max_in - tools; budget = saturating_mul available AUTO_COMPACTION_RATIO div 100
      in \<lparr>context_window = ctx, max_input_tokens = max_in, max_output_tokens = max_out, compaction_ratio = AUTO_COMPACTION_RATIO,
          prompt_tokens = prompt, tool_schema_tokens = tools, available_input_tokens = available, compaction_budget = budget,
          usage_percent = (if budget = 0 then 0 else saturating_mul prompt 100 div budget), compaction_required = (budget \<le> prompt)\<rparr>)"

definition json_nat :: "nat \<Rightarrow> json" where
  "json_nat n = JNumber (PosInt n)"

definition budget_value :: "context_budget_metadata \<Rightarrow> json" where
  "budget_value b = JObject [(''contextWindow'', json_nat (context_window b)), (''maxInputTokens'', json_nat (max_input_tokens b)),
     (''maxOutputTokens'', json_nat (max_output_tokens b)), (''compactionRatio'', json_nat (compaction_ratio b)),
     (''promptTokens'', json_nat (prompt_tokens b)), (''toolSchemaTokens'', json_nat (tool_schema_tokens b)),
     (''availableInputTokens'', json_nat (available_input_tokens b)), (''compactionBudget'', json_nat (compaction_budget b)),
     (''usagePercent'', json_nat (usage_percent b)), (''compactionRequired'', JBool (compaction_required b))]"

section \<open>Limits, usage and results\<close>

record agent_loop_limits =
  max_tools_threshold :: nat
  automatic_checkpointing :: bool
  resume_from_history :: bool
  resume_after_checkpoint :: bool

definition should_trigger_automatic_checkpoint :: "agent_loop_limits \<Rightarrow> nat \<Rightarrow> context_budget_metadata \<Rightarrow> bool" where
  "should_trigger_automatic_checkpoint l iteration b \<longleftrightarrow>
     automatic_checkpointing l \<and> compaction_required b
     \<and> \<not> (resume_after_checkpoint l \<and> iteration = 1 \<and> prompt_tokens b < available_input_tokens b)"

definition saturating_add_u32 :: "u32 \<Rightarrow> u32 \<Rightarrow> u32" where
  "saturating_add_u32 a b = (if unat a + unat b < 2 ^ 32 then a + b else - 1)"

definition usage_saturating_add :: "usage \<Rightarrow> usage \<Rightarrow> usage" where
  "usage_saturating_add a b =
     \<lparr>input_tokens = saturating_add_u32 (input_tokens a) (input_tokens b), output_tokens = saturating_add_u32 (output_tokens a) (output_tokens b),
      cache_read_tokens = saturating_add_u32 (cache_read_tokens a) (cache_read_tokens b),
      cache_write_tokens = saturating_add_u32 (cache_write_tokens a) (cache_write_tokens b)\<rparr>"

record usage_accumulator =
  usage_total :: usage
  usage_request :: usage

definition accumulator_default :: usage_accumulator where
  "accumulator_default = \<lparr>usage_total = usage_zero, usage_request = usage_zero\<rparr>"

definition record_request :: "usage \<Rightarrow> usage_accumulator \<Rightarrow> usage_accumulator" where
  "record_request u a = \<lparr>usage_total = usage_saturating_add (usage_total a) u, usage_request = u\<rparr>"

record compaction_request =
  cr_metadata :: context_budget_metadata
  summary_messages :: "chat_message list"
  continuation_messages :: "chat_message list"
  tool_schemas :: "json list"
  cr_provider_calls :: nat
  completed_iterations :: nat
  cr_tool_calls_made :: nat
  cr_usage :: usage
  cr_raw_responses :: "json list"

text \<open>Errors of other layers are kept as they are; the sources print them into a message.\<close>

datatype payload_error = MissingMessages | InvalidMessages conversion_error | NoMessages

datatype agent_run_error =
    AgentCancelled
  | ContextCompactionRequired compaction_request
  | MaxToolsThresholdReached nat nat nat \<comment> \<open>threshold, used, requested\<close>
  | UpdateRejected materializer_error
  | PayloadRejected payload_error
  | OtherError string

definition split_context_for_compaction :: "chat_message list \<Rightarrow> nat \<Rightarrow> chat_message list \<times> chat_message list" where
  "split_context_for_compaction ms start = (if start \<le> 1 \<or> length ms \<le> start then (ms, []) else (take start ms, drop start ms))"

fun str_rfind :: "string \<Rightarrow> string \<Rightarrow> nat option" where
  "str_rfind p [] = (if p = [] then Some 0 else None)"
| "str_rfind p (c # s) = (case str_rfind p s of Some i \<Rightarrow> Some (i + 1) | None \<Rightarrow> if starts_with (c # s) p then Some 0 else None)"

text \<open>The floor of a compacted prompt: with the segment of the system prompt, and without it.\<close>

definition compacted_prompt_token_floor :: "(json \<Rightarrow> string) \<Rightarrow> compaction_request \<Rightarrow> string \<Rightarrow> (nat \<times> nat) option" where
  "compacted_prompt_token_floor pp r seg =
     (if seg = [] then None
      else case summary_messages r of
        [SystemMessage system, UserMessage (UserText checkpoint) None] \<Rightarrow>
          if starts_with checkpoint (''<conversation-summary>'' @ newline) \<and> ends_with checkpoint (newline @ ''</conversation-summary>'') then
            (case str_find seg system of
               None \<Rightarrow> None
             | Some i \<Rightarrow>
                 if str_rfind seg system \<noteq> Some i then None
                 else
                   (let fixed = saturating_add (estimate_message_tokens pp (UserMessage (UserText (''<conversation-summary>'' @ newline @ ''x'' @ newline @ ''</conversation-summary>'')) None))
                          (estimate_prompt_tokens pp (continuation_messages r))
                    in Some (saturating_add (estimate_message_tokens pp (SystemMessage system)) fixed,
                             saturating_add (estimate_message_tokens pp (SystemMessage (take i system @ drop (i + length seg) system))) fixed)))
          else None
      | _ \<Rightarrow> None)"

record tool_call_budget =
  budget_threshold :: nat
  budget_used :: nat

definition budget_new :: "nat \<Rightarrow> tool_call_budget" where
  "budget_new threshold = \<lparr>budget_threshold = threshold, budget_used = 0\<rparr>"

definition reserve_batch :: "nat \<Rightarrow> tool_call_budget \<Rightarrow> tool_call_budget \<times> (agent_run_error + unit)" where
  "reserve_batch requested b =
     (if 2 ^ 64 \<le> budget_used b + requested \<or> budget_threshold b < budget_used b + requested
      then (b, Inl (MaxToolsThresholdReached (budget_threshold b) (budget_used b) requested))
      else (b\<lparr>budget_used := budget_used b + requested\<rparr>, Inr ()))"

record assistant_output =
  output_text :: string
  output_reasoning :: "reasoning_content option"
  output_items :: "provider_output_item list"
  output_segment :: "string option"

fun reasoning_is_empty :: "reasoning_content \<Rightarrow> bool" where
  "reasoning_is_empty (RC_Text t) \<longleftrightarrow> t = []"
| "reasoning_is_empty (RC_Parts ps) \<longleftrightarrow> list_all (\<lambda>p. p = []) ps"

definition has_provider_output :: "assistant_output \<Rightarrow> bool" where
  "has_provider_output out \<longleftrightarrow> output_text out \<noteq> []
     \<or> (case output_reasoning out of Some r \<Rightarrow> \<not> reasoning_is_empty r | None \<Rightarrow> False) \<or> output_items out \<noteq> []"

datatype final_text_source = NewSegment | ToolCallSegment string

record agent_run_result =
  run_output :: assistant_output
  run_text_source :: final_text_source
  run_iterations :: nat
  run_tool_calls :: nat
  run_usage :: usage_accumulator
  run_raw_responses :: "json list"

definition finish_agent_run :: "(string \<Rightarrow> string) \<Rightarrow> assistant_output \<Rightarrow> final_text_source \<Rightarrow> nat \<Rightarrow> nat \<Rightarrow> usage_accumulator \<Rightarrow> json list \<Rightarrow> agent_run_result" where
  "finish_agent_run clean out source iterations used usage raws =
     \<lparr>run_output = out\<lparr>output_text := clean (output_text out)\<rparr>, run_text_source = source, run_iterations = iterations,
      run_tool_calls = used, run_usage = usage, run_raw_responses = raws\<rparr>"

section \<open>Answers\<close>

definition is_substantive_answer_text :: "string \<Rightarrow> bool" where
  "is_substantive_answer_text text \<longleftrightarrow> 40 \<le> count_chars (trim text)"

definition find_empty_tool_name_call :: "tool_call list \<Rightarrow> tool_call option" where
  "find_empty_tool_name_call cs = find (\<lambda>c. sanitize_tool_name (call_name c) = []) cs"

definition has_named_tool_call :: "tool_call list \<Rightarrow> bool" where
  "has_named_tool_call cs \<longleftrightarrow> list_ex (\<lambda>c. sanitize_tool_name (call_name c) \<noteq> []) cs"

definition MALFORMED_TOOL_RETRY_PROMPT :: string where
  "MALFORMED_TOOL_RETRY_PROMPT = ''Your tool call was malformed. Retry with exact format:'' @ newline @ ''```tool_call'' @ newline
     @ ''{'' @ quoted ''tool'' @ '': '' @ quoted ''name'' @ '', '' @ quoted ''arguments'' @ '': {...}}'' @ newline @ ''```''"

definition EMPTY_TOOL_NAME_RETRY_PROMPT :: string where
  "EMPTY_TOOL_NAME_RETRY_PROMPT = ''Your structured tool call had an empty tool name. Retry the same tool call using the intended tool'' @ [CHR 0x27]
     @ ''s exact name and the same arguments.''"

definition empty_tool_name_retry_prompt :: "(json \<Rightarrow> string) \<Rightarrow> tool_call \<Rightarrow> string" where
  "empty_tool_name_retry_prompt pp c = EMPTY_TOOL_NAME_RETRY_PROMPT @ newline @ ''Exact arguments JSON:'' @ newline @ pp (call_arguments c)"

definition AUTO_CONTINUE_NUDGE :: string where
  "AUTO_CONTINUE_NUDGE = ''Your previous response ended without tool calls and without a final answer. If there are still steps to run, ''
     @ ''continue executing them. Otherwise reply with exactly: done''"

record answer_text =
  last_text :: string
  last_call :: "string option"

definition record_answer_text :: "string option \<Rightarrow> tool_call list \<Rightarrow> answer_text \<Rightarrow> answer_text" where
  "record_answer_text text cs a = (case text of
     None \<Rightarrow> a
   | Some t \<Rightarrow> if t = [] then a else \<lparr>last_text = t, last_call = (case cs of [] \<Rightarrow> None | c # _ \<Rightarrow> Some (call_id c))\<rparr>)"

definition fallback_final_text_source :: "string option \<Rightarrow> final_text_source" where
  "fallback_final_text_source i = (case i of Some c \<Rightarrow> ToolCallSegment c | None \<Rightarrow> NewSegment)"

definition streaming_tool_call_message_content :: "string \<Rightarrow> answer_text \<Rightarrow> answer_text \<times> string option" where
  "streaming_tool_call_message_content text a =
     (if text = [] then (a\<lparr>last_call := None\<rparr>, None) else (\<lparr>last_text = text, last_call = None\<rparr>, Some text))"

definition apply_before_llm_call_modify_payload :: "history_env \<Rightarrow> json \<Rightarrow> payload_error + chat_message list" where
  "apply_before_llm_call_modify_payload env v =
     (case (case Option.bind (json_get v ''messages'') as_array of Some xs \<Rightarrow> Some xs | None \<Rightarrow> as_array v) of
        None \<Rightarrow> Inl MissingMessages
      | Some xs \<Rightarrow> (case provider_values_to_chat_messages env xs of
          Inl e \<Rightarrow> Inl (InvalidMessages e)
        | Inr [] \<Rightarrow> Inl NoMessages
        | Inr ms \<Rightarrow> Inr ms))"

section \<open>Intervention\<close>

definition right_arrow :: string where
  "right_arrow = [CHR 0xE2, CHR 0x86, CHR 0x92]"

definition format_intervention_message :: "(json \<Rightarrow> string) \<Rightarrow> fingerprint list \<Rightarrow> string" where
  "format_intervention_message pp rounds =
     ''SYSTEM INTERVENTION '' @ em_dash @ '' LOOP DETECTED'' @ newline @ newline @ ''Equivalent tool failures were repeated across ''
     @ show_nat (length rounds) @ '' distinct model rounds after earlier results were available:'' @ newline
     @ concat (map (\<lambda>(i, f). ''  Round '' @ show_nat (i + 1) @ '': '' @ Loop_Detector.tool_name f @ ''('' @ pp (Loop_Detector.arguments f) @ '') '' @ right_arrow
         @ '' error: '' @ (case error_text f of Some e \<Rightarrow> e | None \<Rightarrow> ''(no error)'') @ newline) (enumerate 0 rounds))
     @ newline @ ''These failures are equivalent because the tool and either its normalized arguments or its non-empty error match across rounds. ''
     @ ''The displayed arguments may differ. Repeating the same failed operation without changing the underlying approach is unlikely to help.''
     @ newline @ newline @ ''On your next turn:'' @ newline
     @ ''1. Do NOT call `'' @ (case rounds of [] \<Rightarrow> ''this tool'' | f # _ \<Rightarrow> Loop_Detector.tool_name f) @ ''` or any other tool.'' @ newline
     @ ''2. Do NOT repeat this failure pattern.'' @ newline @ ''3. Respond to the user in plain text.'' @ newline
     @ ''4. Explain what you were trying to accomplish.'' @ newline
     @ ''5. If you do not know what arguments to use, ask the user for clarification.'' @ newline
     @ newline @ ''The user is waiting for a text response.''"

definition format_strip_tools_message :: string where
  "format_strip_tools_message = ''SYSTEM INTERVENTION '' @ em_dash @ '' TOOLS DISABLED FOR THIS TURN'' @ newline @ newline
     @ ''You repeated an equivalent failed tool operation in another model round after receiving both the earlier result and a recovery directive. ''
     @ ''Tools are disabled for this single turn. Respond to the user in plain text: explain what you were trying to do, and ask for clarification if needed.''"

definition apply_loop_detector_intervention :: "(json \<Rightarrow> string) \<Rightarrow> loop_detector \<Rightarrow> loop_detector_action \<Rightarrow> chat_message list \<times> bool \<Rightarrow> chat_message list \<times> bool" where
  "apply_loop_detector_intervention pp d action = (\<lambda>(ms, strip). case action of
     NoAction \<Rightarrow> (ms, strip)
   | InjectNudge \<Rightarrow> (ms @ [UserMessage (UserText (format_intervention_message pp (window_snapshot d))) None], strip)
   | StripTools \<Rightarrow> (ms @ [UserMessage (UserText format_strip_tools_message) None], True))"

end
