(* ===== verification/Agent_Loop.thy ===== *)
theory Agent_Loop
  imports Turn_Context
begin

text \<open>
  The agent loop (\<open>run_agent_loop_streaming_with_limits\<close> in \<open>crates/agents/src/runner/streaming.rs\<close>):
  one iteration asks the provider, reads its stream, retries what failed, runs the tools the
  answer asks for and appends the results to the conversation. What the outside does in an
  iteration (the provider's events, when the token is cancelled, what the hooks, tools,
  operator and user answer) is an argument of it; the parsers of tool calls in text and the
  cleaning of the final text are parameters. Tools of a batch run at the same time; here one
  after the other, which differs only in the order of the events of different calls.
\<close>

section \<open>Inputs\<close>

datatype tool_mode = Native | TextMode | Off

datatype tool_choice = ChooseAuto | ChooseNone | ChooseAny | ChooseTool string

record loop_env =
  mode :: tool_mode
  max_auto_continues :: nat
  auto_continue_min_tool_calls :: nat
  detector_window :: nat
  detector_strips :: bool
  limits :: agent_loop_limits
  provider_name :: string
  provider_model :: string
  provider_window :: nat
  provider_max_input :: nat
  provider_max_output :: nat
  choice :: "tool_choice option"
  session :: string
  hash :: "string \<Rightarrow> u64"
  history :: history_env
  parse_tool_calls_from_text :: "string \<Rightarrow> tool_call list \<times> string option"
  looks_like_failed_tool_call :: "string \<Rightarrow> bool"
  recover_tool_calls_from_content :: "string \<Rightarrow> string \<times> tool_call list"
  clean_response :: "string \<Rightarrow> string"

record turn_input =
  cancelled :: bool
  schemas :: "string + json list"
  before_hook :: "hook_payload \<Rightarrow> (string + hook_action) option" \<comment> \<open>None: cancelled meanwhile\<close>
  stream :: "stream_event list"
  cancel_at :: "nat option" \<comment> \<open>the number of events read when the token is cancelled\<close>
  sleep_cancelled :: bool
  after_hook :: "hook_payload \<Rightarrow> (string + hook_action) option"
  clock_at :: "nat \<Rightarrow> string + nat"
  refuses :: "nat \<Rightarrow> string option" \<comment> \<open>the error of the n-th delivery of the iteration\<close>
  execution :: "nat \<Rightarrow> exec_env" \<comment> \<open>the surroundings of the n-th call of the batch\<close>
  steering :: "string list"

section \<open>State\<close>

record lifecycle_log =
  log_events :: "tool_lifecycle_event list"
  log_readings :: nat
  log_deliveries :: nat

record loop_state =
  conversation :: "chat_message list"
  continuation_start :: nat
  continuation_rounds :: nat
  iterations :: nat
  provider_calls :: nat
  budget :: tool_call_budget
  usage_of :: usage_accumulator
  retries :: retry_state
  raws :: "json list"
  answer :: answer_text
  malformed_retries :: nat
  empty_name_retries :: nat
  auto_continues :: nat
  detector :: loop_detector
  strip_tools :: bool
  events :: "tool_lifecycle_event list"
  store_of :: result_store
  requests :: "(chat_message list \<times> json list) list" \<comment> \<open>what the provider was asked\<close>

datatype turn_end = GoOn | Returned agent_run_result | Stopped agent_run_error

definition loop_start :: "loop_env \<Rightarrow> string \<Rightarrow> user_content \<Rightarrow> string option \<Rightarrow> chat_message list \<Rightarrow> result_store \<Rightarrow> loop_state" where
  "loop_start env system_prompt user sender hist files =
     (let ms = SystemMessage system_prompt # hist @ (if resume_from_history (limits env) then [] else [UserMessage user sender]);
          start = (if resume_from_history (limits env) then if 1 < length hist then 2 else length ms else 1 + length hist)
      in \<lparr>conversation = ms, continuation_start = start,
          continuation_rounds = length (filter (\<lambda>m. case m of AssistantMessage _ cs _ _ _ \<Rightarrow> cs \<noteq> [] | _ \<Rightarrow> False) (drop start ms)),
          iterations = 0, provider_calls = 0, budget = budget_new (max_tools_threshold (limits env)), usage_of = accumulator_default,
          retries = retry_start, raws = [], answer = \<lparr>last_text = [], last_call = None\<rparr>, malformed_retries = 0, empty_name_retries = 0,
          auto_continues = 0, detector = detector_new (detector_window env) (detector_strips env), strip_tools = False,
          events = [], store_of = files, requests = []\<rparr>)"

section \<open>Events of the tool calls of a stream\<close>

definition emit_stream_tool_lifecycle :: "turn_input \<Rightarrow> context_budget_metadata \<Rightarrow> string \<Rightarrow> string \<Rightarrow> nat \<Rightarrow> tool_lifecycle_update \<Rightarrow> lifecycle_log
    \<Rightarrow> lifecycle_log \<times> (agent_run_error + nat)" where
  "emit_stream_tool_lifecycle inp b i n sequence up log = (case clock_at inp (log_readings log) of
     Inl e \<Rightarrow> (log\<lparr>log_readings := log_readings log + 1\<rparr>, Inl (OtherError e))
   | Inr now \<Rightarrow>
       (let log1 = log\<lparr>log_readings := log_readings log + 1, log_deliveries := log_deliveries log + 1\<rparr> in
        case refuses inp (log_deliveries log) of
          Some e \<Rightarrow> (log1, Inl (OtherError e))
        | None \<Rightarrow> (log1\<lparr>log_events := log_events log @ [\<lparr>lc_call_id = i, lc_tool_name = n, lc_sequence = sequence, emitted_at_ms = now, lc_run_id = None,
              context_budget = (if is_terminal (Tool_Lifecycle.stage up) then Some (budget_value b) else None), lc_update = up\<rparr>]\<rparr>,
            Inr (saturating_add sequence 1))))"

fun cancel_stream_tool_lifecycles :: "turn_input \<Rightarrow> context_budget_metadata \<Rightarrow> (string \<times> string) list \<Rightarrow> (string \<Rightarrow> nat option) \<Rightarrow> string \<Rightarrow> lifecycle_log
    \<Rightarrow> lifecycle_log \<times> (agent_run_error + (string \<Rightarrow> nat option))" where
  "cancel_stream_tool_lifecycles inp b [] seqs reason log = (log, Inr seqs)"
| "cancel_stream_tool_lifecycles inp b ((i, n) # cs) seqs reason log = (case seqs i of
     None \<Rightarrow> cancel_stream_tool_lifecycles inp b cs seqs reason log
   | Some sequence \<Rightarrow>
       (case emit_stream_tool_lifecycle inp b i n sequence (LcCancelled None reason) log of
          (log1, Inl e) \<Rightarrow> (log1, Inl e)
        | (log1, Inr next) \<Rightarrow> cancel_stream_tool_lifecycles inp b cs (seqs(i \<mapsto> next)) reason log1))"

section \<open>Reading the stream\<close>

record reading =
  attempt_of :: attempt
  sequences :: "string \<Rightarrow> nat option"
  log :: lifecycle_log

definition reading_start :: "loop_state \<Rightarrow> reading" where
  "reading_start st = \<lparr>attempt_of = attempt_start (raws st), sequences = Map.empty, log = \<lparr>log_events = [], log_readings = 0, log_deliveries = 0\<rparr>\<rparr>"

fun stream_step :: "turn_input \<Rightarrow> context_budget_metadata \<Rightarrow> stream_event \<Rightarrow> reading \<Rightarrow> reading \<times> (agent_run_error + unit)" where
  "stream_step inp b (ToolCallStart i n idx) rd =
     (case emit_stream_tool_lifecycle inp b i n 0 (LcCreated (Some idx)) (log rd) of
        (log1, Inl e) \<Rightarrow> (rd\<lparr>log := log1\<rparr>, Inl e)
      | (log1, Inr next) \<Rightarrow>
          (case consume_event (attempt_of rd) (ToolCallStart i n idx) of
             Inl e \<Rightarrow> (rd\<lparr>log := log1\<rparr>, Inl (UpdateRejected e))
           | Inr a \<Rightarrow> (rd\<lparr>log := log1, sequences := (sequences rd)(i \<mapsto> next), attempt_of := a\<rparr>, Inr ())))"
| "stream_step inp b ev rd = (case consume_event (attempt_of rd) ev of
     Inl e \<Rightarrow> (rd, Inl (UpdateRejected e))
   | Inr a \<Rightarrow>
       (let rd1 = rd\<lparr>attempt_of := a\<rparr> in
        case ev of
          ToolCallArgumentsDelta idx delta \<Rightarrow>
            (case (map_of (tool_call_args a) idx, stream_idx_to_vec_pos a idx) of
               (Some _, Some pos) \<Rightarrow>
                 if pos < length (att_tool_calls a) then
                   (let (i, n) = att_tool_calls a ! pos in
                    case sequences rd i of
                      None \<Rightarrow> (rd1, Inr ())
                    | Some sequence \<Rightarrow>
                        (case emit_stream_tool_lifecycle inp b i n sequence (LcInputStreaming delta) (log rd) of
                           (log1, Inl e) \<Rightarrow> (rd1\<lparr>log := log1\<rparr>, Inl e)
                         | (log1, Inr next) \<Rightarrow> (rd1\<lparr>log := log1, sequences := (sequences rd)(i \<mapsto> next)\<rparr>, Inr ())))
                 else (rd1, Inr ())
             | _ \<Rightarrow> (rd1, Inr ()))
        | _ \<Rightarrow> (rd1, Inr ())))"

text \<open>How reading ends: the stream, an error event, the token, or an error of the run.\<close>

datatype read_end = ReadAll | ReadCancelled | ReadFailed agent_run_error

fun read_stream :: "turn_input \<Rightarrow> context_budget_metadata \<Rightarrow> nat option \<Rightarrow> stream_event list \<Rightarrow> reading \<Rightarrow> reading \<times> read_end" where
  "read_stream inp b (Some 0) evs rd = (rd, ReadCancelled)"
| "read_stream inp b left [] rd = (rd, ReadAll)"
| "read_stream inp b left (ev # evs) rd =
     (case stream_step inp b ev rd of
        (rd1, Inl e) \<Rightarrow> (rd1, ReadFailed e)
      | (rd1, Inr _) \<Rightarrow>
          if stream_error (attempt_of rd1) \<noteq> None then (rd1, ReadAll)
          else read_stream inp b (map_option (\<lambda>n. n - 1) left) evs rd1)"

section \<open>Before the request\<close>

definition choose_schemas :: "loop_env \<Rightarrow> turn_input \<Rightarrow> bool \<Rightarrow> agent_run_error + json list" where
  "choose_schemas env inp strip =
     (if mode env = Native \<and> \<not> strip then
        (case schemas inp of
           Inl e \<Rightarrow> Inl (OtherError e)
         | Inr ss \<Rightarrow> (case choice env of
             Some ChooseNone \<Rightarrow> Inr []
           | Some ChooseAny \<Rightarrow> if ss = [] then Inl (OtherError ''tool_choice any requires at least one active tool'') else Inr ss
           | Some (ChooseTool n) \<Rightarrow>
               if list_ex (\<lambda>s. Option.bind (json_get s ''name'') as_str = Some n) ss then Inr ss
               else Inl (OtherError (''forced tool_choice references unavailable tool: '' @ n))
           | _ \<Rightarrow> Inr ss))
      else Inr [])"

abbreviation printer :: "loop_env \<Rightarrow> json \<Rightarrow> string" where
  "printer env \<equiv> print_json (history env)"

definition before_llm_call :: "loop_env \<Rightarrow> turn_input \<Rightarrow> json list \<Rightarrow> loop_state \<Rightarrow> agent_run_error + chat_message list" where
  "before_llm_call env inp ss st =
     (case before_hook inp (BeforeLLMCallP (session env) (provider_name env) (provider_model env)
        (JArray (map (to_openai_value (printer env)) (conversation st))) (length ss) (iterations st)) of
        None \<Rightarrow> Inl AgentCancelled
      | Some (Inr (Block reason)) \<Rightarrow> Inl (OtherError (''blocked by BeforeLLMCall hook: '' @ reason))
      | Some (Inr (ModifyPayload v)) \<Rightarrow>
          (case apply_before_llm_call_modify_payload (history env) v of Inl e \<Rightarrow> Inl (PayloadRejected e) | Inr ms \<Rightarrow> Inr ms)
      | Some _ \<Rightarrow> Inr (conversation st))"

definition open_turn :: "loop_env \<Rightarrow> turn_input \<Rightarrow> loop_state \<Rightarrow> loop_state \<times> (agent_run_error + json list \<times> context_budget_metadata)" where
  "open_turn env inp st0 =
     (if cancelled inp then (st0, Inl AgentCancelled)
      else
        (let st1 = st0\<lparr>iterations := iterations st0 + 1\<rparr> in
         case choose_schemas env inp (strip_tools st1) of
           Inl e \<Rightarrow> (st1, Inl e)
         | Inr ss \<Rightarrow>
             (let st2 = (if strip_tools st1 then st1\<lparr>strip_tools := False, detector := clear_strip_tools (detector st1)\<rparr> else st1) in
              case before_llm_call env inp ss st2 of
                Inl e \<Rightarrow> (st2, Inl e)
              | Inr ms \<Rightarrow>
                  (let st3 = st2\<lparr>conversation := ms\<rparr>;
                       b = evaluate_context_budget (printer env) ms ss (provider_window env) (provider_max_input env) (provider_max_output env)
                   in if should_trigger_automatic_checkpoint (limits env) (iterations st3) b then
                        (let (before, after) = split_context_for_compaction ms (continuation_start st3) in
                         (st3, Inl (ContextCompactionRequired \<lparr>cr_metadata = b, summary_messages = before, continuation_messages = after,
                            tool_schemas = ss, cr_provider_calls = provider_calls st3, completed_iterations = iterations st3 - 1,
                            cr_tool_calls_made = budget_used (budget st3), cr_usage = usage_total (usage_of st3), cr_raw_responses = raws st3\<rparr>)))
                      else (st3\<lparr>provider_calls := saturating_add (provider_calls st3) 1, requests := requests st3 @ [(ms, ss)]\<rparr>, Inr (ss, b))))))"

section \<open>After a failed attempt\<close>

definition failed_attempt_message :: "materializer \<Rightarrow> chat_message option" where
  "failed_attempt_message m = (if items (segment m) = [] then None
     else Some (AssistantMessage (message_text (segment m)) [] (segment_reasoning_content (segment m)) (items (segment m)) (segment_id (segment m))))"

definition cancel_calls :: "turn_input \<Rightarrow> context_budget_metadata \<Rightarrow> (string \<times> string) list \<Rightarrow> string \<Rightarrow> reading \<Rightarrow> reading \<times> (agent_run_error + unit)" where
  "cancel_calls inp b cs reason rd = (case cancel_stream_tool_lifecycles inp b cs (sequences rd) reason (log rd) of
     (log1, Inl e) \<Rightarrow> (rd\<lparr>log := log1\<rparr>, Inl e)
   | (log1, Inr seqs) \<Rightarrow> (rd\<lparr>log := log1, sequences := seqs\<rparr>, Inr ()))"

definition kept :: "reading \<Rightarrow> loop_state \<Rightarrow> loop_state" where
  "kept rd st = st\<lparr>raws := raw_llm_responses (attempt_of rd), events := events st @ log_events (log rd)\<rparr>"

text \<open>Calls are cancelled for a reason and the iteration ends as given.\<close>

definition cancelling :: "turn_input \<Rightarrow> context_budget_metadata \<Rightarrow> (string \<times> string) list \<Rightarrow> string \<Rightarrow> reading \<Rightarrow> loop_state \<Rightarrow> turn_end \<Rightarrow> loop_state \<times> turn_end" where
  "cancelling inp b cs reason rd st result = (case cancel_calls inp b cs reason rd of
     (rd1, Inl e) \<Rightarrow> (kept rd1 st, Stopped e)
   | (rd1, Inr _) \<Rightarrow> (kept rd1 st, result))"

definition cancelled_turn :: "turn_input \<Rightarrow> context_budget_metadata \<Rightarrow> reading \<Rightarrow> loop_state \<Rightarrow> loop_state \<times> turn_end" where
  "cancelled_turn inp b rd st =
     cancelling inp b (att_tool_calls (attempt_of rd)) AGENT_RUN_CANCELLED_REASON rd st
       (case close_active_segment (att_materializer (attempt_of rd)) provider_segment_outcome.Cancelled of
          (_, Inl e) \<Rightarrow> Stopped (UpdateRejected e) | (_, Inr _) \<Rightarrow> Stopped AgentCancelled)"

definition failed_turn :: "turn_input \<Rightarrow> context_budget_metadata \<Rightarrow> string \<Rightarrow> reading \<Rightarrow> loop_state \<Rightarrow> loop_state \<times> turn_end" where
  "failed_turn inp b err rd st =
     (let (retries1, delay) = next_retry_delay_ms err (retries st);
          st1 = st\<lparr>retries := retries1\<rparr>;
          reason = ''provider stream failed: '' @ err;
          cs = att_tool_calls (attempt_of rd)
      in case close_active_segment (att_materializer (attempt_of rd)) TransportError of
           (_, Inl e) \<Rightarrow> cancelling inp b cs reason rd st1 (Stopped (UpdateRejected e))
         | (m, Inr _) \<Rightarrow>
             (case delay of
                None \<Rightarrow> cancelling inp b cs reason rd st1 (Stopped (OtherError err))
              | Some _ \<Rightarrow>
                  cancelling inp b cs reason rd
                    (st1\<lparr>iterations := iterations st1 - 1,
                       conversation := (case failed_attempt_message m of
                          None \<Rightarrow> conversation st1
                        | Some msg \<Rightarrow> ensure_tool_call_results_present (conversation st1 @ [msg]))\<rparr>)
                    (if sleep_cancelled inp then Stopped AgentCancelled else GoOn)))"

section \<open>The calls of an answer\<close>

definition finalize_call :: "history_env \<Rightarrow> attempt \<Rightarrow> nat \<Rightarrow> tool_call list \<Rightarrow> tool_call list" where
  "finalize_call env a idx cs = (case call_argument_text a idx of
     None \<Rightarrow> cs
   | Some (pos, text) \<Rightarrow>
       (let d = decode_tool_call_arguments_from_str env text in
        cs[pos := (cs ! pos)\<lparr>call_arguments := decoded_json d, argument_diagnostic := decoded_diagnostic d\<rparr>]))"

definition finalize_calls :: "history_env \<Rightarrow> attempt \<Rightarrow> tool_call list" where
  "finalize_calls env a = fold (finalize_call env a) (map fst (tool_call_args a))
     (map (\<lambda>(i, n). \<lparr>call_id = i, call_name = n, call_arguments = JObject [], argument_diagnostic = None\<rparr>) (att_tool_calls a))"

definition parse_text :: "loop_env \<Rightarrow> string \<times> tool_call list \<Rightarrow> string \<times> tool_call list" where
  "parse_text env x = (case x of (text, cs) \<Rightarrow>
     if mode env = TextMode \<and> cs = [] \<and> text \<noteq> [] then
       (case parse_tool_calls_from_text env text of (parsed, remaining) \<Rightarrow>
          if parsed \<noteq> [] then ((case remaining of Some t \<Rightarrow> t | None \<Rightarrow> []), parsed) else x)
     else x)"

definition recover_text :: "loop_env \<Rightarrow> string \<times> tool_call list \<Rightarrow> string \<times> tool_call list" where
  "recover_text env x = (case x of (text, cs) \<Rightarrow>
     if mode env = TextMode \<and> cs = [] \<and> text \<noteq> [] then
       (case recover_tool_calls_from_content env text of (cleaned, recovered) \<Rightarrow> if recovered \<noteq> [] then (cleaned, recovered) else x)
     else x)"

definition non_empty :: "string \<Rightarrow> string option" where
  "non_empty text = (if text = [] then None else Some text)"

definition answer_message :: "string option \<Rightarrow> tool_call list \<Rightarrow> materializer \<Rightarrow> chat_message" where
  "answer_message text cs m = AssistantMessage text cs (segment_reasoning_content (segment m)) (items (segment m)) (segment_id (segment m))"

definition ids_and_names :: "tool_call list \<Rightarrow> (string \<times> string) list" where
  "ids_and_names cs = map (\<lambda>c. (call_id c, call_name c)) cs"

definition error_text_of :: "agent_run_error \<Rightarrow> string" where
  "error_text_of e = (case e of
     MaxToolsThresholdReached t u r \<Rightarrow> ''max tools threshold reached (threshold='' @ show_nat t @ '', used='' @ show_nat u @ '', requested='' @ show_nat r @ '')''
   | OtherError m \<Rightarrow> m
   | AgentCancelled \<Rightarrow> ''agent run cancelled''
   | _ \<Rightarrow> ''automatic context compaction required'')"

section \<open>The end of a run\<close>

definition final_turn :: "loop_env \<Rightarrow> string \<Rightarrow> materializer \<Rightarrow> loop_state \<Rightarrow> loop_state \<times> turn_end" where
  "final_turn env text m st =
     (let reasoning = segment_reasoning_content (segment m); its = items (segment m); used = budget_used (budget st) in
      if \<not> is_substantive_answer_text text
         \<and> \<not> ((case reasoning of Some r \<Rightarrow> \<not> reasoning_is_empty r | None \<Rightarrow> False) \<or> its \<noteq> [])
         \<and> 0 < used \<and> auto_continue_min_tool_calls env \<le> used \<and> auto_continues st < max_auto_continues env
      then (st\<lparr>auto_continues := auto_continues st + 1,
              conversation := conversation st
                @ (if text \<noteq> [] \<or> reasoning \<noteq> None \<or> its \<noteq> [] then [answer_message (non_empty text) [] m] else [])
                @ [UserMessage (UserText AUTO_CONTINUE_NUDGE) None]\<rparr>, GoOn)
      else
        (let out = \<lparr>output_text = text, output_reasoning = reasoning, output_items = its, output_segment = segment_id (segment m)\<rparr>;
             fallback = (\<not> has_provider_output out \<and> last_text (answer st) \<noteq> []);
             final = (if fallback then \<lparr>output_text = last_text (answer st), output_reasoning = None, output_items = [], output_segment = None\<rparr> else out)
         in (st, Returned (finish_agent_run (clean_response env) final
               (if fallback then fallback_final_text_source (last_call (answer st)) else NewSegment)
               (iterations st) used (usage_of st) (raws st)))))"

section \<open>Running the tools of an answer\<close>

fun publish_calls :: "turn_input \<Rightarrow> context_budget_metadata \<Rightarrow> tool_call list \<Rightarrow> (string \<Rightarrow> nat option) \<Rightarrow> lifecycle_log
    \<Rightarrow> lifecycle_log \<times> (agent_run_error + (string \<Rightarrow> nat option))" where
  "publish_calls inp b [] seqs l = (l, Inr seqs)"
| "publish_calls inp b (c # cs) seqs l =
     (case (case seqs (call_id c) of
              Some n \<Rightarrow> (l, Inr n)
            | None \<Rightarrow> emit_stream_tool_lifecycle inp b (call_id c) (call_name c) 0 (LcCreated None) l) of
        (l1, Inl e) \<Rightarrow> (l1, Inl e)
      | (l1, Inr n) \<Rightarrow>
          (case emit_stream_tool_lifecycle inp b (call_id c) (call_name c) n (LcInputReady (call_arguments c)) l1 of
             (l2, Inl e) \<Rightarrow> (l2, Inl e)
           | (l2, Inr n') \<Rightarrow> publish_calls inp b cs (seqs(call_id c \<mapsto> n')) l2))"

definition surroundings :: "loop_env \<Rightarrow> turn_input \<Rightarrow> context_budget_metadata \<Rightarrow> nat \<Rightarrow> exec_env" where
  "surroundings env inp b k = (execution inp k)\<lparr>ex_session := session env, tools_disabled := (choice env = Some ChooseNone), budget_metadata := budget_value b\<rparr>"

fun run_error_of :: "stop \<Rightarrow> agent_run_error" where
  "run_error_of (Stop (RunFailed e)) = OtherError e"
| "run_error_of _ = AgentCancelled"

text \<open>The events and the results of the calls of a batch.\<close>

fun run_calls :: "loop_env \<Rightarrow> turn_input \<Rightarrow> context_budget_metadata \<Rightarrow> nat \<Rightarrow> (tool_call \<times> nat) list \<Rightarrow> result_store
    \<Rightarrow> result_store \<times> tool_lifecycle_event list \<times> (stop + tool_outcome) list" where
  "run_calls env inp b k [] files = (files, [], [])"
| "run_calls env inp b k ((c, sequence) # cs) files =
     (case execute_call (surroundings env inp b k) c sequence files of
        (s, r) \<Rightarrow> (case run_calls env inp b (k + 1) cs (result_files_of s) of
          (files1, evs, rs) \<Rightarrow> (files1, map fst (delivered s) @ evs, r # rs)))"

fun collect_results :: "(stop + tool_outcome) list \<Rightarrow> agent_run_error + tool_outcome list" where
  "collect_results [] = Inr []"
| "collect_results (Inl e # rs) = Inl (run_error_of e)"
| "collect_results (Inr x # rs) = (case collect_results rs of Inl e \<Rightarrow> Inl e | Inr xs \<Rightarrow> Inr (x # xs))"

definition fingerprint_of :: "loop_env \<Rightarrow> tool_call \<times> tool_outcome \<Rightarrow> fingerprint" where
  "fingerprint_of env x = (case x of (c, out) \<Rightarrow>
     if out_success out then fp_success (hash env) (call_name c) (call_arguments c)
     else fp_failure (hash env) (call_name c) (call_arguments c) (out_error out))"

definition steering_note :: "string list \<Rightarrow> chat_message list" where
  "steering_note texts = (if texts = [] then []
     else [SystemMessage (''[Steering note from the user '' @ em_dash @ '' adjust your approach accordingly]: '' @ join newline texts)])"

definition record_batch :: "loop_env \<Rightarrow> turn_input \<Rightarrow> (tool_call \<times> tool_outcome) list \<Rightarrow> loop_state \<Rightarrow> loop_state" where
  "record_batch env inp outs st =
     (let ms = conversation st @ map (\<lambda>(c, out). ToolMessage (call_id c) (out_result out)) outs;
          (d, action) = record_round (if is_enabled (detector st) then map (fingerprint_of env) outs else []) (detector st);
          (ms1, strip) = apply_loop_detector_intervention (printer env) d action (ms, strip_tools st)
      in st\<lparr>detector := d, strip_tools := strip, conversation := ms1 @ steering_note (steering inp)\<rparr>)"

definition with_calls :: "string \<Rightarrow> tool_call list \<Rightarrow> materializer \<Rightarrow> loop_state \<Rightarrow> loop_state" where
  "with_calls text cs m st =
     st\<lparr>answer := record_answer_text (non_empty text) cs (answer st),
       continuation_start := (if 0 < continuation_rounds st then length (conversation st) else continuation_start st),
       continuation_rounds := continuation_rounds st + 1,
       conversation := conversation st @ [answer_message (non_empty text) cs m]\<rparr>"

definition tools_turn :: "loop_env \<Rightarrow> turn_input \<Rightarrow> context_budget_metadata \<Rightarrow> string \<Rightarrow> tool_call list \<Rightarrow> materializer \<Rightarrow> reading \<Rightarrow> loop_state \<Rightarrow> loop_state \<times> turn_end" where
  "tools_turn env inp b text cs m rd st =
     (let st1 = with_calls text cs m st
      in case publish_calls inp b cs (sequences rd) (log rd) of
           (l, Inl e) \<Rightarrow> (kept (rd\<lparr>log := l\<rparr>) st1, Stopped e)
         | (l, Inr seqs) \<Rightarrow>
             (let st2 = kept (rd\<lparr>log := l\<rparr>) st1 in
              case find (\<lambda>c. seqs (call_id c) = None) cs of
                Some c \<Rightarrow> (st2, Stopped (OtherError (''tool lifecycle sequence missing for call '' @ call_id c)))
              | None \<Rightarrow>
                  (case run_calls env inp b 0 (map (\<lambda>c. (c, the (seqs (call_id c)))) cs) (store_of st2) of
                     (files, evs, rs) \<Rightarrow>
                       (let st3 = st2\<lparr>store_of := files, events := events st2 @ evs\<rparr> in
                        case collect_results rs of
                          Inl e \<Rightarrow> (st3, Stopped e)
                        | Inr outs \<Rightarrow> (record_batch env inp (zip cs outs) st3, GoOn)))))"

section \<open>One iteration\<close>

definition after_llm_call :: "loop_env \<Rightarrow> turn_input \<Rightarrow> string \<Rightarrow> tool_call list \<Rightarrow> usage \<Rightarrow> nat \<Rightarrow> agent_run_error option" where
  "after_llm_call env inp text cs u iteration =
     (case after_hook inp (AfterLLMCallP (session env) (provider_name env) (provider_model env) (non_empty text)
         (map (\<lambda>c. JObject [(''id'', JString (call_id c)), (''name'', JString (call_name c)), (''arguments'', call_arguments c)]) cs)
         (input_tokens u) (output_tokens u) iteration) of
        None \<Rightarrow> Some AgentCancelled
      | Some (Inr (Block reason)) \<Rightarrow> Some (OtherError (''blocked by AfterLLMCall hook: '' @ reason))
      | Some _ \<Rightarrow> None)"

definition reserved_turn :: "loop_env \<Rightarrow> turn_input \<Rightarrow> context_budget_metadata \<Rightarrow> string \<Rightarrow> tool_call list \<Rightarrow> materializer \<Rightarrow> reading \<Rightarrow> loop_state \<Rightarrow> loop_state \<times> turn_end" where
  "reserved_turn env inp b text cs m rd st =
     (case (if has_named_tool_call cs \<or> empty_name_retries st \<noteq> 0 then None else find_empty_tool_name_call cs) of
        Some c \<Rightarrow>
          (let (answer1, retry_text) = streaming_tool_call_message_content text (answer st) in
           cancelling inp b (ids_and_names cs) ''structured tool call has an empty tool name; requesting provider retry'' rd
             (st\<lparr>empty_name_retries := empty_name_retries st + 1, answer := answer1,
                conversation := conversation st @ [answer_message (Some (case retry_text of Some t \<Rightarrow> t | None \<Rightarrow> [])) [] m,
                  UserMessage (UserText (empty_tool_name_retry_prompt (printer env) c)) None]\<rparr>) GoOn)
      | None \<Rightarrow>
          (case after_llm_call env inp text cs (request_usage (attempt_of rd)) (iterations st) of
             Some e \<Rightarrow> cancelling inp b (ids_and_names cs) (if e = AgentCancelled then AGENT_RUN_CANCELLED_REASON else error_text_of e) rd st (Stopped e)
           | None \<Rightarrow>
               if cs = [] then final_turn env text m (kept rd st)
               else tools_turn env inp b text cs m rd st))"

definition calls_turn :: "loop_env \<Rightarrow> turn_input \<Rightarrow> context_budget_metadata \<Rightarrow> string \<Rightarrow> tool_call list \<Rightarrow> materializer \<Rightarrow> reading \<Rightarrow> loop_state \<Rightarrow> loop_state \<times> turn_end" where
  "calls_turn env inp b text cs m rd st =
     (case reserve_batch (length cs) (budget st) of
        (_, Inl e) \<Rightarrow> cancelling inp b (ids_and_names cs) (error_text_of e) rd st (Stopped e)
      | (budget1, Inr _) \<Rightarrow> reserved_turn env inp b text cs m rd (st\<lparr>budget := budget1\<rparr>))"

definition answered_turn :: "loop_env \<Rightarrow> turn_input \<Rightarrow> context_budget_metadata \<Rightarrow> reading \<Rightarrow> loop_state \<Rightarrow> loop_state \<times> turn_end" where
  "answered_turn env inp b rd st =
     (let a = attempt_of rd in
      case close_active_segment (att_materializer a) Completed of
        (_, Inl e) \<Rightarrow> (kept rd st, Stopped (UpdateRejected e))
      | (m, Inr _) \<Rightarrow>
          (let st1 = st\<lparr>retries := (retries st)\<lparr>server_retries_remaining := SERVER_MAX_RETRIES, unknown_retries_remaining := UNKNOWN_MAX_RETRIES\<rparr>,
                 usage_of := record_request (request_usage a) (usage_of st)\<rparr>;
               (text, cs) = parse_text env (accumulated_text a, finalize_calls (history env) a)
           in if mode env = TextMode \<and> cs = [] \<and> looks_like_failed_tool_call env text \<and> malformed_retries st1 = 0
              then (kept rd (st1\<lparr>malformed_retries := malformed_retries st1 + 1,
                      conversation := conversation st1 @ [answer_message (Some text) [] m, UserMessage (UserText MALFORMED_TOOL_RETRY_PROMPT) None]\<rparr>), GoOn)
              else (let (text1, cs1) = recover_text env (text, cs) in calls_turn env inp b text1 cs1 m rd st1)))"

definition turn :: "loop_env \<Rightarrow> turn_input \<Rightarrow> loop_state \<Rightarrow> loop_state \<times> turn_end" where
  "turn env inp st = (case open_turn env inp st of
     (st1, Inl e) \<Rightarrow> (st1, Stopped e)
   | (st1, Inr (ss, b)) \<Rightarrow>
       (case read_stream inp b (cancel_at inp) (stream inp) (reading_start st1) of
          (rd, ReadFailed e) \<Rightarrow> (kept rd st1, Stopped e)
        | (rd, ReadCancelled) \<Rightarrow> cancelled_turn inp b rd st1
        | (rd, ReadAll) \<Rightarrow> (case attempt_error (budget_used (budget st1)) (attempt_of rd) of
            Some err \<Rightarrow> failed_turn inp b err rd st1
          | None \<Rightarrow> answered_turn env inp b rd st1)))"

fun run_turns :: "loop_env \<Rightarrow> turn_input list \<Rightarrow> loop_state \<Rightarrow> loop_state \<times> turn_end" where
  "run_turns env [] st = (st, GoOn)"
| "run_turns env (inp # inps) st = (case turn env inp st of (st1, GoOn) \<Rightarrow> run_turns env inps st1 | out \<Rightarrow> out)"

definition run_agent_loop :: "loop_env \<Rightarrow> (hook_payload \<Rightarrow> (string + hook_action) option) \<Rightarrow> turn_input list \<Rightarrow> loop_state \<Rightarrow> loop_state \<times> turn_end" where
  "run_agent_loop env start_hook inps st = (case start_hook (BeforeAgentStartP (session env) (provider_model env)) of
     None \<Rightarrow> (st, Stopped AgentCancelled)
   | Some (Inr (Block reason)) \<Rightarrow> (st, Stopped (OtherError (''blocked by BeforeAgentStart hook: '' @ reason)))
   | Some _ \<Rightarrow> run_turns env inps st)"

end
