(* ===== verification/Loop_Progress.thy ===== *)
theory Loop_Progress
  imports Agent_Loop
begin

text \<open>
  The agent loop of \<open>Agent_Loop\<close> ends, within its budget of tool calls, whatever the
  provider, the tools and the hooks do.
\<close>

section \<open>Retries\<close>

definition retries_ok :: "retry_state \<Rightarrow> bool" where
  "retries_ok r \<longleftrightarrow> unat (server_retries_remaining r) \<le> 1 \<and> unat (rate_limit_retries_remaining r) \<le> 10 \<and> unat (unknown_retries_remaining r) \<le> 1"

lemma retries_ok_left: "retries_ok r \<Longrightarrow> retries_left r \<le> 12"
  by (simp add: retries_ok_def retries_left_def)

lemma retries_ok_start: "retries_ok retry_start"
  by (simp add: retries_ok_def retry_start_def retry_consts)

lemma retries_ok_reset:
  "retries_ok r \<Longrightarrow> retries_ok (r\<lparr>server_retries_remaining := SERVER_MAX_RETRIES, unknown_retries_remaining := UNKNOWN_MAX_RETRIES\<rparr>)"
  by (simp add: retries_ok_def retry_consts)

lemma retries_ok_next: "retries_ok r \<Longrightarrow> next_retry_delay_ms msg r = (r', d) \<Longrightarrow> retries_ok r'"
  using unat_dec [of "server_retries_remaining r"] unat_dec [of "rate_limit_retries_remaining r"] unat_dec [of "unknown_retries_remaining r"]
  by (auto simp: next_retry_delay_ms_def retries_ok_def Let_def split: if_splits)

section \<open>What an iteration uses up\<close>

definition steps_left :: "loop_env \<Rightarrow> loop_state \<Rightarrow> nat" where
  "steps_left env st = (budget_threshold (budget st) - budget_used (budget st)) + (1 - malformed_retries st) + (1 - empty_name_retries st)
     + (max_auto_continues env - auto_continues st)"

definition budget_ok :: "loop_state \<Rightarrow> bool" where
  "budget_ok st \<longleftrightarrow> budget_used (budget st) \<le> budget_threshold (budget st) \<and> retries_ok (retries st)"

definition same_counters :: "loop_state \<Rightarrow> loop_state \<Rightarrow> bool" where
  "same_counters st st' \<longleftrightarrow> budget st' = budget st \<and> malformed_retries st' = malformed_retries st \<and> empty_name_retries st' = empty_name_retries st
     \<and> auto_continues st' = auto_continues st"

definition moves_on :: "loop_env \<Rightarrow> loop_state \<Rightarrow> loop_state \<Rightarrow> bool" where
  "moves_on env st st' \<longleftrightarrow> budget_threshold (budget st') = budget_threshold (budget st) \<and> budget_ok st'
     \<and> (steps_left env st' < steps_left env st \<or> steps_left env st' = steps_left env st \<and> retries_left (retries st') < retries_left (retries st))"

lemma kept_counters [simp]:
  "budget (kept rd st) = budget st" "retries (kept rd st) = retries st" "malformed_retries (kept rd st) = malformed_retries st"
  "empty_name_retries (kept rd st) = empty_name_retries st" "auto_continues (kept rd st) = auto_continues st"
  by (simp_all add: kept_def)

lemma steps_left_kept [simp]: "steps_left env (kept rd st) = steps_left env st"
  by (simp add: steps_left_def)

lemma moves_on_kept [simp]: "moves_on env st (kept rd st') = moves_on env st st'"
  by (simp add: moves_on_def budget_ok_def)

lemma cancelling_cases:
  obtains rd1 where "cancelling inp b cs reason rd st r = (kept rd1 st, r)"
  | rd1 e where "cancelling inp b cs reason rd st r = (kept rd1 st, Stopped e)"
  by (cases "cancel_calls inp b cs reason rd"; cases "snd (cancel_calls inp b cs reason rd)") (auto simp: cancelling_def)

lemma cancelling_go_on: "cancelling inp b cs reason rd st r = (st', GoOn) \<Longrightarrow> r = GoOn \<and> (\<exists>rd1. st' = kept rd1 st)"
  by (rule cancelling_cases [of inp b cs reason rd st r]) auto

lemma cancelling_state: "cancelling inp b cs reason rd st r = (st', r') \<Longrightarrow> (\<exists>rd1. st' = kept rd1 st) \<and> (r' = r \<or> (\<exists>e. r' = Stopped e))"
  by (rule cancelling_cases [of inp b cs reason rd st r]) auto

lemma open_turn_counters: "open_turn env inp st = (st', r) \<Longrightarrow> same_counters st st' \<and> retries st' = retries st"
  by (auto simp: open_turn_def Let_def same_counters_def split: if_splits sum.splits prod.splits)

lemma moves_on_same: "same_counters st st1 \<Longrightarrow> retries st1 = retries st \<Longrightarrow> moves_on env st1 st' \<longleftrightarrow> moves_on env st st'"
  by (simp add: moves_on_def steps_left_def same_counters_def)

lemma failed_moves_on:
  assumes "failed_turn inp b err rd st = (st', GoOn)" "budget_ok st"
  shows "moves_on env st st'"
proof -
  obtain r d where n: "next_retry_delay_ms err (retries st) = (r, d)" by fastforce
  from assms(1) obtain delay where d: "d = Some delay" and st': "retries st' = r" "same_counters st st'"
    by (auto simp: failed_turn_def n Let_def same_counters_def split: prod.splits sum.splits option.splits if_splits dest!: cancelling_go_on)
  have "retries_left r + 1 = retries_left (retries st)" using retry_step(1) n d by blast
  moreover have "retries_ok r" using retries_ok_next n assms(2) by (auto simp: budget_ok_def)
  ultimately show ?thesis using assms(2) st' by (simp add: moves_on_def budget_ok_def same_counters_def steps_left_def)
qed

lemma reserve_cases:
  "reserve_batch n b = (b', r) \<Longrightarrow> (case r of
     Inl e \<Rightarrow> b' = b \<and> e = MaxToolsThresholdReached (budget_threshold b) (budget_used b) n \<and> (budget_threshold b < budget_used b + n \<or> 2 ^ 64 \<le> budget_used b + n)
   | Inr _ \<Rightarrow> b' = b\<lparr>budget_used := budget_used b + n\<rparr> \<and> budget_used b + n \<le> budget_threshold b)"
  by (auto simp: reserve_batch_def split: if_splits)

lemma record_batch_counters:
  "same_counters (record_batch env inp outs st) st" "retries (record_batch env inp outs st) = retries st"
  by (simp_all add: record_batch_def same_counters_def Let_def split: prod.splits)

lemma tools_turn_counters:
  "tools_turn env inp b text cs m rd st = (st', r) \<Longrightarrow> same_counters st st' \<and> retries st' = retries st"
  using record_batch_counters
  by (auto simp: tools_turn_def with_calls_def Let_def same_counters_def split: prod.splits sum.splits option.splits)

lemma final_turn_counters:
  "final_turn env text m st = (st', r) \<Longrightarrow> budget st' = budget st \<and> retries st' = retries st \<and> malformed_retries st' = malformed_retries st
     \<and> empty_name_retries st' = empty_name_retries st \<and> (r = GoOn \<longrightarrow> auto_continues st' = auto_continues st + 1 \<and> auto_continues st < max_auto_continues env)"
  by (auto simp: final_turn_def Let_def split: if_splits)

lemma reserved_moves_on:
  assumes t: "reserved_turn env inp b tx cs m rd st = (st', GoOn)"
  shows "retries st' = retries st \<and> budget st' = budget st \<and> steps_left env st' \<le> steps_left env st \<and> (cs = [] \<longrightarrow> steps_left env st' < steps_left env st)"
proof (cases "if has_named_tool_call cs \<or> empty_name_retries st \<noteq> 0 then None else find_empty_tool_name_call cs")
  case (Some c)
  then have z: "empty_name_retries st = 0" by (auto split: if_splits)
  from t obtain answer1 retry_text rd1 where
    "st' = kept rd1 (st\<lparr>empty_name_retries := empty_name_retries st + 1, answer := answer1,
       conversation := conversation st @ [answer_message (Some (case retry_text of Some t \<Rightarrow> t | None \<Rightarrow> [])) [] m,
         UserMessage (UserText (empty_tool_name_retry_prompt (printer env) c)) None]\<rparr>)"
    unfolding reserved_turn_def Some option.case Let_def
    by (cases "streaming_tool_call_message_content tx (answer st)") (auto dest!: cancelling_go_on)
  then show ?thesis using z by (simp add: steps_left_def)
next
  case None
  have h: "after_llm_call env inp tx cs (request_usage (attempt_of rd)) (iterations st) = None"
    using t unfolding reserved_turn_def None by (auto split: option.splits dest!: cancelling_go_on)
  show ?thesis
  proof (cases "cs = []")
    case True
    then have "final_turn env tx m (kept rd st) = (st', GoOn)"
      using t h unfolding reserved_turn_def None option.case by simp
    note f = final_turn_counters [OF this]
    then have "max_auto_continues env - auto_continues st' < max_auto_continues env - auto_continues st"
      "budget st' = budget st" "malformed_retries st' = malformed_retries st" "empty_name_retries st' = empty_name_retries st" by auto
    then have "steps_left env st' < steps_left env st" unfolding steps_left_def by (metis add_strict_left_mono)
    then show ?thesis using f by simp
  next
    case False
    then have "tools_turn env inp b tx cs m rd st = (st', GoOn)"
      using t h unfolding reserved_turn_def None option.case by simp
    from tools_turn_counters [OF this] show ?thesis using False by (simp add: steps_left_def same_counters_def)
  qed
qed

lemma calls_moves_on:
  assumes t: "calls_turn env inp b text cs m rd st = (st', GoOn)" and ok: "budget_ok st"
  shows "steps_left env st' < steps_left env st \<and> budget_ok st' \<and> budget_threshold (budget st') = budget_threshold (budget st)"
proof -
  obtain b1 r where rb: "reserve_batch (length cs) (budget st) = (b1, r)" by fastforce
  have r: "r = Inr ()" using t rb by (cases r) (auto simp: calls_turn_def dest: cancelling_go_on)
  then have b1: "b1 = (budget st)\<lparr>budget_used := budget_used (budget st) + length cs\<rparr>" "budget_used (budget st) + length cs \<le> budget_threshold (budget st)"
    using reserve_cases [OF rb] by simp_all
  have "reserved_turn env inp b text cs m rd (st\<lparr>budget := b1\<rparr>) = (st', GoOn)" using t rb r by (simp add: calls_turn_def)
  note m = reserved_moves_on [OF this]
  have "steps_left env (st\<lparr>budget := b1\<rparr>) + length cs = steps_left env st" using b1 by (simp add: steps_left_def)
  then have "steps_left env st' < steps_left env st" using m by (cases cs) auto
  then show ?thesis using m b1 ok by (simp add: budget_ok_def)
qed

lemma answered_moves_on:
  assumes t: "answered_turn env inp b rd st = (st', GoOn)" and ok: "budget_ok st"
  shows "moves_on env st st'"
proof -
  obtain m res where c: "close_active_segment (att_materializer (attempt_of rd)) Completed = (m, res)" by fastforce
  have res: "res = Inr ()" using t c by (cases res) (auto simp: answered_turn_def Let_def)
  let ?st1 = "st\<lparr>retries := (retries st)\<lparr>server_retries_remaining := SERVER_MAX_RETRIES, unknown_retries_remaining := UNKNOWN_MAX_RETRIES\<rparr>,
      usage_of := record_request (request_usage (attempt_of rd)) (usage_of st)\<rparr>"
  obtain tx cs where p: "parse_text env (accumulated_text (attempt_of rd), finalize_calls (history env) (attempt_of rd)) = (tx, cs)" by fastforce
  obtain tx1 cs1 where q: "recover_text env (tx, cs) = (tx1, cs1)" by fastforce
  have ok1: "budget_ok ?st1" using ok retries_ok_reset by (simp add: budget_ok_def)
  show ?thesis
  proof (cases "mode env = TextMode \<and> cs = [] \<and> looks_like_failed_tool_call env tx \<and> malformed_retries st = 0")
    case True
    then show ?thesis using t c res p ok1 by (auto simp: answered_turn_def Let_def moves_on_def steps_left_def budget_ok_def)
  next
    case False
    then have "calls_turn env inp b tx1 cs1 m rd ?st1 = (st', GoOn)"
      using t c res p q by (auto simp: answered_turn_def Let_def)
    from calls_moves_on [OF this ok1] have "steps_left env st' < steps_left env ?st1 \<and> budget_ok st' \<and> budget_threshold (budget st') = budget_threshold (budget ?st1)" .
    moreover have "steps_left env ?st1 = steps_left env st" "budget ?st1 = budget st" by (simp_all add: steps_left_def)
    ultimately show ?thesis unfolding moves_on_def by metis
  qed
qed

lemma turn_moves_on:
  assumes "turn env inp st = (st', GoOn)" "budget_ok st"
  shows "moves_on env st st'"
proof -
  obtain st1 r where o: "open_turn env inp st = (st1, r)" by fastforce
  have same: "same_counters st st1" "retries st1 = retries st" using open_turn_counters [OF o] by auto
  then have ok: "budget_ok st1" using assms(2) by (simp add: budget_ok_def same_counters_def)
  have "moves_on env st1 st'"
    using assms(1) o ok failed_moves_on answered_moves_on
    by (auto simp: turn_def cancelled_turn_def split: sum.splits prod.splits read_end.splits option.splits dest!: cancelling_go_on)
  then show ?thesis using moves_on_same [OF same] by simp
qed

definition turns_left :: "loop_env \<Rightarrow> loop_state \<Rightarrow> nat" where
  "turns_left env st = 13 * steps_left env st + retries_left (retries st)"

lemma moves_on_turns: "moves_on env st st' \<Longrightarrow> turns_left env st' < turns_left env st"
  using retries_ok_left [of "retries st'"] by (auto simp: moves_on_def turns_left_def budget_ok_def)

lemma run_ends:
  "budget_ok st \<Longrightarrow> turns_left env st < length inps \<Longrightarrow> snd (run_turns env inps st) \<noteq> GoOn"
proof (induction inps arbitrary: st)
  case (Cons inp inps)
  obtain st1 r where t: "turn env inp st = (st1, r)" by fastforce
  show ?case
  proof (cases "r = GoOn")
    case True
    have m: "moves_on env st st1" by (rule turn_moves_on) (use t True Cons.prems in simp_all)
    then have "budget_ok st1" "turns_left env st1 < turns_left env st" using moves_on_turns by (simp_all add: moves_on_def)
    then show ?thesis using Cons.IH [of st1] Cons.prems(2) t True by simp
  next
    case False
    then show ?thesis using t by (cases r) simp_all
  qed
qed simp

text \<open>
  C13. The agent loop ends whatever the provider answers: after a number of iterations fixed by the
  limit of tool calls and the number of automatic continuations, the run has returned an answer
  or an error. The thirteen attempts per step are the retries of a failing provider.
\<close>

theorem agent_loop_ends:
  assumes "13 * (max_tools_threshold (limits env) + max_auto_continues env + 2) + 12 < length inps"
  shows "snd (run_agent_loop env start_hook inps (loop_start env prompt user sender hist files)) \<noteq> GoOn"
proof -
  let ?st = "loop_start env prompt user sender hist files"
  have "budget_ok ?st" "turns_left env ?st = 13 * (max_tools_threshold (limits env) + max_auto_continues env + 2) + 12"
    using retries_ok_start by (simp_all add: loop_start_def budget_ok_def budget_new_def turns_left_def steps_left_def Let_def retries_left_def retry_start_def retry_consts)
  then have "snd (run_turns env inps ?st) \<noteq> GoOn" using run_ends assms by simp
  then show ?thesis by (auto simp: run_agent_loop_def split: option.splits sum.splits hook_action.splits)
qed

section \<open>A sample run\<close>

definition sample_loop :: "nat \<Rightarrow> nat \<Rightarrow> loop_env" where
  "sample_loop threshold max_input =
     \<lparr>mode = Native, max_auto_continues = 0, auto_continue_min_tool_calls = 0, detector_window = 3, detector_strips = True,
      limits = \<lparr>max_tools_threshold = threshold, automatic_checkpointing = True, resume_from_history = False, resume_after_checkpoint = False\<rparr>,
      provider_name = ''p'', provider_model = ''m'', provider_window = max_input, provider_max_input = max_input, provider_max_output = 100,
      choice = None, session = ''s'', hash = (\<lambda>_. 0), history = demo_env, parse_tool_calls_from_text = (\<lambda>_. ([], None)),
      looks_like_failed_tool_call = (\<lambda>_. False), recover_tool_calls_from_content = (\<lambda>t. (t, [])), clean_response = (\<lambda>t. t)\<rparr>"

definition sample_input :: turn_input where
  "sample_input =
     \<lparr>cancelled = False, schemas = Inr [], before_hook = (\<lambda>_. Some (Inr Continue)),
      stream = [ToolCallStart ''c'' ''ask'' 0, ToolCallArgumentsDelta 0 ''x'', Delta ''hello'', Done usage_zero],
      cancel_at = None, sleep_cancelled = False, after_hook = (\<lambda>_. Some (Inr Continue)), clock_at = (\<lambda>n. Inr n), refuses = (\<lambda>_. None),
      execution = (\<lambda>_. sample_env), steering = []\<rparr>"

theorem agent_loop_ends_witness:
  "snd (run_agent_loop (sample_loop 0 1000) (\<lambda>_. Some (Inr Continue)) (replicate 39 sample_input)
     (loop_start (sample_loop 0 1000) ''p'' (UserText ''hi'') None [] (store_new ''/d'' (\<lambda>_. None)))) \<noteq> GoOn"
  by (rule agent_loop_ends) (simp add: sample_loop_def)

end
