(* ===== verification/Loop_Conversation.thy ===== *)
theory Loop_Conversation
  imports Loop_Progress
begin

text \<open>
  What the agent loop sends: in every request the provider gets, each tool call of the
  conversation has its result. A tool call without one makes the provider refuse the request,
  so this holds across retries, aborted attempts, nudges and interventions.
\<close>

section \<open>The calls an attempt has\<close>

fun is_call_payload :: "provider_item_update_payload \<Rightarrow> bool" where
  "is_call_payload (FunctionCallStart n) = True"
| "is_call_payload (FunctionCallDelta d) = True"
| "is_call_payload (FunctionCallDone a) = True"
| "is_call_payload p = False"

text \<open>The calls that take part in the items, and the calls announced to the loop by name.\<close>

fun item_call_of :: "stream_event \<Rightarrow> string set" where
  "item_call_of (ProviderItemUpdate u) = (if is_call_payload (upd_payload u) then {upd_item_id u} else {})"
| "item_call_of ev = {}"

fun started_call_of :: "stream_event \<Rightarrow> string set" where
  "started_call_of (ToolCallStart i n idx) = (if sanitize_tool_name n = [] then {} else {i})"
| "started_call_of ev = {}"

definition announced :: "stream_event list \<Rightarrow> bool" where
  "announced evs \<longleftrightarrow> (\<Union>ev \<in> set evs. item_call_of ev) \<subseteq> (\<Union>ev \<in> set evs. started_call_of ev)"

definition attempt_calls :: "attempt \<Rightarrow> string set" where
  "attempt_calls a = set (item_call_ids (items (segment (att_materializer a))))"

definition started_calls :: "attempt \<Rightarrow> string set" where
  "started_calls a = {i. \<exists>n. (i, n) \<in> set (att_tool_calls a) \<and> sanitize_tool_name n \<noteq> []}"

lemma item_call_ids_iff: "c \<in> set (item_call_ids xs) \<longleftrightarrow> (\<exists>x \<in> set xs. \<exists>n args. item_payload x = FunctionCall c n args)"
  by (induction xs) (auto simp: item_call_ids_def map_filter_def split: provider_output_payload.splits)

lemma apply_payload_call:
  "apply_payload p up = Some q \<Longrightarrow> q = FunctionCall c n args \<Longrightarrow> \<exists>n' args'. p = FunctionCall c n' args'"
  by (induction p up rule: apply_payload.induct) auto

lemma created_call: "item_payload (create_item_from_update u) = FunctionCall c n args \<Longrightarrow> c = upd_item_id u \<and> is_call_payload (upd_payload u)"
  by (auto simp: create_item_from_update_def new_reasoning_def split: provider_item_update_payload.splits)

lemma apply_to_items_calls:
  assumes "apply_to_items xs u = Inr ys" "c \<in> set (item_call_ids ys)"
  shows "c \<in> set (item_call_ids xs) \<union> item_call_of (ProviderItemUpdate u)"
proof (cases "find (\<lambda>i. item_id i = upd_item_id u) xs")
  case None
  then have ys: "set ys = insert (create_item_from_update u) (set xs)"
    using assms(1) by (auto simp: apply_to_items_def split: option.splits)
  show ?thesis using assms(2) created_call [of u] by (auto simp: item_call_ids_iff ys)
next
  case (Some x)
  then obtain q where q: "apply_payload (item_payload x) (upd_payload u) = Some q"
    and ys: "ys = update_first (\<lambda>i. item_id i = upd_item_id u) (\<lambda>_. x\<lparr>item_payload := q\<rparr>) xs"
    using assms(1) by (auto simp: apply_to_items_def apply_payload_to_item_def split: if_splits option.splits)
  have x: "x \<in> set xs" using Some by (auto simp: find_Some_iff)
  have "set ys \<subseteq> insert (x\<lparr>item_payload := q\<rparr>) (set xs)"
    unfolding ys by (induction xs) auto
  then have "c \<in> set (item_call_ids xs)"
    using assms(2) x apply_payload_call [OF q] by (fastforce simp: item_call_ids_iff)
  then show ?thesis by simp
qed

lemma apply_update_items: "apply_update m u = (m', Inr x) \<Longrightarrow> apply_to_items (items (segment m)) u = Inr (items (segment m'))"
  by (auto simp: apply_update_def apply_sequenced_def Let_def split: if_splits option.splits sum.splits)

lemma apply_update_calls:
  assumes "apply_update m u = (m', Inr x)"
  shows "set (item_call_ids (items (segment m'))) \<subseteq> set (item_call_ids (items (segment m))) \<union> item_call_of (ProviderItemUpdate u)"
  using apply_to_items_calls [OF apply_update_items [OF assms]] by blast

lemma consume_event_calls:
  "consume_event a ev = Inr a' \<Longrightarrow> attempt_calls a' \<subseteq> attempt_calls a \<union> item_call_of ev \<and> started_calls a' = started_calls a \<union> started_call_of ev"
proof (cases ev)
  case (ProviderItemUpdate u)
  assume "consume_event a ev = Inr a'"
  then show ?thesis using apply_update_calls [of "att_materializer a" u] unfolding ProviderItemUpdate attempt_calls_def started_calls_def
    by (auto simp del: item_call_of.simps split: sum.splits prod.splits)
next
  case (SegmentClose s out us)
  assume "consume_event a ev = Inr a'"
  then show ?thesis unfolding SegmentClose attempt_calls_def started_calls_def
    by (auto simp: close_def split: sum.splits prod.splits option.splits if_splits)
qed (auto simp: attempt_calls_def started_calls_def materializer_new_def segment_new_def item_call_ids_def map_filter_def split: option.splits)

lemma consume_calls:
  "consume a evs = Inr a' \<Longrightarrow> stream_error a' = None \<Longrightarrow>
     attempt_calls a' \<subseteq> attempt_calls a \<union> (\<Union>ev \<in> set evs. item_call_of ev) \<and> started_calls a' = started_calls a \<union> (\<Union>ev \<in> set evs. started_call_of ev)"
proof (induction a evs rule: consume.induct)
  case (2 a ev evs)
  then obtain a1 where a1: "consume_event a ev = Inr a1" by (auto split: sum.splits)
  with 2 have "consume a1 evs = Inr a'" "stream_error a1 = None" by (auto split: if_splits)
  then show ?case using consume_event_calls [OF a1] 2 a1 by auto
qed simp

section \<open>Reading a stream to its end\<close>

lemma stream_step_consumes: "stream_step inp b ev rd = (rd', Inr x) \<Longrightarrow> consume_event (attempt_of rd) ev = Inr (attempt_of rd')"
  by (cases ev) (auto simp: Let_def split: sum.splits prod.splits option.splits if_splits)

lemma read_stream_ended: "left \<noteq> Some 0 \<Longrightarrow> read_stream inp b left [] rd = (rd, ReadAll)"
  by (cases "(inp, b, left, [] :: stream_event list, rd)" rule: read_stream.cases) simp_all

lemma read_stream_event:
  "left \<noteq> Some 0 \<Longrightarrow> read_stream inp b left (ev # evs) rd = (case stream_step inp b ev rd of
      (rd1, Inl e) \<Rightarrow> (rd1, ReadFailed e)
    | (rd1, Inr _) \<Rightarrow> if stream_error (attempt_of rd1) \<noteq> None then (rd1, ReadAll) else read_stream inp b (map_option (\<lambda>n. n - 1) left) evs rd1)"
  by (cases "(inp, b, left, ev # evs, rd)" rule: read_stream.cases) (simp_all only: prod.inject list.inject list.distinct simp_thms read_stream.simps)

lemmas read_stream_go = read_stream_ended read_stream_event

lemma read_stream_consumes:
  "read_stream inp b left evs rd = (rd', ReadAll) \<Longrightarrow> consume (attempt_of rd) evs = Inr (attempt_of rd')"
proof (induction evs arbitrary: left rd)
  case Nil
  then show ?case by (cases "left = Some 0") (simp_all add: read_stream_go)
next
  case (Cons ev evs)
  then have go: "left \<noteq> Some 0" by auto
  obtain rd1 x where step: "stream_step inp b ev rd = (rd1, x)" by fastforce
  then obtain u where x: "x = Inr u" using Cons.prems by (cases x) (simp_all add: read_stream_go [OF go])
  show ?case using Cons stream_step_consumes [OF step [unfolded x]] by (auto simp: read_stream_go [OF go] step x split: if_splits)
qed

text \<open>What every step keeps, reading keeps unless a step fails.\<close>

lemma read_stream_keeps:
  assumes "read_stream inp b left evs rd = (rd', z)" "P rd" "\<And>ev rd rd1 x. stream_step inp b ev rd = (rd1, Inr x) \<Longrightarrow> P rd \<Longrightarrow> P rd1"
  shows "case z of ReadFailed e \<Rightarrow> \<exists>ev rd1. stream_step inp b ev rd1 = (rd', Inl e) | _ \<Rightarrow> P rd'"
  using assms(1,2)
proof (induction evs arbitrary: left rd)
  case Nil
  then show ?case by (cases "left = Some 0") (auto simp: read_stream_go)
next
  case (Cons ev evs)
  obtain rd1 x where step: "stream_step inp b ev rd = (rd1, x)" by fastforce
  show ?case
  proof (cases "left = Some 0")
    case True
    then show ?thesis using Cons.prems by auto
  next
    case go: False
    show ?thesis
    proof (cases x)
      case (Inl e)
      then have "rd' = rd1" "z = ReadFailed e" using Cons.prems(1) by (simp_all add: read_stream_go [OF go] step)
      then show ?thesis using step Inl by auto
    next
      case (Inr u)
      have "P rd1" by (rule assms(3) [OF step [unfolded Inr] Cons.prems(2)])
      then show ?thesis using Cons.IH Cons.prems(1) Inr
        by (cases "stream_error (attempt_of rd1)") (auto simp: read_stream_go [OF go] step)
    qed
  qed
qed

lemma attempt_start_calls [simp]: "attempt_calls (attempt_start rs) = {}" "started_calls (attempt_start rs) = {}"
  by (simp_all add: attempt_calls_def started_calls_def attempt_start_def materializer_pending_def segment_pending_def item_call_ids_def map_filter_def)

lemma read_announced:
  assumes "read_stream inp b left evs (reading_start st) = (rd, ReadAll)" "stream_error (attempt_of rd) = None" "announced evs"
  shows "attempt_calls (attempt_of rd) \<subseteq> started_calls (attempt_of rd)"
proof -
  have "attempt_of (reading_start st) = attempt_start (raws st)" by (simp add: reading_start_def)
  then show ?thesis using consume_calls [OF read_stream_consumes [OF assms(1)] assms(2)] assms(3) by (simp add: announced_def) blast
qed

section \<open>The calls of an answer\<close>

lemma map_update_same: "f y = f (xs ! i) \<Longrightarrow> map f (xs[i := y]) = map f xs"
  by (metis list_update_beyond list_update_id map_update not_le nth_map)

lemma finalize_call_keeps: "map call_id (finalize_call env a idx cs) = map call_id cs" "map call_name (finalize_call env a idx cs) = map call_name cs"
  by (auto simp: finalize_call_def Let_def map_update_same split: option.splits prod.splits)

lemma finalize_calls_keep: "map call_id (finalize_calls env a) = map fst (att_tool_calls a)" "map call_name (finalize_calls env a) = map snd (att_tool_calls a)"
proof -
  have "map call_id (fold (finalize_call env a) idxs cs) = map call_id cs" "map call_name (fold (finalize_call env a) idxs cs) = map call_name cs" for idxs cs
    by (induction idxs arbitrary: cs) (simp_all add: finalize_call_keeps)
  then show "map call_id (finalize_calls env a) = map fst (att_tool_calls a)" "map call_name (finalize_calls env a) = map snd (att_tool_calls a)"
    by (simp_all add: finalize_calls_def case_prod_beta comp_def)
qed

definition named_calls :: "tool_call list \<Rightarrow> string set" where
  "named_calls cs = {i. \<exists>c \<in> set cs. call_id c = i \<and> sanitize_tool_name (call_name c) \<noteq> []}"

lemma finalized_named: "started_calls a = named_calls (finalize_calls env a)"
proof -
  have "att_tool_calls a = map (\<lambda>c. (call_id c, call_name c)) (finalize_calls env a)"
    using finalize_calls_keep [of env a] by (intro nth_equalityI) (auto simp: list_eq_iff_nth_eq prod_eq_iff)
  then show ?thesis by (auto simp: started_calls_def named_calls_def)
qed

text \<open>The calls of the segment's items are calls the loop runs.\<close>

definition runs_items :: "tool_call list \<Rightarrow> materializer \<Rightarrow> bool" where
  "runs_items cs m \<longleftrightarrow> set (item_call_ids (items (segment m))) \<subseteq> named_calls cs"

lemma runs_items_nil: "runs_items [] m \<Longrightarrow> item_call_ids (items (segment m)) = []"
  by (simp add: runs_items_def named_calls_def)

lemma runs_items_unnamed: "runs_items cs m \<Longrightarrow> \<not> has_named_tool_call cs \<Longrightarrow> item_call_ids (items (segment m)) = []"
  by (auto simp: runs_items_def named_calls_def has_named_tool_call_def list_ex_iff)

lemma runs_items_any: "runs_items [] m \<Longrightarrow> runs_items cs m"
  by (simp add: runs_items_def named_calls_def)

lemma parse_text_runs: "parse_text env (tx, cs) = (tx', cs') \<Longrightarrow> runs_items cs m \<Longrightarrow> runs_items cs' m"
  using runs_items_any by (auto simp: parse_text_def split: if_splits prod.splits)

lemma recover_text_runs: "recover_text env (tx, cs) = (tx', cs') \<Longrightarrow> runs_items cs m \<Longrightarrow> runs_items cs' m"
  using runs_items_any by (auto simp: recover_text_def split: if_splits prod.splits)

section \<open>The conversation after an iteration\<close>

lemma well_answered_append: "well_answered ms \<Longrightarrow> calls ns \<subseteq> set (results ns) \<Longrightarrow> well_answered (ms @ ns)"
  by (auto simp: well_answered_def)

lemma well_answered_cons: "message_call_ids m = [] \<Longrightarrow> well_answered ms \<Longrightarrow> well_answered (m # ms)"
  by (auto simp: well_answered_def)

lemma kept_conversation [simp]:
  "conversation (kept rd st) = conversation st" "continuation_start (kept rd st) = continuation_start st" "requests (kept rd st) = requests st" "store_of (kept rd st) = store_of st"
  by (simp_all add: kept_def)

lemma answer_message_calls [simp]: "message_call_ids (answer_message tx cs m) = map call_id cs @ item_call_ids (items (segment m))"
  by (simp add: answer_message_def)

text \<open>
  Nothing is asked, the conversation only grows and stays answered, and a compaction would keep
  the old start of its continuation or take the end of the old conversation.
\<close>

definition asks_same :: "loop_state \<Rightarrow> loop_state \<Rightarrow> bool" where
  "asks_same st st' \<longleftrightarrow> requests st' = requests st \<and> (well_answered (conversation st) \<longrightarrow>
     well_answered (conversation st') \<and> (\<exists>ns. conversation st' = conversation st @ ns)
     \<and> (continuation_start st' = continuation_start st \<or> continuation_start st' = length (conversation st)))"

lemma asks_same_refl [simp]: "asks_same st st"
  by (simp add: asks_same_def)

lemma asks_same_kept [simp]: "asks_same st (kept rd st') = asks_same st st'"
  by (simp add: asks_same_def)

lemma asks_same_more:
  "requests st' = requests st \<Longrightarrow> continuation_start st' = continuation_start st \<or> continuation_start st' = length (conversation st)
     \<Longrightarrow> conversation st' = conversation st @ ns \<Longrightarrow> calls ns \<subseteq> set (results ns) \<Longrightarrow> asks_same st st'"
  by (simp add: asks_same_def well_answered_append)

lemma ensure_well_answered [simp]: "well_answered (ensure_tool_call_results_present ms)"
  using ensure_answered by (simp add: well_answered_def)

lemma fresh_known: "set cs \<subseteq> known \<Longrightarrow> fresh known cs = []"
  by (induction known cs rule: fresh.induct) auto

lemma fill_known: "calls ms \<subseteq> known \<Longrightarrow> fill known (ms @ ns) = ms @ fill known ns"
  by (induction ms) (simp_all add: fresh_known)

lemma ensure_appends:
  assumes "well_answered ms"
  shows "\<exists>ns. ensure_tool_call_results_present (ms @ [m]) = ms @ ns"
proof -
  have "calls ms \<subseteq> answered_ids (ms @ [m])" using assms by (auto simp: well_answered_def answered_results)
  from fill_known [OF this] show ?thesis by (auto simp: ensure_fill)
qed

lemma failed_turn_asks: "failed_turn inp b err rd st = (st', r) \<Longrightarrow> asks_same st st'"
  by (auto simp: failed_turn_def Let_def asks_same_def ensure_appends split: prod.splits sum.splits option.splits if_splits
      dest!: cancelling_state)

lemma final_turn_asks:
  assumes "final_turn env tx m st = (st', r)" "runs_items [] m"
  shows "asks_same st st'"
  using assms runs_items_nil [OF assms(2)]
  by (auto simp: final_turn_def Let_def split: if_splits intro!: asks_same_more)

lemma run_calls_length: "run_calls env inp b k cs files = (files', evs, rs) \<Longrightarrow> length rs = length cs"
  by (induction env inp b k cs files arbitrary: files' evs rs rule: run_calls.induct) (auto split: prod.splits)

lemma collect_results_length: "collect_results rs = Inr xs \<Longrightarrow> length xs = length rs"
  by (induction rs arbitrary: xs rule: collect_results.induct) (auto split: sum.splits)

lemma intervention_appends:
  "apply_loop_detector_intervention pp d action (ms, strip) = (ms', strip') \<Longrightarrow> \<exists>ns. ms' = ms @ ns \<and> calls ns = {} \<and> results ns = []"
  by (cases action) (auto simp: apply_loop_detector_intervention_def)

lemma steering_note_calls [simp]: "calls (steering_note ts) = {}" "results (steering_note ts) = []"
  by (simp_all add: steering_note_def)

lemma results_of_calls:
  "length cs = length outs \<Longrightarrow> results (map (\<lambda>(c, out). ToolMessage (call_id c) (f out)) (zip cs outs)) = map call_id cs
     \<and> calls (map (\<lambda>(c, out). ToolMessage (call_id c) (f out)) (zip cs outs)) = {}"
  by (induction cs outs rule: list_induct2) simp_all

lemma record_batch_appends:
  assumes "length cs = length outs"
  shows "requests (record_batch env inp (zip cs outs) st) = requests st \<and> continuation_start (record_batch env inp (zip cs outs) st) = continuation_start st
    \<and> (\<exists>ns. conversation (record_batch env inp (zip cs outs) st) = conversation st @ ns \<and> calls ns = {} \<and> set (map call_id cs) \<subseteq> set (results ns))"
proof -
  let ?rs = "map (\<lambda>(c, out). ToolMessage (call_id c) (out_result out)) (zip cs outs)"
  obtain d action where d: "record_round (if is_enabled (detector st) then map (fingerprint_of env) (zip cs outs) else []) (detector st) = (d, action)" by fastforce
  obtain ms strip where i: "apply_loop_detector_intervention (printer env) d action (conversation st @ ?rs, strip_tools st) = (ms, strip)" by fastforce
  obtain ns where "ms = (conversation st @ ?rs) @ ns" "calls ns = {}" "results ns = []" using intervention_appends [OF i] by blast
  then show ?thesis using results_of_calls [OF assms, of out_result]
    by (auto simp: record_batch_def Let_def d i intro!: exI [of _ "?rs @ ns @ steering_note (steering inp)"])
qed

lemma tools_turn_asks:
  assumes t: "tools_turn env inp b tx cs m rd st = (st', r)" and runs: "runs_items cs m"
  shows "requests st' = requests st \<and> (r = GoOn \<longrightarrow> asks_same st st')"
proof -
  let ?st1 = "with_calls tx cs m st"
  obtain l x where p: "publish_calls inp b cs (sequences rd) (log rd) = (l, x)" by fastforce
  show ?thesis
  proof (cases x)
    case (Inl e)
    then show ?thesis using t p by (auto simp: tools_turn_def Let_def with_calls_def)
  next
    case (Inr seqs)
    show ?thesis
    proof (cases "find (\<lambda>c. seqs (call_id c) = None) cs")
      case (Some c)
      then show ?thesis using t p Inr by (auto simp: tools_turn_def Let_def with_calls_def)
    next
      case None
      obtain files evs rs where run: "run_calls env inp b 0 (map (\<lambda>c. (c, the (seqs (call_id c)))) cs) (store_of ?st1) = (files, evs, rs)"
        using prod_cases3 by blast
      let ?st3 = "(kept (rd\<lparr>log := l\<rparr>) ?st1)\<lparr>store_of := files, events := events (kept (rd\<lparr>log := l\<rparr>) ?st1) @ evs\<rparr>"
      have st': "(case collect_results rs of Inl e \<Rightarrow> (?st3, Stopped e) | Inr outs \<Rightarrow> (record_batch env inp (zip cs outs) ?st3, GoOn)) = (st', r)"
        using t p Inr None run by (simp add: tools_turn_def Let_def)
      show ?thesis
      proof (cases "collect_results rs")
        case (Inl e)
        then show ?thesis using st' by (auto simp: with_calls_def)
      next
        case (Inr outs)
        then have "length cs = length outs" using collect_results_length run_calls_length [OF run] by simp
        from record_batch_appends [OF this, of env inp ?st3] obtain ns where
          "requests st' = requests st" "continuation_start st' = continuation_start st \<or> continuation_start st' = length (conversation st)" "conversation st' = conversation st @ answer_message (non_empty tx) cs m # ns"
          "calls ns = {}" "set (map call_id cs) \<subseteq> set (results ns)" using st' Inr by (auto simp: with_calls_def)
        moreover have "named_calls cs \<subseteq> set (map call_id cs)" by (auto simp: named_calls_def)
        ultimately have "requests st' = requests st" "continuation_start st' = continuation_start st \<or> continuation_start st' = length (conversation st)"
          "conversation st' = conversation st @ answer_message (non_empty tx) cs m # ns"
          "calls (answer_message (non_empty tx) cs m # ns) \<subseteq> set (results (answer_message (non_empty tx) cs m # ns))"
          using runs by (auto simp: runs_items_def answer_message_def)
        then show ?thesis using asks_same_more by blast
      qed
    qed
  qed
qed

lemma reserved_turn_asks:
  assumes t: "reserved_turn env inp b tx cs m rd st = (st', r)" and runs: "runs_items cs m"
  shows "requests st' = requests st \<and> (r = GoOn \<longrightarrow> asks_same st st')"
proof (cases "if has_named_tool_call cs \<or> empty_name_retries st \<noteq> 0 then None else find_empty_tool_name_call cs")
  case (Some c)
  then have i: "item_call_ids (items (segment m)) = []" using runs_items_unnamed [OF runs] by (auto split: if_splits)
  obtain answer1 retry_text where s: "streaming_tool_call_message_content tx (answer st) = (answer1, retry_text)" by fastforce
  from t obtain rd1 where "st' = kept rd1 (st\<lparr>empty_name_retries := empty_name_retries st + 1, answer := answer1,
       conversation := conversation st @ [answer_message (Some (case retry_text of Some t \<Rightarrow> t | None \<Rightarrow> [])) [] m,
         UserMessage (UserText (empty_tool_name_retry_prompt (printer env) c)) None]\<rparr>)"
    unfolding reserved_turn_def Some option.case s by (auto simp: Let_def dest!: cancelling_state)
  then show ?thesis using i by (auto intro!: asks_same_more)
next
  case None
  show ?thesis
  proof (cases "after_llm_call env inp tx cs (request_usage (attempt_of rd)) (iterations st)")
    case (Some e)
    then show ?thesis using t unfolding reserved_turn_def None option.case by (auto dest!: cancelling_state)
  next
    case h: None
    show ?thesis
    proof (cases "cs = []")
      case True
      then have "final_turn env tx m (kept rd st) = (st', r)" using t h unfolding reserved_turn_def None option.case by simp
      then have "asks_same (kept rd st) st'" using final_turn_asks runs True by blast
      then show ?thesis by (simp add: asks_same_def)
    next
      case False
      then have "tools_turn env inp b tx cs m rd st = (st', r)" using t h unfolding reserved_turn_def None option.case by simp
      then show ?thesis using tools_turn_asks runs by blast
    qed
  qed
qed

lemma calls_turn_asks:
  assumes t: "calls_turn env inp b tx cs m rd st = (st', r)" and runs: "runs_items cs m"
  shows "requests st' = requests st \<and> (r = GoOn \<longrightarrow> asks_same st st')"
proof -
  obtain b1 x where rb: "reserve_batch (length cs) (budget st) = (b1, x)" by fastforce
  show ?thesis
  proof (cases x)
    case (Inl e)
    then show ?thesis using t rb by (auto simp: calls_turn_def dest!: cancelling_state)
  next
    case (Inr u)
    then have "reserved_turn env inp b tx cs m rd (st\<lparr>budget := b1\<rparr>) = (st', r)" using t rb by (simp add: calls_turn_def)
    from reserved_turn_asks [OF this runs] show ?thesis by (simp add: asks_same_def)
  qed
qed

lemma close_active_items: "close_active_segment m out = (m', x) \<Longrightarrow> items (segment m') = items (segment m)"
  by (auto simp: close_active_segment_def close_def split: if_splits option.splits)

lemma answered_turn_asks:
  assumes t: "answered_turn env inp b rd st = (st', r)" and named: "attempt_calls (attempt_of rd) \<subseteq> started_calls (attempt_of rd)"
  shows "requests st' = requests st \<and> (r = GoOn \<longrightarrow> asks_same st st')"
proof -
  obtain m res where c: "close_active_segment (att_materializer (attempt_of rd)) Completed = (m, res)" by fastforce
  let ?st1 = "st\<lparr>retries := (retries st)\<lparr>server_retries_remaining := SERVER_MAX_RETRIES, unknown_retries_remaining := UNKNOWN_MAX_RETRIES\<rparr>,
      usage_of := record_request (request_usage (attempt_of rd)) (usage_of st)\<rparr>"
  obtain tx cs where p: "parse_text env (accumulated_text (attempt_of rd), finalize_calls (history env) (attempt_of rd)) = (tx, cs)" by fastforce
  obtain tx1 cs1 where q: "recover_text env (tx, cs) = (tx1, cs1)" by fastforce
  have "runs_items (finalize_calls (history env) (attempt_of rd)) m"
    using named close_active_items [OF c] by (simp add: runs_items_def attempt_calls_def finalized_named [of _ "history env"])
  then have runs: "runs_items cs m" using parse_text_runs [OF p] by blast
  show ?thesis
  proof (cases res)
    case (Inl e)
    then show ?thesis using t c by (auto simp: answered_turn_def Let_def)
  next
    case (Inr u)
    show ?thesis
    proof (cases "mode env = TextMode \<and> cs = [] \<and> looks_like_failed_tool_call env tx \<and> malformed_retries st = 0")
      case True
      then have "item_call_ids (items (segment m)) = []" using runs runs_items_nil by blast
      then show ?thesis using t c p Inr True by (auto simp: answered_turn_def Let_def intro!: asks_same_more)
    next
      case False
      then have "calls_turn env inp b tx1 cs1 m rd ?st1 = (st', r)"
        using t c Inr p q by (auto simp: answered_turn_def Let_def)
      from calls_turn_asks [OF this recover_text_runs [OF q runs]] show ?thesis by (simp add: asks_same_def)
    qed
  qed
qed

section \<open>Requests\<close>

definition leaves_messages :: "turn_input \<Rightarrow> bool" where
  "leaves_messages inp \<longleftrightarrow> (\<forall>p v. before_hook inp p \<noteq> Some (Inr (ModifyPayload v)))"

lemma open_turn_asks:
  "open_turn env inp st = (st', r) \<Longrightarrow> leaves_messages inp \<Longrightarrow> conversation st' = conversation st
     \<and> (requests st' = requests st \<or> (\<exists>ss. requests st' = requests st @ [(conversation st, ss)]))"
  by (auto simp: open_turn_def before_llm_call_def leaves_messages_def Let_def split: if_splits sum.splits prod.splits option.splits hook_action.splits)

definition asked_well :: "loop_state \<Rightarrow> bool" where
  "asked_well st \<longleftrightarrow> (\<forall>x \<in> set (requests st). well_answered (fst x))"

lemma turn_asks:
  assumes t: "turn env inp st = (st', r)" and well: "well_answered (conversation st)" "asked_well st"
    and inp: "leaves_messages inp" "announced (stream inp)"
  shows "asked_well st' \<and> (r = GoOn \<longrightarrow> well_answered (conversation st'))"
proof -
  obtain st1 x where o: "open_turn env inp st = (st1, x)" by fastforce
  have w1: "well_answered (conversation st1)" "asked_well st1" using open_turn_asks [OF o inp(1)] well by (auto simp: asked_well_def)
  have kept: "asked_well st2 \<and> (r2 = GoOn \<longrightarrow> well_answered (conversation st2))"
    if "requests st2 = requests st1 \<and> (r2 = GoOn \<longrightarrow> asks_same st1 st2)" for st2 and r2 :: turn_end
    using that w1 by (auto simp: asks_same_def asked_well_def)
  show ?thesis
  proof (cases x)
    case (Inl e)
    then show ?thesis using t o w1 by (auto simp: turn_def)
  next
    case (Inr y)
    obtain ss b where y: "y = (ss, b)" by fastforce
    obtain rd z where z: "read_stream inp b (cancel_at inp) (stream inp) (reading_start st1) = (rd, z)" by fastforce
    show ?thesis
    proof (cases z)
      case ReadAll
      show ?thesis
      proof (cases "attempt_error (budget_used (budget st1)) (attempt_of rd)")
        case None
        then have "answered_turn env inp b rd st1 = (st', r)" using t o Inr y z ReadAll by (simp add: turn_def)
        moreover have "attempt_calls (attempt_of rd) \<subseteq> started_calls (attempt_of rd)"
          by (rule read_announced [OF z [unfolded ReadAll] attempt_error_None [OF None] inp(2)])
        ultimately show ?thesis using kept answered_turn_asks by blast
      next
        case (Some err)
        then have "failed_turn inp b err rd st1 = (st', r)" using t o Inr y z ReadAll by (simp add: turn_def)
        then have "asks_same st1 st'" by (rule failed_turn_asks)
        then show ?thesis by (intro kept) (simp add: asks_same_def)
      qed
    next
      case ReadCancelled
      then have "requests st' = requests st1 \<and> r \<noteq> GoOn"
        using t o Inr y z by (auto simp: turn_def cancelled_turn_def split: sum.splits prod.splits dest!: cancelling_state)
      then show ?thesis by (intro kept) simp
    next
      case (ReadFailed e)
      then show ?thesis using t o Inr y z w1 by (auto simp: turn_def asked_well_def)
    qed
  qed
qed

lemma run_turns_asks:
  "well_answered (conversation st) \<Longrightarrow> asked_well st \<Longrightarrow> \<forall>inp \<in> set inps. leaves_messages inp \<and> announced (stream inp)
     \<Longrightarrow> asked_well (fst (run_turns env inps st))"
proof (induction inps arbitrary: st)
  case (Cons inp inps)
  obtain st1 r where t: "turn env inp st = (st1, r)" by fastforce
  have "asked_well st1 \<and> (r = GoOn \<longrightarrow> well_answered (conversation st1))"
    using turn_asks [OF t] Cons.prems by simp
  then show ?case using Cons t by (cases r) auto
qed simp


text \<open>A provider that opens a call, says nothing more and is asked again.\<close>

definition broken_input :: turn_input where
  "broken_input = sample_input\<lparr>stream := [ToolCallStart ''c'' ''ask'' 0,
     ProviderItemUpdate \<lparr>upd_segment_id = ''g'', upd_item_id = ''c'', upd_position = 0, update_seq = 0, upd_payload = FunctionCallStart ''ask''\<rparr>]\<rparr>"

lemma broken_input_fair: "leaves_messages broken_input \<and> announced (stream broken_input)"
  by (auto simp: broken_input_def sample_input_def leaves_messages_def announced_def) (code_simp)+


end
