(* ===== verification/Loop_Events.thy ===== *)
theory Loop_Events
  imports Loop_Conversation
begin

text \<open>
  The events of the tool calls of a whole run: a call the user interface was told of is settled
  by a terminal event before the run goes on or answers.
\<close>

section \<open>Settled calls\<close>

definition created_ids :: "tool_lifecycle_event list \<Rightarrow> string set" where
  "created_ids evs = {lc_call_id e | e. e \<in> set evs \<and> (\<exists>x. lc_update e = LcCreated x)}"

definition settled_ids :: "tool_lifecycle_event list \<Rightarrow> string set" where
  "settled_ids evs = {lc_call_id e | e. e \<in> set evs \<and> is_terminal (stage (lc_update e))}"

lemma created_ids_simps [simp]:
  "created_ids [] = {}" "created_ids (xs @ ys) = created_ids xs \<union> created_ids ys"
  by (auto simp: created_ids_def)

lemma settled_ids_simps [simp]:
  "settled_ids [] = {}" "settled_ids (xs @ ys) = settled_ids xs \<union> settled_ids ys"
  by (auto simp: settled_ids_def)

section \<open>The events of one call carry its identity\<close>

definition mine :: "string \<Rightarrow> exec_state \<Rightarrow> bool" where
  "mine c s \<longleftrightarrow> (\<forall>p \<in> set (delivered s). lc_call_id (fst p) = c)"

definition owns :: "string \<Rightarrow> 'a exec \<Rightarrow> bool" where
  "owns c m \<longleftrightarrow> spec (mine c) m (\<lambda>_. mine c) (\<lambda>_. mine c)"

lemma poll_free_mine: "poll_free (mine c)"
  by (simp add: poll_free_def mine_def)

lemma owns_give [simp]: "owns c (give a)" and owns_halt [simp]: "owns c (halt e)"
  by (simp_all add: owns_def spec_give spec_halt)

lemma owns_andthen: "owns c m \<Longrightarrow> (\<And>a. owns c (f a)) \<Longrightarrow> owns c (andthen m f)"
  unfolding owns_def by (rule spec_andthen)

lemma owns_awaiting: "owns c m \<Longrightarrow> owns c (awaiting m)"
  unfolding owns_def by (rule spec_awaiting [OF poll_free_mine])

lemma owns_until_cancelled: "owns c m \<Longrightarrow> owns c (until_cancelled limit m)"
  unfolding owns_def by (rule spec_until_cancelled) (auto intro: poll_free_mine)

lemma owns_now: "owns c (lifecycle_now_ms env)"
  by (auto simp: owns_def spec_def mine_def lifecycle_now_ms_def split: sum.splits)

lemma owns_emit_update: "c = call_id call \<Longrightarrow> owns c (emit_update env call up raw)"
  unfolding emit_update_def
  by (intro owns_andthen owns_awaiting owns_now)
    (auto simp: owns_def spec_def mine_def take_sequence_def deliver_def Let_def split: option.splits)

lemma owns_prepare_agent_result: "owns c (prepare_agent_result env call tool args raw has_raw)"
  by (auto simp: owns_def spec_def mine_def prepare_agent_result_def Let_def split: prod.splits sum.splits option.splits)

lemma owns_complete_as_error: "c = call_id call \<Longrightarrow> owns c (complete_as_error env call tool public args e ready)"
  unfolding complete_as_error_def by (auto intro!: owns_andthen owns_prepare_agent_result owns_emit_update)

lemma owns_finish_permission: "c = call_id call \<Longrightarrow> owns c (finish_permission env call tool public args phase ready)"
  unfolding finish_permission_def emit_cancelled_def
  by (auto intro!: owns_andthen owns_complete_as_error owns_emit_update split: sum.split permission_decision.split run_error.split)

lemma owns_finish_execution: "c = call_id call \<Longrightarrow> owns c (finish_execution env call tool x)"
  unfolding finish_execution_def Let_def
  by (auto intro!: owns_andthen owns_prepare_agent_result owns_emit_update owns_finish_permission split: option.split)

lemma owns_tick_loop: "c = call_id call \<Longrightarrow> owns c (tick_loop env call public n rs)"
  by (induction rs arbitrary: n) (auto simp: Let_def intro!: owns_andthen owns_emit_update owns_awaiting)

lemma owns_execute_tool: "c = call_id call \<Longrightarrow> owns c (execute_tool env call tool public args)"
proof -
  assume c: "c = call_id call"
  have start: "owns c (start_tool public args)" by (auto simp: owns_def spec_def mine_def start_tool_def)
  show ?thesis unfolding execute_tool_def Let_def
    by (auto simp: c intro!: owns_andthen owns_now owns_emit_update owns_awaiting owns_tick_loop start [unfolded c] split: sum.split)
qed

lemma owns_run_before_hook: "c = call_id call \<Longrightarrow> owns c (run_before_hook_and_execute env call name tool raw args)"
  unfolding run_before_hook_and_execute_def Let_def
  by (auto intro!: owns_awaiting owns_andthen owns_execute_tool split: sum.split hook_action.split option.split)

lemma owns_execute_inner: "c = call_id call \<Longrightarrow> owns c (execute_inner env call)"
  unfolding execute_inner_def Let_def reject_call_def emit_cancelled_def
  by (auto intro!: owns_andthen owns_prepare_agent_result owns_emit_update owns_finish_permission owns_until_cancelled owns_run_before_hook owns_finish_execution
      split: option.split)

lemma call_events:
  assumes "execute_call env call first files = (s, r)"
  shows "lc_call_id ` set (map fst (delivered s)) \<subseteq> {call_id call}" "r = Inr out \<Longrightarrow> call_id call \<in> settled_ids (map fst (delivered s))"
proof -
  have own: "mine (call_id call) s"
    using spec_apply [OF owns_execute_inner [of "call_id call" call env, OF refl, unfolded owns_def], of "start_state first files"] assms
    by (auto simp: execute_call_def start_state_def mine_def split: sum.splits)
  then show "lc_call_id ` set (map fst (delivered s)) \<subseteq> {call_id call}" by (auto simp: mine_def)
  assume "r = Inr out"
  then have "reported out s" using call_reported [of env call first files] assms by simp
  then obtain up where up: "delivered s \<noteq> []" "lc_update (fst (last (delivered s))) = up" "reports up out"
    by (auto simp: reported_def closed_log_def)
  then have "is_terminal (stage up)" by (cases up) (auto simp: is_terminal_def)
  moreover have "lc_call_id (fst (last (delivered s))) = call_id call" using own up(1) by (simp add: mine_def)
  ultimately show "call_id call \<in> settled_ids (map fst (delivered s))"
    using up by (force simp: settled_ids_def)
qed

section \<open>The events of a stream\<close>

lemma emitted_event:
  assumes "emit_stream_tool_lifecycle inp b i n k up l = (l1, Inr k')"
  shows "\<exists>e. log_events l1 = log_events l @ [e] \<and> lc_call_id e = i \<and> lc_update e = up"
  using assms by (auto simp: emit_stream_tool_lifecycle_def Let_def split: sum.splits option.splits)

lemma emitted_ids:
  assumes "emit_stream_tool_lifecycle inp b i n k up l = (l1, Inr k')"
  shows "created_ids (log_events l1) = created_ids (log_events l) \<union> (case up of LcCreated _ \<Rightarrow> {i} | _ \<Rightarrow> {})"
    "settled_ids (log_events l1) = settled_ids (log_events l) \<union> (if is_terminal (stage up) then {i} else {})"
proof -
  obtain e where e: "log_events l1 = log_events l @ [e]" "lc_call_id e = i" "lc_update e = up" using emitted_event [OF assms] by blast
  have "created_ids [e] = (case up of LcCreated _ \<Rightarrow> {i} | _ \<Rightarrow> {})" "settled_ids [e] = (if is_terminal (stage up) then {i} else {})"
    using e(2,3) by (auto simp: created_ids_def settled_ids_def split: tool_lifecycle_update.splits)
  then show "created_ids (log_events l1) = created_ids (log_events l) \<union> (case up of LcCreated _ \<Rightarrow> {i} | _ \<Rightarrow> {})"
    "settled_ids (log_events l1) = settled_ids (log_events l) \<union> (if is_terminal (stage up) then {i} else {})"
    by (simp_all add: e(1))
qed

text \<open>The ends after which every call is settled: the run goes on, answers, or stops at a limit.\<close>

fun orderly :: "turn_end \<Rightarrow> bool" where
  "orderly (Stopped (MaxToolsThresholdReached t u n)) = True"
| "orderly (Stopped (ContextCompactionRequired q)) = True"
| "orderly (Stopped e) = False"
| "orderly r = True"

lemma emitted_error: "emit_stream_tool_lifecycle inp b i n k up l = (l1, Inl e) \<Longrightarrow> \<exists>m. e = OtherError m"
  by (auto simp: emit_stream_tool_lifecycle_def Let_def split: sum.splits option.splits)

definition tracked :: "reading \<Rightarrow> bool" where
  "tracked rd \<longleftrightarrow> created_ids (log_events (log rd)) \<subseteq> dom (sequences rd) \<and> dom (sequences rd) \<subseteq> fst ` set (att_tool_calls (attempt_of rd))"

lemma consume_event_tool_calls: "consume_event a ev = Inr a' \<Longrightarrow> set (att_tool_calls a) \<subseteq> set (att_tool_calls a')"
  by (cases ev) (auto split: sum.splits prod.splits option.splits)

lemma stream_step_tracked:
  assumes "stream_step inp b ev rd = (rd', Inr x)" "tracked rd"
  shows "tracked rd'"
proof (cases "\<exists>i n idx. ev = ToolCallStart i n idx")
  case True
  then obtain i n idx where ev: "ev = ToolCallStart i n idx" by blast
  obtain l y where e: "emit_stream_tool_lifecycle inp b i n 0 (LcCreated (Some idx)) (log rd) = (l, y)" by fastforce
  then obtain k where y: "y = Inr k" using assms(1) ev by (cases y) auto
  have "log rd' = l" "sequences rd' = (sequences rd)(i \<mapsto> k)" "att_tool_calls (attempt_of rd') = att_tool_calls (attempt_of rd) @ [(i, n)]"
    using assms(1) by (auto simp: ev e y)
  then show ?thesis using assms(2) emitted_ids(1) [OF e [unfolded y]] by (simp add: tracked_def) blast
next
  case False
  have calls: "set (att_tool_calls (attempt_of rd)) \<subseteq> set (att_tool_calls (attempt_of rd'))"
    by (rule consume_event_tool_calls [OF stream_step_consumes [OF assms(1)]])
  have "created_ids (log_events (log rd')) = created_ids (log_events (log rd)) \<and> dom (sequences rd') = dom (sequences rd)"
    using assms(1) False
    by (cases ev) (auto simp: Let_def split: sum.splits prod.splits option.splits if_splits dest!: emitted_ids(1))
  then show ?thesis using assms(2) calls unfolding tracked_def by blast
qed

lemma read_stream_tracked:
  "read_stream inp b left evs rd = (rd', z) \<Longrightarrow> tracked rd \<Longrightarrow> (\<forall>e. z \<noteq> ReadFailed e) \<Longrightarrow> tracked rd'"
  using read_stream_keeps [of inp b left evs rd rd' z tracked] stream_step_tracked by (cases z) auto

lemma stream_step_failed: "stream_step inp b ev rd = (rd', Inl e) \<Longrightarrow> \<not> orderly (Stopped e)"
  by (cases ev) (auto simp: Let_def split: sum.splits prod.splits option.splits if_splits dest!: emitted_error)

lemma read_failed: "read_stream inp b left evs rd = (rd', ReadFailed e) \<Longrightarrow> \<not> orderly (Stopped e)"
  using read_stream_keeps [of inp b left evs rd rd' "ReadFailed e" "\<lambda>_. True"] stream_step_failed by auto

lemma tracked_start: "tracked (reading_start st)"
  by (simp add: tracked_def reading_start_def created_ids_def)

section \<open>Cancelling what a stream announced\<close>

lemma cancelled_lifecycles:
  "cancel_stream_tool_lifecycles inp b cs seqs reason l = (l1, Inr seqs') \<Longrightarrow>
     created_ids (log_events l1) = created_ids (log_events l) \<and> settled_ids (log_events l) \<subseteq> settled_ids (log_events l1)
     \<and> dom seqs \<inter> fst ` set cs \<subseteq> settled_ids (log_events l1)"
proof (induction cs arbitrary: seqs l)
  case (Cons c cs)
  obtain i n where c: "c = (i, n)" by fastforce
  show ?case
  proof (cases "seqs i")
    case None
    then have "cancel_stream_tool_lifecycles inp b cs seqs reason l = (l1, Inr seqs')" using Cons.prems c by simp
    from Cons.IH [OF this] show ?thesis using None c by auto
  next
    case (Some k)
    obtain l2 y where e: "emit_stream_tool_lifecycle inp b i n k (LcCancelled None reason) l = (l2, y)" by fastforce
    then obtain k' where y: "y = Inr k'" using Cons.prems c Some by (cases y) auto
    have "cancel_stream_tool_lifecycles inp b cs (seqs(i \<mapsto> k')) reason l2 = (l1, Inr seqs')" using Cons.prems c Some e y by simp
    from Cons.IH [OF this] show ?thesis using emitted_ids [OF e [unfolded y]] c by (auto simp: is_terminal_def)
  qed
qed simp

definition settled :: "loop_state \<Rightarrow> loop_state \<Rightarrow> bool" where
  "settled st st' \<longleftrightarrow> (\<exists>evs. events st' = events st @ evs \<and> created_ids evs \<subseteq> settled_ids evs)"

lemma settled_kept: "events st1 = events st \<Longrightarrow> created_ids (log_events (log rd)) \<subseteq> settled_ids (log_events (log rd)) \<Longrightarrow> settled st (kept rd st1)"
  by (simp add: settled_def kept_def)

lemma cancel_error: "cancel_stream_tool_lifecycles inp b cs seqs reason l = (l1, Inl e) \<Longrightarrow> \<exists>m. e = OtherError m"
  by (induction inp b cs seqs reason l rule: cancel_stream_tool_lifecycles.induct)
    (auto split: option.splits prod.splits sum.splits dest: emitted_error)

lemma cancelling_settles:
  assumes "cancelling inp b cs reason rd st1 r = (st', r')" "orderly r'" "tracked rd" "events st1 = events st"
    and "fst ` set (att_tool_calls (attempt_of rd)) \<subseteq> fst ` set cs"
  shows "settled st st' \<and> r' = r"
proof -
  obtain l y where c: "cancel_stream_tool_lifecycles inp b cs (sequences rd) reason (log rd) = (l, y)" by fastforce
  show ?thesis
  proof (cases y)
    case (Inl e)
    then obtain m where "r' = Stopped (OtherError m)"
      using assms(1) c cancel_error [OF c [unfolded Inl]] by (auto simp: cancelling_def cancel_calls_def)
    then show ?thesis using assms(2) by simp
  next
    case (Inr seqs)
    then have st': "st' = kept (rd\<lparr>log := l, sequences := seqs\<rparr>) st1" and r': "r' = r"
      using assms(1) c by (simp_all add: cancelling_def cancel_calls_def)
    have "created_ids (log_events l) \<subseteq> dom (sequences rd) \<inter> fst ` set cs"
      using cancelled_lifecycles [OF c [unfolded Inr]] assms(3,5) unfolding tracked_def by blast
    then have "created_ids (log_events l) \<subseteq> settled_ids (log_events l)"
      using cancelled_lifecycles [OF c [unfolded Inr]] by blast
    then show ?thesis unfolding st' by (intro conjI settled_kept r') (simp_all add: assms(4))
  qed
qed

section \<open>Running what a stream announced\<close>

lemma published:
  "publish_calls inp b cs seqs l = (l1, Inr seqs') \<Longrightarrow> created_ids (log_events l1) \<subseteq> created_ids (log_events l) \<union> call_id ` set cs"
proof (induction cs arbitrary: seqs l)
  case (Cons c cs)
  let ?first = "case seqs (call_id c) of Some n \<Rightarrow> (l, Inr n)
    | None \<Rightarrow> emit_stream_tool_lifecycle inp b (call_id c) (call_name c) 0 (LcCreated None) l"
  obtain l2 x where f: "?first = (l2, x)" by fastforce
  then obtain n where x: "x = Inr n" using Cons.prems by (cases x) auto
  have first: "created_ids (log_events l2) \<subseteq> created_ids (log_events l) \<union> {call_id c}"
    using f x emitted_ids(1) by (fastforce split: option.splits)
  obtain l3 y where g: "emit_stream_tool_lifecycle inp b (call_id c) (call_name c) n (LcInputReady (call_arguments c)) l2 = (l3, y)" by fastforce
  then obtain k where y: "y = Inr k" using Cons.prems f x by (cases y) auto
  have "publish_calls inp b cs (seqs(call_id c \<mapsto> k)) l3 = (l1, Inr seqs')" using Cons.prems f x g y by simp
  from Cons.IH [OF this] show ?case using first emitted_ids(1) [OF g [unfolded y]] by auto
qed simp

lemma publish_error: "publish_calls inp b cs seqs l = (l1, Inl e) \<Longrightarrow> \<exists>m. e = OtherError m"
  by (induction inp b cs seqs l rule: publish_calls.induct) (auto split: option.splits prod.splits sum.splits dest: emitted_error)

lemma run_error_disorderly: "\<not> orderly (Stopped (run_error_of e))"
  by (cases e rule: run_error_of.cases) simp_all

lemma collect_error: "collect_results rs = Inl e \<Longrightarrow> \<not> orderly (Stopped e)"
  by (induction rs rule: collect_results.induct) (auto simp: run_error_disorderly split: sum.splits)

lemma calls_run:
  "run_calls env inp b k cs files = (files', evs, rs) \<Longrightarrow> collect_results rs = Inr outs \<Longrightarrow>
     (call_id \<circ> fst) ` set cs \<subseteq> settled_ids evs \<and> created_ids evs \<subseteq> (call_id \<circ> fst) ` set cs"
proof (induction cs arbitrary: k files files' evs rs outs)
  case (Cons p cs)
  obtain c n where p: "p = (c, n)" by fastforce
  obtain s r where x: "execute_call (surroundings env inp b k) c n files = (s, r)" by fastforce
  obtain files1 evs1 rs1 where y: "run_calls env inp b (k + 1) cs (result_files_of s) = (files1, evs1, rs1)" using prod_cases3 by blast
  have evs: "evs = map fst (delivered s) @ evs1" and rs: "rs = r # rs1" using Cons.prems(1) p x y by auto
  obtain out where out: "r = Inr out" using Cons.prems(2) rs by (cases r) auto
  obtain outs1 where outs1: "collect_results rs1 = Inr outs1" using Cons.prems(2) rs out by (auto split: sum.splits)
  have "created_ids (map fst (delivered s)) \<subseteq> {call_id c}" using call_events(1) [OF x] by (auto simp: created_ids_def)
  then show ?case using Cons.IH [OF y outs1] call_events(2) [OF x out] by (auto simp: evs p)
qed simp

lemma record_batch_events [simp]: "events (record_batch env inp outs st) = events st"
  by (simp add: record_batch_def Let_def split: prod.splits)

lemma kept_events [simp]: "events (kept rd st) = events st @ log_events (log rd)"
  by (simp add: kept_def)

lemma with_calls_events [simp]: "events (with_calls tx cs m st) = events st" "store_of (with_calls tx cs m st) = store_of st"
  by (simp_all add: with_calls_def)

lemma tools_turn_settles:
  assumes t: "tools_turn env inp b tx cs m rd st = (st', r)" and r: "orderly r"
    and created: "created_ids (log_events (log rd)) \<subseteq> call_id ` set cs"
  shows "settled st st'"
proof -
  obtain l x where p: "publish_calls inp b cs (sequences rd) (log rd) = (l, x)" by fastforce
  obtain seqs where x: "x = Inr seqs" using t p r publish_error [of inp b cs "sequences rd" "log rd" l] by (cases x) (auto simp: tools_turn_def)
  have n: "find (\<lambda>c. seqs (call_id c) = None) cs = None" using t p x r by (auto simp: tools_turn_def Let_def split: option.splits)
  let ?cs = "map (\<lambda>c. (c, the (seqs (call_id c)))) cs"
  obtain files evs rs where run: "run_calls env inp b 0 ?cs (store_of st) = (files, evs, rs)" using prod_cases3 by blast
  let ?st3 = "(kept (rd\<lparr>log := l\<rparr>) (with_calls tx cs m st))\<lparr>store_of := files, events := events (with_calls tx cs m st) @ log_events l @ evs\<rparr>"
  have st': "(case collect_results rs of Inl e \<Rightarrow> (?st3, Stopped e) | Inr outs \<Rightarrow> (record_batch env inp (zip cs outs) ?st3, GoOn)) = (st', r)"
    using t p x n run by (simp add: tools_turn_def Let_def)
  obtain outs where outs: "collect_results rs = Inr outs"
  proof (cases "collect_results rs")
    case (Inl e)
    then show ?thesis using st' collect_error [OF Inl] r by simp
  qed
  have "events st' = events st @ log_events l @ evs" using st' outs by auto
  moreover have "call_id ` set cs \<subseteq> settled_ids evs" "created_ids evs \<subseteq> call_id ` set cs"
    using calls_run [OF run outs] by (auto simp: image_comp)
  moreover have "created_ids (log_events l) \<subseteq> call_id ` set cs" using published [OF p [unfolded x]] created by blast
  ultimately have "created_ids (log_events l) \<subseteq> settled_ids evs" "created_ids evs \<subseteq> settled_ids evs" by (meson subset_trans)+
  then show ?thesis using \<open>events st' = events st @ log_events l @ evs\<close> by (auto simp: settled_def)
qed

lemma final_turn_settles: "final_turn env tx m st = (st', r) \<Longrightarrow> events st' = events st"
  by (auto simp: final_turn_def Let_def split: if_splits)

lemma failed_turn_settles:
  assumes t: "failed_turn inp b err rd st = (st', r)" and r: "orderly r" and rd: "tracked rd"
  shows "settled st st'"
  using t by (auto simp: failed_turn_def Let_def split: prod.splits sum.splits option.splits
      dest!: cancelling_settles [OF _ r rd, of _ _ _ _ _ _ _ st, OF _ _ subset_refl])

lemma reserved_turn_settles:
  assumes t: "reserved_turn env inp b tx cs m rd st = (st', r)" and r: "orderly r" and rd: "tracked rd"
    and started: "fst ` set (att_tool_calls (attempt_of rd)) \<subseteq> call_id ` set cs"
  shows "settled st st'"
proof -
  have started': "fst ` set (att_tool_calls (attempt_of rd)) \<subseteq> fst ` set (ids_and_names cs)"
    using started by (simp add: ids_and_names_def image_image)
  have created: "created_ids (log_events (log rd)) \<subseteq> call_id ` set cs" using rd started unfolding tracked_def by blast
  show ?thesis
  proof (cases "if has_named_tool_call cs \<or> empty_name_retries st \<noteq> 0 then None else find_empty_tool_name_call cs")
    case (Some c)
    show ?thesis using t unfolding reserved_turn_def Some option.case
      by (auto simp: Let_def split: prod.splits dest!: cancelling_settles [OF _ r rd _ started']) (simp add: settled_def)
  next
    case None
    show ?thesis
    proof (cases "after_llm_call env inp tx cs (request_usage (attempt_of rd)) (iterations st)")
      case (Some e)
      then show ?thesis using t unfolding reserved_turn_def None option.case
        by (auto dest!: cancelling_settles [OF _ r rd refl started'])
    next
      case h: None
      show ?thesis
      proof (cases "cs = []")
        case True
        then have "final_turn env tx m (kept rd st) = (st', r)" using t h unfolding reserved_turn_def None option.case by simp
        from final_turn_settles [OF this] show ?thesis using created True by (auto simp: settled_def)
      next
        case False
        then have "tools_turn env inp b tx cs m rd st = (st', r)" using t h unfolding reserved_turn_def None option.case by simp
        then show ?thesis using tools_turn_settles r created by blast
      qed
    qed
  qed
qed

lemma calls_turn_settles:
  assumes t: "calls_turn env inp b tx cs m rd st = (st', r)" and r: "orderly r" and rd: "tracked rd"
    and started: "fst ` set (att_tool_calls (attempt_of rd)) \<subseteq> call_id ` set cs"
  shows "settled st st'"
proof -
  have started': "fst ` set (att_tool_calls (attempt_of rd)) \<subseteq> fst ` set (ids_and_names cs)"
    using started by (simp add: ids_and_names_def image_image)
  obtain b1 x where rb: "reserve_batch (length cs) (budget st) = (b1, x)" by fastforce
  show ?thesis
  proof (cases x)
    case (Inl e)
    then show ?thesis using t rb by (auto simp: calls_turn_def dest!: cancelling_settles [OF _ r rd refl started'])
  next
    case (Inr u)
    then have "reserved_turn env inp b tx cs m rd (st\<lparr>budget := b1\<rparr>) = (st', r)" using t rb by (simp add: calls_turn_def)
    from reserved_turn_settles [OF this r rd started] show ?thesis by (simp add: settled_def)
  qed
qed

lemma ids_of_map: "map call_id cs = map fst xs \<Longrightarrow> call_id ` set cs = fst ` set xs"
  by (metis list.set_map)

lemma finalized_ids: "fst ` set (att_tool_calls a) = call_id ` set (finalize_calls env a)"
  using ids_of_map [OF finalize_calls_keep(1)] by simp

lemma parse_text_ids: "parse_text env (tx, cs) = (tx', cs') \<Longrightarrow> call_id ` set cs \<subseteq> call_id ` set cs'"
  by (auto simp: parse_text_def split: if_splits prod.splits)

lemma recover_text_ids: "recover_text env (tx, cs) = (tx', cs') \<Longrightarrow> call_id ` set cs \<subseteq> call_id ` set cs'"
  by (auto simp: recover_text_def split: if_splits prod.splits)

lemma answered_turn_settles:
  assumes t: "answered_turn env inp b rd st = (st', r)" and r: "orderly r" and rd: "tracked rd"
  shows "settled st st'"
proof -
  obtain m res where c: "close_active_segment (att_materializer (attempt_of rd)) Completed = (m, res)" by fastforce
  have res: "res = Inr ()" using t c r by (cases res) (auto simp: answered_turn_def Let_def)
  let ?st1 = "st\<lparr>retries := (retries st)\<lparr>server_retries_remaining := SERVER_MAX_RETRIES, unknown_retries_remaining := UNKNOWN_MAX_RETRIES\<rparr>,
      usage_of := record_request (request_usage (attempt_of rd)) (usage_of st)\<rparr>"
  obtain tx cs where p: "parse_text env (accumulated_text (attempt_of rd), finalize_calls (history env) (attempt_of rd)) = (tx, cs)" by fastforce
  obtain tx1 cs1 where q: "recover_text env (tx, cs) = (tx1, cs1)" by fastforce
  have ids: "fst ` set (att_tool_calls (attempt_of rd)) \<subseteq> call_id ` set cs"
    using parse_text_ids [OF p] finalized_ids [of _ "history env"] by simp
  show ?thesis
  proof (cases "mode env = TextMode \<and> cs = [] \<and> looks_like_failed_tool_call env tx \<and> malformed_retries st = 0")
    case True
    then have "created_ids (log_events (log rd)) = {}" using rd ids unfolding tracked_def by auto
    then show ?thesis using t c res p True by (auto simp: answered_turn_def Let_def settled_def)
  next
    case False
    then have "calls_turn env inp b tx1 cs1 m rd ?st1 = (st', r)"
      using t c res p q by (auto simp: answered_turn_def Let_def)
    from calls_turn_settles [OF this r rd] show ?thesis using ids recover_text_ids [OF q] by (auto simp: settled_def)
  qed
qed

lemma open_turn_events: "open_turn env inp st = (st', r) \<Longrightarrow> events st' = events st"
  by (auto simp: open_turn_def Let_def split: if_splits sum.splits prod.splits)

lemma turn_settles:
  assumes t: "turn env inp st = (st', r)" and r: "orderly r"
  shows "settled st st'"
proof -
  obtain st1 x where o: "open_turn env inp st = (st1, x)" by fastforce
  have "settled st1 st'"
  proof (cases x)
    case (Inl e)
    then show ?thesis using t o by (auto simp: turn_def settled_def)
  next
    case (Inr y)
    obtain ss b where y: "y = (ss, b)" by fastforce
    obtain rd z where z: "read_stream inp b (cancel_at inp) (stream inp) (reading_start st1) = (rd, z)" by fastforce
    have rd: "tracked rd" if "\<forall>e. z \<noteq> ReadFailed e" by (rule read_stream_tracked [OF z tracked_start that])
    show ?thesis
    proof (cases z)
      case ReadAll
      then show ?thesis using t o Inr y z r rd answered_turn_settles failed_turn_settles by (auto simp: turn_def split: option.splits)
    next
      case ReadCancelled
      then have "tracked rd" using rd by simp
      moreover have c: "cancelled_turn inp b rd st1 = (st', r)" using t o Inr y z ReadCancelled by (simp add: turn_def)
      ultimately show ?thesis using cancelling_settles [OF c [unfolded cancelled_turn_def] r] by simp
    next
      case (ReadFailed e)
      then have "r = Stopped e" using t o Inr y z by (auto simp: turn_def)
      then show ?thesis using r read_failed [OF z [unfolded ReadFailed]] by simp
    qed
  qed
  then show ?thesis using open_turn_events [OF o] by (simp add: settled_def)
qed

lemma run_turns_settle:
  "run_turns env inps st = (st', r) \<Longrightarrow> orderly r \<Longrightarrow> created_ids (events st) \<subseteq> settled_ids (events st)
     \<Longrightarrow> created_ids (events st') \<subseteq> settled_ids (events st')"
proof (induction inps arbitrary: st)
  case (Cons inp inps)
  obtain st1 r1 where t: "turn env inp st = (st1, r1)" by fastforce
  have step: "created_ids (events st1) \<subseteq> settled_ids (events st1)" if "orderly r1"
    using turn_settles [OF t that] Cons.prems(3) by (auto simp: settled_def)
  show ?case
  proof (cases "r1 = GoOn")
    case True
    then have "run_turns env inps st1 = (st', r)" using Cons.prems(1) t by simp
    then show ?thesis using Cons.IH step True Cons.prems(2) by simp
  next
    case False
    then have "st' = st1" "r = r1" using Cons.prems(1) t by (cases r1; auto)+
    then show ?thesis using step Cons.prems(2) by simp
  qed
qed simp

text \<open>
  C12. When a run answers, asks for a compaction or reaches its limit of tool calls, every call
  the user interface was told of has got its terminal event: completed, rejected or cancelled.
  This holds for the calls of broken streams, of answers over the limit, of blocked and failing
  tools alike.
\<close>

theorem created_calls_settle:
  assumes "orderly (snd (run_agent_loop env start_hook inps (loop_start env prompt user sender hist files)))"
  shows "created_ids (events (fst (run_agent_loop env start_hook inps (loop_start env prompt user sender hist files))))
    \<subseteq> settled_ids (events (fst (run_agent_loop env start_hook inps (loop_start env prompt user sender hist files))))"
proof -
  let ?st = "loop_start env prompt user sender hist files"
  obtain st r where run: "run_agent_loop env start_hook inps ?st = (st, r)" by fastforce
  then have "r = Stopped AgentCancelled \<or> (\<exists>m. r = Stopped (OtherError m)) \<or> run_turns env inps ?st = (st, r)"
    by (auto simp: run_agent_loop_def split: option.splits sum.splits hook_action.splits)
  then have "run_turns env inps ?st = (st, r)" using assms run by auto
  moreover have "events ?st = []" by (simp add: loop_start_def Let_def)
  ultimately show ?thesis using run_turns_settle assms run by simp
qed

section \<open>A sample run that reaches its limit\<close>

lemma sample_prompt: "estimate_prompt_tokens (print_json demo_env) ms = 0" "estimate_tool_schema_tokens (print_json demo_env) ss = 0"
  by (simp_all add: estimate_prompt_tokens_def estimate_tool_schema_tokens_def estimate_message_tokens_def estimate_prompt_text_tokens_def demo_env_def
      trim_def trim_start_def trim_end_def Let_def)

lemma sample_stops:
  "orderly (snd (run_agent_loop (sample_loop 0 1000) (\<lambda>_. Some (Inr Continue)) [sample_input] (loop_start (sample_loop 0 1000) ''p'' (UserText ''hi'') None [] files)))"
proof -
  obtain st1 b where o: "open_turn (sample_loop 0 1000) sample_input (loop_start (sample_loop 0 1000) ''p'' (UserText ''hi'') None [] files) = (st1, Inr ([], b))"
    and st1: "budget st1 = budget_new 0" "raws st1 = []"
    by (simp add: open_turn_def sample_loop_def sample_input_def loop_start_def Let_def choose_schemas_def before_llm_call_def evaluate_context_budget_def
      sample_prompt should_trigger_automatic_checkpoint_def saturating_mul_def AUTO_COMPACTION_RATIO_def)
  obtain rd where r: "read_stream sample_input b None (stream sample_input) (reading_start st1) = (rd, ReadAll)"
    and a: "att_tool_calls (attempt_of rd) = [(''c'', ''ask'')]" "att_materializer (attempt_of rd) = materializer_pending" "stream_error (attempt_of rd) = None"
       "received_done (attempt_of rd)" "sequences rd ''c'' = Some 2" "accumulated_text (attempt_of rd) = ''hello''"
    by (simp add: sample_input_def reading_start_def attempt_start_def emit_stream_tool_lifecycle_def Let_def st1 saturating_add_def)
  let ?cs = "finalize_calls demo_env (attempt_of rd)"
  have "map call_id ?cs = [''c'']" using finalize_calls_keep(1) [of demo_env "attempt_of rd"] a by simp
  then obtain c where cs: "?cs = [c]" "call_id c = ''c''" by (cases ?cs) auto
  obtain st2 where "answered_turn (sample_loop 0 1000) sample_input b rd st1 = (st2, Stopped (MaxToolsThresholdReached 0 0 1))"
    using a cs by (auto simp: answered_turn_def close_active_segment_def materializer_pending_def segment_pending_def Let_def parse_text_def recover_text_def sample_loop_def
      calls_turn_def reserve_batch_def st1 budget_new_def cancelling_def cancel_calls_def ids_and_names_def emit_stream_tool_lifecycle_def sample_input_def)
  moreover have "attempt_error (budget_used (budget st1)) (attempt_of rd) = None" using a by (simp add: attempt_error_def)
  ultimately show ?thesis using o r by (simp add: run_agent_loop_def turn_def sample_input_def)
qed

theorem created_calls_settle_witness:
  "created_ids (events (fst (run_agent_loop (sample_loop 0 1000) (\<lambda>_. Some (Inr Continue)) [sample_input]
      (loop_start (sample_loop 0 1000) ''p'' (UserText ''hi'') None [] (store_new ''/d'' (\<lambda>_. None))))))
    \<subseteq> settled_ids (events (fst (run_agent_loop (sample_loop 0 1000) (\<lambda>_. Some (Inr Continue)) [sample_input]
      (loop_start (sample_loop 0 1000) ''p'' (UserText ''hi'') None [] (store_new ''/d'' (\<lambda>_. None))))))"
  by (rule created_calls_settle [OF sample_stops])

end
