(* ===== verification/Loop_Compaction.thy ===== *)
theory Loop_Compaction
  imports Loop_Events
begin

text \<open>
  The request for a compaction: the messages to summarise and the messages to go on with are the
  conversation, and the summarised part leaves no call behind whose result it lacks.
\<close>

definition stays :: "turn_end \<Rightarrow> bool" where
  "stays r \<longleftrightarrow> (\<forall>q. r \<noteq> Stopped (ContextCompactionRequired q))"

lemma stays_simps [simp]:
  "stays GoOn" "stays (Returned x)" "stays (Stopped (OtherError m))" "stays (Stopped AgentCancelled)" "stays (Stopped (UpdateRejected e))"
  "stays (Stopped (MaxToolsThresholdReached t u n))" "stays (Stopped (PayloadRejected pe))"
  by (simp_all add: stays_def)

lemma disorderly_stays: "\<not> orderly (Stopped e) \<Longrightarrow> stays (Stopped e)"
  by (cases e) simp_all

lemma cancelling_stays: "cancelling inp b cs reason rd st r = (st', r') \<Longrightarrow> stays r \<Longrightarrow> stays r'"
  by (auto simp: cancelling_def cancel_calls_def split: prod.splits sum.splits dest!: cancel_error)

lemma cancelled_turn_stays: "cancelled_turn inp b rd st = (st', r) \<Longrightarrow> stays r"
  unfolding cancelled_turn_def by (erule cancelling_stays) (simp split: prod.split sum.split)

lemma failed_turn_stays: "failed_turn inp b err rd st = (st', r) \<Longrightarrow> stays r"
  by (auto simp: failed_turn_def Let_def split: prod.splits sum.splits option.splits dest!: cancelling_stays)

lemma final_turn_stays: "final_turn env tx m st = (st', r) \<Longrightarrow> stays r"
  by (auto simp: final_turn_def Let_def split: if_splits)

lemma tools_turn_stays: "tools_turn env inp b tx cs m rd st = (st', r) \<Longrightarrow> stays r"
  by (auto simp: tools_turn_def Let_def split: prod.splits sum.splits option.splits dest!: publish_error dest: collect_error intro: disorderly_stays)

lemma after_llm_call_stays: "after_llm_call env inp tx cs u i = Some e \<Longrightarrow> stays (Stopped e)"
  by (auto simp: after_llm_call_def split: option.splits sum.splits hook_action.splits)

lemma reserved_turn_stays: "reserved_turn env inp b tx cs m rd st = (st', r) \<Longrightarrow> stays r"
  unfolding reserved_turn_def Let_def
  by (auto split: option.splits prod.splits if_splits dest!: cancelling_stays dest: after_llm_call_stays final_turn_stays tools_turn_stays)

lemma calls_turn_stays: "calls_turn env inp b tx cs m rd st = (st', r) \<Longrightarrow> stays r"
  using reserve_cases [of "length cs" "budget st"]
  by (auto simp: calls_turn_def split: prod.splits sum.splits dest!: cancelling_stays dest: reserved_turn_stays)

lemma answered_turn_stays: "answered_turn env inp b rd st = (st', r) \<Longrightarrow> stays r"
  by (auto simp: answered_turn_def Let_def split: prod.splits sum.splits if_splits dest: calls_turn_stays)

lemma turn_stays:
  assumes "turn env inp st = (st', r)" "\<not> stays r"
  shows "\<exists>e. open_turn env inp st = (st', Inl e) \<and> r = Stopped e"
  using assms
  by (auto simp: turn_def split: prod.splits sum.splits read_end.splits option.splits
      dest: cancelled_turn_stays failed_turn_stays answered_turn_stays read_failed disorderly_stays)

section \<open>Where the conversation is split\<close>

definition splits_well :: "loop_state \<Rightarrow> bool" where
  "splits_well st \<longleftrightarrow> well_answered (conversation st) \<and> continuation_start st \<le> length (conversation st)
     \<and> well_answered (take (continuation_start st) (conversation st))"

lemma asks_same_splits: "asks_same st st' \<Longrightarrow> splits_well st \<Longrightarrow> splits_well st'"
  by (auto simp: asks_same_def splits_well_def)

lemma open_turn_start: "open_turn env inp st = (st', r) \<Longrightarrow> continuation_start st' = continuation_start st"
  by (auto simp: open_turn_def Let_def split: if_splits sum.splits prod.splits)

lemma turn_splits:
  assumes t: "turn env inp st = (st', GoOn)" and well: "splits_well st" and inp: "leaves_messages inp" "announced (stream inp)"
  shows "splits_well st'"
proof -
  obtain st1 x where o: "open_turn env inp st = (st1, x)" by fastforce
  have w1: "splits_well st1" using open_turn_asks [OF o inp(1)] open_turn_start [OF o] well by (simp add: splits_well_def)
  obtain ss b where x: "x = Inr (ss, b)" using t o by (cases x) (auto simp: turn_def)
  obtain rd z where z: "read_stream inp b (cancel_at inp) (stream inp) (reading_start st1) = (rd, z)" by fastforce
  have "z = ReadAll"
    using t o x z by (cases z) (auto simp: turn_def cancelled_turn_def split: prod.splits sum.splits dest!: cancelling_go_on)
  have "asks_same st1 st'"
  proof (cases "attempt_error (budget_used (budget st1)) (attempt_of rd)")
    case None
    then have "answered_turn env inp b rd st1 = (st', GoOn)" using t o x z \<open>z = ReadAll\<close> by (simp add: turn_def)
    moreover have "attempt_calls (attempt_of rd) \<subseteq> started_calls (attempt_of rd)"
      by (rule read_announced [OF z [unfolded \<open>z = ReadAll\<close>] attempt_error_None [OF None] inp(2)])
    ultimately show ?thesis using answered_turn_asks by blast
  next
    case (Some err)
    then have "failed_turn inp b err rd st1 = (st', GoOn)" using t o x z \<open>z = ReadAll\<close> by (simp add: turn_def)
    then show ?thesis by (rule failed_turn_asks)
  qed
  then show ?thesis using asks_same_splits w1 by blast
qed

lemma compaction_asked:
  assumes "open_turn env inp st = (st', Inl (ContextCompactionRequired q))" "leaves_messages inp"
  shows "conversation st' = conversation st \<and> (summary_messages q, continuation_messages q) = split_context_for_compaction (conversation st) (continuation_start st)
    \<and> compaction_required (cr_metadata q) \<and> automatic_checkpointing (limits env)"
  using assms
  by (auto simp: open_turn_def before_llm_call_def choose_schemas_def leaves_messages_def should_trigger_automatic_checkpoint_def Let_def
      split: if_splits sum.splits prod.splits option.splits hook_action.splits tool_choice.splits)

lemma run_turns_splits:
  "run_turns env inps st = (st', Stopped (ContextCompactionRequired q)) \<Longrightarrow> splits_well st
     \<Longrightarrow> \<forall>inp \<in> set inps. leaves_messages inp \<and> announced (stream inp) \<Longrightarrow>
     summary_messages q @ continuation_messages q = conversation st' \<and> well_answered (summary_messages q)
     \<and> compaction_required (cr_metadata q) \<and> automatic_checkpointing (limits env)"
proof (induction inps arbitrary: st)
  case (Cons inp inps)
  obtain st1 r where t: "turn env inp st = (st1, r)" by fastforce
  show ?case
  proof (cases "r = GoOn")
    case True
    then have "splits_well st1" using turn_splits t Cons.prems by simp
    moreover have "run_turns env inps st1 = (st', Stopped (ContextCompactionRequired q))" using Cons.prems(1) t True by simp
    ultimately show ?thesis using Cons.IH Cons.prems(3) by simp
  next
    case False
    then have "st1 = st'" "r = Stopped (ContextCompactionRequired q)" using Cons.prems(1) t by (cases r; auto)+
    moreover have "leaves_messages inp" using Cons.prems(3) by simp
    ultimately have asked: "conversation st' = conversation st
      \<and> (summary_messages q, continuation_messages q) = split_context_for_compaction (conversation st) (continuation_start st)
      \<and> compaction_required (cr_metadata q) \<and> automatic_checkpointing (limits env)"
      using turn_stays [OF t] compaction_asked by (auto simp: stays_def)
    then show ?thesis using Cons.prems(2) by (auto simp: split_context_for_compaction_def splits_well_def split: if_splits)
  qed
qed simp


lemma sample_compacts:
  "\<exists>st q. run_agent_loop (sample_loop 0 0) (\<lambda>_. Some (Inr Continue)) [sample_input] (loop_start (sample_loop 0 0) ''p'' (UserText ''hi'') None [] files)
     = (st, Stopped (ContextCompactionRequired q))"
  by (simp add: run_agent_loop_def turn_def open_turn_def sample_loop_def sample_input_def loop_start_def Let_def choose_schemas_def before_llm_call_def evaluate_context_budget_def
      sample_prompt should_trigger_automatic_checkpoint_def saturating_mul_def split: prod.splits)


end
