(* ===== verification/Spec2Isabelle.thy ===== *)
theory Spec2Isabelle
  imports Segment_Balance Responses_Balance Hooks Stop_Gate Loop_Detector Retry Client_Locality Login_Guard
    Tool_Policy Channel_Access Cron_Service Prompt_Queue Task_List Journal_Store Active_Context
    Ui_Sync Ui_Fork Loop_Compaction
begin

text \<open>
  Chelix is an agent server in Rust. A user or a channel sends a prompt; the chat service
  admits it to a session, the agent runner streams an answer from a model provider, runs the
  tools the answer asks for, and repeats; around it stand the HTTP gateway with its
  authentication, the channel adapters, webhooks and the cron scheduler. This development
  models the parts whose behaviour rests on their own state and not on an outside library,
  and proves what makes them correct. Sources are named by their path under \<^verbatim>\<open>src/\<close>.

  \<^bold>\<open>From the provider to the transcript.\<close>

  \<^item> \<^verbatim>\<open>Provider_Output\<close> models \<^verbatim>\<open>crates/common/src/provider_output.rs\<close>: items, updates and the
    segment materializer (\<open>apply_update\<close>, \<open>close\<close>, redaction). Lemmas: the invariant
    \<open>mat_ok\<close> along every run, a rejected call changes no content, an update takes effect once,
    the result depends only on the order within each item, redaction commutes.
  \<^item> \<^verbatim>\<open>Item_Positions\<close> models \<^verbatim>\<open>crates/common/src/item_positions.rs\<close>. The locale
    \<open>position_supply\<close> states what a stream needs of an allocator; it is interpreted on
    \<open>position_for\<close>.
  \<^item> \<^verbatim>\<open>Chat_Stream\<close> and \<^verbatim>\<open>Responses_Stream\<close> model the two streaming adapters of
    \<^verbatim>\<open>crates/providers/src/openai_compat/provider.rs\<close>, one definition per function or event
    type, the reasoning-tag machine included.
  \<^item> \<^verbatim>\<open>Sse_Lines\<close> models the line buffer (\<^verbatim>\<open>openai_compat/sse_lines.rs\<close>) and the byte loop that
    \<^verbatim>\<open>openai/provider/streaming.rs\<close> has once per adapter, generic in the adapter (record
    \<open>wire\<close>). The locale \<open>sse_session\<close> states the contract of an adapter with the loop: what
    its events establish while the stream goes on and when it ends. It is interpreted four
    times, for each adapter on the link with its consumer and on the balance of its segment.
  \<^item> \<^verbatim>\<open>Stream_Attempt\<close> models the consumer in \<^verbatim>\<open>crates/agents/src/runner/streaming.rs\<close>: the
    event loop of one attempt and the verdict after it.
  \<^item> \<^verbatim>\<open>Update_Link\<close>, \<^verbatim>\<open>Chat_Link\<close> and \<^verbatim>\<open>Responses_Link\<close> compose them: a simulation between
    stream and consumer, from bytes to transcript. No update is refused, the text shown is the
    text materialized, the segment ends closed, the arguments decoded are the materialized ones.
    \<^verbatim>\<open>Segment_Balance\<close> and \<^verbatim>\<open>Responses_Balance\<close> count announcements and closings.

  \<^bold>\<open>The history of a session.\<close>

  \<^item> \<^verbatim>\<open>Tool_Lifecycle\<close> models \<^verbatim>\<open>crates/common/src/tool_lifecycle.rs\<close> and \<^verbatim>\<open>tool_disclosure.rs\<close>: the
    events of a tool call and the tool names a record makes visible.
  \<^item> \<^verbatim>\<open>Session_Journal\<close> models the writing half of \<^verbatim>\<open>crates/sessions/src/journal.rs\<close> on the rows of
    one session (\<open>session_tables\<close>), a transaction per definition; \<open>represents\<close> says that the
    tables hold a list of records. \<^verbatim>\<open>Journal_Store\<close> puts the sessions together with
    \<^verbatim>\<open>crates/sessions/src/store.rs\<close> and proves that every run of operations refines the
    operations on lists. \<^verbatim>\<open>Journal_Reads\<close> models the reading half; the paging loops are equal to
    plain searches.
  \<^item> \<^verbatim>\<open>Chat_History\<close> models \<^verbatim>\<open>crates/agents/src/model/\<close>\<^verbatim>\<open>chat_reconstruction.rs\<close>, \<^verbatim>\<open>convert.rs\<close>,
    \<^verbatim>\<open>aborted_calls.rs\<close> and \<^verbatim>\<open>arguments.rs\<close>: records become provider messages. \<^verbatim>\<open>Chat_Replay\<close>
    proves what those messages are: results and calls match, an interrupted segment appears
    once, with the content of its materializer.
  \<^item> \<^verbatim>\<open>Active_Context\<close> models \<^verbatim>\<open>crates/chat/src/active_context.rs\<close> and \<^verbatim>\<open>compaction_reminder.rs\<close>
    over both: what is loaded from the tables since the last checkpoint is the conversion of
    the whole history.
  \<^item> \<^verbatim>\<open>Ui_Projection\<close> and \<^verbatim>\<open>Ui_Engine\<close> model what clients are shown, \<^verbatim>\<open>ui_history_projection.rs\<close>,
    \<^verbatim>\<open>ui_history_engine.rs\<close> and \<^verbatim>\<open>ui_history_database.rs\<close> of \<^verbatim>\<open>crates/sessions/src\<close>: entries in memory
    with revisions, their rows, the flush between the two. \<^verbatim>\<open>Ui_Memory\<close> says what each operation
    does to the memory (\<open>touches\<close>), and \<^verbatim>\<open>Ui_Sync\<close> that under every interleaving (\<open>ui_step\<close>)
    memory and rows stay in step (\<open>sync_ok\<close>) and subscribers catch up. \<^verbatim>\<open>Ui_Fork\<close> models
    \<^verbatim>\<open>ui_history_fork.rs\<close>: where a session may be forked.

  \<^bold>\<open>Running a turn.\<close>

  \<^item> \<^verbatim>\<open>Stop_Gate\<close> models \<^verbatim>\<open>crates/chat/src/service/stop_gate.rs\<close> and \<^verbatim>\<open>session_gate.rs\<close>: every
    section under the lock is one step, and the lemmas speak about every interleaving of steps.
  \<^item> \<^verbatim>\<open>Hooks\<close> models \<^verbatim>\<open>crates/common/src/hooks.rs\<close>: registration, dispatch, circuit breaker.
  \<^item> \<^verbatim>\<open>Loop_Detector\<close> models \<^verbatim>\<open>crates/agents/src/tool_loop_detector.rs\<close> with a refinement to a
    specification that counts rounds per failed operation.
  \<^item> \<^verbatim>\<open>Retry\<close> models \<^verbatim>\<open>crates/agents/src/runner/retry.rs\<close>: classification and budgets.
  \<^item> \<^verbatim>\<open>Prompt_Queue\<close> models \<^verbatim>\<open>crates/sessions/src/prompt_queue.rs\<close> with its command loop and
    table, as a refinement of one numbered list of prompts per session, and the conversions of
    \<^verbatim>\<open>crates/chat/src/prompt_queue.rs\<close>.
  \<^item> \<^verbatim>\<open>Task_List\<close> models \<^verbatim>\<open>crates/tools/src/task_list.rs\<close>: the shared task lists with their files,
    the locked section of a request and its later write as separate steps.
  \<^item> \<^verbatim>\<open>Tool_Arguments\<close>, \<^verbatim>\<open>Tool_Results\<close> and \<^verbatim>\<open>Tool_Execution\<close> model one tool call
    (\<^verbatim>\<open>runner/tool_execution.rs\<close>, \<^verbatim>\<open>runner/tool_result.rs\<close> and \<^verbatim>\<open>tool_arg_validator.rs\<close> of
    \<^verbatim>\<open>crates/agents/src\<close>, \<^verbatim>\<open>crates/sessions/src/tool_results.rs\<close>): its checks, permissions, hooks,
    progress, cancellation, result and events, in a small state monad whose steps are specified
    by triples (\<open>spec\<close>).
  \<^item> \<^verbatim>\<open>Turn_Context\<close> and \<^verbatim>\<open>Agent_Loop\<close> model the loop around them
    (\<open>run_agent_loop_streaming_with_limits\<close> in \<^verbatim>\<open>runner/streaming.rs\<close>, \<^verbatim>\<open>runner/helpers.rs\<close>,
    \<^verbatim>\<open>context_budget.rs\<close>): \<open>turn\<close> is one iteration, composed of a definition per stage,
    \<open>run_agent_loop\<close> a run over the inputs of its iterations. \<^verbatim>\<open>Loop_Progress\<close> proves that it ends
    (the measure \<open>turns_left\<close> gives the number of iterations), \<^verbatim>\<open>Loop_Conversation\<close> what it asks,
    \<^verbatim>\<open>Loop_Events\<close> what it reports and \<^verbatim>\<open>Loop_Compaction\<close> where it splits the conversation.
  \<^item> \<^verbatim>\<open>Tool_Policy\<close> models \<^verbatim>\<open>crates/common/src/tool_policy.rs\<close> and \<^verbatim>\<open>crates/tools/src/policy.rs\<close>.

  \<^bold>\<open>Who gets in.\<close>

  \<^item> \<^verbatim>\<open>Admission\<close> models the webhook rate limiter (\<^verbatim>\<open>crates/webhooks/src/rate_limit.rs\<close>) and the
    HTTP throttle (\<^verbatim>\<open>crates/httpd/src/request_throttle.rs\<close>). The locale \<open>admission\<close> derives a
    bound on every window from a local law of a limiter; both limiters interpret it, and
    \<^verbatim>\<open>Client_Locality\<close> interprets it on the whole gate, with \<^verbatim>\<open>crates/auth/src/locality.rs\<close>.
  \<^item> \<^verbatim>\<open>Login_Guard\<close> models \<^verbatim>\<open>crates/httpd/src/login_guard.rs\<close> and its use by the login handler.
  \<^item> \<^verbatim>\<open>Channel_Access\<close> models allowlists (\<^verbatim>\<open>crates/channels/src/gating.rs\<close>), the Telegram access
    decision and one-time passcodes (\<^verbatim>\<open>crates/channels/src/otp.rs\<close>).

  \<^bold>\<open>Scheduled work.\<close>

  \<^item> \<^verbatim>\<open>Cron_Schedule\<close> and \<^verbatim>\<open>Cron_Service\<close> model \<^verbatim>\<open>crates/cron/src\<close>: next runs and durations on
    64-bit words, and the scheduler over the in-memory store, with an inductive relation for
    the interleavings of timer, executions and requests.

  \<^verbatim>\<open>Prelude\<close> holds the shared types and the locale \<open>run_invariant\<close> (what every step keeps,
  every run keeps), interpreted on the steps of several components; \<^verbatim>\<open>Rust_Text\<close> holds
  the string and JSON operations the sources use.

  \<^bold>\<open>Conventions.\<close> A mutable object is a record that operations return changed; a lock section
  is one step. Errors are left values of a sum. A 32- or 64-bit counter whose overflow can be
  reached is a word; counters that a run cannot bring to overflow are natural numbers. A clock
  reading is an argument of the operation that reads it. Hash maps are functions to options,
  or association lists where the code iterates over them. What the sources only call is a
  parameter: the JSON parser and printer, the UTF-8 decoder, the address parsers, the cron
  expression and time zone libraries, the credential check, generated identifiers, the
  decoders that serde derives. All loops terminate by a measure, so no fuel is used.

  \<^bold>\<open>Not modelled.\<close> Code whose content is input and output or a foreign library: HTTP and
  WebSocket routes, the web interface, databases and their migrations, sandboxes and
  processes, browsers, speech, telephony, TLS, encryption. The async glue that calls the
  modelled steps (\<^verbatim>\<open>chat_impl.rs\<close>, \<^verbatim>\<open>run_with_tools.rs\<close>) is represented only by the freedom
  to interleave them. Metrics, logging and user-interface callbacks are left out everywhere.
  Also left out: the request of a summary from the model and the rewriting of the journal
  after it (\<^verbatim>\<open>chat/src/compaction.rs\<close>), of which the agent loop only raises the request, and the
  parsers of tool calls in plain text with the cleaning of the final text
  (\<^verbatim>\<open>tool_parsing.rs\<close>, \<^verbatim>\<open>response_sanitizer.rs\<close>), which are parameters of the loop: its theorems
  hold for every result they may give.
\<close>

end
